(* ===== verification/Recertia_Prelude.thy ===== *)
theory Recertia_Prelude
  imports Complex_Main "HOL-Library.Sublist"
begin

section \<open>Shared vocabulary of the Recertia model\<close>

text \<open>
  This theory holds what every component uses: the names of the types the Python sources use
  for identifiers, times and token counters, the handful of Python string operations the code
  relies on (substring test, prefix test, lower case), fact collections, and generic lemmas on
  lists, options and maps.

  Conventions. Python integers are \<open>int\<close>. Python floats (costs, seconds, scores) are \<open>real\<close>: the
  code only adds, divides by a positive count and compares them. Instants are \<open>int\<close>
  (microseconds since an epoch); the code stores them as ISO-8601 UTC text, whose string order
  is the order of the instants. An exception is a value of an error type in the left of a sum.
  Free-text notes and reasons that no code path reads back are not part of the model.
\<close>

type_synonym run_id = string
type_synonym tenant = string
type_synonym skill_id = string
type_synonym instant = int
type_synonym token = int
type_synonym ('e, 'a) result = "'e + 'a"

named_theorems contract_simps \<open>unfolding rules of the data contracts\<close>
named_theorems node_simps \<open>unfolding rules of the node functions\<close>
named_theorems store_simps \<open>unfolding rules of the durable stores\<close>

subsection \<open>Results\<close>

definition is_ok :: "('e, 'a) result \<Rightarrow> bool" where
  "is_ok r = (case r of Inl _ \<Rightarrow> False | Inr _ \<Rightarrow> True)"

lemma is_ok_simps [simp]:
  "\<not> is_ok (Inl e)"
  "is_ok (Inr a)"
  by (simp_all add: is_ok_def)

lemma is_ok_iff: "is_ok r \<longleftrightarrow> (\<exists>a. r = Inr a)"
  by (cases r) auto

subsection \<open>Python string operations\<close>

text \<open>\<open>py_in p s\<close> is Python's \<open>p in s\<close>; \<open>py_startswith s p\<close> is \<open>s.startswith(p)\<close>.\<close>

fun py_in :: "string \<Rightarrow> string \<Rightarrow> bool" where
  "py_in p [] = (p = [])"
| "py_in p (c # s) = (prefix p (c # s) \<or> py_in p s)"

definition py_startswith :: "string \<Rightarrow> string \<Rightarrow> bool" where
  "py_startswith s p = prefix p s"

definition lower_char :: "char \<Rightarrow> char" where
  "lower_char c =
     (if 65 \<le> (of_char c :: nat) \<and> (of_char c :: nat) \<le> 90
      then char_of ((of_char c :: nat) + 32) else c)"

definition py_lower :: "string \<Rightarrow> string" where
  "py_lower s = map lower_char s"

definition upper_char :: "char \<Rightarrow> char" where
  "upper_char c =
     (if 97 \<le> (of_char c :: nat) \<and> (of_char c :: nat) \<le> 122
      then char_of ((of_char c :: nat) - 32) else c)"

definition py_upper :: "string \<Rightarrow> string" where
  "py_upper s = map upper_char s"

text \<open>White space and line boundaries of \<open>str.strip\<close> and \<open>str.splitlines\<close>, over one-byte characters.\<close>

definition is_space :: "char \<Rightarrow> bool" where
  "is_space c = (let n = (of_char c :: nat) in
     (9 \<le> n \<and> n \<le> 13) \<or> (28 \<le> n \<and> n \<le> 32) \<or> n = 133 \<or> n = 160)"

definition is_linebreak :: "char \<Rightarrow> bool" where
  "is_linebreak c = (let n = (of_char c :: nat) in
     (10 \<le> n \<and> n \<le> 13) \<or> (28 \<le> n \<and> n \<le> 30) \<or> n = 133)"

definition py_strip :: "string \<Rightarrow> string" where
  "py_strip s = rev (dropWhile is_space (rev (dropWhile is_space s)))"

definition first_line :: "string \<Rightarrow> string" where
  "first_line s = takeWhile (\<lambda>c. \<not> is_linebreak c) s"

text \<open>\<open>last_n n s\<close> is the slice \<open>s[-n:]\<close> for positive \<open>n\<close>.\<close>

definition last_n :: "nat \<Rightarrow> 'a list \<Rightarrow> 'a list" where
  "last_n n s = drop (length s - n) s"

lemma length_last_n [simp]: "length (last_n n s) = min n (length s)"
  by (simp add: last_n_def)

text \<open>Decimal text of integers, as in an f-string.\<close>

definition digit_char :: "nat \<Rightarrow> char" where
  "digit_char d = char_of (48 + d)"

fun str_of_nat :: "nat \<Rightarrow> string" where
  "str_of_nat n = (if n < 10 then [digit_char n] else str_of_nat (n div 10) @ [digit_char (n mod 10)])"

declare str_of_nat.simps [simp del]

definition str_of_int :: "int \<Rightarrow> string" where
  "str_of_int i = (if i < 0 then CHR ''-'' # str_of_nat (nat (- i)) else str_of_nat (nat i))"

lemma str_of_nat_ne [simp]: "str_of_nat n \<noteq> []"
  by (subst str_of_nat.simps) simp

fun nat_of_str :: "nat \<Rightarrow> string \<Rightarrow> nat" where
  "nat_of_str a [] = a"
| "nat_of_str a (c # cs) = nat_of_str (10 * a + ((of_char c :: nat) - 48)) cs"

lemma nat_of_str_append: "nat_of_str a (xs @ ys) = nat_of_str (nat_of_str a xs) ys"
  by (induction a xs rule: nat_of_str.induct) auto

lemma nat_of_str_of_nat: "nat_of_str 0 (str_of_nat n) = n"
proof (induction n rule: str_of_nat.induct)
  case (1 n)
  show ?case
  proof (cases "n < 10")
    case True
    then show ?thesis by (subst str_of_nat.simps) (simp add: digit_char_def)
  next
    case False
    then show ?thesis
      using 1 by (subst str_of_nat.simps) (simp add: nat_of_str_append digit_char_def)
  qed
qed

lemma str_of_nat_inj: "str_of_nat m = str_of_nat n \<longleftrightarrow> m = n"
  by (metis nat_of_str_of_nat)

lemma py_in_iff_sublist: "py_in p s \<longleftrightarrow> sublist p s"
proof (induction s)
  case Nil
  then show ?case by simp
next
  case (Cons c s)
  then show ?case by (auto simp: sublist_Cons_right)
qed

lemma py_in_append_left: "py_in p s \<Longrightarrow> py_in p (s @ t)"
  by (meson py_in_iff_sublist sublist_append_rightI sublist_order.order_trans)

lemma py_in_self_append [simp]: "py_in p (p @ t)"
  by (simp add: py_in_iff_sublist sublist_append_rightI)

subsection \<open>Generic lemmas on lists, options and maps\<close>

lemma find_append:
  "List.find P (xs @ ys) = (case List.find P xs of None \<Rightarrow> List.find P ys | Some x \<Rightarrow> Some x)"
  by (induction xs) auto

lemma find_map: "List.find P (map f xs) = map_option f (List.find (\<lambda>x. P (f x)) xs)"
  by (induction xs) auto

lemma find_SomeD: "List.find P xs = Some x \<Longrightarrow> x \<in> set xs \<and> P x"
  by (auto simp: find_Some_iff)

lemma length_filter_le_mono:
  "(\<And>x. x \<in> set xs \<Longrightarrow> P x \<Longrightarrow> Q x) \<Longrightarrow> length (filter P xs) \<le> length (filter Q xs)"
  by (induction xs) auto

lemma sum_list_replicate_int: "sum_list (replicate n (k :: int)) = int n * k"
  by (simp add: sum_list_replicate)

lemma mult_div_le_int: "0 < n \<Longrightarrow> n * (p div n) \<le> (p :: int)"
  by (metis minus_mod_eq_mult_div mult.commute pos_mod_sign diff_le_eq le_add_same_cancel1)

end
