(* ===== verification/Budgets.thy ===== *)
theory Budgets
  imports Recertia_Prelude
begin

section \<open>Budgets, spend and reservations\<close>

text \<open>
  The model of \<open>contracts/budget.py\<close>: the admission budget of a goal, run or branch, the residual
  budget of an audited task state, the spend, the reservations, the admission check
  \<open>budget_excess\<close> and the two ways capacity moves (committing a reservation, turning a residual
  into an admission budget). The Pydantic field bounds are the predicates \<open>budget_ok\<close>,
  \<open>residual_ok\<close>, \<open>spend_ok\<close> and \<open>reservation_ok\<close>.
\<close>

record budget =
  max_attempts :: int
  max_tool_calls :: int
  max_tokens :: "int option"
  max_wall_clock_s :: int
  max_cost_usd :: "real option"
  max_branches :: int
  max_parallel_steps :: int
  claim_timeout_s :: int
  max_versions_written :: int

record residual_budget =
  res_attempts :: int
  res_tool_calls :: int
  res_tokens :: "int option"
  res_wall_clock_s :: int
  res_cost_usd :: "real option"
  res_branches :: int
  res_parallel_steps :: int
  res_claim_timeout_s :: int
  res_versions_written :: int

record spend =
  sp_attempts :: int
  sp_tool_calls :: int
  sp_tokens :: int
  sp_wall_clock_s :: real
  sp_cost_usd :: real
  sp_versions_written :: int

record reservation =
  rv_attempts :: int
  rv_tool_calls :: int
  rv_tokens :: int
  rv_wall_clock_s :: real
  rv_cost_usd :: real
  rv_versions_written :: int

datatype dimension = Attempts | ToolCalls | Tokens | WallClockS | CostUsd | VersionsWritten

datatype budget_error = BudgetExhaustedError

definition default_budget :: budget where
  "default_budget =
     \<lparr>max_attempts = 4, max_tool_calls = 200, max_tokens = None, max_wall_clock_s = 900,
      max_cost_usd = None, max_branches = 3, max_parallel_steps = 8, claim_timeout_s = 60,
      max_versions_written = 2\<rparr>"

definition no_spend :: spend where
  "no_spend =
     \<lparr>sp_attempts = 0, sp_tool_calls = 0, sp_tokens = 0, sp_wall_clock_s = 0, sp_cost_usd = 0,
      sp_versions_written = 0\<rparr>"

definition no_reservation :: reservation where
  "no_reservation =
     \<lparr>rv_attempts = 0, rv_tool_calls = 0, rv_tokens = 0, rv_wall_clock_s = 0, rv_cost_usd = 0,
      rv_versions_written = 0\<rparr>"

definition opt_ge :: "'a::linorder \<Rightarrow> 'a option \<Rightarrow> bool" where
  "opt_ge lo x = (case x of None \<Rightarrow> True | Some v \<Rightarrow> lo \<le> v)"

definition budget_ok :: "budget \<Rightarrow> bool" where
  "budget_ok b \<longleftrightarrow>
     1 \<le> max_attempts b \<and> 1 \<le> max_tool_calls b \<and> opt_ge 1 (max_tokens b) \<and>
     1 \<le> max_wall_clock_s b \<and> opt_ge 0 (max_cost_usd b) \<and>
     1 \<le> max_branches b \<and> max_branches b \<le> 16 \<and> 1 \<le> max_parallel_steps b \<and>
     1 \<le> claim_timeout_s b \<and> 0 \<le> max_versions_written b"

definition residual_ok :: "residual_budget \<Rightarrow> bool" where
  "residual_ok r \<longleftrightarrow>
     0 \<le> res_attempts r \<and> 0 \<le> res_tool_calls r \<and> opt_ge 0 (res_tokens r) \<and>
     0 \<le> res_wall_clock_s r \<and> opt_ge 0 (res_cost_usd r) \<and>
     0 \<le> res_branches r \<and> res_branches r \<le> 16 \<and> 0 \<le> res_parallel_steps r \<and>
     0 \<le> res_claim_timeout_s r \<and> 0 \<le> res_versions_written r"

definition spend_ok :: "spend \<Rightarrow> bool" where
  "spend_ok s \<longleftrightarrow>
     0 \<le> sp_attempts s \<and> 0 \<le> sp_tool_calls s \<and> 0 \<le> sp_tokens s \<and>
     0 \<le> sp_wall_clock_s s \<and> 0 \<le> sp_cost_usd s \<and> 0 \<le> sp_versions_written s"

definition reservation_ok :: "reservation \<Rightarrow> bool" where
  "reservation_ok r \<longleftrightarrow>
     0 \<le> rv_attempts r \<and> 0 \<le> rv_tool_calls r \<and> 0 \<le> rv_tokens r \<and>
     0 \<le> rv_wall_clock_s r \<and> 0 \<le> rv_cost_usd r \<and> 0 \<le> rv_versions_written r"

text \<open>\<open>ResidualBudget.as_admission_budget\<close>: exhausted attempts raise, the other caps are floored at 1.\<close>

definition as_admission_budget :: "residual_budget \<Rightarrow> (budget_error, budget) result" where
  "as_admission_budget r =
     (if res_attempts r < 1 then Inl BudgetExhaustedError
      else
        let tokens = (case res_tokens r of None \<Rightarrow> None | Some t \<Rightarrow> Some (if t < 1 then 1 else t))
        in Inr \<lparr>max_attempts = res_attempts r,
                max_tool_calls = max 1 (res_tool_calls r),
                max_tokens = tokens,
                max_wall_clock_s = max 1 (res_wall_clock_s r),
                max_cost_usd = res_cost_usd r,
                max_branches = max 1 (res_branches r),
                max_parallel_steps = max 1 (res_parallel_steps r),
                claim_timeout_s = max 1 (res_claim_timeout_s r),
                max_versions_written = res_versions_written r\<rparr>)"

text \<open>\<open>budget_excess\<close>: the totals per dimension, the limits in the order of the source's dictionary,
  and the first dimension whose total exceeds its limit.\<close>

fun total_of :: "spend \<Rightarrow> reservation \<Rightarrow> reservation \<Rightarrow> dimension \<Rightarrow> real" where
  "total_of s r q Attempts = of_int (sp_attempts s + rv_attempts r + rv_attempts q)"
| "total_of s r q ToolCalls = of_int (sp_tool_calls s + rv_tool_calls r + rv_tool_calls q)"
| "total_of s r q Tokens = of_int (sp_tokens s + rv_tokens r + rv_tokens q)"
| "total_of s r q WallClockS = sp_wall_clock_s s + rv_wall_clock_s r + rv_wall_clock_s q"
| "total_of s r q CostUsd = sp_cost_usd s + rv_cost_usd r + rv_cost_usd q"
| "total_of s r q VersionsWritten =
     of_int (sp_versions_written s + rv_versions_written r + rv_versions_written q)"

definition limits :: "budget \<Rightarrow> (dimension \<times> real option) list" where
  "limits b =
     [(Attempts, Some (of_int (max_attempts b))),
      (ToolCalls, Some (of_int (max_tool_calls b))),
      (Tokens, map_option of_int (max_tokens b)),
      (WallClockS, Some (of_int (max_wall_clock_s b))),
      (CostUsd, max_cost_usd b),
      (VersionsWritten, Some (of_int (max_versions_written b)))]"

definition over_limit :: "spend \<Rightarrow> reservation \<Rightarrow> reservation \<Rightarrow> dimension \<times> real option \<Rightarrow> bool" where
  "over_limit s r q dl = (case snd dl of None \<Rightarrow> False | Some l \<Rightarrow> l < total_of s r q (fst dl))"

definition budget_excess :: "budget \<Rightarrow> spend \<Rightarrow> reservation \<Rightarrow> reservation \<Rightarrow> dimension option" where
  "budget_excess b s r q = map_option fst (List.find (over_limit s r q) (limits b))"

definition commit_reservation :: "spend \<Rightarrow> reservation \<Rightarrow> spend" where
  "commit_reservation s r =
     s\<lparr>sp_attempts := sp_attempts s + rv_attempts r,
       sp_tool_calls := sp_tool_calls s + rv_tool_calls r,
       sp_tokens := sp_tokens s + rv_tokens r,
       sp_wall_clock_s := sp_wall_clock_s s + rv_wall_clock_s r,
       sp_cost_usd := sp_cost_usd s + rv_cost_usd r,
       sp_versions_written := sp_versions_written s + rv_versions_written r\<rparr>"

lemmas budget_defs [contract_simps] =
  budget_ok_def residual_ok_def spend_ok_def reservation_ok_def opt_ge_def

subsection \<open>What the admission check decides\<close>

text \<open>The dimensions of \<open>limits\<close> are distinct, so a limit belongs to one dimension.\<close>

fun limit_of :: "budget \<Rightarrow> dimension \<Rightarrow> real option" where
  "limit_of b Attempts = Some (of_int (max_attempts b))"
| "limit_of b ToolCalls = Some (of_int (max_tool_calls b))"
| "limit_of b Tokens = map_option of_int (max_tokens b)"
| "limit_of b WallClockS = Some (of_int (max_wall_clock_s b))"
| "limit_of b CostUsd = max_cost_usd b"
| "limit_of b VersionsWritten = Some (of_int (max_versions_written b))"

definition fits :: "budget \<Rightarrow> spend \<Rightarrow> reservation \<Rightarrow> reservation \<Rightarrow> dimension \<Rightarrow> bool" where
  "fits b s r q d = (case limit_of b d of None \<Rightarrow> True | Some l \<Rightarrow> total_of s r q d \<le> l)"

lemma limits_eq_limit_of:
  "limits b = map (\<lambda>d. (d, limit_of b d))
     [Attempts, ToolCalls, Tokens, WallClockS, CostUsd, VersionsWritten]"
  by (simp add: limits_def)

lemma over_limit_iff: "over_limit s r q (d, limit_of b d) \<longleftrightarrow> \<not> fits b s r q d"
  by (auto simp: over_limit_def fits_def split: option.splits)

lemma budget_excess_eq_find:
  "budget_excess b s r q =
     List.find (\<lambda>d. \<not> fits b s r q d)
       [Attempts, ToolCalls, Tokens, WallClockS, CostUsd, VersionsWritten]"
  unfolding budget_excess_def limits_eq_limit_of find_map over_limit_iff
  by (simp add: option.map_comp option.map_ident comp_def)

lemma budget_excess_if:
  "budget_excess b s r q =
     (if \<not> fits b s r q Attempts then Some Attempts
      else if \<not> fits b s r q ToolCalls then Some ToolCalls
      else if \<not> fits b s r q Tokens then Some Tokens
      else if \<not> fits b s r q WallClockS then Some WallClockS
      else if \<not> fits b s r q CostUsd then Some CostUsd
      else if \<not> fits b s r q VersionsWritten then Some VersionsWritten
      else None)"
  by (simp only: budget_excess_eq_find find.simps)

lemma all_dimensions: "(\<forall>d. P d) \<longleftrightarrow>
    P Attempts \<and> P ToolCalls \<and> P Tokens \<and> P WallClockS \<and> P CostUsd \<and> P VersionsWritten"
  by (metis dimension.exhaust)

lemma budget_excess_None_iff: "budget_excess b s r q = None \<longleftrightarrow> (\<forall>d. fits b s r q d)"
  unfolding budget_excess_if all_dimensions by simp

lemma budget_excess_Attempts_iff:
  "budget_excess b s r q = Some Attempts \<longleftrightarrow> \<not> fits b s r q Attempts"
  unfolding budget_excess_if by simp

lemma budget_excess_VersionsWritten_iff:
  "budget_excess b s r q = Some VersionsWritten \<longleftrightarrow>
     \<not> fits b s r q VersionsWritten \<and>
     list_all (fits b s r q) [Attempts, ToolCalls, Tokens, WallClockS, CostUsd]"
  unfolding budget_excess_if by simp

lemma budget_excess_SomeD: "budget_excess b s r q = Some d \<Longrightarrow> \<not> fits b s r q d"
  unfolding budget_excess_eq_find by (drule find_SomeD) blast

lemma total_of_commit:
  "total_of (commit_reservation s q) r no_reservation d = total_of s r q d"
  by (cases d) (simp_all add: commit_reservation_def no_reservation_def algebra_simps)

lemma fits_commit [simp]:
  "fits b (commit_reservation s q) r no_reservation d = fits b s r q d"
  by (simp only: fits_def total_of_commit)

lemma total_of_mono:
  "reservation_ok q \<Longrightarrow> total_of s r no_reservation d \<le> total_of s r q d"
  by (cases d) (simp_all add: no_reservation_def reservation_ok_def)

subsection \<open>Admission from a residual budget\<close>

lemma as_admission_budget_ok_iff: "is_ok (as_admission_budget r) \<longleftrightarrow> 1 \<le> res_attempts r"
  by (auto simp: as_admission_budget_def Let_def)

lemma as_admission_budget_attempts:
  "as_admission_budget r = Inr b \<Longrightarrow> max_attempts b = res_attempts r \<and> 1 \<le> max_attempts b"
  by (auto simp: as_admission_budget_def Let_def split: if_splits)

lemma as_admission_budget_budget_ok:
  "residual_ok r \<Longrightarrow> as_admission_budget r = Inr b \<Longrightarrow> budget_ok b"
  by (cases "res_tokens r")
    (auto simp: as_admission_budget_def Let_def contract_simps split: if_split_asm)

subsection \<open>Properties\<close>

text \<open>
  The admission check is exact and reports the first exhausted dimension: it returns no
  dimension iff every finite limit covers the sum of spend, outstanding reservation and request,
  and a returned dimension is really exceeded while every dimension the source lists before it
  is within its limit.
\<close>

theorem budget_excess_exact:
  "(budget_excess b s r q = None \<longleftrightarrow> (\<forall>d. fits b s r q d)) \<and>
   (budget_excess b s r q = Some Attempts \<longleftrightarrow> \<not> fits b s r q Attempts) \<and>
   (budget_excess b s r q = Some VersionsWritten \<longleftrightarrow>
      \<not> fits b s r q VersionsWritten \<and>
      list_all (fits b s r q) [Attempts, ToolCalls, Tokens, WallClockS, CostUsd])"
  by (simp only: budget_excess_None_iff budget_excess_Attempts_iff budget_excess_VersionsWritten_iff)

text \<open>
  Admission is safe: work that was admitted against the current spend and the outstanding
  reservations still fits after it has been committed to the spend, with the same reservations
  outstanding, so a sequence of admit and commit never overruns a limit.
\<close>

theorem admitted_work_fits_after_commit:
  assumes "budget_excess b s r q = None"
  shows "budget_excess b (commit_reservation s q) r no_reservation = None"
  using assms by (simp add: budget_excess_None_iff)

theorem admitted_work_fits_after_commit_witness:
  "budget_excess default_budget
     (commit_reservation no_spend (no_reservation\<lparr>rv_attempts := 4, rv_tool_calls := 200\<rparr>))
     no_reservation no_reservation = None"
  by (rule admitted_work_fits_after_commit)
    (simp add: budget_excess_eq_find fits_def default_budget_def no_spend_def no_reservation_def)

text \<open>
  A residual budget is admitted exactly when an attempt is left, the admitted budget keeps
  that number of attempts (a zero is never rounded up to one more attempt), and it satisfies every
  field bound of an admission budget.
\<close>

theorem as_admission_budget_sound:
  assumes "residual_ok r"
  shows "(as_admission_budget r = Inl BudgetExhaustedError \<and> res_attempts r = 0) \<or>
         (\<exists>b. as_admission_budget r = Inr b \<and> budget_ok b \<and> max_attempts b = res_attempts r \<and>
              max_cost_usd b = res_cost_usd r \<and> max_versions_written b = res_versions_written r)"
proof (cases "res_attempts r < 1")
  case True
  with assms show ?thesis by (auto simp: as_admission_budget_def residual_ok_def)
next
  case False
  then obtain b where b: "as_admission_budget r = Inr b"
    by (simp add: as_admission_budget_def Let_def)
  moreover have "budget_ok b" using assms b by (rule as_admission_budget_budget_ok)
  moreover have "max_attempts b = res_attempts r \<and> max_cost_usd b = res_cost_usd r \<and>
      max_versions_written b = res_versions_written r"
    using b by (auto simp: as_admission_budget_def Let_def split: if_splits)
  ultimately show ?thesis by blast
qed

theorem as_admission_budget_sound_witness:
  "let r = \<lparr>res_attempts = 0, res_tool_calls = 5, res_tokens = Some 0, res_wall_clock_s = 3,
            res_cost_usd = None, res_branches = 1, res_parallel_steps = 1,
            res_claim_timeout_s = 1, res_versions_written = 0\<rparr>
   in residual_ok r \<and> as_admission_budget r = Inl BudgetExhaustedError"
proof -
  define r :: residual_budget where
    "r = \<lparr>res_attempts = 0, res_tool_calls = 5, res_tokens = Some 0, res_wall_clock_s = 3,
          res_cost_usd = None, res_branches = 1, res_parallel_steps = 1,
          res_claim_timeout_s = 1, res_versions_written = 0\<rparr>"
  have ok: "residual_ok r" by (simp add: r_def contract_simps)
  have "res_attempts r = 0" by (simp add: r_def)
  with as_admission_budget_sound [OF ok] have "as_admission_budget r = Inl BudgetExhaustedError"
    by (auto simp: budget_ok_def)
  with ok show ?thesis by (simp add: r_def Let_def)
qed

end
