(* ===== verification/Run_Contracts.thy ===== *)
theory Run_Contracts
  imports Budgets
begin

section \<open>The data contracts of a run\<close>

text \<open>
  The model of \<open>contracts/common.py\<close>, \<open>criteria.py\<close>, \<open>failure.py\<close>, \<open>branch.py\<close>, \<open>goal.py\<close> (data),
  \<open>skill.py\<close> (the fields the graph reads) and \<open>run.py\<close>: the state that the execution graph threads
  through its nodes. Every Pydantic model is a record, every \<open>Literal\<close> a datatype, a subclass is a
  record extension, and a model validator is a predicate whose name ends in \<open>_ok\<close>.
  The SHA-256 of the canonical JSON of a criterion is the parameter \<open>digest\<close>.
\<close>

subsection \<open>Enumerations\<close>

datatype strategy = Apply | Adapt | Scratch | Portfolio | Decomposition | Abstain

datatype arm = Treatment | Control | Shadow | Practice

datatype terminal = Solved | Unsolved | Abstained | Rejected | Error

datatype isolation = FreshContext | InheritsContext

datatype lens = Correctness | Currency | ProvenanceLens | ScopeLens | Safety

datatype criterion_kind = Command | Assertion | Schema | Metric | Judge

datatype compare_op = OpLt | OpLte | OpGt | OpGte | OpEq

datatype criterion_source = Caller | TaskClassTemplate | Critic

datatype author = Distiller | Human

datatype failure_class =
  FEnvironment | FTool | FRetrieval | FPlan | FExecution | FCriteria | FBudget | FMerge

definition FAILURE_CLASSES :: "failure_class list" where
  "FAILURE_CLASSES =
     [FEnvironment, FTool, FRetrieval, FPlan, FExecution, FCriteria, FBudget, FMerge]"

definition CLASSES_EXCLUDED_FROM_TRUST :: "failure_class list" where
  "CLASSES_EXCLUDED_FROM_TRUST = [FEnvironment, FTool, FBudget, FMerge]"

lemma FAILURE_CLASSES_UNIV: "set FAILURE_CLASSES = UNIV"
  by (auto simp: FAILURE_CLASSES_def intro: failure_class.exhaust)

subsection \<open>Criteria and their sensitivity proofs\<close>

record sensitivity_proof =
  pf_criterion_id :: string
  pf_negative_fixture :: string
  pf_rejected :: bool
  pf_checked_at :: instant
  pf_checked_against :: "string option"
  pf_evidence_hash :: "string option"

record criterion_fields =
  c_id :: string
  c_kind :: criterion_kind
  c_run :: "string option"
  c_expect_exit :: int
  c_expr :: "string option"
  c_target :: "string option"
  c_schema_ref :: "string option"
  c_metric :: "string option"
  c_op :: "compare_op option"
  c_threshold :: "real option"
  c_rubric :: "string option"
  c_isolation :: isolation
  c_lens :: "lens option"
  c_timeout_s :: int
  c_weight :: real
  c_sensitivity_proof :: "sensitivity_proof option"

record task_criterion = criterion_fields +
  c_source :: criterion_source
  c_preregistered :: bool

record certification_criterion = criterion_fields +
  cc_authored_by :: author
  cc_preregistered :: bool

text \<open>\<open>_kind_requires_fields\<close>, \<open>_judge_requires_fresh_context\<close> and the field bounds.\<close>

fun kind_fields_ok :: "'a criterion_fields_scheme \<Rightarrow> criterion_kind \<Rightarrow> bool" where
  "kind_fields_ok c Command = (c_run c \<noteq> None)"
| "kind_fields_ok c Assertion = (c_expr c \<noteq> None)"
| "kind_fields_ok c Schema = (c_target c \<noteq> None \<and> c_schema_ref c \<noteq> None)"
| "kind_fields_ok c Metric = (c_metric c \<noteq> None \<and> c_op c \<noteq> None \<and> c_threshold c \<noteq> None)"
| "kind_fields_ok c Judge = (c_rubric c \<noteq> None)"

definition criterion_ok :: "'a criterion_fields_scheme \<Rightarrow> bool" where
  "criterion_ok c \<longleftrightarrow>
     kind_fields_ok c (c_kind c) \<and>
     (c_kind c = Judge \<longrightarrow> c_isolation c = FreshContext) \<and>
     1 \<le> c_timeout_s c \<and> c_timeout_s c \<le> 3600 \<and> 0 \<le> c_weight c \<and> c_weight c \<le> 1"

definition is_required :: "'a criterion_fields_scheme \<Rightarrow> bool" where
  "is_required c \<longleftrightarrow> 1 \<le> c_weight c"

text \<open>The fields of \<open>_EVIDENCE_HASH_FIELDS\<close>, in order; \<open>digest\<close> hashes them with a fingerprint.\<close>

record evidence =
  ev_id :: string
  ev_kind :: criterion_kind
  ev_run :: "string option"
  ev_expect_exit :: int
  ev_expr :: "string option"
  ev_target :: "string option"
  ev_schema_ref :: "string option"
  ev_metric :: "string option"
  ev_op :: "compare_op option"
  ev_threshold :: "real option"
  ev_rubric :: "string option"
  ev_isolation :: isolation
  ev_lens :: "lens option"
  ev_timeout_s :: int
  ev_weight :: real

type_synonym digest = "evidence \<Rightarrow> string \<Rightarrow> string"

definition evidence_of :: "'a criterion_fields_scheme \<Rightarrow> evidence" where
  "evidence_of c =
     \<lparr>ev_id = c_id c, ev_kind = c_kind c, ev_run = c_run c, ev_expect_exit = c_expect_exit c,
      ev_expr = c_expr c, ev_target = c_target c, ev_schema_ref = c_schema_ref c,
      ev_metric = c_metric c, ev_op = c_op c, ev_threshold = c_threshold c,
      ev_rubric = c_rubric c, ev_isolation = c_isolation c, ev_lens = c_lens c,
      ev_timeout_s = c_timeout_s c, ev_weight = c_weight c\<rparr>"

definition sensitivity_evidence_hash ::
    "digest \<Rightarrow> 'a criterion_fields_scheme \<Rightarrow> string \<Rightarrow> string" where
  "sensitivity_evidence_hash digest c fingerprint = digest (evidence_of c) fingerprint"

definition sensitivity_proof_binds ::
    "digest \<Rightarrow> 'a criterion_fields_scheme \<Rightarrow> sensitivity_proof option \<Rightarrow> bool" where
  "sensitivity_proof_binds digest c proof =
     (case (case proof of None \<Rightarrow> c_sensitivity_proof c | Some p \<Rightarrow> Some p) of
        None \<Rightarrow> False
      | Some bound \<Rightarrow>
          (case pf_evidence_hash bound of
             None \<Rightarrow> False
           | Some h \<Rightarrow>
               if \<not> pf_rejected bound \<or> h = [] then False
               else
                 let checked = (case pf_checked_against bound of None \<Rightarrow> [] | Some s \<Rightarrow> s)
                 in if \<not> py_startswith checked ''sha256:'' then False
                    else h = sensitivity_evidence_hash digest c (drop (length ''sha256:'') checked)))"

definition is_preregistered_and_proven :: "digest \<Rightarrow> 'a criterion_fields_scheme \<Rightarrow> bool" where
  "is_preregistered_and_proven digest c = sensitivity_proof_binds digest c None"

definition mint_rejecting_proof ::
    "digest \<Rightarrow> 'a criterion_fields_scheme \<Rightarrow> string \<Rightarrow> string \<Rightarrow> instant \<Rightarrow> sensitivity_proof" where
  "mint_rejecting_proof digest c negative_fixture fingerprint checked_at =
     \<lparr>pf_criterion_id = c_id c, pf_negative_fixture = negative_fixture, pf_rejected = True,
      pf_checked_at = checked_at,
      pf_checked_against = Some (''sha256:'' @ fingerprint),
      pf_evidence_hash = Some (sensitivity_evidence_hash digest c fingerprint)\<rparr>"

definition clamp_criterion_timeouts :: "task_criterion list \<Rightarrow> int \<Rightarrow> task_criterion list" where
  "clamp_criterion_timeouts criteria ceiling_s =
     map (\<lambda>c. if ceiling_s < c_timeout_s c then c\<lparr>c_timeout_s := ceiling_s\<rparr> else c) criteria"

record criterion_result =
  r_criterion_id :: string
  r_kind :: "criterion_kind option"
  r_passed :: bool
  r_weight :: real
  r_isolation :: "isolation option"
  r_lens :: "lens option"
  r_context_hash :: "string option"
  r_exit_code :: "int option"
  r_output_excerpt :: string
  r_errored :: bool
  r_duration_s :: real

definition plain_result :: "string \<Rightarrow> criterion_kind \<Rightarrow> bool \<Rightarrow> real \<Rightarrow> criterion_result" where
  "plain_result cid kind passed weight =
     \<lparr>r_criterion_id = cid, r_kind = Some kind, r_passed = passed, r_weight = weight,
      r_isolation = None, r_lens = None, r_context_hash = None, r_exit_code = None,
      r_output_excerpt = [], r_errored = False, r_duration_s = 0\<rparr>"

subsection \<open>Failure signals and verdicts\<close>

datatype signal_source = Orchestrator | Solver | Validator | JoinSource

record failure_signal =
  sg_source :: signal_source
  sg_detail :: string
  sg_class_hint :: "failure_class option"

record failure_verdict =
  fv_class :: failure_class
  fv_evidence :: "string list"
  fv_implicated_skill :: "(skill_id \<times> int) option"
  fv_counts_against_trust :: bool
  fv_escalate_to_human :: bool

definition is_consistent :: "failure_verdict \<Rightarrow> bool" where
  "is_consistent v \<longleftrightarrow>
     fv_counts_against_trust v = (fv_class v \<notin> set CLASSES_EXCLUDED_FROM_TRUST) \<and>
     fv_escalate_to_human v = (fv_class v = FCriteria)"

subsection \<open>Branches and merge audits\<close>

datatype branch_kind = PortfolioBranch | DecompositionBranch

datatype branch_strategy = BranchApply | BranchAdapt | BranchScratch

datatype branch_status = Dispatched | Running | Succeeded | Failed | TimedOut

record candidate_ref =
  cd_skill_id :: skill_id
  cd_version :: int
  cd_score :: real
  cd_bound_parameters :: "(string \<times> string) list"
  cd_shadow :: bool

record branch_state =
  b_branch_id :: string
  b_kind :: branch_kind
  b_strategy :: branch_strategy
  b_subtask :: "string option"
  b_candidate :: "candidate_ref option"
  b_workspace_ref :: string
  b_status :: branch_status
  b_budget :: budget
  b_spent :: spend
  b_reserved :: reservation
  b_results :: "criterion_result list"
  b_selected :: bool
  b_cost_usd :: "real option"
  b_owned_criteria :: "string list"

datatype merge_action = Proceeded | Flagged | MergeFailed

record merge_audit =
  ma_merge_id :: string
  ma_expected :: int
  ma_received :: int
  ma_missing :: "string list"
  ma_action :: merge_action
  ma_layered :: bool
  ma_batches :: "string list list"

definition is_complete :: "merge_audit \<Rightarrow> bool" where
  "is_complete m \<longleftrightarrow> ma_expected m \<le> ma_received m \<and> ma_missing m = []"

subsection \<open>Goals and tasks\<close>

datatype desired_kind =
  DFileExists | DFileContains | DCommand | DAssertion | DSchema | DMetric | DJudge

record desired_state =
  d_id :: string
  d_kind :: desired_kind
  d_path :: "string option"
  d_pattern :: "string option"
  d_run :: "string option"
  d_expect_exit :: int
  d_expr :: "string option"
  d_target :: "string option"
  d_schema_ref :: "string option"
  d_metric :: "string option"
  d_op :: "compare_op option"
  d_threshold :: "real option"
  d_rubric :: "string option"
  d_weight :: real
  d_timeout_s :: int

datatype constraint_kind = MustNotModify | MustPassCommand | BudgetCeiling | NoExternalEffects

datatype constraint_value = VStr string | VFloat real | VList "string list"

record constraint =
  k_id :: string
  k_kind :: constraint_kind
  k_value :: constraint_value
  k_weight :: real

datatype strategy_hint = HintAbstain | HintPortfolio | HintDecomposition

record goal =
  g_goal_id :: "string option"
  g_desired :: "desired_state list"
  g_constraints :: "constraint list"
  g_context :: "string option"
  g_task_class :: "string option"
  g_strategy_hint :: "strategy_hint option"
  g_mea_opt_in :: bool

datatype execution_strategy = SingleExecution | MeaExecution

record task =
  t_task_id :: string
  t_goal :: "goal option"
  t_request :: "string option"
  t_task_class :: "string option"
  t_submitted_by :: "string option"
  t_is_eval_fixture :: bool
  t_execution_strategy :: execution_strategy

subsection \<open>Skills, memory bundles and verdicts\<close>

datatype curation = HumanAuthored | MinedFromHumanArtifact | MinedFromPaper | SelfDistilled

record parameter =
  p_name :: string
  p_default :: "string option"

record step =
  st_id :: string
  st_command :: string
  st_loop_max :: "int option"

record skill_version =
  sv_skill_id :: skill_id
  sv_version :: int
  sv_supersedes :: "int option"
  sv_parameters :: "parameter list"
  sv_steps :: "step list"
  sv_certification_criteria :: "certification_criterion list"
  sv_curation :: curation
  sv_prior_version :: "string option"

record memory_bundle =
  mb_skills :: "candidate_ref list"
  mb_facts :: "string list"
  mb_cases :: "string list"
  mb_dead_ends :: "string list"
  mb_tool_cautions :: "string list"
  mb_suppressed :: bool

definition empty_bundle :: memory_bundle where
  "empty_bundle =
     \<lparr>mb_skills = [], mb_facts = [], mb_cases = [], mb_dead_ends = [], mb_tool_cautions = [],
      mb_suppressed = False\<rparr>"

datatype reuse_verdict = Reusable | OneOff | Duplicate

record reusability_verdict =
  rv_verdict :: reuse_verdict
  rv_parameterisable :: bool
  rv_context_free :: bool
  rv_checkable :: bool
  rv_not_duplicate :: bool
  rv_bounded :: bool

record execution_guide =
  eg_primary :: "string list"
  eg_avoid :: "string list"
  eg_fallback :: "string list"
  eg_source_skills :: "(skill_id \<times> int) list"

record step_wave =
  sw_wave :: int
  sw_step_ids :: "string list"

record resource_conflict =
  rc_resource_id :: string
  rc_waiting :: string
  rc_holder :: string
  rc_waited_ms :: int

record workspace_snapshot =
  ws_attempt_no :: int
  ws_snapshot_ref :: string
  ws_restored :: bool

record written_version =
  wv_skill_id :: skill_id
  wv_version :: int
  wv_ledger_seq :: int
  wv_facts :: "string list"

record run_manifest =
  mf_index_snapshot_id :: "string option"
  mf_criteria_hash :: "string option"

subsection \<open>What a sensitivity proof certifies\<close>

lemma sensitivity_proof_binds_SomeD:
  assumes "sensitivity_proof_binds digest c (Some p)"
  shows "pf_rejected p" and "\<exists>f. pf_checked_against p = Some (''sha256:'' @ f) \<and>
           pf_evidence_hash p = Some (digest (evidence_of c) f)"
  using assms
  by (auto simp: sensitivity_proof_binds_def sensitivity_evidence_hash_def py_startswith_def
      Let_def prefix_def split: option.splits if_splits)

lemma binds_stored:
  "c_sensitivity_proof c = Some p \<Longrightarrow>
     sensitivity_proof_binds digest c None = sensitivity_proof_binds digest c (Some p)"
  by (simp add: sensitivity_proof_binds_def)

lemma minted_binds:
  "digest (evidence_of c) f \<noteq> [] \<Longrightarrow>
     sensitivity_proof_binds digest c (Some (mint_rejecting_proof digest c n f t))"
  by (simp add: sensitivity_proof_binds_def mint_rejecting_proof_def sensitivity_evidence_hash_def
      py_startswith_def Let_def)

text \<open>
  A proof minted for a criterion binds to that criterion, and it binds to no criterion whose
  executable definition differs, whatever else changes: under a digest that is never empty and
  does not collide on the two definitions, forging \<open>rejected=True\<close> for an edited criterion is
  detected.\<close>

theorem minted_proof_binds_only_its_criterion:
  assumes "digest (evidence_of c) f \<noteq> []"
    and "digest (evidence_of c) f = digest (evidence_of c') f \<Longrightarrow> evidence_of c = evidence_of c'"
  shows "sensitivity_proof_binds digest c' (Some (mint_rejecting_proof digest c n f t)) \<longleftrightarrow>
           evidence_of c' = evidence_of c"
  using assms minted_binds[of digest c f n t]
  by (auto simp: sensitivity_proof_binds_def mint_rejecting_proof_def sensitivity_evidence_hash_def
      py_startswith_def Let_def)

definition example_criterion :: task_criterion where
  "example_criterion =
     \<lparr>c_id = ''tests'', c_kind = Command, c_run = Some ''pytest'', c_expect_exit = 0, c_expr = None,
      c_target = None, c_schema_ref = None, c_metric = None, c_op = None, c_threshold = None,
      c_rubric = None, c_isolation = FreshContext, c_lens = None, c_timeout_s = 600, c_weight = 1,
      c_sensitivity_proof = None, c_source = Caller, c_preregistered = True\<rparr>"

definition toy_digest :: digest where
  "toy_digest e f = ev_id e @ f @ str_of_int (ev_timeout_s e)"

lemma toy_digest_simps:
  "toy_digest (evidence_of c) f = c_id c @ f @ str_of_int (c_timeout_s c)"
  by (simp add: toy_digest_def evidence_of_def)

lemma str_of_int_600_300 [simp]: "str_of_int 600 = ''600''" "str_of_int 300 = ''300''"
  by code_simp+

theorem minted_proof_binds_only_its_criterion_witness:
  "\<not> sensitivity_proof_binds toy_digest (example_criterion\<lparr>c_timeout_s := 300\<rparr>)
       (Some (mint_rejecting_proof toy_digest example_criterion ''empty'' ''neg'' 0))"
proof -
  let ?c = "example_criterion" and ?c' = "example_criterion\<lparr>c_timeout_s := 300\<rparr>"
  have "toy_digest (evidence_of ?c) ''neg'' \<noteq> []"
    by (simp add: toy_digest_simps example_criterion_def)
  moreover have "toy_digest (evidence_of ?c) ''neg'' \<noteq> toy_digest (evidence_of ?c') ''neg''"
    by (simp add: toy_digest_simps example_criterion_def)
  moreover have "evidence_of ?c' \<noteq> evidence_of ?c"
    by (simp add: evidence_of_def example_criterion_def)
  ultimately show ?thesis
    using minted_proof_binds_only_its_criterion[of toy_digest ?c "''neg''" ?c' "''empty''" 0] by blast
qed

text \<open>
  Lowering a criterion's timeout voids its sensitivity proof: the timeout is one of the hashed
  fields, so a required, proven criterion that is clamped stays required but is no longer proven,
  and scoring then records it as passed without gating the run.\<close>

theorem clamped_criterion_loses_its_proof:
  assumes "c_sensitivity_proof c = Some (mint_rejecting_proof digest c n f t)"
    and "ceiling_s < c_timeout_s c"
    and "digest (evidence_of c) f \<noteq> digest (evidence_of (c\<lparr>c_timeout_s := ceiling_s\<rparr>)) f"
  shows "\<forall>c' \<in> set (clamp_criterion_timeouts [c] ceiling_s).
           is_required c' = is_required c \<and> \<not> is_preregistered_and_proven digest c'"
  using assms
  by (auto simp: clamp_criterion_timeouts_def is_preregistered_and_proven_def is_required_def
      sensitivity_proof_binds_def mint_rejecting_proof_def sensitivity_evidence_hash_def
      py_startswith_def Let_def)

theorem clamped_criterion_loses_its_proof_witness:
  "let c = example_criterion
             \<lparr>c_sensitivity_proof := Some (mint_rejecting_proof toy_digest example_criterion ''e'' ''n'' 0)\<rparr>
   in is_required c \<and> is_preregistered_and_proven toy_digest c \<and>
      \<not> is_preregistered_and_proven toy_digest (hd (clamp_criterion_timeouts [c] 300))"
proof -
  define c where "c = example_criterion
     \<lparr>c_sensitivity_proof := Some (mint_rejecting_proof toy_digest example_criterion ''e'' ''n'' 0)\<rparr>"
  have pf: "c_sensitivity_proof c = Some (mint_rejecting_proof toy_digest c ''e'' ''n'' 0)"
    by (simp add: c_def mint_rejecting_proof_def sensitivity_evidence_hash_def toy_digest_simps)
  have 1: "is_required c"
    by (simp add: c_def is_required_def example_criterion_def)
  have 2: "is_preregistered_and_proven toy_digest c"
    unfolding is_preregistered_and_proven_def binds_stored[OF pf]
    by (rule minted_binds) (simp add: toy_digest_simps c_def example_criterion_def)
  have "\<forall>c' \<in> set (clamp_criterion_timeouts [c] 300). \<not> is_preregistered_and_proven toy_digest c'"
    using clamped_criterion_loses_its_proof[OF pf, of 300]
    by (simp add: toy_digest_simps c_def example_criterion_def)
  then have 3: "\<not> is_preregistered_and_proven toy_digest (hd (clamp_criterion_timeouts [c] 300))"
    by (simp add: clamp_criterion_timeouts_def)
  show ?thesis
    unfolding Let_def using 1 2 3 unfolding c_def by blast
qed

end
