(* ===== verification/Run_State.thy ===== *)
theory Run_State
  imports Run_Contracts
begin

section \<open>The run state and what nodes return\<close>

text \<open>
  \<open>RunState\<close> of \<open>contracts/run.py\<close>, with its three model validators, the node names and route names of
  \<open>contracts/graph.py\<close>, \<open>RouteEntry\<close>, and \<open>NodeOutcome\<close> of \<open>nodes/context.py\<close>. A node function
  also acts on injected services; those calls are recorded as a list of \<open>effect\<close>s beside the new
  state and the chosen route, in the order the code makes them.
\<close>

datatype node =
  Intake | Retrieve | Plan | FanOut | Solve | Validate | Join | ClassifyFailure | Evolve |
  Distill | Review | Store | RecordDeadEnd | RejectDraft | Finalize

datatype route_name =
  Always | AbstainRoute | FanOutStrategy | SingleStrategy | PreDispatchBudgetFailure |
  PreValidationFailureSignal | AttemptCompleted | HasBranches | NoBranchesAndPassing |
  NoBranchesAndFailing | MergeCompleteAndPassing | Otherwise | Retry | ReusableRoute | OneOffRoute |
  ApprovedRoute | RejectedRoute

record route_entry =
  re_node :: node
  re_route :: route_name
  re_attempt_no :: int

record run_state =
  rs_run_id :: run_id
  rs_task :: task
  rs_manifest :: run_manifest
  rs_arm :: arm
  rs_criteria :: "task_criterion list"
  rs_criteria_locked :: bool
  rs_bundle :: memory_bundle
  rs_chosen :: "candidate_ref option"
  rs_suppressed_skill :: "candidate_ref option"
  rs_strategy :: "strategy option"
  rs_predicted_success :: "real option"
  rs_attempt_no :: int
  rs_branches :: "branch_state list"
  rs_artifacts :: "string list"
  rs_transcript_ref :: "string option"
  rs_workspace_snapshots :: "workspace_snapshot list"
  rs_step_waves :: "step_wave list"
  rs_resource_conflicts :: "resource_conflict list"
  rs_results :: "criterion_result list"
  rs_results_history :: "criterion_result list list"
  rs_certification_observations :: "criterion_result list"
  rs_merge_audits :: "merge_audit list"
  rs_failure_signal :: "failure_signal option"
  rs_failure :: "failure_verdict option"
  rs_draft :: "skill_version option"
  rs_facts_extracted :: "string list"
  rs_reusability :: "reusability_verdict option"
  rs_written_versions :: "written_version list"
  rs_execution_guide :: "execution_guide option"
  rs_budget :: budget
  rs_spent :: spend
  rs_reserved :: reservation
  rs_route_log :: "route_entry list"
  rs_terminal :: "terminal option"
  rs_mea_active :: bool
  rs_mea_fallback_reason :: "string option"

text \<open>The validators: the control arm has an empty suppressed bundle, a suppressed skill needs the
  control arm, and decomposition branches own disjoint criteria.\<close>

definition control_arm_ok :: "run_state \<Rightarrow> bool" where
  "control_arm_ok s \<longleftrightarrow>
     \<not> (rs_arm s = Control \<and> \<not> mb_suppressed (rs_bundle s) \<and>
        (mb_skills (rs_bundle s) \<noteq> [] \<or> mb_facts (rs_bundle s) \<noteq> [] \<or> mb_cases (rs_bundle s) \<noteq> []))"

definition suppression_ok :: "run_state \<Rightarrow> bool" where
  "suppression_ok s \<longleftrightarrow> \<not> (rs_suppressed_skill s \<noteq> None \<and> rs_arm s \<noteq> Control)"

definition owned_ids :: "branch_state list \<Rightarrow> string list" where
  "owned_ids bs = concat (map b_owned_criteria (filter (\<lambda>b. b_kind b = DecompositionBranch) bs))"

definition partition_ok :: "run_state \<Rightarrow> bool" where
  "partition_ok s \<longleftrightarrow>
     \<not> (\<exists>b \<in> set (rs_branches s). b_kind b = DecompositionBranch) \<or>
     distinct (owned_ids (rs_branches s))"

definition run_state_ok :: "run_state \<Rightarrow> bool" where
  "run_state_ok s \<longleftrightarrow>
     control_arm_ok s \<and> suppression_ok s \<and> partition_ok s \<and>
     0 \<le> rs_attempt_no s \<and> length (rs_branches s) \<le> 16 \<and>
     budget_ok (rs_budget s) \<and> spend_ok (rs_spent s) \<and> reservation_ok (rs_reserved s)"

text \<open>A fresh run, with the defaults of the model: what \<open>GraphOrchestrator.start\<close> builds.\<close>

definition initial_state ::
    "run_id \<Rightarrow> task \<Rightarrow> task_criterion list \<Rightarrow> budget \<Rightarrow> arm \<Rightarrow> run_manifest \<Rightarrow> run_state" where
  "initial_state rid t criteria b a manifest =
     \<lparr>rs_run_id = rid, rs_task = t, rs_manifest = manifest, rs_arm = a, rs_criteria = criteria,
      rs_criteria_locked = False, rs_bundle = empty_bundle, rs_chosen = None,
      rs_suppressed_skill = None, rs_strategy = None, rs_predicted_success = None,
      rs_attempt_no = 0, rs_branches = [], rs_artifacts = [], rs_transcript_ref = None,
      rs_workspace_snapshots = [], rs_step_waves = [], rs_resource_conflicts = [], rs_results = [],
      rs_results_history = [], rs_certification_observations = [], rs_merge_audits = [],
      rs_failure_signal = None, rs_failure = None, rs_draft = None, rs_facts_extracted = [],
      rs_reusability = None, rs_written_versions = [], rs_execution_guide = None, rs_budget = b,
      rs_spent = no_spend, rs_reserved = no_reservation, rs_route_log = [], rs_terminal = None,
      rs_mea_active = False, rs_mea_fallback_reason = None\<rparr>"

definition example_task :: task where
  "example_task =
     \<lparr>t_task_id = ''t'', t_goal = None, t_request = Some ''fix it'', t_task_class = None,
      t_submitted_by = None, t_is_eval_fixture = False, t_execution_strategy = SingleExecution\<rparr>"

definition example_state :: run_state where
  "example_state =
     initial_state ''r'' example_task [example_criterion, example_criterion\<lparr>c_id := ''lint''\<rparr>]
       default_budget Treatment \<lparr>mf_index_snapshot_id = None, mf_criteria_hash = None\<rparr>"

lemma initial_state_ok: "budget_ok b \<Longrightarrow> run_state_ok (initial_state rid t cs b a m)"
  by (simp add: run_state_ok_def control_arm_ok_def suppression_ok_def partition_ok_def
      initial_state_def empty_bundle_def spend_ok_def reservation_ok_def no_spend_def
      no_reservation_def)

subsection \<open>Node outcomes and the effects of a node\<close>

datatype case_outcome = CaseSolved | CaseFailed

record case_record =
  cr_run_id :: run_id
  cr_attempt_no :: int
  cr_outcome :: case_outcome
  cr_failure_class :: "failure_class option"
  cr_approach :: string
  cr_skill :: "(skill_id \<times> int) option"
  cr_session_id :: string

datatype ledger_action =
  LWrite | LAdvanceToCandidate | LQuarantineVersion | LDeprecate | LPolicyChange | LLintReject |
  LCompressSkill | LRevokeLineage | LComposeBlock | LPublishPatchTemplate | LLiftReport |
  LFaithfulnessReport | LApplicabilityReject | LMeaActivationFallback | LCloseReceipt |
  LLedgerRepaired

datatype effect =
    EpisodicWrite case_record
  | LedgerAppend ledger_action string
  | SkillCandidateWrite skill_id int
  | FactWrite string
  | IndexUpsert skill_id int
  | ReviewEnqueue skill_id int
  | OneOffLog
  | ApplySession skill_id int string
  | WorkspaceRestore string
  | WorkspaceClone string
  | WorkspaceMerge "string list"
  | AffordanceRecord

record node_outcome =
  oc_state :: run_state
  oc_route :: "route_name option"
  oc_effects :: "effect list"

definition outcome :: "run_state \<Rightarrow> route_name \<Rightarrow> effect list \<Rightarrow> node_outcome" where
  "outcome s r es = \<lparr>oc_state = s, oc_route = Some r, oc_effects = es\<rparr>"

lemma outcome_sel [simp]:
  "oc_state (outcome s r es) = s"
  "oc_route (outcome s r es) = Some r"
  "oc_effects (outcome s r es) = es"
  by (simp_all add: outcome_def)

text \<open>What no task-plane node but finalize may change: the identity of the run, its task and arm, its
  budget, the route log (the engine appends to it) and the terminal status.\<close>

definition same_frame :: "run_state \<Rightarrow> run_state \<Rightarrow> bool" where
  "same_frame s s' \<longleftrightarrow>
     rs_run_id s' = rs_run_id s \<and> rs_task s' = rs_task s \<and> rs_arm s' = rs_arm s \<and>
     rs_budget s' = rs_budget s \<and> rs_route_log s' = rs_route_log s \<and> rs_terminal s' = rs_terminal s"

lemma same_frame_refl [simp]: "same_frame s s"
  by (simp add: same_frame_def)

lemma same_frame_trans: "same_frame a b \<Longrightarrow> same_frame b c \<Longrightarrow> same_frame a c"
  by (simp add: same_frame_def)

text \<open>The exceptions node functions raise.\<close>

datatype node_error =
    MissingFailureSignal
  | InconsistentVerdict
  | AmbiguousRoutes
  | NoWorkspaceSnapshot
  | BudgetValidationError
  | DuplicateJudgeLens
  | NoVerifierModel
  | SelfJudging
  | NoDraft
  | VersionBudgetExhausted
  | HygieneFailed
  | NoSkillStore
  | SkillNotFound
  | GoalCompileError
  | ServiceError string

end
