(* ===== verification/Route_Table.thy ===== *)
theory Route_Table
  imports Run_State
begin

section \<open>The route table\<close>

text \<open>
  \<open>contracts/graph.py\<close>: the twenty-four routes of the execution graph with their predicates, the routes
  out of a node, the routes legal in a state, and the producers of each failure class. Every
  predicate is executable.
\<close>

definition NODES :: "node list" where
  "NODES = [Intake, Retrieve, Plan, FanOut, Solve, Validate, Join, ClassifyFailure, Evolve,
            Distill, Review, Store, RecordDeadEnd, RejectDraft, Finalize]"

record route =
  rt_source :: node
  rt_target :: node
  rt_predicate_name :: route_name
  rt_predicate :: "run_state \<Rightarrow> bool"

definition required_criteria_pass :: "run_state \<Rightarrow> bool" where
  "required_criteria_pass s =
     (let required_ids = map c_id (filter is_required (rs_criteria s));
          passed = map r_criterion_id (filter r_passed (rs_results s))
      in if required_ids = [] then True else set required_ids \<subseteq> set passed)"

definition has_branches :: "run_state \<Rightarrow> bool" where
  "has_branches s \<longleftrightarrow> 0 < length (rs_branches s)"

definition join_complete_and_passing :: "run_state \<Rightarrow> bool" where
  "join_complete_and_passing s =
     (if rs_merge_audits s = [] then False
      else if \<not> (\<forall>m \<in> set (rs_merge_audits s). is_complete m) then False
      else required_criteria_pass s)"

definition failure_signal_present :: "run_state \<Rightarrow> bool" where
  "failure_signal_present s \<longleftrightarrow> rs_failure_signal s \<noteq> None"

text \<open>\<open>h[-1] == h[-2]\<close> on a history of at least two result vectors.\<close>

definition last_two_equal :: "'a list \<Rightarrow> bool" where
  "last_two_equal h \<longleftrightarrow> 2 \<le> length h \<and> h ! (length h - 1) = h ! (length h - 2)"

definition budget_remains_with_progress :: "run_state \<Rightarrow> bool" where
  "budget_remains_with_progress s =
     (case rs_failure s of
        None \<Rightarrow> False
      | Some f \<Rightarrow>
          if fv_class f \<in> {FCriteria, FBudget} then False
          else if max_attempts (rs_budget s) \<le> sp_attempts (rs_spent s) then False
          else if last_two_equal (rs_results_history s) then False
          else True)"

definition strategy_in :: "strategy list \<Rightarrow> run_state \<Rightarrow> bool" where
  "strategy_in xs s = (case rs_strategy s of None \<Rightarrow> False | Some x \<Rightarrow> x \<in> set xs)"

definition verdict_is :: "reuse_verdict \<Rightarrow> run_state \<Rightarrow> bool" where
  "verdict_is v s = (case rs_reusability s of None \<Rightarrow> False | Some x \<Rightarrow> rv_verdict x = v)"

definition edge :: "node \<Rightarrow> node \<Rightarrow> route_name \<Rightarrow> (run_state \<Rightarrow> bool) \<Rightarrow> route" where
  "edge src tgt name P =
     \<lparr>rt_source = src, rt_target = tgt, rt_predicate_name = name, rt_predicate = P\<rparr>"

lemma edge_sel [simp]:
  "rt_source (edge a b n P) = a" "rt_target (edge a b n P) = b"
  "rt_predicate_name (edge a b n P) = n" "rt_predicate (edge a b n P) = P"
  by (simp_all add: edge_def)

definition ROUTES :: "route list" where
  "ROUTES =
    [edge Intake Retrieve Always (\<lambda>s. True),
     edge Retrieve Plan Always (\<lambda>s. True),
     edge Plan Finalize AbstainRoute (strategy_in [Abstain]),
     edge Plan FanOut FanOutStrategy (strategy_in [Portfolio, Decomposition]),
     edge Plan Solve SingleStrategy (strategy_in [Apply, Adapt, Scratch]),
     edge FanOut ClassifyFailure PreDispatchBudgetFailure (\<lambda>s. rs_failure_signal s \<noteq> None),
     edge FanOut Solve Always (\<lambda>s. rs_failure_signal s = None),
     edge Solve ClassifyFailure PreValidationFailureSignal (\<lambda>s. rs_failure_signal s \<noteq> None),
     edge Solve Validate AttemptCompleted
       (\<lambda>s. rs_transcript_ref s \<noteq> None \<and> rs_failure_signal s = None),
     edge Validate Join HasBranches has_branches,
     edge Validate Distill NoBranchesAndPassing
       (\<lambda>s. \<not> has_branches s \<and> required_criteria_pass s \<and> rs_failure_signal s = None),
     edge Validate ClassifyFailure NoBranchesAndFailing
       (\<lambda>s. \<not> has_branches s \<and> (\<not> required_criteria_pass s \<or> failure_signal_present s)),
     edge Join Distill MergeCompleteAndPassing join_complete_and_passing,
     edge Join ClassifyFailure Otherwise (\<lambda>s. \<not> join_complete_and_passing s),
     edge ClassifyFailure Evolve Retry budget_remains_with_progress,
     edge ClassifyFailure RecordDeadEnd Otherwise (\<lambda>s. \<not> budget_remains_with_progress s),
     edge Evolve Solve Always (\<lambda>s. True),
     edge Distill Review ReusableRoute (verdict_is Reusable),
     edge Distill Finalize OneOffRoute (verdict_is OneOff),
     edge Review Store ApprovedRoute (\<lambda>s. True),
     edge Review RejectDraft RejectedRoute (\<lambda>s. True),
     edge Store Finalize Always (\<lambda>s. True),
     edge RecordDeadEnd Finalize Always (\<lambda>s. True),
     edge RejectDraft Finalize Always (\<lambda>s. True)]"

definition routes_from :: "node \<Rightarrow> route list" where
  "routes_from n = filter (\<lambda>r. rt_source r = n) ROUTES"

definition legal_routes :: "node \<Rightarrow> run_state \<Rightarrow> route list" where
  "legal_routes n s = filter (\<lambda>r. rt_predicate r s) (routes_from n)"

fun producers_of :: "failure_class \<Rightarrow> signal_source list" where
  "producers_of FEnvironment = [Solver, Orchestrator]"
| "producers_of FTool = [Solver]"
| "producers_of FRetrieval = [Validator]"
| "producers_of FPlan = [Validator]"
| "producers_of FExecution = [Validator]"
| "producers_of FCriteria = [Validator]"
| "producers_of FBudget = [Orchestrator]"
| "producers_of FMerge = [JoinSource]"

definition every_failure_class_has_a_producer :: "(failure_class \<times> signal_source list) list" where
  "every_failure_class_has_a_producer = map (\<lambda>c. (c, producers_of c)) FAILURE_CLASSES"


subsection \<open>Completeness and determinism of the table\<close>

lemma routes_from_simps [node_simps]:
  "routes_from Intake = [edge Intake Retrieve Always (\<lambda>s. True)]"
  "routes_from Retrieve = [edge Retrieve Plan Always (\<lambda>s. True)]"
  "routes_from Plan =
     [edge Plan Finalize AbstainRoute (strategy_in [Abstain]),
      edge Plan FanOut FanOutStrategy (strategy_in [Portfolio, Decomposition]),
      edge Plan Solve SingleStrategy (strategy_in [Apply, Adapt, Scratch])]"
  "routes_from FanOut =
     [edge FanOut ClassifyFailure PreDispatchBudgetFailure (\<lambda>s. rs_failure_signal s \<noteq> None),
      edge FanOut Solve Always (\<lambda>s. rs_failure_signal s = None)]"
  "routes_from Solve =
     [edge Solve ClassifyFailure PreValidationFailureSignal (\<lambda>s. rs_failure_signal s \<noteq> None),
      edge Solve Validate AttemptCompleted
        (\<lambda>s. rs_transcript_ref s \<noteq> None \<and> rs_failure_signal s = None)]"
  "routes_from Validate =
     [edge Validate Join HasBranches has_branches,
      edge Validate Distill NoBranchesAndPassing
        (\<lambda>s. \<not> has_branches s \<and> required_criteria_pass s \<and> rs_failure_signal s = None),
      edge Validate ClassifyFailure NoBranchesAndFailing
        (\<lambda>s. \<not> has_branches s \<and> (\<not> required_criteria_pass s \<or> failure_signal_present s))]"
  "routes_from Join =
     [edge Join Distill MergeCompleteAndPassing join_complete_and_passing,
      edge Join ClassifyFailure Otherwise (\<lambda>s. \<not> join_complete_and_passing s)]"
  "routes_from ClassifyFailure =
     [edge ClassifyFailure Evolve Retry budget_remains_with_progress,
      edge ClassifyFailure RecordDeadEnd Otherwise (\<lambda>s. \<not> budget_remains_with_progress s)]"
  "routes_from Evolve = [edge Evolve Solve Always (\<lambda>s. True)]"
  "routes_from Distill =
     [edge Distill Review ReusableRoute (verdict_is Reusable),
      edge Distill Finalize OneOffRoute (verdict_is OneOff)]"
  "routes_from Review =
     [edge Review Store ApprovedRoute (\<lambda>s. True),
      edge Review RejectDraft RejectedRoute (\<lambda>s. True)]"
  "routes_from Store = [edge Store Finalize Always (\<lambda>s. True)]"
  "routes_from RecordDeadEnd = [edge RecordDeadEnd Finalize Always (\<lambda>s. True)]"
  "routes_from RejectDraft = [edge RejectDraft Finalize Always (\<lambda>s. True)]"
  "routes_from Finalize = []"
  by (simp_all add: routes_from_def ROUTES_def)

lemma required_criteria_pass_iff:
  "required_criteria_pass s \<longleftrightarrow>
     (\<forall>c \<in> set (rs_criteria s). is_required c \<longrightarrow>
        (\<exists>r \<in> set (rs_results s). r_passed r \<and> r_criterion_id r = c_id c))"
  by (force simp: required_criteria_pass_def Let_def filter_empty_conv)

lemma strategy_in_iff: "strategy_in xs s \<longleftrightarrow> (\<exists>x \<in> set xs. rs_strategy s = Some x)"
  by (auto simp: strategy_in_def split: option.splits)

lemma verdict_is_iff: "verdict_is v s \<longleftrightarrow> (\<exists>x. rs_reusability s = Some x \<and> rv_verdict x = v)"
  by (auto simp: verdict_is_def split: option.splits)

lemma NODES_UNIV: "set NODES = UNIV"
  by (auto simp: NODES_def intro: node.exhaust)

text \<open>The states in which the table has no way out of a node.\<close>

definition stuck_at :: "node \<Rightarrow> run_state \<Rightarrow> bool" where
  "stuck_at n s \<longleftrightarrow>
     n = Finalize \<or>
     (n = Plan \<and> rs_strategy s = None) \<or>
     (n = Solve \<and> rs_transcript_ref s = None \<and> rs_failure_signal s = None) \<or>
     (n = Distill \<and> \<not> verdict_is Reusable s \<and> \<not> verdict_is OneOff s)"

lemma legal_routes_Plan_length:
  "length (legal_routes Plan s) = (if rs_strategy s = None then 0 else 1)"
proof (cases "rs_strategy s")
  case None
  then show ?thesis by (simp add: legal_routes_def node_simps strategy_in_def)
next
  case (Some x)
  then show ?thesis by (cases x) (simp_all add: legal_routes_def node_simps strategy_in_def)
qed

lemma legal_routes_Distill_length:
  "length (legal_routes Distill s) = (if verdict_is Reusable s \<or> verdict_is OneOff s then 1 else 0)"
  by (auto simp: legal_routes_def node_simps verdict_is_def split: option.splits)

lemma legal_routes_length:
  "length (legal_routes n s) = (if n = Review then 2 else if stuck_at n s then 0 else 1)"
proof (cases n)
  case Plan
  then show ?thesis by (simp add: legal_routes_Plan_length stuck_at_def)
next
  case Distill
  then show ?thesis by (simp add: legal_routes_Distill_length stuck_at_def)
qed (auto simp: legal_routes_def node_simps stuck_at_def failure_signal_present_def)

text \<open>
  The route table is complete and deterministic: out of every node the number of routes whose
  predicate holds is exactly one, except out of review (the reviewer chooses between two), and
  except in the listed stuck states: finalize, plan before a strategy is set, solve with neither
  transcript nor failure signal, distill without a reusable or one-off verdict.\<close>

theorem route_table_complete_and_deterministic:
  "length (legal_routes n s) =
     (if n = Review then 2
      else if n = Finalize \<or> (n = Plan \<and> rs_strategy s = None) \<or>
              (n = Solve \<and> rs_transcript_ref s = None \<and> rs_failure_signal s = None) \<or>
              (n = Distill \<and> \<not> verdict_is Reusable s \<and> \<not> verdict_is OneOff s) then 0
      else 1)"
  by (simp add: legal_routes_length stuck_at_def)

text \<open>Routes out of one node have distinct names, so a name identifies its target.\<close>

definition target_of :: "node \<Rightarrow> route_name \<Rightarrow> node option" where
  "target_of n name = map_option rt_target (List.find (\<lambda>r. rt_predicate_name r = name) (routes_from n))"

lemma distinct_route_names: "distinct (map rt_predicate_name (routes_from n))"
  by (cases n) (simp_all add: node_simps)

definition legal_route :: "node \<Rightarrow> route_name \<Rightarrow> run_state \<Rightarrow> bool" where
  "legal_route n name s \<longleftrightarrow> (\<exists>r \<in> set (legal_routes n s). rt_predicate_name r = name)"

lemma legal_route_simps [node_simps]:
  "legal_route Intake name s \<longleftrightarrow> name = Always"
  "legal_route Retrieve name s \<longleftrightarrow> name = Always"
  "legal_route Plan name s \<longleftrightarrow>
     (name = AbstainRoute \<and> strategy_in [Abstain] s) \<or>
     (name = FanOutStrategy \<and> strategy_in [Portfolio, Decomposition] s) \<or>
     (name = SingleStrategy \<and> strategy_in [Apply, Adapt, Scratch] s)"
  "legal_route FanOut name s \<longleftrightarrow>
     (name = PreDispatchBudgetFailure \<and> rs_failure_signal s \<noteq> None) \<or>
     (name = Always \<and> rs_failure_signal s = None)"
  "legal_route Solve name s \<longleftrightarrow>
     (name = PreValidationFailureSignal \<and> rs_failure_signal s \<noteq> None) \<or>
     (name = AttemptCompleted \<and> rs_transcript_ref s \<noteq> None \<and> rs_failure_signal s = None)"
  "legal_route Validate name s \<longleftrightarrow>
     (name = HasBranches \<and> has_branches s) \<or>
     (name = NoBranchesAndPassing \<and> \<not> has_branches s \<and> required_criteria_pass s \<and>
        rs_failure_signal s = None) \<or>
     (name = NoBranchesAndFailing \<and> \<not> has_branches s \<and>
        (\<not> required_criteria_pass s \<or> rs_failure_signal s \<noteq> None))"
  "legal_route Join name s \<longleftrightarrow>
     (name = MergeCompleteAndPassing \<and> join_complete_and_passing s) \<or>
     (name = Otherwise \<and> \<not> join_complete_and_passing s)"
  "legal_route ClassifyFailure name s \<longleftrightarrow>
     (name = Retry \<and> budget_remains_with_progress s) \<or>
     (name = Otherwise \<and> \<not> budget_remains_with_progress s)"
  "legal_route Evolve name s \<longleftrightarrow> name = Always"
  "legal_route Distill name s \<longleftrightarrow>
     (name = ReusableRoute \<and> verdict_is Reusable s) \<or> (name = OneOffRoute \<and> verdict_is OneOff s)"
  "legal_route Review name s \<longleftrightarrow> name = ApprovedRoute \<or> name = RejectedRoute"
  "legal_route Store name s \<longleftrightarrow> name = Always"
  "legal_route RecordDeadEnd name s \<longleftrightarrow> name = Always"
  "legal_route RejectDraft name s \<longleftrightarrow> name = Always"
  "\<not> legal_route Finalize name s"
  by (auto simp: legal_route_def legal_routes_def routes_from_simps failure_signal_present_def)

lemma target_of_simps [node_simps]:
  "target_of Intake Always = Some Retrieve"
  "target_of Retrieve Always = Some Plan"
  "target_of Plan AbstainRoute = Some Finalize"
  "target_of Plan FanOutStrategy = Some FanOut"
  "target_of Plan SingleStrategy = Some Solve"
  "target_of FanOut PreDispatchBudgetFailure = Some ClassifyFailure"
  "target_of FanOut Always = Some Solve"
  "target_of Solve PreValidationFailureSignal = Some ClassifyFailure"
  "target_of Solve AttemptCompleted = Some Validate"
  "target_of Validate HasBranches = Some Join"
  "target_of Validate NoBranchesAndPassing = Some Distill"
  "target_of Validate NoBranchesAndFailing = Some ClassifyFailure"
  "target_of Join MergeCompleteAndPassing = Some Distill"
  "target_of Join Otherwise = Some ClassifyFailure"
  "target_of ClassifyFailure Retry = Some Evolve"
  "target_of ClassifyFailure Otherwise = Some RecordDeadEnd"
  "target_of Evolve Always = Some Solve"
  "target_of Distill ReusableRoute = Some Review"
  "target_of Distill OneOffRoute = Some Finalize"
  "target_of Review ApprovedRoute = Some Store"
  "target_of Review RejectedRoute = Some RejectDraft"
  "target_of Store Always = Some Finalize"
  "target_of RecordDeadEnd Always = Some Finalize"
  "target_of RejectDraft Always = Some Finalize"
  by (simp_all add: target_of_def routes_from_simps)

end
