(* ===== verification/Attempt_Meter.thy ===== *)
theory Attempt_Meter
  imports Route_Table
begin

section \<open>Attempt-scoped spend accounting\<close>

text \<open>
  \<open>nodes/attempt.py\<close>: \<open>RuntimeWindow\<close> turns the cumulative counters of the model client and the tool
  runtime into deltas; \<open>AttemptMeter\<close> is the only writer of the attempt dimensions of
  \<open>RunState.spent\<close>; \<open>charge_version_write\<close> is the only writer of \<open>versions_written\<close>; \<open>failed\<close> and
  \<open>completed\<close> close an attempt. The monotonic clock is an argument: the reading at the call.
\<close>

record usage_delta =
  ud_tool_calls :: int
  ud_tokens :: int
  ud_cost_usd :: real

definition no_usage :: usage_delta where
  "no_usage = \<lparr>ud_tool_calls = 0, ud_tokens = 0, ud_cost_usd = 0\<rparr>"

text \<open>The run-scoped counters: the model client's spend, the tool runtime's invocation and conflict logs.\<close>

record runtime =
  rn_model :: "(int \<times> real) option"
  rn_tools :: "(string list \<times> resource_conflict list) option"

record runtime_window =
  rw_tokens_at_open :: int
  rw_cost_at_open :: real
  rw_invocations_at_open :: nat
  rw_conflicts_at_open :: nat

definition open_window :: "runtime \<Rightarrow> runtime_window" where
  "open_window rt =
     \<lparr>rw_tokens_at_open = (case rn_model rt of None \<Rightarrow> 0 | Some m \<Rightarrow> fst m),
      rw_cost_at_open = (case rn_model rt of None \<Rightarrow> 0 | Some m \<Rightarrow> snd m),
      rw_invocations_at_open = (case rn_tools rt of None \<Rightarrow> 0 | Some t \<Rightarrow> length (fst t)),
      rw_conflicts_at_open = (case rn_tools rt of None \<Rightarrow> 0 | Some t \<Rightarrow> length (snd t))\<rparr>"

definition new_invocations :: "runtime_window \<Rightarrow> runtime \<Rightarrow> string list" where
  "new_invocations w rt =
     (case rn_tools rt of None \<Rightarrow> [] | Some t \<Rightarrow> drop (rw_invocations_at_open w) (fst t))"

definition new_conflicts :: "runtime_window \<Rightarrow> runtime \<Rightarrow> resource_conflict list" where
  "new_conflicts w rt =
     (case rn_tools rt of None \<Rightarrow> [] | Some t \<Rightarrow> drop (rw_conflicts_at_open w) (snd t))"

definition delta :: "runtime_window \<Rightarrow> runtime \<Rightarrow> usage_delta" where
  "delta w rt =
     (let tokens = (case rn_model rt of None \<Rightarrow> 0 | Some m \<Rightarrow> fst m - rw_tokens_at_open w);
          cost = (case rn_model rt of None \<Rightarrow> 0 | Some m \<Rightarrow> snd m - rw_cost_at_open w)
      in \<lparr>ud_tool_calls = int (length (new_invocations w rt)),
          ud_tokens = max 0 tokens,
          ud_cost_usd = max 0 cost\<rparr>)"

record attempt_meter =
  mt_budget :: budget
  mt_committed :: spend
  mt_reserved :: reservation
  mt_tool_calls :: int
  mt_tokens :: int
  mt_cost_usd :: real
  mt_started_at :: real

definition open_meter :: "run_state \<Rightarrow> reservation option \<Rightarrow> real \<Rightarrow> attempt_meter" where
  "open_meter s reserved clock =
     \<lparr>mt_budget = rs_budget s, mt_committed = rs_spent s,
      mt_reserved = (case reserved of Some r \<Rightarrow> r | None \<Rightarrow> rs_reserved s),
      mt_tool_calls = 0, mt_tokens = 0, mt_cost_usd = 0, mt_started_at = clock\<rparr>"

definition charge :: "attempt_meter \<Rightarrow> int \<Rightarrow> int \<Rightarrow> real \<Rightarrow> attempt_meter" where
  "charge m tool_calls tokens cost =
     m\<lparr>mt_tool_calls := mt_tool_calls m + tool_calls,
       mt_tokens := mt_tokens m + tokens,
       mt_cost_usd := mt_cost_usd m + cost\<rparr>"

definition charge_delta :: "attempt_meter \<Rightarrow> usage_delta \<Rightarrow> attempt_meter" where
  "charge_delta m d = charge m (ud_tool_calls d) (ud_tokens d) (ud_cost_usd d)"

definition elapsed_s :: "attempt_meter \<Rightarrow> real \<Rightarrow> real" where
  "elapsed_s m clock = max 0 (clock - mt_started_at m)"

definition used :: "attempt_meter \<Rightarrow> real \<Rightarrow> int \<Rightarrow> int \<Rightarrow> int \<Rightarrow> real \<Rightarrow> reservation" where
  "used m clock attempts tool_calls tokens cost =
     \<lparr>rv_attempts = attempts,
      rv_tool_calls = mt_tool_calls m + tool_calls,
      rv_tokens = mt_tokens m + tokens,
      rv_wall_clock_s = elapsed_s m clock,
      rv_cost_usd = mt_cost_usd m + cost,
      rv_versions_written = 0\<rparr>"

definition preflight ::
    "attempt_meter \<Rightarrow> real \<Rightarrow> int \<Rightarrow> int \<Rightarrow> int \<Rightarrow> real \<Rightarrow> dimension option" where
  "preflight m clock attempts tool_calls tokens cost =
     budget_excess (mt_budget m) (mt_committed m) (mt_reserved m)
       (used m clock attempts tool_calls tokens cost)"

definition commit :: "attempt_meter \<Rightarrow> real \<Rightarrow> int \<Rightarrow> spend" where
  "commit m clock attempts =
     (mt_committed m)
       \<lparr>sp_attempts := sp_attempts (mt_committed m) + attempts,
        sp_tool_calls := sp_tool_calls (mt_committed m) + mt_tool_calls m,
        sp_tokens := sp_tokens (mt_committed m) + mt_tokens m,
        sp_wall_clock_s := sp_wall_clock_s (mt_committed m) + elapsed_s m clock,
        sp_cost_usd := sp_cost_usd (mt_committed m) + mt_cost_usd m\<rparr>"

definition charge_version_write :: "run_state \<Rightarrow> run_state" where
  "charge_version_write s =
     s\<lparr>rs_spent := (rs_spent s)\<lparr>sp_versions_written := sp_versions_written (rs_spent s) + 1\<rparr>\<rparr>"

definition record_new_affordances :: "bool \<Rightarrow> runtime_window \<Rightarrow> runtime \<Rightarrow> effect list" where
  "record_new_affordances has_affordances w rt =
     (if \<not> has_affordances then []
      else if new_invocations w rt = [] \<and> new_conflicts w rt = [] then []
      else [AffordanceRecord])"

text \<open>\<open>failed\<close> and \<open>completed\<close>: the keyword \<open>updates\<close> is a function on the state applied last.\<close>

definition failed ::
    "run_state \<Rightarrow> attempt_meter \<Rightarrow> real \<Rightarrow> failure_signal \<Rightarrow> int \<Rightarrow> int \<Rightarrow>
     (run_state \<Rightarrow> run_state) \<Rightarrow> effect list \<Rightarrow> node_outcome" where
  "failed s m clock signal attempt_no attempts updates es =
     outcome
       (updates
         (s\<lparr>rs_attempt_no := attempt_no, rs_spent := commit m clock attempts,
            rs_failure_signal := Some signal\<rparr>))
       PreValidationFailureSignal es"

definition completed ::
    "run_state \<Rightarrow> attempt_meter \<Rightarrow> real \<Rightarrow> int \<Rightarrow> string \<Rightarrow> bool \<Rightarrow> int \<Rightarrow>
     (run_state \<Rightarrow> run_state) \<Rightarrow> effect list \<Rightarrow> node_outcome" where
  "completed s m clock attempt_no transcript described attempts updates es =
     outcome
       (updates
         (s\<lparr>rs_attempt_no := attempt_no, rs_spent := commit m clock attempts,
            rs_transcript_ref := Some transcript,
            rs_artifacts := (if described then rs_artifacts s @ [transcript] else rs_artifacts s),
            rs_failure_signal := None\<rparr>))
       AttemptCompleted es"

subsection \<open>Windows bill every unit of usage exactly once\<close>

text \<open>A runtime only grows: the model spend is monotone and the logs are extended at the end.\<close>

definition runtime_le :: "runtime \<Rightarrow> runtime \<Rightarrow> bool" where
  "runtime_le a b \<longleftrightarrow>
     (case (rn_model a, rn_model b) of
        (None, None) \<Rightarrow> True
      | (Some x, Some y) \<Rightarrow> fst x \<le> fst y \<and> snd x \<le> snd y
      | _ \<Rightarrow> False) \<and>
     (case (rn_tools a, rn_tools b) of
        (None, None) \<Rightarrow> True
      | (Some x, Some y) \<Rightarrow> prefix (fst x) (fst y) \<and> prefix (snd x) (snd y)
      | _ \<Rightarrow> False)"

lemma runtime_le_cases:
  assumes "runtime_le a b"
  obtains
    "rn_model a = None" "rn_model b = None"
  | t c t' c' where "rn_model a = Some (t, c)" "rn_model b = Some (t', c')" "t \<le> t'" "c \<le> c'"
  using assms by (auto simp: runtime_le_def split: option.splits)

lemma runtime_le_tools:
  assumes "runtime_le a b"
  obtains
    "rn_tools a = None" "rn_tools b = None"
  | i k i' k' where "rn_tools a = Some (i, k)" "rn_tools b = Some (i @ i', k @ k')"
  using assms
  by (fastforce simp: runtime_le_def prefix_def split: option.splits)

definition model_tokens :: "runtime \<Rightarrow> int" where
  "model_tokens rt = (case rn_model rt of None \<Rightarrow> 0 | Some m \<Rightarrow> fst m)"

definition model_cost :: "runtime \<Rightarrow> real" where
  "model_cost rt = (case rn_model rt of None \<Rightarrow> 0 | Some m \<Rightarrow> snd m)"

definition invocation_count :: "runtime \<Rightarrow> int" where
  "invocation_count rt = (case rn_tools rt of None \<Rightarrow> 0 | Some t \<Rightarrow> int (length (fst t)))"

lemma window_invocations:
  assumes "runtime_le a b"
  shows "int (length (new_invocations (open_window a) b)) = invocation_count b - invocation_count a"
  using assms
  by (rule runtime_le_tools) (simp_all add: open_window_def new_invocations_def invocation_count_def)

lemma window_delta:
  assumes "runtime_le a b"
  shows "delta (open_window a) b =
           \<lparr>ud_tool_calls = invocation_count b - invocation_count a,
            ud_tokens = model_tokens b - model_tokens a,
            ud_cost_usd = model_cost b - model_cost a\<rparr>"
  unfolding delta_def window_invocations[OF assms]
  using assms
  by (rule runtime_le_cases) (simp_all add: open_window_def model_tokens_def model_cost_def)

text \<open>The meter after metering consecutive windows over the runtimes \<open>rt0, rt1, ...\<close>.\<close>

fun meter_windows :: "attempt_meter \<Rightarrow> runtime \<Rightarrow> runtime list \<Rightarrow> attempt_meter" where
  "meter_windows m rt [] = m"
| "meter_windows m rt (rt' # rts) =
     meter_windows (charge_delta m (delta (open_window rt) rt')) rt' rts"

fun growing :: "runtime \<Rightarrow> runtime list \<Rightarrow> bool" where
  "growing rt [] = True"
| "growing rt (rt' # rts) = (runtime_le rt rt' \<and> growing rt' rts)"

text \<open>
  Metering is exact: charging one runtime window after the other charges precisely the growth of
  the run-scoped counters from the first opening to the last closing. Nothing is billed twice,
  although every counter is cumulative over the run.\<close>

theorem windows_bill_exactly_once:
  assumes "growing rt rts"
  shows "mt_tool_calls (meter_windows m rt rts) - mt_tool_calls m =
            invocation_count (last (rt # rts)) - invocation_count rt \<and>
         mt_tokens (meter_windows m rt rts) - mt_tokens m =
            model_tokens (last (rt # rts)) - model_tokens rt \<and>
         mt_cost_usd (meter_windows m rt rts) - mt_cost_usd m =
            model_cost (last (rt # rts)) - model_cost rt"
  using assms
proof (induction m rt rts rule: meter_windows.induct)
  case (1 m rt)
  then show ?case by simp
next
  case (2 m rt rt1 rts)
  then show ?case by (simp add: charge_delta_def charge_def window_delta)
qed

definition example_runtime :: "int \<Rightarrow> nat \<Rightarrow> runtime" where
  "example_runtime tokens calls =
     \<lparr>rn_model = Some (tokens, 0), rn_tools = Some (replicate calls ''shell'', [])\<rparr>"

theorem windows_bill_exactly_once_witness:
  "mt_tool_calls
     (meter_windows
        \<lparr>mt_budget = default_budget, mt_committed = no_spend, mt_reserved = no_reservation,
         mt_tool_calls = 0, mt_tokens = 0, mt_cost_usd = 0, mt_started_at = 0\<rparr>
        (example_runtime 0 0) [example_runtime 10 2, example_runtime 30 4, example_runtime 30 8]) = 8"
proof -
  have "growing (example_runtime 0 0)
          [example_runtime 10 2, example_runtime 30 4, example_runtime 30 8]"
    by (simp add: example_runtime_def runtime_le_def numeral_eq_Suc)
  from windows_bill_exactly_once[OF this, of
      "\<lparr>mt_budget = default_budget, mt_committed = no_spend, mt_reserved = no_reservation,
        mt_tool_calls = 0, mt_tokens = 0, mt_cost_usd = 0, mt_started_at = 0\<rparr>"]
  show ?thesis
    by (simp add: example_runtime_def invocation_count_def del: meter_windows.simps)
qed

subsection \<open>Closing an attempt\<close>

lemma commit_sel [simp]:
  "sp_attempts (commit m clock k) = sp_attempts (mt_committed m) + k"
  "sp_versions_written (commit m clock k) = sp_versions_written (mt_committed m)"
  by (simp_all add: commit_def)

lemma charge_keeps [simp]:
  "mt_budget (charge m a b c) = mt_budget m" "mt_committed (charge m a b c) = mt_committed m"
  "mt_reserved (charge m a b c) = mt_reserved m"
  "mt_budget (charge_delta m d) = mt_budget m" "mt_committed (charge_delta m d) = mt_committed m"
  "mt_reserved (charge_delta m d) = mt_reserved m"
  "mt_started_at (charge m a b c) = mt_started_at m"
  "mt_started_at (charge_delta m d) = mt_started_at m"
  by (simp_all add: charge_def charge_delta_def)

lemma open_meter_sel [simp]:
  "mt_budget (open_meter s r t) = rs_budget s" "mt_committed (open_meter s r t) = rs_spent s"
  by (simp_all add: open_meter_def)

text \<open>
  What the meter commits is what its preflight admitted: if the work requested at a clock reading
  fits the run's limits, then after charging exactly that work and committing at the same reading
  the run's spend, with the reservations still outstanding, is within every limit.\<close>

theorem preflight_commit_within_budget:
  assumes "preflight m clock attempts tool_calls tokens cost = None"
  shows "fits (mt_budget m) (commit (charge m tool_calls tokens cost) clock attempts)
           (mt_reserved m) no_reservation d"
proof -
  have "fits (mt_budget m) (mt_committed m) (mt_reserved m)
          (used m clock attempts tool_calls tokens cost) d"
    using assms by (simp add: preflight_def budget_excess_None_iff)
  moreover have "total_of (commit (charge m tool_calls tokens cost) clock attempts)
      (mt_reserved m) no_reservation d =
    total_of (mt_committed m) (mt_reserved m) (used m clock attempts tool_calls tokens cost) d"
    by (cases d)
       (simp_all add: commit_def charge_def used_def no_reservation_def elapsed_s_def)
  ultimately show ?thesis by (simp add: fits_def split: option.splits)
qed

theorem preflight_commit_within_budget_witness:
  "fits default_budget
     (commit (charge
        \<lparr>mt_budget = default_budget, mt_committed = no_spend, mt_reserved = no_reservation,
         mt_tool_calls = 0, mt_tokens = 0, mt_cost_usd = 0, mt_started_at = 0\<rparr> 3 100 0) 5 1)
     no_reservation no_reservation ToolCalls"
proof -
  have "preflight
      \<lparr>mt_budget = default_budget, mt_committed = no_spend, mt_reserved = no_reservation,
       mt_tool_calls = 0, mt_tokens = 0, mt_cost_usd = 0, mt_started_at = 0\<rparr> 5 1 3 100 0 = None"
    by (simp add: preflight_def budget_excess_if fits_def used_def elapsed_s_def default_budget_def
        no_spend_def no_reservation_def)
  from preflight_commit_within_budget[OF this, of ToolCalls] show ?thesis by simp
qed

end
