(* ===== verification/Criterion_Runner.thy ===== *)
theory Criterion_Runner
  imports Run_State
begin

section \<open>Scoring one criterion\<close>

text \<open>
  \<open>validation/criteria.py\<close> (\<open>CriterionRunner.score\<close> and its five kinds) and \<open>validation/judge.py\<close>. What
  a work directory answers is the record \<open>score_env\<close>: the sandboxed executor, the assertion
  evaluator, the JSON Schema validator, the content of \<open>metrics.json\<close>, the artifact text and the
  verifier model are functions of their inputs.
\<close>

datatype command_outcome = Finished int string string | Unavailable string | CommandTimedOut

datatype assertion_outcome = AssertionValue bool | AssertionUnsafe string | AssertionRaised string

datatype schema_outcome = SchemaValid | SchemaInvalid string | SchemaRaised string

record verifier =
  vf_complete :: "string \<Rightarrow> string \<times> real"
  vf_identity :: string

record score_env =
  se_command :: "string \<Rightarrow> int \<Rightarrow> command_outcome"
  se_assertion :: "string \<Rightarrow> assertion_outcome"
  se_path_escape :: "string \<Rightarrow> string option"
  se_schema :: "string \<Rightarrow> string \<Rightarrow> schema_outcome"
  se_metric :: "string \<Rightarrow> (string, real) result"
  se_artifact :: string
  se_context_hash :: "string \<Rightarrow> string \<Rightarrow> lens option \<Rightarrow> string"
  se_model :: "string option"
  se_verifier :: "verifier option"
  se_repr :: "string \<Rightarrow> string"
  se_float_str :: "real \<Rightarrow> string"

definition bool_str :: "bool \<Rightarrow> string" where
  "bool_str b = (if b then ''True'' else ''False'')"

fun op_str :: "compare_op \<Rightarrow> string" where
  "op_str OpLt = ''lt''"
| "op_str OpLte = ''lte''"
| "op_str OpGt = ''gt''"
| "op_str OpGte = ''gte''"
| "op_str OpEq = ''eq''"

fun lens_str :: "lens \<Rightarrow> string" where
  "lens_str Correctness = ''correctness''"
| "lens_str Currency = ''currency''"
| "lens_str ProvenanceLens = ''provenance''"
| "lens_str ScopeLens = ''scope''"
| "lens_str Safety = ''safety''"

text \<open>\<open>CriterionRunner._run_command\<close>.\<close>

definition run_command :: "score_env \<Rightarrow> 'a criterion_fields_scheme \<Rightarrow> criterion_result" where
  "run_command env c =
     (let (exit_code, out) =
        (case se_command env (the (c_run c)) (c_timeout_s c) of
           Finished rc so err \<Rightarrow> (rc, so @ err)
         | Unavailable msg \<Rightarrow> (126, msg)
         | CommandTimedOut \<Rightarrow> (124, ''timed out after '' @ str_of_int (c_timeout_s c) @ ''s''))
      in (plain_result (c_id c) Command (exit_code = c_expect_exit c) (c_weight c))
           \<lparr>r_exit_code := Some exit_code, r_output_excerpt := last_n 2000 out\<rparr>)"

definition run_assertion :: "score_env \<Rightarrow> 'a criterion_fields_scheme \<Rightarrow> criterion_result" where
  "run_assertion env c =
     (let (passed, excerpt, errored) =
        (case se_assertion env (the (c_expr c)) of
           AssertionValue b \<Rightarrow>
             (b, ''assertion '' @ se_repr env (the (c_expr c)) @ '' => '' @ bool_str b, False)
         | AssertionUnsafe msg \<Rightarrow> (False, ''assertion rejected: '' @ msg, True)
         | AssertionRaised msg \<Rightarrow> (False, ''assertion error: '' @ msg, True))
      in (plain_result (c_id c) Assertion passed (c_weight c))
           \<lparr>r_output_excerpt := take 2000 excerpt, r_errored := errored\<rparr>)"

text \<open>The two paths are resolved first; the marker between them is the UTF-8 of a double turnstile.\<close>

definition models_mark :: string where
  "models_mark = [char_of (226::nat), char_of (138::nat), char_of (168::nat)]"

definition run_schema :: "score_env \<Rightarrow> 'a criterion_fields_scheme \<Rightarrow> criterion_result" where
  "run_schema env c =
     (let fail = (\<lambda>msg errored.
            (plain_result (c_id c) Schema False (c_weight c))
              \<lparr>r_output_excerpt := take 2000 (''schema error: '' @ msg), r_errored := errored\<rparr>);
          tgt = the (c_target c); ref = the (c_schema_ref c)
      in case se_path_escape env tgt of
           Some msg \<Rightarrow> fail msg True
         | None \<Rightarrow>
             (case se_path_escape env ref of
                Some msg \<Rightarrow> fail msg True
              | None \<Rightarrow>
                  (case se_schema env tgt ref of
                     SchemaValid \<Rightarrow>
                       (plain_result (c_id c) Schema True (c_weight c))
                         \<lparr>r_output_excerpt := ''schema ok: '' @ tgt @ '' '' @ models_mark @ '' '' @ ref\<rparr>
                   | SchemaInvalid msg \<Rightarrow> fail msg False
                   | SchemaRaised msg \<Rightarrow> fail msg True)))"

fun compare :: "compare_op \<Rightarrow> real \<Rightarrow> real \<Rightarrow> bool" where
  "compare OpLt x y = (x < y)"
| "compare OpLte x y = (x \<le> y)"
| "compare OpGt x y = (y < x)"
| "compare OpGte x y = (y \<le> x)"
| "compare OpEq x y = (x = y)"

definition run_metric :: "score_env \<Rightarrow> 'a criterion_fields_scheme \<Rightarrow> criterion_result" where
  "run_metric env c =
     (let fail = (\<lambda>msg.
            (plain_result (c_id c) Metric False (c_weight c))
              \<lparr>r_output_excerpt := take 2000 (''metric error: '' @ msg), r_errored := True\<rparr>);
          metric = the (c_metric c); cop = the (c_op c); threshold = the (c_threshold c)
      in case se_path_escape env ''metrics.json'' of
           Some msg \<Rightarrow> fail msg
         | None \<Rightarrow>
             (case se_metric env metric of
                Inl msg \<Rightarrow> fail msg
              | Inr v \<Rightarrow>
                  (let passed = compare cop v threshold
                   in (plain_result (c_id c) Metric passed (c_weight c))
                        \<lparr>r_output_excerpt := take 2000
                           (''metric '' @ metric @ ''='' @ se_float_str env v @ '' '' @ op_str cop @
                            '' '' @ se_float_str env threshold @ '' => '' @ bool_str passed)\<rparr>)))"

text \<open>\<open>evaluate_judge\<close>: the verifier sees the artifact, the rubric and the lens, nothing else.\<close>

definition judge_prompt :: "string \<Rightarrow> string \<Rightarrow> lens option \<Rightarrow> string" where
  "judge_prompt artifact rubric lens_opt =
     ''You are an isolated verifier. You receive ONLY an artifact and a rubric.'' @ [CHR 0x0A] @
     ''Lens: '' @ (case lens_opt of None \<Rightarrow> ''correctness'' | Some l \<Rightarrow> lens_str l) @ [CHR 0x0A] @
     ''Rubric:'' @ [CHR 0x0A] @ rubric @ [CHR 0x0A, CHR 0x0A] @
     ''Artifact:'' @ [CHR 0x0A] @ artifact @ [CHR 0x0A, CHR 0x0A] @
     ''Reply with exactly PASS or FAIL on the first line.''"

definition judge_says_pass :: "string \<Rightarrow> bool" where
  "judge_says_pass text =
     (let first = (if py_strip text \<noteq> [] then py_upper (py_strip (first_line (py_strip text))) else ''FAIL'')
      in py_startswith first ''PASS'')"

definition evaluate_judge :: "score_env \<Rightarrow> verifier \<Rightarrow> 'a criterion_fields_scheme \<Rightarrow> criterion_result" where
  "evaluate_judge env v c =
     (let (txt, latency) =
            vf_complete v (judge_prompt (se_artifact env) (the (c_rubric c)) (c_lens c))
      in (plain_result (c_id c) Judge (judge_says_pass txt) (c_weight c))
           \<lparr>r_isolation := Some FreshContext, r_lens := c_lens c,
            r_context_hash := Some (se_context_hash env (se_artifact env) (the (c_rubric c)) (c_lens c)),
            r_output_excerpt := take 2000 txt, r_duration_s := latency\<rparr>)"

definition run_judge ::
    "score_env \<Rightarrow> bool \<Rightarrow> 'a criterion_fields_scheme \<Rightarrow> (node_error, criterion_result) result" where
  "run_judge env is_task_criterion c =
     (if \<not> is_task_criterion then Inl (ServiceError ''judge criterion can only be scored as a TaskCriterion'')
      else case se_verifier env of
             None \<Rightarrow> Inl NoVerifierModel
           | Some v \<Rightarrow>
               (case se_model env of
                  Some m \<Rightarrow> if vf_identity v = m then Inl SelfJudging else Inr (evaluate_judge env v c)
                | None \<Rightarrow> Inr (evaluate_judge env v c)))"

definition score ::
    "score_env \<Rightarrow> bool \<Rightarrow> 'a criterion_fields_scheme \<Rightarrow> (node_error, criterion_result) result" where
  "score env is_task_criterion c =
     (case c_kind c of
        Command \<Rightarrow> Inr (run_command env c)
      | Assertion \<Rightarrow> Inr (run_assertion env c)
      | Schema \<Rightarrow> Inr (run_schema env c)
      | Metric \<Rightarrow> Inr (run_metric env c)
      | Judge \<Rightarrow> run_judge env is_task_criterion c)"

fun score_all ::
    "score_env \<Rightarrow> bool \<Rightarrow> 'a criterion_fields_scheme list \<Rightarrow> (node_error, criterion_result list) result" where
  "score_all env tc [] = Inr []"
| "score_all env tc (c # cs) =
     (case score env tc c of
        Inl e \<Rightarrow> Inl e
      | Inr r \<Rightarrow> (case score_all env tc cs of Inl e \<Rightarrow> Inl e | Inr rs \<Rightarrow> Inr (r # rs)))"

definition assert_distinct_lenses :: "'a criterion_fields_scheme list \<Rightarrow> bool" where
  "assert_distinct_lenses cs \<longleftrightarrow> distinct (map c_lens (filter (\<lambda>c. c_kind c = Judge) cs))"

subsection \<open>What a result says about its criterion\<close>

lemma plain_result_sel [simp]:
  "r_criterion_id (plain_result i k p w) = i" "r_kind (plain_result i k p w) = Some k"
  "r_passed (plain_result i k p w) = p" "r_weight (plain_result i k p w) = w"
  "r_errored (plain_result i k p w) = False"
  "length (r_output_excerpt (plain_result i k p w)) = 0"
  by (simp_all add: plain_result_def)

lemma run_kind_sel:
  "r_criterion_id (run_command env c) = c_id c" "r_criterion_id (run_assertion env c) = c_id c"
  "r_criterion_id (run_schema env c) = c_id c" "r_criterion_id (run_metric env c) = c_id c"
  "r_criterion_id (evaluate_judge env v c) = c_id c"
  "r_weight (run_command env c) = c_weight c" "r_weight (run_assertion env c) = c_weight c"
  "r_weight (run_schema env c) = c_weight c" "r_weight (run_metric env c) = c_weight c"
  "r_weight (evaluate_judge env v c) = c_weight c"
  by (simp_all add: run_command_def run_assertion_def run_schema_def run_metric_def
      evaluate_judge_def Let_def split: command_outcome.splits assertion_outcome.splits
      option.splits schema_outcome.splits sum.splits prod.splits)

lemma evaluate_judge_sel:
  "r_isolation (evaluate_judge env v c) = Some FreshContext"
  "r_passed (evaluate_judge env v c) = judge_says_pass (fst (vf_complete v
     (judge_prompt (se_artifact env) (the (c_rubric c)) (c_lens c))))"
  by (simp_all add: evaluate_judge_def Let_def split: prod.splits)

lemma run_judge_Inr:
  "run_judge env tc c = Inr r \<Longrightarrow>
     \<exists>v. se_verifier env = Some v \<and> se_model env \<noteq> Some (vf_identity v) \<and> r = evaluate_judge env v c"
  by (auto simp: run_judge_def split: if_splits option.splits)

lemma score_Inr_sel:
  assumes "score env tc c = Inr r"
  shows "r_criterion_id r = c_id c" and "r_weight r = c_weight c"
  using assms run_judge_Inr[of env tc c r]
  by (auto simp: score_def run_kind_sel split: criterion_kind.splits)

lemma score_all_Inr:
  "score_all env tc cs = Inr rs \<Longrightarrow>
     length rs = length cs \<and> map r_criterion_id rs = map c_id cs \<and> map r_weight rs = map c_weight cs"
  by (induction cs arbitrary: rs) (auto simp: score_Inr_sel split: sum.splits)

lemma errored_results_fail:
  "r_errored (run_assertion env c) \<Longrightarrow> \<not> r_passed (run_assertion env c)"
  "r_errored (run_schema env c) \<Longrightarrow> \<not> r_passed (run_schema env c)"
  "r_errored (run_metric env c) \<Longrightarrow> \<not> r_passed (run_metric env c)"
  by (auto simp: run_assertion_def run_schema_def run_metric_def Let_def
      split: assertion_outcome.splits option.splits schema_outcome.splits sum.splits)

lemma run_command_errored: "\<not> r_errored (run_command env c)"
  by (simp add: run_command_def Let_def split: command_outcome.splits)

text \<open>
  Scoring never turns an error into a pass, and the solver never judges itself: every result
  carries the id and the weight of its criterion; a result that records an error records a failure;
  and a judge result exists only when an independent verifier, of another identity than the solver's
  model, was configured.\<close>

theorem score_sound:
  assumes "score env tc c = Inr r"
  shows "r_criterion_id r = c_id c \<and> r_weight r = c_weight c \<and> (r_errored r \<longrightarrow> \<not> r_passed r) \<and>
         (c_kind c = Judge \<longrightarrow>
            (\<exists>v. se_verifier env = Some v \<and> se_model env \<noteq> Some (vf_identity v) \<and>
                 r_isolation r = Some FreshContext \<and>
                 r_passed r = judge_says_pass (fst (vf_complete v
                   (judge_prompt (se_artifact env) (the (c_rubric c)) (c_lens c))))))"
proof -
  have "r_errored r \<longrightarrow> \<not> r_passed r"
  proof (cases "c_kind c")
    case Judge
    then obtain v where "r = evaluate_judge env v c"
      using assms run_judge_Inr[of env tc c r] by (auto simp: score_def)
    then show ?thesis by (simp add: evaluate_judge_def Let_def split: prod.splits)
  qed (use assms errored_results_fail[of env c] run_command_errored[of env c] in
        \<open>auto simp: score_def\<close>)
  moreover have "c_kind c = Judge \<longrightarrow>
      (\<exists>v. se_verifier env = Some v \<and> se_model env \<noteq> Some (vf_identity v) \<and>
           r_isolation r = Some FreshContext \<and>
           r_passed r = judge_says_pass (fst (vf_complete v
             (judge_prompt (se_artifact env) (the (c_rubric c)) (c_lens c)))))"
    using assms run_judge_Inr[of env tc c r] evaluate_judge_sel[of env _ c]
    by (auto simp: score_def)
  ultimately show ?thesis using score_Inr_sel[OF assms] by blast
qed

definition example_env :: score_env where
  "example_env =
     \<lparr>se_command = (\<lambda>cmd t. Finished 0 ''ok'' []), se_assertion = (\<lambda>e. AssertionRaised ''boom''),
      se_path_escape = (\<lambda>p. None), se_schema = (\<lambda>t r. SchemaValid), se_metric = (\<lambda>m. Inr 1),
      se_artifact = ''text'', se_context_hash = (\<lambda>a r l. ''h''), se_model = Some ''solver'',
      se_verifier = Some \<lparr>vf_complete = (\<lambda>p. (''PASS'', 1)), vf_identity = ''judge''\<rparr>,
      se_repr = (\<lambda>s. s), se_float_str = (\<lambda>r. ''1.0'')\<rparr>"

theorem score_sound_witness:
  "\<exists>r. score example_env True (example_criterion\<lparr>c_kind := Judge, c_rubric := Some ''good?''\<rparr>) = Inr r \<and>
       r_isolation r = Some FreshContext"
proof -
  let ?c = "example_criterion\<lparr>c_kind := Judge, c_rubric := Some ''good?''\<rparr>"
  have "\<exists>r. score example_env True ?c = Inr r"
    by (simp add: score_def run_judge_def example_env_def example_criterion_def)
  then obtain r where r: "score example_env True ?c = Inr r" ..
  from score_sound[OF this] have "r_isolation r = Some FreshContext" by auto
  with r show ?thesis by blast
qed

end
