(* ===== verification/Node_Plan.thy ===== *)
theory Node_Plan
  imports Attempt_Meter Criterion_Runner "HOL-Library.Multiset"
begin

section \<open>Planning nodes: plan and fan\_out\<close>

text \<open>
  \<open>nodes/plan.py\<close> (strategy choice), \<open>nodes/guide_stitch.py\<close> (the deterministic guide), and
  \<open>nodes/fan_out.py\<close> (criteria partition, budget split, reservation, branches). \<open>base_ctx\<close> holds the
  part of \<open>NodeContext\<close> that these nodes and most others read; later theories extend it.
\<close>

record base_ctx =
  cx_run_id :: run_id
  cx_workdir :: string
  cx_script :: "string list option"
  cx_digest :: digest
  cx_env :: "string \<Rightarrow> score_env"
  cx_clock :: "nat \<Rightarrow> real"
  cx_deterministic_guide :: bool

text \<open>\<open>ctx.script or ["true"]\<close>: both \<open>None\<close> and the empty list are replaced.\<close>

definition script_or_true :: "'a base_ctx_scheme \<Rightarrow> string list" where
  "script_or_true ctx =
     (case cx_script ctx of None \<Rightarrow> [''true''] | Some xs \<Rightarrow> if xs = [] then [''true''] else xs)"


subsection \<open>Partitioning the criteria\<close>

definition local_criteria :: "run_state \<Rightarrow> task_criterion list" where
  "local_criteria s = filter (\<lambda>c. c_kind c \<noteq> Judge) (rs_criteria s)"

definition part_members :: "nat \<Rightarrow> nat \<Rightarrow> 'a list \<Rightarrow> 'a list" where
  "part_members n k xs = map ((!) xs) (filter (\<lambda>i. i mod n = k) [0..<length xs])"

definition partition_criteria :: "run_state \<Rightarrow> int option \<Rightarrow> (string \<times> string list) list option" where
  "partition_criteria s max_parts =
     (let local = local_criteria s;
          parts = (case max_parts of None \<Rightarrow> 2 | Some m \<Rightarrow> if m = 0 then 2 else m);
          part_count = min parts (int (length local))
      in if length local < 2 then None
         else if part_count < 2 then None
         else Some (filter (\<lambda>p. snd p \<noteq> [])
                (map (\<lambda>k. (''part-'' @ str_of_nat (k + 1),
                            map c_id (part_members (nat part_count) k local)))
                     [0..<nat part_count])))"

subsection \<open>Plan\<close>

definition APPLY_THRESHOLD :: real where
  "APPLY_THRESHOLD = 48 / 100"

definition ADAPT_THRESHOLD :: real where
  "ADAPT_THRESHOLD = 35 / 100"

definition PORTFOLIO_GAP :: real where
  "PORTFOLIO_GAP = 8 / 100"

definition candidate_label :: "candidate_ref \<Rightarrow> string" where
  "candidate_label c = cd_skill_id c @ ''@v'' @ str_of_int (cd_version c)"

text \<open>
  \<open>stitch_guide\<close> as \<open>plan\<close> calls it, without resource claims: candidates sorted by descending score,
  ties by skill id; with no claims nothing conflicts, so every candidate is kept.\<close>

fun string_le :: "string \<Rightarrow> string \<Rightarrow> bool" where
  "string_le [] ys = True"
| "string_le (x # xs) [] = False"
| "string_le (x # xs) (y # ys) =
     ((of_char x :: nat) < of_char y \<or> (x = y \<and> string_le xs ys))"

definition guide_before :: "candidate_ref \<Rightarrow> candidate_ref \<Rightarrow> bool" where
  "guide_before a b \<longleftrightarrow>
     cd_score b < cd_score a \<or> (cd_score a = cd_score b \<and> string_le (cd_skill_id a) (cd_skill_id b))"

fun insert_by :: "('a \<Rightarrow> 'a \<Rightarrow> bool) \<Rightarrow> 'a \<Rightarrow> 'a list \<Rightarrow> 'a list" where
  "insert_by le x [] = [x]"
| "insert_by le x (y # ys) = (if le x y then x # y # ys else y # insert_by le x ys)"

fun sort_by :: "('a \<Rightarrow> 'a \<Rightarrow> bool) \<Rightarrow> 'a list \<Rightarrow> 'a list" where
  "sort_by le [] = []"
| "sort_by le (x # xs) = insert_by le x (sort_by le xs)"

definition stitch_guide :: "candidate_ref list \<Rightarrow> execution_guide option" where
  "stitch_guide skills =
     (if length skills < 2 then None
      else
        let kept = sort_by guide_before skills
        in Some \<lparr>eg_primary = map candidate_label kept, eg_avoid = [], eg_fallback = [],
                 eg_source_skills = map (\<lambda>c. (cd_skill_id c, cd_version c)) kept\<rparr>)"

definition hint_of :: "run_state \<Rightarrow> strategy_hint option" where
  "hint_of s = (case t_goal (rs_task s) of None \<Rightarrow> None | Some g \<Rightarrow> g_strategy_hint g)"

definition request_of :: "run_state \<Rightarrow> string" where
  "request_of s = (case t_request (rs_task s) of None \<Rightarrow> [] | Some r \<Rightarrow> r)"

definition wants_abstain :: "run_state \<Rightarrow> bool" where
  "wants_abstain s \<longleftrightarrow> hint_of s = Some HintAbstain \<or> py_startswith (request_of s) ''ABSTAIN:''"

definition wants_decomposition :: "run_state \<Rightarrow> bool" where
  "wants_decomposition s \<longleftrightarrow>
     hint_of s = Some HintDecomposition \<or> py_startswith (request_of s) ''DECOMPOSE:'' \<or>
     (\<not> py_startswith (request_of s) ''PORTFOLIO:'' \<and> py_in ''DECOMPOSE:'' (request_of s))"

definition wants_portfolio :: "run_state \<Rightarrow> bool" where
  "wants_portfolio s \<longleftrightarrow>
     hint_of s = Some HintPortfolio \<or> py_startswith (request_of s) ''PORTFOLIO:'' \<or>
     py_startswith (request_of s) ''AMBIGUOUS:''"

definition ambiguous_top :: "candidate_ref list \<Rightarrow> bool" where
  "ambiguous_top skills \<longleftrightarrow>
     2 \<le> length skills \<and> \<bar>cd_score (skills ! 0) - cd_score (skills ! 1)\<bar> \<le> PORTFOLIO_GAP \<and>
     ADAPT_THRESHOLD \<le> cd_score (skills ! 0)"

definition plan :: "run_state \<Rightarrow> 'a base_ctx_scheme \<Rightarrow> node_outcome" where
  "plan s ctx =
     (if wants_abstain s then
        outcome (s\<lparr>rs_strategy := Some Abstain, rs_predicted_success := Some 0\<rparr>) AbstainRoute []
      else if wants_decomposition s then
        (case partition_criteria s None of
           None \<Rightarrow>
             outcome (s\<lparr>rs_strategy := Some Scratch, rs_predicted_success := Some (4/10)\<rparr>) SingleStrategy []
         | Some _ \<Rightarrow>
             outcome (s\<lparr>rs_strategy := Some Decomposition, rs_predicted_success := Some (55/100)\<rparr>)
               FanOutStrategy [])
      else if wants_portfolio s then
        outcome (s\<lparr>rs_strategy := Some Portfolio, rs_predicted_success := Some (5/10)\<rparr>) FanOutStrategy []
      else
        (case mb_skills (rs_bundle s) of
           [] \<Rightarrow>
             outcome (s\<lparr>rs_strategy := Some Scratch, rs_predicted_success := Some (4/10),
                        rs_chosen := None\<rparr>) SingleStrategy []
         | best # rest \<Rightarrow>
             if ambiguous_top (best # rest) then
               outcome (s\<lparr>rs_strategy := Some Portfolio, rs_predicted_success := Some (cd_score best),
                          rs_chosen := Some best\<rparr>) FanOutStrategy []
             else if APPLY_THRESHOLD \<le> cd_score best then
               outcome (s\<lparr>rs_strategy := Some Apply,
                          rs_predicted_success := Some (min (95/100) (cd_score best)),
                          rs_chosen := Some best, rs_execution_guide := None\<rparr>) SingleStrategy []
             else if ADAPT_THRESHOLD \<le> cd_score best then
               outcome (s\<lparr>rs_strategy := Some Adapt, rs_predicted_success := Some (cd_score best),
                          rs_chosen := Some best,
                          rs_execution_guide :=
                            (if cx_deterministic_guide ctx \<and> 1 < length (best # rest)
                             then stitch_guide (best # rest) else None)\<rparr>) SingleStrategy []
             else
               outcome (s\<lparr>rs_strategy := Some Scratch, rs_predicted_success := Some (4/10),
                          rs_chosen := None\<rparr>) SingleStrategy []))"

subsection \<open>Fan-out\<close>

definition fan_out_width :: "run_state \<Rightarrow> int" where
  "fan_out_width s =
     (let desired = (if rs_strategy s = Some Portfolio then int (length (mb_skills (rs_bundle s)))
                     else min (int (length (rs_criteria s))) (max_branches (rs_budget s)))
      in min (max_branches (rs_budget s)) (max 2 desired))"

definition child_budget :: "budget \<Rightarrow> int \<Rightarrow> budget" where
  "child_budget parent n =
     \<lparr>max_attempts = max 1 (max_attempts parent div n),
      max_tool_calls = max 1 (max_tool_calls parent div n),
      max_tokens = map_option (\<lambda>t. t div n) (max_tokens parent),
      max_wall_clock_s = max 1 (max_wall_clock_s parent div n),
      max_cost_usd = map_option (\<lambda>c. c / of_int n) (max_cost_usd parent),
      max_branches = 1,
      max_parallel_steps = max_parallel_steps parent,
      claim_timeout_s = claim_timeout_s parent,
      max_versions_written = max_versions_written parent\<rparr>"

definition requested_per_branch :: "budget \<Rightarrow> nat \<Rightarrow> reservation" where
  "requested_per_branch child script_len =
     \<lparr>rv_attempts = 1,
      rv_tool_calls = int script_len,
      rv_tokens = (case max_tokens child of None \<Rightarrow> 0 | Some t \<Rightarrow> t),
      rv_wall_clock_s = of_int (min 60 (max_wall_clock_s child)),
      rv_cost_usd = (1/100) * (1 + real script_len),
      rv_versions_written = 0\<rparr>"

definition scale_reservation :: "int \<Rightarrow> reservation \<Rightarrow> reservation" where
  "scale_reservation n r =
     \<lparr>rv_attempts = rv_attempts r * n, rv_tool_calls = rv_tool_calls r * n,
      rv_tokens = rv_tokens r * n, rv_wall_clock_s = rv_wall_clock_s r * of_int n,
      rv_cost_usd = rv_cost_usd r * of_int n, rv_versions_written = 0\<rparr>"

definition add_reservation :: "reservation \<Rightarrow> reservation \<Rightarrow> reservation" where
  "add_reservation a b =
     \<lparr>rv_attempts = rv_attempts a + rv_attempts b, rv_tool_calls = rv_tool_calls a + rv_tool_calls b,
      rv_tokens = rv_tokens a + rv_tokens b, rv_wall_clock_s = rv_wall_clock_s a + rv_wall_clock_s b,
      rv_cost_usd = rv_cost_usd a + rv_cost_usd b, rv_versions_written = 0\<rparr>"

fun dim_str :: "dimension \<Rightarrow> string" where
  "dim_str Attempts = ''attempts''"
| "dim_str ToolCalls = ''tool_calls''"
| "dim_str Tokens = ''tokens''"
| "dim_str WallClockS = ''wall_clock_s''"
| "dim_str CostUsd = ''cost_usd''"
| "dim_str VersionsWritten = ''versions_written''"

definition new_branch ::
    "'a base_ctx_scheme \<Rightarrow> string \<Rightarrow> branch_kind \<Rightarrow> branch_strategy \<Rightarrow> string option \<Rightarrow>
     candidate_ref option \<Rightarrow> budget \<Rightarrow> reservation \<Rightarrow> string list \<Rightarrow> branch_state" where
  "new_branch ctx tag kind strat subtask cand child req owned =
     \<lparr>b_branch_id = cx_run_id ctx @ tag, b_kind = kind, b_strategy = strat,
      b_subtask = subtask, b_candidate = cand,
      b_workspace_ref = cx_workdir ctx @ ''/'' @ cx_run_id ctx @ tag,
      b_status = Dispatched, b_budget = child, b_spent = no_spend, b_reserved = req,
      b_results = [], b_selected = False, b_cost_usd = None, b_owned_criteria = owned\<rparr>"

definition portfolio_branches ::
    "run_state \<Rightarrow> 'a base_ctx_scheme \<Rightarrow> int \<Rightarrow> budget \<Rightarrow> reservation \<Rightarrow> branch_state list" where
  "portfolio_branches s ctx n child req =
     (let candidates = take (nat (n - 1)) (mb_skills (rs_bundle s));
          strategies = map (\<lambda>c. (BranchApply, Some c)) candidates @ [(BranchScratch, None)]
      in map (\<lambda>(i, strat, cand).
                new_branch ctx (''-p'' @ str_of_nat i) PortfolioBranch strat None cand child req [])
             (zip [0..<length strategies] strategies))"

definition decomposition_branches ::
    "'a base_ctx_scheme \<Rightarrow> (string \<times> string list) list \<Rightarrow> budget \<Rightarrow> reservation \<Rightarrow> branch_state list" where
  "decomposition_branches ctx owned child req =
     map (\<lambda>(i, subtask, ids).
            new_branch ctx (''-d'' @ str_of_nat i) DecompositionBranch BranchScratch (Some subtask) None
              child req ids)
         (zip [0..<length owned] owned)"

definition dispatch ::
    "run_state \<Rightarrow> branch_state list \<Rightarrow> reservation \<Rightarrow> node_outcome" where
  "dispatch s branches requested =
     outcome (s\<lparr>rs_branches := branches, rs_reserved := add_reservation (rs_reserved s) requested\<rparr>)
       Always (map (\<lambda>b. WorkspaceClone (b_branch_id b)) branches)"

definition fan_out :: "run_state \<Rightarrow> 'a base_ctx_scheme \<Rightarrow> (node_error, node_outcome) result" where
  "fan_out s ctx =
     (if \<not> strategy_in [Portfolio, Decomposition] s then Inr (outcome s Always [])
      else
        let parent = rs_budget s; n = fan_out_width s; child = child_budget parent n;
            req = requested_per_branch child (length (script_or_true ctx));
            requested = scale_reservation n req
        in if \<not> budget_ok child then Inl BudgetValidationError
           else case budget_excess parent (rs_spent s) (rs_reserved s) requested of
             Some d \<Rightarrow>
               Inr (outcome
                 (s\<lparr>rs_failure_signal := Some
                      \<lparr>sg_source = Orchestrator,
                       sg_detail = ''budget exhausted before fan-out reservation: '' @ dim_str d,
                       sg_class_hint = Some FBudget\<rparr>\<rparr>)
                 PreDispatchBudgetFailure [])
           | None \<Rightarrow>
               if rs_strategy s = Some Portfolio then
                 Inr (dispatch s (portfolio_branches s ctx n child req) requested)
               else
                 (case partition_criteria s (Some n) of
                    None \<Rightarrow> Inr (outcome (s\<lparr>rs_strategy := Some Scratch, rs_branches := []\<rparr>) Always [])
                  | Some owned \<Rightarrow> Inr (dispatch s (decomposition_branches ctx owned child req) requested)))"

subsection \<open>Plan always chooses a legal route\<close>

definition route_for :: "strategy \<Rightarrow> route_name" where
  "route_for st = (if st = Abstain then AbstainRoute
                   else if st \<in> {Portfolio, Decomposition} then FanOutStrategy else SingleStrategy)"

lemma plan_route:
  "oc_route (plan s ctx) = map_option route_for (rs_strategy (oc_state (plan s ctx))) \<and>
   rs_strategy (oc_state (plan s ctx)) \<noteq> None"
  by (simp add: plan_def route_for_def split: option.splits list.splits)

lemma plan_frame [simp]:
  "rs_budget (oc_state (plan s ctx)) = rs_budget s"
  "rs_spent (oc_state (plan s ctx)) = rs_spent s"
  "rs_reserved (oc_state (plan s ctx)) = rs_reserved s"
  "rs_failure_signal (oc_state (plan s ctx)) = rs_failure_signal s"
  "rs_criteria (oc_state (plan s ctx)) = rs_criteria s"
  "rs_branches (oc_state (plan s ctx)) = rs_branches s"
  "rs_workspace_snapshots (oc_state (plan s ctx)) = rs_workspace_snapshots s"
  "rs_attempt_no (oc_state (plan s ctx)) = rs_attempt_no s"
  by (simp_all add: plan_def split: option.splits list.splits)

text \<open>
  Whatever the request, the hint and the retrieved candidates, plan sets a strategy and chooses
  the one route out of plan that is legal for it; it never touches the locked criteria or the
  budget.\<close>

theorem plan_route_legal:
  "\<exists>route. oc_route (plan s ctx) = Some route \<and> legal_route Plan route (oc_state (plan s ctx)) \<and>
     rs_criteria (oc_state (plan s ctx)) = rs_criteria s \<and>
     rs_budget (oc_state (plan s ctx)) = rs_budget s"
proof -
  obtain st where st: "rs_strategy (oc_state (plan s ctx)) = Some st"
      "oc_route (plan s ctx) = Some (route_for st)"
    using plan_route[of s ctx] by auto
  have "legal_route Plan (route_for st) (oc_state (plan s ctx))"
    using st(1) by (cases st) (simp_all add: node_simps strategy_in_def route_for_def)
  with st(2) show ?thesis by simp
qed

subsection \<open>The partition covers each checkable criterion exactly once\<close>

lemma mset_residue_classes:
  assumes "0 < n"
  shows "mset (concat (map (\<lambda>k. filter (\<lambda>i. i mod n = k) xs) [0..<n])) = mset (xs :: nat list)"
proof (induction xs)
  case Nil
  then show ?case by (simp add: concat_eq_Nil_conv)
next
  case (Cons x xs)
  have split: "[0..<n] = [0..<x mod n] @ (x mod n) # [Suc (x mod n)..<n]"
    using assms by (metis append_Cons append_Nil le_add_same_cancel1 less_imp_le_nat
        mod_less_divisor upt_add_eq_append upt_conv_Cons zero_le add_0 le_add_diff_inverse)
  have l: "map (\<lambda>k. filter (\<lambda>i. i mod n = k) (x # xs)) [0..<x mod n] =
             map (\<lambda>k. filter (\<lambda>i. i mod n = k) xs) [0..<x mod n]"
    and r: "map (\<lambda>k. filter (\<lambda>i. i mod n = k) (x # xs)) [Suc (x mod n)..<n] =
             map (\<lambda>k. filter (\<lambda>i. i mod n = k) xs) [Suc (x mod n)..<n]"
    by auto
  show ?case
    using Cons.IH unfolding split map_append list.map l r by simp
qed

lemma concat_filter_ne: "concat (filter (\<lambda>x. x \<noteq> []) xss) = concat xss"
  by (induction xss) auto

lemma map_snd_filter_snd: "map snd (filter (\<lambda>p. snd p \<noteq> []) ps) = filter (\<lambda>x. x \<noteq> []) (map snd ps)"
  by (induction ps) auto

lemma partition_criteria_SomeD:
  assumes "partition_criteria s mp = Some parts"
  shows "2 \<le> length (local_criteria s)" (is ?A)
    and "mset (concat (map snd parts)) = mset (map c_id (local_criteria s))" (is ?B)
    and "\<forall>p \<in> set parts. snd p \<noteq> []" (is ?C)
    and "int (length parts) \<le> (case mp of None \<Rightarrow> 2 | Some m \<Rightarrow> if m = 0 then 2 else m)" (is ?D)
proof -
  define l where "l = local_criteria s"
  define n where "n = nat (min (case mp of None \<Rightarrow> 2 | Some m \<Rightarrow> if m = 0 then 2 else m) (int (length l)))"
  have n: "2 \<le> n" and len: "2 \<le> length l"
    and parts: "parts = filter (\<lambda>p. snd p \<noteq> [])
        (map (\<lambda>k. (''part-'' @ str_of_nat (k + 1), map c_id (part_members n k l))) [0..<n])"
    using assms by (auto simp: partition_criteria_def Let_def l_def n_def split: if_splits)
  show ?A using len by (simp add: l_def)
  have "concat (map snd parts) = concat (map (\<lambda>k. map c_id (part_members n k l)) [0..<n])"
    by (simp add: parts map_snd_filter_snd concat_filter_ne comp_def)
  also have "\<dots> = map (\<lambda>i. c_id (l ! i)) (concat (map (\<lambda>k. filter (\<lambda>i. i mod n = k) [0..<length l]) [0..<n]))"
    by (simp add: part_members_def map_concat comp_def)
  finally have "mset (concat (map snd parts)) =
      image_mset (\<lambda>i. c_id (l ! i)) (mset [0..<length l])"
    using n by (simp only: mset_map mset_residue_classes)
  also have "\<dots> = mset (map c_id l)"
    by (metis (no_types, lifting) map_nth mset_map map_map comp_def map_eq_conv)
  finally show ?B by (simp add: l_def)
  show ?C by (auto simp: parts)
  have "int (length parts) \<le> int n"
    by (simp add: parts le_trans[OF length_filter_le])
  then show ?D using n by (auto simp: n_def split: option.splits if_splits)
qed

text \<open>
  Decomposition refuses or covers: whenever the criteria are partitioned, every non-judge criterion
  of the run is owned by exactly one part (as multisets of ids), no part is empty, there are at least
  two criteria to split and no more parts than requested.\<close>

theorem partition_criteria_exact_cover:
  assumes "partition_criteria s (Some m) = Some parts" and "m \<noteq> 0"
  shows "mset (concat (map snd parts)) = mset (map c_id (filter (\<lambda>c. c_kind c \<noteq> Judge) (rs_criteria s))) \<and>
         (\<forall>p \<in> set parts. snd p \<noteq> []) \<and> int (length parts) \<le> m"
  using partition_criteria_SomeD[OF assms(1)] assms(2) by (simp add: local_criteria_def)

subsection \<open>Fan-out never oversubscribes the parent budget\<close>

lemma fan_out_width_bounds:
  assumes "budget_ok (rs_budget s)"
  shows "1 \<le> fan_out_width s" and "fan_out_width s \<le> max_branches (rs_budget s)"
  using assms by (auto simp: fan_out_width_def Let_def contract_simps)




lemma new_branch_sel [simp]:
  "b_budget (new_branch ctx t k st sub c child req ow) = child"
  "b_status (new_branch ctx t k st sub c child req ow) = Dispatched"
  "b_kind (new_branch ctx t k st sub c child req ow) = k"
  "b_branch_id (new_branch ctx t k st sub c child req ow) = cx_run_id ctx @ t"
  "b_owned_criteria (new_branch ctx t k st sub c child req ow) = ow"
  "b_spent (new_branch ctx t k st sub c child req ow) = no_spend"
  by (simp_all add: new_branch_def)






subsection \<open>Routes, frame and errors of fan-out\<close>

lemma fan_out_frame:
  assumes "fan_out s ctx = Inr oc"
  shows "rs_budget (oc_state oc) = rs_budget s" "rs_spent (oc_state oc) = rs_spent s"
    "rs_criteria (oc_state oc) = rs_criteria s" "rs_attempt_no (oc_state oc) = rs_attempt_no s"
    "rs_workspace_snapshots (oc_state oc) = rs_workspace_snapshots s"
  using assms
  by (auto simp: fan_out_def Let_def dispatch_def split: if_splits option.splits)

lemma fan_out_legal:
  assumes "fan_out s ctx = Inr oc" "rs_failure_signal s = None"
  shows "\<exists>route. oc_route oc = Some route \<and> legal_route FanOut route (oc_state oc)"
  using assms
  by (auto simp: fan_out_def Let_def dispatch_def node_simps split: if_splits option.splits)

lemma child_budget_ok_iff:
  assumes "budget_ok b" "1 \<le> n"
  shows "budget_ok (child_budget b n) \<longleftrightarrow> (case max_tokens b of None \<Rightarrow> True | Some t \<Rightarrow> n \<le> t)"
proof -
  have "1 \<le> t div n \<longleftrightarrow> n \<le> t" for t
    using assms(2) pos_imp_zdiv_pos_iff[of n t] by linarith
  then show ?thesis
    using assms by (auto simp: contract_simps child_budget_def split: option.splits)
qed

text \<open>
  The only way fan-out raises: dividing a finite token budget among more branches than it has
  tokens yields a branch limit of zero, which the budget contract refuses, so the run fails with a
  validation error instead of a budget failure signal.\<close>

theorem fan_out_raises_iff:
  assumes "budget_ok (rs_budget s)"
  shows "(\<exists>e. fan_out s ctx = Inl e) \<longleftrightarrow>
           strategy_in [Portfolio, Decomposition] s \<and>
           (\<exists>t. max_tokens (rs_budget s) = Some t \<and> t < fan_out_width s)"
proof -
  have "budget_ok (child_budget (rs_budget s) (fan_out_width s)) \<longleftrightarrow>
          (case max_tokens (rs_budget s) of None \<Rightarrow> True | Some t \<Rightarrow> fan_out_width s \<le> t)"
    using assms fan_out_width_bounds(1)[OF assms] by (rule child_budget_ok_iff)
  then show ?thesis
    by (auto simp: fan_out_def Let_def not_le split: option.splits if_splits)
qed

definition example_ctx :: base_ctx where
  "example_ctx =
     \<lparr>cx_run_id = ''r'', cx_workdir = ''/w'', cx_script = Some [''make''], cx_digest = toy_digest,
      cx_env = (\<lambda>w. example_env), cx_clock = (\<lambda>k. 0), cx_deterministic_guide = False\<rparr>"

theorem fan_out_raises_iff_witness:
  "\<exists>e. fan_out (example_state\<lparr>rs_strategy := Some Portfolio,
                  rs_budget := default_budget\<lparr>max_tokens := Some 1\<rparr>\<rparr>) example_ctx = Inl e"
proof -
  let ?s = "example_state\<lparr>rs_strategy := Some Portfolio,
              rs_budget := default_budget\<lparr>max_tokens := Some 1\<rparr>\<rparr>"
  have "budget_ok (rs_budget ?s)" by (simp add: default_budget_def contract_simps)
  moreover have "fan_out_width ?s = 2"
    by (simp add: fan_out_width_def default_budget_def example_state_def initial_state_def
        empty_bundle_def)
  ultimately show ?thesis
    using fan_out_raises_iff[of ?s example_ctx]
    by (simp add: strategy_in_def default_budget_def)
qed

text \<open>A run with two criteria under the default budget, planned as a decomposition.\<close>

definition decomposition_state :: run_state where
  "decomposition_state = example_state\<lparr>rs_strategy := Some Decomposition\<rparr>"

lemma decomposition_state_local:
  "local_criteria decomposition_state = [example_criterion, example_criterion\<lparr>c_id := ''lint''\<rparr>]"
  by (simp add: local_criteria_def decomposition_state_def example_state_def initial_state_def
      example_criterion_def)

lemma upt_two: "[0..<2] = [0, 1 :: nat]"
  by (simp add: upt_rec)

lemma decomposition_state_partition:
  "partition_criteria decomposition_state (Some 2) =
     Some [(''part-1'', [''tests'']), (''part-2'', [''lint''])]"
proof -
  have "str_of_nat 1 = ''1''" "str_of_nat 2 = ''2''" by code_simp+
  then show ?thesis
    by (simp add: partition_criteria_def decomposition_state_local upt_two part_members_def
        example_criterion_def numeral_2_eq_2[symmetric] del: str_of_nat.simps)
qed

theorem partition_criteria_exact_cover_witness:
  "mset (concat (map snd [(''part-1'', [''tests'']), (''part-2'', [''lint''])])) =
     mset (map c_id (filter (\<lambda>c. c_kind c \<noteq> Judge) (rs_criteria decomposition_state)))"
  using partition_criteria_exact_cover[OF decomposition_state_partition] by simp




end
