(* ===== verification/Node_Validate.thy ===== *)
theory Node_Validate
  imports Node_Plan
begin

section \<open>Validate\<close>

text \<open>
  \<open>nodes/validate.py\<close>: \<open>score_criteria\<close> scores the locked criteria, downgrading a required criterion
  without a binding sensitivity proof to advisory; \<open>score_certification_observations\<close> scores the
  applied skill's own criteria without consequence; \<open>validate\<close> chooses the route. Each score goes
  through \<open>op_once\<close>, which returns the recorded or the fresh result; here it is the score.
\<close>

record validate_ctx = base_ctx +
  cx_store :: "(skill_id \<Rightarrow> int \<Rightarrow> skill_version option) option"

definition pass_str :: "bool \<Rightarrow> string" where
  "pass_str b = (if b then ''pass'' else ''fail'')"

definition effectively_required :: "'a base_ctx_scheme \<Rightarrow> task_criterion \<Rightarrow> bool" where
  "effectively_required ctx c \<longleftrightarrow> is_required c \<and> is_preregistered_and_proven (cx_digest ctx) c"

definition recorded_result ::
    "'a base_ctx_scheme \<Rightarrow> task_criterion \<Rightarrow> criterion_result \<Rightarrow> criterion_result" where
  "recorded_result ctx c r =
     (if is_required c \<and> \<not> effectively_required ctx c
      then r\<lparr>r_passed := True,
             r_output_excerpt :=
               take 2000 (''[advisory] actual='' @ pass_str (r_passed r) @ ''; '' @ r_output_excerpt r)\<rparr>
      else r)"

text \<open>The flag \<open>any_effectively_required_failed\<close> after one criterion.\<close>

definition gates :: "'a base_ctx_scheme \<Rightarrow> task_criterion \<Rightarrow> criterion_result \<Rightarrow> bool" where
  "gates ctx c r \<longleftrightarrow>
     \<not> (is_required c \<and> \<not> effectively_required ctx c) \<and> is_required c \<and> \<not> r_passed r"

fun score_each ::
    "'a base_ctx_scheme \<Rightarrow> score_env \<Rightarrow> task_criterion list \<Rightarrow>
     (node_error, criterion_result list \<times> bool) result" where
  "score_each ctx env [] = Inr ([], False)"
| "score_each ctx env (c # cs) =
     (case score env True c of
        Inl e \<Rightarrow> Inl e
      | Inr r \<Rightarrow>
          (case score_each ctx env cs of
             Inl e \<Rightarrow> Inl e
           | Inr (rs, any_failed) \<Rightarrow> Inr (recorded_result ctx c r # rs, gates ctx c r \<or> any_failed)))"

definition validator_signal :: failure_signal where
  "validator_signal =
     \<lparr>sg_source = Validator, sg_detail = ''a required, proven criterion failed'', sg_class_hint = None\<rparr>"

definition score_criteria ::
    "run_state \<Rightarrow> 'a base_ctx_scheme \<Rightarrow>
     (node_error, criterion_result list \<times> failure_signal option) result" where
  "score_criteria s ctx =
     (if \<not> assert_distinct_lenses (rs_criteria s) then Inl DuplicateJudgeLens
      else case score_each ctx (cx_env ctx (cx_workdir ctx)) (rs_criteria s) of
             Inl e \<Rightarrow> Inl e
           | Inr (rs, any_failed) \<Rightarrow> Inr (rs, if any_failed then Some validator_signal else None))"

definition cert_observation :: "score_env \<Rightarrow> certification_criterion \<Rightarrow> criterion_result" where
  "cert_observation env c =
     (case score env False c of
        Inr r \<Rightarrow> r
      | Inl e \<Rightarrow>
          (plain_result (c_id c) (c_kind c) False (c_weight c))
            \<lparr>r_output_excerpt := ''certification cert_observation error: '', r_errored := True\<rparr>)"

definition score_certification_observations ::
    "run_state \<Rightarrow> 'a validate_ctx_scheme \<Rightarrow> criterion_result list" where
  "score_certification_observations s ctx =
     (case rs_chosen s of
        None \<Rightarrow> []
      | Some chosen \<Rightarrow>
          (case cx_store ctx of
             None \<Rightarrow> []
           | Some get_version \<Rightarrow>
               (case get_version (cd_skill_id chosen) (cd_version chosen) of
                  None \<Rightarrow> []
                | Some v \<Rightarrow>
                    map (cert_observation (cx_env ctx (cx_workdir ctx)))
                      (filter (\<lambda>c. c_kind c \<noteq> Judge) (sv_certification_criteria v)))))"

definition validate :: "run_state \<Rightarrow> 'a validate_ctx_scheme \<Rightarrow> (node_error, node_outcome) result" where
  "validate s ctx =
     (case score_criteria s ctx of
        Inl e \<Rightarrow> Inl e
      | Inr (rs, signal) \<Rightarrow>
          Inr (outcome
            (s\<lparr>rs_results := rs, rs_results_history := rs_results_history s @ [rs],
               rs_failure_signal := signal,
               rs_certification_observations := score_certification_observations s ctx\<rparr>)
            (if rs_branches s \<noteq> [] then HasBranches
             else if signal \<noteq> None then NoBranchesAndFailing else NoBranchesAndPassing) []))"

text \<open>\<open>score_owned_criteria\<close>, for decomposition branches: no advisory downgrade.\<close>

definition score_owned_criteria ::
    "task_criterion list \<Rightarrow> score_env \<Rightarrow> (node_error, criterion_result list) result" where
  "score_owned_criteria cs env = score_all env True cs"

subsection \<open>What the gate decides\<close>

lemma recorded_result_sel [simp]:
  "r_criterion_id (recorded_result ctx c r) = r_criterion_id r"
  by (simp add: recorded_result_def)

lemma recorded_passes:
  "\<not> gates ctx c r \<Longrightarrow> is_required c \<Longrightarrow> r_passed (recorded_result ctx c r)"
  by (auto simp: gates_def recorded_result_def)

lemma score_each_ConsE:
  assumes "score_each ctx env (c # cs) = Inr (rs, f)"
  obtains r rs' f' where "score env True c = Inr r" "score_each ctx env cs = Inr (rs', f')"
    "rs = recorded_result ctx c r # rs'" "f = (gates ctx c r \<or> f')"
  using assms by (auto split: sum.splits)

lemma gates_iff: "gates ctx c r \<longleftrightarrow> effectively_required ctx c \<and> \<not> r_passed r"
  by (auto simp: gates_def effectively_required_def)

lemma score_each_ids:
  "score_each ctx env cs = Inr (rs, f) \<Longrightarrow> map r_criterion_id rs = map c_id cs"
proof (induction cs arbitrary: rs f)
  case (Cons c cs)
  from Cons.prems show ?case
    by (rule score_each_ConsE) (simp add: Cons.IH score_Inr_sel)
qed simp

lemma score_each_flag:
  "score_each ctx env cs = Inr (rs, f) \<Longrightarrow>
     f \<longleftrightarrow> (\<exists>c \<in> set cs. \<exists>r. score env True c = Inr r \<and> effectively_required ctx c \<and> \<not> r_passed r)"
proof (induction cs arbitrary: rs f)
  case (Cons c cs)
  from Cons.prems show ?case
    by (rule score_each_ConsE) (drule Cons.IH, simp add: gates_iff)
qed simp

lemma score_each_passes:
  "score_each ctx env cs = Inr (rs, False) \<Longrightarrow>
     list_all2 (\<lambda>c r. is_required c \<longrightarrow> r_passed r) cs rs"
proof (induction cs arbitrary: rs)
  case (Cons c cs)
  from Cons.prems show ?case
    by (rule score_each_ConsE) (simp add: Cons.IH recorded_passes)
qed simp

lemma score_each_Inr:
  assumes "score_each ctx env cs = Inr (rs, f)"
  shows "length rs = length cs"
    and "map r_criterion_id rs = map c_id cs"
    and "f \<longleftrightarrow> (\<exists>c \<in> set cs. \<exists>r. score env True c = Inr r \<and> effectively_required ctx c \<and> \<not> r_passed r)"
    and "\<not> f \<Longrightarrow> \<forall>i < length cs. is_required (cs ! i) \<longrightarrow> r_passed (rs ! i)"
proof -
  show "map r_criterion_id rs = map c_id cs" using assms by (rule score_each_ids)
  then show "length rs = length cs" by (metis length_map)
  show "f \<longleftrightarrow> (\<exists>c \<in> set cs. \<exists>r. score env True c = Inr r \<and> effectively_required ctx c \<and> \<not> r_passed r)"
    using assms by (rule score_each_flag)
  show "\<forall>i < length cs. is_required (cs ! i) \<longrightarrow> r_passed (rs ! i)" if "\<not> f"
    using score_each_passes[of ctx env cs rs] assms that by (auto dest: list_all2_nthD)
qed

lemma score_criteria_Inr:
  assumes "score_criteria s ctx = Inr (rs, signal)"
  shows "map r_criterion_id rs = map c_id (rs_criteria s)"
    and "signal = None \<longleftrightarrow>
           (\<forall>c \<in> set (rs_criteria s). \<forall>r. score (cx_env ctx (cx_workdir ctx)) True c = Inr r \<longrightarrow>
              effectively_required ctx c \<longrightarrow> r_passed r)"
    and "signal = None \<Longrightarrow> required_criteria_pass (s'\<lparr>rs_criteria := rs_criteria s, rs_results := rs\<rparr>)"
    and "signal \<noteq> None \<Longrightarrow> signal = Some validator_signal"
proof -
  obtain f where f: "score_each ctx (cx_env ctx (cx_workdir ctx)) (rs_criteria s) = Inr (rs, f)"
    and sg: "signal = (if f then Some validator_signal else None)"
    using assms by (auto simp: score_criteria_def split: if_splits sum.splits)
  note e = score_each_Inr[OF f]
  show "map r_criterion_id rs = map c_id (rs_criteria s)" by (rule e(2))
  show "signal = None \<longleftrightarrow>
           (\<forall>c \<in> set (rs_criteria s). \<forall>r. score (cx_env ctx (cx_workdir ctx)) True c = Inr r \<longrightarrow>
              effectively_required ctx c \<longrightarrow> r_passed r)"
    using e(3) by (auto simp: sg)
  show "signal \<noteq> None \<Longrightarrow> signal = Some validator_signal" by (simp add: sg split: if_splits)
  assume "signal = None"
  then have nf: "\<not> f" by (auto simp: sg split: if_splits)
  have "c_id c \<in> r_criterion_id ` (set rs \<inter> {r. r_passed r})"
    if c: "c \<in> set (rs_criteria s)" "is_required c" for c
  proof -
    obtain i where i: "i < length (rs_criteria s)" "rs_criteria s ! i = c"
      using c(1) by (auto simp: in_set_conv_nth)
    have "r_passed (rs ! i)" using e(4)[OF nf] i c(2) by auto
    moreover have "r_criterion_id (rs ! i) = c_id c"
      using e(1,2) i by (metis nth_map)
    moreover have "rs ! i \<in> set rs" using e(1) i by simp
    ultimately show ?thesis by (metis IntI image_eqI mem_Collect_eq)
  qed
  then show "required_criteria_pass (s'\<lparr>rs_criteria := rs_criteria s, rs_results := rs\<rparr>)"
    by (auto simp: required_criteria_pass_def Let_def)
qed

lemma validate_InrE:
  assumes "validate s ctx = Inr oc"
  obtains rs signal where "score_criteria s ctx = Inr (rs, signal)"
    "oc_state oc = s\<lparr>rs_results := rs, rs_results_history := rs_results_history s @ [rs],
       rs_failure_signal := signal,
       rs_certification_observations := score_certification_observations s ctx\<rparr>"
    "oc_route oc = Some (if rs_branches s \<noteq> [] then HasBranches
       else if signal \<noteq> None then NoBranchesAndFailing else NoBranchesAndPassing)"
    "oc_effects oc = []"
  using assms by (auto simp: validate_def split: sum.splits)

lemma validate_legal:
  assumes "validate s ctx = Inr oc"
  shows "\<exists>route. oc_route oc = Some route \<and> legal_route Validate route (oc_state oc)"
  using assms
proof (rule validate_InrE)
  fix rs signal
  assume sc: "score_criteria s ctx = Inr (rs, signal)"
    and st: "oc_state oc = s\<lparr>rs_results := rs, rs_results_history := rs_results_history s @ [rs],
       rs_failure_signal := signal,
       rs_certification_observations := score_certification_observations s ctx\<rparr>"
    and rt: "oc_route oc = Some (if rs_branches s \<noteq> [] then HasBranches
       else if signal \<noteq> None then NoBranchesAndFailing else NoBranchesAndPassing)"
  have "required_criteria_pass (oc_state oc)" if "signal = None"
    using score_criteria_Inr(3)[OF sc that, of "oc_state oc"] st
    by (simp add: required_criteria_pass_def)
  then show ?thesis
    by (auto simp: rt node_simps has_branches_def st)
qed

lemma validate_frame:
  assumes "validate s ctx = Inr oc"
  shows "rs_budget (oc_state oc) = rs_budget s" "rs_spent (oc_state oc) = rs_spent s"
    "rs_criteria (oc_state oc) = rs_criteria s" "rs_branches (oc_state oc) = rs_branches s"
    "rs_workspace_snapshots (oc_state oc) = rs_workspace_snapshots s"
    "rs_merge_audits (oc_state oc) = rs_merge_audits s"
  using assms by (rule validate_InrE, simp)+

text \<open>
  C17. The caller's verdict is exactly the proven required criteria: without branches, validate routes
  to distill if and only if every required criterion whose sensitivity proof binds scored as passed;
  advisory criteria, unproven required criteria and the applied skill's certification observations
  never change the route. The chosen route is always legal.\<close>

theorem validate_gates_exactly_on_proven_required:
  assumes "validate s ctx = Inr oc" and "rs_branches s = []"
  shows "(oc_route oc = Some NoBranchesAndPassing \<longleftrightarrow>
            (\<forall>c \<in> set (rs_criteria s). \<forall>r.
               score (cx_env ctx (cx_workdir ctx)) True c = Inr r \<longrightarrow>
               is_required c \<longrightarrow> is_preregistered_and_proven (cx_digest ctx) c \<longrightarrow> r_passed r)) \<and>
         (\<exists>route. oc_route oc = Some route \<and> legal_route Validate route (oc_state oc))"
  using assms(1)
proof (rule validate_InrE)
  fix rs signal
  assume sc: "score_criteria s ctx = Inr (rs, signal)"
    and rt: "oc_route oc = Some (if rs_branches s \<noteq> [] then HasBranches
       else if signal \<noteq> None then NoBranchesAndFailing else NoBranchesAndPassing)"
  have "oc_route oc = Some NoBranchesAndPassing \<longleftrightarrow> signal = None"
    using rt assms(2) by simp
  then show ?thesis
    using score_criteria_Inr(2)[OF sc] validate_legal[OF assms(1)]
    by (auto simp: effectively_required_def)
qed

definition example_vctx :: validate_ctx where
  "example_vctx = base_ctx.extend example_ctx \<lparr>cx_store = None\<rparr>"

theorem validate_gates_exactly_on_proven_required_witness:
  "\<exists>oc. validate example_state example_vctx = Inr oc \<and> oc_route oc = Some NoBranchesAndPassing"
proof -
  have "\<exists>oc. validate example_state example_vctx = Inr oc"
    by (simp add: validate_def score_criteria_def assert_distinct_lenses_def example_state_def
        initial_state_def example_criterion_def score_def split: sum.splits)
  then obtain oc where oc: "validate example_state example_vctx = Inr oc" ..
  have "rs_branches example_state = []"
    by (simp add: example_state_def initial_state_def)
  from validate_gates_exactly_on_proven_required[OF oc this] oc show ?thesis
    by (auto simp: example_state_def initial_state_def is_preregistered_and_proven_def
        sensitivity_proof_binds_def example_criterion_def)
qed

end
