(* ===== verification/Node_Join.thy ===== *)
theory Node_Join
  imports Node_Validate
begin

section \<open>Join\<close>

text \<open>
  \<open>nodes/join.py\<close>: the completeness audit, the layered survivor cut, the choice of the portfolio winner,
  the batches of the decomposition fan-in, and the fresh score of the merged artifact. Copying files
  between workspaces is an effect; whether the branch workspaces conflict is what the file system
  answers (\<open>cx_merge_conflict\<close>, the text of the raised \<open>ValueError\<close>); \<open>cx_show_ids\<close> is the f-string of a list.
\<close>

record join_ctx = validate_ctx +
  cx_merge_conflict :: "string option"
  cx_show_ids :: "string list \<Rightarrow> string"

definition LAYER_THRESHOLD :: nat where
  "LAYER_THRESHOLD = 8"

subsection \<open>Portfolio scores and the winner\<close>

type_synonym portfolio_score = "int \<times> real \<times> real"

definition portfolio_score :: "branch_state \<Rightarrow> portfolio_score" where
  "portfolio_score b =
     (int (length (filter (\<lambda>r. 1 \<le> r_weight r \<and> r_passed r) (b_results b))),
      sum_list (map r_weight (filter (\<lambda>r. r_passed r \<and> r_weight r < 1) (b_results b))),
      - (case b_cost_usd b of
           None \<Rightarrow> sp_cost_usd (b_spent b)
         | Some c \<Rightarrow> if c = 0 then sp_cost_usd (b_spent b) else c))"

fun score_less :: "portfolio_score \<Rightarrow> portfolio_score \<Rightarrow> bool" where
  "score_less (a, b, c) (a', b', c') \<longleftrightarrow> a < a' \<or> (a = a' \<and> (b < b' \<or> (b = b' \<and> c < c')))"

text \<open>\<open>max(xs, key=f)\<close>: the first element whose key no other element exceeds.\<close>

fun max_by :: "('a \<Rightarrow> portfolio_score) \<Rightarrow> 'a \<Rightarrow> 'a list \<Rightarrow> 'a" where
  "max_by f best [] = best"
| "max_by f best (x # xs) = max_by f (if score_less (f best) (f x) then x else best) xs"

definition py_max :: "('a \<Rightarrow> portfolio_score) \<Rightarrow> 'a list \<Rightarrow> 'a option" where
  "py_max f xs = (case xs of [] \<Rightarrow> None | y # ys \<Rightarrow> Some (max_by f y ys))"

text \<open>\<open>sorted(xs, key=f, reverse=True)\<close> is stable: an element goes before the first strictly smaller one.\<close>

fun insert_desc :: "('a \<Rightarrow> portfolio_score) \<Rightarrow> 'a \<Rightarrow> 'a list \<Rightarrow> 'a list" where
  "insert_desc f x [] = [x]"
| "insert_desc f x (y # ys) = (if score_less (f x) (f y) then y # insert_desc f x ys else x # y # ys)"

fun sort_desc :: "('a \<Rightarrow> portfolio_score) \<Rightarrow> 'a list \<Rightarrow> 'a list" where
  "sort_desc f [] = []"
| "sort_desc f (x # xs) = insert_desc f x (sort_desc f xs)"

definition eligible :: "string list option \<Rightarrow> branch_state list \<Rightarrow> branch_state list" where
  "eligible ids bs =
     (case ids of None \<Rightarrow> bs | Some keep \<Rightarrow> filter (\<lambda>b. b_branch_id b \<in> set keep) bs)"

definition select_portfolio_winner :: "branch_state list \<Rightarrow> string list option \<Rightarrow> branch_state option" where
  "select_portfolio_winner bs eligible_ids =
     (let succeeded = eligible eligible_ids (filter (\<lambda>b. b_status b = Succeeded) bs)
      in if succeeded \<noteq> [] then py_max portfolio_score succeeded
         else py_max portfolio_score
                (eligible eligible_ids (filter (\<lambda>b. b_status b \<in> {Failed, TimedOut}) bs)))"

subsection \<open>Fan-in batches\<close>

fun chunks :: "nat \<Rightarrow> 'a list \<Rightarrow> 'a list list" where
  "chunks w [] = []"
| "chunks w (x # xs) = (x # take (w - 1) xs) # chunks w (drop (w - 1) xs)"

fun join_plus :: "string list \<Rightarrow> string" where
  "join_plus [] = []"
| "join_plus [x] = x"
| "join_plus (x # xs) = x @ ''+'' @ join_plus xs"

lemma length_chunks_le: "length (chunks w xs) \<le> length xs"
  by (induction w xs rule: chunks.induct) (auto intro: le_trans)

lemma length_chunks_less: "2 \<le> w \<Longrightarrow> 2 \<le> length xs \<Longrightarrow> length (chunks w xs) < length xs"
proof (cases xs)
  case (Cons x ys)
  assume w: "2 \<le> w" and l: "2 \<le> length xs"
  have "length (chunks w (drop (w - 1) ys)) \<le> length ys - (w - 1)"
    using length_chunks_le[of w "drop (w - 1) ys"] by simp
  then show ?thesis using w l Cons by simp
qed simp

text \<open>The \<open>while len(sources) > 1\<close> loop: the width is at least two whenever it runs.\<close>

function fan_in :: "nat \<Rightarrow> string list \<Rightarrow> string list list" where
  "fan_in width sources =
     (if length sources \<le> 1 \<or> width < 2 then []
      else let groups = chunks width sources in groups @ fan_in width (map join_plus groups))"
  by auto
termination
  by (relation "measure (\<lambda>(w, xs). length xs)") (auto simp: length_chunks_less)

declare fan_in.simps [simp del]

definition fan_in_width :: "bool \<Rightarrow> string list \<Rightarrow> nat" where
  "fan_in_width layered sources = (if layered then 4 else max 1 (length sources))"

definition decomposition_ids :: "run_state \<Rightarrow> string list" where
  "decomposition_ids s =
     map b_branch_id (filter (\<lambda>b. b_kind b = DecompositionBranch) (rs_branches s))"

subsection \<open>The join node\<close>

definition finished :: "branch_state \<Rightarrow> bool" where
  "finished b \<longleftrightarrow> b_status b \<in> {Succeeded, Failed}"

definition audit_of :: "run_state \<Rightarrow> 'a base_ctx_scheme \<Rightarrow> string list \<Rightarrow> merge_action \<Rightarrow> merge_audit" where
  "audit_of s ctx missing action =
     \<lparr>ma_merge_id = cx_run_id ctx @ ''-join-'' @ str_of_nat (length (rs_merge_audits s)),
      ma_expected = int (length (rs_branches s)),
      ma_received = int (length (filter finished (rs_branches s))),
      ma_missing = missing, ma_action = action,
      ma_layered = (LAYER_THRESHOLD \<le> length (rs_branches s)), ma_batches = []\<rparr>"

definition join_signal :: "signal_source \<Rightarrow> string \<Rightarrow> failure_signal" where
  "join_signal src detail = \<lparr>sg_source = src, sg_detail = detail, sg_class_hint = None\<rparr>"

definition layered_survivors :: "run_state \<Rightarrow> string list option" where
  "layered_survivors s =
     (if LAYER_THRESHOLD \<le> length (rs_branches s) \<and> rs_strategy s = Some Portfolio then
        (let ranked = sort_desc portfolio_score (filter (\<lambda>b. b_status b = Succeeded) (rs_branches s))
         in if ranked = [] then None
            else Some (map b_branch_id (take (max 2 (length ranked div 2)) ranked)))
      else None)"

definition drop_losers :: "run_state \<Rightarrow> string list option \<Rightarrow> run_state" where
  "drop_losers s keep =
     (case keep of
        None \<Rightarrow> s
      | Some ids \<Rightarrow>
          s\<lparr>rs_branches := map (\<lambda>b. if b_branch_id b \<in> set ids then b else b\<lparr>b_selected := False\<rparr>)
                             (rs_branches s)\<rparr>)"

definition final_route :: "run_state \<Rightarrow> route_name" where
  "final_route s = (if rs_failure_signal s \<noteq> None then Otherwise else MergeCompleteAndPassing)"

definition join_missing ::
    "run_state \<Rightarrow> 'a join_ctx_scheme \<Rightarrow> string list \<Rightarrow> node_outcome" where
  "join_missing s ctx missing =
     outcome
       (s\<lparr>rs_merge_audits := rs_merge_audits s @ [audit_of s ctx missing Flagged],
          rs_failure_signal := Some (join_signal JoinSource (''merge gap: missing='' @ cx_show_ids ctx missing)),
          rs_failure := Some \<lparr>fv_class = FMerge, fv_evidence = [''missing branches: '' @ cx_show_ids ctx missing],
                              fv_implicated_skill = None, fv_counts_against_trust = False,
                              fv_escalate_to_human = False\<rparr>\<rparr>)
       Otherwise []"

definition join_portfolio ::
    "run_state \<Rightarrow> 'a base_ctx_scheme \<Rightarrow> string list option \<Rightarrow> merge_audit \<Rightarrow>
     (node_error, node_outcome) result" where
  "join_portfolio s ctx survivors audit =
     (let winner = select_portfolio_winner (rs_branches s) survivors;
          branches = (case winner of
              None \<Rightarrow> rs_branches s
            | Some w \<Rightarrow> map (\<lambda>b. b\<lparr>b_selected := (b_branch_id b = b_branch_id w)\<rparr>) (rs_branches s));
          ref = (case winner of None \<Rightarrow> [] | Some w \<Rightarrow> b_workspace_ref w)
      in case score_criteria s ctx of
           Inl e \<Rightarrow> Inl e
         | Inr (rs, signal) \<Rightarrow>
             (let s' = s\<lparr>rs_branches := branches, rs_results := rs,
                         rs_results_history := rs_results_history s @ [rs],
                         rs_failure_signal := signal,
                         rs_merge_audits := rs_merge_audits s @ [audit],
                         rs_artifacts := (if ref \<noteq> [] then rs_artifacts s @ [ref] else rs_artifacts s)\<rparr>
              in Inr (outcome s' (final_route s') (if ref \<noteq> [] then [WorkspaceMerge [ref]] else []))))"

definition join_decomposition ::
    "run_state \<Rightarrow> 'a join_ctx_scheme \<Rightarrow> merge_audit \<Rightarrow> (node_error, node_outcome) result" where
  "join_decomposition s ctx audit =
     (if \<exists>b \<in> set (rs_branches s). b_status b \<noteq> Succeeded then
        Inr (outcome
          (s\<lparr>rs_merge_audits := rs_merge_audits s @ [audit\<lparr>ma_action := MergeFailed\<rparr>],
             rs_failure_signal := Some (join_signal Solver ''decomposition branch failed'')\<rparr>)
          Otherwise [])
      else case cx_merge_conflict ctx of
        Some detail \<Rightarrow>
          Inr (outcome
            (s\<lparr>rs_merge_audits := rs_merge_audits s @ [audit\<lparr>ma_action := MergeFailed\<rparr>],
               rs_failure_signal := Some (join_signal JoinSource detail)\<rparr>)
            Otherwise [WorkspaceMerge (decomposition_ids s)])
      | None \<Rightarrow>
          (case score_criteria s ctx of
             Inl e \<Rightarrow> Inl e
           | Inr (rs, signal) \<Rightarrow>
               (let ids = decomposition_ids s;
                    batches = fan_in (fan_in_width (ma_layered audit) ids) ids;
                    s' = s\<lparr>rs_results := rs, rs_results_history := rs_results_history s @ [rs],
                           rs_failure_signal := signal,
                           rs_artifacts := rs_artifacts s @ [cx_workdir ctx @ ''/.fan-in/final''],
                           rs_merge_audits := rs_merge_audits s @ [audit\<lparr>ma_batches := batches\<rparr>]\<rparr>
                in Inr (outcome s' (final_route s') [WorkspaceMerge ids]))))"

definition join :: "run_state \<Rightarrow> 'a join_ctx_scheme \<Rightarrow> (node_error, node_outcome) result" where
  "join s ctx =
     (let missing = map b_branch_id (filter (\<lambda>b. \<not> finished b) (rs_branches s));
          audit = audit_of s ctx [] Proceeded;
          survivors = layered_survivors s;
          s' = drop_losers s survivors
      in if missing \<noteq> [] then Inr (join_missing s ctx missing)
         else if rs_strategy s' = Some Portfolio \<or> (\<exists>b \<in> set (rs_branches s'). b_kind b = PortfolioBranch)
         then join_portfolio s' ctx survivors audit
         else join_decomposition s' ctx audit)"

subsection \<open>The winner is the best eligible branch\<close>

lemma score_less_irrefl: "\<not> score_less a a"
  by (cases a) simp

lemma score_less_trans: "score_less a b \<Longrightarrow> score_less b c \<Longrightarrow> score_less a c"
  by (cases a; cases b; cases c) auto

lemma score_less_linear: "score_less a b \<or> a = b \<or> score_less b a"
  by (cases a; cases b) auto

lemma score_le_trans: "\<not> score_less b a \<Longrightarrow> \<not> score_less c b \<Longrightarrow> \<not> score_less c a"
  by (cases a; cases b; cases c) auto

text \<open>\<open>first_max f x xs\<close>: \<open>x\<close> is the first of the elements of \<open>xs\<close> with the largest key.\<close>

definition first_max :: "('a \<Rightarrow> portfolio_score) \<Rightarrow> 'a \<Rightarrow> 'a list \<Rightarrow> bool" where
  "first_max f x xs \<longleftrightarrow>
     (\<exists>us vs. xs = us @ x # vs \<and> (\<forall>u \<in> set us. score_less (f u) (f x)) \<and>
              (\<forall>v \<in> set vs. \<not> score_less (f x) (f v)))"

lemma first_max_single: "first_max f y [y]"
  unfolding first_max_def by (metis append_Nil empty_iff empty_set)

lemma max_by_first_max: "first_max f (max_by f y ys) (y # ys)"
proof (induction ys arbitrary: y)
  case Nil
  then show ?case by (simp add: first_max_single)
next
  case (Cons z zs)
  define m where "m = max_by f (if score_less (f y) (f z) then z else y) zs"
  have m: "max_by f y (z # zs) = m" by (simp add: m_def)
  show ?case
  proof (cases "score_less (f y) (f z)")
    case True
    then have "first_max f m (z # zs)" using Cons[of z] by (simp add: m_def)
    then obtain us vs where *: "z # zs = us @ m # vs" "\<forall>u \<in> set us. score_less (f u) (f m)"
        "\<forall>v \<in> set vs. \<not> score_less (f m) (f v)"
      unfolding first_max_def by blast
    have "score_less (f y) (f m)"
      using * True score_less_trans by (cases us) auto
    moreover have "y # z # zs = (y # us) @ m # vs" using *(1) by simp
    ultimately show ?thesis
      unfolding m first_max_def using *(2,3) by (metis set_ConsD)
  next
    case False
    then have "first_max f m (y # zs)" using Cons[of y] by (simp add: m_def)
    then obtain us vs where *: "y # zs = us @ m # vs" "\<forall>u \<in> set us. score_less (f u) (f m)"
        "\<forall>v \<in> set vs. \<not> score_less (f m) (f v)"
      unfolding first_max_def by blast
    show ?thesis
    proof (cases us)
      case Nil
      then have "y # z # zs = [] @ m # z # zs" "\<forall>v \<in> set (z # zs). \<not> score_less (f m) (f v)"
        using * False by auto
      then show ?thesis
        unfolding m first_max_def by (metis empty_iff empty_set)
    next
      case (Cons u us')
      then have "score_less (f y) (f m)" using * by auto
      then have "score_less (f z) (f m)"
        using False score_less_linear[of "f z" "f y"] score_less_trans by metis
      moreover have "y # z # zs = (y # z # us') @ m # vs" using *(1) Cons by simp
      ultimately show ?thesis
        unfolding m first_max_def using *(2,3) Cons *(1) \<open>score_less (f y) (f m)\<close>
        by (metis set_ConsD list.set_intros(2))
    qed
  qed
qed

lemma py_max_first_max: "py_max f xs = Some x \<Longrightarrow> first_max f x xs"
  by (auto simp: py_max_def max_by_first_max split: list.splits)

lemma py_max_None_iff [simp]: "py_max f xs = None \<longleftrightarrow> xs = []"
  by (simp add: py_max_def split: list.splits)

lemma first_max_unique: "first_max f x xs \<Longrightarrow> first_max f y xs \<Longrightarrow> x = y"
proof -
  assume fx: "first_max f x xs" and fy: "first_max f y xs"
  from fx obtain us vs where
    x: "xs = us @ x # vs" "\<forall>u \<in> set us. score_less (f u) (f x)" "\<forall>v \<in> set vs. \<not> score_less (f x) (f v)"
    unfolding first_max_def by blast
  from fy obtain us' vs' where
    y: "xs = us' @ y # vs'" "\<forall>u \<in> set us'. score_less (f u) (f y)" "\<forall>v \<in> set vs'. \<not> score_less (f y) (f v)"
    unfolding first_max_def by blast
  from x(1) y(1) consider ws where "us = us' @ y # ws" | "us = us'" "x = y" | ws where "us' = us @ x # ws"
    by (auto simp: append_eq_append_conv2 Cons_eq_append_conv append_eq_Cons_conv)
  then show "x = y"
  proof cases
    case 1
    then have "score_less (f y) (f x)" using x(2) by simp
    moreover have "x \<in> set vs'" using 1 x(1) y(1) by auto
    ultimately show ?thesis using y(3) by blast
  next
    case 3
    then have "score_less (f x) (f y)" using y(2) by simp
    moreover have "y \<in> set vs" using 3 x(1) y(1) by auto
    ultimately show ?thesis using x(3) by blast
  qed
qed

lemma first_max_filter:
  assumes "first_max f x xs" "P x"
  shows "first_max f x (filter P xs)"
proof -
  obtain us vs where "xs = us @ x # vs" "\<forall>u \<in> set us. score_less (f u) (f x)"
      "\<forall>v \<in> set vs. \<not> score_less (f x) (f v)"
    using assms(1) by (auto simp: first_max_def)
  then show ?thesis
    unfolding first_max_def using assms(2)
    by (intro exI[of _ "filter P us"] exI[of _ "filter P vs"]) auto
qed

lemma first_max_py_max: "first_max f x xs \<Longrightarrow> py_max f xs = Some x"
  by (metis first_max_unique py_max_first_max py_max_None_iff not_Some_eq first_max_def
      append_is_Nil_conv list.distinct(1))

lemma filter_map_fixed:
  "(\<And>b. P (h b) = P b) \<Longrightarrow> (\<And>b. P b \<Longrightarrow> h b = b) \<Longrightarrow> filter P (map h bs) = filter P bs"
  by (induction bs) auto

lemma insert_desc_ne [simp]: "insert_desc f x xs \<noteq> []"
  by (cases xs) auto

lemma sort_desc_head:
  "sort_desc f xs = y # ys \<Longrightarrow> first_max f y xs"
proof (induction xs arbitrary: y ys)
  case (Cons x xs)
  show ?case
  proof (cases "sort_desc f xs")
    case Nil
    then have "xs = []" by (cases xs) auto
    then show ?thesis using Cons.prems by (simp add: first_max_single)
  next
    case (Cons z zs)
    then have z: "first_max f z xs" using Cons.IH by blast
    then obtain us vs where *: "xs = us @ z # vs" "\<forall>u \<in> set us. score_less (f u) (f z)"
        "\<forall>v \<in> set vs. \<not> score_less (f z) (f v)"
      unfolding first_max_def by blast
    show ?thesis
    proof (cases "score_less (f x) (f z)")
      case True
      then have "y = z" using Cons Cons.prems by simp
      moreover have "x # xs = (x # us) @ z # vs" using *(1) by simp
      ultimately show ?thesis unfolding first_max_def using * True by (metis set_ConsD)
    next
      case False
      then have "y = x" using Cons Cons.prems by simp
      moreover have "\<forall>v \<in> set xs. \<not> score_less (f x) (f v)"
      proof
        fix v assume "v \<in> set xs"
        then consider "v \<in> set us" | "v = z" | "v \<in> set vs" using *(1) by auto
        then show "\<not> score_less (f x) (f v)"
          using *(2,3) False score_less_trans[of "f x" "f v" "f z"]
            score_le_trans[of "f z" "f v" "f x"] by cases auto
      qed
      ultimately show ?thesis unfolding first_max_def by (metis append_Nil empty_iff empty_set)
    qed
  qed
qed simp

text \<open>
  Layered fan-in is only an optimisation: cutting a wide portfolio down to its survivors before
  choosing selects exactly the branch that the direct choice over all branches selects.\<close>

theorem layered_fan_in_preserves_winner:
  "select_portfolio_winner (rs_branches (drop_losers s (layered_survivors s))) (layered_survivors s) =
   select_portfolio_winner (rs_branches s) None"
proof (cases "layered_survivors s")
  case None
  then show ?thesis by (simp add: drop_losers_def)
next
  case (Some keep)
  define succ where "succ = filter (\<lambda>b. b_status b = Succeeded) (rs_branches s)"
  define h :: "branch_state \<Rightarrow> branch_state" where "h = (\<lambda>b. if b_branch_id b \<in> set keep then b else b\<lparr>b_selected := False\<rparr>)"
  from Some obtain w ws where ranked: "sort_desc portfolio_score succ = w # ws"
    and keep: "keep = map b_branch_id (take (max 2 (length (w # ws) div 2)) (w # ws))"
    by (cases "sort_desc portfolio_score succ")
       (auto simp: layered_survivors_def succ_def Let_def split: if_splits)
  have fm: "first_max portfolio_score w succ" using ranked by (rule sort_desc_head)
  obtain k where "max 2 (length (w # ws) div 2) = Suc k"
    by (metis max.cobounded1 not0_implies_Suc not_numeral_le_zero)
  then have wk: "b_branch_id w \<in> set keep" by (simp add: keep)
  have direct: "select_portfolio_winner (rs_branches s) None = Some w"
  proof -
    have "succ \<noteq> []" using fm by (auto simp: first_max_def)
    then show ?thesis
      using first_max_py_max[OF fm]
      by (simp add: select_portfolio_winner_def eligible_def succ_def)
  qed
  have "filter (\<lambda>b. b_status b = Succeeded \<and> b_branch_id b \<in> set keep) (map h (rs_branches s)) =
        filter (\<lambda>b. b_status b = Succeeded \<and> b_branch_id b \<in> set keep) (rs_branches s)"
    by (rule filter_map_fixed) (simp_all add: h_def)
  then have el: "eligible (Some keep) (filter (\<lambda>b. b_status b = Succeeded)
       (rs_branches (drop_losers s (Some keep)))) = filter (\<lambda>b. b_branch_id b \<in> set keep) succ"
    by (simp add: eligible_def drop_losers_def succ_def h_def)
  have fm': "first_max portfolio_score w (filter (\<lambda>b. b_branch_id b \<in> set keep) succ)"
    using fm wk by (rule first_max_filter)
  then have "filter (\<lambda>b. b_branch_id b \<in> set keep) succ \<noteq> []" by (auto simp: first_max_def)
  then have "select_portfolio_winner (rs_branches (drop_losers s (Some keep))) (Some keep) = Some w"
    using first_max_py_max[OF fm'] by (simp add: select_portfolio_winner_def el)
  then show ?thesis by (simp add: Some direct)
qed

subsection \<open>When the chosen route is legal\<close>

lemma score_each_fails:
  "score_each ctx env cs = Inr (rs, True) \<Longrightarrow>
     \<exists>i < length cs. is_required (cs ! i) \<and> \<not> r_passed (rs ! i)"
proof (induction cs arbitrary: rs)
  case (Cons c cs)
  from Cons.prems show ?case
  proof (rule score_each_ConsE)
    fix r rs' f'
    assume a: "score_each ctx env cs = Inr (rs', f')" "rs = recorded_result ctx c r # rs'"
      "True = (gates ctx c r \<or> f')"
    show ?thesis
    proof (cases "gates ctx c r")
      case True
      then have "is_required c \<and> \<not> r_passed (recorded_result ctx c r)"
        by (auto simp: gates_def recorded_result_def)
      then show ?thesis using a(2) by (intro exI[of _ 0]) simp
    next
      case False
      then obtain i where "i < length cs" "is_required (cs ! i)" "\<not> r_passed (rs' ! i)"
        using Cons.IH[of rs'] a by auto
      then show ?thesis using a(2) by (intro exI[of _ "Suc i"]) simp
    qed
  qed
qed simp

lemma score_criteria_fails:
  assumes "score_criteria s ctx = Inr (rs, Some sg)" "distinct (map c_id (rs_criteria s))"
    and "rs_criteria s' = rs_criteria s" "rs_results s' = rs"
  shows "\<not> required_criteria_pass s'"
proof -
  let ?env = "cx_env ctx (cx_workdir ctx)"
  have e: "score_each ctx ?env (rs_criteria s) = Inr (rs, True)"
    using assms(1) by (auto simp: score_criteria_def split: if_splits sum.splits)
  obtain i where i: "i < length (rs_criteria s)" "is_required (rs_criteria s ! i)" "\<not> r_passed (rs ! i)"
    using score_each_fails[OF e] by blast
  note ids = score_each_Inr(1,2)[OF e]
  have uniq: "r_passed r \<Longrightarrow> r \<in> set rs \<Longrightarrow> r_criterion_id r \<noteq> c_id (rs_criteria s ! i)" for r
  proof
    assume r: "r_passed r" "r \<in> set rs" "r_criterion_id r = c_id (rs_criteria s ! i)"
    then obtain j where j: "j < length rs" "rs ! j = r" by (auto simp: in_set_conv_nth)
    then have "map c_id (rs_criteria s) ! j = map c_id (rs_criteria s) ! i"
      using ids r(3) i(1) by (metis nth_map)
    then have "j = i"
      using assms(2) ids(1) i(1) j(1) by (metis length_map nth_eq_iff_index_eq)
    then show False using j r i by simp
  qed
  have "rs_criteria s ! i \<in> set (rs_criteria s)" using i by simp
  moreover have "\<not> (\<exists>r \<in> set (rs_results s'). r_passed r \<and> r_criterion_id r = c_id (rs_criteria s ! i))"
    using uniq assms(4) by blast
  ultimately show ?thesis
    using i(2) assms(3) unfolding required_criteria_pass_iff by metis
qed

lemma audit_complete:
  assumes "filter (\<lambda>b. \<not> finished b) (rs_branches s) = []"
  shows "is_complete ((audit_of s ctx [] a)\<lparr>ma_action := a', ma_batches := bs\<rparr>)"
    "is_complete ((audit_of s ctx [] a)\<lparr>ma_action := a'\<rparr>)"
    "is_complete ((audit_of s ctx [] a)\<lparr>ma_batches := bs\<rparr>)" "is_complete (audit_of s ctx [] a)"
proof -
  have "filter finished (rs_branches s) = rs_branches s"
    using assms by (auto simp: filter_empty_conv filter_id_conv)
  then show "is_complete ((audit_of s ctx [] a)\<lparr>ma_action := a', ma_batches := bs\<rparr>)"
    "is_complete ((audit_of s ctx [] a)\<lparr>ma_action := a'\<rparr>)"
    "is_complete ((audit_of s ctx [] a)\<lparr>ma_batches := bs\<rparr>)" "is_complete (audit_of s ctx [] a)"
    by (simp_all add: is_complete_def audit_of_def)
qed

lemma join_missing_legal:
  assumes "missing \<noteq> []"
  shows "legal_route Join Otherwise (oc_state (join_missing s ctx missing))"
  using assms
  by (simp add: join_missing_def node_simps join_complete_and_passing_def is_complete_def audit_of_def)

lemma scored_join_legal:
  assumes sc: "score_criteria s ctx = Inr (rs, signal)" and d: "distinct (map c_id (rs_criteria s))"
    and s': "rs_criteria s' = rs_criteria s" "rs_results s' = rs" "rs_failure_signal s' = signal"
    and audits: "rs_merge_audits s' \<noteq> []" "\<forall>m \<in> set (rs_merge_audits s'). is_complete m"
  shows "legal_route Join (final_route s') s'"
proof (cases signal)
  case None
  then have "required_criteria_pass s'"
    using score_criteria_Inr(3)[OF sc None, of s'] s' by (simp add: required_criteria_pass_def)
  then show ?thesis
    using None s' audits by (simp add: final_route_def node_simps join_complete_and_passing_def)
next
  case (Some sg)
  then have "\<not> required_criteria_pass s'"
    using score_criteria_fails[of s ctx rs sg s'] sc d s' by simp
  then show ?thesis
    using Some s' audits by (simp add: final_route_def node_simps join_complete_and_passing_def)
qed

lemma drop_losers_sel [simp]:
  "rs_criteria (drop_losers s k) = rs_criteria s" "rs_strategy (drop_losers s k) = rs_strategy s"
  "rs_merge_audits (drop_losers s k) = rs_merge_audits s" "rs_results (drop_losers s k) = rs_results s"
  "rs_budget (drop_losers s k) = rs_budget s" "rs_spent (drop_losers s k) = rs_spent s"
  "rs_workspace_snapshots (drop_losers s k) = rs_workspace_snapshots s"
  "rs_attempt_no (drop_losers s k) = rs_attempt_no s"
  "map b_kind (rs_branches (drop_losers s k)) = map b_kind (rs_branches s)"
  "map b_status (rs_branches (drop_losers s k)) = map b_status (rs_branches s)"
  by (auto simp: drop_losers_def split: option.splits)

lemma ex_kind_iff: "(\<exists>b \<in> set bs. b_kind b = k) \<longleftrightarrow> k \<in> set (map b_kind bs)"
  by force

text \<open>A fan-out that join reduces as a decomposition.\<close>

definition reduces_decomposition :: "run_state \<Rightarrow> bool" where
  "reduces_decomposition s \<longleftrightarrow>
     rs_strategy s \<noteq> Some Portfolio \<and> (\<forall>b \<in> set (rs_branches s). b_kind b \<noteq> PortfolioBranch)"

lemma layered_survivors_decomposition:
  "reduces_decomposition s \<Longrightarrow> layered_survivors s = None"
  by (auto simp: reduces_decomposition_def layered_survivors_def)

lemma join_portfolio_legal:
  assumes "join_portfolio s ctx k audit = Inr oc" "distinct (map c_id (rs_criteria s))"
    and "\<forall>m \<in> set (rs_merge_audits s). is_complete m" "is_complete audit"
  shows "\<exists>route. oc_route oc = Some route \<and> legal_route Join route (oc_state oc)"
proof -
  obtain rs signal where sc: "score_criteria s ctx = Inr (rs, signal)"
    using assms(1) by (auto simp: join_portfolio_def Let_def split: sum.splits)
  define s' where "s' = oc_state oc"
  have s': "rs_criteria s' = rs_criteria s" "rs_results s' = rs" "rs_failure_signal s' = signal"
    "rs_merge_audits s' = rs_merge_audits s @ [audit]" "oc_route oc = Some (final_route s')"
    using assms(1) sc by (auto simp: join_portfolio_def Let_def s'_def)
  have "legal_route Join (final_route s') s'"
    by (rule scored_join_legal[OF sc assms(2)]) (use s' assms(3,4) in auto)
  then show ?thesis using s'(5) by (simp add: s'_def)
qed

lemma join_decomposition_legal_iff:
  assumes "join_decomposition s ctx audit = Inr oc" "distinct (map c_id (rs_criteria s))"
    and "\<forall>m \<in> set (rs_merge_audits s). is_complete m"
    and audit: "is_complete audit" "\<And>a. is_complete (audit\<lparr>ma_action := a\<rparr>)"
      "\<And>bs. is_complete (audit\<lparr>ma_batches := bs\<rparr>)"
  shows "(\<exists>route. oc_route oc = Some route \<and> legal_route Join route (oc_state oc)) \<longleftrightarrow>
           \<not> (((\<exists>b \<in> set (rs_branches s). b_status b \<noteq> Succeeded) \<or> cx_merge_conflict ctx \<noteq> None) \<and>
              required_criteria_pass s)"
proof (cases "(\<exists>b \<in> set (rs_branches s). b_status b \<noteq> Succeeded) \<or> cx_merge_conflict ctx \<noteq> None")
  case True
  then have "oc_route oc = Some Otherwise" "rs_criteria (oc_state oc) = rs_criteria s"
    "rs_results (oc_state oc) = rs_results s"
    "rs_merge_audits (oc_state oc) = rs_merge_audits s @ [audit\<lparr>ma_action := MergeFailed\<rparr>]"
    using assms(1) by (auto simp: join_decomposition_def split: option.splits if_splits)
  then show ?thesis
    using True assms(3) audit(2)
    by (auto simp: node_simps join_complete_and_passing_def required_criteria_pass_def)
next
  case False
  then obtain rs signal where sc: "score_criteria s ctx = Inr (rs, signal)"
    using assms(1) by (auto simp: join_decomposition_def split: option.splits if_splits sum.splits)
  define s' where "s' = oc_state oc"
  have s': "rs_criteria s' = rs_criteria s" "rs_results s' = rs" "rs_failure_signal s' = signal"
    "\<exists>bs. rs_merge_audits s' = rs_merge_audits s @ [audit\<lparr>ma_batches := bs\<rparr>]"
    "oc_route oc = Some (final_route s')"
    using assms(1) sc False by (auto simp: join_decomposition_def Let_def s'_def split: if_splits)
  have "legal_route Join (final_route s') s'"
    by (rule scored_join_legal[OF sc assms(2)]) (use s' assms(3) audit in auto)
  then show ?thesis using s'(5) False by (simp add: s'_def)
qed

text \<open>
  Exactly when join's own choice of route is legal: with distinct criterion ids and no earlier merge
  gap, the engine can follow join's route unless a decomposition is reduced whose branches failed or
  whose workspaces conflict while the required criteria of the last score of the parent already
  pass. In that one case the audit still counts every branch as received, so the table only admits
  \<open>merge_complete_and_passing\<close>, join answers \<open>otherwise\<close>, and the run stops with a routing error.\<close>

theorem join_route_legal_iff:
  assumes "join s ctx = Inr oc" "distinct (map c_id (rs_criteria s))"
    and "\<forall>m \<in> set (rs_merge_audits s). is_complete m"
  shows "(\<exists>route. oc_route oc = Some route \<and> legal_route Join route (oc_state oc)) \<longleftrightarrow>
           \<not> ((\<forall>b \<in> set (rs_branches s). finished b) \<and> reduces_decomposition s \<and>
              ((\<exists>b \<in> set (rs_branches s). b_status b \<noteq> Succeeded) \<or> cx_merge_conflict ctx \<noteq> None) \<and>
              required_criteria_pass s)"
proof (cases "filter (\<lambda>b. \<not> finished b) (rs_branches s) = []")
  case False
  then have "oc = join_missing s ctx (map b_branch_id (filter (\<lambda>b. \<not> finished b) (rs_branches s)))"
    using assms(1) by (simp add: join_def Let_def)
  then have "oc_route oc = Some Otherwise \<and> legal_route Join Otherwise (oc_state oc)"
    using join_missing_legal[of "map b_branch_id (filter (\<lambda>b. \<not> finished b) (rs_branches s))" s ctx] False
    by (simp add: join_missing_def)
  moreover have "\<not> (\<forall>b \<in> set (rs_branches s). finished b)"
    using False by (simp add: filter_empty_conv)
  ultimately show ?thesis by blast
next
  case True
  then have fin: "\<forall>b \<in> set (rs_branches s). finished b" by (simp add: filter_empty_conv)
  note audit = audit_complete[OF True, where ctx = ctx and a = Proceeded]
  show ?thesis
  proof (cases "reduces_decomposition s")
    case dec: True
    then have ls: "layered_survivors s = None" by (rule layered_survivors_decomposition)
    then have j: "join_decomposition s ctx (audit_of s ctx [] Proceeded) = Inr oc"
      using assms(1) dec True
      by (auto simp: join_def Let_def drop_losers_def reduces_decomposition_def)
    show ?thesis
      using join_decomposition_legal_iff[OF j assms(2,3) audit(4,2,3)] dec fin by simp
  next
    case False
    let ?s = "drop_losers s (layered_survivors s)"
    have kinds: "(\<exists>b \<in> set (rs_branches ?s). b_kind b = PortfolioBranch) \<longleftrightarrow>
                 (\<exists>b \<in> set (rs_branches s). b_kind b = PortfolioBranch)"
      using ex_kind_iff[of "rs_branches ?s"] ex_kind_iff[of "rs_branches s"] by simp
    then have j: "join_portfolio ?s ctx (layered_survivors s) (audit_of s ctx [] Proceeded) = Inr oc"
      using assms(1) False True
      by (auto simp: join_def Let_def reduces_decomposition_def split: if_splits)
    have "\<exists>route. oc_route oc = Some route \<and> legal_route Join route (oc_state oc)"
      by (rule join_portfolio_legal[OF j]) (use assms(2,3) audit(4) in auto)
    then show ?thesis using False by blast
  qed
qed

definition example_branch :: "string \<Rightarrow> branch_status \<Rightarrow> branch_state" where
  "example_branch bid st =
     (new_branch example_ctx bid DecompositionBranch BranchScratch None None default_budget no_reservation [])
       \<lparr>b_status := st\<rparr>"

definition failed_decomposition :: run_state where
  "failed_decomposition =
     example_state\<lparr>rs_strategy := Some Decomposition,
       rs_branches := [example_branch ''-d0'' Succeeded, example_branch ''-d1'' Failed],
       rs_results := [plain_result ''tests'' Command True 1, plain_result ''lint'' Command True 1]\<rparr>"

definition example_jctx :: join_ctx where
  "example_jctx = validate_ctx.extend example_vctx \<lparr>cx_merge_conflict = None, cx_show_ids = (\<lambda>ids. [])\<rparr>"

theorem join_route_legal_iff_witness:
  "\<exists>oc. join failed_decomposition example_jctx = Inr oc \<and>
        \<not> (\<exists>route. oc_route oc = Some route \<and> legal_route Join route (oc_state oc))"
proof -
  let ?s = failed_decomposition
  have crit: "rs_criteria ?s = [example_criterion, example_criterion\<lparr>c_id := ''lint''\<rparr>]"
    and audits: "rs_merge_audits ?s = []"
    by (simp_all add: failed_decomposition_def example_state_def initial_state_def)
  have bs: "rs_branches ?s = [example_branch ''-d0'' Succeeded, example_branch ''-d1'' Failed]"
    by (simp add: failed_decomposition_def)
  have dec: "reduces_decomposition ?s"
    unfolding reduces_decomposition_def bs by (simp add: failed_decomposition_def example_branch_def)
  have fin: "\<forall>b \<in> set (rs_branches ?s). finished b"
    unfolding bs by (simp add: example_branch_def finished_def)
  have bad: "\<exists>b \<in> set (rs_branches ?s). b_status b \<noteq> Succeeded"
    unfolding bs by (simp add: example_branch_def)
  have pass: "required_criteria_pass ?s"
    unfolding required_criteria_pass_iff crit
    by (simp add: failed_decomposition_def example_criterion_def)
  have "\<exists>oc. join ?s example_jctx = Inr oc"
    using dec fin bad
    by (auto simp: join_def Let_def layered_survivors_decomposition drop_losers_def
        reduces_decomposition_def join_decomposition_def filter_empty_conv)
  then obtain oc where oc: "join ?s example_jctx = Inr oc" ..
  have "distinct (map c_id (rs_criteria ?s))"
    unfolding crit by (simp add: example_criterion_def)
  from join_route_legal_iff[OF oc this] oc dec fin bad pass show ?thesis
    by (auto simp: audits)
qed

subsection \<open>Bounded fan-in\<close>

lemma concat_chunks [simp]: "concat (chunks w xs) = xs"
  by (induction w xs rule: chunks.induct) auto

lemma chunk_size: "1 \<le> w \<Longrightarrow> g \<in> set (chunks w xs) \<Longrightarrow> 1 \<le> length g \<and> length g \<le> w"
  by (induction w xs rule: chunks.induct) (auto simp: min_def)

lemma fan_in_bounded: "g \<in> set (fan_in w xs) \<Longrightarrow> 1 \<le> length g \<and> length g \<le> w"
proof (induction w xs rule: fan_in.induct)
  case (1 w xs)
  have run: "\<not> (length xs \<le> 1 \<or> w < 2)"
    using 1(2) by (subst (asm) fan_in.simps) (auto split: if_splits)
  then have "g \<in> set (chunks w xs) \<or> g \<in> set (fan_in w (map join_plus (chunks w xs)))"
    using 1(2) by (subst (asm) fan_in.simps) (auto simp: Let_def)
  then show ?case
    using chunk_size[of w g xs] 1(1)[OF run refl] run by auto
qed

text \<open>
  Layered fan-in is bounded and complete: every batch merges between one and four inputs however
  many branches there are, and the first level reads each branch exactly once, in order. The loop
  terminates for every branch list.\<close>

theorem layered_fan_in_batches:
  assumes "2 \<le> length ids"
  shows "(\<forall>g \<in> set (fan_in (fan_in_width True ids) ids). 1 \<le> length g \<and> length g \<le> 4) \<and>
         (\<exists>k. concat (take k (fan_in (fan_in_width True ids) ids)) = ids)"
proof -
  have w: "fan_in_width True ids = 4" by (simp add: fan_in_width_def)
  have "fan_in 4 ids = chunks 4 ids @ fan_in 4 (map join_plus (chunks 4 ids))"
    using assms by (subst fan_in.simps) (simp add: Let_def)
  then have "concat (take (length (chunks 4 ids)) (fan_in 4 ids)) = ids" by simp
  then show ?thesis using fan_in_bounded[of _ 4 ids] unfolding w by blast
qed

theorem layered_fan_in_batches_witness:
  "\<exists>k. concat (take k (fan_in (fan_in_width True (replicate 9 ''b'')) (replicate 9 ''b''))) = replicate 9 ''b''"
  using layered_fan_in_batches[of "replicate 9 ''b''"] by simp

subsection \<open>Frame\<close>

lemma join_frame:
  assumes "join s ctx = Inr oc"
  shows "rs_budget (oc_state oc) = rs_budget s" "rs_spent (oc_state oc) = rs_spent s"
    "rs_criteria (oc_state oc) = rs_criteria s"
    "rs_workspace_snapshots (oc_state oc) = rs_workspace_snapshots s"
    "rs_attempt_no (oc_state oc) = rs_attempt_no s"
proof -
  define keep where "keep = drop_losers s (layered_survivors s)"
  consider m where "oc = join_missing s ctx m"
    | a k where "join_portfolio keep ctx k a = Inr oc"
    | a where "join_decomposition keep ctx a = Inr oc"
    using assms unfolding join_def Let_def keep_def by (auto split: if_splits)
  then have "rs_budget (oc_state oc) = rs_budget s \<and> rs_spent (oc_state oc) = rs_spent s \<and>
    rs_criteria (oc_state oc) = rs_criteria s \<and>
    rs_workspace_snapshots (oc_state oc) = rs_workspace_snapshots s \<and>
    rs_attempt_no (oc_state oc) = rs_attempt_no s"
  proof cases
    case 1
    then show ?thesis by (simp add: join_missing_def)
  next
    case 2
    then show ?thesis
      by (auto simp: join_portfolio_def Let_def keep_def split: sum.splits)
  next
    case 3
    then show ?thesis
      by (auto simp: join_decomposition_def Let_def keep_def split: sum.splits option.splits if_splits)
  qed
  then show "rs_budget (oc_state oc) = rs_budget s" "rs_spent (oc_state oc) = rs_spent s"
    "rs_criteria (oc_state oc) = rs_criteria s"
    "rs_workspace_snapshots (oc_state oc) = rs_workspace_snapshots s"
    "rs_attempt_no (oc_state oc) = rs_attempt_no s" by auto
qed

end
