(* ===== verification/Node_Failure.thy ===== *)
theory Node_Failure
  imports Node_Join
begin

section \<open>Failure nodes: classify\_failure, evolve, record\_dead\_end\<close>

text \<open>
  \<open>nodes/classify_failure.py\<close>, \<open>nodes/evolve.py\<close> and \<open>nodes/record_dead_end.py\<close>. The tool registry, the
  affordance store (whose queries may raise a database error), the episodic store and the published
  patch templates are read-only views in the context. \<open>cx_signature\<close> is the regular-expression
  normalisation of a failure text.
\<close>

record tool_registry =
  tr_names :: "string list"
  tr_is_flaky :: "string \<Rightarrow> bool"
  tr_match_error :: "string \<Rightarrow> string \<Rightarrow> bool"

record affordance_view =
  af_tools :: "string list option"
  af_known_flaky :: "string \<Rightarrow> bool option"
  af_matches_error :: "string \<Rightarrow> string \<Rightarrow> bool option"

record dead_end =
  de_approach :: string
  de_why_failed :: string

record episodic_view =
  ep_dead_ends :: "string option \<Rightarrow> nat \<Rightarrow> dead_end option list"

record failure_ctx = join_ctx +
  cx_tools :: "tool_registry option"
  cx_affordances :: "affordance_view option"
  cx_episodic :: "episodic_view option"
  cx_patch_templates :: "(string \<Rightarrow> string option) option"
  cx_signature :: "string \<Rightarrow> failure_class \<Rightarrow> string"

subsection \<open>Classification\<close>

text \<open>\<open>_affordances_name_a_tool\<close>: \<open>None\<close> is a raised \<open>sqlite3.Error\<close>, which ends the scan with no match.\<close>

fun affordances_scan :: "affordance_view \<Rightarrow> string \<Rightarrow> string list \<Rightarrow> bool" where
  "affordances_scan af detail [] = False"
| "affordances_scan af detail (t # ts) =
     (case af_known_flaky af t of
        None \<Rightarrow> False
      | Some flaky \<Rightarrow>
          if flaky \<and> py_in t detail then True
          else case af_matches_error af t detail of
                 None \<Rightarrow> False
               | Some m \<Rightarrow> if m then True else affordances_scan af detail ts)"

definition affordances_name_a_tool :: "affordance_view \<Rightarrow> string \<Rightarrow> bool" where
  "affordances_name_a_tool af detail =
     (case af_tools af of None \<Rightarrow> False | Some ts \<Rightarrow> affordances_scan af detail ts)"

definition is_tool_failure :: "'a failure_ctx_scheme \<Rightarrow> string \<Rightarrow> bool" where
  "is_tool_failure ctx detail =
     (if cx_tools ctx = None \<and> cx_affordances ctx = None then True
      else if (case cx_tools ctx of
                 None \<Rightarrow> False
               | Some tr \<Rightarrow> \<exists>n \<in> set (tr_names tr).
                   (tr_is_flaky tr n \<and> py_in n detail) \<or> tr_match_error tr n detail) then True
      else if (case cx_affordances ctx of None \<Rightarrow> False | Some af \<Rightarrow> affordances_name_a_tool af detail)
      then True
      else py_in ''tool='' detail \<or> py_in ''flaky'' (py_lower detail))"

definition is_environment_failure :: "string \<Rightarrow> bool" where
  "is_environment_failure detail \<longleftrightarrow>
     py_startswith detail ''environment:'' \<or> py_in ''before first productive'' detail"

definition failed_ids :: "run_state \<Rightarrow> string list" where
  "failed_ids s = map r_criterion_id (filter (\<lambda>r. \<not> r_passed r) (rs_results s))"

definition unrejecting_proof :: "task_criterion \<Rightarrow> bool" where
  "unrejecting_proof c =
     (case c_sensitivity_proof c of None \<Rightarrow> False | Some p \<Rightarrow> \<not> pf_rejected p)"

definition has_invalid_sensitivity_proof :: "run_state \<Rightarrow> bool" where
  "has_invalid_sensitivity_proof s \<longleftrightarrow>
     (\<exists>c \<in> set (rs_criteria s). c_id c \<in> set (failed_ids s) \<and> is_required c \<and> unrejecting_proof c)"

definition invalid_proof_evidence :: "run_state \<Rightarrow> string list" where
  "invalid_proof_evidence s =
     map (\<lambda>c. c_id c @ '': sensitivity_proof.rejected=False (does not reject its own negative fixture)'')
       (filter (\<lambda>c. c_id c \<in> set (failed_ids s) \<and> unrejecting_proof c) (rs_criteria s))"

definition implicated :: "run_state \<Rightarrow> (skill_id \<times> int) option" where
  "implicated s = map_option (\<lambda>c. (cd_skill_id c, cd_version c)) (rs_chosen s)"

definition mk_verdict ::
    "failure_class \<Rightarrow> string list \<Rightarrow> (skill_id \<times> int) option \<Rightarrow> bool \<Rightarrow> bool \<Rightarrow> failure_verdict" where
  "mk_verdict c ev imp counts esc =
     \<lparr>fv_class = c, fv_evidence = ev, fv_implicated_skill = imp, fv_counts_against_trust = counts,
      fv_escalate_to_human = esc\<rparr>"

definition says_budget :: "failure_signal \<Rightarrow> bool" where
  "says_budget sg \<longleftrightarrow> sg_class_hint sg = Some FBudget \<or> py_in ''budget exhausted'' (sg_detail sg)"

definition verdict_of :: "run_state \<Rightarrow> 'a failure_ctx_scheme \<Rightarrow> failure_signal \<Rightarrow> failure_verdict" where
  "verdict_of s ctx sg =
     (if says_budget sg \<or> max_attempts (rs_budget s) \<le> sp_attempts (rs_spent s) then
        mk_verdict FBudget
          [if says_budget sg then sg_detail sg
           else ''spent.attempts='' @ str_of_int (sp_attempts (rs_spent s)) @
                '' >= budget.max_attempts='' @ str_of_int (max_attempts (rs_budget s))]
          None False False
      else if sg_source sg = JoinSource then mk_verdict FMerge [sg_detail sg] None False False
      else if sg_source sg = Solver \<and> is_tool_failure ctx (sg_detail sg) then
        mk_verdict FTool [sg_detail sg] None False False
      else if sg_source sg = Solver \<and> py_in ''claim timeout'' (py_lower (sg_detail sg)) then
        mk_verdict FMerge [sg_detail sg] None False False
      else if sg_source sg = Solver \<and> is_environment_failure (sg_detail sg) then
        mk_verdict FEnvironment [sg_detail sg] None False False
      else if sg_source sg = Solver then mk_verdict FTool [sg_detail sg] None False False
      else if has_invalid_sensitivity_proof s then
        mk_verdict FCriteria (invalid_proof_evidence s) None False True
      else if rs_chosen s \<noteq> None \<and> rs_results s = [] \<and> sg_source sg = Validator then
        mk_verdict FRetrieval [sg_detail sg] (implicated s) True False
      else
        mk_verdict FExecution (if failed_ids s \<noteq> [] then failed_ids s else [sg_detail sg])
          (implicated s) True False)"

definition classify_failure ::
    "run_state \<Rightarrow> 'a failure_ctx_scheme \<Rightarrow> (node_error, node_outcome) result" where
  "classify_failure s ctx =
     (case rs_failure_signal s of
        None \<Rightarrow> Inl MissingFailureSignal
      | Some sg \<Rightarrow>
          (let failure = verdict_of s ctx sg; s' = s\<lparr>rs_failure := Some failure\<rparr>
           in if \<not> is_consistent failure then Inl InconsistentVerdict
              else case legal_routes ClassifyFailure s' of
                     [r] \<Rightarrow> Inr (outcome s' (rt_predicate_name r) [])
                   | _ \<Rightarrow> Inl AmbiguousRoutes))"

subsection \<open>Evolve\<close>

fun strategy_str :: "strategy \<Rightarrow> string" where
  "strategy_str Apply = ''apply''"
| "strategy_str Adapt = ''adapt''"
| "strategy_str Scratch = ''scratch''"
| "strategy_str Portfolio = ''portfolio''"
| "strategy_str Decomposition = ''decomposition''"
| "strategy_str Abstain = ''abstain''"

fun class_str :: "failure_class \<Rightarrow> string" where
  "class_str FEnvironment = ''environment''"
| "class_str FTool = ''tool''"
| "class_str FRetrieval = ''retrieval''"
| "class_str FPlan = ''plan''"
| "class_str FExecution = ''execution''"
| "class_str FCriteria = ''criteria''"
| "class_str FBudget = ''budget''"
| "class_str FMerge = ''merge''"

definition current_approach :: "run_state \<Rightarrow> string" where
  "current_approach s =
     (case rs_chosen s of
        Some c \<Rightarrow> ''skill:'' @ candidate_label c
      | None \<Rightarrow> ''strategy:'' @
          (case rs_strategy s of None \<Rightarrow> ''scratch'' | Some st \<Rightarrow> strategy_str st))"

record repair_move =
  mv_approach :: string
  mv_strategy :: "strategy option"
  mv_drop_chosen :: bool

definition repair_move :: "failure_class \<Rightarrow> run_state \<Rightarrow> repair_move" where
  "repair_move fc s =
     (case fc of
        FRetrieval \<Rightarrow> \<lparr>mv_approach = ''scratch'', mv_strategy = Some Scratch, mv_drop_chosen = True\<rparr>
      | FPlan \<Rightarrow>
          (let next_strategy = (if rs_strategy s \<noteq> Some Scratch then Scratch else Adapt)
           in \<lparr>mv_approach = strategy_str next_strategy, mv_strategy = Some next_strategy,
               mv_drop_chosen = (rs_strategy s = Some Apply)\<rparr>)
      | _ \<Rightarrow> \<lparr>mv_approach = current_approach s, mv_strategy = rs_strategy s, mv_drop_chosen = False\<rparr>)"

definition suppress_repeated_approach ::
    "run_state \<Rightarrow> 'a failure_ctx_scheme \<Rightarrow> string \<Rightarrow> repair_move option" where
  "suppress_repeated_approach s ctx approach =
     (case cx_episodic ctx of
        None \<Rightarrow> None
      | Some ep \<Rightarrow>
          if \<exists>d \<in> set (ep_dead_ends ep (t_task_class (rs_task s)) 5).
               (case d of None \<Rightarrow> False | Some de \<Rightarrow> de_approach de = approach)
          then Some \<lparr>mv_approach = ''scratch'', mv_strategy = Some Scratch, mv_drop_chosen = True\<rparr>
          else None)"

definition failure_signature :: "run_state \<Rightarrow> 'a failure_ctx_scheme \<Rightarrow> failure_class \<Rightarrow> string" where
  "failure_signature s ctx fc =
     (let why = (case rs_failure_signal s of
           Some sg \<Rightarrow> sg_detail sg
         | None \<Rightarrow>
             (case rs_failure s of
                Some f \<Rightarrow> (case fv_evidence f of e # _ \<Rightarrow> e | [] \<Rightarrow> class_str fc)
              | None \<Rightarrow> class_str fc))
      in cx_signature ctx why fc)"

definition template_move :: "run_state \<Rightarrow> 'a failure_ctx_scheme \<Rightarrow> failure_class \<Rightarrow> repair_move \<Rightarrow> repair_move" where
  "template_move s ctx fc mv =
     (let signature = failure_signature s ctx fc
      in case cx_patch_templates ctx of
           None \<Rightarrow> mv
         | Some get \<Rightarrow>
             if signature = [] then mv
             else case get signature of
                    None \<Rightarrow> mv
                  | Some _ \<Rightarrow> \<lparr>mv_approach = mv_approach mv, mv_strategy = rs_strategy s,
                              mv_drop_chosen = False\<rparr>)"

definition evolve_move :: "run_state \<Rightarrow> 'a failure_ctx_scheme \<Rightarrow> repair_move" where
  "evolve_move s ctx =
     (let fc = (case rs_failure s of Some f \<Rightarrow> fv_class f | None \<Rightarrow> FExecution);
          mv = repair_move fc s;
          mv' = (case suppress_repeated_approach s ctx (mv_approach mv) of None \<Rightarrow> mv | Some m \<Rightarrow> m)
      in template_move s ctx fc mv')"

definition evolve :: "run_state \<Rightarrow> 'a failure_ctx_scheme \<Rightarrow> (node_error, node_outcome) result" where
  "evolve s ctx =
     (case rs_workspace_snapshots s of
        [] \<Rightarrow> Inl NoWorkspaceSnapshot
      | w # ws \<Rightarrow>
          (let mv = evolve_move s ctx;
               s1 = s\<lparr>rs_workspace_snapshots := w\<lparr>ws_restored := True\<rparr> # ws,
                      rs_failure_signal := None, rs_transcript_ref := None\<rparr>;
               s2 = (case mv_strategy mv of None \<Rightarrow> s1 | Some st \<Rightarrow> s1\<lparr>rs_strategy := Some st\<rparr>);
               s3 = (if mv_drop_chosen mv
                     then s2\<lparr>rs_chosen := None,
                            rs_bundle := (rs_bundle s)\<lparr>mb_skills :=
                              filter (\<lambda>c. Some c \<noteq> rs_chosen s) (mb_skills (rs_bundle s))\<rparr>\<rparr>
                     else s2)
           in Inr (outcome s3 Always [WorkspaceRestore (ws_snapshot_ref w)])))"

subsection \<open>Record dead end\<close>

definition session_of :: "run_state \<Rightarrow> 'a base_ctx_scheme \<Rightarrow> string" where
  "session_of s ctx = (case t_submitted_by (rs_task s) of Some u \<Rightarrow> if u = [] then cx_run_id ctx else u
                                                       | None \<Rightarrow> cx_run_id ctx)"

definition case_of :: "run_state \<Rightarrow> 'a base_ctx_scheme \<Rightarrow> case_outcome \<Rightarrow> failure_class option \<Rightarrow> case_record" where
  "case_of s ctx oc fc =
     \<lparr>cr_run_id = cx_run_id ctx, cr_attempt_no = rs_attempt_no s, cr_outcome = oc,
      cr_failure_class = fc, cr_approach = current_approach s, cr_skill = implicated s,
      cr_session_id = session_of s ctx\<rparr>"

definition record_dead_end :: "run_state \<Rightarrow> 'a failure_ctx_scheme \<Rightarrow> node_outcome" where
  "record_dead_end s ctx =
     (if t_is_eval_fixture (rs_task s) then outcome s Always []
      else if rs_arm s \<in> {Control, Shadow} then outcome s Always []
      else if cx_episodic ctx \<noteq> None then
        outcome s Always [EpisodicWrite (case_of s ctx CaseFailed (map_option fv_class (rs_failure s)))]
      else outcome s Always [])"

subsection \<open>What classification guarantees\<close>

lemma mk_verdict_sel [simp]:
  "fv_class (mk_verdict c ev imp k e) = c" "fv_counts_against_trust (mk_verdict c ev imp k e) = k"
  "fv_escalate_to_human (mk_verdict c ev imp k e) = e"
  by (simp_all add: mk_verdict_def)

lemma verdict_of_classes:
  "fv_class (verdict_of s ctx sg) \<in> {FBudget, FMerge, FTool, FEnvironment, FCriteria, FRetrieval, FExecution}"
  by (simp add: verdict_of_def)

lemma verdict_of_consistent_iff:
  "is_consistent (verdict_of s ctx sg) \<longleftrightarrow> fv_class (verdict_of s ctx sg) \<noteq> FCriteria"
  by (simp add: verdict_of_def is_consistent_def CLASSES_EXCLUDED_FROM_TRUST_def)

lemma verdict_of_criteria_iff:
  "fv_class (verdict_of s ctx sg) = FCriteria \<longleftrightarrow>
     \<not> says_budget sg \<and> sp_attempts (rs_spent s) < max_attempts (rs_budget s) \<and>
     sg_source sg \<in> {Validator, Orchestrator} \<and> has_invalid_sensitivity_proof s"
proof -
  have "sg_source sg \<in> {Validator, Orchestrator} \<longleftrightarrow> sg_source sg \<noteq> JoinSource \<and> sg_source sg \<noteq> Solver"
    by (cases "sg_source sg") auto
  then show ?thesis by (simp add: verdict_of_def not_le)
qed

lemma classify_routes:
  "(\<exists>r. legal_routes ClassifyFailure s = [r] \<and>
      rt_predicate_name r = (if budget_remains_with_progress s then Retry else Otherwise))"
  by (simp add: legal_routes_def node_simps)

lemma classify_failure_if:
  "classify_failure s ctx =
     (case rs_failure_signal s of
        None \<Rightarrow> Inl MissingFailureSignal
      | Some sg \<Rightarrow>
          (let s' = s\<lparr>rs_failure := Some (verdict_of s ctx sg)\<rparr>
           in if fv_class (verdict_of s ctx sg) = FCriteria then Inl InconsistentVerdict
              else Inr (outcome s' (if budget_remains_with_progress s' then Retry else Otherwise) [])))"
proof (cases "rs_failure_signal s")
  case None
  then show ?thesis by (simp add: classify_failure_def)
next
  case (Some sg)
  let ?s' = "s\<lparr>rs_failure := Some (verdict_of s ctx sg)\<rparr>"
  obtain r where "legal_routes ClassifyFailure ?s' = [r]"
      "rt_predicate_name r = (if budget_remains_with_progress ?s' then Retry else Otherwise)"
    using classify_routes[of ?s'] by blast
  then show ?thesis
    using Some by (simp add: classify_failure_def Let_def verdict_of_consistent_iff)
qed

text \<open>
  Every verdict that classification returns is consistent with the trust table, names one of six
  classes (never \<open>plan\<close> and never \<open>criteria\<close>), and comes with the one legal route out of the node;
  retry is chosen exactly when attempts remain, the class is not budget and the last two result
  vectors differ.\<close>

theorem classify_failure_sound:
  assumes "classify_failure s ctx = Inr oc"
  shows "\<exists>f. rs_failure (oc_state oc) = Some f \<and> is_consistent f \<and>
             fv_class f \<in> {FBudget, FMerge, FTool, FEnvironment, FRetrieval, FExecution} \<and>
             (\<exists>route. oc_route oc = Some route \<and> legal_route ClassifyFailure route (oc_state oc)) \<and>
             (oc_route oc = Some Retry \<longleftrightarrow>
                fv_class f \<noteq> FBudget \<and> sp_attempts (rs_spent s) < max_attempts (rs_budget s) \<and>
                \<not> last_two_equal (rs_results_history s))"
proof -
  obtain sg where sg: "rs_failure_signal s = Some sg"
    using assms by (cases "rs_failure_signal s") (simp_all add: classify_failure_if)
  define f where "f = verdict_of s ctx sg"
  have fc: "fv_class f \<noteq> FCriteria"
    and st: "oc_state oc = s\<lparr>rs_failure := Some f\<rparr>"
    and rt: "oc_route oc = Some (if budget_remains_with_progress (s\<lparr>rs_failure := Some f\<rparr>) then Retry else Otherwise)"
    using assms by (auto simp: classify_failure_if sg Let_def f_def split: if_splits)
  have "is_consistent f" using fc by (simp add: f_def verdict_of_consistent_iff)
  moreover have "fv_class f \<in> {FBudget, FMerge, FTool, FEnvironment, FRetrieval, FExecution}"
    using verdict_of_classes[of s ctx sg] fc by (auto simp: f_def)
  moreover have "\<exists>route. oc_route oc = Some route \<and> legal_route ClassifyFailure route (oc_state oc)"
    by (simp add: rt st node_simps)
  moreover have "oc_route oc = Some Retry \<longleftrightarrow>
      fv_class f \<noteq> FBudget \<and> sp_attempts (rs_spent s) < max_attempts (rs_budget s) \<and>
      \<not> last_two_equal (rs_results_history s)"
    using fc by (simp add: rt budget_remains_with_progress_def not_le)
  ultimately show ?thesis using st by simp
qed

text \<open>
  The criteria verdict cannot be returned: whenever a validator or orchestrator signal meets a failed
  required criterion whose sensitivity proof does not reject, the verdict is built with
  \<open>counts_against_trust=False\<close> although the trust table excludes only environment, tool, budget and
  merge, so the node's own consistency assertion fails.\<close>

theorem criteria_verdict_trips_the_assertion:
  assumes "rs_failure_signal s = Some sg"
  shows "classify_failure s ctx = Inl InconsistentVerdict \<longleftrightarrow>
           \<not> says_budget sg \<and> sp_attempts (rs_spent s) < max_attempts (rs_budget s) \<and>
           sg_source sg \<in> {Validator, Orchestrator} \<and> has_invalid_sensitivity_proof s"
  using assms verdict_of_criteria_iff[of s ctx sg] by (simp add: classify_failure_if Let_def)

definition vacuous_proof :: sensitivity_proof where
  "vacuous_proof = \<lparr>pf_criterion_id = ''tests'', pf_negative_fixture = ''empty'', pf_rejected = False,
     pf_checked_at = 0, pf_checked_against = None, pf_evidence_hash = None\<rparr>"

definition vacuous_state :: run_state where
  "vacuous_state = example_state
     \<lparr>rs_criteria := [example_criterion\<lparr>c_sensitivity_proof := Some vacuous_proof\<rparr>],
      rs_results := [plain_result ''tests'' Command False 1],
      rs_failure_signal := Some validator_signal\<rparr>"

definition example_fctx :: failure_ctx where
  "example_fctx = join_ctx.extend example_jctx
     \<lparr>cx_tools = None, cx_affordances = None, cx_episodic = None, cx_patch_templates = None,
      cx_signature = (\<lambda>w c. w)\<rparr>"

lemma validator_not_budget: "\<not> says_budget validator_signal"
  by (simp add: says_budget_def validator_signal_def)

theorem criteria_verdict_trips_the_assertion_witness:
  "classify_failure vacuous_state example_fctx = Inl InconsistentVerdict"
proof -
  have sg: "rs_failure_signal vacuous_state = Some validator_signal"
    by (simp add: vacuous_state_def)
  have "has_invalid_sensitivity_proof vacuous_state"
    by (simp add: has_invalid_sensitivity_proof_def vacuous_state_def failed_ids_def is_required_def
        unrejecting_proof_def vacuous_proof_def example_criterion_def)
  moreover have "sp_attempts (rs_spent vacuous_state) < max_attempts (rs_budget vacuous_state)"
    by (simp add: vacuous_state_def example_state_def initial_state_def no_spend_def default_budget_def)
  ultimately show ?thesis
    using criteria_verdict_trips_the_assertion[OF sg, of example_fctx] validator_not_budget
    by (simp add: validator_signal_def)
qed

theorem classify_failure_sound_witness:
  "\<exists>oc. classify_failure (example_state\<lparr>rs_failure_signal := Some validator_signal\<rparr>) example_fctx = Inr oc \<and>
        oc_route oc = Some Retry"
proof -
  let ?s = "example_state\<lparr>rs_failure_signal := Some validator_signal\<rparr>"
  have h: "rs_results ?s = []" "rs_chosen ?s = None" "sp_attempts (rs_spent ?s) = 0"
    "max_attempts (rs_budget ?s) = 4" "rs_results_history ?s = []"
    by (simp_all add: example_state_def initial_state_def no_spend_def default_budget_def)
  have v: "fv_class (verdict_of ?s example_fctx validator_signal) = FExecution"
    using h validator_not_budget
    by (simp add: verdict_of_def has_invalid_sensitivity_proof_def failed_ids_def validator_signal_def)
  then have "\<exists>oc. classify_failure ?s example_fctx = Inr oc"
    by (simp add: classify_failure_if Let_def)
  then obtain oc where oc: "classify_failure ?s example_fctx = Inr oc" ..
  have f: "rs_failure (oc_state oc) = Some (verdict_of ?s example_fctx validator_signal)"
    using oc v by (auto simp: classify_failure_if Let_def)
  from classify_failure_sound[OF oc] show ?thesis
    using oc f v h by (auto simp: last_two_equal_def)
qed

text \<open>Scoring never leaves such a state: an unproven required criterion is recorded as passed.\<close>

lemma unrejecting_not_proven:
  "unrejecting_proof c \<Longrightarrow> \<not> is_preregistered_and_proven digest c"
  by (auto simp: unrejecting_proof_def is_preregistered_and_proven_def sensitivity_proof_binds_def
      split: option.splits)

subsection \<open>Evolve and record\_dead\_end\<close>

lemma evolve_InrE:
  assumes "evolve s ctx = Inr oc"
  obtains w ws where "rs_workspace_snapshots s = w # ws"
    "oc_route oc = Some Always" "oc_effects oc = [WorkspaceRestore (ws_snapshot_ref w)]"
    "rs_failure_signal (oc_state oc) = None" "rs_transcript_ref (oc_state oc) = None"
    "same_frame s (oc_state oc)" "rs_spent (oc_state oc) = rs_spent s"
    "rs_branches (oc_state oc) = rs_branches s" "rs_criteria (oc_state oc) = rs_criteria s"
    "rs_chosen (oc_state oc) = (if mv_drop_chosen (evolve_move s ctx) then None else rs_chosen s)"
    "rs_strategy (oc_state oc) =
       (case mv_strategy (evolve_move s ctx) of None \<Rightarrow> rs_strategy s | Some st \<Rightarrow> Some st)"
  using assms
  by (cases "rs_workspace_snapshots s")
     (auto simp: evolve_def Let_def same_frame_def split: option.splits)

text \<open>The approach the repair table proposes for the classified failure.\<close>

definition proposed_approach :: "run_state \<Rightarrow> string" where
  "proposed_approach s =
     mv_approach (repair_move (case rs_failure s of Some f \<Rightarrow> fv_class f | None \<Rightarrow> FExecution) s)"

definition known_dead_end :: "run_state \<Rightarrow> 'a failure_ctx_scheme \<Rightarrow> bool" where
  "known_dead_end s ctx \<longleftrightarrow>
     (\<exists>ep de. cx_episodic ctx = Some ep \<and>
        Some de \<in> set (ep_dead_ends ep (t_task_class (rs_task s)) 5) \<and> de_approach de = proposed_approach s)"

lemma evolve_move_dead_end:
  assumes "known_dead_end s ctx" "cx_patch_templates ctx = None"
  shows "mv_strategy (evolve_move s ctx) = Some Scratch \<and> mv_drop_chosen (evolve_move s ctx)"
proof -
  have "suppress_repeated_approach s ctx (proposed_approach s) =
      Some \<lparr>mv_approach = ''scratch'', mv_strategy = Some Scratch, mv_drop_chosen = True\<rparr>"
    using assms(1)
    by (force simp: known_dead_end_def suppress_repeated_approach_def split: option.splits)
  then show ?thesis
    using assms(2) by (simp add: evolve_move_def template_move_def proposed_approach_def Let_def)
qed

text \<open>
  Evolve prepares a clean retry: it returns exactly when a workspace snapshot exists, restores the
  first one, clears the failure signal and the transcript, and leaves the budget, the spend, the
  locked criteria and the branches alone; and when episodic memory already holds the proposed
  approach as a dead end of this task class, the retry is from scratch without the chosen skill.\<close>

theorem evolve_prepares_clean_retry:
  assumes "evolve s ctx = Inr oc"
  shows "(\<exists>w ws. rs_workspace_snapshots s = w # ws \<and> oc_effects oc = [WorkspaceRestore (ws_snapshot_ref w)]) \<and>
         legal_route Evolve Always (oc_state oc) \<and> oc_route oc = Some Always \<and>
         rs_failure_signal (oc_state oc) = None \<and> rs_transcript_ref (oc_state oc) = None \<and>
         rs_budget (oc_state oc) = rs_budget s \<and> rs_spent (oc_state oc) = rs_spent s \<and>
         rs_criteria (oc_state oc) = rs_criteria s \<and> rs_branches (oc_state oc) = rs_branches s \<and>
         (known_dead_end s ctx \<and> cx_patch_templates ctx = None \<longrightarrow>
            rs_strategy (oc_state oc) = Some Scratch \<and> rs_chosen (oc_state oc) = None)"
  using assms
  by (rule evolve_InrE) (auto simp: same_frame_def node_simps dest: evolve_move_dead_end)

definition dead_end_state :: run_state where
  "dead_end_state = example_state\<lparr>rs_workspace_snapshots :=
     [\<lparr>ws_attempt_no = 0, ws_snapshot_ref = ''snap'', ws_restored = False\<rparr>]\<rparr>"

definition dead_end_ctx :: failure_ctx where
  "dead_end_ctx = example_fctx\<lparr>cx_patch_templates := None, cx_episodic := Some \<lparr>ep_dead_ends =
     (\<lambda>c n. [Some \<lparr>de_approach = ''strategy:scratch'', de_why_failed = ''same error''\<rparr>])\<rparr>\<rparr>"

theorem evolve_prepares_clean_retry_witness:
  "\<exists>oc. evolve dead_end_state dead_end_ctx = Inr oc \<and> oc_effects oc = [WorkspaceRestore ''snap''] \<and>
        rs_strategy (oc_state oc) = Some Scratch"
proof -
  have "\<exists>oc. evolve dead_end_state dead_end_ctx = Inr oc" by (simp add: evolve_def dead_end_state_def Let_def)
  then obtain oc where oc: "evolve dead_end_state dead_end_ctx = Inr oc" ..
  have "known_dead_end dead_end_state dead_end_ctx \<and> cx_patch_templates dead_end_ctx = None"
    by (simp add: known_dead_end_def dead_end_ctx_def proposed_approach_def repair_move_def dead_end_state_def
        current_approach_def example_state_def initial_state_def)
  with evolve_prepares_clean_retry[OF oc] oc show ?thesis by (auto simp: dead_end_state_def)
qed

lemma record_dead_end_frame: "oc_state (record_dead_end s ctx) = s"
  by (simp add: record_dead_end_def)

lemma record_dead_end_route: "oc_route (record_dead_end s ctx) = Some Always"
  by (simp add: record_dead_end_def)

lemma classify_failure_frame:
  assumes "classify_failure s ctx = Inr oc"
  shows "same_frame s (oc_state oc) \<and> rs_spent (oc_state oc) = rs_spent s \<and>
         rs_branches (oc_state oc) = rs_branches s \<and> rs_criteria (oc_state oc) = rs_criteria s"
  using assms by (auto simp: classify_failure_if Let_def same_frame_def split: option.splits if_splits)

end
