(* ===== verification/Node_Solve.thy ===== *)
theory Node_Solve
  imports Node_Failure
begin

section \<open>Solve\<close>

text \<open>
  \<open>nodes/solve.py\<close> and its five paths: branches (\<open>solve_branches.py\<close>), the applicator
  (\<open>solve_apply.py\<close>), the observe-act loop (\<open>solve_scratch.py\<close>) and the two scripted paths
  (\<open>solve_script.py\<close>). What the sandbox, the model and the applicator answer is given by functions in
  the context; an operation run through \<open>op_once\<close> has the answer of its first execution. The meter's
  clock is read through \<open>cx_clock\<close>: reading 0 when it opens, reading \<open>k + 1\<close> at operation \<open>k\<close>.
\<close>

record exec_result =
  er_returncode :: int
  er_flaky :: bool
  er_usage :: usage_delta
  er_observed :: bool

datatype scratch_kind = ScratchEmpty | ScratchRefused string | ScratchRan int string string

record scratch_step =
  sc_command :: string
  sc_tokens :: int
  sc_cost :: real
  sc_kind :: scratch_kind
  sc_usage :: usage_delta
  sc_observed :: bool

record apply_summary =
  as_ok :: bool
  as_transcript_ref :: "string option"
  as_error :: "string option"
  as_merge_timeout :: bool
  as_waves :: "step_wave list"
  as_conflicts :: "resource_conflict list"
  as_usage :: usage_delta
  as_observed :: bool

record solve_ctx = failure_ctx +
  cx_model :: bool
  cx_transcripts :: bool
  cx_applicator :: bool
  cx_exec :: "nat \<Rightarrow> string \<Rightarrow> exec_result"
  cx_branch_exec :: "string \<Rightarrow> nat \<Rightarrow> string \<Rightarrow> int"
  cx_branch_elapsed :: "string \<Rightarrow> real"
  cx_transcript_hash :: string
  cx_scratch_setting :: int
  cx_scratch_step :: "nat \<Rightarrow> string list \<Rightarrow> (string, scratch_step) result"
  cx_apply :: "skill_version \<Rightarrow> (string \<times> string) list \<Rightarrow> apply_summary"
  cx_skill_script :: "skill_version \<Rightarrow> (string \<times> string) list \<Rightarrow> string list"
  cx_propose :: "string option \<Rightarrow> string"

definition affordance_effects :: "'a solve_ctx_scheme \<Rightarrow> bool \<Rightarrow> effect list" where
  "affordance_effects ctx observed = (if cx_affordances ctx \<noteq> None \<and> observed then [AffordanceRecord] else [])"

definition solver_signal :: "string \<Rightarrow> failure_class option \<Rightarrow> failure_signal" where
  "solver_signal detail hint = \<lparr>sg_source = Solver, sg_detail = detail, sg_class_hint = hint\<rparr>"

definition attempt_ref :: "'a base_ctx_scheme \<Rightarrow> int \<Rightarrow> string" where
  "attempt_ref ctx n = cx_run_id ctx @ ''/attempt-'' @ str_of_int n"

definition step_detail :: "nat \<Rightarrow> int \<Rightarrow> string \<Rightarrow> string" where
  "step_detail k rc command = ''step '' @ str_of_nat k @ '' exited '' @ str_of_int rc @ '': '' @ command"

definition exhausted_signal :: "dimension \<Rightarrow> failure_signal" where
  "exhausted_signal d =
     solver_signal (''budget exhausted before tool dispatch: '' @ dim_str d) (Some FBudget)"

subsection \<open>Scripted paths\<close>

text \<open>\<open>fill_skill_params\<close>: bound parameters first, then declared defaults for the missing names.\<close>

fun fill_defaults :: "parameter list \<Rightarrow> (string \<times> string) list \<Rightarrow> (string \<times> string) list" where
  "fill_defaults [] params = params"
| "fill_defaults (p # ps) params =
     fill_defaults ps
       (case p_default p of
          Some d \<Rightarrow> if map_of params (p_name p) = None then params @ [(p_name p, d)] else params
        | None \<Rightarrow> params)"

definition fill_skill_params :: "skill_version \<Rightarrow> (string \<times> string) list \<Rightarrow> (string \<times> string) list" where
  "fill_skill_params v bound = fill_defaults (sv_parameters v) bound"

datatype script_error = ModelRequired | VersionMissing

definition resolve_script :: "run_state \<Rightarrow> 'a solve_ctx_scheme \<Rightarrow> (script_error, string list) result" where
  "resolve_script s ctx =
     (case cx_script ctx of
        Some xs \<Rightarrow> Inr xs
      | None \<Rightarrow>
          (case (if strategy_in [Apply, Adapt] s then rs_chosen s else None, cx_store ctx) of
             (Some c, Some get_version) \<Rightarrow>
               (case get_version (cd_skill_id c) (cd_version c) of
                  None \<Rightarrow> Inl VersionMissing
                | Some v \<Rightarrow> Inr (cx_skill_script ctx v (fill_skill_params v (cd_bound_parameters c))))
           | _ \<Rightarrow>
               if rs_strategy s = Some Scratch \<and> cx_model ctx then Inr [cx_propose ctx (t_request (rs_task s))]
               else if rs_strategy s = Some Scratch \<and> (cx_tools ctx \<noteq> None \<or> cx_transcripts ctx)
               then Inl ModelRequired
               else Inr [''true'']))"

fun script_via_tools_loop ::
    "run_state \<Rightarrow> 'a solve_ctx_scheme \<Rightarrow> int \<Rightarrow> attempt_meter \<Rightarrow> nat \<Rightarrow> string list \<Rightarrow> effect list \<Rightarrow> node_outcome" where
  "script_via_tools_loop s ctx attempt_no m k [] es =
     completed s m (cx_clock ctx (Suc k)) attempt_no (cx_transcript_hash ctx) True 1 (\<lambda>x. x) es"
| "script_via_tools_loop s ctx attempt_no m k (command # rest) es =
     (case preflight m (cx_clock ctx (Suc k)) 0 1 0 0 of
        Some d \<Rightarrow>
          failed s m (cx_clock ctx (Suc k)) (exhausted_signal d) attempt_no 1
            (\<lambda>x. x\<lparr>rs_transcript_ref := Some (cx_transcript_hash ctx)\<rparr>) es
      | None \<Rightarrow>
          (let r = cx_exec ctx k command;
               m' = charge_delta m (er_usage r);
               es' = es @ affordance_effects ctx (er_observed r)
           in if er_returncode r \<noteq> 0 then
                failed s m' (cx_clock ctx (Suc k))
                  (solver_signal
                     ((if er_flaky r then ''flaky tool=shell: '' else []) @
                      step_detail k (er_returncode r) command) None)
                  attempt_no 1 (\<lambda>x. x\<lparr>rs_transcript_ref := Some (cx_transcript_hash ctx)\<rparr>) es'
              else script_via_tools_loop s ctx attempt_no m' (Suc k) rest es'))"

definition solve_script_via_tools ::
    "run_state \<Rightarrow> 'a solve_ctx_scheme \<Rightarrow> int \<Rightarrow> string list \<Rightarrow> node_outcome" where
  "solve_script_via_tools s ctx attempt_no script =
     script_via_tools_loop s ctx attempt_no (open_meter s None (cx_clock ctx 0)) 0 script []"

fun legacy_script_loop ::
    "run_state \<Rightarrow> 'a solve_ctx_scheme \<Rightarrow> int \<Rightarrow> attempt_meter \<Rightarrow> nat \<Rightarrow> string list \<Rightarrow> node_outcome" where
  "legacy_script_loop s ctx attempt_no m k [] =
     completed s m (cx_clock ctx (Suc k)) attempt_no (attempt_ref ctx attempt_no) True 1 (\<lambda>x. x) []"
| "legacy_script_loop s ctx attempt_no m k (command # rest) =
     (let rc = er_returncode (cx_exec ctx k command); m' = charge m 1 0 0
      in if rc \<noteq> 0 then
           failed s m' (cx_clock ctx (Suc k)) (solver_signal (step_detail k rc command) None)
             attempt_no 1 (\<lambda>x. x) []
         else legacy_script_loop s ctx attempt_no m' (Suc k) rest)"

definition solve_legacy_script ::
    "run_state \<Rightarrow> 'a solve_ctx_scheme \<Rightarrow> int \<Rightarrow> string list \<Rightarrow> node_outcome" where
  "solve_legacy_script s ctx attempt_no script =
     legacy_script_loop s ctx attempt_no (open_meter s None (cx_clock ctx 0)) 0 script"

subsection \<open>The observe-act loop\<close>

definition scratch_max_steps :: "int \<Rightarrow> int" where
  "scratch_max_steps setting = max 1 (min 20 setting)"

definition history_entry :: "string \<Rightarrow> int \<Rightarrow> string \<Rightarrow> string \<Rightarrow> string" where
  "history_entry command rc out err =
     ''$ '' @ command @ [CHR 0x0A] @ ''exit='' @ str_of_int rc @ [CHR 0x0A] @ ''stdout:'' @ [CHR 0x0A] @
     last_n 1500 out @ [CHR 0x0A] @ ''stderr:'' @ [CHR 0x0A] @ last_n 800 err"

text \<open>\<open>n\<close> steps remain, \<open>k\<close> is the current step; the history is what the next prompt may quote.\<close>

fun scratch_loop ::
    "run_state \<Rightarrow> 'a solve_ctx_scheme \<Rightarrow> int \<Rightarrow> nat \<Rightarrow> nat \<Rightarrow> attempt_meter \<Rightarrow> string list \<Rightarrow>
     string option \<Rightarrow> effect list \<Rightarrow> node_outcome" where
  "scratch_loop s ctx attempt_no 0 k m history last_error es =
     failed s m (cx_clock ctx (Suc k))
       (solver_signal
          (case last_error of
             Some e \<Rightarrow> e
           | None \<Rightarrow> ''scratch observe-act exhausted '' @
                     str_of_int (scratch_max_steps (cx_scratch_setting ctx)) @ '' steps'') None)
       attempt_no 1 (\<lambda>x. x\<lparr>rs_transcript_ref := Some (cx_transcript_hash ctx)\<rparr>) es"
| "scratch_loop s ctx attempt_no (Suc n) k m history last_error es =
     (case preflight m (cx_clock ctx (Suc k)) 0 1 0 0 of
        Some d \<Rightarrow>
          failed s m (cx_clock ctx (Suc k)) (exhausted_signal d) attempt_no 1
            (\<lambda>x. x\<lparr>rs_transcript_ref := Some (cx_transcript_hash ctx)\<rparr>) es
      | None \<Rightarrow>
          (case cx_scratch_step ctx k (last_n 6 history) of
             Inl e \<Rightarrow>
               failed s m (cx_clock ctx (Suc k))
                 (solver_signal (''environment: model error during scratch: '' @ e) (Some FEnvironment))
                 attempt_no 1 (\<lambda>x. x\<lparr>rs_transcript_ref := Some (cx_transcript_hash ctx)\<rparr>) es
           | Inr st \<Rightarrow>
               (let m1 = charge m 0 (sc_tokens st) (sc_cost st)
                in case sc_kind st of
                     ScratchEmpty \<Rightarrow>
                       scratch_loop s ctx attempt_no n (Suc k) m1 history (Some ''empty command from model'') es
                   | ScratchRefused why \<Rightarrow>
                       scratch_loop s ctx attempt_no n (Suc k) m1
                         (history @ [''$ '' @ sc_command st @ [CHR 0x0A] @ ''[refused] '' @ why]) (Some why) es
                   | ScratchRan rc out err \<Rightarrow>
                       (let m2 = charge_delta m1 (sc_usage st);
                            es' = es @ affordance_effects ctx (sc_observed st)
                        in if rc \<noteq> 0 then
                             scratch_loop s ctx attempt_no n (Suc k) m2
                               (history @ [history_entry (sc_command st) rc out err])
                               (Some (step_detail k rc (sc_command st))) es'
                           else
                             completed s m2 (cx_clock ctx (Suc k)) attempt_no (cx_transcript_hash ctx)
                               True 1 (\<lambda>x. x) es'))))"

definition solve_scratch_observe_act :: "run_state \<Rightarrow> 'a solve_ctx_scheme \<Rightarrow> int \<Rightarrow> node_outcome" where
  "solve_scratch_observe_act s ctx attempt_no =
     scratch_loop s ctx attempt_no (nat (scratch_max_steps (cx_scratch_setting ctx))) 0
       (open_meter s None (cx_clock ctx 0)) [] None []"

subsection \<open>The applicator path\<close>

definition solve_via_applicator ::
    "run_state \<Rightarrow> 'a solve_ctx_scheme \<Rightarrow> int \<Rightarrow> candidate_ref \<Rightarrow>
     (skill_id \<Rightarrow> int \<Rightarrow> skill_version option) \<Rightarrow> (node_error, node_outcome) result" where
  "solve_via_applicator s ctx attempt_no chosen get_version =
     (case get_version (cd_skill_id chosen) (cd_version chosen) of
        None \<Rightarrow> Inl SkillNotFound
      | Some v \<Rightarrow>
          (let summary = cx_apply ctx v (fill_skill_params v (cd_bound_parameters chosen));
               m = charge_delta (open_meter s None (cx_clock ctx 0)) (as_usage summary);
               es = affordance_effects ctx (as_observed summary)
           in if \<not> as_ok summary then
                (let detail0 = (case as_error summary of
                        Some e \<Rightarrow> if e = [] then ''skill application failed'' else e
                      | None \<Rightarrow> ''skill application failed'');
                     detail = (if as_merge_timeout summary then ''claim timeout: '' @ detail0 else detail0)
                 in Inr (failed s m (cx_clock ctx 1) (solver_signal detail None) attempt_no 1
                      (\<lambda>x. x\<lparr>rs_transcript_ref := as_transcript_ref summary,
                             rs_step_waves := rs_step_waves s @ as_waves summary,
                             rs_resource_conflicts := rs_resource_conflicts s @ as_conflicts summary\<rparr>) es))
              else
                Inr (completed s m (cx_clock ctx 1) attempt_no
                  (case as_transcript_ref summary of
                     Some r \<Rightarrow> if r = [] then attempt_ref ctx attempt_no else r
                   | None \<Rightarrow> attempt_ref ctx attempt_no)
                  True 1 (\<lambda>x. x\<lparr>rs_step_waves := rs_step_waves s @ as_waves summary\<rparr>) es)))"

subsection \<open>Branches\<close>

definition branch_cost :: "nat \<Rightarrow> real" where
  "branch_cost k = (1/100) * (1 + real k)"

definition projected_spend :: "branch_state \<Rightarrow> nat \<Rightarrow> spend" where
  "projected_spend b script_len =
     \<lparr>sp_attempts = sp_attempts (b_spent b) + 1,
      sp_tool_calls = sp_tool_calls (b_spent b) + int script_len,
      sp_tokens = sp_tokens (b_spent b), sp_wall_clock_s = sp_wall_clock_s (b_spent b),
      sp_cost_usd = sp_cost_usd (b_spent b) + branch_cost script_len, sp_versions_written = 0\<rparr>"

text \<open>The command loop of one branch: how many ran, and whether all exited zero.\<close>

fun run_branch_commands :: "(nat \<Rightarrow> string \<Rightarrow> int) \<Rightarrow> nat \<Rightarrow> string list \<Rightarrow> nat \<times> bool" where
  "run_branch_commands exec k [] = (k, True)"
| "run_branch_commands exec k (c # cs) =
     (if exec k c \<noteq> 0 then (Suc k, False) else run_branch_commands exec (Suc k) cs)"

definition branch_workdir :: "'a base_ctx_scheme \<Rightarrow> branch_state \<Rightarrow> string" where
  "branch_workdir ctx b = cx_workdir ctx @ ''/'' @ b_branch_id b"

definition solve_branch ::
    "run_state \<Rightarrow> 'a solve_ctx_scheme \<Rightarrow> branch_state \<Rightarrow> (node_error, branch_state \<times> spend) result" where
  "solve_branch s ctx b =
     (let script = script_or_true ctx; work = branch_workdir ctx b;
          projected = projected_spend b (length script)
      in case budget_excess (b_budget b) projected no_reservation no_reservation of
           Some _ \<Rightarrow>
             Inr (b\<lparr>b_status := TimedOut,
                    b_results := [plain_result ''branch-budget'' Command False 1],
                    b_workspace_ref := work, b_spent := projected, b_reserved := no_reservation\<rparr>, projected)
         | None \<Rightarrow>
             (let (executed, ran_ok) = run_branch_commands (cx_branch_exec ctx (b_branch_id b)) 0 script;
                  scored = (if b_kind b = DecompositionBranch
                    then score_owned_criteria (filter (\<lambda>c. c_id c \<in> set (b_owned_criteria b)) (rs_criteria s))
                           (cx_env ctx work)
                    else Inr [plain_result ''branch-ok'' Command ran_ok 1])
              in case scored of
                   Inl e \<Rightarrow> Inl e
                 | Inr results \<Rightarrow>
                     (let ok = (if b_kind b = DecompositionBranch
                            then ran_ok \<and> (\<forall>r \<in> set results. 1 \<le> r_weight r \<longrightarrow> r_passed r) else ran_ok);
                          cost = branch_cost executed;
                          branch_spent = \<lparr>sp_attempts = 1, sp_tool_calls = int executed, sp_tokens = 0,
                            sp_wall_clock_s = cx_branch_elapsed ctx (b_branch_id b), sp_cost_usd = cost,
                            sp_versions_written = 0\<rparr>
                      in Inr (b\<lparr>b_status := (if ok then Succeeded else Failed), b_results := results,
                                b_cost_usd := Some cost, b_workspace_ref := work, b_spent := branch_spent,
                                b_reserved := no_reservation\<rparr>, branch_spent))))"

fun solve_branches_loop ::
    "run_state \<Rightarrow> 'a solve_ctx_scheme \<Rightarrow> attempt_meter \<Rightarrow> branch_state list \<Rightarrow>
     (node_error, branch_state list \<times> attempt_meter \<times> int) result" where
  "solve_branches_loop s ctx m [] = Inr ([], m, 0)"
| "solve_branches_loop s ctx m (b # bs) =
     (if b_status b \<notin> {Dispatched, Running} then
        (case solve_branches_loop s ctx m bs of
           Inl e \<Rightarrow> Inl e
         | Inr (us, m', k) \<Rightarrow> Inr (b # us, m', k))
      else
        (case solve_branch s ctx b of
           Inl e \<Rightarrow> Inl e
         | Inr (b', sp) \<Rightarrow>
             (case solve_branches_loop s ctx
                     (charge m (sp_tool_calls sp) (sp_tokens sp) (sp_cost_usd sp)) bs of
                Inl e \<Rightarrow> Inl e
              | Inr (us, m', k) \<Rightarrow> Inr (b' # us, m', sp_attempts sp + k))))"

definition solve_branches :: "run_state \<Rightarrow> 'a solve_ctx_scheme \<Rightarrow> int \<Rightarrow> (node_error, node_outcome) result" where
  "solve_branches s ctx attempt_no =
     (case solve_branches_loop s ctx (open_meter s (Some no_reservation) (cx_clock ctx 0)) (rs_branches s) of
        Inl e \<Rightarrow> Inl e
      | Inr (updated, m, attempts_charged) \<Rightarrow>
          (let ref = cx_run_id ctx @ ''/branches-'' @ str_of_int attempt_no;
               retired = (\<lambda>x. x\<lparr>rs_reserved := no_reservation, rs_branches := updated\<rparr>)
           in case preflight m (cx_clock ctx 1) attempts_charged 0 0 0 of
                Some d \<Rightarrow>
                  Inr (failed s m (cx_clock ctx 1)
                    (solver_signal (''parent budget exceeded by branches: '' @ dim_str d) (Some FBudget))
                    attempt_no attempts_charged
                    (\<lambda>x. (retired x)\<lparr>rs_transcript_ref := Some ref\<rparr>) [])
              | None \<Rightarrow>
                  Inr (completed s m (cx_clock ctx 1) attempt_no ref False attempts_charged retired [])))"

subsection \<open>The solve node\<close>

definition solve :: "run_state \<Rightarrow> 'a solve_ctx_scheme \<Rightarrow> (node_error, node_outcome) result" where
  "solve s ctx =
     (let attempt_no = rs_attempt_no s + 1
      in if \<exists>b \<in> set (rs_branches s). b_status b = Dispatched then solve_branches s ctx attempt_no
         else case (if cx_applicator ctx \<and> strategy_in [Apply, Adapt] s then rs_chosen s else None,
                    cx_store ctx) of
           (Some chosen, Some get_version) \<Rightarrow> solve_via_applicator s ctx attempt_no chosen get_version
         | _ \<Rightarrow>
             if cx_script ctx = None \<and> rs_strategy s = Some Scratch \<and> cx_model ctx \<and>
                cx_tools ctx \<noteq> None \<and> cx_transcripts ctx
             then Inr (solve_scratch_observe_act s ctx attempt_no)
             else
               (case resolve_script s ctx of
                  Inl VersionMissing \<Rightarrow> Inl SkillNotFound
                | Inl ModelRequired \<Rightarrow>
                    Inr (failed s (open_meter s None (cx_clock ctx 0)) (cx_clock ctx 1)
                      (solver_signal ''environment: scratch solving requires a model client'' (Some FEnvironment))
                      attempt_no 1 (\<lambda>x. x) [])
                | Inr script \<Rightarrow>
                    if cx_transcripts ctx \<and> cx_tools ctx \<noteq> None
                    then Inr (solve_script_via_tools s ctx attempt_no script)
                    else Inr (solve_legacy_script s ctx attempt_no script)))"

subsection \<open>Every path charges the attempt and chooses a legal route\<close>

text \<open>What every outcome of solve satisfies: the attempt number advances by one, at least one attempt
  is charged, the budget, the criteria and the snapshots stay, the route is legal, and no branch is
  left waiting for dispatch.\<close>

definition branches_done :: "run_state \<Rightarrow> run_state \<Rightarrow> bool" where
  "branches_done s s' \<longleftrightarrow>
     (\<forall>b \<in> set (rs_branches s').
        b_status b \<noteq> Dispatched \<and> (b_status b = Running \<longrightarrow> b \<in> set (rs_branches s)))"

definition solve_post :: "run_state \<Rightarrow> node_outcome \<Rightarrow> bool" where
  "solve_post s oc \<longleftrightarrow>
     rs_attempt_no (oc_state oc) = rs_attempt_no s + 1 \<and>
     sp_attempts (rs_spent s) + 1 \<le> sp_attempts (rs_spent (oc_state oc)) \<and>
     sp_versions_written (rs_spent (oc_state oc)) = sp_versions_written (rs_spent s) \<and>
     rs_budget (oc_state oc) = rs_budget s \<and> rs_criteria (oc_state oc) = rs_criteria s \<and>
     rs_workspace_snapshots (oc_state oc) = rs_workspace_snapshots s \<and>
     rs_merge_audits (oc_state oc) = rs_merge_audits s \<and> same_frame s (oc_state oc) \<and>
     branches_done s (oc_state oc) \<and>
     (\<exists>route. oc_route oc = Some route \<and> legal_route Solve route (oc_state oc))"

definition keeps_frame :: "(run_state \<Rightarrow> run_state) \<Rightarrow> bool" where
  "keeps_frame u \<longleftrightarrow>
     (\<forall>x. rs_attempt_no (u x) = rs_attempt_no x \<and> rs_spent (u x) = rs_spent x \<and>
          rs_budget (u x) = rs_budget x \<and> rs_criteria (u x) = rs_criteria x \<and>
          rs_workspace_snapshots (u x) = rs_workspace_snapshots x \<and>
          rs_merge_audits (u x) = rs_merge_audits x \<and>
          rs_failure_signal (u x) = rs_failure_signal x \<and> same_frame x (u x))"

lemma failed_post:
  assumes "keeps_frame u" "mt_committed m = rs_spent s" "1 \<le> k"
    and "\<And>x. rs_branches x = rs_branches s \<Longrightarrow> branches_done s (u x)"
  shows "solve_post s (failed s m t sg (rs_attempt_no s + 1) k u es)"
proof -
  define x where "x = s\<lparr>rs_attempt_no := rs_attempt_no s + 1, rs_spent := commit m t k,
    rs_failure_signal := Some sg\<rparr>"
  have f: "oc_state (failed s m t sg (rs_attempt_no s + 1) k u es) = u x"
    "oc_route (failed s m t sg (rs_attempt_no s + 1) k u es) = Some PreValidationFailureSignal"
    by (simp_all add: failed_def x_def)
  show ?thesis
    using assms(1-3) assms(4)[of x]
    by (simp add: solve_post_def f keeps_frame_def node_simps x_def same_frame_def)
qed

lemma completed_post:
  assumes "keeps_frame u" "mt_committed m = rs_spent s" "1 \<le> k"
    and "\<And>x. rs_branches x = rs_branches s \<Longrightarrow> branches_done s (u x)"
    and "\<And>x. rs_transcript_ref x \<noteq> None \<Longrightarrow> rs_transcript_ref (u x) \<noteq> None"
  shows "solve_post s (completed s m t (rs_attempt_no s + 1) ref d k u es)"
proof -
  define x where "x = s\<lparr>rs_attempt_no := rs_attempt_no s + 1, rs_spent := commit m t k,
    rs_transcript_ref := Some ref,
    rs_artifacts := (if d then rs_artifacts s @ [ref] else rs_artifacts s), rs_failure_signal := None\<rparr>"
  have f: "oc_state (completed s m t (rs_attempt_no s + 1) ref d k u es) = u x"
    "oc_route (completed s m t (rs_attempt_no s + 1) ref d k u es) = Some AttemptCompleted"
    by (simp_all add: completed_def x_def)
  show ?thesis
    using assms(1-3) assms(4)[of x] assms(5)[of x]
    by (simp add: solve_post_def f keeps_frame_def node_simps x_def same_frame_def)
qed

lemmas close_post = failed_post completed_post

lemma keeps_frame_simps [simp]:
  "keeps_frame (\<lambda>x. x)"
  "keeps_frame (\<lambda>x. x\<lparr>rs_transcript_ref := r\<rparr>)"
  "keeps_frame (\<lambda>x. x\<lparr>rs_step_waves := w\<rparr>)"
  "keeps_frame (\<lambda>x. x\<lparr>rs_transcript_ref := r, rs_step_waves := w, rs_resource_conflicts := c\<rparr>)"
  "keeps_frame (\<lambda>x. x\<lparr>rs_reserved := q, rs_branches := bs\<rparr>)"
  "keeps_frame (\<lambda>x. x\<lparr>rs_reserved := q, rs_branches := bs, rs_transcript_ref := r\<rparr>)"
  by (simp_all add: keeps_frame_def same_frame_def)

abbreviation none_dispatched :: "branch_state list \<Rightarrow> bool" where
  "none_dispatched bs \<equiv> \<forall>b \<in> set bs. b_status b \<noteq> Dispatched"

lemma script_via_tools_loop_post:
  "mt_committed m = rs_spent s \<Longrightarrow> none_dispatched (rs_branches s) \<Longrightarrow>
     solve_post s (script_via_tools_loop s ctx (rs_attempt_no s + 1) m k script es)"
proof (induction script arbitrary: m k es)
  case Nil
  then show ?case by (simp add: close_post branches_done_def)
next
  case (Cons c cs)
  then show ?case
    by (cases "preflight m (cx_clock ctx (Suc k)) 0 1 0 0") (simp_all add: close_post Let_def branches_done_def)
qed

lemma legacy_script_loop_post:
  "mt_committed m = rs_spent s \<Longrightarrow> none_dispatched (rs_branches s) \<Longrightarrow>
     solve_post s (legacy_script_loop s ctx (rs_attempt_no s + 1) m k script)"
  by (induction script arbitrary: m k) (simp_all add: close_post Let_def branches_done_def)

lemma scratch_loop_post:
  "mt_committed m = rs_spent s \<Longrightarrow> none_dispatched (rs_branches s) \<Longrightarrow>
     solve_post s (scratch_loop s ctx (rs_attempt_no s + 1) n k m history err es)"
proof (induction n arbitrary: k m history err es)
  case 0
  then show ?case by (simp add: close_post branches_done_def)
next
  case (Suc n)
  show ?case
  proof (cases "preflight m (cx_clock ctx (Suc k)) 0 1 0 0")
    case (Some d)
    then show ?thesis using Suc.prems by (simp add: close_post branches_done_def)
  next
    case None
    show ?thesis
    proof (cases "cx_scratch_step ctx k (last_n 6 history)")
      case (Inl e)
      then show ?thesis using None Suc.prems by (simp add: close_post branches_done_def)
    next
      case (Inr st)
      then show ?thesis
        using None Suc by (cases "sc_kind st") (simp_all add: close_post Let_def branches_done_def)
    qed
  qed
qed

lemma solve_via_applicator_post:
  assumes "solve_via_applicator s ctx (rs_attempt_no s + 1) c g = Inr oc" "none_dispatched (rs_branches s)"
  shows "solve_post s oc"
  using assms
  by (auto simp: solve_via_applicator_def Let_def branches_done_def split: option.splits if_splits intro!: close_post)

lemma solve_branch_status:
  assumes "solve_branch s ctx b = Inr (b', sp)"
  shows "b_status b' \<notin> {Dispatched, Running}" and "b_branch_id b' = b_branch_id b"
    and "sp_attempts sp = 1 \<or> sp_attempts sp = sp_attempts (b_spent b) + 1"
  using assms
  by (auto simp: solve_branch_def Let_def projected_spend_def
      split: option.splits sum.splits prod.splits if_split_asm)

lemma solve_branches_loop_facts:
  assumes "solve_branches_loop s ctx m bs = Inr (us, m', k)"
    and "\<forall>b \<in> set bs. b_status b \<in> {Dispatched, Running} \<longrightarrow> 0 \<le> sp_attempts (b_spent b)"
  shows "\<forall>b \<in> set us. b_status b \<notin> {Dispatched, Running}"
    and "mt_committed m' = mt_committed m" and "0 \<le> k"
    and "\<exists>b \<in> set bs. b_status b \<in> {Dispatched, Running} \<Longrightarrow> 1 \<le> k"
    and "map b_branch_id us = map b_branch_id bs"
proof -
  have "(\<forall>b \<in> set us. b_status b \<notin> {Dispatched, Running}) \<and> mt_committed m' = mt_committed m \<and> 0 \<le> k \<and>
        ((\<exists>b \<in> set bs. b_status b \<in> {Dispatched, Running}) \<longrightarrow> 1 \<le> k) \<and>
        map b_branch_id us = map b_branch_id bs"
    using assms
  proof (induction bs arbitrary: m us m' k)
    case Nil
    then show ?case by simp
  next
    case (Cons b bs)
    show ?case
    proof (cases "b_status b \<in> {Dispatched, Running}")
      case False
      then obtain us' where "solve_branches_loop s ctx m bs = Inr (us', m', k)" "us = b # us'"
        using Cons.prems(1) by (auto split: sum.splits)
      then show ?thesis using Cons.IH[of m us' m' k] Cons.prems(2) False by auto
    next
      case True
      then obtain b' sp us' k' where b': "solve_branch s ctx b = Inr (b', sp)"
        and rest: "solve_branches_loop s ctx (charge m (sp_tool_calls sp) (sp_tokens sp) (sp_cost_usd sp)) bs
                     = Inr (us', m', k')"
        and eq: "us = b' # us'" "k = sp_attempts sp + k'"
        using Cons.prems(1) by (auto split: sum.splits)
      have "1 \<le> sp_attempts sp"
        using solve_branch_status(3)[OF b'] Cons.prems(2) True by auto
      then show ?thesis
        using Cons.IH[OF rest] Cons.prems(2) solve_branch_status(1,2)[OF b'] eq by auto
    qed
  qed
  then show "\<forall>b \<in> set us. b_status b \<notin> {Dispatched, Running}"
    and "mt_committed m' = mt_committed m" and "0 \<le> k"
    and "\<exists>b \<in> set bs. b_status b \<in> {Dispatched, Running} \<Longrightarrow> 1 \<le> k"
    and "map b_branch_id us = map b_branch_id bs" by auto
qed

lemma solve_branches_post:
  assumes out: "solve_branches s ctx (rs_attempt_no s + 1) = Inr oc"
    and disp: "\<exists>b \<in> set (rs_branches s). b_status b = Dispatched"
    and ok: "\<forall>b \<in> set (rs_branches s). b_status b \<in> {Dispatched, Running} \<longrightarrow> 0 \<le> sp_attempts (b_spent b)"
  shows "solve_post s oc"
proof -
  obtain us m' k where lp: "solve_branches_loop s ctx (open_meter s (Some no_reservation) (cx_clock ctx 0))
      (rs_branches s) = Inr (us, m', k)"
    using out by (auto simp: solve_branches_def split: sum.splits)
  note f = solve_branches_loop_facts[OF lp ok]
  have k: "1 \<le> k" using f(4) disp by blast
  have c: "mt_committed m' = rs_spent s" using f(2) by simp
  have nd: "\<forall>b \<in> set us. b_status b \<noteq> Dispatched \<and> b_status b \<noteq> Running" using f(1) by auto
  show ?thesis
    using out lp k c nd
    by (auto simp: solve_branches_def Let_def branches_done_def split: option.splits intro!: close_post)
qed

definition branch_spends_ok :: "run_state \<Rightarrow> bool" where
  "branch_spends_ok s \<longleftrightarrow> (\<forall>b \<in> set (rs_branches s). b_status b \<in> {Dispatched, Running} \<longrightarrow> 0 \<le> sp_attempts (b_spent b))"

lemma solve_post:
  assumes out: "solve s ctx = Inr oc" and ok: "branch_spends_ok s"
  shows "solve_post s oc"
proof (cases "\<exists>b \<in> set (rs_branches s). b_status b = Dispatched")
  case True
  then show ?thesis
    using out ok solve_branches_post[of s ctx oc] by (simp add: solve_def branch_spends_ok_def)
next
  case False
  then have nd: "none_dispatched (rs_branches s)" by blast
  have m: "mt_committed (open_meter s None t) = rs_spent s" for t by simp
  note posts = solve_via_applicator_post[OF _ nd] scratch_loop_post[OF m nd]
    script_via_tools_loop_post[OF m nd] legacy_script_loop_post[OF m nd]
  have env_failed: "solve_post s (failed s (open_meter s None t) t' sg (rs_attempt_no s + 1) 1 (\<lambda>x. x) [])"
    for t t' sg
    using nd by (simp add: close_post branches_done_def)
  have app: "solve_post s oc" if "solve_via_applicator s ctx (rs_attempt_no s + 1) c g = Inr oc" for c g
    using that nd by (rule solve_via_applicator_post)
  have other: "solve_post s oc"
    if "(if cx_script ctx = None \<and> rs_strategy s = Some Scratch \<and> cx_model ctx \<and>
            cx_tools ctx \<noteq> None \<and> cx_transcripts ctx
         then Inr (solve_scratch_observe_act s ctx (rs_attempt_no s + 1))
         else
           (case resolve_script s ctx of
              Inl VersionMissing \<Rightarrow> Inl SkillNotFound
            | Inl ModelRequired \<Rightarrow>
                Inr (failed s (open_meter s None (cx_clock ctx 0)) (cx_clock ctx 1)
                  (solver_signal ''environment: scratch solving requires a model client'' (Some FEnvironment))
                  (rs_attempt_no s + 1) 1 (\<lambda>x. x) [])
            | Inr script \<Rightarrow>
                if cx_transcripts ctx \<and> cx_tools ctx \<noteq> None
                then Inr (solve_script_via_tools s ctx (rs_attempt_no s + 1) script)
                else Inr (solve_legacy_script s ctx (rs_attempt_no s + 1) script))) = Inr oc"
    using that posts(2-4) env_failed
    by (auto simp: solve_scratch_observe_act_def solve_script_via_tools_def solve_legacy_script_def
        split: if_splits sum.splits script_error.splits)
  show ?thesis
    using out False app other by (simp add: solve_def Let_def split: option.splits prod.splits)
qed

text \<open>
  No path of solve works for free: whenever solve returns, on every branch, script, scratch or
  applicator path and whether the attempt completed or failed, the attempt number advances by exactly
  one, at least one attempt is charged to the run, the version count and the limits are untouched, no
  branch is left to dispatch, and the chosen route is legal.\<close>

theorem solve_charges_every_attempt:
  assumes "solve s ctx = Inr oc"
    and "\<forall>b \<in> set (rs_branches s). 0 \<le> sp_attempts (b_spent b)"
  shows "rs_attempt_no (oc_state oc) = rs_attempt_no s + 1 \<and>
         sp_attempts (rs_spent s) + 1 \<le> sp_attempts (rs_spent (oc_state oc)) \<and>
         sp_versions_written (rs_spent (oc_state oc)) = sp_versions_written (rs_spent s) \<and>
         rs_budget (oc_state oc) = rs_budget s \<and>
         (\<forall>b \<in> set (rs_branches (oc_state oc)). b_status b \<noteq> Dispatched) \<and>
         (\<exists>route. oc_route oc = Some route \<and> legal_route Solve route (oc_state oc))"
  using solve_post[OF assms(1)] assms(2) by (simp add: solve_post_def branch_spends_ok_def branches_done_def)

definition example_sctx :: solve_ctx where
  "example_sctx = failure_ctx.extend example_fctx
     \<lparr>cx_model = False, cx_transcripts = False, cx_applicator = False,
      cx_exec = (\<lambda>k c. \<lparr>er_returncode = 1, er_flaky = False, er_usage = no_usage, er_observed = False\<rparr>),
      cx_branch_exec = (\<lambda>b k c. 0), cx_branch_elapsed = (\<lambda>b. 0), cx_transcript_hash = ''h'',
      cx_scratch_setting = 5, cx_scratch_step = (\<lambda>k h. Inl ''offline''),
      cx_apply = (\<lambda>v p. \<lparr>as_ok = True, as_transcript_ref = None, as_error = None, as_merge_timeout = False,
                        as_waves = [], as_conflicts = [], as_usage = no_usage, as_observed = False\<rparr>),
      cx_skill_script = (\<lambda>v p. []), cx_propose = (\<lambda>r. ''true'')\<rparr>"

lemma example_sctx_sel:
  "cx_script example_sctx = Some [''make'']" "\<not> cx_applicator example_sctx"
  "\<not> cx_transcripts example_sctx" "cx_store example_sctx = None"
  by (simp_all add: example_sctx_def example_fctx_def example_jctx_def example_vctx_def example_ctx_def
      failure_ctx.defs join_ctx.defs validate_ctx.defs base_ctx.defs)

theorem solve_charges_every_attempt_witness:
  "\<exists>oc. solve example_state example_sctx = Inr oc \<and> rs_attempt_no (oc_state oc) = 1"
proof -
  have bs: "rs_branches example_state = []" "rs_attempt_no example_state = 0"
    by (simp_all add: example_state_def initial_state_def)
  have "\<exists>oc. solve example_state example_sctx = Inr oc"
    by (simp add: solve_def bs example_sctx_sel resolve_script_def split: option.splits)
  then obtain oc where oc: "solve example_state example_sctx = Inr oc" ..
  from solve_charges_every_attempt[OF this] oc bs show ?thesis by auto
qed

end
