(* ===== verification/Goal_Compiler.thy ===== *)
theory Goal_Compiler
  imports Run_Contracts
begin

section \<open>Compiling goals into locked criteria\<close>

text \<open>
  \<open>contracts/goal.py\<close>: the validators of \<open>DesiredState\<close> and \<open>Goal\<close>, the path guard
  \<open>_quoted_relative_path\<close> (with the \<open>shlex.quote\<close> and \<open>PurePosixPath.parts\<close> it uses), the literal
  builder \<open>_assertion_string\<close> (Python \<open>repr\<close> on one-byte text), and \<open>compile_goal\<close>. A raised
  \<open>ValueError\<close> is a value of \<open>goal_error\<close>.
\<close>

datatype goal_error =
    PathPadded | PathMetacharacters | PathAbsolute | PathDotDot | LiteralControlCharacter
  | BadConstraintValue | NotCompilable

subsection \<open>Validators\<close>

definition truthy :: "string option \<Rightarrow> bool" where
  "truthy x = (case x of None \<Rightarrow> False | Some s \<Rightarrow> s \<noteq> [])"

fun desired_fields_ok :: "desired_state \<Rightarrow> desired_kind \<Rightarrow> bool" where
  "desired_fields_ok d DFileExists = truthy (d_path d)"
| "desired_fields_ok d DFileContains = (truthy (d_path d) \<and> truthy (d_pattern d))"
| "desired_fields_ok d DCommand = truthy (d_run d)"
| "desired_fields_ok d DAssertion = truthy (d_expr d)"
| "desired_fields_ok d DSchema = (truthy (d_target d) \<and> truthy (d_schema_ref d))"
| "desired_fields_ok d DMetric = (d_metric d \<noteq> None \<and> d_op d \<noteq> None \<and> d_threshold d \<noteq> None)"
| "desired_fields_ok d DJudge = truthy (d_rubric d)"

definition desired_ok :: "desired_state \<Rightarrow> bool" where
  "desired_ok d \<longleftrightarrow>
     desired_fields_ok d (d_kind d) \<and> 0 \<le> d_weight d \<and> d_weight d \<le> 1 \<and>
     1 \<le> d_timeout_s d \<and> d_timeout_s d \<le> 3600"

definition goal_ok :: "goal \<Rightarrow> bool" where
  "goal_ok g \<longleftrightarrow>
     g_desired g \<noteq> [] \<and> (\<forall>d \<in> set (g_desired g). desired_ok d) \<and>
     (\<forall>k \<in> set (g_constraints g). 0 \<le> k_weight k \<and> k_weight k \<le> 1) \<and>
     (\<exists>d \<in> set (g_desired g). 1 \<le> d_weight d \<and> d_kind d \<noteq> DJudge)"

subsection \<open>Paths\<close>

definition SHELL_META :: string where
  "SHELL_META = '';|&$`<>(){}!*?[]~'' @ [CHR 0x5C, CHR 0x27, CHR 0x22]"

fun split_on :: "char \<Rightarrow> string \<Rightarrow> string list" where
  "split_on c [] = [[]]"
| "split_on c (x # xs) =
     (if x = c then [] # split_on c xs
      else case split_on c xs of [] \<Rightarrow> [[x]] | w # ws \<Rightarrow> (x # w) # ws)"

text \<open>\<open>PurePosixPath(p).parts\<close> of a relative path: empty and single-dot components are dropped.\<close>

definition path_parts :: "string \<Rightarrow> string list" where
  "path_parts p = filter (\<lambda>w. w \<noteq> [] \<and> w \<noteq> ''.'') (split_on (CHR ''/'') p)"

definition is_alpha :: "char \<Rightarrow> bool" where
  "is_alpha c = (let n = (of_char c :: nat) in (65 \<le> n \<and> n \<le> 90) \<or> (97 \<le> n \<and> n \<le> 122))"

definition is_digit :: "char \<Rightarrow> bool" where
  "is_digit c = (let n = (of_char c :: nat) in 48 \<le> n \<and> n \<le> 57)"

definition shell_safe :: "char \<Rightarrow> bool" where
  "shell_safe c \<longleftrightarrow> is_alpha c \<or> is_digit c \<or> c \<in> set ''_@%+=:,./-''"

definition quote_char :: char where
  "quote_char = CHR 0x27"

fun escape_quotes :: "string \<Rightarrow> string" where
  "escape_quotes [] = []"
| "escape_quotes (c # cs) =
     (if c = quote_char then [quote_char, CHR 0x22, quote_char, CHR 0x22, quote_char] else [c]) @ escape_quotes cs"

definition shlex_quote :: "string \<Rightarrow> string" where
  "shlex_quote s =
     (if s = [] then [quote_char, quote_char]
      else if \<forall>c \<in> set s. shell_safe c then s
      else quote_char # escape_quotes s @ [quote_char])"

definition bad_path_char :: "char \<Rightarrow> bool" where
  "bad_path_char c \<longleftrightarrow> c \<in> set SHELL_META \<or> is_space c \<or> (of_char c :: nat) < 32"

definition quoted_relative_path :: "string \<Rightarrow> (goal_error, string) result" where
  "quoted_relative_path p =
     (if p = [] \<or> p \<noteq> py_strip p then Inl PathPadded
      else if \<exists>c \<in> set p. bad_path_char c then Inl PathMetacharacters
      else if py_startswith p ''/'' then Inl PathAbsolute
      else if 2 \<le> length p \<and> p ! 1 = CHR '':'' \<and> is_alpha (p ! 0) then Inl PathAbsolute
      else if ''..'' \<in> set (path_parts p) then Inl PathDotDot
      else Inr (shlex_quote p))"

subsection \<open>String literals\<close>

definition hex_digit :: "nat \<Rightarrow> char" where
  "hex_digit n = (if n < 10 then char_of (48 + n) else char_of (87 + n))"

definition repr_char :: "char \<Rightarrow> char \<Rightarrow> string" where
  "repr_char q c =
     (let n = (of_char c :: nat)
      in if c = q \<or> c = CHR 0x5C then [CHR 0x5C, c]
         else if n = 9 then [CHR 0x5C, CHR ''t'']
         else if n = 10 then [CHR 0x5C, CHR ''n'']
         else if n = 13 then [CHR 0x5C, CHR ''r'']
         else if n < 32 \<or> 127 \<le> n then [CHR 0x5C, CHR ''x'', hex_digit (n div 16), hex_digit (n mod 16)]
         else [c])"

definition repr_quote :: "string \<Rightarrow> char" where
  "repr_quote s = (if quote_char \<in> set s \<and> CHR 0x22 \<notin> set s then CHR 0x22 else quote_char)"

definition py_repr :: "string \<Rightarrow> string" where
  "py_repr s = (let q = repr_quote s in q # concat (map (repr_char q) s) @ [q])"

definition assertion_string :: "string \<Rightarrow> (goal_error, string) result" where
  "assertion_string v =
     (if CHR 0x00 \<in> set v \<or> CHR 0x0A \<in> set v \<or> CHR 0x0D \<in> set v then Inl LiteralControlCharacter
      else Inr (py_repr v))"

subsection \<open>Criteria\<close>

definition blank_criterion ::
    "string \<Rightarrow> criterion_kind \<Rightarrow> real \<Rightarrow> int \<Rightarrow> criterion_source \<Rightarrow> task_criterion" where
  "blank_criterion cid kind weight timeout src =
     \<lparr>c_id = cid, c_kind = kind, c_run = None, c_expect_exit = 0, c_expr = None, c_target = None,
      c_schema_ref = None, c_metric = None, c_op = None, c_threshold = None, c_rubric = None,
      c_isolation = FreshContext, c_lens = None, c_timeout_s = timeout, c_weight = weight,
      c_sensitivity_proof = None, c_source = src, c_preregistered = True\<rparr>"

definition str_or_empty :: "string option \<Rightarrow> string" where
  "str_or_empty x = (case x of None \<Rightarrow> [] | Some s \<Rightarrow> s)"

definition bind_result :: "('e, 'a) result \<Rightarrow> ('a \<Rightarrow> ('e, 'b) result) \<Rightarrow> ('e, 'b) result" where
  "bind_result r f = (case r of Inl e \<Rightarrow> Inl e | Inr a \<Rightarrow> f a)"

definition desired_to_criterion ::
    "criterion_source \<Rightarrow> desired_state \<Rightarrow> (goal_error, task_criterion) result" where
  "desired_to_criterion src d =
     (let base = (\<lambda>kind. blank_criterion (d_id d) kind (d_weight d) (d_timeout_s d) src);
          path = str_or_empty (d_path d); pattern = str_or_empty (d_pattern d)
      in case d_kind d of
           DFileExists \<Rightarrow>
             bind_result (quoted_relative_path path) (\<lambda>_.
             bind_result (assertion_string path) (\<lambda>lit.
               Inr ((base Assertion)\<lparr>c_expr := Some (''file_exists('' @ lit @ '')'')\<rparr>)))
         | DFileContains \<Rightarrow>
             bind_result (quoted_relative_path path) (\<lambda>_.
             bind_result (assertion_string path) (\<lambda>lit.
             bind_result (assertion_string pattern) (\<lambda>pat.
               Inr ((base Assertion)\<lparr>c_expr := Some (''file_contains('' @ lit @ '', '' @ pat @ '')'')\<rparr>))))
         | DCommand \<Rightarrow> Inr ((base Command)\<lparr>c_run := d_run d, c_expect_exit := d_expect_exit d\<rparr>)
         | DAssertion \<Rightarrow> Inr ((base Assertion)\<lparr>c_expr := d_expr d\<rparr>)
         | DSchema \<Rightarrow> Inr ((base Schema)\<lparr>c_target := d_target d, c_schema_ref := d_schema_ref d\<rparr>)
         | DMetric \<Rightarrow>
             Inr ((base Metric)\<lparr>c_metric := d_metric d, c_op := d_op d, c_threshold := d_threshold d\<rparr>)
         | DJudge \<Rightarrow> Inr ((base Judge)\<lparr>c_rubric := d_rubric d, c_isolation := FreshContext\<rparr>))"

fun map_result :: "('a \<Rightarrow> ('e, 'b) result) \<Rightarrow> 'a list \<Rightarrow> ('e, 'b list) result" where
  "map_result f [] = Inr []"
| "map_result f (x # xs) =
     bind_result (f x) (\<lambda>y. bind_result (map_result f xs) (\<lambda>ys. Inr (y # ys)))"

fun join_with :: "string \<Rightarrow> string list \<Rightarrow> string" where
  "join_with sep [] = []"
| "join_with sep [x] = x"
| "join_with sep (x # xs) = x @ sep @ join_with sep xs"

definition freeze_command :: "string list \<Rightarrow> string" where
  "freeze_command quoted =
     (if quoted \<noteq> [] then join_with '' && '' (map (\<lambda>p. ''test -e '' @ p) quoted) else ''true'')"

definition constraint_paths :: "constraint_value \<Rightarrow> (goal_error, string list) result" where
  "constraint_paths v =
     (case v of VList ps \<Rightarrow> Inr ps | VStr p \<Rightarrow> Inr [p] | VFloat _ \<Rightarrow> Inl BadConstraintValue)"

definition constraint_to_criterion ::
    "criterion_source \<Rightarrow> constraint \<Rightarrow> (goal_error, task_criterion) result" where
  "constraint_to_criterion src k =
     (let base = blank_criterion (k_id k) Command (k_weight k) 300 src
      in case k_kind k of
           MustPassCommand \<Rightarrow>
             (case k_value k of VStr cmd \<Rightarrow> Inr (base\<lparr>c_run := Some cmd\<rparr>) | _ \<Rightarrow> Inl BadConstraintValue)
         | MustNotModify \<Rightarrow>
             bind_result (constraint_paths (k_value k)) (\<lambda>paths.
             bind_result (map_result quoted_relative_path paths) (\<lambda>quoted.
               Inr (base\<lparr>c_run := Some (freeze_command quoted)\<rparr>)))
         | _ \<Rightarrow> Inl NotCompilable)"

definition compilable :: "constraint \<Rightarrow> bool" where
  "compilable k \<longleftrightarrow> k_kind k \<notin> {BudgetCeiling, NoExternalEffects}"

definition compile_goal :: "goal \<Rightarrow> criterion_source \<Rightarrow> (goal_error, task_criterion list) result" where
  "compile_goal g src =
     bind_result (map_result (desired_to_criterion src) (g_desired g)) (\<lambda>ds.
     bind_result (map_result (constraint_to_criterion src) (filter compilable (g_constraints g))) (\<lambda>ks.
       Inr (ds @ ks)))"

subsection \<open>Compilation is faithful and well formed\<close>

lemma bind_result_Inr [simp]: "bind_result r f = Inr b \<longleftrightarrow> (\<exists>a. r = Inr a \<and> f a = Inr b)"
  by (cases r) (simp_all add: bind_result_def)

lemma map_result_Inr: "map_result f xs = Inr ys \<longleftrightarrow> list_all2 (\<lambda>x y. f x = Inr y) xs ys"
  by (induction xs arbitrary: ys) (auto simp: list_all2_Cons1)

lemma blank_criterion_sel [simp]:
  "c_id (blank_criterion i k w t src) = i" "c_weight (blank_criterion i k w t src) = w"
  "c_kind (blank_criterion i k w t src) = k" "c_timeout_s (blank_criterion i k w t src) = t"
  "c_source (blank_criterion i k w t src) = src" "c_preregistered (blank_criterion i k w t src)"
  "c_isolation (blank_criterion i k w t src) = FreshContext"
  "c_sensitivity_proof (blank_criterion i k w t src) = None"
  by (simp_all add: blank_criterion_def)

text \<open>The kind a desired state compiles to.\<close>

fun compiled_kind :: "desired_kind \<Rightarrow> criterion_kind" where
  "compiled_kind DFileExists = Assertion"
| "compiled_kind DFileContains = Assertion"
| "compiled_kind DCommand = Command"
| "compiled_kind DAssertion = Assertion"
| "compiled_kind DSchema = Schema"
| "compiled_kind DMetric = Metric"
| "compiled_kind DJudge = Judge"

lemma desired_to_criterion_sel:
  assumes "desired_to_criterion src d = Inr c"
  shows "c_id c = d_id d \<and> c_weight c = d_weight d \<and> c_timeout_s c = d_timeout_s d \<and>
         c_kind c = compiled_kind (d_kind d) \<and> c_source c = src \<and> c_preregistered c \<and>
         c_isolation c = FreshContext \<and> c_sensitivity_proof c = None"
  using assms by (cases "d_kind d") (auto simp: desired_to_criterion_def Let_def)

lemma truthy_ne [simp]: "truthy x \<Longrightarrow> x \<noteq> None"
  by (cases x) (simp_all add: truthy_def)

lemma desired_to_criterion_ok:
  assumes "desired_to_criterion src d = Inr c" "desired_ok d"
  shows "criterion_ok c"
proof -
  have "kind_fields_ok c (c_kind c)"
    using assms by (cases "d_kind d") (auto simp: desired_to_criterion_def Let_def desired_ok_def truthy_def)
  then show ?thesis
    using desired_to_criterion_sel[OF assms(1)] assms(2) by (auto simp: criterion_ok_def desired_ok_def)
qed

lemma constraint_to_criterion_sel:
  assumes "constraint_to_criterion src k = Inr c"
  shows "c_id c = k_id k \<and> c_weight c = k_weight k \<and> c_kind c = Command \<and> c_source c = src \<and>
         c_preregistered c \<and> c_run c \<noteq> None \<and> c_timeout_s c = 300 \<and> c_sensitivity_proof c = None"
  using assms
  by (auto simp: constraint_to_criterion_def Let_def split: constraint_kind.splits constraint_value.splits)

lemma compile_goalE:
  assumes "compile_goal g src = Inr cs"
  obtains ds ks where "cs = ds @ ks" "list_all2 (\<lambda>d c. desired_to_criterion src d = Inr c) (g_desired g) ds"
    "list_all2 (\<lambda>k c. constraint_to_criterion src k = Inr c) (filter compilable (g_constraints g)) ks"
  using assms by (auto simp: compile_goal_def map_result_Inr)

lemma list_all2_ex: "list_all2 P xs ys \<Longrightarrow> y \<in> set ys \<Longrightarrow> \<exists>x \<in> set xs. P x y"
  by (induction rule: list_all2_induct) auto

lemma compile_goal_unproven:
  assumes "compile_goal g src = Inr cs" "c \<in> set cs"
  shows "c_sensitivity_proof c = None"
  using assms(1)
proof (rule compile_goalE)
  fix ds ks
  assume "cs = ds @ ks"
    and "list_all2 (\<lambda>d c. desired_to_criterion src d = Inr c) (g_desired g) ds"
    and "list_all2 (\<lambda>k c. constraint_to_criterion src k = Inr c) (filter compilable (g_constraints g)) ks"
  then show ?thesis
    using assms(2) by (auto dest!: list_all2_ex desired_to_criterion_sel constraint_to_criterion_sel)
qed

text \<open>
  Compiling a goal neither drops nor invents a success condition: when it succeeds, the criteria are,
  in order, exactly one per desired state and one per compilable constraint, each with the id and
  the weight it was declared with, the given source, and preregistered; budget ceilings and
  no-external-effects constraints never become criteria.\<close>

theorem compile_goal_faithful:
  assumes "compile_goal g src = Inr cs"
  shows "map c_id cs = map d_id (g_desired g) @ map k_id (filter compilable (g_constraints g)) \<and>
         map c_weight cs = map d_weight (g_desired g) @ map k_weight (filter compilable (g_constraints g)) \<and>
         (\<forall>c \<in> set cs. c_source c = src \<and> c_preregistered c)"
  using assms
proof (rule compile_goalE)
  fix ds ks
  assume cs: "cs = ds @ ks"
    and d: "list_all2 (\<lambda>d c. desired_to_criterion src d = Inr c) (g_desired g) ds"
    and k: "list_all2 (\<lambda>k c. constraint_to_criterion src k = Inr c) (filter compilable (g_constraints g)) ks"
  have "map c_id ds = map d_id (g_desired g) \<and> map c_weight ds = map d_weight (g_desired g) \<and>
        (\<forall>c \<in> set ds. c_source c = src \<and> c_preregistered c)"
    using d by (induction rule: list_all2_induct) (auto dest: desired_to_criterion_sel)
  moreover have "map c_id ks = map k_id (filter compilable (g_constraints g)) \<and>
        map c_weight ks = map k_weight (filter compilable (g_constraints g)) \<and>
        (\<forall>c \<in> set ks. c_source c = src \<and> c_preregistered c)"
    using k by (induction rule: list_all2_induct) (auto dest: constraint_to_criterion_sel)
  ultimately show ?thesis by (auto simp: cs)
qed

text \<open>
  C20. A valid goal compiles to a valid, machine-checkable contract: every criterion passes the criterion
  validators, and at least one is required and not a judge.\<close>

theorem compile_goal_checkable:
  assumes "compile_goal g src = Inr cs" and "goal_ok g"
  shows "(\<forall>c \<in> set cs. criterion_ok c) \<and> (\<exists>c \<in> set cs. is_required c \<and> c_kind c \<noteq> Judge)"
  using assms(1)
proof (rule compile_goalE)
  fix ds ks
  assume cs: "cs = ds @ ks"
    and d: "list_all2 (\<lambda>d c. desired_to_criterion src d = Inr c) (g_desired g) ds"
    and k: "list_all2 (\<lambda>k c. constraint_to_criterion src k = Inr c) (filter compilable (g_constraints g)) ks"
  have "criterion_ok c" if c: "c \<in> set ds" for c
  proof -
    obtain i where "i < length ds" "c = ds ! i" using c by (auto simp: in_set_conv_nth)
    then show ?thesis
      using d assms(2) desired_to_criterion_ok[of src "g_desired g ! i" c]
      by (auto simp: list_all2_conv_all_nth goal_ok_def)
  qed
  moreover have "criterion_ok c" if c: "c \<in> set ks" for c
  proof -
    obtain i where i: "i < length ks" "c = ks ! i" using c by (auto simp: in_set_conv_nth)
    let ?k = "filter compilable (g_constraints g) ! i"
    have "constraint_to_criterion src ?k = Inr c" "?k \<in> set (g_constraints g)"
      using k i nth_mem[of i "filter compilable (g_constraints g)"]
      by (auto simp: list_all2_conv_all_nth)
    then show ?thesis
      using constraint_to_criterion_sel[of src ?k c] assms(2) by (auto simp: criterion_ok_def goal_ok_def)
  qed
  moreover have "\<exists>c \<in> set ds. is_required c \<and> c_kind c \<noteq> Judge"
  proof -
    obtain x where x: "x \<in> set (g_desired g)" "1 \<le> d_weight x" "d_kind x \<noteq> DJudge"
      using assms(2) by (auto simp: goal_ok_def)
    then obtain i where i: "i < length (g_desired g)" "g_desired g ! i = x" by (auto simp: in_set_conv_nth)
    then have "desired_to_criterion src x = Inr (ds ! i)" "ds ! i \<in> set ds"
      using d by (auto simp: list_all2_conv_all_nth)
    then show ?thesis
      using desired_to_criterion_sel[of src x "ds ! i"] x(2,3)
      by (cases "d_kind x") (auto simp: is_required_def intro!: bexI[of _ "ds ! i"])
  qed
  ultimately show ?thesis by (auto simp: cs)
qed

definition example_goal :: goal where
  "example_goal =
     \<lparr>g_goal_id = None,
      g_desired = [\<lparr>d_id = ''out'', d_kind = DFileExists, d_path = Some ''out.txt'', d_pattern = None,
        d_run = None, d_expect_exit = 0, d_expr = None, d_target = None, d_schema_ref = None,
        d_metric = None, d_op = None, d_threshold = None, d_rubric = None, d_weight = 1, d_timeout_s = 300\<rparr>],
      g_constraints = [\<lparr>k_id = ''net'', k_kind = NoExternalEffects, k_value = VStr [], k_weight = 1\<rparr>],
      g_context = None, g_task_class = None, g_strategy_hint = None, g_mea_opt_in = False\<rparr>"

lemma out_txt_path: "quoted_relative_path ''out.txt'' = Inr ''out.txt''"
  by code_simp

lemma out_txt_literal: "assertion_string ''out.txt'' = Inr [CHR 0x27, CHR ''o'', CHR ''u'', CHR ''t'', CHR ''.'', CHR ''t'', CHR ''x'', CHR ''t'', CHR 0x27]"
  by code_simp

lemma example_goal_compiles: "\<exists>c. compile_goal example_goal Caller = Inr [c]"
  by (simp add: compile_goal_def example_goal_def compilable_def bind_result_def desired_to_criterion_def
      str_or_empty_def out_txt_path out_txt_literal)

theorem compile_goal_faithful_witness:
  "\<exists>cs. compile_goal example_goal Caller = Inr cs \<and> map c_id cs = [''out'']"
proof -
  obtain c where c: "compile_goal example_goal Caller = Inr [c]" using example_goal_compiles by blast
  from compile_goal_faithful[OF c] c show ?thesis by (auto simp: example_goal_def compilable_def)
qed

theorem compile_goal_checkable_witness:
  "\<exists>cs. compile_goal example_goal Caller = Inr cs \<and> (\<exists>c \<in> set cs. is_required c)"
proof -
  obtain c where c: "compile_goal example_goal Caller = Inr [c]" using example_goal_compiles by blast
  have "goal_ok example_goal" by (simp add: goal_ok_def example_goal_def desired_ok_def truthy_def)
  from compile_goal_checkable[OF c this] c show ?thesis by auto
qed

subsection \<open>Literals and paths cannot break out\<close>

text \<open>Reading back a Python string literal: the value and the text after the closing quote.\<close>

fun hex_val :: "char \<Rightarrow> nat" where
  "hex_val c = (let n = (of_char c :: nat) in if n < 58 then n - 48 else n - 87)"

fun unescape :: "char \<Rightarrow> char" where
  "unescape c = (if c = CHR ''t'' then CHR 0x09 else if c = CHR ''n'' then CHR 0x0A
                 else if c = CHR ''r'' then CHR 0x0D else c)"

definition push :: "char \<Rightarrow> (string \<times> string) option \<Rightarrow> (string \<times> string) option" where
  "push c r = map_option (\<lambda>(v, rest). (c # v, rest)) r"

function read_literal :: "char \<Rightarrow> string \<Rightarrow> (string \<times> string) option" where
  "read_literal q s =
     (case s of
        [] \<Rightarrow> None
      | c # cs \<Rightarrow>
          if c = q then Some ([], cs)
          else if c = CHR 0x5C then
            (case cs of
               [] \<Rightarrow> None
             | e # es \<Rightarrow>
                 if e = CHR ''x'' then
                   (case es of
                      h # l # rest \<Rightarrow> push (char_of (16 * hex_val h + hex_val l)) (read_literal q rest)
                    | _ \<Rightarrow> None)
                 else push (unescape e) (read_literal q es))
          else push c (read_literal q cs))"
  by auto
termination by (relation "measure (\<lambda>(q, s). length s)") auto

declare read_literal.simps [simp del]

lemma hex_val_digit: "n < 16 \<Longrightarrow> hex_val (hex_digit n) = n"
  by (simp add: hex_digit_def)

lemma of_char_less [simp]: "(of_char c :: nat) < 256"
  by (metis of_char_mod_256 mod_less_divisor zero_less_numeral)

lemma char_of_hex: "char_of (16 * ((of_char c :: nat) div 16) + (of_char c :: nat) mod 16) = c"
  by (metis char_of_char mult_div_mod_eq)

lemma read_hex:
  assumes "q \<noteq> CHR 0x5C"
  shows "read_literal q ([CHR 0x5C, CHR ''x'', hex_digit ((of_char c :: nat) div 16),
            hex_digit ((of_char c :: nat) mod 16)] @ t) = push c (read_literal q t)"
proof -
  have "hex_val (hex_digit ((of_char c :: nat) div 16)) = (of_char c :: nat) div 16"
    "hex_val (hex_digit ((of_char c :: nat) mod 16)) = (of_char c :: nat) mod 16"
    using of_char_less[of c] by (simp_all add: hex_val_digit del: of_char_less hex_val.simps)
  then show ?thesis
    using assms by (subst read_literal.simps) (simp add: char_of_hex del: hex_val.simps)
qed

lemma read_escape:
  "q \<noteq> CHR 0x5C \<Longrightarrow> e \<noteq> CHR ''x'' \<Longrightarrow>
     read_literal q (CHR 0x5C # e # t) = push (unescape e) (read_literal q t)"
  by (subst read_literal.simps) simp

lemma of_char_eqD: "(of_char c :: nat) = of_char d \<Longrightarrow> c = d"
  by (metis char_of_char)

lemma read_repr_char:
  assumes q: "q = CHR 0x27 \<or> q = CHR 0x22"
  shows "read_literal q (repr_char q c @ t) = push c (read_literal q t)"
proof -
  have nq: "q \<noteq> CHR 0x5C" "q \<noteq> CHR ''x''" using q by auto
  consider "c = q \<or> c = CHR 0x5C" | "c = CHR 0x09" | "c = CHR 0x0A" | "c = CHR 0x0D"
    | "c \<noteq> q" "c \<noteq> CHR 0x5C" "c \<noteq> CHR 0x09" "c \<noteq> CHR 0x0A" "c \<noteq> CHR 0x0D"
    by blast
  then show ?thesis
  proof cases
    case 1
    then show ?thesis
      using q by (auto simp: repr_char_def Let_def read_escape)
  next
    case 5
    have n: "(of_char c :: nat) \<noteq> 9" "(of_char c :: nat) \<noteq> 10" "(of_char c :: nat) \<noteq> 13"
      using 5 of_char_eqD[of c "CHR 0x09"] of_char_eqD[of c "CHR 0x0A"] of_char_eqD[of c "CHR 0x0D"] by auto
    show ?thesis
    proof (cases "(of_char c :: nat) < 32 \<or> 127 \<le> (of_char c :: nat)")
      case True
      then have "repr_char q c = [CHR 0x5C, CHR ''x'', hex_digit ((of_char c :: nat) div 16),
            hex_digit ((of_char c :: nat) mod 16)]"
        using 5 n by (simp add: repr_char_def Let_def)
      then show ?thesis using read_hex[OF nq(1), of c t] by simp
    next
      case False
      then have "repr_char q c = [c]" using 5 n by (simp add: repr_char_def Let_def)
      then show ?thesis using 5 by (subst read_literal.simps) simp
    qed
  qed (use q in \<open>auto simp: repr_char_def Let_def read_escape\<close>)
qed

lemma read_repr_chars:
  assumes "q = CHR 0x27 \<or> q = CHR 0x22"
  shows "read_literal q (concat (map (repr_char q) s) @ q # t) = Some (s, t)"
proof (induction s)
  case Nil
  then show ?case by (subst read_literal.simps) simp
next
  case (Cons c s)
  then show ?case
    using read_repr_char[OF assms, of c "concat (map (repr_char q) s) @ q # t"] by (simp add: push_def)
qed

text \<open>
  An assertion argument cannot escape its literal: reading the compiled literal back, whatever text
  follows it, yields exactly the original path or pattern and stops exactly at the closing quote.\<close>

theorem assertion_literal_roundtrip:
  assumes "assertion_string v = Inr lit"
  shows "\<exists>q body. lit = q # body \<and> read_literal q (body @ rest) = Some (v, rest)"
proof -
  have lit: "lit = repr_quote v # concat (map (repr_char (repr_quote v)) v) @ [repr_quote v]"
    using assms by (auto simp: assertion_string_def py_repr_def Let_def split: if_splits)
  have "repr_quote v = CHR 0x27 \<or> repr_quote v = CHR 0x22"
    by (simp add: repr_quote_def quote_char_def)
  from read_repr_chars[OF this, of v rest] show ?thesis unfolding lit by simp
qed

theorem assertion_literal_roundtrip_witness:
  "\<exists>lit q body. assertion_string ''out.txt'' = Inr lit \<and> lit = q # body \<and>
     read_literal q (body @ '')'') = Some (''out.txt'', '')'')"
  using assertion_literal_roundtrip[OF out_txt_literal, of "'')''"] out_txt_literal by blast

text \<open>How a POSIX shell reads the word that \<open>shlex.quote\<close> produced, for words without quotes inside.\<close>

definition shell_word :: "string \<Rightarrow> string" where
  "shell_word w =
     (if 2 \<le> length w \<and> hd w = quote_char \<and> last w = quote_char then butlast (tl w) else w)"

lemma escape_quotes_id: "quote_char \<notin> set s \<Longrightarrow> escape_quotes s = s"
  by (induction s) auto

lemma quote_char_unsafe: "\<not> shell_safe quote_char" "quote_char \<in> set SHELL_META"
  by code_simp+

text \<open>
  A path that passes the goal's path guard is harmless in the compiled shell command: the quoted word
  reads back as the path itself, the path is relative, no component is the parent directory, and it
  contains neither white space nor a shell metacharacter.\<close>

theorem quoted_relative_path_safe:
  assumes "quoted_relative_path p = Inr w"
  shows "shell_word w = p \<and> p \<noteq> [] \<and> hd p \<noteq> CHR ''/'' \<and> ''..'' \<notin> set (path_parts p) \<and>
         (\<forall>c \<in> set p. c \<notin> set SHELL_META \<and> \<not> is_space c)"
proof -
  have ne: "p \<noteq> []" and bad: "\<forall>c \<in> set p. \<not> bad_path_char c" and abs: "\<not> py_startswith p ''/''"
    and dd: "''..'' \<notin> set (path_parts p)" and w: "w = shlex_quote p"
    using assms by (auto simp: quoted_relative_path_def split: if_splits)
  have nq: "quote_char \<notin> set p" using bad quote_char_unsafe(2) by (auto simp: bad_path_char_def)
  have "shell_word w = p"
  proof (cases "\<forall>c \<in> set p. shell_safe c")
    case True
    then show ?thesis
      using ne nq by (auto simp: w shlex_quote_def shell_word_def dest: hd_in_set)
  next
    case False
    then have "w = quote_char # p @ [quote_char]"
      using ne nq by (simp add: w shlex_quote_def escape_quotes_id)
    then show ?thesis by (simp add: shell_word_def)
  qed
  moreover have "hd p \<noteq> CHR ''/''"
    using abs ne by (cases p) (auto simp: py_startswith_def)
  ultimately show ?thesis using ne bad dd by (auto simp: bad_path_char_def)
qed

theorem quoted_relative_path_safe_witness:
  "\<exists>w. quoted_relative_path ''out.txt'' = Inr w \<and> shell_word w = ''out.txt''"
  using quoted_relative_path_safe[OF out_txt_path] out_txt_path by blast

end
