(* ===== verification/Skill_Status.thy ===== *)
theory Skill_Status
  imports Recertia_Prelude
begin

section \<open>Lifecycle status of a skill version\<close>

text \<open>
  \<open>Lifecycle\<close> and \<open>RETRIEVABLE_LIFECYCLES\<close> of \<open>contracts/common.py\<close> and \<open>SkillStatus\<close> of
  \<open>contracts/status.py\<close>, with the validator that ties \<open>active\<close> to a retrievable lifecycle.
\<close>

datatype lifecycle =
  LcDraft | LcCandidate | LcShadow | LcApproved | LcBenched | LcNeedsRecert | LcDeprecated | LcQuarantined

definition RETRIEVABLE_LIFECYCLES :: "lifecycle list" where
  "RETRIEVABLE_LIFECYCLES = [LcApproved, LcShadow]"

datatype retirement_reason = NegativeContribution | CapPressure | SupersededChild | Manual

record retirement =
  rt_benched_at :: "instant option"
  rt_reason :: "retirement_reason option"
  rt_restored_at :: "instant option"
  rt_grace_remaining :: "int option"

datatype recert_status = Fresh | Stale | RecertFailed | NeverCertified

record certification =
  ce_model_validated_on :: "string option"
  ce_tool_fingerprint :: "(string \<times> string) list"
  ce_golden_set_ref :: "string option"
  ce_last_recertified_at :: "instant option"
  ce_recert_status :: recert_status

definition no_certification :: certification where
  "no_certification =
     \<lparr>ce_model_validated_on = None, ce_tool_fingerprint = [], ce_golden_set_ref = None, ce_last_recertified_at = None,
      ce_recert_status = NeverCertified\<rparr>"

record skill_status =
  ss_skill_id :: skill_id
  ss_version :: int
  ss_lifecycle :: lifecycle
  ss_active :: bool
  ss_certification :: certification
  ss_retirement :: retirement

definition no_retirement :: retirement where
  "no_retirement =
     \<lparr>rt_benched_at = None, rt_reason = None, rt_restored_at = None, rt_grace_remaining = None\<rparr>"

definition status_ok :: "skill_status \<Rightarrow> bool" where
  "status_ok s \<longleftrightarrow> (ss_active s \<longrightarrow> ss_lifecycle s \<in> set RETRIEVABLE_LIFECYCLES)"

definition is_retrievable :: "skill_status \<Rightarrow> bool" where
  "is_retrievable s \<longleftrightarrow> ss_lifecycle s = LcApproved \<and> ss_active s"

text \<open>A status with the defaults of the contract.\<close>

definition new_status :: "skill_id \<Rightarrow> int \<Rightarrow> lifecycle \<Rightarrow> skill_status" where
  "new_status sid v lc =
     \<lparr>ss_skill_id = sid, ss_version = v, ss_lifecycle = lc, ss_active = False, ss_certification = no_certification,
      ss_retirement = no_retirement\<rparr>"

end
