(* ===== verification/Node_Learn.thy ===== *)
theory Node_Learn
  imports Node_Solve Goal_Compiler Skill_Status
begin

section \<open>Intake, retrieve and the learning nodes\<close>

text \<open>
  \<open>nodes/intake.py\<close> (with \<open>validation/critic.py\<close>, \<open>validation/freeze.py\<close> and the proof authoring of
  \<open>validation/sensitivity.py\<close>), \<open>nodes/retrieve.py\<close>, \<open>nodes/distill.py\<close> (with
  \<open>distill/reusability.py\<close> and the verdict logic of \<open>distill/success.py\<close>), \<open>nodes/review.py\<close>,
  \<open>nodes/store.py\<close>, \<open>nodes/reject_draft.py\<close> and \<open>nodes/finalize.py\<close>. The text of an authored draft,
  hashes and the answers of the stores are functions in the context.
\<close>

datatype review_outcome = ReviewApproved | ReviewRejected | ChangesRequested

record node_ctx = solve_ctx +
  cx_max_criterion_timeout_s :: "int option"
  cx_path_digest :: "string \<Rightarrow> string option"
  cx_freeze_script :: "(string \<times> string) list \<Rightarrow> string"
  cx_negative_env :: score_env
  cx_negative_fingerprint :: string
  cx_now :: instant
  cx_criteria_hash :: "task_criterion list \<Rightarrow> string"
  cx_snapshot_id :: "string option"
  cx_search :: "(string \<Rightarrow> candidate_ref list \<times> string) option"
  cx_recall :: "string \<Rightarrow> string option \<Rightarrow> memory_bundle"
  cx_draft_of :: "run_state \<Rightarrow> (skill_id \<times> int) option \<Rightarrow> skill_version option \<times> string list"
  cx_sightings :: "string \<Rightarrow> int"
  cx_library :: "(skill_version \<times> lifecycle) list"
  cx_skill_id_for :: "string \<Rightarrow> skill_id"
  cx_applicable :: "skill_version \<Rightarrow> bool"
  cx_draft_text :: "skill_version \<Rightarrow> string"
  cx_one_off_log :: bool
  cx_stats_capable :: bool
  cx_stats_known :: "skill_id \<Rightarrow> int \<Rightarrow> bool"
  cx_reviewer :: "(skill_version \<Rightarrow> review_outcome) option"
  cx_hygiene_clean :: "skill_version \<Rightarrow> bool"
  cx_has_facts :: bool
  cx_has_index :: bool
  cx_ledger_seq :: int

subsection \<open>Intake\<close>

definition author_sensitivity_proof :: "'a node_ctx_scheme \<Rightarrow> task_criterion \<Rightarrow> sensitivity_proof" where
  "author_sensitivity_proof ctx c =
     (let runner_passes =
        (if c_kind c = Judge then True
         else case score (cx_negative_env ctx) True c of Inr r \<Rightarrow> r_passed r | Inl e \<Rightarrow> True)
      in \<lparr>pf_criterion_id = c_id c, pf_negative_fixture = ''recertia-neg'', pf_rejected = (\<not> runner_passes),
          pf_checked_at = cx_now ctx,
          pf_checked_against = Some (''sha256:'' @ cx_negative_fingerprint ctx),
          pf_evidence_hash =
            Some (sensitivity_evidence_hash (cx_digest ctx) c (cx_negative_fingerprint ctx))\<rparr>)"

definition refine_goal_criteria :: "'a node_ctx_scheme \<Rightarrow> task_criterion list \<Rightarrow> task_criterion list" where
  "refine_goal_criteria ctx cs =
     map (\<lambda>c. if 1 \<le> c_weight c \<and> c_sensitivity_proof c = None
               then c\<lparr>c_sensitivity_proof := Some (author_sensitivity_proof ctx c)\<rparr> else c) cs"

definition guess_check :: "string \<Rightarrow> string" where
  "guess_check request =
     (let low = py_lower request
      in if py_in ''output.txt'' low then ''test -f output.txt''
         else if py_in ''.gitignore'' low then ''test -f .gitignore''
         else if py_in ''readme'' low then ''test -f README.md''
         else if py_in ''editorconfig'' low \<or> py_in ''.editorconfig'' low then ''test -f .editorconfig''
         else ''test -n '' @ [CHR 0x22] @ ''$(ls -A . 2>/dev/null)'' @ [CHR 0x22])"

definition propose_criteria :: "'a node_ctx_scheme \<Rightarrow> string \<Rightarrow> task_criterion list" where
  "propose_criteria ctx request =
     (let c = (blank_criterion ''critic-primary'' Command 1 300 Critic)\<lparr>c_run := Some (guess_check request)\<rparr>
      in [c\<lparr>c_sensitivity_proof := Some (author_sensitivity_proof ctx c)\<rparr>])"

text \<open>\<open>seal_must_not_modify_criteria\<close>: the dictionary \<open>by_id\<close> keeps the last criterion of an id, and the
  sealed criterion of a freeze constraint overwrites it.\<close>

definition freeze_paths :: "constraint \<Rightarrow> (node_error, string list) result" where
  "freeze_paths k =
     (case k_value k of VList ps \<Rightarrow> Inr ps | VStr p \<Rightarrow> Inr [p]
      | VFloat _ \<Rightarrow> Inl (ServiceError ''must_not_modify requires str or list[str]''))"

definition digest_entry :: "'a node_ctx_scheme \<Rightarrow> string \<Rightarrow> (node_error, string \<times> string) result" where
  "digest_entry ctx p =
     (case cx_path_digest ctx p of
        None \<Rightarrow> Inl (ServiceError ''freeze path escapes workdir'') | Some h \<Rightarrow> Inr (p, h))"

definition sealed_criterion :: "'a node_ctx_scheme \<Rightarrow> constraint \<Rightarrow> (node_error, task_criterion) result" where
  "sealed_criterion ctx k =
     bind_result (freeze_paths k) (\<lambda>paths.
     bind_result (map_result (digest_entry ctx) paths) (\<lambda>expected.
       Inr ((blank_criterion (k_id k) Command (k_weight k) 300 Caller)
              \<lparr>c_run := Some (cx_freeze_script ctx expected)\<rparr>)))"

definition seal_must_not_modify_criteria ::
    "'a node_ctx_scheme \<Rightarrow> goal \<Rightarrow> task_criterion list \<Rightarrow> (node_error, task_criterion list) result" where
  "seal_must_not_modify_criteria ctx g cs =
     (let freezes = filter (\<lambda>k. k_kind k = MustNotModify) (g_constraints g)
      in if freezes = [] then Inr cs
         else
           bind_result (map_result (sealed_criterion ctx) freezes) (\<lambda>sealed.
             (let by_id = foldl (\<lambda>m c. m(c_id c \<mapsto> c)) Map.empty (cs @ sealed);
                  seen = map c_id cs
              in Inr (map (\<lambda>c. case by_id (c_id c) of Some c' \<Rightarrow> c' | None \<Rightarrow> c) cs @
                      map (\<lambda>k. the (by_id (k_id k))) (filter (\<lambda>k. k_id k \<notin> set seen) freezes)))))"

definition intake_criteria :: "run_state \<Rightarrow> 'a node_ctx_scheme \<Rightarrow> (node_error, task_criterion list) result" where
  "intake_criteria s ctx =
     (case t_goal (rs_task s) of
        Some g \<Rightarrow>
          (case compile_goal g Caller of
             Inl e \<Rightarrow> Inl GoalCompileError
           | Inr cs \<Rightarrow>
               bind_result (seal_must_not_modify_criteria ctx g cs) (\<lambda>sealed.
                 Inr (refine_goal_criteria ctx sealed)))
      | None \<Rightarrow>
          if rs_criteria s = [] then Inr (propose_criteria ctx (request_of s)) else Inr (rs_criteria s))"

definition intake :: "run_state \<Rightarrow> 'a node_ctx_scheme \<Rightarrow> (node_error, node_outcome) result" where
  "intake s ctx =
     (case intake_criteria s ctx of
        Inl e \<Rightarrow> Inl e
      | Inr cs0 \<Rightarrow>
          (let cs = (case cx_max_criterion_timeout_s ctx of
                 None \<Rightarrow> cs0 | Some ceiling_s \<Rightarrow> clamp_criterion_timeouts cs0 ceiling_s)
           in Inr (outcome
                (s\<lparr>rs_criteria := cs,
                   rs_manifest := (rs_manifest s)\<lparr>mf_criteria_hash := Some (cx_criteria_hash ctx cs)\<rparr>,
                   rs_criteria_locked := True\<rparr>)
                Always [])))"

subsection \<open>Retrieve\<close>

fun join_space :: "string list \<Rightarrow> string" where
  "join_space [] = []"
| "join_space [x] = x"
| "join_space (x # xs) = x @ '' '' @ join_space xs"

definition goal_terms :: "goal \<Rightarrow> string" where
  "goal_terms g =
     join_space (concat (map (\<lambda>d. d_id d #
       filter (\<lambda>x. x \<noteq> []) (map str_or_empty [d_path d, d_run d, d_pattern d])) (g_desired g)))"

definition retrieval_query :: "string option \<Rightarrow> string option \<Rightarrow> string \<Rightarrow> string" where
  "retrieval_query request goal_context terms =
     (if py_strip (str_or_empty request) \<noteq> [] then py_strip (str_or_empty request)
      else if py_strip (str_or_empty goal_context) \<noteq> [] then py_strip (str_or_empty goal_context)
      else py_strip terms)"

definition query_for :: "task \<Rightarrow> string" where
  "query_for t =
     (case t_goal t of
        None \<Rightarrow> retrieval_query (t_request t) None []
      | Some g \<Rightarrow> retrieval_query (t_request t) (g_context g) (goal_terms g))"

definition pin_snapshot :: "run_state \<Rightarrow> string option \<Rightarrow> run_state" where
  "pin_snapshot s snap =
     (case snap of None \<Rightarrow> s
      | Some i \<Rightarrow> s\<lparr>rs_manifest := (rs_manifest s)\<lparr>mf_index_snapshot_id := Some i\<rparr>\<rparr>)"

definition retrieve :: "run_state \<Rightarrow> 'a node_ctx_scheme \<Rightarrow> node_outcome" where
  "retrieve s ctx =
     (if rs_arm s = Control then
        outcome (pin_snapshot (s\<lparr>rs_bundle := empty_bundle\<lparr>mb_suppressed := True\<rparr>\<rparr>)
                   (if cx_search ctx \<noteq> None then cx_snapshot_id ctx else None)) Always []
      else
        (let query = query_for (rs_task s);
             hits = (case cx_search ctx of None \<Rightarrow> ([], None)
                     | Some search \<Rightarrow> (case search query of (ks, i) \<Rightarrow> (ks, Some i)));
             recalled = cx_recall ctx query (t_task_class (rs_task s))
         in outcome (pin_snapshot (s\<lparr>rs_bundle := recalled\<lparr>mb_skills := fst hits, mb_suppressed := False\<rparr>\<rparr>)
              (snd hits)) Always []))"

subsection \<open>Review, store, reject, finalize\<close>

definition version_request :: reservation where
  "version_request = no_reservation\<lparr>rv_versions_written := 1\<rparr>"

text \<open>\<open>budget_excess(...) == "versions_written"\<close> with one more version requested.\<close>

definition version_budget_blocked :: "run_state \<Rightarrow> bool" where
  "version_budget_blocked s \<longleftrightarrow>
     budget_excess (rs_budget s) (rs_spent s) (rs_reserved s) version_request = Some VersionsWritten"

definition review :: "run_state \<Rightarrow> 'a node_ctx_scheme \<Rightarrow> node_outcome" where
  "review s ctx =
     (case rs_draft s of
        None \<Rightarrow> outcome s RejectedRoute []
      | Some v \<Rightarrow>
          (case cx_reviewer ctx of
             None \<Rightarrow> outcome s RejectedRoute []
           | Some decide \<Rightarrow>
               (let es = [ReviewEnqueue (sv_skill_id v) (sv_version v)]
                in if decide v = ReviewApproved
                   then (if version_budget_blocked s then outcome s RejectedRoute es
                         else outcome s ApprovedRoute es)
                   else outcome s RejectedRoute es)))"

definition version_label :: "skill_version \<Rightarrow> string" where
  "version_label v = sv_skill_id v @ ''@v'' @ str_of_int (sv_version v)"

definition store :: "run_state \<Rightarrow> 'a node_ctx_scheme \<Rightarrow> (node_error, node_outcome) result" where
  "store s ctx =
     (case rs_draft s of
        None \<Rightarrow> Inl NoDraft
      | Some v \<Rightarrow>
          if version_budget_blocked s then Inl VersionBudgetExhausted
          else if \<not> cx_hygiene_clean ctx v then Inl HygieneFailed
          else if cx_store ctx = None then Inl NoSkillStore
          else
            (let facts = (if cx_has_facts ctx then rs_facts_extracted s else []);
                 es = [SkillCandidateWrite (sv_skill_id v) (sv_version v)] @ map FactWrite facts @
                      (if cx_has_index ctx then [IndexUpsert (sv_skill_id v) (sv_version v)] else []) @
                      [LedgerAppend LWrite (version_label v)]
             in Inr (outcome
                  (charge_version_write
                    (s\<lparr>rs_written_versions := rs_written_versions s @
                         [\<lparr>wv_skill_id = sv_skill_id v, wv_version = sv_version v,
                           wv_ledger_seq = cx_ledger_seq ctx, wv_facts = facts\<rparr>]\<rparr>))
                  Always es)))"

definition reject_draft :: "run_state \<Rightarrow> 'a node_ctx_scheme \<Rightarrow> node_outcome" where
  "reject_draft s ctx =
     outcome s Always
       [LedgerAppend LPolicyChange (case rs_draft s of None \<Rightarrow> ''unknown'' | Some v \<Rightarrow> sv_skill_id v)]"

definition terminal_by_predecessor :: "node option \<Rightarrow> terminal" where
  "terminal_by_predecessor p =
     (case p of
        Some Plan \<Rightarrow> Abstained
      | Some Distill \<Rightarrow> Solved
      | Some Store \<Rightarrow> Solved
      | Some RecordDeadEnd \<Rightarrow> Unsolved
      | Some RejectDraft \<Rightarrow> Rejected
      | _ \<Rightarrow> Error)"

definition finalize :: "run_state \<Rightarrow> 'a node_ctx_scheme \<Rightarrow> node_outcome" where
  "finalize s ctx =
     (let predecessor = (if rs_route_log s = [] then None else Some (re_node (last (rs_route_log s))))
      in \<lparr>oc_state = s\<lparr>rs_terminal := Some (terminal_by_predecessor predecessor)\<rparr>,
          oc_route = None, oc_effects = []\<rparr>)"

subsection \<open>Distill\<close>

definition assess_reusability ::
    "digest \<Rightarrow> skill_version \<Rightarrow> int \<Rightarrow> (skill_id \<times> int) option \<Rightarrow> reusability_verdict" where
  "assess_reusability digest v sightings near =
     (let parameterisable = (sv_parameters v \<noteq> [] \<or> 3 \<le> sightings);
          context_free = (\<forall>st \<in> set (sv_steps v).
             \<not> py_in ''/tmp/'' (st_command st) \<and> \<not> py_in ''/workspace/'' (st_command st));
          checkable = (\<exists>c \<in> set (sv_certification_criteria v).
             c_kind c \<noteq> Judge \<and> is_required c \<and> is_preregistered_and_proven digest c);
          bounded = ((\<forall>st \<in> set (sv_steps v).
             case st_loop_max st of None \<Rightarrow> True | Some n \<Rightarrow> n \<le> 10) \<and> length (sv_steps v) \<le> 12);
          not_duplicate = (near = None);
          ok = (parameterisable \<and> context_free \<and> checkable \<and> not_duplicate \<and> bounded);
          verdict = (if near \<noteq> None \<and> parameterisable \<and> context_free \<and> checkable \<and> bounded then Duplicate
                     else if ok then Reusable else OneOff)
      in \<lparr>rv_verdict = verdict, rv_parameterisable = parameterisable, rv_context_free = context_free,
          rv_checkable = checkable, rv_not_duplicate = not_duplicate, rv_bounded = bounded\<rparr>)"

definition one_off_verdict :: "bool \<Rightarrow> bool \<Rightarrow> reusability_verdict" where
  "one_off_verdict parameterisable checkable =
     \<lparr>rv_verdict = OneOff, rv_parameterisable = parameterisable, rv_context_free = True,
      rv_checkable = checkable, rv_not_duplicate = True, rv_bounded = True\<rparr>"

text \<open>The verdict logic of \<open>distill_success\<close>: no replayable step or a true-noop draft is one-off; a near
  duplicate is rewritten as the next version and counts as reusable.\<close>

definition distill_success ::
    "digest \<Rightarrow> skill_version option \<Rightarrow> string list \<Rightarrow> int \<Rightarrow> (skill_id \<times> int) option \<Rightarrow>
     skill_version option \<times> string list \<times> reusability_verdict" where
  "distill_success digest authored facts sightings near =
     (case authored of
        None \<Rightarrow> (None, facts, one_off_verdict False False)
      | Some v \<Rightarrow>
          (let verdict0 = assess_reusability digest v sightings near;
               verdict = (if rv_verdict verdict0 = Duplicate \<and> near \<noteq> None
                          then verdict0\<lparr>rv_verdict := Reusable, rv_not_duplicate := True\<rparr> else verdict0)
           in if rv_verdict verdict \<noteq> Reusable then (None, facts, verdict) else (Some v, facts, verdict)))"

definition nearest_duplicate :: "run_state \<Rightarrow> 'a node_ctx_scheme \<Rightarrow> (skill_id \<times> int) option" where
  "nearest_duplicate s ctx =
     (if cx_store ctx = None then None
      else map_option (\<lambda>(v, lc). (sv_skill_id v, sv_version v))
        (List.find (\<lambda>(v, lc). lc \<in> {LcApproved, LcCandidate, LcShadow} \<and>
            sv_skill_id v = cx_skill_id_for ctx (request_of s)) (cx_library ctx)))"

definition task_class_sightings :: "run_state \<Rightarrow> 'a node_ctx_scheme \<Rightarrow> int" where
  "task_class_sightings s ctx =
     (case t_task_class (rs_task s) of
        Some c \<Rightarrow> if c = [] \<or> cx_episodic ctx = None then 1 else cx_sightings ctx c
      | None \<Rightarrow> 1)"

definition leaks_guide :: "'a node_ctx_scheme \<Rightarrow> skill_version \<Rightarrow> execution_guide \<Rightarrow> bool" where
  "leaks_guide ctx v g \<longleftrightarrow>
     (\<exists>f \<in> set (eg_primary g @ eg_avoid g @ eg_fallback g). f \<noteq> [] \<and> py_in f (cx_draft_text ctx v))"

definition record_one_off :: "'a node_ctx_scheme \<Rightarrow> reusability_verdict \<Rightarrow> effect list" where
  "record_one_off ctx verdict = (if rv_verdict verdict = OneOff \<and> cx_one_off_log ctx then [OneOffLog] else [])"

definition solved_case_effects :: "run_state \<Rightarrow> 'a node_ctx_scheme \<Rightarrow> effect list" where
  "solved_case_effects s ctx =
     (if cx_episodic ctx = None then [] else [EpisodicWrite (case_of s ctx CaseSolved None)])"

definition apply_session_effects :: "run_state \<Rightarrow> 'a node_ctx_scheme \<Rightarrow> effect list" where
  "apply_session_effects s ctx =
     (case rs_chosen s of
        None \<Rightarrow> []
      | Some c \<Rightarrow>
          if cx_store ctx \<noteq> None \<and> cx_stats_capable ctx \<and> cx_stats_known ctx (cd_skill_id c) (cd_version c)
          then [ApplySession (cd_skill_id c) (cd_version c) (session_of s ctx)] else [])"

text \<open>The three gates between the draft and review: applicability, guide leak, configured services.\<close>

definition gate_applicability ::
    "'a node_ctx_scheme \<Rightarrow> skill_version option \<times> reusability_verdict \<Rightarrow>
     (skill_version option \<times> reusability_verdict) \<times> effect list" where
  "gate_applicability ctx dv =
     (case fst dv of
        None \<Rightarrow> (dv, [])
      | Some v \<Rightarrow>
          if cx_applicable ctx v then (dv, [])
          else ((None, one_off_verdict False True), [LedgerAppend LApplicabilityReject (version_label v)]))"

definition gate_guide ::
    "run_state \<Rightarrow> 'a node_ctx_scheme \<Rightarrow> skill_version option \<times> reusability_verdict \<Rightarrow>
     skill_version option \<times> reusability_verdict" where
  "gate_guide s ctx dv =
     (case (fst dv, rs_execution_guide s) of
        (Some v, Some g) \<Rightarrow> if leaks_guide ctx v g then (None, one_off_verdict False True) else dv
      | _ \<Rightarrow> dv)"

definition gate_services ::
    "'a node_ctx_scheme \<Rightarrow> skill_version option \<times> reusability_verdict \<Rightarrow>
     skill_version option \<times> reusability_verdict" where
  "gate_services ctx dv =
     (if rv_verdict (snd dv) = Reusable \<and> (cx_store ctx = None \<or> cx_reviewer ctx = None)
      then (if cx_store ctx = None then None else fst dv, (snd dv)\<lparr>rv_verdict := OneOff\<rparr>)
      else dv)"

definition author_or_reject :: "run_state \<Rightarrow> 'a node_ctx_scheme \<Rightarrow> effect list \<Rightarrow> node_outcome" where
  "author_or_reject s ctx es0 =
     (let near = nearest_duplicate s ctx;
          (authored, facts) = cx_draft_of ctx s near;
          (draft0, facts', verdict0) =
            distill_success (cx_digest ctx) authored facts (task_class_sightings s ctx) near;
          (dv1, es1) = gate_applicability ctx (draft0, verdict0);
          (draft, verdict) = gate_services ctx (gate_guide s ctx dv1);
          es2 = record_one_off ctx verdict;
          to_review = (rv_verdict verdict = Reusable \<and> draft \<noteq> None);
          verdict' = (if \<not> to_review \<and> rv_verdict verdict = Reusable
                      then verdict\<lparr>rv_verdict := OneOff\<rparr> else verdict)
      in outcome (s\<lparr>rs_draft := draft, rs_facts_extracted := facts', rs_reusability := Some verdict'\<rparr>)
           (if to_review then ReusableRoute else OneOffRoute) (es0 @ es1 @ es2))"

definition distill :: "run_state \<Rightarrow> 'a node_ctx_scheme \<Rightarrow> node_outcome" where
  "distill s ctx =
     (if t_is_eval_fixture (rs_task s) then
        outcome (s\<lparr>rs_reusability := Some (one_off_verdict False True), rs_draft := None,
                   rs_facts_extracted := []\<rparr>) OneOffRoute []
      else if rs_arm s \<in> {Control, Shadow} then
        outcome (s\<lparr>rs_reusability := Some (one_off_verdict False True)\<rparr>) OneOffRoute []
      else
        (let es = solved_case_effects s ctx
         in if strategy_in [Apply, Adapt] s \<and> rs_chosen s \<noteq> None then
              outcome (s\<lparr>rs_reusability := Some (one_off_verdict True True), rs_facts_extracted := []\<rparr>)
                OneOffRoute
                (es @ apply_session_effects s ctx @ record_one_off ctx (one_off_verdict True True))
            else if version_budget_blocked s then
              outcome (s\<lparr>rs_reusability := Some (one_off_verdict False True), rs_draft := None\<rparr>)
                OneOffRoute es
            else author_or_reject s ctx es))"

subsection \<open>Distillation always has a legal way out\<close>

lemma one_off_verdict_sel [simp]: "rv_verdict (one_off_verdict a b) = OneOff"
  by (simp add: one_off_verdict_def)

lemma assess_verdict:
  "rv_verdict (assess_reusability digest v n near) = Duplicate \<Longrightarrow> near \<noteq> None"
  by (auto simp: assess_reusability_def Let_def split: if_splits)

lemma distill_success_verdict:
  assumes "distill_success digest a f n near = (d, f', v)"
  shows "rv_verdict v \<in> {Reusable, OneOff}"
proof (cases a)
  case None
  then show ?thesis using assms by (auto simp: distill_success_def)
next
  case (Some x)
  then show ?thesis
    using assms assess_verdict[of digest x n near]
    by (cases "rv_verdict (assess_reusability digest x n near)")
       (auto simp: distill_success_def Let_def split: if_splits)
qed

lemma gates_keep_verdict:
  assumes "rv_verdict (snd dv) \<in> {Reusable, OneOff}"
  shows "rv_verdict (snd (fst (gate_applicability ctx dv))) \<in> {Reusable, OneOff}"
    "rv_verdict (snd (gate_guide s ctx dv)) \<in> {Reusable, OneOff}"
    "rv_verdict (snd (gate_services ctx dv)) \<in> {Reusable, OneOff}"
  using assms
  by (auto simp: gate_applicability_def gate_guide_def gate_services_def split: option.splits)

lemma author_or_reject_unfold:
  obtains draft verdict where "rv_verdict verdict \<in> {Reusable, OneOff}"
    "rs_draft (oc_state (author_or_reject s ctx es)) = draft"
    "rs_reusability (oc_state (author_or_reject s ctx es)) =
       Some (if \<not> (rv_verdict verdict = Reusable \<and> draft \<noteq> None) \<and> rv_verdict verdict = Reusable
             then verdict\<lparr>rv_verdict := OneOff\<rparr> else verdict)"
    "oc_route (author_or_reject s ctx es) =
       Some (if rv_verdict verdict = Reusable \<and> draft \<noteq> None then ReusableRoute else OneOffRoute)"
proof -
  define near where "near = nearest_duplicate s ctx"
  obtain authored facts where a: "cx_draft_of ctx s near = (authored, facts)" by (cases "cx_draft_of ctx s near")
  obtain d0 f' v0 where d: "distill_success (cx_digest ctx) authored facts (task_class_sightings s ctx) near = (d0, f', v0)"
    by (cases "distill_success (cx_digest ctx) authored facts (task_class_sightings s ctx) near")
  obtain dv1 es1 where g1: "gate_applicability ctx (d0, v0) = (dv1, es1)"
    by (cases "gate_applicability ctx (d0, v0)")
  obtain draft verdict where g2: "gate_services ctx (gate_guide s ctx dv1) = (draft, verdict)"
    by (cases "gate_services ctx (gate_guide s ctx dv1)")
  have "rv_verdict (snd (d0, v0)) \<in> {Reusable, OneOff}" using distill_success_verdict[OF d] by simp
  then have "rv_verdict (snd dv1) \<in> {Reusable, OneOff}"
    using gates_keep_verdict(1)[of "(d0, v0)" ctx] g1 by simp
  then have "rv_verdict verdict \<in> {Reusable, OneOff}"
    using gates_keep_verdict(3)[OF gates_keep_verdict(2)[of dv1 s ctx], of ctx] g2 by simp
  then show thesis
    by (rule that)
       (simp_all add: author_or_reject_def Let_def a[unfolded near_def] d[unfolded near_def] g1 g2)
qed

text \<open>
  Distillation never strands a run: on the eval-fixture, control, shadow, applied-skill, exhausted
  version budget and authoring paths alike, the reusability verdict it records is reusable or one-off
  and the route it chooses is the legal one for that verdict; the draft goes to review only when it
  exists.\<close>

theorem distill_route_legal:
  "\<exists>route. oc_route (distill s ctx) = Some route \<and> legal_route Distill route (oc_state (distill s ctx)) \<and>
     (route = ReusableRoute \<longrightarrow> rs_draft (oc_state (distill s ctx)) \<noteq> None)"
proof (cases "t_is_eval_fixture (rs_task s) \<or> rs_arm s \<in> {Control, Shadow} \<or>
    strategy_in [Apply, Adapt] s \<and> rs_chosen s \<noteq> None \<or> version_budget_blocked s")
  case True
  then show ?thesis by (auto simp: distill_def Let_def node_simps verdict_is_def)
next
  case False
  then have d: "distill s ctx = author_or_reject s ctx (solved_case_effects s ctx)"
    by (auto simp: distill_def Let_def)
  show ?thesis
    unfolding d
  proof (rule author_or_reject_unfold[of s ctx "solved_case_effects s ctx"])
    fix draft verdict
    let ?o = "author_or_reject s ctx (solved_case_effects s ctx)"
    assume a: "rv_verdict verdict \<in> {Reusable, OneOff}" "rs_draft (oc_state ?o) = draft"
      "rs_reusability (oc_state ?o) =
         Some (if \<not> (rv_verdict verdict = Reusable \<and> draft \<noteq> None) \<and> rv_verdict verdict = Reusable
               then verdict\<lparr>rv_verdict := OneOff\<rparr> else verdict)"
      "oc_route ?o = Some (if rv_verdict verdict = Reusable \<and> draft \<noteq> None then ReusableRoute else OneOffRoute)"
    show "\<exists>route. oc_route ?o = Some route \<and> legal_route Distill route (oc_state ?o) \<and>
        (route = ReusableRoute \<longrightarrow> rs_draft (oc_state ?o) \<noteq> None)"
      using a by (cases "rv_verdict verdict = Reusable \<and> draft \<noteq> None")
        (auto simp: node_simps verdict_is_def)
  qed
qed

subsection \<open>The learning firewall\<close>

text \<open>
  C19. Measurement runs do not learn: on an eval fixture, or on the control or shadow arm, distill and
  record\_dead\_end perform no effect at all (no episodic case, no skill, no fact, no ledger entry, no
  log line) and distill never opens the way to review.\<close>

theorem learning_firewall:
  assumes "t_is_eval_fixture (rs_task s) \<or> rs_arm s \<in> {Control, Shadow}"
  shows "oc_effects (distill s ctx) = [] \<and> oc_effects (record_dead_end s ctx') = [] \<and>
         oc_route (distill s ctx) = Some OneOffRoute"
  using assms by (auto simp: distill_def record_dead_end_def)

subsection \<open>The version budget\<close>

lemma version_budget_blocked_iff:
  "version_budget_blocked s \<longleftrightarrow>
     max_versions_written (rs_budget s) <
       sp_versions_written (rs_spent s) + rv_versions_written (rs_reserved s) + 1 \<and>
     (\<forall>d. d \<noteq> VersionsWritten \<longrightarrow> fits (rs_budget s) (rs_spent s) (rs_reserved s) version_request d)"
proof -
  have "fits (rs_budget s) (rs_spent s) (rs_reserved s) version_request VersionsWritten \<longleftrightarrow>
     sp_versions_written (rs_spent s) + rv_versions_written (rs_reserved s) + 1 \<le> max_versions_written (rs_budget s)"
    by (simp add: fits_def version_request_def no_reservation_def del: of_int_add)
  then show ?thesis
    unfolding version_budget_blocked_def budget_excess_if
    by (auto simp: all_dimensions)
qed

lemma store_InrE:
  assumes "store s ctx = Inr oc"
  obtains v facts es where "rs_draft s = Some v" "\<not> version_budget_blocked s"
    "oc_state oc = charge_version_write
       (s\<lparr>rs_written_versions := rs_written_versions s @
          [\<lparr>wv_skill_id = sv_skill_id v, wv_version = sv_version v, wv_ledger_seq = cx_ledger_seq ctx,
            wv_facts = facts\<rparr>]\<rparr>)"
    "oc_route oc = Some Always"
  using assms by (auto simp: store_def Let_def split: option.splits if_splits)

text \<open>
  A store hop keeps the version cap whenever no other dimension is over its limit: it writes exactly
  one version, and the run's version count stays within the budget.\<close>

theorem store_respects_version_cap:
  assumes "store s ctx = Inr oc" and "0 \<le> rv_versions_written (rs_reserved s)"
    and "\<forall>d. d \<noteq> VersionsWritten \<longrightarrow> fits (rs_budget s) (rs_spent s) (rs_reserved s) version_request d"
  shows "sp_versions_written (rs_spent (oc_state oc)) = sp_versions_written (rs_spent s) + 1 \<and>
         sp_versions_written (rs_spent (oc_state oc)) \<le> max_versions_written (rs_budget s)"
  using assms(1)
proof (rule store_InrE)
  fix v facts
  assume nb: "\<not> version_budget_blocked s"
    and st: "oc_state oc = charge_version_write
       (s\<lparr>rs_written_versions := rs_written_versions s @
          [\<lparr>wv_skill_id = sv_skill_id v, wv_version = sv_version v, wv_ledger_seq = cx_ledger_seq ctx,
            wv_facts = facts\<rparr>]\<rparr>)"
  show ?thesis
    using nb assms(2,3) by (simp add: version_budget_blocked_iff st charge_version_write_def)
qed

text \<open>
  The version cap is not checked when another dimension is already exceeded: \<open>budget_excess\<close> reports
  only the first exceeded dimension, so with, say, the wall clock over its limit the store node still
  writes a candidate and pushes the version count past the cap.\<close>

theorem version_cap_masked_by_other_excess:
  assumes "rs_draft s = Some v" "cx_hygiene_clean ctx v" "cx_store ctx \<noteq> None"
    and "d \<noteq> VersionsWritten" "\<not> fits (rs_budget s) (rs_spent s) (rs_reserved s) version_request d"
    and "sp_versions_written (rs_spent s) = max_versions_written (rs_budget s)"
  shows "\<exists>oc. store s ctx = Inr oc \<and>
              SkillCandidateWrite (sv_skill_id v) (sv_version v) \<in> set (oc_effects oc) \<and>
              max_versions_written (rs_budget s) < sp_versions_written (rs_spent (oc_state oc))"
proof -
  have "\<not> version_budget_blocked s" using assms(4,5) by (auto simp: version_budget_blocked_iff)
  then show ?thesis
    using assms by (auto simp: store_def Let_def charge_version_write_def)
qed

definition example_skill :: skill_version where
  "example_skill = \<lparr>sv_skill_id = ''fix-it'', sv_version = 1, sv_supersedes = None, sv_parameters = [],
     sv_steps = [], sv_certification_criteria = [], sv_curation = SelfDistilled, sv_prior_version = None\<rparr>"

definition example_nctx :: node_ctx where
  "example_nctx = solve_ctx.extend (example_sctx\<lparr>cx_store := Some (\<lambda>i v. None)\<rparr>)
     \<lparr>cx_max_criterion_timeout_s = None, cx_path_digest = (\<lambda>p. Some p), cx_freeze_script = (\<lambda>e. ''true''),
      cx_negative_env = example_env\<lparr>se_command := (\<lambda>c t. Finished 1 [] [])\<rparr>,
      cx_negative_fingerprint = ''neg'', cx_now = 0, cx_criteria_hash = (\<lambda>cs. ''h''),
      cx_snapshot_id = None, cx_search = None, cx_recall = (\<lambda>q t. empty_bundle),
      cx_draft_of = (\<lambda>s n. (None, [])), cx_sightings = (\<lambda>t. 1), cx_library = [],
      cx_skill_id_for = (\<lambda>r. ''fix-it''), cx_applicable = (\<lambda>v. True), cx_draft_text = (\<lambda>v. []),
      cx_one_off_log = False, cx_stats_capable = False, cx_stats_known = (\<lambda>i v. False),
      cx_reviewer = Some (\<lambda>v. ReviewApproved), cx_hygiene_clean = (\<lambda>v. True), cx_has_facts = False,
      cx_has_index = False, cx_ledger_seq = 0\<rparr>"

definition stored_state :: "int \<Rightarrow> real \<Rightarrow> run_state" where
  "stored_state cap wall = example_state\<lparr>rs_draft := Some example_skill,
     rs_budget := default_budget\<lparr>max_versions_written := cap\<rparr>,
     rs_spent := no_spend\<lparr>sp_wall_clock_s := wall\<rparr>\<rparr>"

lemma stored_state_sel:
  "rs_draft (stored_state cap wall) = Some example_skill"
  "rs_budget (stored_state cap wall) = default_budget\<lparr>max_versions_written := cap\<rparr>"
  "rs_spent (stored_state cap wall) = no_spend\<lparr>sp_wall_clock_s := wall\<rparr>"
  "rs_reserved (stored_state cap wall) = no_reservation"
  by (simp_all add: stored_state_def example_state_def initial_state_def)

lemma example_nctx_sel:
  "cx_hygiene_clean example_nctx v" "cx_store example_nctx \<noteq> None"
  "cx_max_criterion_timeout_s example_nctx = None" "cx_digest example_nctx = toy_digest"
  "cx_negative_fingerprint example_nctx = ''neg''"
  "cx_negative_env example_nctx = example_env\<lparr>se_command := (\<lambda>c t. Finished 1 [] [])\<rparr>"
  by (simp_all add: example_nctx_def example_sctx_def example_fctx_def example_jctx_def example_vctx_def
      example_ctx_def solve_ctx.defs failure_ctx.defs join_ctx.defs validate_ctx.defs base_ctx.defs)

theorem distill_route_legal_witness:
  "\<exists>route. oc_route (distill example_state example_nctx) = Some route \<and>
     legal_route Distill route (oc_state (distill example_state example_nctx))"
  using distill_route_legal[of example_state example_nctx] by blast

theorem learning_firewall_witness:
  "oc_effects (distill (example_state\<lparr>rs_arm := Control\<rparr>) example_nctx) = []"
  using learning_firewall[of "example_state\<lparr>rs_arm := Control\<rparr>" example_nctx example_nctx] by simp

theorem version_cap_masked_by_other_excess_witness:
  "\<exists>oc. store (stored_state 0 1000) example_nctx = Inr oc \<and>
        0 < sp_versions_written (rs_spent (oc_state oc))"
proof -
  let ?s = "stored_state 0 1000"
  have "\<not> fits (rs_budget ?s) (rs_spent ?s) (rs_reserved ?s) version_request WallClockS"
    by (simp add: stored_state_sel fits_def version_request_def no_reservation_def default_budget_def)
  from version_cap_masked_by_other_excess[OF stored_state_sel(1) example_nctx_sel(1,2) _ this]
  show ?thesis by (auto simp: stored_state_sel no_spend_def)
qed

theorem store_respects_version_cap_witness:
  "\<exists>oc. store (stored_state 1 0) example_nctx = Inr oc \<and>
        sp_versions_written (rs_spent (oc_state oc)) \<le> 1"
proof -
  let ?s = "stored_state 1 0"
  have fit: "\<forall>d. d \<noteq> VersionsWritten \<longrightarrow> fits (rs_budget ?s) (rs_spent ?s) (rs_reserved ?s) version_request d"
    by (simp add: all_dimensions stored_state_sel fits_def version_request_def no_reservation_def
        default_budget_def no_spend_def)
  have "\<not> version_budget_blocked ?s"
    by (simp add: version_budget_blocked_iff stored_state_sel no_spend_def no_reservation_def)
  then have "\<exists>oc. store ?s example_nctx = Inr oc"
    by (simp add: store_def Let_def stored_state_sel example_nctx_sel)
  then obtain oc where oc: "store ?s example_nctx = Inr oc" ..
  from store_respects_version_cap[OF oc _ fit] oc show ?thesis
    by (auto simp: stored_state_sel no_reservation_def)
qed

subsection \<open>What intake locks\<close>

lemma author_proof_binds:
  assumes "cx_digest ctx (evidence_of c) (cx_negative_fingerprint ctx) \<noteq> []"
    and "c_sensitivity_proof c' = Some (author_sensitivity_proof ctx c)" "evidence_of c' = evidence_of c"
  shows "is_preregistered_and_proven (cx_digest ctx) c' \<longleftrightarrow> pf_rejected (author_sensitivity_proof ctx c)"
  using assms
  by (auto simp: is_preregistered_and_proven_def sensitivity_proof_binds_def author_sensitivity_proof_def
      sensitivity_evidence_hash_def py_startswith_def Let_def)

lemma evidence_of_proof_update [simp]: "evidence_of (c\<lparr>c_sensitivity_proof := p\<rparr>) = evidence_of c"
  by (simp add: evidence_of_def)

lemma score_proof_update:
  fixes c :: task_criterion
  shows "score env tc (c\<lparr>c_sensitivity_proof := p\<rparr>) = score env tc c"
proof -
  let ?c = "c\<lparr>c_sensitivity_proof := p\<rparr>"
  have "run_command env ?c = run_command env c" "run_assertion env ?c = run_assertion env c"
    "run_schema env ?c = run_schema env c" "run_metric env ?c = run_metric env c"
    "run_judge env tc ?c = run_judge env tc c"
    by (simp_all add: run_command_def run_assertion_def run_schema_def run_metric_def run_judge_def
        evaluate_judge_def Let_def split: command_outcome.split assertion_outcome.split
        schema_outcome.split option.split sum.split)
  then show ?thesis by (simp add: score_def split: criterion_kind.split)
qed

lemma refine_proves:
  assumes "c \<in> set (refine_goal_criteria ctx cs)" "\<forall>c \<in> set cs. c_sensitivity_proof c = None"
    and "is_required c" "\<And>e. cx_digest ctx e (cx_negative_fingerprint ctx) \<noteq> []"
  shows "is_preregistered_and_proven (cx_digest ctx) c \<longleftrightarrow>
           c_kind c \<noteq> Judge \<and> (\<forall>r. score (cx_negative_env ctx) True c = Inr r \<longrightarrow> \<not> r_passed r)"
proof -
  obtain c0 where c0: "c0 \<in> set cs" "1 \<le> c_weight c0"
    "c = c0\<lparr>c_sensitivity_proof := Some (author_sensitivity_proof ctx c0)\<rparr>"
    using assms(1-3) by (auto simp: refine_goal_criteria_def is_required_def split: if_splits)
  have "is_preregistered_and_proven (cx_digest ctx) c \<longleftrightarrow> pf_rejected (author_sensitivity_proof ctx c0)"
    using c0 assms(4) by (intro author_proof_binds) auto
  also have "\<dots> \<longleftrightarrow> c_kind c0 \<noteq> Judge \<and> (\<forall>r. score (cx_negative_env ctx) True c0 = Inr r \<longrightarrow> \<not> r_passed r)"
    by (cases "c_kind c0") (auto simp: author_sensitivity_proof_def Let_def score_def)
  also have "\<dots> \<longleftrightarrow> c_kind c \<noteq> Judge \<and> (\<forall>r. score (cx_negative_env ctx) True c = Inr r \<longrightarrow> \<not> r_passed r)"
    by (simp add: c0(3) score_proof_update)
  finally show ?thesis .
qed

text \<open>Sealing the freeze constraints only substitutes unproven criteria for unproven ones.\<close>

lemma last_by_id_mem:
  "foldl (\<lambda>m c. m(c_id c \<mapsto> c)) m cs k = Some c \<Longrightarrow> c \<in> set cs \<or> m k = Some c"
  by (induction cs arbitrary: m) (force split: if_splits)+

lemma last_by_id_dom:
  "dom (foldl (\<lambda>m c. m(c_id c \<mapsto> c)) m cs) = dom m \<union> c_id ` set cs"
  by (induction cs arbitrary: m) auto

lemma sealed_criterion_sel:
  "sealed_criterion ctx k = Inr c \<Longrightarrow> c_id c = k_id k \<and> c_sensitivity_proof c = None \<and> c_kind c = Command"
  by (auto simp: sealed_criterion_def)

lemma seal_unproven:
  assumes "seal_must_not_modify_criteria ctx g cs = Inr out" "\<forall>c \<in> set cs. c_sensitivity_proof c = None"
  shows "\<forall>c \<in> set out. c_sensitivity_proof c = None"
proof (cases "filter (\<lambda>k. k_kind k = MustNotModify) (g_constraints g) = []")
  case True
  then show ?thesis using assms by (simp add: seal_must_not_modify_criteria_def)
next
  case False
  define freezes where "freezes = filter (\<lambda>k. k_kind k = MustNotModify) (g_constraints g)"
  obtain sealed where sealed: "list_all2 (\<lambda>k c. sealed_criterion ctx k = Inr c) freezes sealed"
    and out: "out = map (\<lambda>c. case foldl (\<lambda>m c. m(c_id c \<mapsto> c)) Map.empty (cs @ sealed) (c_id c) of
                Some c' \<Rightarrow> c' | None \<Rightarrow> c) cs @
              map (\<lambda>k. the (foldl (\<lambda>m c. m(c_id c \<mapsto> c)) Map.empty (cs @ sealed) (k_id k)))
                (filter (\<lambda>k. k_id k \<notin> set (map c_id cs)) freezes)"
    using assms(1) False
    by (auto simp: seal_must_not_modify_criteria_def freezes_def[symmetric] map_result_Inr Let_def)
  define by_id where "by_id = foldl (\<lambda>m c. m(c_id c \<mapsto> c)) Map.empty (cs @ sealed)"
  have seal: "c_sensitivity_proof c = None" if "c \<in> set sealed" for c
    using list_all2_ex[OF sealed that] by (auto dest: sealed_criterion_sel)
  have found: "c_sensitivity_proof c = None" if "by_id i = Some c" for i c
    using last_by_id_mem[of Map.empty "cs @ sealed" i c] that seal assms(2) by (auto simp: by_id_def)
  have ids: "map c_id sealed = map k_id freezes"
    using sealed by (induction rule: list_all2_induct) (auto dest: sealed_criterion_sel)
  have "k_id k \<in> dom by_id" if "k \<in> set freezes" for k
    using that arg_cong[OF ids, of set] by (auto simp: by_id_def last_by_id_dom)
  then have "c_sensitivity_proof (the (by_id (k_id k))) = None" if "k \<in> set freezes" for k
    using that found by fastforce
  then show ?thesis
    using found assms(2) unfolding out by_id_def[symmetric] by (auto split: option.splits)
qed

text \<open>
  A goal's required criteria gate only if they can fail: when no timeout ceiling applies, intake
  locks the criteria and pins their hash in the manifest, and a required criterion of the locked set
  counts as preregistered and proven exactly when it is not a judge and its check does not pass on
  the empty negative fixture.\<close>

theorem intake_proves_exactly_the_falsifiable:
  assumes "intake s ctx = Inr oc" "t_goal (rs_task s) = Some g" "cx_max_criterion_timeout_s ctx = None"
    and "\<And>e. cx_digest ctx e (cx_negative_fingerprint ctx) \<noteq> []"
  shows "rs_criteria_locked (oc_state oc) \<and>
         mf_criteria_hash (rs_manifest (oc_state oc)) = Some (cx_criteria_hash ctx (rs_criteria (oc_state oc))) \<and>
         (\<forall>c \<in> set (rs_criteria (oc_state oc)). is_required c \<longrightarrow>
            (is_preregistered_and_proven (cx_digest ctx) c \<longleftrightarrow>
               c_kind c \<noteq> Judge \<and> (\<forall>r. score (cx_negative_env ctx) True c = Inr r \<longrightarrow> \<not> r_passed r)))"
proof -
  obtain cs out where cs: "compile_goal g Caller = Inr cs" "seal_must_not_modify_criteria ctx g cs = Inr out"
    and st: "rs_criteria (oc_state oc) = refine_goal_criteria ctx out"
      "rs_criteria_locked (oc_state oc)"
      "mf_criteria_hash (rs_manifest (oc_state oc)) = Some (cx_criteria_hash ctx (refine_goal_criteria ctx out))"
    using assms(1-3) by (auto simp: intake_def intake_criteria_def Let_def split: sum.splits)
  have "\<forall>c \<in> set out. c_sensitivity_proof c = None"
    using seal_unproven[OF cs(2)] compile_goal_unproven[OF cs(1)] by blast
  then show ?thesis
    using refine_proves[of _ ctx out] assms(4) st by simp
qed

definition goal_state :: run_state where
  "goal_state = example_state\<lparr>rs_task := example_task\<lparr>t_goal := Some example_goal\<rparr>\<rparr>"

theorem intake_proves_exactly_the_falsifiable_witness:
  "\<exists>oc. intake goal_state example_nctx = Inr oc \<and> rs_criteria_locked (oc_state oc)"
proof -
  have g: "t_goal (rs_task goal_state) = Some example_goal" by (simp add: goal_state_def)
  obtain c where "compile_goal example_goal Caller = Inr [c]" using example_goal_compiles by blast
  then have "\<exists>oc. intake goal_state example_nctx = Inr oc"
    by (simp add: intake_def intake_criteria_def g seal_must_not_modify_criteria_def example_goal_def Let_def
        bind_result_def)
  then obtain oc where oc: "intake goal_state example_nctx = Inr oc" ..
  from intake_proves_exactly_the_falsifiable[OF this g example_nctx_sel(3)] oc show ?thesis
    by (auto simp: example_nctx_sel toy_digest_def)
qed

subsection \<open>Frame\<close>

lemma intake_frame:
  "intake s ctx = Inr oc \<Longrightarrow>
     same_frame s (oc_state oc) \<and> rs_spent (oc_state oc) = rs_spent s \<and>
     rs_branches (oc_state oc) = rs_branches s"
  by (auto simp: intake_def Let_def same_frame_def split: sum.splits)

lemma retrieve_frame:
  "same_frame s (oc_state (retrieve s ctx)) \<and> rs_spent (oc_state (retrieve s ctx)) = rs_spent s \<and>
   rs_branches (oc_state (retrieve s ctx)) = rs_branches s \<and>
   rs_criteria (oc_state (retrieve s ctx)) = rs_criteria s"
  by (auto simp: retrieve_def Let_def same_frame_def pin_snapshot_def split: option.splits prod.splits)

lemma distill_frame:
  "same_frame s (oc_state (distill s ctx)) \<and> rs_spent (oc_state (distill s ctx)) = rs_spent s \<and>
   rs_branches (oc_state (distill s ctx)) = rs_branches s \<and>
   rs_criteria (oc_state (distill s ctx)) = rs_criteria s \<and> rs_results (oc_state (distill s ctx)) = rs_results s"
  by (auto simp: distill_def author_or_reject_def Let_def same_frame_def split: prod.splits)

lemma review_frame: "oc_state (review s ctx) = s"
  by (auto simp: review_def Let_def split: option.splits)

lemma reject_draft_frame: "oc_state (reject_draft s ctx) = s"
  by (simp add: reject_draft_def)

lemma store_frame:
  assumes "store s ctx = Inr oc"
  shows "same_frame s (oc_state oc) \<and> sp_attempts (rs_spent (oc_state oc)) = sp_attempts (rs_spent s) \<and>
         rs_branches (oc_state oc) = rs_branches s \<and> rs_criteria (oc_state oc) = rs_criteria s \<and>
         rs_results (oc_state oc) = rs_results s"
  using assms by (rule store_InrE) (simp add: same_frame_def charge_version_write_def)

text \<open>
  The control arm measures without memory: on the control arm retrieve hands the run an empty
  bundle marked suppressed, whatever the index and the stores would return, and on the other arms
  the bundle is never marked suppressed; either way the control-arm validator of the run state holds
  afterwards.\<close>

theorem retrieve_suppresses_control:
  "mb_suppressed (rs_bundle (oc_state (retrieve s ctx))) = (rs_arm s = Control) \<and>
   (rs_arm s = Control \<longrightarrow> mb_skills (rs_bundle (oc_state (retrieve s ctx))) = [] \<and>
      mb_facts (rs_bundle (oc_state (retrieve s ctx))) = [] \<and>
      mb_cases (rs_bundle (oc_state (retrieve s ctx))) = []) \<and>
   control_arm_ok (oc_state (retrieve s ctx))"
  by (auto simp: retrieve_def Let_def pin_snapshot_def control_arm_ok_def empty_bundle_def
      split: option.splits prod.splits)

theorem retrieve_suppresses_control_witness:
  "control_arm_ok (oc_state (retrieve (example_state\<lparr>rs_arm := Control\<rparr>) example_nctx))"
  using retrieve_suppresses_control[of "example_state\<lparr>rs_arm := Control\<rparr>" example_nctx] by blast

end
