(* ===== verification/Mea_Audit.thy ===== *)
theory Mea_Audit
  imports Route_Table
begin

section \<open>The manager, executor, auditor loop\<close>

text \<open>
  \<open>contracts/audited_task_state.py\<close> (the audited state, subtask contracts, auditor deltas and the
  compare-and-swap \<open>apply_auditor_delta\<close>), \<open>mea/activation.py\<close>, \<open>mea/controller.py\<close> and
  \<open>mea/runtime.py\<close>. The sidecar store is a map from run ids to audited states; the hash of the locked
  criteria is a parameter.
\<close>

subsection \<open>Contracts\<close>

datatype network_scope = NetNone | NetAllowlist | NetOpen

record scope_descriptor =
  sd_files :: "string list"
  sd_commands :: "string list"
  sd_network :: network_scope
  sd_permissions :: "string list"
  sd_notes :: "string option"

datatype artifact_kind =
  KScreenshot | KHar | KTerminalLog | KDiff | KFile | KJson | KText | KOther

record artifact_ref =
  ar_kind :: artifact_kind
  ar_ref :: string
  ar_description :: "string option"
  ar_sha256 :: "string option"

record verified_decision =
  vd_decision_id :: string
  vd_statement :: string
  vd_evidence_refs :: "artifact_ref list"
  vd_verified_at :: instant

record failed_approach =
  fa_approach_id :: string
  fa_description :: string
  fa_observed_failure :: string
  fa_evidence_refs :: "artifact_ref list"
  fa_recorded_at :: instant

record blocker =
  bk_blocker_id :: string
  bk_description :: string
  bk_since_version :: int
  bk_evidence_refs :: "artifact_ref list"

record audited_state =
  at_state_id :: string
  at_goal_id :: string
  at_version :: int
  at_objective :: string
  at_acceptance_criteria :: "task_criterion list"
  at_criteria_snapshot_hash :: string
  at_scope :: scope_descriptor
  at_isolation_policy_ref :: string
  at_accepted_commit :: "string option"
  at_verified_decisions :: "verified_decision list"
  at_failed_approaches :: "failed_approach list"
  at_current_blockers :: "blocker list"
  at_current_phase :: string
  at_evidence_refs :: "artifact_ref list"
  at_budget_residual :: residual_budget
  at_last_auditor_report_id :: "string option"
  at_updated_at :: instant
  at_rounds_consumed :: int
  at_max_rounds :: int

record subtask_contract =
  sub_subtask_id :: string
  sub_parent_state_version :: int
  sub_description :: string
  sub_acceptance_criteria :: "task_criterion list"
  sub_scope :: scope_descriptor
  sub_budget :: budget
  sub_max_steps :: int

record auditor_delta =
  ad_report_id :: string
  ad_parent_version :: int
  ad_proposed_version :: int
  ad_verified_decisions_added :: "verified_decision list"
  ad_failed_approaches_added :: "failed_approach list"
  ad_blockers_set :: "blocker list"
  ad_blockers_cleared :: "string list"
  ad_current_phase :: "string option"
  ad_accepted_commit :: "string option"
  ad_evidence_refs_added :: "artifact_ref list"
  ad_criteria_snapshot_hash :: string
  ad_isolation_policy_ref :: string
  ad_budget_residual :: residual_budget
  ad_produced_at :: instant

definition empty_scope :: scope_descriptor where
  "empty_scope = \<lparr>sd_files = [], sd_commands = [], sd_network = NetNone, sd_permissions = [], sd_notes = None\<rparr>"

text \<open>The field bounds and the validators of the models.\<close>

definition audited_ok :: "audited_state \<Rightarrow> bool" where
  "audited_ok a \<longleftrightarrow>
     0 \<le> at_version a \<and> at_acceptance_criteria a \<noteq> [] \<and> at_criteria_snapshot_hash a \<noteq> [] \<and>
     residual_ok (at_budget_residual a) \<and> 0 \<le> at_rounds_consumed a \<and> 1 \<le> at_max_rounds a \<and>
     at_rounds_consumed a \<le> at_max_rounds a"

definition delta_ok :: "auditor_delta \<Rightarrow> bool" where
  "delta_ok d \<longleftrightarrow>
     0 \<le> ad_parent_version d \<and> ad_proposed_version d = ad_parent_version d + 1 \<and>
     (\<forall>v \<in> set (ad_verified_decisions_added d). vd_evidence_refs v \<noteq> []) \<and>
     residual_ok (ad_budget_residual d)"

datatype cas_reason =
  CasMismatch | CriteriaSnapshotHashDrift | IsolationPolicyRefMismatch | IsolationPolicyRefEmpty |
  MaxRoundsExceeded

definition apply_auditor_delta :: "audited_state \<Rightarrow> auditor_delta \<Rightarrow> cas_reason + audited_state" where
  "apply_auditor_delta a d =
     (if ad_parent_version d \<noteq> at_version a then Inl CasMismatch
      else if ad_criteria_snapshot_hash d \<noteq> at_criteria_snapshot_hash a then Inl CriteriaSnapshotHashDrift
      else if ad_isolation_policy_ref d \<noteq> at_isolation_policy_ref a then Inl IsolationPolicyRefMismatch
      else if ad_isolation_policy_ref d = [] then Inl IsolationPolicyRefEmpty
      else if at_max_rounds a < at_rounds_consumed a + 1 then Inl MaxRoundsExceeded
      else Inr (a\<lparr>at_version := ad_proposed_version d,
                  at_verified_decisions := at_verified_decisions a @ ad_verified_decisions_added d,
                  at_failed_approaches := at_failed_approaches a @ ad_failed_approaches_added d,
                  at_current_blockers :=
                    filter (\<lambda>b. bk_blocker_id b \<notin> set (ad_blockers_cleared d)) (at_current_blockers a) @
                    ad_blockers_set d,
                  at_current_phase :=
                    (case ad_current_phase d of
                       Some ph \<Rightarrow> if ph = [] then at_current_phase a else ph | None \<Rightarrow> at_current_phase a),
                  at_accepted_commit :=
                    (case ad_accepted_commit d of None \<Rightarrow> at_accepted_commit a | Some c \<Rightarrow> Some c),
                  at_evidence_refs := at_evidence_refs a @ ad_evidence_refs_added d,
                  at_budget_residual := ad_budget_residual d,
                  at_last_auditor_report_id := Some (ad_report_id d),
                  at_rounds_consumed := at_rounds_consumed a + 1,
                  at_updated_at := ad_produced_at d\<rparr>))"

subsection \<open>Activation\<close>

record mea_activation =
  ma_policy_enabled :: bool
  ma_goal_opt_in :: bool
  ma_runtime_strategy :: execution_strategy
  ma_active :: bool
  ma_fallback_reason :: "string option"

definition resolve_mea_activation :: "bool \<Rightarrow> bool \<Rightarrow> execution_strategy \<Rightarrow> mea_activation" where
  "resolve_mea_activation policy_enabled goal_opt_in strategy =
     (if \<not> policy_enabled then
        \<lparr>ma_policy_enabled = False, ma_goal_opt_in = goal_opt_in, ma_runtime_strategy = strategy,
         ma_active = False, ma_fallback_reason = Some ''policy_mea_disabled''\<rparr>
      else if \<not> goal_opt_in then
        \<lparr>ma_policy_enabled = True, ma_goal_opt_in = False, ma_runtime_strategy = strategy,
         ma_active = False, ma_fallback_reason = Some ''goal_not_opted_in''\<rparr>
      else if strategy \<noteq> MeaExecution then
        \<lparr>ma_policy_enabled = True, ma_goal_opt_in = True, ma_runtime_strategy = strategy,
         ma_active = False, ma_fallback_reason = Some ''runtime_strategy_not_mea''\<rparr>
      else
        \<lparr>ma_policy_enabled = True, ma_goal_opt_in = True, ma_runtime_strategy = MeaExecution,
         ma_active = True, ma_fallback_reason = None\<rparr>)"

definition should_note_fallback :: "mea_activation \<Rightarrow> bool" where
  "should_note_fallback m \<longleftrightarrow>
     \<not> ma_active m \<and> (ma_policy_enabled m \<or> ma_goal_opt_in m \<or> ma_runtime_strategy m = MeaExecution)"

text \<open>What the loop reads of the policy.\<close>

record mea_policy =
  mp_mea_enabled :: bool
  mp_mea_max_rounds :: int

definition resolve_from_run :: "run_state \<Rightarrow> mea_policy option \<Rightarrow> mea_activation" where
  "resolve_from_run s policy =
     resolve_mea_activation
       (case policy of None \<Rightarrow> False | Some p \<Rightarrow> mp_mea_enabled p)
       (case t_goal (rs_task s) of None \<Rightarrow> False | Some g \<Rightarrow> g_mea_opt_in g)
       (t_execution_strategy (rs_task s))"

subsection \<open>Controller\<close>

datatype early_stop = MaxRoundsReached int int | ResidualAttemptsExhausted int int

definition enforce_round_budget :: "audited_state \<Rightarrow> early_stop option" where
  "enforce_round_budget a =
     (if at_max_rounds a \<le> at_rounds_consumed a then
        Some (MaxRoundsReached (at_rounds_consumed a) (at_max_rounds a))
      else if res_attempts (at_budget_residual a) \<le> 0 then
        Some (ResidualAttemptsExhausted (at_rounds_consumed a) (at_max_rounds a))
      else None)"

datatype audit_refusal =
  AuditorMissingConversation | AuditorSharesExecutorConversation | Stopped early_stop | Cas cas_reason

definition require_fresh_auditor_context :: "string option \<Rightarrow> string option \<Rightarrow> audit_refusal option" where
  "require_fresh_auditor_context executor auditor =
     (case auditor of
        None \<Rightarrow> Some AuditorMissingConversation
      | Some a \<Rightarrow>
          (case executor of
             None \<Rightarrow> None
           | Some e \<Rightarrow> if a = e then Some AuditorSharesExecutorConversation else None))"

definition slice :: "int \<Rightarrow> int \<Rightarrow> int" where
  "slice whole rounds = max 1 (min whole (max 1 (whole div rounds)))"

text \<open>\<open>propose_subtask\<close>: \<open>Inl\<close> is \<open>BudgetExhaustedError\<close>; inside, \<open>Inl\<close> is an early stop.\<close>

definition propose_subtask ::
    "audited_state \<Rightarrow> string \<Rightarrow> string \<Rightarrow> task_criterion list option \<Rightarrow> scope_descriptor option \<Rightarrow> int \<Rightarrow>
     (budget_error, early_stop + subtask_contract) result" where
  "propose_subtask a sid desc criteria scope max_steps =
     (case enforce_round_budget a of
        Some stop \<Rightarrow> Inr (Inl stop)
      | None \<Rightarrow>
          (let cs = (case criteria of Some cs \<Rightarrow> if cs = [] then at_acceptance_criteria a else cs
                                    | None \<Rightarrow> at_acceptance_criteria a);
               residual = at_budget_residual a;
               remaining = max 1 (at_max_rounds a - at_rounds_consumed a);
               tool_slice = (if 0 < res_tool_calls residual then slice (res_tool_calls residual) remaining
                             else res_tool_calls residual);
               sliced = residual\<lparr>res_attempts := slice (res_attempts residual) remaining,
                                 res_tool_calls := max 1 tool_slice\<rparr>
           in case as_admission_budget sliced of
                Inl e \<Rightarrow> Inl e
              | Inr b \<Rightarrow>
                  Inr (Inr \<lparr>sub_subtask_id = sid, sub_parent_state_version = at_version a,
                    sub_description = desc, sub_acceptance_criteria = cs,
                    sub_scope = (case scope of Some x \<Rightarrow> x | None \<Rightarrow> at_scope a), sub_budget = b,
                    sub_max_steps = max_steps\<rparr>)))"

subsection \<open>Runtime\<close>

definition residual_of :: "budget \<Rightarrow> residual_budget" where
  "residual_of b =
     \<lparr>res_attempts = max_attempts b, res_tool_calls = max_tool_calls b, res_tokens = max_tokens b,
      res_wall_clock_s = max_wall_clock_s b, res_cost_usd = max_cost_usd b, res_branches = max_branches b,
      res_parallel_steps = max_parallel_steps b, res_claim_timeout_s = claim_timeout_s b,
      res_versions_written = max_versions_written b\<rparr>"

definition or_else :: "string option \<Rightarrow> string \<Rightarrow> string" where
  "or_else x d = (case x of Some v \<Rightarrow> if v = [] then d else v | None \<Rightarrow> d)"

definition create_audited_state ::
    "(task_criterion list \<Rightarrow> string) \<Rightarrow> run_state \<Rightarrow> mea_policy option \<Rightarrow> instant \<Rightarrow> audited_state" where
  "create_audited_state criteria_hash s policy now =
     (let goal = t_goal (rs_task s); tid = t_task_id (rs_task s)
      in \<lparr>at_state_id = ''ats_'' @ rs_run_id s,
          at_goal_id = or_else (Option.bind goal g_goal_id) tid, at_version = 0,
          at_objective = or_else (Option.bind goal g_context) (or_else (t_request (rs_task s)) tid),
          at_acceptance_criteria = rs_criteria s,
          at_criteria_snapshot_hash = or_else (mf_criteria_hash (rs_manifest s)) (criteria_hash (rs_criteria s)),
          at_scope = empty_scope, at_isolation_policy_ref = ''container_default'',
          at_accepted_commit = None, at_verified_decisions = [], at_failed_approaches = [],
          at_current_blockers = [], at_current_phase = ''intake'', at_evidence_refs = [],
          at_budget_residual = residual_of (rs_budget s), at_last_auditor_report_id = None,
          at_updated_at = now, at_rounds_consumed = 0,
          at_max_rounds = (case policy of Some p \<Rightarrow> mp_mea_max_rounds p | None \<Rightarrow> 12)\<rparr>)"

definition executor_conversation_id :: "run_id \<Rightarrow> int \<Rightarrow> string" where
  "executor_conversation_id rid n = rid @ '':solve:'' @ str_of_int n"

definition auditor_conversation_id :: "run_id \<Rightarrow> int \<Rightarrow> string" where
  "auditor_conversation_id rid n = rid @ '':validate:'' @ str_of_int n"

type_synonym sidecar = "run_id \<Rightarrow> audited_state option"

definition bind_after_intake ::
    "(task_criterion list \<Rightarrow> string) \<Rightarrow> mea_policy option \<Rightarrow> instant \<Rightarrow> bool \<Rightarrow> sidecar \<Rightarrow> run_state \<Rightarrow>
     run_state \<times> sidecar \<times> effect list" where
  "bind_after_intake criteria_hash policy now has_ledger store s =
     (let activation = resolve_from_run s policy
      in if ma_active activation \<and> rs_criteria s \<noteq> [] then
           (s\<lparr>rs_mea_active := True, rs_mea_fallback_reason := None\<rparr>,
            store(rs_run_id s \<mapsto> create_audited_state criteria_hash s policy now), [])
         else if should_note_fallback activation then
           (s\<lparr>rs_mea_active := False, rs_mea_fallback_reason := ma_fallback_reason activation\<rparr>, store,
            (if has_ledger then [LedgerAppend LMeaActivationFallback (rs_run_id s)] else []))
         else (s, store, []))"

definition evidence_for :: "criterion_result \<Rightarrow> artifact_ref" where
  "evidence_for r =
     \<lparr>ar_kind = KTerminalLog, ar_ref = ''criterion:'' @ r_criterion_id r,
      ar_description = (if r_output_excerpt r = [] then None else Some (r_output_excerpt r)), ar_sha256 = None\<rparr>"

definition decision_for :: "instant \<Rightarrow> criterion_result \<Rightarrow> verified_decision" where
  "decision_for now r =
     \<lparr>vd_decision_id = r_criterion_id r,
      vd_statement = ''criterion '' @ r_criterion_id r @ '' passed under validate'',
      vd_evidence_refs = [evidence_for r], vd_verified_at = now\<rparr>"

definition blocker_id_of :: "string \<Rightarrow> string" where
  "blocker_id_of cid = ''crit:'' @ cid"

definition fresh_passes :: "audited_state \<Rightarrow> run_state \<Rightarrow> criterion_result list" where
  "fresh_passes a s =
     filter (\<lambda>r. r_passed r \<and> r_criterion_id r \<notin> vd_decision_id ` set (at_verified_decisions a)) (rs_results s)"

definition failing_ids :: "run_state \<Rightarrow> string list" where
  "failing_ids s = map r_criterion_id (filter (\<lambda>r. \<not> r_passed r) (rs_results s))"

definition passing_ids :: "run_state \<Rightarrow> string list" where
  "passing_ids s = map r_criterion_id (filter r_passed (rs_results s))"

definition clears :: "run_state \<Rightarrow> string \<Rightarrow> bool" where
  "clears s b \<longleftrightarrow> py_startswith b ''crit:'' \<and> drop 5 b \<in> set (passing_ids s)"

definition propose_validate_delta ::
    "audited_state \<Rightarrow> run_state \<Rightarrow> int \<Rightarrow> instant \<Rightarrow> audit_refusal + auditor_delta" where
  "propose_validate_delta a s attempt_no now =
     (case require_fresh_auditor_context
             (Some (executor_conversation_id (rs_run_id s) attempt_no))
             (Some (auditor_conversation_id (rs_run_id s) attempt_no)) of
        Some why \<Rightarrow> Inl why
      | None \<Rightarrow>
          (case enforce_round_budget a of
             Some stop \<Rightarrow> Inl (Stopped stop)
           | None \<Rightarrow>
               (let added = fresh_passes a s;
                    failing = failing_ids s;
                    existing = map bk_blocker_id (at_current_blockers a);
                    blockers = map (\<lambda>cid. \<lparr>bk_blocker_id = blocker_id_of cid,
                        bk_description = ''criterion '' @ cid @ '' failed'',
                        bk_since_version = at_version a + 1, bk_evidence_refs = []\<rparr>)
                      (filter (\<lambda>cid. blocker_id_of cid \<notin> set existing) failing);
                    cleared = filter (clears s) existing;
                    residual = (at_budget_residual a)
                      \<lparr>res_attempts := max 0 (res_attempts (at_budget_residual a) - 1)\<rparr>;
                    n_verified = length (at_verified_decisions a) + length added;
                    n_crit = length (at_acceptance_criteria a);
                    phase = (if 0 < n_crit \<and> n_crit \<le> n_verified \<and> failing = [] then ''complete''
                             else ''execute'')
                in Inr \<lparr>ad_report_id = ''ar_'' @ rs_run_id s @ ''_'' @ str_of_int (at_version a + 1),
                        ad_parent_version = at_version a, ad_proposed_version = at_version a + 1,
                        ad_verified_decisions_added = map (decision_for now) added,
                        ad_failed_approaches_added = [], ad_blockers_set = blockers,
                        ad_blockers_cleared = cleared, ad_current_phase = Some phase,
                        ad_accepted_commit = None, ad_evidence_refs_added = map evidence_for added,
                        ad_criteria_snapshot_hash = at_criteria_snapshot_hash a,
                        ad_isolation_policy_ref = at_isolation_policy_ref a,
                        ad_budget_residual = residual, ad_produced_at = now\<rparr>)))"

definition apply_validate_audit ::
    "audited_state \<Rightarrow> run_state \<Rightarrow> int \<Rightarrow> instant \<Rightarrow> audit_refusal + (audited_state \<times> auditor_delta)" where
  "apply_validate_audit a s attempt_no now =
     (case propose_validate_delta a s attempt_no now of
        Inl why \<Rightarrow> Inl why
      | Inr d \<Rightarrow>
          (case apply_auditor_delta a d of Inl why \<Rightarrow> Inl (Cas why) | Inr a' \<Rightarrow> Inr (a', d)))"

definition audit_after_validate ::
    "instant \<Rightarrow> sidecar \<Rightarrow> run_state \<Rightarrow> int \<Rightarrow> sidecar \<times> auditor_delta option" where
  "audit_after_validate now store s attempt_no =
     (if \<not> rs_mea_active s then (store, None)
      else case store (rs_run_id s) of
             None \<Rightarrow> (store, None)
           | Some a \<Rightarrow>
               (case apply_validate_audit a s attempt_no now of
                  Inl _ \<Rightarrow> (store, None)
                | Inr (a', d) \<Rightarrow> (store(rs_run_id s \<mapsto> a'), Some d)))"

subsection \<open>Activation needs all three layers\<close>

lemma resolve_from_run_active:
  "ma_active (resolve_from_run s policy) \<longleftrightarrow>
     (\<exists>p g. policy = Some p \<and> mp_mea_enabled p \<and> t_goal (rs_task s) = Some g \<and> g_mea_opt_in g \<and>
           t_execution_strategy (rs_task s) = MeaExecution)"
  by (auto simp: resolve_from_run_def resolve_mea_activation_def split: option.splits)

lemma bind_after_intake_frame:
  assumes "bind_after_intake h policy now l store s = (s', store', es)"
  shows "same_frame s s' \<and> rs_spent s' = rs_spent s \<and> rs_branches s' = rs_branches s \<and>
         rs_criteria s' = rs_criteria s"
  using assms by (auto simp: bind_after_intake_def Let_def same_frame_def split: if_splits)

text \<open>
  The loop starts only by triple consent: after intake the run is marked active, with a fresh
  audited state of the locked criteria in the sidecar, exactly when the policy enables the loop, the
  goal opted in, the task asks for it and there is a criterion; a partial request leaves it inactive
  with the reason recorded, and a run that asked for nothing is returned unchanged.\<close>

theorem mea_activation_needs_all_layers:
  assumes "bind_after_intake criteria_hash policy now has_ledger store s = (s', store', es)"
    and "\<not> rs_mea_active s"
  shows "(rs_mea_active s' \<longleftrightarrow>
            rs_criteria s \<noteq> [] \<and>
            (\<exists>p g. policy = Some p \<and> mp_mea_enabled p \<and> t_goal (rs_task s) = Some g \<and> g_mea_opt_in g \<and>
                  t_execution_strategy (rs_task s) = MeaExecution)) \<and>
         (rs_mea_active s' \<longrightarrow>
            store' = store(rs_run_id s \<mapsto> create_audited_state criteria_hash s policy now) \<and> es = []) \<and>
         (\<not> rs_mea_active s' \<longrightarrow> store' = store)"
  using assms resolve_from_run_active[of s policy]
  by (auto simp: bind_after_intake_def Let_def split: if_splits)

subsection \<open>What an accepted audit records\<close>

lemma fresh_auditor [simp]:
  "require_fresh_auditor_context (Some (executor_conversation_id r n)) (Some (auditor_conversation_id r n)) = None"
  by (simp add: require_fresh_auditor_context_def executor_conversation_id_def auditor_conversation_id_def)

lemma uncleared:
  "filter (\<lambda>b. bk_blocker_id b \<notin> bk_blocker_id ` {x \<in> set bs. clears s (bk_blocker_id x)}) bs =
   filter (\<lambda>b. \<not> clears s (bk_blocker_id b)) bs"
  by (rule filter_cong) auto

lemma apply_validate_audit_InrE:
  assumes "apply_validate_audit a s n now = Inr (a', d)"
  obtains "enforce_round_budget a = None" "at_isolation_policy_ref a \<noteq> []"
    "at_version a' = at_version a + 1" "at_rounds_consumed a' = at_rounds_consumed a + 1"
    "at_max_rounds a' = at_max_rounds a"
    "res_attempts (at_budget_residual a') = max 0 (res_attempts (at_budget_residual a) - 1)"
    "at_acceptance_criteria a' = at_acceptance_criteria a"
    "at_criteria_snapshot_hash a' = at_criteria_snapshot_hash a"
    "at_isolation_policy_ref a' = at_isolation_policy_ref a"
    "at_verified_decisions a' = at_verified_decisions a @ map (decision_for now) (fresh_passes a s)"
    "map bk_blocker_id (at_current_blockers a') =
       filter (\<lambda>b. \<not> clears s b) (map bk_blocker_id (at_current_blockers a)) @
       filter (\<lambda>b. b \<notin> bk_blocker_id ` set (at_current_blockers a)) (map blocker_id_of (failing_ids s))"
    "at_current_phase a' =
       (if at_acceptance_criteria a \<noteq> [] \<and>
           length (at_acceptance_criteria a) \<le> length (at_verified_decisions a) + length (fresh_passes a s) \<and>
           failing_ids s = [] then ''complete'' else ''execute'')"
  using assms
  by (auto simp: apply_validate_audit_def propose_validate_delta_def apply_auditor_delta_def Let_def
      filter_map o_def uncleared split: option.splits if_splits)

lemma apply_validate_audit_accepts_iff:
  assumes "at_isolation_policy_ref a \<noteq> []"
  shows "is_ok (apply_validate_audit a s n now) \<longleftrightarrow> enforce_round_budget a = None"
  using assms
  by (auto simp: is_ok_iff apply_validate_audit_def propose_validate_delta_def apply_auditor_delta_def
      enforce_round_budget_def Let_def split: option.splits if_splits)

lemma clears_blocker: "clears s (blocker_id_of cid) \<longleftrightarrow> cid \<in> set (passing_ids s)"
  by (simp add: clears_def blocker_id_of_def py_startswith_def)

text \<open>An audited state follows a run when its results cover the accepted criteria, one result each, and
  its blockers and decisions name those criteria only.\<close>

definition follows :: "audited_state \<Rightarrow> run_state \<Rightarrow> bool" where
  "follows a s \<longleftrightarrow>
     map r_criterion_id (rs_results s) = map c_id (at_acceptance_criteria a) \<and>
     distinct (map c_id (at_acceptance_criteria a)) \<and> at_acceptance_criteria a \<noteq> [] \<and>
     set (map bk_blocker_id (at_current_blockers a)) \<subseteq> blocker_id_of ` set (map c_id (at_acceptance_criteria a)) \<and>
     distinct (map vd_decision_id (at_verified_decisions a)) \<and>
     set (map vd_decision_id (at_verified_decisions a)) \<subseteq> set (map c_id (at_acceptance_criteria a))"

lemma results_partition:
  assumes "follows a s"
  shows "set (passing_ids s) \<union> set (failing_ids s) = set (map c_id (at_acceptance_criteria a))"
    "set (passing_ids s) \<inter> set (failing_ids s) = {}" "distinct (passing_ids s)"
proof -
  have eq: "map r_criterion_id (rs_results s) = map c_id (at_acceptance_criteria a)"
    and "distinct (map c_id (at_acceptance_criteria a))"
    using assms unfolding follows_def by blast+
  then have d: "distinct (map r_criterion_id (rs_results s))" by simp
  have ids: "set (map c_id (at_acceptance_criteria a)) = r_criterion_id ` set (rs_results s)"
    using arg_cong[OF eq, of set] by simp
  show "set (passing_ids s) \<union> set (failing_ids s) = set (map c_id (at_acceptance_criteria a))"
    unfolding ids by (auto simp: passing_ids_def failing_ids_def)
  show "distinct (passing_ids s)" using d by (simp add: passing_ids_def distinct_map_filter)
  show "set (passing_ids s) \<inter> set (failing_ids s) = {}"
    using d by (auto simp: passing_ids_def failing_ids_def distinct_map dest: inj_onD)
qed

lemma decision_ids:
  "map vd_decision_id (map (decision_for now) rs) = map r_criterion_id rs"
  by (simp add: decision_for_def)

lemma fresh_pass_ids:
  "set (map r_criterion_id (fresh_passes a s)) =
     set (passing_ids s) - set (map vd_decision_id (at_verified_decisions a))"
  by (auto simp: fresh_passes_def passing_ids_def)

text \<open>Decisions of an audit that follows the run: distinct criteria, never more than there are.\<close>

lemma audit_decisions:
  assumes "apply_validate_audit a s n now = Inr (a', d)" "follows a s"
  shows "distinct (map vd_decision_id (at_verified_decisions a'))"
    and "set (map vd_decision_id (at_verified_decisions a')) =
           set (map vd_decision_id (at_verified_decisions a)) \<union> set (passing_ids s)"
proof -
  have v: "at_verified_decisions a' = at_verified_decisions a @ map (decision_for now) (fresh_passes a s)"
    using assms(1) by (rule apply_validate_audit_InrE)
  have "distinct (map r_criterion_id (rs_results s))" using assms(2) by (simp add: follows_def)
  then have "distinct (map r_criterion_id (fresh_passes a s))"
    by (simp add: fresh_passes_def distinct_map_filter)
  then show "distinct (map vd_decision_id (at_verified_decisions a'))"
    using assms(2) fresh_pass_ids[of a s]
    unfolding v map_append decision_ids by (auto simp: follows_def)
  show "set (map vd_decision_id (at_verified_decisions a')) =
           set (map vd_decision_id (at_verified_decisions a)) \<union> set (passing_ids s)"
    unfolding v map_append decision_ids set_append fresh_pass_ids by auto
qed

lemma replaced_image:
  assumes "B \<subseteq> f ` (P \<union> F)" "P \<inter> F = {}" "\<And>c. cl (f c) \<longleftrightarrow> c \<in> P"
  shows "{x \<in> B. \<not> cl x} \<union> {x \<in> f ` F. x \<notin> B} = f ` F"
proof
  show "{x \<in> B. \<not> cl x} \<union> {x \<in> f ` F. x \<notin> B} \<subseteq> f ` F" using assms by fastforce
  show "f ` F \<subseteq> {x \<in> B. \<not> cl x} \<union> {x \<in> f ` F. x \<notin> B}" using assms(2,3) by fastforce
qed

lemma audit_blockers:
  assumes "apply_validate_audit a s n now = Inr (a', d)" "follows a s"
  shows "set (map bk_blocker_id (at_current_blockers a')) = blocker_id_of ` set (failing_ids s)"
proof -
  have b: "map bk_blocker_id (at_current_blockers a') =
       filter (\<lambda>b. \<not> clears s b) (map bk_blocker_id (at_current_blockers a)) @
       filter (\<lambda>b. b \<notin> bk_blocker_id ` set (at_current_blockers a)) (map blocker_id_of (failing_ids s))"
    using assms(1) by (rule apply_validate_audit_InrE)
  have "bk_blocker_id ` set (at_current_blockers a) \<subseteq>
      blocker_id_of ` (set (passing_ids s) \<union> set (failing_ids s))"
    unfolding results_partition(1)[OF assms(2)] using assms(2) unfolding follows_def by simp
  from replaced_image[where cl = "clears s", OF this results_partition(2)[OF assms(2)] clears_blocker]
  show ?thesis unfolding b by simp
qed

lemma audit_keeps_following:
  assumes "apply_validate_audit a s n now = Inr (a', d)" "follows a s"
    and "map r_criterion_id (rs_results s') = map c_id (at_acceptance_criteria a)"
  shows "follows a' s'"
proof -
  have c: "at_acceptance_criteria a' = at_acceptance_criteria a"
    using assms(1) by (rule apply_validate_audit_InrE)
  have sub: "set (failing_ids s) \<subseteq> set (map c_id (at_acceptance_criteria a))"
    "set (passing_ids s) \<subseteq> set (map c_id (at_acceptance_criteria a))"
    using results_partition(1)[OF assms(2)] by blast+
  show ?thesis
    using assms(2,3) audit_decisions(1)[OF assms(1,2)] sub image_mono[OF sub(1), of blocker_id_of]
    unfolding follows_def c audit_decisions(2)[OF assms(1,2)] audit_blockers[OF assms(1,2)] by simp
qed

text \<open>
  An accepted audit says what validation found, no more: for results that cover the accepted
  criteria one to one, the version and the round count advance by one, the open blockers are exactly
  the criteria that fail now, a criterion becomes a verified decision only by passing, and the phase
  becomes complete exactly when every criterion passed in this very validation.\<close>

theorem audit_records_exactly_the_results:
  assumes "apply_validate_audit a s n now = Inr (a', d)" and "follows a s"
  shows "at_version a' = at_version a + 1 \<and> at_rounds_consumed a' = at_rounds_consumed a + 1 \<and>
         at_rounds_consumed a' \<le> at_max_rounds a' \<and>
         set (map bk_blocker_id (at_current_blockers a')) = blocker_id_of ` set (failing_ids s) \<and>
         set (map vd_decision_id (at_verified_decisions a')) =
           set (map vd_decision_id (at_verified_decisions a)) \<union> set (passing_ids s) \<and>
         (at_current_phase a' = ''complete'' \<longleftrightarrow> (\<forall>r \<in> set (rs_results s). r_passed r))"
  using assms(1)
proof (rule apply_validate_audit_InrE)
  assume e: "enforce_round_budget a = None" "at_version a' = at_version a + 1"
    "at_rounds_consumed a' = at_rounds_consumed a + 1" "at_max_rounds a' = at_max_rounds a"
    and v: "at_verified_decisions a' = at_verified_decisions a @ map (decision_for now) (fresh_passes a s)"
    and ph: "at_current_phase a' =
       (if at_acceptance_criteria a \<noteq> [] \<and>
           length (at_acceptance_criteria a) \<le> length (at_verified_decisions a) + length (fresh_passes a s) \<and>
           failing_ids s = [] then ''complete'' else ''execute'')"
  have n: "length (at_verified_decisions a') = card (set (map vd_decision_id (at_verified_decisions a')))"
    using distinct_card[OF audit_decisions(1)[OF assms]] by simp
  have ok: "distinct (map c_id (at_acceptance_criteria a))" "at_acceptance_criteria a \<noteq> []"
    "set (map vd_decision_id (at_verified_decisions a)) \<subseteq> set (map c_id (at_acceptance_criteria a))"
    using assms(2) unfolding follows_def by blast+
  have "length (at_acceptance_criteria a) \<le> length (at_verified_decisions a')" if f: "failing_ids s = []"
  proof -
    have "set (map vd_decision_id (at_verified_decisions a')) = set (map c_id (at_acceptance_criteria a))"
      using results_partition(1)[OF assms(2)] ok(3) f unfolding audit_decisions(2)[OF assms] by auto
    then show ?thesis using n distinct_card[OF ok(1)] by simp
  qed
  then have "at_current_phase a' = ''complete'' \<longleftrightarrow> failing_ids s = []"
    using ph ok(2) v by (cases "failing_ids s = []") simp_all
  moreover have "failing_ids s = [] \<longleftrightarrow> (\<forall>r \<in> set (rs_results s). r_passed r)"
    by (auto simp: failing_ids_def filter_empty_conv)
  ultimately show ?thesis
    using e audit_blockers[OF assms] audit_decisions(2)[OF assms]
    by (auto simp: enforce_round_budget_def split: if_splits)
qed

subsection \<open>How often a run can be audited\<close>

text \<open>The audited states a run can reach by accepted audits, with the number of audits so far.\<close>

inductive audited_reach :: "audited_state \<Rightarrow> nat \<Rightarrow> audited_state \<Rightarrow> bool" for a0 where
  bound: "audited_reach a0 0 a0"
| audited: "audited_reach a0 k a \<Longrightarrow> apply_validate_audit a s n now = Inr (a', d) \<Longrightarrow> audited_reach a0 (Suc k) a'"

inductive_cases audited_reach_SucE: "audited_reach a0 (Suc k) a"

lemma audited_reach_invariant:
  assumes "audited_reach a0 k a"
  shows "at_version a = at_version a0 + int k \<and> at_rounds_consumed a = at_rounds_consumed a0 + int k \<and>
         at_max_rounds a = at_max_rounds a0 \<and>
         at_criteria_snapshot_hash a = at_criteria_snapshot_hash a0 \<and>
         at_acceptance_criteria a = at_acceptance_criteria a0 \<and>
         (0 < k \<longrightarrow> at_rounds_consumed a \<le> at_max_rounds a) \<and>
         res_attempts (at_budget_residual a) =
           (if k = 0 then res_attempts (at_budget_residual a0)
            else max 0 (res_attempts (at_budget_residual a0) - int k)) \<and>
         (0 < k \<longrightarrow> int k \<le> res_attempts (at_budget_residual a0))"
  using assms
proof induction
  case bound
  then show ?case by simp
next
  case (audited k a s n now a' d)
  from audited.hyps(2) show ?case
  proof (rule apply_validate_audit_InrE)
    assume "enforce_round_budget a = None" "at_version a' = at_version a + 1"
      "at_rounds_consumed a' = at_rounds_consumed a + 1" "at_max_rounds a' = at_max_rounds a"
      "res_attempts (at_budget_residual a') = max 0 (res_attempts (at_budget_residual a) - 1)"
      "at_acceptance_criteria a' = at_acceptance_criteria a"
      "at_criteria_snapshot_hash a' = at_criteria_snapshot_hash a"
    then show ?thesis
      using audited.IH by (auto simp: enforce_round_budget_def split: if_splits)
  qed
qed

text \<open>
  Audits are bounded and never rewrite the contract: from the state bound at intake, at most
  \<open>max_rounds\<close> and at most \<open>max_attempts\<close> audits are ever accepted; after k of them the version and
  the round count are k, and the accepted criteria and their snapshot hash are those of intake.\<close>

theorem audits_bounded_and_criteria_fixed:
  assumes "audited_reach (create_audited_state criteria_hash s policy now) k a" and "0 < k"
  shows "at_version a = int k \<and> at_rounds_consumed a = int k \<and>
         int k \<le> (case policy of Some p \<Rightarrow> mp_mea_max_rounds p | None \<Rightarrow> 12) \<and>
         int k \<le> max_attempts (rs_budget s) \<and>
         at_acceptance_criteria a = rs_criteria s \<and>
         at_criteria_snapshot_hash a = or_else (mf_criteria_hash (rs_manifest s)) (criteria_hash (rs_criteria s))"
  using audited_reach_invariant[OF assms(1)] assms(2)
  by (simp add: create_audited_state_def Let_def residual_of_def)

subsection \<open>Subtasks stay within what is left\<close>

lemma slice_bounds: "1 \<le> whole \<Longrightarrow> 1 \<le> slice whole n \<and> slice whole n \<le> whole"
  by (simp add: slice_def)

lemma slice_fair:
  assumes "1 \<le> n" "n \<le> whole"
  shows "slice whole n * n \<le> whole"
proof -
  have "1 \<le> whole div n" using zdiv_mono1[of n whole n] assms by simp
  then have "slice whole n \<le> whole div n" by (simp add: slice_def)
  then have "slice whole n * n \<le> whole div n * n" using assms by (intro mult_right_mono) auto
  also have "\<dots> \<le> whole" using assms by (simp add: minus_mod_eq_div_mult[symmetric])
  finally show ?thesis .
qed

text \<open>
  The manager never admits work the residual cannot pay: a subtask is proposed exactly when rounds
  and attempts are left; its attempts lie between one and the residual, an equal share of the
  residual over the remaining rounds when there is at least one attempt per round, and its tool calls
  stay within the residual unless that is already zero. Proposing never raises.\<close>

theorem propose_subtask_within_residual:
  assumes "residual_ok (at_budget_residual a)"
  shows "case propose_subtask a sid desc cs sd steps of
           Inl e \<Rightarrow> False
         | Inr (Inl stop) \<Rightarrow> at_max_rounds a \<le> at_rounds_consumed a \<or> res_attempts (at_budget_residual a) = 0
         | Inr (Inr c) \<Rightarrow>
             at_rounds_consumed a < at_max_rounds a \<and> budget_ok (sub_budget c) \<and>
             max_attempts (sub_budget c) \<le> res_attempts (at_budget_residual a) \<and>
             (at_max_rounds a - at_rounds_consumed a \<le> res_attempts (at_budget_residual a) \<longrightarrow>
                max_attempts (sub_budget c) * (at_max_rounds a - at_rounds_consumed a)
                  \<le> res_attempts (at_budget_residual a)) \<and>
             max_tool_calls (sub_budget c) \<le> max 1 (res_tool_calls (at_budget_residual a)) \<and>
             sub_parent_state_version c = at_version a"
proof (cases "enforce_round_budget a")
  case (Some stop)
  then show ?thesis
    using assms by (auto simp: propose_subtask_def enforce_round_budget_def residual_ok_def split: if_splits)
next
  case None
  define r where "r = at_budget_residual a"
  define n where "n = at_max_rounds a - at_rounds_consumed a"
  have n: "1 \<le> n" "1 \<le> res_attempts r" using None by (auto simp: enforce_round_budget_def n_def r_def split: if_splits)
  define tools where "tools = (if 0 < res_tool_calls r then slice (res_tool_calls r) n else res_tool_calls r)"
  define sliced where "sliced = r\<lparr>res_attempts := slice (res_attempts r) n, res_tool_calls := max 1 tools\<rparr>"
  have s: "1 \<le> res_attempts sliced" "residual_ok sliced"
    using slice_bounds[OF n(2), of n] assms by (simp_all add: sliced_def residual_ok_def r_def)
  then obtain b where b: "as_admission_budget sliced = Inr b"
    using as_admission_budget_ok_iff[of sliced] by (auto simp: is_ok_iff)
  have bb: "budget_ok b" using as_admission_budget_budget_ok[OF s(2) b] by simp
  have att: "max_attempts b = slice (res_attempts r) n" "max_tool_calls b = max 1 tools"
    using b n(2) s(1) by (auto simp: as_admission_budget_def sliced_def Let_def split: if_splits)
  have "tools \<le> max 1 (res_tool_calls r)"
    using slice_bounds[of "res_tool_calls r" n] by (auto simp: tools_def)
  moreover have "max 1 (at_max_rounds a - at_rounds_consumed a) = n" "at_rounds_consumed a < at_max_rounds a"
    using n by (simp_all add: n_def)
  ultimately show ?thesis
    using b bb att n slice_bounds[OF n(2)] slice_fair[of n "res_attempts r"]
    by (simp add: propose_subtask_def None Let_def r_def[symmetric] tools_def[symmetric] sliced_def[symmetric]
        n_def[symmetric])
qed

subsection \<open>An audit on a concrete run\<close>

definition audited_example :: audited_state where
  "audited_example = create_audited_state (\<lambda>cs. ''h'') example_state None 0"

definition half_done :: run_state where
  "half_done = example_state\<lparr>rs_mea_active := True,
     rs_results := [plain_result ''tests'' Command True 1, plain_result ''lint'' Command False 1]\<rparr>"

lemma audited_example_sel:
  "at_version audited_example = 0" "at_rounds_consumed audited_example = 0" "at_max_rounds audited_example = 12"
  "at_budget_residual audited_example = residual_of default_budget"
  "at_isolation_policy_ref audited_example = ''container_default''"
  "at_verified_decisions audited_example = []" "at_current_blockers audited_example = []"
  "map c_id (at_acceptance_criteria audited_example) = [''tests'', ''lint'']"
  by (simp_all add: audited_example_def create_audited_state_def Let_def example_state_def initial_state_def
      example_criterion_def)

lemma audited_example_accepts: "\<exists>a d. apply_validate_audit audited_example half_done 1 0 = Inr (a, d)"
proof -
  have "enforce_round_budget audited_example = None"
    by (simp add: enforce_round_budget_def audited_example_sel residual_of_def default_budget_def)
  then show ?thesis
    using apply_validate_audit_accepts_iff[of audited_example half_done 1 0]
    by (auto simp: audited_example_sel is_ok_iff)
qed

theorem mea_activation_needs_all_layers_witness:
  "\<not> rs_mea_active (fst (bind_after_intake (\<lambda>cs. ''h'') (Some \<lparr>mp_mea_enabled = True, mp_mea_max_rounds = 3\<rparr>) 0
      False Map.empty example_state))"
proof -
  let ?b = "bind_after_intake (\<lambda>cs. ''h'') (Some \<lparr>mp_mea_enabled = True, mp_mea_max_rounds = 3\<rparr>) 0
      False Map.empty example_state"
  obtain s' st es where b: "?b = (s', st, es)" by (cases ?b)
  have "\<not> rs_mea_active example_state" "t_goal (rs_task example_state) = None"
    by (simp_all add: example_state_def initial_state_def example_task_def)
  with mea_activation_needs_all_layers[OF b] b show ?thesis by simp
qed

theorem audit_records_exactly_the_results_witness:
  "\<exists>a d. apply_validate_audit audited_example half_done 1 0 = Inr (a, d) \<and>
         set (map bk_blocker_id (at_current_blockers a)) = {blocker_id_of ''lint''} \<and>
         at_current_phase a \<noteq> ''complete''"
proof -
  obtain a d where a: "apply_validate_audit audited_example half_done 1 0 = Inr (a, d)"
    using audited_example_accepts by blast
  have ne: "at_acceptance_criteria audited_example \<noteq> []" using audited_example_sel(8) by auto
  have "follows audited_example half_done"
    unfolding follows_def audited_example_sel using ne by (simp add: half_done_def plain_result_def)
  from audit_records_exactly_the_results[OF a this] a show ?thesis
    by (auto simp: half_done_def failing_ids_def plain_result_def)
qed

theorem audits_bounded_and_criteria_fixed_witness:
  "\<exists>a. audited_reach audited_example 1 a \<and> at_version a = 1"
proof -
  obtain a d where a: "apply_validate_audit audited_example half_done 1 0 = Inr (a, d)"
    using audited_example_accepts by blast
  have "audited_reach audited_example (Suc 0) a" by (rule audited_reach.audited[OF audited_reach.bound a])
  with audits_bounded_and_criteria_fixed[of "\<lambda>cs. ''h''" example_state None 0 "Suc 0" a] show ?thesis
    by (auto simp: audited_example_def)
qed

theorem propose_subtask_within_residual_witness:
  "\<exists>c. propose_subtask audited_example ''s1'' ''do it'' None None 50 = Inr (Inr c) \<and>
       max_attempts (sub_budget c) \<le> 4"
proof -
  have ok: "residual_ok (at_budget_residual audited_example)"
    by (simp add: audited_example_sel residual_ok_def residual_of_def default_budget_def opt_ge_def)
  have "\<exists>c. propose_subtask audited_example ''s1'' ''do it'' None None 50 = Inr (Inr c)"
    by (simp add: propose_subtask_def enforce_round_budget_def audited_example_sel residual_of_def
        default_budget_def slice_def as_admission_budget_def Let_def)
  then obtain c where c: "propose_subtask audited_example ''s1'' ''do it'' None None 50 = Inr (Inr c)" ..
  from propose_subtask_within_residual[OF ok, of "''s1''" "''do it''" None None 50] c show ?thesis
    by (simp add: audited_example_sel residual_of_def default_budget_def)
qed

end
