(* ===== verification/Run_Lease.thy ===== *)
theory Run_Lease
  imports Recertia_Prelude
begin

section \<open>The run lease and its fencing token\<close>

text \<open>
  \<open>graph/lease.py\<close> (\<open>RunLease.acquire\<close>, \<open>heartbeat\<close>, \<open>release\<close>, \<open>_record_acquire\<close>, \<open>_mark_released\<close>,
  \<open>_touch_row\<close>, \<open>_expired\<close>) and \<open>persistence/fence.py\<close> (\<open>require_lease_token\<close>), for one run of one
  tenant. The world holds what processes share: the lock file (its inode and payload), the flock of
  each inode, the in-process lock per process, and the \<open>run_leases\<close> row. The random lock generation
  and the two clocks are arguments. The platform is one with flock.
\<close>

datatype lease_status = Held | Released

record lease_row =
  lr_owner :: string
  lr_token :: token
  lr_incarnation :: int
  lr_heartbeat_at :: "instant option"
  lr_heartbeat_mono :: "real option"
  lr_gen :: "string option"
  lr_status :: lease_status

record lock_file =
  lf_ino :: nat
  lf_token :: token
  lf_gen :: "string option"

record lease_world =
  lw_file :: "lock_file option"
  lw_flock :: "nat \<Rightarrow> bool"
  lw_thread :: "string \<Rightarrow> bool"
  lw_row :: "lease_row option"
  lw_next_ino :: nat

record run_lease =
  rl_process :: string
  rl_owner :: string
  rl_ttl_s :: real
  rl_token :: "token option"
  rl_incarnation :: int
  rl_ino :: "nat option"

record lease_clock =
  lc_wall :: instant
  lc_mono :: real

datatype lease_error = RunBusy | LeaseLost

definition seconds_between :: "instant \<Rightarrow> instant \<Rightarrow> real" where
  "seconds_between now_wall thn = real_of_int (now_wall - thn) / 1000000"

text \<open>\<open>_expired\<close>: an unreadable heartbeat is expired, and so is one from a later monotonic clock.\<close>

definition expired :: "real \<Rightarrow> lease_clock \<Rightarrow> lease_row \<Rightarrow> bool" where
  "expired ttl clk row =
     (case lr_heartbeat_at row of
        None \<Rightarrow> True
      | Some thn \<Rightarrow>
          if ttl \<le> seconds_between (lc_wall clk) thn then True
          else case lr_heartbeat_mono row of
                 None \<Rightarrow> False
               | Some m \<Rightarrow> if lc_mono clk < m then True else ttl \<le> lc_mono clk - m)"

text \<open>\<open>_record_acquire\<close>: the row a successful acquire writes.\<close>

definition resumes :: "bool \<Rightarrow> string option \<Rightarrow> lease_row \<Rightarrow> bool" where
  "resumes path_existed prior_gen row \<longleftrightarrow>
     path_existed \<and> (\<exists>g. prior_gen = Some g \<and> g \<noteq> [] \<and> lr_gen row = Some g)"

definition record_acquire ::
    "run_lease \<Rightarrow> lease_clock \<Rightarrow> token \<Rightarrow> string \<Rightarrow> string option \<Rightarrow> bool \<Rightarrow> lease_row option \<Rightarrow>
     (lease_error, lease_row) result" where
  "record_acquire l clk tok gen prior_gen path_existed row =
     (let fresh = (\<lambda>t inc. \<lparr>lr_owner = rl_owner l, lr_token = t, lr_incarnation = inc,
            lr_heartbeat_at = Some (lc_wall clk), lr_heartbeat_mono = Some (lc_mono clk),
            lr_gen = Some gen, lr_status = Held\<rparr>)
      in case row of
           None \<Rightarrow> Inr (fresh tok 1)
         | Some r \<Rightarrow>
             (let t = max tok (lr_token r + 1)
              in if lr_status r = Held then
                   (if resumes path_existed prior_gen r then Inr (fresh t (lr_incarnation r))
                    else if \<not> expired (rl_ttl_s l) clk r then Inl RunBusy
                    else Inr (fresh t (lr_incarnation r + 1)))
                 else Inr (fresh t (lr_incarnation r))))"

text \<open>\<open>os.open(path, O_CREAT | O_RDWR)\<close>: a missing lock file is created empty, which reads as token 0
  and no generation.\<close>

definition open_lock_file :: "lease_world \<Rightarrow> lock_file \<times> lease_world" where
  "open_lock_file w =
     (case lw_file w of
        Some f \<Rightarrow> (f, w)
      | None \<Rightarrow>
          (let f = \<lparr>lf_ino = lw_next_ino w, lf_token = 0, lf_gen = None\<rparr>
           in (f, w\<lparr>lw_file := Some f, lw_next_ino := lw_next_ino w + 1\<rparr>)))"

definition acquire ::
    "run_lease \<Rightarrow> lease_clock \<Rightarrow> string \<Rightarrow> lease_world \<Rightarrow> (lease_error, run_lease) result \<times> lease_world" where
  "acquire l clk gen w =
     (if lw_thread w (rl_process l) then (Inl RunBusy, w)
      else
        (let path_existed = (lw_file w \<noteq> None);
             (f, w1) = open_lock_file w
         in if lw_flock w1 (lf_ino f) then (Inl RunBusy, w1)
            else case record_acquire l clk (lf_token f + 1) gen (lf_gen f) path_existed (lw_row w1) of
                   Inl e \<Rightarrow> (Inl e, w1)
                 | Inr row \<Rightarrow>
                     (Inr (l\<lparr>rl_token := Some (lr_token row), rl_incarnation := lr_incarnation row,
                             rl_ino := Some (lf_ino f)\<rparr>),
                      w1\<lparr>lw_row := Some row,
                         lw_file := Some (f\<lparr>lf_token := lr_token row, lf_gen := Some gen\<rparr>),
                         lw_flock := (lw_flock w1)(lf_ino f := True),
                         lw_thread := (lw_thread w1)(rl_process l := True)\<rparr>)))"

text \<open>\<open>heartbeat\<close>: without the lock file \<open>os.utime\<close> fails and the row is not touched; the row is touched
  only under the lease's own token.\<close>

definition touch_row :: "run_lease \<Rightarrow> lease_clock \<Rightarrow> lease_world \<Rightarrow> lease_world" where
  "touch_row l clk w =
     (case (rl_token l, lw_row w) of
        (Some t, Some r) \<Rightarrow>
          if lr_token r = t
          then w\<lparr>lw_row := Some (r\<lparr>lr_heartbeat_at := Some (lc_wall clk), lr_heartbeat_mono := Some (lc_mono clk)\<rparr>)\<rparr>
          else w
      | _ \<Rightarrow> w)"

definition heartbeat :: "run_lease \<Rightarrow> lease_clock \<Rightarrow> lease_world \<Rightarrow> lease_world" where
  "heartbeat l clk w = (if rl_ino l = None \<or> lw_file w = None then w else touch_row l clk w)"

text \<open>\<open>_mark_released\<close> updates the row by tenant and run id alone.\<close>

definition mark_released :: "lease_world \<Rightarrow> lease_world" where
  "mark_released w = w\<lparr>lw_row := map_option (\<lambda>r. r\<lparr>lr_status := Released\<rparr>) (lw_row w)\<rparr>"

definition unlock :: "run_lease \<Rightarrow> lease_world \<Rightarrow> lease_world" where
  "unlock l w =
     w\<lparr>lw_flock := (case rl_ino l of None \<Rightarrow> lw_flock w | Some i \<Rightarrow> (lw_flock w)(i := False)),
       lw_thread := (lw_thread w)(rl_process l := False)\<rparr>"

definition release :: "run_lease \<Rightarrow> lease_world \<Rightarrow> lease_world" where
  "release l w = unlock l (mark_released w)"

text \<open>A crash of the holder drops its locks and leaves the row held; someone may delete the lock file.\<close>

definition crash :: "run_lease \<Rightarrow> lease_world \<Rightarrow> lease_world" where
  "crash l w = unlock l w"

definition remove_lock_file :: "lease_world \<Rightarrow> lease_world" where
  "remove_lock_file w = w\<lparr>lw_file := None\<rparr>"

subsection \<open>The fence\<close>

datatype lease_view = NoLeaseTable | LeaseTable "lease_row option"

definition require_lease_token :: "lease_view \<Rightarrow> token option \<Rightarrow> bool \<Rightarrow> (lease_error, unit) result" where
  "require_lease_token v tok allow_missing =
     (if tok = None \<and> \<not> allow_missing then Inl LeaseLost
      else case v of
             NoLeaseTable \<Rightarrow> if allow_missing then Inr () else Inl LeaseLost
           | LeaseTable None \<Rightarrow> if allow_missing then Inr () else Inl LeaseLost
           | LeaseTable (Some r) \<Rightarrow>
               if lr_status r = Held \<and> tok = Some (lr_token r) then Inr () else Inl LeaseLost)"

definition admits :: "lease_world \<Rightarrow> token option \<Rightarrow> bool" where
  "admits w tok = is_ok (require_lease_token (LeaseTable (lw_row w)) tok (tok = None))"

lemma admits_iff:
  "admits w tok \<longleftrightarrow>
     (case lw_row w of
        None \<Rightarrow> tok = None | Some r \<Rightarrow> lr_status r = Held \<and> tok = Some (lr_token r))"
  by (auto simp: admits_def require_lease_token_def split: option.splits)

subsection \<open>Acquire\<close>

lemma record_acquire_InrE:
  assumes "record_acquire l clk tok gen pg ex row = Inr r"
  obtains "lr_status r = Held" "tok \<le> lr_token r" "lr_gen r = Some gen"
    "\<And>r0. row = Some r0 \<Longrightarrow> lr_token r0 < lr_token r"
    "row = None \<Longrightarrow> lr_token r = tok"
    "lr_incarnation r = (case row of None \<Rightarrow> 1
       | Some r0 \<Rightarrow> if lr_status r0 = Held \<and> \<not> resumes ex pg r0 then lr_incarnation r0 + 1 else lr_incarnation r0)"
    "\<And>r0. row = Some r0 \<Longrightarrow> lr_status r0 = Held \<Longrightarrow> resumes ex pg r0 \<or> expired (rl_ttl_s l) clk r0"
  using assms by (auto simp: record_acquire_def Let_def split: option.splits if_splits)

lemma acquire_InrE:
  assumes "acquire l clk gen w = (Inr l', w')"
  obtains f w1 row where "open_lock_file w = (f, w1)" "\<not> lw_flock w1 (lf_ino f)"
    "record_acquire l clk (lf_token f + 1) gen (lf_gen f) (lw_file w \<noteq> None) (lw_row w) = Inr row"
    "l' = l\<lparr>rl_token := Some (lr_token row), rl_incarnation := lr_incarnation row, rl_ino := Some (lf_ino f)\<rparr>"
    "lw_row w' = Some row" "lw_file w' = Some (f\<lparr>lf_token := lr_token row, lf_gen := Some gen\<rparr>)"
proof -
  obtain f w1 where f: "open_lock_file w = (f, w1)" by (cases "open_lock_file w")
  then have "lw_row w1 = lw_row w" by (auto simp: open_lock_file_def Let_def split: option.splits)
  with assms f that show thesis
    by (auto simp: acquire_def Let_def split: if_splits sum.splits)
qed

lemma acquire_Inl_row: "acquire l clk gen w = (Inl e, w') \<Longrightarrow> lw_row w' = lw_row w"
  by (auto simp: acquire_def open_lock_file_def Let_def split: if_splits sum.splits option.splits)

text \<open>
  Acquiring a lease makes its holder the only admitted writer: right after a successful acquire the
  fence admits exactly the token just issued, neither an older token nor a write without one; the
  token is greater than the one of the previous row; and the acquire took over a held row only by
  resuming from the same lock generation (the incarnation stays) or after its heartbeat expired (the
  incarnation grows by one).\<close>

theorem acquire_admits_only_the_holder:
  assumes "acquire l clk gen w = (Inr l', w')"
  shows "(\<forall>tok. admits w' tok \<longleftrightarrow> tok \<noteq> None \<and> tok = rl_token l') \<and>
         (\<forall>r. lw_row w = Some r \<longrightarrow> lr_token r < the (rl_token l') \<and>
            (rl_incarnation l' = lr_incarnation r \<or>
             rl_incarnation l' = lr_incarnation r + 1 \<and> lr_status r = Held \<and> expired (rl_ttl_s l) clk r))"
  using assms
proof (rule acquire_InrE)
  fix f w1 row
  assume ra: "record_acquire l clk (lf_token f + 1) gen (lf_gen f) (lw_file w \<noteq> None) (lw_row w) = Inr row"
    and l': "l' = l\<lparr>rl_token := Some (lr_token row), rl_incarnation := lr_incarnation row,
               rl_ino := Some (lf_ino f)\<rparr>"
    and w': "lw_row w' = Some row"
  from ra show ?thesis
    by (rule record_acquire_InrE) (use l' w' in \<open>auto simp: admits_iff split: if_splits\<close>)
qed

text \<open>
  A stale holder revokes its successor's lease: \<open>release\<close> marks the row released without comparing
  the token, so when a stolen-from process finally releases, the token of the process that stole the
  lease is no longer admitted either.\<close>

theorem stale_release_revokes_successor:
  assumes "acquire l2 clk gen w = (Inr l2', w')"
  shows "admits w' (rl_token l2') \<and> \<not> admits (release l1 w') (rl_token l2')"
  using assms
proof (rule acquire_InrE)
  fix f w1 row
  assume ra: "record_acquire l2 clk (lf_token f + 1) gen (lf_gen f) (lw_file w \<noteq> None) (lw_row w) = Inr row"
    and "l2' = l2\<lparr>rl_token := Some (lr_token row), rl_incarnation := lr_incarnation row, rl_ino := Some (lf_ino f)\<rparr>"
    and "lw_row w' = Some row"
  from ra show ?thesis
    by (rule record_acquire_InrE)
       (use \<open>l2' = _\<close> \<open>lw_row w' = _\<close> in \<open>simp add: admits_iff release_def unlock_def mark_released_def\<close>)
qed

subsection \<open>Interleavings of holders\<close>

text \<open>What processes can do to the shared world, in any order: acquire (successfully or not), heartbeat,
  release, crash, and somebody deleting the lock file. The third component lists the tokens issued.\<close>

inductive lease_step :: "lease_world \<Rightarrow> token list \<Rightarrow> lease_world \<Rightarrow> token list \<Rightarrow> bool" where
  acquired: "acquire l clk gen w = (Inr l', w') \<Longrightarrow> lease_step w ts w' (ts @ [the (rl_token l')])"
| refused: "acquire l clk gen w = (Inl e, w') \<Longrightarrow> lease_step w ts w' ts"
| beat: "lease_step w ts (heartbeat l clk w) ts"
| released: "lease_step w ts (release l w) ts"
| crashed: "lease_step w ts (crash l w) ts"
| removed: "lease_step w ts (remove_lock_file w) ts"

inductive_cases lease_stepE: "lease_step w ts w' ts'"

inductive lease_run :: "lease_world \<Rightarrow> token list \<Rightarrow> bool" where
  fresh: "lw_row w = None \<Longrightarrow> lw_file w = None \<Longrightarrow> lease_run w []"
| step: "lease_run w ts \<Longrightarrow> lease_step w ts w' ts' \<Longrightarrow> lease_run w' ts'"

text \<open>The row holds the last token issued; the lock file never holds a later one.\<close>

definition tokens_inv :: "lease_world \<Rightarrow> token list \<Rightarrow> bool" where
  "tokens_inv w ts \<longleftrightarrow>
     sorted_wrt (<) ts \<and> (\<forall>t \<in> set ts. 1 \<le> t) \<and> (ts = [] \<longleftrightarrow> lw_row w = None) \<and>
     (\<forall>r. lw_row w = Some r \<longrightarrow> lr_token r = last ts) \<and>
     (\<forall>f. lw_file w = Some f \<longrightarrow> 0 \<le> lf_token f \<and> (lw_row w = None \<longrightarrow> lf_token f = 0) \<and>
          (\<forall>r. lw_row w = Some r \<longrightarrow> lf_token f \<le> lr_token r))"

lemma tokens_inv_same:
  assumes "tokens_inv w ts" "map_option lr_token (lw_row w') = map_option lr_token (lw_row w)"
    and "lw_file w' = lw_file w \<or> lw_file w' = None \<or> (\<exists>f. lw_file w' = Some f \<and> lf_token f = 0)"
  shows "tokens_inv w' ts"
proof -
  have row: "lw_row w' = None \<longleftrightarrow> lw_row w = None" "\<And>r. lw_row w' = Some r \<Longrightarrow> \<exists>r0. lw_row w = Some r0 \<and> lr_token r0 = lr_token r"
    using assms(2) by (cases "lw_row w"; cases "lw_row w'"; simp)+
  have pos: "0 \<le> lr_token r" if r: "lw_row w' = Some r" for r
  proof -
    obtain r0 where r0: "lw_row w = Some r0" "lr_token r0 = lr_token r" using row(2)[OF r] by blast
    then have "ts \<noteq> []" "lr_token r0 = last ts" using assms(1) by (auto simp: tokens_inv_def)
    then have "last ts \<in> set ts" "\<forall>t \<in> set ts. 1 \<le> t" using assms(1) by (auto simp: tokens_inv_def)
    then have "1 \<le> last ts" by blast
    then show ?thesis using r0(2) \<open>lr_token r0 = last ts\<close> by simp
  qed
  show ?thesis
    using assms(1,3) row pos unfolding tokens_inv_def by (auto; force)
qed

lemma sorted_wrt_snoc:
  assumes "sorted_wrt (<) (ts :: int list)" "ts \<noteq> [] \<Longrightarrow> last ts < t"
  shows "sorted_wrt (<) (ts @ [t])"
proof (cases ts rule: rev_cases)
  case (snoc ys y)
  then show ?thesis using assms by (auto simp: sorted_wrt_append)
qed simp

lemma tokens_inv_acquire:
  assumes "acquire l clk gen w = (Inr l', w')" "tokens_inv w ts"
  shows "tokens_inv w' (ts @ [the (rl_token l')])"
  using assms(1)
proof (rule acquire_InrE)
  fix f w1 row
  assume f: "open_lock_file w = (f, w1)"
    and ra: "record_acquire l clk (lf_token f + 1) gen (lf_gen f) (lw_file w \<noteq> None) (lw_row w) = Inr row"
    and l': "l' = l\<lparr>rl_token := Some (lr_token row), rl_incarnation := lr_incarnation row,
               rl_ino := Some (lf_ino f)\<rparr>"
    and w': "lw_row w' = Some row" "lw_file w' = Some (f\<lparr>lf_token := lr_token row, lf_gen := Some gen\<rparr>)"
  have "0 \<le> lf_token f"
    using f assms(2) by (auto simp: open_lock_file_def tokens_inv_def Let_def split: option.splits)
  moreover from ra have "lf_token f + 1 \<le> lr_token row \<and> (\<forall>r0. lw_row w = Some r0 \<longrightarrow> lr_token r0 < lr_token row)"
    by (rule record_acquire_InrE) blast
  moreover have "ts \<noteq> [] \<Longrightarrow> \<exists>r0. lw_row w = Some r0 \<and> lr_token r0 = last ts"
    using assms(2) by (auto simp: tokens_inv_def)
  ultimately show ?thesis
    using assms(2) by (auto simp: tokens_inv_def l' w' intro!: sorted_wrt_snoc)
qed

lemma tokens_inv_step: "lease_step w ts w' ts' \<Longrightarrow> tokens_inv w ts \<Longrightarrow> tokens_inv w' ts'"
proof (induction rule: lease_step.induct)
  case (refused l clk gen w e w' ts)
  moreover have "lw_file w' = lw_file w \<or> lw_file w' = None \<or> (\<exists>f. lw_file w' = Some f \<and> lf_token f = 0)"
    using refused.hyps
    by (auto simp: acquire_def open_lock_file_def Let_def split: if_splits sum.splits option.splits)
  ultimately show ?case using tokens_inv_same acquire_Inl_row by metis
next
  case (beat w ts l clk)
  then show ?case
    by (rule tokens_inv_same) (auto simp: heartbeat_def touch_row_def split: option.splits)
next
  case (released w ts l)
  then show ?case
    by (rule tokens_inv_same) (auto simp: release_def unlock_def mark_released_def option.map_comp o_def)
next
  case (crashed w ts l)
  then show ?case by (rule tokens_inv_same) (auto simp: crash_def unlock_def)
next
  case (removed w ts)
  then show ?case by (rule tokens_inv_same) (auto simp: remove_lock_file_def)
qed (rule tokens_inv_acquire)

lemma lease_run_inv: "lease_run w ts \<Longrightarrow> tokens_inv w ts"
  by (induction rule: lease_run.induct) (auto simp: tokens_inv_def dest: tokens_inv_step[unfolded tokens_inv_def])

text \<open>
  C8. Zombie holders are fenced out: however processes acquire, crash, release, lose the lock file and
  steal, the tokens issued for a run strictly increase, and whatever token the fence admits is the
  last one issued, so every earlier holder is refused.\<close>

theorem fence_admits_only_last_token:
  assumes "lease_run w ts" and "admits w (Some t)"
  shows "sorted_wrt (<) ts \<and> ts \<noteq> [] \<and> t = last ts \<and> (\<forall>old \<in> set (butlast ts). old < t)"
proof -
  have inv: "tokens_inv w ts" using lease_run_inv[OF assms(1)] .
  then have t: "ts \<noteq> []" "t = last ts"
    using assms(2) by (auto simp: tokens_inv_def admits_iff split: option.splits)
  have "sorted_wrt (<) (butlast ts @ [last ts])" using inv t(1) by (simp add: tokens_inv_def)
  then have "\<forall>old \<in> set (butlast ts). old < last ts"
    unfolding sorted_wrt_append by simp
  then show ?thesis using inv t unfolding tokens_inv_def by blast
qed

subsection \<open>Two holders of one run\<close>

definition fresh_world :: lease_world where
  "fresh_world = \<lparr>lw_file = None, lw_flock = (\<lambda>i. False), lw_thread = (\<lambda>p. False), lw_row = None, lw_next_ino = 0\<rparr>"

definition new_lease :: "string \<Rightarrow> run_lease" where
  "new_lease p = \<lparr>rl_process = p, rl_owner = p, rl_ttl_s = 30, rl_token = None, rl_incarnation = 1, rl_ino = None\<rparr>"

definition clock_at :: "int \<Rightarrow> lease_clock" where
  "clock_at sec = \<lparr>lc_wall = sec * 1000000, lc_mono = real_of_int sec\<rparr>"

definition first_hold :: "(lease_error, run_lease) result \<times> lease_world" where
  "first_hold = acquire (new_lease ''A'') (clock_at 0) ''g1'' fresh_world"

definition stolen :: "(lease_error, run_lease) result \<times> lease_world" where
  "stolen = acquire (new_lease ''B'') (clock_at 60) ''g2'' (remove_lock_file (snd first_hold))"

lemmas lease_eval =
  acquire_def open_lock_file_def record_acquire_def Let_def fresh_world_def new_lease_def clock_at_def
  remove_lock_file_def resumes_def expired_def seconds_between_def first_hold_def stolen_def

lemma first_hold_token: "\<exists>l w. first_hold = (Inr l, w) \<and> rl_token l = Some 1"
  by (simp add: lease_eval)

lemma stolen_token: "\<exists>l w. stolen = (Inr l, w) \<and> rl_token l = Some 2 \<and> rl_incarnation l = 2"
  by (simp add: lease_eval)

theorem acquire_admits_only_the_holder_witness:
  "admits (snd stolen) (Some 2) \<and> \<not> admits (snd stolen) (Some 1) \<and> \<not> admits (snd stolen) None"
proof -
  obtain l w where s: "stolen = (Inr l, w)" "rl_token l = Some 2" using stolen_token by blast
  have "\<forall>tok. admits w tok \<longleftrightarrow> tok \<noteq> None \<and> tok = rl_token l"
    using acquire_admits_only_the_holder[OF s(1)[unfolded stolen_def]] by blast
  then show ?thesis unfolding s(1) snd_conv s(2) by simp
qed

theorem stale_release_revokes_successor_witness:
  "\<exists>l1 l2 w. first_hold = (Inr l1, snd first_hold) \<and> stolen = (Inr l2, w) \<and>
     admits w (rl_token l2) \<and> \<not> admits (release l1 w) (rl_token l2)"
proof -
  obtain l1 where l1: "first_hold = (Inr l1, snd first_hold)" using first_hold_token by (metis snd_conv)
  obtain l2 w where l2: "stolen = (Inr l2, w)" using stolen_token by blast
  from stale_release_revokes_successor[OF l2[unfolded stolen_def], of l1] l1 l2 show ?thesis by blast
qed

theorem fence_admits_only_last_token_witness:
  "\<exists>w ts. lease_run w ts \<and> admits w (Some 2) \<and> 1 \<in> set (butlast ts)"
proof -
  obtain l1 w1 where a: "first_hold = (Inr l1, w1)" "rl_token l1 = Some 1" using first_hold_token by blast
  obtain l2 w2 where b: "stolen = (Inr l2, w2)" "rl_token l2 = Some 2" using stolen_token by blast
  have "lease_run fresh_world []" by (rule lease_run.fresh) (simp_all add: fresh_world_def)
  then have "lease_run w1 ([] @ [the (rl_token l1)])"
    by (rule lease_run.step) (rule lease_step.acquired[OF a(1)[unfolded first_hold_def]])
  then have "lease_run (remove_lock_file w1) ([] @ [the (rl_token l1)])"
    by (rule lease_run.step) (rule lease_step.removed)
  then have r: "lease_run w2 (([] @ [the (rl_token l1)]) @ [the (rl_token l2)])"
    by (rule lease_run.step) (rule lease_step.acquired[OF b(1)[unfolded stolen_def a(1) snd_conv]])
  have "admits w2 (Some 2)"
    using b by (auto simp: lease_eval admits_iff)
  moreover have "butlast (([] @ [the (rl_token l1)]) @ [the (rl_token l2)]) = [1]" using a by simp
  ultimately show ?thesis
    using fence_admits_only_last_token[OF r, of 2] r by (metis list.set_intros(1))
qed

end
