(* ===== verification/Checkpoint_Store.thy ===== *)
theory Checkpoint_Store
  imports Run_State Run_Lease "HOL-Library.Multiset"
begin

section \<open>The checkpoint store\<close>

text \<open>
  \<open>graph/store.py\<close> (\<open>CheckpointStore.save\<close>, \<open>latest\<close>, \<open>latest_seq\<close>, \<open>history\<close>, \<open>list_trajectory_events\<close>,
  the eval outbox) and \<open>runtime/hop.py\<close> (\<open>commit_hop\<close>, \<open>insert_hop\<close>) for one tenant. A table is the
  list of its rows in insertion order; a uniqueness violation is an error value, and a transaction
  that fails returns no database, which is its rollback. State payloads are kept as the states they
  serialise, trajectory events as their text. Row timestamps and \<open>run_summaries\<close>' creation time,
  which only the run list reads, are left out.
\<close>

record checkpoint_row =
  cp_run_id :: run_id
  cp_seq :: int
  cp_node :: node
  cp_next_node :: "node option"
  cp_state :: run_state
  cp_token :: "token option"

record run_summary =
  sm_terminal :: "terminal option"
  sm_cost_usd :: real
  sm_task_class :: string
  sm_attempt_no :: int
  sm_arm :: arm

datatype delivery_status = PendingDelivery | Delivered | Dead

record eval_outbox_row =
  eo_key :: string
  eo_run_id :: run_id
  eo_attempt_no :: int
  eo_payload :: run_state
  eo_status :: delivery_status
  eo_attempts :: int

record event_row =
  te_run_id :: run_id
  te_seq :: int
  te_hop_seq :: int
  te_text :: string

record outbox_row =
  ob_kind :: string
  ob_dedupe_key :: string
  ob_payload :: string

record run_db =
  db_checkpoints :: "checkpoint_row list"
  db_summaries :: "run_id \<Rightarrow> run_summary option"
  db_eval_outbox :: "eval_outbox_row list"
  db_events :: "event_row list"
  db_meta :: "run_id \<Rightarrow> string option"
  db_route_entries :: "(run_id \<times> int \<times> route_entry) list"
  db_outbox :: "outbox_row list"

datatype save_error = SaveLeaseLost | CheckpointConflict

text \<open>One hop to commit: what \<open>GraphOrchestrator._commit_hop\<close> passes.\<close>

record hop_write =
  hw_run_id :: run_id
  hw_seq :: int
  hw_node :: node
  hw_next_node :: "node option"
  hw_state :: run_state
  hw_token :: "token option"
  hw_eval_outbox :: "eval_outbox_row option"
  hw_trajectory :: "string list"
  hw_route_entry :: "route_entry option"
  hw_outbox_rows :: "outbox_row list"
  hw_import_events :: "(int \<times> string) list"
  hw_meta :: "string option"

definition empty_db :: run_db where
  "empty_db = \<lparr>db_checkpoints = [], db_summaries = Map.empty, db_eval_outbox = [], db_events = [],
     db_meta = Map.empty, db_route_entries = [], db_outbox = []\<rparr>"

subsection \<open>Inserting a hop\<close>

definition summary_of :: "run_state \<Rightarrow> run_summary" where
  "summary_of s =
     \<lparr>sm_terminal = rs_terminal s, sm_cost_usd = sp_cost_usd (rs_spent s),
      sm_task_class = (case t_task_class (rs_task s) of Some c \<Rightarrow> if c = [] then ''repo-chore'' else c
                                                      | None \<Rightarrow> ''repo-chore''),
      sm_attempt_no = rs_attempt_no s, sm_arm = rs_arm s\<rparr>"

text \<open>\<open>ON CONFLICT ... DO NOTHING\<close> on a key.\<close>

definition insert_once :: "('a \<Rightarrow> 'k) \<Rightarrow> 'a \<Rightarrow> 'a list \<Rightarrow> 'a list" where
  "insert_once key x xs = (if key x \<in> key ` set xs then xs else xs @ [x])"

definition run_events :: "run_db \<Rightarrow> run_id \<Rightarrow> event_row list" where
  "run_events db rid = filter (\<lambda>e. te_run_id e = rid) (db_events db)"

text \<open>The legacy JSONL events are imported once, first of each sequence number.\<close>

fun import_rows :: "run_id \<Rightarrow> int set \<Rightarrow> (int \<times> string) list \<Rightarrow> event_row list" where
  "import_rows rid seen [] = []"
| "import_rows rid seen ((k, t) # xs) =
     (if k \<in> seen then import_rows rid seen xs
      else \<lparr>te_run_id = rid, te_seq = k, te_hop_seq = 0, te_text = t\<rparr> # import_rows rid (insert k seen) xs)"

definition next_event_seq :: "event_row list \<Rightarrow> int" where
  "next_event_seq es = (if es = [] then 0 else Max (te_seq ` set es) + 1)"

fun number_events :: "run_id \<Rightarrow> int \<Rightarrow> int \<Rightarrow> string list \<Rightarrow> event_row list" where
  "number_events rid hop k [] = []"
| "number_events rid hop k (t # ts) =
     \<lparr>te_run_id = rid, te_seq = k, te_hop_seq = hop, te_text = t\<rparr> # number_events rid hop (k + 1) ts"

definition hop_events :: "run_db \<Rightarrow> hop_write \<Rightarrow> event_row list" where
  "hop_events db h =
     (let existing = run_events db (hw_run_id h);
          imported = (if existing = [] then import_rows (hw_run_id h) {} (hw_import_events h) else [])
      in imported @ number_events (hw_run_id h) (hw_seq h) (next_event_seq (existing @ imported)) (hw_trajectory h))"

definition has_checkpoint :: "run_db \<Rightarrow> run_id \<Rightarrow> int \<Rightarrow> bool" where
  "has_checkpoint db rid k \<longleftrightarrow> (\<exists>r \<in> set (db_checkpoints db). cp_run_id r = rid \<and> cp_seq r = k)"

definition has_route_entry :: "run_db \<Rightarrow> run_id \<Rightarrow> int \<Rightarrow> bool" where
  "has_route_entry db rid k \<longleftrightarrow> (\<exists>e. (rid, k, e) \<in> set (db_route_entries db))"

definition insert_hop :: "run_db \<Rightarrow> hop_write \<Rightarrow> (save_error, run_db) result" where
  "insert_hop db h =
     (let rid = hw_run_id h; k = hw_seq h; s = hw_state h
      in if has_checkpoint db rid k \<or> (hw_route_entry h \<noteq> None \<and> has_route_entry db rid k)
         then Inl CheckpointConflict
         else Inr
           \<lparr>db_checkpoints = db_checkpoints db @
              [\<lparr>cp_run_id = rid, cp_seq = k, cp_node = hw_node h, cp_next_node = hw_next_node h,
                cp_state = s, cp_token = hw_token h\<rparr>],
            db_summaries = (db_summaries db)(rid \<mapsto> summary_of s),
            db_eval_outbox = (case hw_eval_outbox h of
                None \<Rightarrow> db_eval_outbox db | Some e \<Rightarrow> insert_once eo_key e (db_eval_outbox db)),
            db_events = db_events db @ hop_events db h,
            db_meta = (case hw_meta h of
                None \<Rightarrow> db_meta db
              | Some m \<Rightarrow> if db_meta db rid = None then (db_meta db)(rid \<mapsto> m) else db_meta db),
            db_route_entries = (case hw_route_entry h of
                None \<Rightarrow> db_route_entries db | Some e \<Rightarrow> db_route_entries db @ [(rid, k, e)]),
            db_outbox = foldl (\<lambda>rows ob. insert_once (\<lambda>x. (ob_kind x, ob_dedupe_key x)) ob rows)
                          (db_outbox db) (hw_outbox_rows h)\<rparr>)"

text \<open>\<open>commit_hop\<close> checks the fence inside the transaction; \<open>save\<close> also checks it before. The lease may
  change between the two, so each has its own view. \<open>fenced\<close> is whether a lease database is configured.\<close>

definition commit_hop :: "bool \<Rightarrow> lease_view \<Rightarrow> run_db \<Rightarrow> hop_write \<Rightarrow> (save_error, run_db) result" where
  "commit_hop fenced v db h =
     (if fenced \<and> \<not> is_ok (require_lease_token v (hw_token h) (hw_token h = None)) then Inl SaveLeaseLost
      else insert_hop db h)"

definition save :: "bool \<Rightarrow> lease_view \<Rightarrow> lease_view \<Rightarrow> run_db \<Rightarrow> hop_write \<Rightarrow> (save_error, run_db) result" where
  "save fenced v1 v2 db h =
     (if fenced \<and> \<not> is_ok (require_lease_token v1 (hw_token h) (hw_token h = None)) then Inl SaveLeaseLost
      else commit_hop fenced v2 db h)"

subsection \<open>Reading\<close>

definition rows_of :: "run_db \<Rightarrow> run_id \<Rightarrow> checkpoint_row list" where
  "rows_of db rid = filter (\<lambda>r. cp_run_id r = rid) (db_checkpoints db)"

type_synonym checkpoint = "int \<times> node \<times> node option \<times> run_state"

definition checkpoint_of :: "checkpoint_row \<Rightarrow> checkpoint" where
  "checkpoint_of r = (cp_seq r, cp_node r, cp_next_node r, cp_state r)"

fun latest_row :: "checkpoint_row list \<Rightarrow> checkpoint_row option" where
  "latest_row [] = None"
| "latest_row (r # rs) =
     (case latest_row rs of None \<Rightarrow> Some r | Some m \<Rightarrow> if cp_seq r < cp_seq m then Some m else Some r)"

definition latest :: "run_db \<Rightarrow> run_id \<Rightarrow> checkpoint option" where
  "latest db rid = map_option checkpoint_of (latest_row (rows_of db rid))"

definition latest_seq :: "run_db \<Rightarrow> run_id \<Rightarrow> int option" where
  "latest_seq db rid = map_option cp_seq (latest_row (rows_of db rid))"

definition history :: "run_db \<Rightarrow> run_id \<Rightarrow> checkpoint list" where
  "history db rid = map checkpoint_of (sort_key cp_seq (rows_of db rid))"

definition list_trajectory_events :: "run_db \<Rightarrow> run_id \<Rightarrow> event_row list" where
  "list_trajectory_events db rid = sort_key te_seq (run_events db rid)"

definition pending_eval_outbox :: "run_db \<Rightarrow> eval_outbox_row list" where
  "pending_eval_outbox db = filter (\<lambda>e. eo_status e = PendingDelivery) (db_eval_outbox db)"

definition mark_eval_outbox :: "run_db \<Rightarrow> string \<Rightarrow> delivery_status \<Rightarrow> int \<Rightarrow> run_db" where
  "mark_eval_outbox db key st n =
     db\<lparr>db_eval_outbox := map (\<lambda>e. if eo_key e = key then e\<lparr>eo_status := st, eo_attempts := n\<rparr> else e)
          (db_eval_outbox db)\<rparr>"

subsection \<open>Write once, read the latest\<close>

lemma insert_hop_InrE:
  assumes "insert_hop db h = Inr db'"
  obtains "\<not> has_checkpoint db (hw_run_id h) (hw_seq h)"
    "hw_route_entry h \<noteq> None \<Longrightarrow> \<not> has_route_entry db (hw_run_id h) (hw_seq h)"
    "db_checkpoints db' = db_checkpoints db @
       [\<lparr>cp_run_id = hw_run_id h, cp_seq = hw_seq h, cp_node = hw_node h, cp_next_node = hw_next_node h,
         cp_state = hw_state h, cp_token = hw_token h\<rparr>]"
    "db_events db' = db_events db @ hop_events db h"
    "db_eval_outbox db' = (case hw_eval_outbox h of
       None \<Rightarrow> db_eval_outbox db | Some e \<Rightarrow> insert_once eo_key e (db_eval_outbox db))"
    "db_route_entries db' = (case hw_route_entry h of
       None \<Rightarrow> db_route_entries db | Some e \<Rightarrow> db_route_entries db @ [(hw_run_id h, hw_seq h, e)])"
    "db_summaries db' = (db_summaries db)(hw_run_id h \<mapsto> summary_of (hw_state h))"
  using assms by (auto simp: insert_hop_def Let_def split: if_splits)

lemma save_InrD:
  "save fenced v1 v2 db h = Inr db' \<Longrightarrow>
     insert_hop db h = Inr db' \<and> (fenced \<longrightarrow> is_ok (require_lease_token v2 (hw_token h) (hw_token h = None)))"
  by (auto simp: save_def commit_hop_def split: if_splits)

lemma rows_of_insert:
  assumes "insert_hop db h = Inr db'"
  shows "rows_of db' rid =
    (if rid = hw_run_id h then rows_of db rid @
       [\<lparr>cp_run_id = hw_run_id h, cp_seq = hw_seq h, cp_node = hw_node h, cp_next_node = hw_next_node h,
         cp_state = hw_state h, cp_token = hw_token h\<rparr>] else rows_of db rid)"
  using assms by (rule insert_hop_InrE) (simp add: rows_of_def)

lemma latest_row_None [simp]: "latest_row rs = None \<longleftrightarrow> rs = []"
  by (cases rs) (auto split: option.splits)

lemma latest_row_max:
  "latest_row rs = Some m \<Longrightarrow> m \<in> set rs \<and> (\<forall>r \<in> set rs. cp_seq r \<le> cp_seq m)"
  by (induction rs arbitrary: m) (force split: option.splits if_splits)+

lemma latest_row_snoc:
  "\<forall>r \<in> set rs. cp_seq r < cp_seq x \<Longrightarrow> latest_row (rs @ [x]) = Some x"
  by (induction rs) auto

lemma sort_key_snoc:
  assumes "\<forall>r \<in> set rs. cp_seq r < cp_seq x"
  shows "sort_key cp_seq (rs @ [x]) = sort_key cp_seq rs @ [x]"
proof (rule properties_for_sort_key)
  show "mset (sort_key cp_seq rs @ [x]) = mset (rs @ [x])" by simp
  show "sorted (map cp_seq (sort_key cp_seq rs @ [x]))"
    using assms by (auto simp: sorted_append less_imp_le)
  fix k assume "k \<in> set (sort_key cp_seq rs @ [x])"
  show "filter (\<lambda>y. cp_seq k = cp_seq y) (sort_key cp_seq rs @ [x]) = filter (\<lambda>y. cp_seq k = cp_seq y) (rs @ [x])"
    by (simp add: sort_key_stable eq_commute[of "cp_seq k"])
qed

lemma latest_row_sorted:
  "latest_row rs = Some m \<Longrightarrow> distinct (map cp_seq rs) \<Longrightarrow> last (sort_key cp_seq rs) = m"
proof -
  assume m: "latest_row rs = Some m" and d: "distinct (map cp_seq rs)"
  let ?ss = "sort_key cp_seq rs"
  have ne: "?ss \<noteq> []" using m by (metis latest_row.simps(1) length_sort list.size(3) length_0_conv option.distinct(1))
  then have in_set: "last ?ss \<in> set rs" using last_in_set by fastforce
  have "cp_seq m \<le> cp_seq (last ?ss)"
  proof -
    have "sorted (map cp_seq (butlast ?ss @ [last ?ss]))" using ne by simp
    then have "\<forall>r \<in> set (butlast ?ss @ [last ?ss]). cp_seq r \<le> cp_seq (last ?ss)"
      unfolding map_append sorted_append by auto
    then show ?thesis using latest_row_max[OF m] ne by simp
  qed
  then have "cp_seq (last ?ss) = cp_seq m" using latest_row_max[OF m] in_set by fastforce
  then show ?thesis using d latest_row_max[OF m] in_set by (auto simp: distinct_map dest: inj_onD)
qed

subsection \<open>Invariants of the tables\<close>

definition db_ok :: "run_db \<Rightarrow> bool" where
  "db_ok db \<longleftrightarrow>
     distinct (map (\<lambda>r. (cp_run_id r, cp_seq r)) (db_checkpoints db)) \<and>
     distinct (map (\<lambda>e. (te_run_id e, te_seq e)) (db_events db)) \<and>
     distinct (map (\<lambda>(r, k, e). (r, k)) (db_route_entries db)) \<and>
     distinct (map eo_key (db_eval_outbox db))"

lemma distinct_insert_once: "distinct (map key xs) \<Longrightarrow> distinct (map key (insert_once key x xs))"
  by (auto simp: insert_once_def)

lemma import_rows_facts:
  "(\<forall>e \<in> set (import_rows rid seen xs). te_run_id e = rid \<and> te_seq e \<notin> seen) \<and>
   distinct (map te_seq (import_rows rid seen xs))"
  by (induction rid seen xs rule: import_rows.induct) auto

lemma number_events_facts:
  "map te_seq (number_events rid hop k ts) = map (\<lambda>i. k + int i) [0..<length ts] \<and>
   (\<forall>e \<in> set (number_events rid hop k ts). te_run_id e = rid \<and> te_hop_seq e = hop)"
proof (induction ts arbitrary: k)
  case (Cons t ts)
  then show ?case by (simp add: upt_conv_Cons[of 0] map_Suc_upt[symmetric] del: upt_Suc)
qed simp

lemma below_next_event_seq: "e \<in> set es \<Longrightarrow> te_seq e < next_event_seq es"
  using Max_ge[of "te_seq ` set es" "te_seq e"] by (auto simp: next_event_seq_def)

lemma distinct_pair:
  "\<forall>e \<in> set es. te_run_id e = rid \<Longrightarrow>
     distinct (map (\<lambda>e. (te_run_id e, te_seq e)) es) \<longleftrightarrow> distinct (map te_seq es)"
  by (induction es) auto

lemma hop_events_facts:
  assumes "distinct (map (\<lambda>e. (te_run_id e, te_seq e)) (db_events db))"
  shows "distinct (map (\<lambda>e. (te_run_id e, te_seq e)) (db_events db @ hop_events db h))"
proof -
  define old where "old = run_events db (hw_run_id h)"
  define imp where "imp = (if old = [] then import_rows (hw_run_id h) {} (hw_import_events h) else [])"
  define new where "new = number_events (hw_run_id h) (hw_seq h) (next_event_seq (old @ imp)) (hw_trajectory h)"
  have he: "hop_events db h = imp @ new"
    by (simp add: hop_events_def old_def imp_def new_def Let_def)
  have imp: "\<forall>e \<in> set imp. te_run_id e = hw_run_id h" "distinct (map te_seq imp)"
    using import_rows_facts[of "hw_run_id h" "{}" "hw_import_events h"] by (auto simp: imp_def)
  have new: "\<forall>e \<in> set new. te_run_id e = hw_run_id h"
    "map te_seq new = map (\<lambda>i. next_event_seq (old @ imp) + int i) [0..<length (hw_trajectory h)]"
    using number_events_facts[of "hw_run_id h" "hw_seq h" "next_event_seq (old @ imp)" "hw_trajectory h"]
    by (auto simp: new_def)
  have dn: "distinct (map te_seq new)" unfolding new(2) by (simp add: distinct_map inj_on_def)
  have ge: "next_event_seq (old @ imp) \<le> te_seq e" if "e \<in> set new" for e
  proof -
    have "te_seq e \<in> set (map te_seq new)" using that by simp
    then show ?thesis unfolding new(2) by auto
  qed
  have lt: "te_seq e < next_event_seq (old @ imp)" if "e \<in> set old \<union> set imp" for e
    using that by (intro below_next_event_seq) auto
  have "distinct (map te_seq (imp @ new))"
    using imp(2) dn ge lt by (fastforce simp: distinct_append)
  then have d: "distinct (map (\<lambda>e. (te_run_id e, te_seq e)) (imp @ new))"
    using imp(1) new(1) by (subst distinct_pair[of _ "hw_run_id h"]) auto
  have "(te_run_id e, te_seq e) \<noteq> (te_run_id e', te_seq e')"
    if e: "e \<in> set (db_events db)" and e': "e' \<in> set (imp @ new)" for e e'
  proof (cases "te_run_id e = hw_run_id h")
    case True
    then have "e \<in> set old" using e by (simp add: old_def run_events_def)
    then have "imp = []" "te_seq e < next_event_seq (old @ imp)" using lt by (auto simp: imp_def)
    then show ?thesis using e' ge by fastforce
  qed (use e' imp(1) new(1) in auto)
  then show ?thesis using assms d unfolding he map_append distinct_append by fastforce
qed

lemma save_keeps_db_ok:
  assumes "insert_hop db h = Inr db'" "db_ok db"
  shows "db_ok db'"
  using assms(1)
proof (rule insert_hop_InrE)
  assume nc: "\<not> has_checkpoint db (hw_run_id h) (hw_seq h)"
    and nr: "hw_route_entry h \<noteq> None \<Longrightarrow> \<not> has_route_entry db (hw_run_id h) (hw_seq h)"
    and cps: "db_checkpoints db' = db_checkpoints db @
       [\<lparr>cp_run_id = hw_run_id h, cp_seq = hw_seq h, cp_node = hw_node h, cp_next_node = hw_next_node h,
         cp_state = hw_state h, cp_token = hw_token h\<rparr>]"
    and evs: "db_events db' = db_events db @ hop_events db h"
    and eo: "db_eval_outbox db' = (case hw_eval_outbox h of
       None \<Rightarrow> db_eval_outbox db | Some e \<Rightarrow> insert_once eo_key e (db_eval_outbox db))"
    and re: "db_route_entries db' = (case hw_route_entry h of
       None \<Rightarrow> db_route_entries db | Some e \<Rightarrow> db_route_entries db @ [(hw_run_id h, hw_seq h, e)])"
  have "distinct (map (\<lambda>r. (cp_run_id r, cp_seq r)) (db_checkpoints db'))"
    using assms(2) nc by (auto simp: cps db_ok_def has_checkpoint_def)
  moreover have "distinct (map (\<lambda>(r, k, e). (r, k)) (db_route_entries db'))"
    using assms(2) nr by (cases "hw_route_entry h") (auto simp: re db_ok_def has_route_entry_def)
  moreover have "distinct (map eo_key (db_eval_outbox db'))"
    using assms(2) by (cases "hw_eval_outbox h") (auto simp: eo db_ok_def intro: distinct_insert_once)
  ultimately show ?thesis
    using hop_events_facts[of db h] assms(2) by (simp add: db_ok_def evs)
qed

subsection \<open>What the engine relies on\<close>

text \<open>A write-once log of numbered entries: a successful write with a number above all others is appended,
  and the newest entry is the last of the log. \<open>'v\<close> is what the fence sees at the time of the write.\<close>

locale run_store =
  fixes put :: "'v \<Rightarrow> 'db \<Rightarrow> 'h \<Rightarrow> 'db option"
    and entry :: "'h \<Rightarrow> 'c"
    and num :: "'c \<Rightarrow> int"
    and log :: "'db \<Rightarrow> 'c list"
    and newest :: "'db \<Rightarrow> 'c option"
    and inv :: "'db \<Rightarrow> bool"
  assumes put_inv: "put v db h = Some db' \<Longrightarrow> inv db \<Longrightarrow> inv db'"
    and put_fresh: "put v db h = Some db' \<Longrightarrow> num (entry h) \<notin> num ` set (log db)"
    and put_log: "put v db h = Some db' \<Longrightarrow> \<forall>c \<in> set (log db). num c < num (entry h) \<Longrightarrow> log db' = log db @ [entry h]"
    and newest_log: "inv db \<Longrightarrow> newest db = (if log db = [] then None else Some (last (log db)))"
    and log_sorted: "inv db \<Longrightarrow> sorted_wrt (<) (map num (log db))"
begin

text \<open>The number the next entry gets: one past the newest.\<close>

definition next_num :: "'db \<Rightarrow> int" where
  "next_num db = (case newest db of None \<Rightarrow> 0 | Some c \<Rightarrow> num c + 1)"

lemma below_next:
  assumes "inv db" "c \<in> set (log db)"
  shows "num c < next_num db"
proof -
  have ne: "log db \<noteq> []" using assms(2) by auto
  then have "sorted_wrt (<) (map num (butlast (log db) @ [last (log db)]))" using log_sorted[OF assms(1)] by simp
  then have "\<forall>x \<in> set (butlast (log db)). num x < num (last (log db))"
    unfolding map_append sorted_wrt_append by simp
  moreover have "c \<in> set (butlast (log db)) \<or> c = last (log db)"
    using assms(2) ne by (metis append_butlast_last_id in_set_conv_decomp_last insertE list.set(2) rotate1.simps(2) set_rotate1)
  ultimately show ?thesis using newest_log[OF assms(1)] ne by (auto simp: next_num_def)
qed

lemma put_next:
  assumes "put v db h = Some db'" "inv db" "num (entry h) = next_num db"
  shows "log db' = log db @ [entry h]" and "newest db' = Some (entry h)" and "next_num db' = next_num db + 1"
proof -
  show l: "log db' = log db @ [entry h]"
    using put_log[OF assms(1)] below_next[OF assms(2)] assms(3) by simp
  then show n: "newest db' = Some (entry h)" using newest_log[OF put_inv[OF assms(1,2)]] by simp
  then show "next_num db' = next_num db + 1" using assms(3) by (simp add: next_num_def)
qed

end

text \<open>The checkpoint store of one run, with the checkpoint fields a reader gets back.\<close>

definition put_checkpoint ::
    "run_id \<Rightarrow> bool \<times> lease_view \<times> lease_view \<Rightarrow> run_db \<Rightarrow> hop_write \<Rightarrow> run_db option" where
  "put_checkpoint rid v db h =
     (if hw_run_id h = rid then
        (case save (fst v) (fst (snd v)) (snd (snd v)) db h of Inl e \<Rightarrow> None | Inr db' \<Rightarrow> Some db')
      else None)"

definition checkpoint_written :: "hop_write \<Rightarrow> checkpoint" where
  "checkpoint_written h = (hw_seq h, hw_node h, hw_next_node h, hw_state h)"

lemma put_checkpoint_SomeD:
  "put_checkpoint rid v db h = Some db' \<Longrightarrow> hw_run_id h = rid \<and> insert_hop db h = Inr db'"
  by (auto simp: put_checkpoint_def split: if_splits sum.splits dest: save_InrD)

lemma distinct_rows: "db_ok db \<Longrightarrow> distinct (map cp_seq (rows_of db rid))"
  unfolding db_ok_def rows_of_def
  by (auto simp: distinct_map inj_on_def)

lemma history_seqs: "set (history db rid) = checkpoint_of ` set (rows_of db rid)"
  by (simp add: history_def)

interpretation checkpoints: run_store "put_checkpoint rid" checkpoint_written fst "\<lambda>db. history db rid"
  "\<lambda>db. latest db rid" db_ok for rid
proof
  fix v db h db'
  assume put: "put_checkpoint rid v db h = Some db'"
  note ins = put_checkpoint_SomeD[OF put]
  show "db_ok db \<Longrightarrow> db_ok db'" using save_keeps_db_ok ins by blast
  from ins have "\<not> has_checkpoint db rid (hw_seq h)" by (auto elim: insert_hop_InrE)
  then show "fst (checkpoint_written h) \<notin> fst ` set (history db rid)"
    by (auto simp: history_seqs checkpoint_written_def checkpoint_of_def has_checkpoint_def rows_of_def)
  assume "\<forall>c \<in> set (history db rid). fst c < fst (checkpoint_written h)"
  then have "\<forall>r \<in> set (rows_of db rid). cp_seq r < hw_seq h"
    by (auto simp: history_seqs checkpoint_written_def checkpoint_of_def)
  then show "history db' rid = history db rid @ [checkpoint_written h]"
    using ins rows_of_insert[OF conjunct2[OF ins], of rid]
    by (simp add: history_def sort_key_snoc checkpoint_written_def checkpoint_of_def)
next
  fix db assume ok: "db_ok db"
  show "latest db rid = (if history db rid = [] then None else Some (last (history db rid)))"
  proof (cases "latest_row (rows_of db rid)")
    case None
    then show ?thesis by (simp add: latest_def history_def)
  next
    case (Some m)
    then have ne: "sort_key cp_seq (rows_of db rid) \<noteq> []"
      by (metis latest_row_None length_0_conv length_sort option.distinct(1))
    then show ?thesis
      using latest_row_sorted[OF Some distinct_rows[OF ok]] Some
      by (auto simp: latest_def history_def last_map)
  qed
  have "sorted (map cp_seq (sort_key cp_seq (rows_of db rid)))" by simp
  moreover have "distinct (map cp_seq (sort_key cp_seq (rows_of db rid)))"
    using distinct_rows[OF ok, of rid] by (metis distinct_map distinct_sort set_sort)
  ultimately have "sorted_wrt (<) (map cp_seq (sort_key cp_seq (rows_of db rid)))"
    by (simp add: strict_sorted_iff)
  then show "sorted_wrt (<) (map fst (history db rid))"
    by (simp add: history_def checkpoint_of_def o_def)
qed

subsection \<open>Properties\<close>

text \<open>
  C7. Checkpoints are write-once and committed whole: a save succeeds exactly when the fence admits the
  caller both before and inside the transaction and neither the checkpoint nor its route entry exists
  yet; it then appends one checkpoint row, leaves every earlier row of every run as it was, adds the
  hop's events after the run's others and updates the run's summary, and the uniqueness invariants
  of the tables hold afterwards.\<close>

theorem save_commits_once:
  assumes "db_ok db"
  shows "case save fenced v1 v2 db h of
      Inr db' \<Rightarrow>
        (fenced \<longrightarrow> is_ok (require_lease_token v1 (hw_token h) (hw_token h = None)) \<and>
                   is_ok (require_lease_token v2 (hw_token h) (hw_token h = None))) \<and>
        \<not> has_checkpoint db (hw_run_id h) (hw_seq h) \<and> has_checkpoint db' (hw_run_id h) (hw_seq h) \<and>
        (\<exists>r. db_checkpoints db' = db_checkpoints db @ [r] \<and> checkpoint_of r = checkpoint_written h \<and>
             cp_token r = hw_token h) \<and>
        db_events db' = db_events db @ hop_events db h \<and>
        db_summaries db' (hw_run_id h) = Some (summary_of (hw_state h)) \<and> db_ok db'
    | Inl SaveLeaseLost \<Rightarrow>
        fenced \<and> \<not> (is_ok (require_lease_token v1 (hw_token h) (hw_token h = None)) \<and>
                   is_ok (require_lease_token v2 (hw_token h) (hw_token h = None)))
    | Inl CheckpointConflict \<Rightarrow>
        has_checkpoint db (hw_run_id h) (hw_seq h) \<or>
        hw_route_entry h \<noteq> None \<and> has_route_entry db (hw_run_id h) (hw_seq h)"
proof (cases "save fenced v1 v2 db h")
  case (Inl e)
  then show ?thesis
    by (cases e) (auto simp: save_def commit_hop_def insert_hop_def Let_def split: if_splits)
next
  case (Inr db')
  have ins: "insert_hop db h = Inr db'" using save_InrD[OF Inr] by blast
  have adm: "fenced \<longrightarrow> is_ok (require_lease_token v1 (hw_token h) (hw_token h = None)) \<and>
      is_ok (require_lease_token v2 (hw_token h) (hw_token h = None))"
    using Inr by (auto simp: save_def commit_hop_def split: if_splits)
  from ins show ?thesis
    by (rule insert_hop_InrE)
       (use adm save_keeps_db_ok[OF ins assms] in
         \<open>auto simp: Inr has_checkpoint_def checkpoint_of_def checkpoint_written_def\<close>)
qed

text \<open>Lease events and checkpoint writes of one run, interleaved in any order. Each write sees the lease
  row of the moment of its transaction; its early check may have seen any other.\<close>

inductive durable_run :: "run_id \<Rightarrow> lease_world \<Rightarrow> token list \<Rightarrow> run_db \<Rightarrow> bool" for rid where
  opened: "lw_row w = None \<Longrightarrow> lw_file w = None \<Longrightarrow> db_checkpoints db = [] \<Longrightarrow> durable_run rid w [] db"
| leased: "durable_run rid w ts db \<Longrightarrow> lease_step w ts w' ts' \<Longrightarrow> durable_run rid w' ts' db"
| saved: "durable_run rid w ts db \<Longrightarrow> save True v1 (LeaseTable (lw_row w)) db h = Inr db' \<Longrightarrow>
    hw_run_id h = rid \<Longrightarrow> durable_run rid w ts db'"

inductive_cases durable_runE: "durable_run rid w ts db"

lemma durable_run_lease: "durable_run rid w ts db \<Longrightarrow> lease_run w ts"
  by (induction rule: durable_run.induct) (auto intro: lease_run.intros)

definition token_rank :: "token option \<Rightarrow> int" where
  "token_rank t = (case t of None \<Rightarrow> 0 | Some k \<Rightarrow> k)"

lemma lease_step_tokens: "lease_step w ts w' ts' \<Longrightarrow> set ts \<subseteq> set ts'"
  by (induction rule: lease_step.induct) auto

lemma durable_run_tokens:
  "durable_run rid w ts db \<Longrightarrow>
     sorted (map (token_rank \<circ> cp_token) (db_checkpoints db)) \<and>
     (\<forall>r \<in> set (db_checkpoints db). cp_token r = None \<or> (\<exists>t \<in> set ts. cp_token r = Some t))"
proof (induction rule: durable_run.induct)
  case (opened w db)
  then show ?case by simp
next
  case (leased w ts db w' ts')
  then show ?case using lease_step_tokens[OF leased.hyps(2)] by blast
next
  case (saved w ts db v1 h db')
  have inv: "tokens_inv w ts" using lease_run_inv[OF durable_run_lease[OF saved.hyps(1)]] .
  have adm: "admits w (hw_token h)" and ins: "insert_hop db h = Inr db'"
    using save_InrD[OF saved.hyps(2)] by (auto simp: admits_def)
  have tok: "if ts = [] then hw_token h = None else hw_token h = Some (last ts)"
    using adm inv by (auto simp: admits_iff tokens_inv_def split: option.splits)
  have "token_rank (cp_token r) \<le> token_rank (hw_token h)" if r: "r \<in> set (db_checkpoints db)" for r
  proof (cases "cp_token r")
    case None
    have "ts \<noteq> [] \<Longrightarrow> 1 \<le> last ts" using inv last_in_set by (auto simp: tokens_inv_def)
    then show ?thesis using None tok by (auto simp: token_rank_def split: if_splits)
  next
    case (Some t)
    then have "t \<in> set ts" using saved.IH r by auto
    moreover have "\<forall>x \<in> set ts. x \<le> last ts"
      using inv unfolding tokens_inv_def by (cases ts rule: rev_cases) (auto simp: sorted_wrt_append)
    ultimately show ?thesis using Some tok by (auto simp: token_rank_def split: if_splits)
  qed
  then show ?case
    using ins saved.IH tok
    by (elim insert_hop_InrE) (auto simp: sorted_append split: if_splits)
qed

text \<open>
  C6. No zombie write lands after its successor: in every interleaving of lease events and checkpoint
  writes of a run, the fencing tokens on the committed checkpoints never decrease in commit order, so
  once a newer holder has written, no earlier holder can write again.\<close>

theorem checkpoint_tokens_never_go_back:
  assumes "durable_run rid w ts db"
  shows "sorted (map (token_rank \<circ> cp_token) (db_checkpoints db)) \<and>
         (\<forall>r \<in> set (db_checkpoints db). cp_token r = None \<or> (\<exists>t \<in> set ts. cp_token r = Some t)) \<and>
         sorted_wrt (<) ts"
  using durable_run_tokens[OF assms] lease_run_inv[OF durable_run_lease[OF assms]]
  unfolding tokens_inv_def by blast

subsection \<open>A first checkpoint\<close>

definition example_write :: "token option \<Rightarrow> hop_write" where
  "example_write tok =
     \<lparr>hw_run_id = ''r'', hw_seq = 0, hw_node = Intake, hw_next_node = Some Retrieve, hw_state = example_state,
      hw_token = tok, hw_eval_outbox = None, hw_trajectory = [''started''],
      hw_route_entry = Some \<lparr>re_node = Intake, re_route = Always, re_attempt_no = 0\<rparr>, hw_outbox_rows = [],
      hw_import_events = [], hw_meta = None\<rparr>"

lemma example_save:
  assumes "is_ok (require_lease_token v tok (tok = None))"
  obtains db where "save True v v empty_db (example_write tok) = Inr db"
    "map cp_token (db_checkpoints db) = [tok]"
  using assms
  by (simp add: save_def commit_hop_def example_write_def insert_hop_def has_checkpoint_def
      has_route_entry_def empty_db_def Let_def)

theorem save_commits_once_witness:
  "\<exists>db. save True (LeaseTable None) (LeaseTable None) empty_db (example_write None) = Inr db \<and>
        has_checkpoint db ''r'' 0"
proof -
  have ok: "db_ok empty_db" by (simp add: db_ok_def empty_db_def)
  obtain db where db: "save True (LeaseTable None) (LeaseTable None) empty_db (example_write None) = Inr db"
    by (rule example_save[of "LeaseTable None" None]) (simp_all add: require_lease_token_def)
  from save_commits_once[OF ok, where h = "example_write None" and ?v1.0 = "LeaseTable None" and
      ?v2.0 = "LeaseTable None" and fenced = True]
  have "has_checkpoint db (hw_run_id (example_write None)) (hw_seq (example_write None))"
    unfolding db by simp
  then show ?thesis using db by (auto simp: example_write_def)
qed

theorem checkpoint_tokens_never_go_back_witness:
  "\<exists>w ts db. durable_run ''r'' w ts db \<and> map cp_token (db_checkpoints db) = [Some 1] \<and> sorted_wrt (<) ts"
proof -
  obtain l w where a: "first_hold = (Inr l, w)" "rl_token l = Some 1" using first_hold_token by blast
  have "durable_run ''r'' fresh_world [] empty_db"
    by (rule durable_run.opened) (simp_all add: fresh_world_def empty_db_def)
  then have d: "durable_run ''r'' w ([] @ [the (rl_token l)]) empty_db"
    by (rule durable_run.leased) (rule lease_step.acquired[OF a(1)[unfolded first_hold_def]])
  have "is_ok (require_lease_token (LeaseTable (lw_row w)) (Some 1) False)"
    using a by (auto simp: lease_eval require_lease_token_def)
  then obtain db where db: "save True (LeaseTable (lw_row w)) (LeaseTable (lw_row w)) empty_db (example_write (Some 1)) = Inr db"
      "map cp_token (db_checkpoints db) = [Some 1]"
    by (rule example_save[of _ "Some 1", simplified])
  have r: "durable_run ''r'' w ([] @ [the (rl_token l)]) db"
    by (rule durable_run.saved[OF d db(1)]) (simp add: example_write_def)
  from checkpoint_tokens_never_go_back[OF r] have "sorted_wrt (<) ([] @ [the (rl_token l)])" by (rule conjunct2[OF conjunct2])
  with r db(2) show ?thesis by (intro exI conjI)
qed

end
