(* ===== verification/Graph_Engine.thy ===== *)
theory Graph_Engine
  imports Node_Learn Mea_Audit Checkpoint_Store
begin

section \<open>The graph orchestrator\<close>

text \<open>
  \<open>graph/engine.py\<close> (\<open>_build_node_context\<close>, \<open>_choose_route\<close>, \<open>_ensure_pre_solve_snapshot\<close>, \<open>_commit_hop\<close>,
  \<open>_execute\<close>, \<open>start\<close>, \<open>resume\<close>), the node registry \<open>nodes/registry.py\<close> and the state hops of
  \<open>graph/hooks.py\<close>. What services answer, what the lease looks like and whether the run was cancelled
  at a hop are functions of the hop's sequence number. Telemetry, the JSONL projection and the
  working-set packs of idle runs are not part of the model, except that restoring a pack may fail.
\<close>

record engine_env =
  ee_services :: "int \<Rightarrow> node_ctx"
  ee_workdir :: string
  ee_snapshot :: "int \<Rightarrow> string"
  ee_cancelled :: "int \<Rightarrow> bool"
  ee_policy :: "mea_policy option"
  ee_now :: "int \<Rightarrow> instant"
  ee_fenced :: bool
  ee_views :: "int \<Rightarrow> lease_view \<times> lease_view"
  ee_tenant :: tenant
  ee_events :: "run_state \<Rightarrow> run_state \<Rightarrow> node \<Rightarrow> route_name option \<Rightarrow> string list"
  ee_delta_event :: "auditor_delta \<Rightarrow> string"
  ee_imports :: "int \<Rightarrow> (int \<times> string) list"
  ee_meta :: "run_state \<Rightarrow> string"
  ee_restore_fails :: bool

datatype engine_error =
    NodeRaised node_error
  | IllegalRoute
  | AmbiguousRoute
  | VersionsOverBudget
  | StepLimit
  | RunCancelled
  | SaveFailed save_error
  | RunIdExists
  | NoCheckpoint
  | OffloadError

record engine_store =
  es_db :: run_db
  es_sidecar :: sidecar
  es_effects :: "effect list"

definition MAX_GRAPH_STEPS :: nat where
  "MAX_GRAPH_STEPS = 500"

subsection \<open>One node\<close>

definition NODE_FUNCS :: "node \<Rightarrow> run_state \<Rightarrow> node_ctx \<Rightarrow> (node_error, node_outcome) result" where
  "NODE_FUNCS n s ctx =
     (case n of
        Intake \<Rightarrow> intake s ctx
      | Retrieve \<Rightarrow> Inr (retrieve s ctx)
      | Plan \<Rightarrow> Inr (plan s ctx)
      | FanOut \<Rightarrow> fan_out s ctx
      | Solve \<Rightarrow> solve s ctx
      | Validate \<Rightarrow> validate s ctx
      | Join \<Rightarrow> join s ctx
      | ClassifyFailure \<Rightarrow> classify_failure s ctx
      | Evolve \<Rightarrow> evolve s ctx
      | Distill \<Rightarrow> Inr (distill s ctx)
      | Review \<Rightarrow> Inr (review s ctx)
      | Store \<Rightarrow> store s ctx
      | RecordDeadEnd \<Rightarrow> Inr (record_dead_end s ctx)
      | RejectDraft \<Rightarrow> Inr (reject_draft s ctx)
      | Finalize \<Rightarrow> Inr (finalize s ctx))"

text \<open>The engine passes no patch templates to a node.\<close>

definition build_node_context :: "engine_env \<Rightarrow> string list option \<Rightarrow> int \<Rightarrow> run_state \<Rightarrow> node_ctx" where
  "build_node_context env script k s =
     (ee_services env k)\<lparr>cx_run_id := rs_run_id s, cx_workdir := ee_workdir env, cx_script := script,
                         cx_patch_templates := None\<rparr>"

definition choose_route :: "node \<Rightarrow> node_outcome \<Rightarrow> (engine_error, route) result" where
  "choose_route n oc =
     (let legal = legal_routes n (oc_state oc)
      in case oc_route oc of
           Some name \<Rightarrow>
             (case List.find (\<lambda>r. rt_predicate_name r = name) legal of
                None \<Rightarrow> Inl IllegalRoute | Some r \<Rightarrow> Inr r)
         | None \<Rightarrow> (case legal of [r] \<Rightarrow> Inr r | _ \<Rightarrow> Inl AmbiguousRoute))"

definition ensure_pre_solve_snapshot :: "string \<Rightarrow> route \<Rightarrow> run_state \<Rightarrow> run_state" where
  "ensure_pre_solve_snapshot ref chosen s =
     (if rt_target chosen \<noteq> Solve \<or> rs_workspace_snapshots s \<noteq> [] then s
      else s\<lparr>rs_workspace_snapshots := [\<lparr>ws_attempt_no = 0, ws_snapshot_ref = ref, ws_restored = False\<rparr>]\<rparr>)"

definition attempt_for :: "node \<Rightarrow> run_state \<Rightarrow> int" where
  "attempt_for n s = (if n = Solve then rs_attempt_no s + 1 else rs_attempt_no s)"

text \<open>The two state hops, in their order: bind after intake, audit after validate.\<close>

definition intake_bind_hook ::
    "engine_env \<Rightarrow> int \<Rightarrow> node \<Rightarrow> run_state \<Rightarrow> sidecar \<Rightarrow> run_state \<times> sidecar \<times> effect list" where
  "intake_bind_hook env k n s sc =
     (if n \<noteq> Intake then (s, sc, [])
      else bind_after_intake (cx_criteria_hash (ee_services env k)) (ee_policy env) (ee_now env k) True sc s)"

definition validate_audit_hook ::
    "engine_env \<Rightarrow> int \<Rightarrow> node \<Rightarrow> int \<Rightarrow> run_state \<Rightarrow> sidecar \<Rightarrow> sidecar \<times> string list" where
  "validate_audit_hook env k n attempt s sc =
     (if n \<noteq> Validate then (sc, [])
      else case audit_after_validate (ee_now env k) sc s attempt of
             (sc', None) \<Rightarrow> (sc', [])
           | (sc', Some d) \<Rightarrow> (sc', [ee_delta_event env d]))"

definition eval_outbox :: "tenant \<Rightarrow> run_state \<Rightarrow> eval_outbox_row option" where
  "eval_outbox tenant s =
     (if rs_terminal s = None then None
      else Some \<lparr>eo_key = tenant @ ''/'' @ rs_run_id s @ ''/'' @ str_of_int (rs_attempt_no s),
                 eo_run_id = rs_run_id s, eo_attempt_no = rs_attempt_no s, eo_payload = s,
                 eo_status = PendingDelivery, eo_attempts = 0\<rparr>)"

definition hop_write_of ::
    "engine_env \<Rightarrow> token option \<Rightarrow> int \<Rightarrow> run_state \<Rightarrow> run_state \<Rightarrow> node \<Rightarrow> node option \<Rightarrow> route_name option \<Rightarrow>
     route_entry option \<Rightarrow> string list \<Rightarrow> eval_outbox_row option \<Rightarrow> hop_write" where
  "hop_write_of env tok k prior s n next_node route entry extra eo =
     \<lparr>hw_run_id = rs_run_id s, hw_seq = k, hw_node = n, hw_next_node = next_node, hw_state = s,
      hw_token = tok, hw_eval_outbox = eo, hw_trajectory = ee_events env prior s n route @ extra,
      hw_route_entry = entry, hw_outbox_rows = [], hw_import_events = ee_imports env k,
      hw_meta = Some (ee_meta env s)\<rparr>"

definition do_commit ::
    "engine_env \<Rightarrow> hop_write \<Rightarrow> engine_store \<Rightarrow> (engine_error, run_state \<times> node option) result \<times> engine_store" where
  "do_commit env h es =
     (case save (ee_fenced env) (fst (ee_views env (hw_seq h))) (snd (ee_views env (hw_seq h))) (es_db es) h of
        Inl e \<Rightarrow> (Inl (SaveFailed e), es)
      | Inr db \<Rightarrow> (Inr (hw_state h, hw_next_node h), es\<lparr>es_db := db\<rparr>))"

text \<open>One turn of the loop in \<open>_execute\<close>: the node, the version check, the route, the state hops, the
  commit. The result is the new state and the next node, none after finalize.\<close>

definition route_hop ::
    "engine_env \<Rightarrow> token option \<Rightarrow> int \<Rightarrow> run_state \<Rightarrow> node \<Rightarrow> node_outcome \<Rightarrow> engine_store \<Rightarrow>
     (engine_error, run_state \<times> node option) result \<times> engine_store" where
  "route_hop env tok k s n oc es =
     (case choose_route n oc of
        Inl e \<Rightarrow> (Inl e, es)
      | Inr chosen \<Rightarrow>
          (let s1 = ensure_pre_solve_snapshot (ee_snapshot env k) chosen (oc_state oc);
               entry = \<lparr>re_node = n, re_route = rt_predicate_name chosen, re_attempt_no = attempt_for n s\<rparr>;
               s2 = s1\<lparr>rs_route_log := rs_route_log s1 @ [entry]\<rparr>;
               (s3, sc1, eff) = intake_bind_hook env k n s2 (es_sidecar es);
               (sc2, extra) = validate_audit_hook env k n (attempt_for n s) s3 sc1
           in do_commit env
                (hop_write_of env tok k s s3 n (Some (rt_target chosen)) (Some (rt_predicate_name chosen))
                  (Some entry) extra None)
                (es\<lparr>es_sidecar := sc2, es_effects := es_effects es @ eff\<rparr>)))"

definition hop ::
    "engine_env \<Rightarrow> token option \<Rightarrow> string list option \<Rightarrow> int \<Rightarrow> run_state \<Rightarrow> node \<Rightarrow> engine_store \<Rightarrow>
     (engine_error, run_state \<times> node option) result \<times> engine_store" where
  "hop env tok script k s n es =
     (if ee_cancelled env k then (Inl RunCancelled, es)
      else case NODE_FUNCS n s (build_node_context env script k s) of
             Inl e \<Rightarrow> (Inl (NodeRaised e), es)
           | Inr oc \<Rightarrow>
               (let es1 = es\<lparr>es_effects := es_effects es @ oc_effects oc\<rparr>; s' = oc_state oc
                in if max_versions_written (rs_budget s') < sp_versions_written (rs_spent s')
                   then (Inl VersionsOverBudget, es1)
                   else if n = Finalize
                   then do_commit env
                          (hop_write_of env tok k s s' n None (oc_route oc) None [] (eval_outbox (ee_tenant env) s')) es1
                   else route_hop env tok k s n oc es1))"

subsection \<open>The loop\<close>

function execute ::
    "engine_env \<Rightarrow> token option \<Rightarrow> string list option \<Rightarrow> nat option \<Rightarrow> nat \<Rightarrow> int \<Rightarrow> run_state \<Rightarrow> node \<Rightarrow>
     engine_store \<Rightarrow> (engine_error, run_state) result \<times> engine_store" where
  "execute env tok script max_steps taken k s n es =
     (if MAX_GRAPH_STEPS < taken + 1 then (Inl StepLimit, es)
      else if (case max_steps of None \<Rightarrow> False | Some m \<Rightarrow> m < taken + 1) then (Inr s, es)
      else case hop env tok script k s n es of
             (Inl e, es') \<Rightarrow> (Inl e, es')
           | (Inr (s', None), es') \<Rightarrow> (Inr s', es')
           | (Inr (s', Some n'), es') \<Rightarrow> execute env tok script max_steps (taken + 1) (k + 1) s' n' es')"
  by pat_completeness auto
termination
  by (relation "measure (\<lambda>(env, tok, script, ms, taken, k, s, n, es). MAX_GRAPH_STEPS + 1 - taken)") auto

declare execute.simps [simp del]

definition next_seq :: "run_db \<Rightarrow> run_id \<Rightarrow> int" where
  "next_seq db rid = (case latest_seq db rid of None \<Rightarrow> 0 | Some k \<Rightarrow> k + 1)"

record run_request =
  rq_run_id :: run_id
  rq_task :: task
  rq_criteria :: "task_criterion list"
  rq_budget :: budget
  rq_arm :: arm
  rq_manifest :: run_manifest

definition request_state :: "run_request \<Rightarrow> run_state" where
  "request_state q = initial_state (rq_run_id q) (rq_task q) (rq_criteria q) (rq_budget q) (rq_arm q) (rq_manifest q)"

definition start ::
    "engine_env \<Rightarrow> token option \<Rightarrow> string list option \<Rightarrow> nat option \<Rightarrow> run_request \<Rightarrow> engine_store \<Rightarrow>
     (engine_error, run_state) result \<times> engine_store" where
  "start env tok script max_steps q es =
     (if latest_seq (es_db es) (rq_run_id q) \<noteq> None then (Inl RunIdExists, es)
      else execute env tok script max_steps 0 (next_seq (es_db es) (rq_run_id q)) (request_state q) Intake es)"

definition resume ::
    "engine_env \<Rightarrow> token option \<Rightarrow> string list option \<Rightarrow> nat option \<Rightarrow> run_id \<Rightarrow> engine_store \<Rightarrow>
     (engine_error, run_state) result \<times> engine_store" where
  "resume env tok script max_steps rid es =
     (case latest (es_db es) rid of
        None \<Rightarrow> (Inl NoCheckpoint, es)
      | Some (k, n, next_node, s) \<Rightarrow>
          (case next_node of
             None \<Rightarrow> (Inr s, es)
           | Some n' \<Rightarrow>
               if ee_restore_fails env then (Inl OffloadError, es)
               else execute env tok script max_steps 0 (k + 1) s n' es))"

subsection \<open>What every node keeps\<close>

text \<open>The contract the loop relies on: a node keeps the frame of the run, never refunds an attempt, solve
  charges at least one, and branch accounting stays sound.\<close>

definition node_step :: "node \<Rightarrow> run_state \<Rightarrow> run_state \<Rightarrow> bool" where
  "node_step n s s' \<longleftrightarrow>
     same_frame s s' \<and> sp_attempts (rs_spent s) \<le> sp_attempts (rs_spent s') \<and>
     (n = Solve \<longrightarrow> sp_attempts (rs_spent s) + 1 \<le> sp_attempts (rs_spent s')) \<and> branch_spends_ok s'"

lemma plan_same_frame: "same_frame s (oc_state (plan s ctx))"
  by (simp add: plan_def same_frame_def split: option.splits list.splits)

lemma plan_step: "branch_spends_ok s \<Longrightarrow> node_step Plan s (oc_state (plan s ctx))"
  using plan_same_frame[of s ctx] by (simp add: node_step_def branch_spends_ok_def)

lemma new_branches_spent:
  "b \<in> set (portfolio_branches s ctx k child req) \<Longrightarrow> sp_attempts (b_spent b) = 0"
  "b \<in> set (decomposition_branches ctx owned child req) \<Longrightarrow> sp_attempts (b_spent b) = 0"
  by (auto simp: portfolio_branches_def decomposition_branches_def new_branch_def no_spend_def Let_def set_zip)

lemma fan_out_step: "fan_out s ctx = Inr oc \<Longrightarrow> branch_spends_ok s \<Longrightarrow> node_step FanOut s (oc_state oc)"
  by (auto simp: fan_out_def Let_def dispatch_def node_step_def same_frame_def branch_spends_ok_def new_branches_spent
      split: if_splits option.splits)

lemma solve_step: "solve s ctx = Inr oc \<Longrightarrow> branch_spends_ok s \<Longrightarrow> node_step Solve s (oc_state oc)"
  using solve_post[of s ctx oc]
  by (auto simp: solve_post_def node_step_def branches_done_def branch_spends_ok_def)

lemma validate_step: "validate s ctx = Inr oc \<Longrightarrow> branch_spends_ok s \<Longrightarrow> node_step Validate s (oc_state oc)"
  by (auto elim!: validate_InrE simp: node_step_def same_frame_def branch_spends_ok_def)

lemma join_step:
  assumes "join s ctx = Inr oc" "branch_spends_ok s"
  shows "node_step Join s (oc_state oc)"
proof -
  define keep where "keep = drop_losers s (layered_survivors s)"
  have k: "same_frame s keep" "rs_spent keep = rs_spent s" "branch_spends_ok keep"
    using assms(2) by (auto simp: keep_def drop_losers_def same_frame_def branch_spends_ok_def split: option.splits)
  consider m where "oc = join_missing s ctx m"
    | a sv where "join_portfolio keep ctx sv a = Inr oc"
    | a where "join_decomposition keep ctx a = Inr oc"
    using assms(1) unfolding join_def Let_def keep_def by (auto split: if_splits)
  then show ?thesis
  proof cases
    case 1
    then show ?thesis using assms(2) by (simp add: join_missing_def node_step_def same_frame_def branch_spends_ok_def)
  next
    case 2
    then show ?thesis
      using k by (auto simp: join_portfolio_def Let_def node_step_def same_frame_def branch_spends_ok_def
          split: sum.splits option.splits)
  next
    case 3
    then show ?thesis
      using k by (auto simp: join_decomposition_def Let_def node_step_def same_frame_def branch_spends_ok_def
          split: sum.splits option.splits if_splits)
  qed
qed

lemma evolve_step: "evolve s ctx = Inr oc \<Longrightarrow> branch_spends_ok s \<Longrightarrow> node_step Evolve s (oc_state oc)"
  by (elim evolve_InrE) (simp add: node_step_def branch_spends_ok_def)

lemma quiet_step:
  "same_frame s s' \<Longrightarrow> sp_attempts (rs_spent s') = sp_attempts (rs_spent s) \<Longrightarrow> rs_branches s' = rs_branches s \<Longrightarrow>
     branch_spends_ok s \<Longrightarrow> n \<noteq> Solve \<Longrightarrow> node_step n s s'"
  by (simp add: node_step_def branch_spends_ok_def)

lemma node_funcs_step:
  assumes "NODE_FUNCS n s ctx = Inr oc" "branch_spends_ok s" "n \<noteq> Finalize"
  shows "node_step n s (oc_state oc)"
proof (cases n)
  case Intake
  then show ?thesis using assms intake_frame[of s ctx oc] by (intro quiet_step) (auto simp: NODE_FUNCS_def)
next
  case Retrieve
  then show ?thesis using assms retrieve_frame[of s ctx] by (intro quiet_step) (auto simp: NODE_FUNCS_def)
next
  case ClassifyFailure
  then show ?thesis
    using assms classify_failure_frame[of s ctx oc] by (intro quiet_step) (auto simp: NODE_FUNCS_def)
next
  case Distill
  then show ?thesis using assms distill_frame[of s ctx] by (intro quiet_step) (auto simp: NODE_FUNCS_def)
next
  case Review
  then show ?thesis using assms review_frame[of s ctx] by (intro quiet_step) (auto simp: NODE_FUNCS_def)
next
  case Store
  then show ?thesis using assms store_frame[of s ctx oc] by (intro quiet_step) (auto simp: NODE_FUNCS_def)
next
  case RecordDeadEnd
  then show ?thesis using assms record_dead_end_frame[of s ctx] by (intro quiet_step) (auto simp: NODE_FUNCS_def)
next
  case RejectDraft
  then show ?thesis using assms reject_draft_frame[of s ctx] by (intro quiet_step) (auto simp: NODE_FUNCS_def)
qed (use assms in \<open>auto simp: NODE_FUNCS_def
       intro: plan_step fan_out_step solve_step validate_step join_step evolve_step\<close>)

end
