(* ===== verification/Engine_Run.thy ===== *)
theory Engine_Run
  imports Graph_Engine
begin

section \<open>Runs of the engine\<close>

text \<open>
  What the loop of \<open>graph/engine.py\<close> guarantees over whole runs: it reaches the end within a number of
  hops fixed by the attempt budget, every committed hop follows the route table, a run ends solved
  only with its required criteria passed, and a paused run resumes as if it had not stopped.
\<close>

subsection \<open>How many hops are left\<close>

text \<open>An upper bound on the hops from a node to the end, with \<open>r\<close> attempts left.\<close>

fun hops_for :: "node \<Rightarrow> nat \<Rightarrow> nat" where
  "hops_for Finalize r = 1"
| "hops_for Store r = 2"
| "hops_for RejectDraft r = 2"
| "hops_for RecordDeadEnd r = 2"
| "hops_for Review r = 3"
| "hops_for Distill r = 4"
| "hops_for ClassifyFailure r = (if r = 0 then 3 else 4 + 5 * r)"
| "hops_for Join r = 5 + 5 * r"
| "hops_for Validate r = 6 + 5 * r"
| "hops_for Solve r = 7 + 5 * (r - 1)"
| "hops_for Evolve r = 8 + 5 * (r - 1)"
| "hops_for FanOut r = (if r = 0 then 8 else 5 + 5 * r)"
| "hops_for Plan r = (if r = 0 then 9 else 6 + 5 * r)"
| "hops_for Retrieve r = (if r = 0 then 10 else 7 + 5 * r)"
| "hops_for Intake r = (if r = 0 then 11 else 8 + 5 * r)"

definition attempts_left :: "run_state \<Rightarrow> nat" where
  "attempts_left s = nat (max_attempts (rs_budget s) - sp_attempts (rs_spent s))"

definition hops_left :: "node \<Rightarrow> run_state \<Rightarrow> nat" where
  "hops_left n s = hops_for n (attempts_left s)"

lemma hops_for_pos: "0 < hops_for n r"
  by (cases n) auto

lemma hops_for_mono: "r' \<le> r \<Longrightarrow> hops_for n r' \<le> hops_for n r"
  by (cases n) auto

text \<open>Following an edge of the table costs one hop; solve pays with an attempt, and a retry needs one.\<close>

lemma edge_decreases:
  assumes "r \<in> set (routes_from n)" "r' \<le> k" "n = Solve \<Longrightarrow> r' \<le> k - 1"
    and "rt_target r = Evolve \<Longrightarrow> 0 < r'"
  shows "hops_for (rt_target r) r' < hops_for n k"
  using assms by (cases n) (auto simp: node_simps)

lemma choose_route_InrD:
  assumes "choose_route n oc = Inr r"
  shows "r \<in> set (routes_from n)" "rt_predicate r (oc_state oc)"
    "legal_route n (rt_predicate_name r) (oc_state oc)" "target_of n (rt_predicate_name r) = Some (rt_target r)"
proof -
  have r: "r \<in> set (legal_routes n (oc_state oc))"
    using assms
    by (auto simp: choose_route_def Let_def find_Some_iff split: option.splits list.splits)
  then show rf: "r \<in> set (routes_from n)" and "rt_predicate r (oc_state oc)" by (auto simp: legal_routes_def)
  show "legal_route n (rt_predicate_name r) (oc_state oc)" using r by (auto simp: legal_route_def)
  show "target_of n (rt_predicate_name r) = Some (rt_target r)"
    using rf by (cases n) (auto simp: node_simps)
qed

lemma evolve_needs_attempts:
  assumes "choose_route n oc = Inr r" "rt_target r = Evolve"
  shows "0 < attempts_left (oc_state oc)"
proof -
  have "budget_remains_with_progress (oc_state oc)"
    using choose_route_InrD(1,2)[OF assms(1)] assms(2) by (cases n) (auto simp: node_simps)
  then show ?thesis
    by (auto simp: budget_remains_with_progress_def attempts_left_def split: option.splits if_splits)
qed

text \<open>The interface between the loop and the nodes.\<close>

locale node_contract =
  fixes run :: "node \<Rightarrow> run_state \<Rightarrow> 'c \<Rightarrow> (node_error, node_outcome) result"
  assumes run_step: "run n s ctx = Inr oc \<Longrightarrow> branch_spends_ok s \<Longrightarrow> n \<noteq> Finalize \<Longrightarrow> node_step n s (oc_state oc)"
begin

lemma attempts_never_return:
  assumes "run n s ctx = Inr oc" "branch_spends_ok s" "n \<noteq> Finalize"
  shows "attempts_left (oc_state oc) \<le> attempts_left s"
    and "n = Solve \<Longrightarrow> attempts_left (oc_state oc) \<le> attempts_left s - 1"
  using run_step[OF assms] by (auto simp: node_step_def same_frame_def attempts_left_def)

lemma routed_hop_decreases:
  assumes "run n s ctx = Inr oc" "branch_spends_ok s" "n \<noteq> Finalize" "choose_route n oc = Inr r"
  shows "hops_left (rt_target r) (oc_state oc) < hops_left n s"
  unfolding hops_left_def
  using choose_route_InrD(1)[OF assms(4)] attempts_never_return[OF assms(1-3)] evolve_needs_attempts[OF assms(4)]
  by (intro edge_decreases) auto

end

interpretation task_plane: node_contract NODE_FUNCS
  by unfold_locales (rule node_funcs_step)

subsection \<open>One hop\<close>

text \<open>What the engine adds to a node's state: a first snapshot, the route entry, the loop's activation.\<close>

definition engine_step :: "node \<Rightarrow> route \<Rightarrow> run_state \<Rightarrow> run_state \<Rightarrow> bool" where
  "engine_step n r s s' \<longleftrightarrow>
     (\<exists>entry. re_node entry = n \<and> re_route entry = rt_predicate_name r \<and> rs_route_log s' = rs_route_log s @ [entry]) \<and>
     rs_run_id s' = rs_run_id s \<and> rs_task s' = rs_task s \<and> rs_arm s' = rs_arm s \<and> rs_budget s' = rs_budget s \<and>
     rs_spent s' = rs_spent s \<and> rs_terminal s' = rs_terminal s \<and> rs_branches s' = rs_branches s \<and>
     rs_criteria s' = rs_criteria s \<and> rs_results s' = rs_results s \<and> rs_strategy s' = rs_strategy s \<and>
     rs_failure_signal s' = rs_failure_signal s \<and> rs_transcript_ref s' = rs_transcript_ref s \<and>
     rs_merge_audits s' = rs_merge_audits s \<and> rs_failure s' = rs_failure s \<and>
     rs_results_history s' = rs_results_history s \<and> rs_reusability s' = rs_reusability s"

lemma do_commit_InrE:
  assumes "do_commit env h es = (Inr (s', nx), es')"
  obtains db where "save (ee_fenced env) (fst (ee_views env (hw_seq h))) (snd (ee_views env (hw_seq h))) (es_db es) h = Inr db"
    "es' = es\<lparr>es_db := db\<rparr>" "s' = hw_state h" "nx = hw_next_node h"
  using assms by (auto simp: do_commit_def split: sum.splits)

lemma bind_hook_step:
  assumes "intake_bind_hook env k n s sc = (s', sc', eff)"
  shows "\<exists>a f. s' = s\<lparr>rs_mea_active := a, rs_mea_fallback_reason := f\<rparr>"
proof -
  have same: "\<exists>a f. s = s\<lparr>rs_mea_active := a, rs_mea_fallback_reason := f\<rparr>"
    by (intro exI[of _ "rs_mea_active s"] exI[of _ "rs_mea_fallback_reason s"]) simp
  show ?thesis
    using assms same
    by (fastforce simp: intake_bind_hook_def bind_after_intake_def Let_def split: if_splits)
qed

lemma route_hop_InrE:
  assumes "route_hop env tok k s n oc es = (Inr (s', nx), es')"
  obtains r h es1 where "choose_route n oc = Inr r" "nx = Some (rt_target r)" "engine_step n r (oc_state oc) s'"
    "do_commit env h es1 = (Inr (s', nx), es')" "es_db es1 = es_db es"
    "checkpoint_written h = (k, n, nx, s')" "hw_run_id h = rs_run_id s'"
proof -
  obtain r where r: "choose_route n oc = Inr r"
    using assms by (auto simp: route_hop_def split: sum.splits)
  define s1 where "s1 = ensure_pre_solve_snapshot (ee_snapshot env k) r (oc_state oc)"
  define entry where "entry = \<lparr>re_node = n, re_route = rt_predicate_name r, re_attempt_no = attempt_for n s\<rparr>"
  define s2 where "s2 = s1\<lparr>rs_route_log := rs_route_log s1 @ [entry]\<rparr>"
  obtain s3 sc1 eff where b: "intake_bind_hook env k n s2 (es_sidecar es) = (s3, sc1, eff)"
    by (cases "intake_bind_hook env k n s2 (es_sidecar es)")
  obtain sc2 extra where v: "validate_audit_hook env k n (attempt_for n s) s3 sc1 = (sc2, extra)"
    by (cases "validate_audit_hook env k n (attempt_for n s) s3 sc1")
  define h where "h = hop_write_of env tok k s s3 n (Some (rt_target r)) (Some (rt_predicate_name r)) (Some entry) extra None"
  define es1 where "es1 = es\<lparr>es_sidecar := sc2, es_effects := es_effects es @ eff\<rparr>"
  have dc: "do_commit env h es1 = (Inr (s', nx), es')"
    using assms
    by (simp add: route_hop_def r Let_def s1_def[symmetric] entry_def[symmetric] s2_def[symmetric] b v
        h_def[symmetric] es1_def[symmetric])
  then have eq: "s' = s3" "nx = Some (rt_target r)"
    by (auto elim!: do_commit_InrE simp: h_def hop_write_of_def)
  have "engine_step n r (oc_state oc) s3"
    using bind_hook_step[OF b]
    by (auto simp: engine_step_def s2_def s1_def entry_def ensure_pre_solve_snapshot_def)
  then show thesis
    using dc eq r that[of r h es1]
    by (simp add: h_def hop_write_of_def es1_def checkpoint_written_def)
qed

lemma hop_InrE:
  assumes "hop env tok script k s n es = (Inr (s', nx), es')"
  obtains oc h es1 where
    "NODE_FUNCS n s (build_node_context env script k s) = Inr oc"
    "sp_versions_written (rs_spent (oc_state oc)) \<le> max_versions_written (rs_budget (oc_state oc))"
    "do_commit env h es1 = (Inr (s', nx), es')" "es_db es1 = es_db es"
    "checkpoint_written h = (k, n, nx, s')" "hw_run_id h = rs_run_id s'"
    "n = Finalize \<and> nx = None \<and> s' = oc_state oc \<or>
     n \<noteq> Finalize \<and> (\<exists>r. choose_route n oc = Inr r \<and> nx = Some (rt_target r) \<and> engine_step n r (oc_state oc) s')"
proof -
  obtain oc where oc: "NODE_FUNCS n s (build_node_context env script k s) = Inr oc"
    and v: "\<not> max_versions_written (rs_budget (oc_state oc)) < sp_versions_written (rs_spent (oc_state oc))"
    using assms by (auto simp: hop_def Let_def split: if_splits sum.splits)
  define es1 where "es1 = es\<lparr>es_effects := es_effects es @ oc_effects oc\<rparr>"
  show thesis
  proof (cases "n = Finalize")
    case True
    define h where "h = hop_write_of env tok k s (oc_state oc) n None (oc_route oc) None []
      (eval_outbox (ee_tenant env) (oc_state oc))"
    have dc: "do_commit env h es1 = (Inr (s', nx), es')"
      using assms oc v True by (simp add: hop_def Let_def h_def es1_def split: if_splits)
    then have "s' = oc_state oc" "nx = None" by (auto elim!: do_commit_InrE simp: h_def hop_write_of_def)
    then show thesis
      using oc v True dc that[of oc h es1] by (simp add: h_def hop_write_of_def es1_def checkpoint_written_def)
  next
    case False
    then have "route_hop env tok k s n oc es1 = (Inr (s', nx), es')"
      using assms oc v by (simp add: hop_def Let_def es1_def split: if_splits)
    then show thesis
    proof (rule route_hop_InrE)
      fix r h es2
      assume "choose_route n oc = Inr r" "nx = Some (rt_target r)" "engine_step n r (oc_state oc) s'"
        "do_commit env h es2 = (Inr (s', nx), es')" "es_db es2 = es_db es1"
        "checkpoint_written h = (k, n, nx, s')" "hw_run_id h = rs_run_id s'"
      then show thesis using oc v False that[of oc h es2] by (simp add: es1_def)
    qed
  qed
qed

lemma do_commit_Inl: "do_commit env h es = (Inl e, es') \<Longrightarrow> es_db es' = es_db es \<and> e \<noteq> StepLimit"
  by (auto simp: do_commit_def split: sum.splits)

lemma hop_InlD:
  assumes "hop env tok script k s n es = (Inl e, es')"
  shows "es_db es' = es_db es" and "e \<noteq> StepLimit"
proof -
  have "es_db es' = es_db es \<and> e \<noteq> StepLimit"
    using assms
    by (auto simp: hop_def route_hop_def choose_route_def Let_def
        split: if_splits sum.splits prod.splits option.splits list.splits dest!: do_commit_Inl)
  then show "es_db es' = es_db es" and "e \<noteq> StepLimit" by auto
qed

lemma hop_writes_one:
  assumes "hop env tok script k s n es = (Inr (s', nx), es')"
  shows "length (db_checkpoints (es_db es')) = length (db_checkpoints (es_db es)) + 1"
  using assms
proof (rule hop_InrE)
  fix oc h es1
  assume "do_commit env h es1 = (Inr (s', nx), es')" and db: "es_db es1 = es_db es"
  then obtain db where "insert_hop (es_db es1) h = Inr db" "es' = es1\<lparr>es_db := db\<rparr>"
    by (elim do_commit_InrE) (auto dest: save_InrD)
  then show ?thesis using db by (auto elim!: insert_hop_InrE)
qed

lemma hop_next_progress:
  assumes "hop env tok script k s n es = (Inr (s', Some n'), es')" "branch_spends_ok s"
  shows "branch_spends_ok s'" and "hops_left n' s' < hops_left n s"
    and "rs_budget s' = rs_budget s" and "rs_run_id s' = rs_run_id s"
proof -
  obtain oc r where oc: "NODE_FUNCS n s (build_node_context env script k s) = Inr oc" "n \<noteq> Finalize"
    and r: "choose_route n oc = Inr r" "n' = rt_target r" and st: "engine_step n r (oc_state oc) s'"
    using assms(1) by (rule hop_InrE) auto
  note step = node_funcs_step[OF oc(1) assms(2) oc(2)]
  show "branch_spends_ok s'" using step st by (simp add: node_step_def engine_step_def branch_spends_ok_def)
  have "hops_left n' s' = hops_left (rt_target r) (oc_state oc)"
    using st r(2) by (simp add: hops_left_def attempts_left_def engine_step_def)
  then show "hops_left n' s' < hops_left n s"
    using task_plane.routed_hop_decreases[OF oc(1) assms(2) oc(2) r(1)] by simp
  show "rs_budget s' = rs_budget s" "rs_run_id s' = rs_run_id s"
    using step st by (simp_all add: node_step_def same_frame_def engine_step_def)
qed

subsection \<open>The loop ends\<close>

lemma hop_out_cases: "(\<exists>e. out = Inl e) \<or> (\<exists>s. out = Inr (s, None)) \<or> (\<exists>s n. out = Inr (s, Some n))"
  by (cases out; simp; metis option.exhaust prod.exhaust)

text \<open>Induction along the loop: it stops at the valve, pauses, fails, finishes, or takes a hop.\<close>

lemma execute_induct [consumes 1, case_names limit pause fail finish step]:
  assumes ex: "execute env tok script ms taken k s n es = (res, es')"
    and limit: "\<And>taken k s n es. MAX_GRAPH_STEPS < taken + 1 \<Longrightarrow> res = Inl StepLimit \<Longrightarrow> es' = es \<Longrightarrow> P taken k s n es"
    and pause: "\<And>taken k s n es m. taken + 1 \<le> MAX_GRAPH_STEPS \<Longrightarrow> ms = Some m \<Longrightarrow> m < taken + 1 \<Longrightarrow>
      res = Inr s \<Longrightarrow> es' = es \<Longrightarrow> P taken k s n es"
    and fail: "\<And>taken k s n es e. hop env tok script k s n es = (Inl e, es') \<Longrightarrow> res = Inl e \<Longrightarrow> P taken k s n es"
    and finish: "\<And>taken k s n es s1. hop env tok script k s n es = (Inr (s1, None), es') \<Longrightarrow> res = Inr s1 \<Longrightarrow> P taken k s n es"
    and step: "\<And>taken k s n es s1 n1 es1. taken + 1 \<le> MAX_GRAPH_STEPS \<Longrightarrow>
      hop env tok script k s n es = (Inr (s1, Some n1), es1) \<Longrightarrow>
      execute env tok script ms (taken + 1) (k + 1) s1 n1 es1 = (res, es') \<Longrightarrow>
      P (taken + 1) (k + 1) s1 n1 es1 \<Longrightarrow> P taken k s n es"
  shows "P taken k s n es"
  using ex
proof (induction "MAX_GRAPH_STEPS + 1 - taken" arbitrary: taken k s n es rule: less_induct)
  case less
  show ?case
  proof (cases "MAX_GRAPH_STEPS < taken + 1")
    case True
    then show ?thesis using less.prems by (intro limit) (auto simp: execute.simps)
  next
    case go: False
    show ?thesis
    proof (cases "case ms of None \<Rightarrow> False | Some m \<Rightarrow> m < taken + 1")
      case True
      then show ?thesis
        using less.prems go by (cases ms) (auto simp: execute.simps intro: pause)
    next
      case False
      obtain out es1 where h: "hop env tok script k s n es = (out, es1)" by (cases "hop env tok script k s n es")
      note ex1 = less.prems[unfolded execute.simps[of env tok script ms taken k s n es]]
      consider e where "out = Inl e" | s1 where "out = Inr (s1, None)" | s1 n1 where "out = Inr (s1, Some n1)"
        by (metis hop_out_cases)
      then show ?thesis
      proof cases
        case 1
        then show ?thesis using ex1 go False h by (intro fail) auto
      next
        case 2
        then show ?thesis using ex1 go False h by (intro finish) auto
      next
        case 3
        then have ex2: "execute env tok script ms (taken + 1) (k + 1) s1 n1 es1 = (res, es')"
          using ex1 go False h by simp
        have P1: "P (taken + 1) (k + 1) s1 n1 es1" using go by (intro less.hyps[OF _ ex2]) simp
        show ?thesis using go by (intro step[OF _ h[unfolded 3] ex2 P1]) simp
      qed
    qed
  qed
qed

lemma execute_bounded:
  assumes "execute env tok script ms taken k s n es = (res, es')"
  shows "branch_spends_ok s \<Longrightarrow>
    length (db_checkpoints (es_db es')) \<le> length (db_checkpoints (es_db es)) + hops_left n s \<and>
    (taken + hops_left n s \<le> MAX_GRAPH_STEPS \<longrightarrow> res \<noteq> Inl StepLimit)"
  using assms
proof (induction rule: execute_induct)
  case (limit taken k s n es)
  then show ?case using hops_for_pos[of n "attempts_left s"] by (auto simp: hops_left_def)
next
  case (fail taken k s n es e)
  then show ?case using hop_InlD[OF fail(1)] by simp
next
  case (finish taken k s n es s1)
  then show ?case using hop_writes_one[OF finish(1)] hops_for_pos[of n "attempts_left s"] by (simp add: hops_left_def)
next
  case (step taken k s n es s1 n1 es1)
  then show ?case
    using hop_writes_one[OF step(2)] hop_next_progress(1,2)[OF step(2)] by auto
qed simp

lemma request_state_sel [simp]:
  "rs_budget (request_state q) = rq_budget q" "rs_spent (request_state q) = no_spend"
  "rs_branches (request_state q) = []" "rs_run_id (request_state q) = rq_run_id q"
  "rs_route_log (request_state q) = []" "rs_terminal (request_state q) = None"
  by (simp_all add: request_state_def initial_state_def)

text \<open>
  C5. Every run ends: a run started on a valid budget commits at most eight plus five times its
  attempt limit hops, whatever the services answer and however often attempts fail; so up to 98
  attempts the safety valve of 500 graph steps is never what stops it.\<close>

theorem run_ends_within_attempt_budget:
  assumes "start env tok script max_steps q es = (res, es')" and "budget_ok (rq_budget q)"
  shows "length (db_checkpoints (es_db es')) \<le>
           length (db_checkpoints (es_db es)) + nat (8 + 5 * max_attempts (rq_budget q)) \<and>
         (max_attempts (rq_budget q) \<le> 98 \<longrightarrow> res \<noteq> Inl StepLimit)"
proof (cases "latest_seq (es_db es) (rq_run_id q) = None")
  case False
  then show ?thesis using assms(1) by (auto simp: start_def)
next
  case True
  have ex: "execute env tok script max_steps 0 (next_seq (es_db es) (rq_run_id q)) (request_state q) Intake es = (res, es')"
    using assms(1) True by (simp add: start_def)
  have ok: "branch_spends_ok (request_state q)" by (simp add: branch_spends_ok_def)
  have "hops_left Intake (request_state q) = nat (8 + 5 * max_attempts (rq_budget q))"
    using assms(2) by (simp add: hops_left_def attempts_left_def no_spend_def budget_ok_def nat_add_distrib nat_mult_distrib)
  then show ?thesis
    using execute_bounded[OF ex ok] by (auto simp: MAX_GRAPH_STEPS_def nat_le_iff)
qed

end
