(* ===== verification/Run_History.thy ===== *)
theory Run_History
  imports Engine_Run
begin

section \<open>The history of a run over all its sessions\<close>

text \<open>
  An abstract transition system of the execution graph, without a database, a lease or a loop, and the
  refinement of \<open>graph/engine.py\<close> to it: whatever sequence of starts, pauses, crashes and resumes a
  run goes through, the checkpoints it has committed are a path of that system. The properties of
  whole runs are then proved by induction on paths.
\<close>

subsection \<open>The transition system\<close>

inductive graph_step :: "node \<Rightarrow> run_state \<Rightarrow> node option \<Rightarrow> run_state \<Rightarrow> bool" where
  routed: "NODE_FUNCS n s ctx = Inr oc \<Longrightarrow> n \<noteq> Finalize \<Longrightarrow> choose_route n oc = Inr r \<Longrightarrow>
    engine_step n r (oc_state oc) s' \<Longrightarrow> graph_step n s (Some (rt_target r)) s'"
| finished: "NODE_FUNCS Finalize s ctx = Inr oc \<Longrightarrow> graph_step Finalize s None (oc_state oc)"

inductive run_path :: "run_request \<Rightarrow> checkpoint list \<Rightarrow> node option \<Rightarrow> run_state \<Rightarrow> bool" for q where
  begun: "run_path q [] (Some Intake) (request_state q)"
| hopped: "run_path q cs (Some n) s \<Longrightarrow> graph_step n s nx s' \<Longrightarrow>
    run_path q (cs @ [(int (length cs), n, nx, s')]) nx s'"

inductive_cases graph_stepE: "graph_step n s nx s'"
inductive_cases run_pathE: "run_path q cs nx s"

lemma hop_graph_step:
  assumes "hop env tok script k s n es = (Inr (s', nx), es')"
  shows "graph_step n s nx s'"
  using assms
proof (rule hop_InrE)
  fix oc
  assume oc: "NODE_FUNCS n s (build_node_context env script k s) = Inr oc"
    and or: "n = Finalize \<and> nx = None \<and> s' = oc_state oc \<or>
     n \<noteq> Finalize \<and> (\<exists>r. choose_route n oc = Inr r \<and> nx = Some (rt_target r) \<and> engine_step n r (oc_state oc) s')"
  from or show ?thesis
  proof
    assume "n = Finalize \<and> nx = None \<and> s' = oc_state oc"
    then show ?thesis using graph_step.finished[of s] oc by auto
  qed (auto intro: graph_step.routed[OF oc])
qed

subsection \<open>Paths\<close>

text \<open>What holds of the state with which a node is entered.\<close>

definition node_ready :: "node \<Rightarrow> run_state \<Rightarrow> bool" where
  "node_ready n s \<longleftrightarrow>
     branch_spends_ok s \<and> rs_terminal s = None \<and>
     (n \<in> {Distill, Review, Store, RejectDraft} \<longrightarrow> required_criteria_pass s) \<and>
     (n = Finalize \<longrightarrow> rs_route_log s \<noteq> [] \<and>
        re_node (last (rs_route_log s)) \<in> {Plan, Distill, Store, RecordDeadEnd, RejectDraft} \<and>
        (re_node (last (rs_route_log s)) \<in> {Distill, Store, RejectDraft} \<longrightarrow> required_criteria_pass s))"

definition run_ended :: "run_state \<Rightarrow> bool" where
  "run_ended s \<longleftrightarrow>
     (\<exists>t. rs_terminal s = Some t \<and> t \<noteq> Error \<and> (t \<in> {Solved, Rejected} \<longrightarrow> required_criteria_pass s))"

lemma learn_keeps_verdict:
  assumes "NODE_FUNCS n s ctx = Inr oc" "n \<in> {Distill, Review, Store, RejectDraft}"
  shows "required_criteria_pass (oc_state oc) = required_criteria_pass s"
proof -
  have "rs_criteria (oc_state oc) = rs_criteria s \<and> rs_results (oc_state oc) = rs_results s"
    using assms review_frame[of s ctx] reject_draft_frame[of s ctx] distill_frame[of s ctx] store_frame[of s ctx oc]
    by (auto simp: NODE_FUNCS_def)
  then show ?thesis by (simp add: required_criteria_pass_def)
qed

lemma passing_gate:
  assumes "choose_route n oc = Inr r" "rt_target r = Distill"
  shows "required_criteria_pass (oc_state oc)"
  using choose_route_InrD(1,2)[OF assms(1)] assms(2)
  by (cases n) (auto simp: node_simps join_complete_and_passing_def split: if_splits)

lemma engine_step_verdict:
  "engine_step n r s s' \<Longrightarrow> required_criteria_pass s' = required_criteria_pass s"
  by (simp add: engine_step_def required_criteria_pass_def)

lemma routed_ready:
  assumes "NODE_FUNCS n s ctx = Inr oc" "n \<noteq> Finalize" "choose_route n oc = Inr r"
    "engine_step n r (oc_state oc) s'" "node_ready n s"
  shows "node_ready (rt_target r) s'"
proof -
  have br: "branch_spends_ok s" using assms(5) by (simp add: node_ready_def)
  note step = node_funcs_step[OF assms(1) br assms(2)]
  note v = engine_step_verdict[OF assms(4)]
  note keep = learn_keeps_verdict[OF assms(1)]
  have edge: "r \<in> set (routes_from n)" using choose_route_InrD(1)[OF assms(3)] .
  have log: "rs_route_log s' \<noteq> []" "re_node (last (rs_route_log s')) = n"
    using assms(4) by (auto simp: engine_step_def)
  have fin: "rt_target r = Finalize \<Longrightarrow> n \<in> {Plan, Distill, Store, RecordDeadEnd, RejectDraft}"
    using edge assms(2) by (cases n) (auto simp: node_simps)
  have pass: "required_criteria_pass s'" if "n \<in> {Distill, Review, Store, RejectDraft}"
    using that v keep assms(5) by (auto simp: node_ready_def)
  have after: "required_criteria_pass s'" if "rt_target r \<in> {Distill, Review, Store, RejectDraft}"
  proof (cases "rt_target r = Distill")
    case True
    then show ?thesis using v passing_gate[OF assms(3)] by simp
  next
    case False
    then have "n \<in> {Distill, Review, Store, RejectDraft}"
      using that edge by (cases n) (auto simp: node_simps)
    then show ?thesis by (rule pass)
  qed
  have frame: "branch_spends_ok s'" "rs_terminal s' = None"
    using step assms(4,5) by (auto simp: node_step_def engine_step_def branch_spends_ok_def same_frame_def node_ready_def)
  show ?thesis
    unfolding node_ready_def using frame after pass fin log by auto
qed

lemma finished_ended:
  assumes "NODE_FUNCS Finalize s ctx = Inr oc" "node_ready Finalize s"
  shows "run_ended (oc_state oc)"
proof -
  define p where "p = re_node (last (rs_route_log s))"
  have p: "p \<in> {Plan, Distill, Store, RecordDeadEnd, RejectDraft}" "rs_route_log s \<noteq> []"
    and pass: "p \<in> {Distill, Store, RejectDraft} \<longrightarrow> required_criteria_pass s"
    using assms(2) by (simp_all add: node_ready_def p_def)
  have "oc_state oc = s\<lparr>rs_terminal := Some (terminal_by_predecessor (Some p))\<rparr>"
    using assms(1) p(2) by (auto simp: NODE_FUNCS_def finalize_def p_def)
  then have t: "rs_terminal (oc_state oc) = Some (terminal_by_predecessor (Some p))"
    and v: "required_criteria_pass (oc_state oc) = required_criteria_pass s"
    by (simp_all add: required_criteria_pass_def)
  show ?thesis
    using p(1) pass unfolding run_ended_def t v by (auto simp: terminal_by_predecessor_def)
qed

lemma run_path_ready:
  "run_path q cs nx s \<Longrightarrow> case nx of None \<Rightarrow> run_ended s | Some n \<Rightarrow> node_ready n s"
proof (induction rule: run_path.induct)
  case begun
  show ?case by (simp add: node_ready_def branch_spends_ok_def)
next
  case (hopped cs n s nx s')
  from hopped.hyps(2) show ?case
    by (cases rule: graph_stepE) (use hopped.IH routed_ready finished_ended in auto)
qed

lemma engine_step_legal: "engine_step n r s s' \<Longrightarrow> legal_route m name s' = legal_route m name s"
  by (cases m) (simp_all add: engine_step_def node_simps strategy_in_def verdict_is_def has_branches_def
      required_criteria_pass_def join_complete_and_passing_def budget_remains_with_progress_def)

lemma graph_step_frame:
  assumes "graph_step n s nx s'" "branch_spends_ok s"
  shows "rs_run_id s' = rs_run_id s \<and> rs_budget s' = rs_budget s \<and> rs_task s' = rs_task s \<and> rs_arm s' = rs_arm s"
  using assms(1)
proof (cases rule: graph_step.cases)
  case (routed ctx oc r)
  then show ?thesis
    using node_funcs_step[OF routed(2) assms(2) routed(3)] by (simp add: node_step_def same_frame_def engine_step_def)
qed (auto simp: NODE_FUNCS_def finalize_def)

text \<open>The entry a step leaves in the route log names the node and a route that is legal there.\<close>

lemma graph_step_log:
  assumes "graph_step n s (Some m) s'" "branch_spends_ok s"
  obtains e where "rs_route_log s' = rs_route_log s @ [e]" "re_node e = n"
    "legal_route n (re_route e) s'" "target_of n (re_route e) = Some m"
  using assms(1)
proof (cases rule: graph_step.cases)
  case (routed ctx oc r)
  have log: "rs_route_log (oc_state oc) = rs_route_log s"
    using node_funcs_step[OF routed(2) assms(2) routed(3)] by (simp add: node_step_def same_frame_def)
  obtain e where "re_node e = n" "re_route e = rt_predicate_name r" "rs_route_log s' = rs_route_log (oc_state oc) @ [e]"
    using routed(5) unfolding engine_step_def by blast
  then show thesis
    using that[of e] log choose_route_InrD(3,4)[OF routed(4)] engine_step_legal[OF routed(5)] routed(1) by simp
qed

lemma graph_step_hops:
  assumes "graph_step n s nx s'" "branch_spends_ok s"
  shows "(case nx of None \<Rightarrow> 0 | Some m \<Rightarrow> hops_left m s') < hops_left n s"
  using assms(1)
proof (cases rule: graph_step.cases)
  case (routed ctx oc r)
  have "hops_left (rt_target r) s' = hops_left (rt_target r) (oc_state oc)"
    using routed(5) by (simp add: hops_left_def attempts_left_def engine_step_def)
  then show ?thesis using task_plane.routed_hop_decreases[OF routed(2) assms(2) routed(3,4)] routed(1) by simp
qed (simp add: hops_left_def)

lemma run_path_branch_spends: "run_path q cs (Some n) s \<Longrightarrow> branch_spends_ok s"
  using run_path_ready[of q cs "Some n" s] by (simp add: node_ready_def)

lemma run_path_frame:
  "run_path q cs nx s \<Longrightarrow> rs_run_id s = rq_run_id q \<and> rs_budget s = rq_budget q \<and> rs_task s = rq_task q \<and>
     rs_arm s = rq_arm q"
proof (induction rule: run_path.induct)
  case begun
  show ?case by (simp add: request_state_def initial_state_def)
next
  case (hopped cs n s nx s')
  then show ?case using graph_step_frame[OF hopped.hyps(2) run_path_branch_spends[OF hopped.hyps(1)]] by simp
qed

lemma run_path_hops:
  "run_path q cs nx s \<Longrightarrow>
     length cs + (case nx of None \<Rightarrow> 0 | Some n \<Rightarrow> hops_left n s) \<le> hops_left Intake (request_state q)"
proof (induction rule: run_path.induct)
  case (hopped cs n s nx s')
  then show ?case using graph_step_hops[OF hopped.hyps(2) run_path_branch_spends[OF hopped.hyps(1)]] by simp
qed simp

lemma run_path_last: "run_path q cs nx s \<Longrightarrow> cs \<noteq> [] \<Longrightarrow> \<exists>n. last cs = (int (length cs) - 1, n, nx, s)"
  by (cases rule: run_pathE) auto

text \<open>The trail the checkpoints leave: numbered from zero, from intake on, each entry continuing at the
  node the one before named, and each state's last route entry the legal route that was taken.\<close>

definition trail_entry_ok :: "checkpoint \<Rightarrow> bool" where
  "trail_entry_ok c \<longleftrightarrow>
     (case c of (k, n, nx, s) \<Rightarrow>
        case nx of
          None \<Rightarrow> n = Finalize \<and> run_ended s
        | Some m \<Rightarrow> rs_terminal s = None \<and> rs_route_log s \<noteq> [] \<and>
            (let e = last (rs_route_log s)
             in re_node e = n \<and> legal_route n (re_route e) s \<and> target_of n (re_route e) = Some m))"

fun chained :: "node option \<Rightarrow> checkpoint list \<Rightarrow> node option \<Rightarrow> bool" where
  "chained a [] b \<longleftrightarrow> a = b"
| "chained a ((k, n, nx, s) # cs) b \<longleftrightarrow> a = Some n \<and> chained nx cs b"

lemma chained_snoc: "chained a (cs @ [(k, n, nx, s)]) b \<longleftrightarrow> chained a cs (Some n) \<and> nx = b"
  by (induction cs arbitrary: a) auto

lemma chained_None: "chained a cs b \<Longrightarrow> (k, n, None, s) \<in> set cs \<Longrightarrow> b = None"
proof (induction a cs b rule: chained.induct)
  case (2 a k' n' nx s' cs b)
  then show ?case by (cases cs) auto
qed simp

lemma run_path_trail:
  "run_path q cs nx s \<Longrightarrow>
     chained (Some Intake) cs nx \<and> map fst cs = map int [0..<length cs] \<and> list_all trail_entry_ok cs \<and>
     map re_node (rs_route_log s) = map (fst \<circ> snd) (filter (\<lambda>(k, n, nx, s). nx \<noteq> None) cs)"
proof (induction rule: run_path.induct)
  case (hopped cs n s nx s')
  note br = run_path_branch_spends[OF hopped.hyps(1)]
  note ready = run_path_ready[OF run_path.hopped[OF hopped.hyps]]
  show ?case
  proof (cases nx)
    case None
    then have "n = Finalize" "rs_route_log s' = rs_route_log s"
      using hopped.hyps(2) by (auto elim!: graph_stepE simp: NODE_FUNCS_def finalize_def)
    then show ?thesis using None hopped.IH ready by (simp add: chained_snoc trail_entry_ok_def)
  next
    case (Some m)
    obtain e where "rs_route_log s' = rs_route_log s @ [e]" "re_node e = n"
      "legal_route n (re_route e) s'" "target_of n (re_route e) = Some m"
      using hopped.hyps(2) br unfolding Some by (rule graph_step_log)
    then show ?thesis using Some hopped.IH ready by (simp add: chained_snoc trail_entry_ok_def node_ready_def)
  qed
qed simp

subsection \<open>Workers on one run\<close>

text \<open>
  Any number of workers on the run, interleaved hop by hop: each starts the run or resumes it from the
  latest checkpoint it reads, and from then on works from its own copy of the state. Workers may
  overlap, stall for ever, fail, or see any lease and any services at each hop; other runs write to
  the same database in between. The list holds every position from which some worker may still act.
\<close>

type_synonym position = "int \<times> run_state \<times> node"

inductive run_workers :: "run_request \<Rightarrow> position list \<Rightarrow> engine_store \<Rightarrow> bool" for q where
  opened: "db_ok (es_db es) \<Longrightarrow> history (es_db es) (rq_run_id q) = [] \<Longrightarrow> run_workers q [] es"
| started: "run_workers q ws es \<Longrightarrow> latest_seq (es_db es) (rq_run_id q) = None \<Longrightarrow>
    run_workers q ((next_seq (es_db es) (rq_run_id q), request_state q, Intake) # ws) es"
| resumed: "run_workers q ws es \<Longrightarrow> latest (es_db es) (rq_run_id q) = Some (k, n, Some n', s) \<Longrightarrow>
    run_workers q ((k + 1, s, n') # ws) es"
| advanced: "run_workers q ws es \<Longrightarrow> (k, s, n) \<in> set ws \<Longrightarrow>
    hop env tok script k s n es = (Inr (s', nx), es') \<Longrightarrow>
    run_workers q (case nx of None \<Rightarrow> ws | Some n' \<Rightarrow> (k + 1, s', n') # ws) es'"
| failed: "run_workers q ws es \<Longrightarrow> (k, s, n) \<in> set ws \<Longrightarrow>
    hop env tok script k s n es = (Inl e, es') \<Longrightarrow> run_workers q ws es'"
| elsewhere: "run_workers q ws es \<Longrightarrow> db_ok (es_db es') \<Longrightarrow>
    history (es_db es') (rq_run_id q) = history (es_db es) (rq_run_id q) \<Longrightarrow> run_workers q ws es'"

definition position_ok :: "run_request \<Rightarrow> checkpoint list \<Rightarrow> position \<Rightarrow> bool" where
  "position_ok q cs p \<longleftrightarrow>
     (case p of (k, s, n) \<Rightarrow> 0 \<le> k \<and> nat k \<le> length cs \<and> run_path q (take (nat k) cs) (Some n) s)"

definition workers_inv :: "run_request \<Rightarrow> position list \<Rightarrow> engine_store \<Rightarrow> bool" where
  "workers_inv q ws es \<longleftrightarrow>
     db_ok (es_db es) \<and> (\<exists>nx s. run_path q (history (es_db es) (rq_run_id q)) nx s) \<and>
     list_all (position_ok q (history (es_db es) (rq_run_id q))) ws"

lemma position_ok_append: "position_ok q cs p \<Longrightarrow> position_ok q (cs @ xs) p"
  by (auto simp: position_ok_def)

lemma list_all_position_append: "list_all (position_ok q cs) ws \<Longrightarrow> list_all (position_ok q (cs @ xs)) ws"
  by (auto simp: list_all_iff position_ok_append)

lemma hop_put:
  assumes "hop env tok script k s n es = (Inr (s', nx), es')" "rs_run_id s' = rid"
  obtains v h where "put_checkpoint rid v (es_db es) h = Some (es_db es')" "checkpoint_written h = (k, n, nx, s')"
  using assms(1)
proof (rule hop_InrE)
  fix oc h es1
  assume dc: "do_commit env h es1 = (Inr (s', nx), es')" "es_db es1 = es_db es"
    and h: "checkpoint_written h = (k, n, nx, s')" "hw_run_id h = rs_run_id s'"
  from dc(1) show thesis
    by (rule do_commit_InrE)
       (use dc(2) h assms(2) in \<open>auto intro!: that[of "(ee_fenced env, ee_views env (hw_seq h))" h]
         simp: put_checkpoint_def\<close>)
qed

lemma history_empty_iff: "history db rid = [] \<longleftrightarrow> latest_seq db rid = None"
  by (simp add: history_def latest_seq_def length_0_conv[symmetric] del: length_0_conv)

text \<open>A write from a stale position conflicts with the checkpoint that overtook it.\<close>

lemma advance_appends:
  assumes inv: "workers_inv q ws es" and p: "(k, s, n) \<in> set ws"
    and hop: "hop env tok script k s n es = (Inr (s', nx), es')"
  defines "cs \<equiv> history (es_db es) (rq_run_id q)"
  shows "db_ok (es_db es')" "k = int (length cs)" "run_path q cs (Some n) s" "graph_step n s nx s'"
    "history (es_db es') (rq_run_id q) = cs @ [(k, n, nx, s')]"
proof -
  have pos: "0 \<le> k" "nat k \<le> length cs" and path: "run_path q (take (nat k) cs) (Some n) s"
    using inv p by (auto simp: workers_inv_def list_all_iff position_ok_def cs_def)
  show g: "graph_step n s nx s'" using hop_graph_step[OF hop] .
  have "rs_run_id s' = rq_run_id q"
    using graph_step_frame[OF g run_path_branch_spends[OF path]] run_path_frame[OF path] by simp
  then obtain v h where put: "put_checkpoint (rq_run_id q) v (es_db es) h = Some (es_db es')"
    and h: "checkpoint_written h = (k, n, nx, s')"
    by (rule hop_put[OF hop])
  show ok: "db_ok (es_db es')" using checkpoints.put_inv[OF put] inv by (simp add: workers_inv_def)
  obtain nx0 s0 where "run_path q cs nx0 s0" using inv by (auto simp: workers_inv_def cs_def)
  then have num: "map fst cs = map int [0..<length cs]" using run_path_trail by blast
  have seqs: "fst ` set cs = int ` {0..<length cs}"
    using arg_cong[OF num, of set] by simp
  have fresh: "k \<notin> fst ` set cs" using checkpoints.put_fresh[OF put] h by (simp add: cs_def)
  have "nat k = length cs"
  proof (rule ccontr)
    assume "nat k \<noteq> length cs"
    then have "k \<in> int ` {0..<length cs}" using pos by (intro image_eqI[of _ _ "nat k"]) auto
    then show False using fresh seqs by simp
  qed
  then show k: "k = int (length cs)" using pos by simp
  then show "run_path q cs (Some n) s" using path by simp
  have "\<forall>c \<in> set cs. fst c < k" using seqs k by (force simp: image_iff)
  then show "history (es_db es') (rq_run_id q) = cs @ [(k, n, nx, s')]"
    using checkpoints.put_log[OF put] h by (simp add: cs_def)
qed

lemma run_workers_inv: "run_workers q ws es \<Longrightarrow> workers_inv q ws es"
proof (induction rule: run_workers.induct)
  case (opened es)
  then show ?case by (auto simp: workers_inv_def intro: run_path.begun)
next
  case (started ws es)
  then have "history (es_db es) (rq_run_id q) = []" by (simp add: history_empty_iff)
  then show ?case
    using started by (auto simp: workers_inv_def position_ok_def next_seq_def intro: run_path.begun)
next
  case (resumed ws es k n n' s)
  define cs where "cs = history (es_db es) (rq_run_id q)"
  obtain nx0 s0 where path: "run_path q cs nx0 s0" and ok: "db_ok (es_db es)"
    using resumed.IH by (auto simp: workers_inv_def cs_def)
  have "cs \<noteq> []" "last cs = (k, n, Some n', s)"
    using resumed.hyps(2) checkpoints.newest_log[OF ok, of "rq_run_id q"] by (auto simp: cs_def split: if_splits)
  then have "k = int (length cs) - 1" "nx0 = Some n'" "s0 = s" using run_path_last[OF path] by auto
  then have "position_ok q cs (k + 1, s, n')" using path by (simp add: position_ok_def)
  then show ?case using resumed.IH by (simp add: workers_inv_def cs_def)
next
  case (advanced ws es k s n env tok script s' nx es')
  note app = advance_appends[OF advanced.IH advanced.hyps(2,3)]
  let ?cs = "history (es_db es) (rq_run_id q)"
  have path: "run_path q (?cs @ [(k, n, nx, s')]) nx s'"
    using run_path.hopped[OF app(3,4)] app(2) by simp
  have ws: "list_all (position_ok q (?cs @ [(k, n, nx, s')])) ws"
    using advanced.IH by (intro list_all_position_append) (simp add: workers_inv_def)
  show ?case
  proof (cases nx)
    case None
    then show ?thesis using app(1,5) path ws by (auto simp: workers_inv_def)
  next
    case (Some n')
    have "position_ok q (?cs @ [(k, n, nx, s')]) (k + 1, s', n')"
      using path app(2) Some by (simp add: position_ok_def)
    then show ?thesis using app(1,5) path ws Some by (auto simp: workers_inv_def)
  qed
next
  case (failed ws es k s n env tok script e es')
  then show ?case using hop_InlD(1)[OF failed.hyps(3)] by (simp add: workers_inv_def)
next
  case (elsewhere ws es es')
  then show ?case by (simp add: workers_inv_def)
qed

lemma execute_workers:
  assumes "execute env tok script ms taken k s n es = (res, es')"
  shows "run_workers q ws es \<Longrightarrow> (k, s, n) \<in> set ws \<Longrightarrow> \<exists>ws'. run_workers q ws' es'"
  using assms
proof (induction arbitrary: ws rule: execute_induct)
  case (finish taken k s n es s1)
  then show ?case using run_workers.advanced[OF finish(3,4,1)] by blast
next
  case (step taken k s n es s1 n1 es1)
  then show ?case using run_workers.advanced[OF step(5,6,2)] step(4)[of "(k + 1, s1, n1) # ws"] by simp
next
  case (fail taken k s n es e)
  then show ?case using run_workers.failed by blast
qed blast+

lemma start_workers:
  assumes "run_workers q ws es" "start env tok script ms q es = (res, es')"
  shows "\<exists>ws'. run_workers q ws' es'"
proof (cases "latest_seq (es_db es) (rq_run_id q) = None")
  case True
  then show ?thesis
    using assms(2) execute_workers[OF _ run_workers.started[OF assms(1) True]] by (simp add: start_def)
next
  case False
  then show ?thesis using assms by (auto simp: start_def)
qed

lemma resume_workers:
  assumes "run_workers q ws es" "resume env tok script ms (rq_run_id q) es = (res, es')"
  shows "\<exists>ws'. run_workers q ws' es'"
proof (cases "es' = es")
  case False
  then obtain k n n' s where "latest (es_db es) (rq_run_id q) = Some (k, n, Some n', s)"
    "execute env tok script ms 0 (k + 1) s n' es = (res, es')"
    using assms(2) by (auto simp: resume_def split: option.splits if_splits)
  then show ?thesis using execute_workers[OF _ run_workers.resumed[OF assms(1)]] by (metis list.set_intros(1))
qed (use assms(1) in blast)

lemma run_workers_path:
  "run_workers q ws es \<Longrightarrow> \<exists>nx s. run_path q (history (es_db es) (rq_run_id q)) nx s"
  using run_workers_inv by (auto simp: workers_inv_def)

lemma path_entry:
  assumes "run_path q cs nx s" "c \<in> set cs"
  shows "trail_entry_ok c"
  using run_path_trail[OF assms(1)] assms(2) by (auto simp: list_all_iff)

subsection \<open>Pausing and resuming\<close>





subsection \<open>Properties of whole runs\<close>

text \<open>
  C1. The engine implements the graph: under any interleaving of workers that start, resume, stall and
  fail on the run, the checkpoints committed for it are one path of the transition system of the
  route table from the requested state, numbered without a gap, and every worker still acting holds
  the state of a checkpoint on that path.\<close>

theorem committed_history_is_a_path:
  assumes "run_workers q ws es"
  shows "\<exists>nx s. run_path q (history (es_db es) (rq_run_id q)) nx s \<and>
           (\<forall>(k, s', n) \<in> set ws. run_path q (take (nat k) (history (es_db es) (rq_run_id q))) (Some n) s')"
  using run_workers_inv[OF assms] unfolding workers_inv_def list_all_iff position_ok_def by fastforce

text \<open>
  C4. The route log is the audit trail: the committed checkpoints are numbered from zero, the first is
  intake's, each continues at the node its predecessor named, every state records as its last route
  entry the node that ran and a route that is legal in that state and leads to the next node, and the
  only checkpoint without a next node is finalize's.\<close>

theorem history_is_an_audit_trail:
  assumes "run_workers q ws es"
  defines "cs \<equiv> history (es_db es) (rq_run_id q)"
  shows "\<exists>nx. chained (Some Intake) cs nx \<and> map fst cs = map int [0..<length cs] \<and> list_all trail_entry_ok cs"
  using run_workers_path[OF assms(1)] run_path_trail unfolding cs_def by blast

text \<open>
  C2. A run is reported solved only if it is: whatever the workers do, a committed state whose terminal
  status is solved (or rejected, which comes after solving) has for every required criterion a result
  recorded as passed (validation records a required criterion without a proof as passed, since it is
  only advisory), it is a checkpoint of finalize, and no run ends with the error status.\<close>

theorem solved_means_required_criteria_passed:
  assumes "run_workers q ws es" "(k, n, nx, s) \<in> set (history (es_db es) (rq_run_id q))" "rs_terminal s = Some t"
  shows "t \<noteq> Error \<and> n = Finalize \<and>
         (t = Solved \<or> t = Rejected \<longrightarrow>
            (\<forall>c \<in> set (rs_criteria s). is_required c \<longrightarrow>
               (\<exists>r \<in> set (rs_results s). r_passed r \<and> r_criterion_id r = c_id c)))"
proof -
  obtain nx0 s0 where "run_path q (history (es_db es) (rq_run_id q)) nx0 s0" using run_workers_path[OF assms(1)] by blast
  then have "trail_entry_ok (k, n, nx, s)" using path_entry assms(2) by blast
  then show ?thesis
    using assms(3) by (auto simp: trail_entry_ok_def run_ended_def required_criteria_pass_iff split: option.splits)
qed

text \<open>
  A run is finite over all its sessions: however often it is paused, crashes or is resumed, and
  however many workers overlap, at most eight plus five times the attempt limit checkpoints are ever
  committed for it.\<close>

theorem checkpoints_bounded_over_all_sessions:
  assumes "run_workers q ws es" "budget_ok (rq_budget q)"
  shows "int (length (history (es_db es) (rq_run_id q))) \<le> 8 + 5 * max_attempts (rq_budget q)"
proof -
  obtain nx s where path: "run_path q (history (es_db es) (rq_run_id q)) nx s" using run_workers_path[OF assms(1)] by blast
  have "hops_left Intake (request_state q) = nat (8 + 5 * max_attempts (rq_budget q))"
    using assms(2) by (simp add: hops_left_def attempts_left_def no_spend_def budget_ok_def nat_add_distrib nat_mult_distrib)
  then have "length (history (es_db es) (rq_run_id q)) \<le> nat (8 + 5 * max_attempts (rq_budget q))"
    using run_path_hops[OF path] by simp
  then show ?thesis using assms(2) by (simp add: le_nat_iff budget_ok_def)
qed


subsection \<open>A first session\<close>

definition example_env_engine :: engine_env where
  "example_env_engine =
     \<lparr>ee_services = (\<lambda>k. example_nctx), ee_workdir = ''w'', ee_snapshot = (\<lambda>k. ''snap''), ee_cancelled = (\<lambda>k. False),
      ee_policy = None, ee_now = (\<lambda>k. k), ee_fenced = False, ee_views = (\<lambda>k. (LeaseTable None, LeaseTable None)),
      ee_tenant = ''t'', ee_events = (\<lambda>p s n r. []), ee_delta_event = (\<lambda>d. []), ee_imports = (\<lambda>k. []),
      ee_meta = (\<lambda>s. []), ee_restore_fails = False\<rparr>"

definition example_request_task :: task where
  "example_request_task = example_task\<lparr>t_request := Some ''ABSTAIN: no''\<rparr>"

definition example_request :: run_request where
  "example_request =
     \<lparr>rq_run_id = ''r'', rq_task = example_request_task, rq_criteria = [example_criterion], rq_budget = default_budget,
      rq_arm = Treatment, rq_manifest = \<lparr>mf_index_snapshot_id = None, mf_criteria_hash = None\<rparr>\<rparr>"

definition example_store :: engine_store where
  "example_store = \<lparr>es_db = empty_db, es_sidecar = Map.empty, es_effects = []\<rparr>"

lemma example_start_facts:
  "db_ok (es_db example_store)" "budget_ok (rq_budget example_request)" "max_attempts (rq_budget example_request) \<le> 98"
  "\<not> ee_restore_fails example_env_engine" "rq_run_id example_request = ''r''"
  "history (es_db example_store) (rq_run_id example_request) = []" "rs_task (request_state example_request) = example_request_task"
  by (simp_all add: example_store_def example_request_def example_env_engine_def db_ok_def empty_db_def history_def
      rows_of_def budget_ok_def default_budget_def opt_ge_def request_state_def initial_state_def)

lemma intake_without_goal:
  "t_goal (rs_task s) = None \<Longrightarrow> \<exists>cs m. intake s ctx = Inr (outcome (s\<lparr>rs_criteria := cs, rs_manifest := m, rs_criteria_locked := True\<rparr>) Always [])"
  by (auto simp: intake_def intake_criteria_def Let_def)

definition below :: "int \<Rightarrow> run_db \<Rightarrow> bool" where
  "below k db \<longleftrightarrow> (\<forall>r \<in> set (db_checkpoints db). cp_seq r < k) \<and> (\<forall>(rid, j, e) \<in> set (db_route_entries db). j < k)"

lemma commit_unfenced:
  assumes "\<not> ee_fenced env" "below (hw_seq h) (es_db es)"
  shows "\<exists>es'. do_commit env h es = (Inr (hw_state h, hw_next_node h), es') \<and> below (hw_seq h + 1) (es_db es')"
proof -
  have "\<not> has_checkpoint (es_db es) (hw_run_id h) (hw_seq h)" "\<not> has_route_entry (es_db es) (hw_run_id h) (hw_seq h)"
    using assms(2) by (auto simp: below_def has_checkpoint_def has_route_entry_def)
  then obtain db where db: "insert_hop (es_db es) h = Inr db" by (auto simp: insert_hop_def Let_def)
  then have "below (hw_seq h + 1) db"
    using assms(2) by (elim insert_hop_InrE) (force simp: below_def split: option.splits)
  then show ?thesis using assms(1) db by (simp add: do_commit_def save_def commit_hop_def)
qed

lemma route_hop_unfenced:
  assumes "choose_route n oc = Inr r" "\<not> ee_fenced env" "below k (es_db es)"
  shows "\<exists>s' es'. route_hop env tok k s n oc es = (Inr (s', Some (rt_target r)), es') \<and> below (k + 1) (es_db es')"
proof -
  define entry where "entry = \<lparr>re_node = n, re_route = rt_predicate_name r, re_attempt_no = attempt_for n s\<rparr>"
  define s1 where "s1 = ensure_pre_solve_snapshot (ee_snapshot env k) r (oc_state oc)"
  obtain s3 sc1 eff where b: "intake_bind_hook env k n (s1\<lparr>rs_route_log := rs_route_log s1 @ [entry]\<rparr>) (es_sidecar es) = (s3, sc1, eff)"
    by (rule prod_cases3)
  obtain sc2 extra where v: "validate_audit_hook env k n (attempt_for n s) s3 sc1 = (sc2, extra)" by (rule prod.exhaust)
  define h where "h = hop_write_of env tok k s s3 n (Some (rt_target r)) (Some (rt_predicate_name r)) (Some entry) extra None"
  define es1 where "es1 = es\<lparr>es_sidecar := sc2, es_effects := es_effects es @ eff\<rparr>"
  have h_sel: "hw_seq h = k" "hw_next_node h = Some (rt_target r)" by (simp_all add: h_def hop_write_of_def)
  have "\<exists>es'. do_commit env h es1 = (Inr (hw_state h, Some (rt_target r)), es') \<and> below (k + 1) (es_db es')"
    using commit_unfenced[OF assms(2), of h es1] assms(3) by (simp add: h_sel es1_def)
  then show ?thesis
    by (simp add: route_hop_def assms(1) Let_def s1_def[symmetric] entry_def[symmetric] b v h_def[symmetric]
        es1_def[symmetric]) blast
qed

text \<open>With the services of the example every hop whose node and route succeed commits.\<close>

lemma example_hop:
  assumes "NODE_FUNCS n s (build_node_context example_env_engine None k s) = Inr oc" "branch_spends_ok s"
    and "sp_versions_written (rs_spent (oc_state oc)) \<le> max_versions_written (rs_budget (oc_state oc))"
    and "n \<noteq> Finalize" "choose_route n oc = Inr r" "below k (es_db es)"
  obtains s' es' where "hop example_env_engine None None k s n es = (Inr (s', Some (rt_target r)), es')"
    "below (k + 1) (es_db es')" "engine_step n r (oc_state oc) s'"
proof -
  let ?es1 = "es\<lparr>es_effects := es_effects es @ oc_effects oc\<rparr>"
  have env: "\<not> ee_fenced example_env_engine" "\<not> ee_cancelled example_env_engine k"
    by (simp_all add: example_env_engine_def)
  obtain s' es' where rh: "route_hop example_env_engine None k s n oc ?es1 = (Inr (s', Some (rt_target r)), es')"
    "below (k + 1) (es_db es')"
    using route_hop_unfenced[OF assms(5) env(1), of k ?es1 None s] assms(6) by auto
  then have "hop example_env_engine None None k s n es = (Inr (s', Some (rt_target r)), es')"
    using assms(1,3,4) env by (simp add: hop_def Let_def)
  moreover have "engine_step n r (oc_state oc) s'" using rh(1) by (rule route_hop_InrE) (use assms(5) in auto)
  ultimately show thesis using that rh(2) by blast
qed

lemma example_opened: "run_workers example_request [] example_store"
  using example_start_facts by (intro run_workers.opened) simp_all

text \<open>The example asks for an abstention: intake, retrieve, plan, finalize.\<close>

lemma example_intake:
  obtains s' es' where "hop example_env_engine None None 0 (request_state example_request) Intake example_store =
      (Inr (s', Some Retrieve), es')" "below 1 (es_db es')"
    "rs_task s' = example_request_task" "rs_spent s' = no_spend" "rs_budget s' = default_budget"
proof -
  let ?s = "request_state example_request"
  have "t_goal (rs_task ?s) = None" by (simp add: example_start_facts example_request_task_def example_task_def)
  then obtain cs m where i: "intake ?s (build_node_context example_env_engine None 0 ?s) =
      Inr (outcome (?s\<lparr>rs_criteria := cs, rs_manifest := m, rs_criteria_locked := True\<rparr>) Always [])"
    using intake_without_goal by blast
  define oc where "oc = outcome (?s\<lparr>rs_criteria := cs, rs_manifest := m, rs_criteria_locked := True\<rparr>) Always []"
  have r: "choose_route Intake oc = Inr (edge Intake Retrieve Always (\<lambda>s. True))"
    by (simp add: choose_route_def oc_def legal_routes_def node_simps)
  have sel: "rs_task (oc_state oc) = example_request_task" "rs_spent (oc_state oc) = no_spend"
    "rs_budget (oc_state oc) = default_budget"
    by (simp_all add: oc_def example_start_facts(7)) (simp add: example_request_def)
  have v: "sp_versions_written (rs_spent (oc_state oc)) \<le> max_versions_written (rs_budget (oc_state oc))"
    by (simp add: sel default_budget_def no_spend_def)
  have f: "NODE_FUNCS Intake ?s (build_node_context example_env_engine None 0 ?s) = Inr oc"
    using i by (simp add: NODE_FUNCS_def oc_def)
  have bs: "branch_spends_ok ?s" "below 0 (es_db example_store)"
    by (simp_all add: branch_spends_ok_def below_def example_store_def empty_db_def)
  show thesis
    by (rule example_hop[OF f bs(1) v _ r bs(2)])
       (use that sel in \<open>auto simp: engine_step_def\<close>)
qed

lemma example_retrieve:
  assumes "rs_task s = example_request_task" "rs_spent s = no_spend" "rs_budget s = default_budget"
    "branch_spends_ok s" "below k (es_db es)"
  obtains s' es' where "hop example_env_engine None None k s Retrieve es = (Inr (s', Some Plan), es')"
    "below (k + 1) (es_db es')" "rs_task s' = example_request_task" "rs_spent s' = no_spend" "rs_budget s' = default_budget"
proof -
  define oc where "oc = retrieve s (build_node_context example_env_engine None k s)"
  have fr: "rs_task (oc_state oc) = example_request_task" "rs_spent (oc_state oc) = no_spend"
    "rs_budget (oc_state oc) = default_budget"
    using retrieve_frame[of s "build_node_context example_env_engine None k s"] assms(1-3) by (simp_all add: oc_def same_frame_def)
  have "oc_route oc = Some Always" by (simp add: oc_def retrieve_def Let_def)
  then have r: "choose_route Retrieve oc = Inr (edge Retrieve Plan Always (\<lambda>s. True))"
    by (simp add: choose_route_def legal_routes_def node_simps)
  have f: "NODE_FUNCS Retrieve s (build_node_context example_env_engine None k s) = Inr oc"
    by (simp add: NODE_FUNCS_def oc_def)
  have v: "sp_versions_written (rs_spent (oc_state oc)) \<le> max_versions_written (rs_budget (oc_state oc))"
    by (simp add: fr default_budget_def no_spend_def)
  show thesis by (rule example_hop[OF f assms(4) v _ r assms(5)]) (use that fr in \<open>auto simp: engine_step_def\<close>)
qed

lemma example_plan:
  assumes "rs_task s = example_request_task" "rs_spent s = no_spend" "rs_budget s = default_budget"
    "branch_spends_ok s" "below k (es_db es)"
  obtains s' es' where "hop example_env_engine None None k s Plan es = (Inr (s', Some Finalize), es')"
    "below (k + 1) (es_db es')" "rs_spent s' = no_spend" "rs_budget s' = default_budget"
    "rs_route_log s' \<noteq> []" "re_node (last (rs_route_log s')) = Plan"
proof -
  let ?ctx = "build_node_context example_env_engine None k s"
  define oc where "oc = plan s ?ctx"
  have "wants_abstain s"
    by (simp add: wants_abstain_def request_of_def assms(1) example_request_task_def example_task_def py_startswith_def)
  then have oc: "oc = outcome (s\<lparr>rs_strategy := Some Abstain, rs_predicted_success := Some 0\<rparr>) AbstainRoute []"
    by (simp add: oc_def plan_def)
  have r: "choose_route Plan oc = Inr (edge Plan Finalize AbstainRoute (strategy_in [Abstain]))"
    by (simp add: oc choose_route_def legal_routes_def node_simps strategy_in_def)
  have f: "NODE_FUNCS Plan s ?ctx = Inr oc" by (simp add: NODE_FUNCS_def oc_def)
  have v: "sp_versions_written (rs_spent (oc_state oc)) \<le> max_versions_written (rs_budget (oc_state oc))"
    by (simp add: oc assms default_budget_def no_spend_def)
  show thesis
    by (rule example_hop[OF f assms(4) v _ r assms(5)]) (use that assms(2,3) in \<open>auto simp: engine_step_def oc\<close>)
qed

lemma example_finalize:
  assumes "rs_spent s = no_spend" "rs_budget s = default_budget" "rs_route_log s \<noteq> []"
    "re_node (last (rs_route_log s)) = Plan" "below k (es_db es)"
  obtains s' es' where "hop example_env_engine None None k s Finalize es = (Inr (s', None), es')"
    "rs_terminal s' = Some Abstained"
proof -
  define s' where "s' = s\<lparr>rs_terminal := Some Abstained\<rparr>"
  have f: "NODE_FUNCS Finalize s (build_node_context example_env_engine None k s) =
      Inr \<lparr>oc_state = s', oc_route = None, oc_effects = []\<rparr>"
    by (simp add: NODE_FUNCS_def finalize_def assms(3,4) terminal_by_predecessor_def s'_def)
  define h where "h = hop_write_of example_env_engine None k s s' Finalize None None None []
      (eval_outbox (ee_tenant example_env_engine) s')"
  have env: "\<not> ee_fenced example_env_engine" "\<not> ee_cancelled example_env_engine k"
    by (simp_all add: example_env_engine_def)
  have "hw_seq h = k" "hw_state h = s'" "hw_next_node h = None" by (simp_all add: h_def hop_write_of_def)
  then obtain es' where dc: "do_commit example_env_engine h (es\<lparr>es_effects := es_effects es @ []\<rparr>) = (Inr (s', None), es')"
    using commit_unfenced[OF env(1), of h es] assms(5) by auto
  have v: "\<not> max_versions_written (rs_budget s') < sp_versions_written (rs_spent s')"
    by (simp add: s'_def assms(1,2) default_budget_def no_spend_def)
  have "hop example_env_engine None None k s Finalize es = (Inr (s', None), es')"
    using dc v by (simp add: hop_def env(2) f Let_def h_def[symmetric])
  then show thesis by (rule that) (simp add: s'_def)
qed

lemma worker_position:
  "run_workers q ws es \<Longrightarrow> (k, s, n) \<in> set ws \<Longrightarrow> branch_spends_ok s"
  using run_workers_inv run_path_branch_spends by (fastforce simp: workers_inv_def list_all_iff position_ok_def)

lemma example_session:
  obtains ws es s where "run_workers example_request ws es" "(3, Finalize, None, s) \<in> set (history (es_db es) ''r'')"
    "rs_terminal s = Some Abstained" "length (history (es_db es) ''r'') = 4"
proof -
  let ?q = example_request
  have n: "latest_seq (es_db example_store) (rq_run_id ?q) = None"
    using example_start_facts(6) by (simp add: history_empty_iff)
  then have k: "next_seq (es_db example_store) (rq_run_id ?q) = 0" by (simp add: next_seq_def)
  note w0 = run_workers.started[OF example_opened n, unfolded k]
  obtain s1 es1 where h1: "hop example_env_engine None None 0 (request_state ?q) Intake example_store =
      (Inr (s1, Some Retrieve), es1)" and b1: "below 1 (es_db es1)"
    and f1: "rs_task s1 = example_request_task" "rs_spent s1 = no_spend" "rs_budget s1 = default_budget"
    by (rule example_intake)
  note w1 = run_workers.advanced[OF w0 list.set_intros(1) h1, simplified]
  note c1 = advance_appends(5)[OF run_workers_inv[OF w0] list.set_intros(1) h1]
  obtain s2 es2 where h2: "hop example_env_engine None None 1 s1 Retrieve es1 = (Inr (s2, Some Plan), es2)"
    and b2: "below 2 (es_db es2)"
    and f2: "rs_task s2 = example_request_task" "rs_spent s2 = no_spend" "rs_budget s2 = default_budget"
    by (rule example_retrieve[OF f1 worker_position[OF w1 list.set_intros(1)] b1]) simp
  note w2 = run_workers.advanced[OF w1 list.set_intros(1) h2, simplified]
  note c2 = advance_appends(5)[OF run_workers_inv[OF w1] list.set_intros(1) h2]
  obtain s3 es3 where h3: "hop example_env_engine None None 2 s2 Plan es2 = (Inr (s3, Some Finalize), es3)"
    and b3: "below 3 (es_db es3)" and f3: "rs_spent s3 = no_spend" "rs_budget s3 = default_budget"
      "rs_route_log s3 \<noteq> []" "re_node (last (rs_route_log s3)) = Plan"
    by (rule example_plan[OF f2 worker_position[OF w2 list.set_intros(1)] b2]) simp
  note w3 = run_workers.advanced[OF w2 list.set_intros(1) h3, simplified]
  note c3 = advance_appends(5)[OF run_workers_inv[OF w2] list.set_intros(1) h3]
  obtain s4 es4 where h4: "hop example_env_engine None None 3 s3 Finalize es3 = (Inr (s4, None), es4)"
    and t: "rs_terminal s4 = Some Abstained"
    by (rule example_finalize[OF f3 b3])
  note w4 = run_workers.advanced[OF w3 list.set_intros(1) h4, simplified]
  note c4 = advance_appends(5)[OF run_workers_inv[OF w3] list.set_intros(1) h4]
  have hist: "history (es_db es4) ''r'' = [(0, Intake, Some Retrieve, s1), (1, Retrieve, Some Plan, s2),
      (2, Plan, Some Finalize, s3), (3, Finalize, None, s4)]"
    using c1 c2 c3 c4 example_start_facts(5,6) by simp
  show thesis by (rule that[OF w4 _ t]) (simp_all add: hist)
qed

theorem committed_history_is_a_path_witness:
  "\<exists>(es :: engine_store) nx s. run_path example_request (history (es_db es) ''r'') nx s \<and> length (history (es_db es) ''r'') = 4"
proof -
  obtain ws es s where w: "run_workers example_request ws es" and l: "length (history (es_db es) ''r'') = 4"
    by (rule example_session)
  from committed_history_is_a_path[OF w] obtain nx s1 where "run_path example_request (history (es_db es) ''r'') nx s1"
    unfolding example_start_facts(5) by blast
  then show ?thesis using l by (intro exI conjI)
qed

theorem history_is_an_audit_trail_witness:
  "\<exists>es :: engine_store. chained (Some Intake) (history (es_db es) ''r'') None \<and> map fst (history (es_db es) ''r'') = [0, 1, 2, 3]"
proof -
  obtain ws es s where w: "run_workers example_request ws es" and l: "length (history (es_db es) ''r'') = 4"
    and f: "(3, Finalize, None, s) \<in> set (history (es_db es) ''r'')"
    by (rule example_session)
  from history_is_an_audit_trail[OF w] obtain nx
    where c: "chained (Some Intake) (history (es_db es) ''r'') nx" "map fst (history (es_db es) ''r'') = [0, 1, 2, 3]"
    unfolding example_start_facts(5) l by (auto simp: upt_rec)
  then show ?thesis using chained_None[OF c(1) f] by (intro exI[of _ es]) simp
qed

theorem solved_means_required_criteria_passed_witness:
  "\<exists>(es :: engine_store) s. (3, Finalize, None, s) \<in> set (history (es_db es) ''r'') \<and> rs_terminal s = Some Abstained \<and> Abstained \<noteq> Error"
proof -
  obtain ws es s where w: "run_workers example_request ws es" and f: "(3, Finalize, None, s) \<in> set (history (es_db es) ''r'')"
    and t: "rs_terminal s = Some Abstained"
    by (rule example_session)
  have f': "(3, Finalize, None, s) \<in> set (history (es_db es) (rq_run_id example_request))"
    using f by (simp add: example_start_facts(5))
  from solved_means_required_criteria_passed[OF w f' t] f t show ?thesis by blast
qed

theorem checkpoints_bounded_over_all_sessions_witness:
  "\<exists>es :: engine_store. int (length (history (es_db es) ''r'')) = 4 \<and> int (length (history (es_db es) ''r'')) \<le> 28"
proof -
  obtain ws es s where w: "run_workers example_request ws es" and l: "length (history (es_db es) ''r'') = 4"
    by (rule example_session)
  have "int (length (history (es_db es) ''r'')) \<le> 28"
    using checkpoints_bounded_over_all_sessions[OF w example_start_facts(2)]
    unfolding example_start_facts(5) by (simp add: example_request_def default_budget_def)
  with l show ?thesis by (intro exI[of _ es]) simp
qed


theorem run_ends_within_attempt_budget_witness:
  "\<exists>res es'. start example_env_engine None None None example_request example_store = (res, es') \<and>
     length (db_checkpoints (es_db es')) \<le> 28 \<and> res \<noteq> Inl StepLimit"
proof -
  obtain res es' where st: "start example_env_engine None None None example_request example_store = (res, es')"
    by (rule prod.exhaust)
  from run_ends_within_attempt_budget[OF st example_start_facts(2)] st show ?thesis
    by (auto simp: example_request_def default_budget_def example_store_def empty_db_def)
qed

end
