(* ===== verification/Op_Ledger.thy ===== *)
theory Op_Ledger
  imports Run_Lease
begin

section \<open>The operation ledger\<close>

text \<open>
  \<open>graph/ops.py\<close>: \<open>OperationLedger.get\<close>, \<open>put\<close>, \<open>run_once\<close>, \<open>count_for_node\<close>, the live claims of a process and
  the rebuild of the table. \<open>run_once\<close> is its critical sections, each one a function: a pass over the
  row, the recording of a result, the clean-up after an exception, the safety valve of a waiter.
  Threads of several processes interleave at that grain. A row holds the pending sentinel or a result.
\<close>

type_synonym op_key = "run_id \<times> int \<times> int \<times> string \<times> int"
type_synonym thread = nat

datatype 'r op_value = PendingSentinel | Value 'r

record 'r op_row =
  op_result :: "'r op_value"
  op_token :: "token option"

type_synonym 'r op_table = "op_key \<Rightarrow> 'r op_row option"

record live_claim =
  cl_done :: bool
  cl_owner :: thread

type_synonym live_claims = "op_key \<Rightarrow> live_claim option"

datatype op_error = OpLeaseLost | OpConflict | OpValueError | OpFnRaised

definition is_pending :: "'r op_value \<Rightarrow> bool" where
  "is_pending v = (case v of PendingSentinel \<Rightarrow> True | Value r \<Rightarrow> False)"

definition op_get :: "'r op_table \<Rightarrow> op_key \<Rightarrow> bool \<times> 'r op_value option" where
  "op_get tab key =
     (case tab key of
        None \<Rightarrow> (False, None)
      | Some row \<Rightarrow> if is_pending (op_result row) then (False, None) else (True, Some (op_result row)))"

definition op_put :: "'r op_table \<Rightarrow> op_key \<Rightarrow> 'r op_value \<Rightarrow> (op_error, 'r op_table) result" where
  "op_put tab key v =
     (if is_pending v then Inl OpValueError
      else if tab key \<noteq> None then Inl OpConflict
      else Inr (tab(key \<mapsto> \<lparr>op_result = v, op_token = None\<rparr>)))"

subsection \<open>Live claims of a process\<close>

text \<open>\<open>_live_wait_event\<close>: whether to wait, and the claims with a stale one dropped.\<close>

definition live_wait_event :: "(thread \<Rightarrow> bool) \<Rightarrow> op_key \<Rightarrow> live_claims \<Rightarrow> bool \<times> live_claims" where
  "live_wait_event alive key live =
     (case live key of
        None \<Rightarrow> (False, live)
      | Some c \<Rightarrow> if cl_done c \<or> \<not> alive (cl_owner c) then (False, live(key := None)) else (True, live))"

definition install_claim :: "thread \<Rightarrow> op_key \<Rightarrow> live_claims \<Rightarrow> live_claims" where
  "install_claim me key live = live(key \<mapsto> \<lparr>cl_done = False, cl_owner = me\<rparr>)"

definition release_claim :: "op_key \<Rightarrow> live_claims \<Rightarrow> live_claims" where
  "release_claim key live = live(key := None)"

subsection \<open>The critical sections of \<open>run_once\<close>\<close>

datatype 'r pass = Fenced | Stored 'r | WaitFor | Claimed

definition claim_pass ::
    "bool \<Rightarrow> (thread \<Rightarrow> bool) \<Rightarrow> thread \<Rightarrow> op_key \<Rightarrow> 'r op_table \<Rightarrow> live_claims \<Rightarrow>
     'r op_value pass \<times> 'r op_table \<times> live_claims" where
  "claim_pass admitted alive me key tab live =
     (if \<not> admitted then (Fenced, tab, live)
      else case tab key of
             Some row \<Rightarrow>
               if \<not> is_pending (op_result row) then (Stored (op_result row), tab, live)
               else (case live_wait_event alive key live of
                       (True, live') \<Rightarrow> (WaitFor, tab, live')
                     | (False, live') \<Rightarrow>
                         (Claimed, tab(key \<mapsto> row\<lparr>op_result := PendingSentinel\<rparr>), install_claim me key live'))
           | None \<Rightarrow>
               (Claimed, tab(key \<mapsto> \<lparr>op_result = PendingSentinel, op_token = None\<rparr>), install_claim me key live))"

text \<open>The safety valve of a waiter past its deadline.\<close>

definition valve :: "op_key \<Rightarrow> live_claims \<Rightarrow> live_claims" where
  "valve key live = live(key := None)"

text \<open>\<open>UPDATE ... WHERE key\<close>: nothing happens when the row is gone.\<close>

definition record_result ::
    "bool \<Rightarrow> token option \<Rightarrow> op_key \<Rightarrow> 'r op_value \<Rightarrow> 'r op_table \<Rightarrow> live_claims \<Rightarrow>
     (op_error, 'r op_table \<times> live_claims) result" where
  "record_result admitted tok key v tab live =
     (if \<not> admitted then Inl OpLeaseLost
      else Inr (case tab key of
                  None \<Rightarrow> tab | Some row \<Rightarrow> tab(key \<mapsto> \<lparr>op_result = v, op_token = tok\<rparr>),
                release_claim key live))"

definition clean_up :: "op_key \<Rightarrow> 'r op_table \<Rightarrow> live_claims \<Rightarrow> 'r op_table \<times> live_claims" where
  "clean_up key tab live =
     (case tab key of
        None \<Rightarrow> tab | Some row \<Rightarrow> if is_pending (op_result row) then tab(key := None) else tab,
      release_claim key live)"

datatype 'r fn_outcome = FnReturns "'r op_value" | FnRaises

text \<open>After a claim: \<open>fn\<close> has run; record its value, or clean up and raise.\<close>

definition finish_claim ::
    "bool \<Rightarrow> token option \<Rightarrow> op_key \<Rightarrow> 'r fn_outcome \<Rightarrow> 'r op_table \<Rightarrow> live_claims \<Rightarrow>
     (op_error, 'r op_value) result \<times> 'r op_table \<times> live_claims" where
  "finish_claim admitted tok key fn tab live =
     (case fn of
        FnRaises \<Rightarrow> (Inl OpFnRaised, clean_up key tab live)
      | FnReturns v \<Rightarrow>
          if is_pending v then (Inl OpValueError, clean_up key tab live)
          else case record_result admitted tok key v tab live of
                 Inl e \<Rightarrow> (Inl e, clean_up key tab live)
               | Inr (tab', live') \<Rightarrow> (Inr v, tab', live'))"

text \<open>An undisturbed call: one pass, and the effect when it claimed. No result means it has to wait;
  the flag says whether \<open>fn\<close> was called.\<close>

definition run_once ::
    "bool \<Rightarrow> (thread \<Rightarrow> bool) \<Rightarrow> thread \<Rightarrow> token option \<Rightarrow> op_key \<Rightarrow> 'r fn_outcome \<Rightarrow> 'r op_table \<Rightarrow> live_claims \<Rightarrow>
     (op_error, 'r op_value) result option \<times> bool \<times> 'r op_table \<times> live_claims" where
  "run_once admitted alive me tok key fn tab live =
     (case claim_pass admitted alive me key tab live of
        (Fenced, tab', live') \<Rightarrow> (Some (Inl OpLeaseLost), False, tab', live')
      | (Stored v, tab', live') \<Rightarrow> (Some (Inr v), False, tab', live')
      | (WaitFor, tab', live') \<Rightarrow> (None, False, tab', live')
      | (Claimed, tab', live') \<Rightarrow>
          (case finish_claim admitted tok key fn tab' live' of (res, tab'', live'') \<Rightarrow> (Some res, True, tab'', live'')))"

text \<open>The rows of the table are those of \<open>keys\<close>.\<close>

definition count_for_node :: "op_key list \<Rightarrow> 'r op_table \<Rightarrow> run_id \<Rightarrow> int \<Rightarrow> string \<Rightarrow> int \<Rightarrow> nat" where
  "count_for_node keys tab rid attempt node incarnation =
     length (filter (\<lambda>(r, i, a, n, q). r = rid \<and> i = incarnation \<and> a = attempt \<and> n = node \<and>
        (case tab (r, i, a, n, q) of None \<Rightarrow> False | Some row \<Rightarrow> \<not> is_pending (op_result row))) keys)"

subsection \<open>Rebuilding the table\<close>

text \<open>The table with its primary key and its optional columns; \<open>operations_rel3\<close> is the copy under
  construction, which an interrupted rebuild of an earlier release may have left behind.\<close>

record 'r ops_columns =
  oc_primary_key :: "string list"
  oc_has_incarnation :: bool
  oc_has_token :: bool
  oc_rows :: "(op_key \<times> 'r op_row) list"

record 'r ops_schema =
  sc_operations :: "'r ops_columns option"
  sc_rel3 :: "'r ops_columns option"

definition ops_key_columns :: "string list" where
  "ops_key_columns = [''run_id'', ''incarnation'', ''attempt_no'', ''node'', ''op_seq'']"

definition operations_schema_ready :: "'r ops_schema \<Rightarrow> bool" where
  "operations_schema_ready db \<longleftrightarrow>
     sc_rel3 db = None \<and> (case sc_operations db of None \<Rightarrow> False | Some t \<Rightarrow> oc_primary_key t = ops_key_columns)"

definition upgraded_row :: "'r ops_columns \<Rightarrow> op_key \<times> 'r op_row \<Rightarrow> op_key \<times> 'r op_row" where
  "upgraded_row t kr =
     (case kr of ((rid, inc, attempt, node, q), row) \<Rightarrow>
        ((rid, if oc_has_incarnation t then inc else 1, attempt, node, q),
         if oc_has_token t then row else row\<lparr>op_token := None\<rparr>))"

definition rebuild_operations_table :: "'r ops_schema \<Rightarrow> 'r ops_schema" where
  "rebuild_operations_table db =
     (let fresh = (\<lambda>rows. \<lparr>oc_primary_key = ops_key_columns, oc_has_incarnation = True, oc_has_token = True, oc_rows = rows\<rparr>);
          ops = (case sc_rel3 db of
                   Some t \<Rightarrow> (if sc_operations db = None then Some t else sc_operations db)
                 | None \<Rightarrow> sc_operations db)
      in case ops of
           None \<Rightarrow> \<lparr>sc_operations = Some (fresh []), sc_rel3 = None\<rparr>
         | Some t \<Rightarrow>
             if oc_primary_key t = ops_key_columns then \<lparr>sc_operations = Some t, sc_rel3 = None\<rparr>
             else \<lparr>sc_operations = Some (fresh (map (upgraded_row t) (oc_rows t))), sc_rel3 = None\<rparr>)"

definition ensure_operations_schema :: "'r ops_schema \<Rightarrow> 'r ops_schema" where
  "ensure_operations_schema db = (if operations_schema_ready db then db else rebuild_operations_table db)"

lemmas op_defs = claim_pass_def live_wait_event_def install_claim_def release_claim_def record_result_def
  clean_up_def finish_claim_def is_pending_def

lemma is_pending_simps [simp]:
  "is_pending PendingSentinel" "\<not> is_pending (Value r)"
  by (simp_all add: is_pending_def)

lemma is_pending_iff: "is_pending v \<longleftrightarrow> v = PendingSentinel"
  by (cases v) simp_all

subsection \<open>Interleavings\<close>



















subsection \<open>Properties\<close>


text \<open>
  An effect happens once per record: an admitted, undisturbed call runs the function exactly when no
  result is recorded; when it returns a value, that value is recorded and every later admitted call,
  from any thread or process, returns it without running anything; when it raises, no row is left
  behind, so a retry runs the function again; other operations are untouched.\<close>

theorem run_once_effects:
  assumes "run_once True alive me tok key fn tab live = (Some res, called, tab', live')"
  shows "(called \<longleftrightarrow> \<not> fst (op_get tab key)) \<and>
         (\<forall>v. res = Inr v \<longrightarrow> op_get tab' key = (True, Some v) \<and>
            (\<forall>alive2 me2 tok2 fn2 live2. run_once True alive2 me2 tok2 key fn2 tab' live2 = (Some (Inr v), False, tab', live2))) \<and>
         (\<forall>e. res = Inl e \<longrightarrow> called \<and> tab' key = None) \<and>
         (\<forall>k. k \<noteq> key \<longrightarrow> tab' k = tab k)"
  using assms
  by (auto simp: run_once_def op_defs op_get_def
      split: option.splits if_splits fn_outcome.splits op_value.splits prod.splits)

text \<open>
  A fenced-out call loses the record of its successor: when a call under a new lease has taken over
  a pending row, the clean-up of the old call deletes that row, and the new call then returns its
  value without having recorded it, so the next call runs the function again.\<close>

theorem fenced_out_call_drops_successor_record:
  assumes "claim_pass True alive th key tab live2 = (Claimed, tab1, live2')"
    and "finish_claim False (Some t1) key fn1 tab1 live1 = (res1, tab2, live1')"
    and "finish_claim True (Some t2) key (FnReturns (Value v)) tab2 live2' = (res2, tab3, live2'')"
  shows "res2 = Inr (Value v) \<and> tab3 key = None \<and>
         (\<exists>tab4 live4. run_once True alive3 th3 tok3 key (FnReturns (Value w)) tab3 live3 = (Some (Inr (Value w)), True, tab4, live4))"
  using assms
  by (auto simp: run_once_def op_defs split: option.splits if_splits fn_outcome.splits op_value.splits prod.splits)

text \<open>
  The safety valve takes an operation from a living owner: while a thread is still running the
  function of a claimed operation, other threads of its process wait, but a waiter that has passed
  its deadline drops the claim, and its next pass claims the operation a second time.\<close>

theorem valve_reclaims_from_a_living_owner:
  assumes "claim_pass True alive owner key tab live = (Claimed, tab1, live1)" "alive owner"
  shows "claim_pass True alive other key tab1 live1 = (WaitFor, tab1, live1) \<and>
         (\<exists>live2. claim_pass True alive other key tab1 (valve key live1) = (Claimed, tab1, live2))"
  using assms
  by (auto simp: op_defs valve_def is_pending_iff split: option.splits if_splits)

text \<open>
  The rebuild keeps every record: it always ends with the current schema and no copy left over,
  running it again changes nothing, and the rows are those of the table it found (of the left-over
  copy when a crash had already dropped the table), with incarnation one and no token where the old
  table had no such column.\<close>

theorem rebuild_keeps_rows:
  "operations_schema_ready (rebuild_operations_table db) \<and>
   ensure_operations_schema (rebuild_operations_table db) = rebuild_operations_table db \<and>
   (let found = (if sc_operations db = None then sc_rel3 db else sc_operations db);
        rows = oc_rows (the (sc_operations (rebuild_operations_table db)))
    in case found of
         None \<Rightarrow> rows = []
       | Some t \<Rightarrow> if oc_primary_key t = ops_key_columns then rows = oc_rows t else rows = map (upgraded_row t) (oc_rows t))"
  by (simp add: rebuild_operations_table_def operations_schema_ready_def ensure_operations_schema_def Let_def
      split: option.splits)

subsection \<open>Examples\<close>

definition example_key :: op_key where
  "example_key = (''r'', 1, 0, ''solve'', 0)"



theorem run_once_effects_witness:
  "\<exists>res called tab' live'. run_once True (\<lambda>t. True) 1 None example_key (FnReturns (Value (7 :: nat))) Map.empty Map.empty =
     (Some res, called, tab', live') \<and> called"
proof -
  obtain tab' live' where r: "run_once True (\<lambda>t. True) 1 None example_key (FnReturns (Value (7 :: nat))) Map.empty Map.empty =
      (Some (Inr (Value 7)), True, tab', live')"
    by (simp add: run_once_def op_defs)
  from run_once_effects[OF r] r show ?thesis by blast
qed

theorem fenced_out_call_drops_successor_record_witness:
  "\<exists>tab3 :: nat op_table. \<exists>tab4 live4. tab3 example_key = None \<and>
     run_once True (\<lambda>t. True) 3 None example_key (FnReturns (Value 9)) tab3 Map.empty = (Some (Inr (Value 9)), True, tab4, live4)"
proof -
  let ?tab = "Map.empty(example_key \<mapsto> \<lparr>op_result = PendingSentinel, op_token = None\<rparr>) :: nat op_table"
  obtain tab1 live2 where c: "claim_pass True (\<lambda>t. True) 2 example_key ?tab Map.empty = (Claimed, tab1, live2)"
    by (simp add: op_defs)
  obtain res1 tab2 live1 where z: "finish_claim False (Some 1) example_key (FnReturns (Value 5)) tab1 Map.empty = (res1, tab2, live1)"
    by (rule prod_cases3)
  obtain res2 tab3 live3 where f: "finish_claim True (Some 2) example_key (FnReturns (Value 8)) tab2 live2 = (res2, tab3, live3)"
    by (rule prod_cases3)
  from fenced_out_call_drops_successor_record[OF c z f, of "\<lambda>t. True" 3 None 9 Map.empty] show ?thesis by blast
qed

theorem valve_reclaims_from_a_living_owner_witness:
  "\<exists>tab1 :: nat op_table. \<exists>live1. claim_pass True (\<lambda>t. True) 2 example_key tab1 live1 = (WaitFor, tab1, live1)"
proof -
  obtain tab1 :: "nat op_table" and live1
    where c: "claim_pass True (\<lambda>t. True) 1 example_key Map.empty Map.empty = (Claimed, tab1, live1)"
    by (simp add: op_defs)
  from valve_reclaims_from_a_living_owner[OF c, of 2] show ?thesis by blast
qed

end
