(* ===== verification/Hash_Ledger.thy ===== *)
theory Hash_Ledger
  imports Run_State Run_Lease "HOL-Library.Countable"
begin

section \<open>The provenance ledger\<close>

text \<open>
  \<open>ledger/hashchain.py\<close> (\<open>read_tail\<close>, \<open>HashChainLedger.append\<close>, \<open>entries\<close>, \<open>verify\<close>, \<open>_tip_for_append\<close>),
  \<open>ledger/sidecar.py\<close>, \<open>ledger/repair.py\<close>, \<open>ledger/signer.py\<close> and \<open>contracts/ledger.py\<close>. The file is its bytes.
  What pydantic and hashlib do (serialising and parsing an entry, the canonical bytes, SHA-256, HMAC,
  the receipt model) is the codec argument of the definitions; what is used of it is \<open>codec_ok\<close>.
  Every operation holds the file lock, so one operation is one step.
\<close>

record 'j ledger_entry =
  le_seq :: nat
  le_prev_hash :: string
  le_entry_hash :: string
  le_actor :: string
  le_action :: ledger_action
  le_target :: string
  le_evidence :: "(string \<times> 'j) list"
  le_at :: instant

record 'j ledger_codec =
  lc_dump :: "'j ledger_entry \<Rightarrow> string"
  lc_parse :: "string \<Rightarrow> 'j ledger_entry option"
  lc_canonical :: "'j ledger_entry \<Rightarrow> string"
  lc_sha256 :: "string \<Rightarrow> string"
  lc_receipt_ok :: "(string \<times> 'j) list \<Rightarrow> bool"
  lc_hmac :: "string \<Rightarrow> string \<Rightarrow> string"
  lc_sig_json :: "string \<Rightarrow> 'j"
  lc_sig_of :: "'j \<Rightarrow> string option"

record tip_sidecar =
  ts_entries :: nat
  ts_next_seq :: nat
  ts_tip_hash :: string
  ts_prefix_bytes :: nat
  ts_prefix_sha256 :: string

record ledger_obj =
  lg_file :: string
  lg_tip :: "(nat \<times> string) option"
  lg_sidecar :: "tip_sidecar option"

datatype ledger_error =
    TornTail
  | LineDoesNotParse
  | SeqMismatch
  | ChainBroken
  | HashMismatch
  | BadReceipt
  | NoSignatureKey
  | BadSignature
  | NotATornTail
  | LedgerLeaseLost

definition GENESIS_HASH :: string where
  "GENESIS_HASH = replicate 64 (CHR ''0'')"

definition SIG_FIELD :: string where
  "SIG_FIELD = ''_ledger_sig''"

abbreviation LF :: char where
  "LF \<equiv> CHR 0x0A"

abbreviation CR :: char where
  "CR \<equiv> CHR 0x0D"

definition compute_entry_hash :: "'j ledger_codec \<Rightarrow> 'j ledger_entry \<Rightarrow> string" where
  "compute_entry_hash c e = lc_sha256 c (lc_canonical c e)"

subsection \<open>Bytes and lines\<close>

text \<open>\<open>bytes.strip\<close> and \<open>bytes.splitlines\<close>.\<close>

definition byte_space :: "char \<Rightarrow> bool" where
  "byte_space ch \<longleftrightarrow> ch \<in> {CHR 0x20, CHR 0x09, LF, CR, CHR 0x0B, CHR 0x0C}"

definition blank :: "string \<Rightarrow> bool" where
  "blank line \<longleftrightarrow> list_all byte_space line"

function split_lines :: "string \<Rightarrow> string \<Rightarrow> string list" where
  "split_lines acc [] = (if acc = [] then [] else [acc])"
| "split_lines acc (ch # cs) =
     (if ch = LF then acc # split_lines [] cs
      else if ch = CR then acc # split_lines [] (if cs \<noteq> [] \<and> hd cs = LF then tl cs else cs)
      else split_lines (acc @ [ch]) cs)"
  by pat_completeness auto
termination
  by (relation "measure (\<lambda>(acc, cs). length cs)") auto

definition splitlines :: "string \<Rightarrow> string list" where
  "splitlines data = split_lines [] data"

fun parse_lines :: "'j ledger_codec \<Rightarrow> string list \<Rightarrow> (ledger_error, 'j ledger_entry list) result" where
  "parse_lines c [] = Inr []"
| "parse_lines c (l # ls) =
     (if blank l then parse_lines c ls
      else case lc_parse c l of
             None \<Rightarrow> Inl LineDoesNotParse
           | Some e \<Rightarrow> (case parse_lines c ls of Inl err \<Rightarrow> Inl err | Inr es \<Rightarrow> Inr (e # es)))"

definition entries_from_bytes :: "'j ledger_codec \<Rightarrow> string \<Rightarrow> (ledger_error, 'j ledger_entry list) result" where
  "entries_from_bytes c data = parse_lines c (splitlines data)"

text \<open>\<open>data.rfind(b"\n")\<close>.\<close>

fun rfind_lf :: "string \<Rightarrow> nat option" where
  "rfind_lf [] = None"
| "rfind_lf (ch # cs) =
     (case rfind_lf cs of Some i \<Rightarrow> Some (i + 1) | None \<Rightarrow> if ch = LF then Some 0 else None)"

subsection \<open>Reading the tail\<close>

text \<open>The tail is read in windows that double until two newlines are in sight (from one mebibyte on, so
  never from an empty window).\<close>

function read_window :: "nat \<Rightarrow> string \<Rightarrow> nat \<Rightarrow> string \<Rightarrow> string" where
  "read_window w file stop data =
     (let start = stop - w; data' = take (stop - start) (drop start file) @ data
      in if 2 \<le> count_list data' LF \<or> start = 0 \<or> w = 0 then data' else read_window (w * 2) file start data')"
  by pat_completeness auto
termination
  by (relation "measure (\<lambda>(w, file, stop, data). stop)") auto

declare read_window.simps [simp del]

lemma rfind_lf_less: "rfind_lf s = Some i \<Longrightarrow> i < length s"
  by (induction s arbitrary: i) (auto split: option.splits if_splits)

text \<open>The walk back over extra trailing newlines.\<close>

function walk_back :: "string \<Rightarrow> nat \<Rightarrow> string" where
  "walk_back data cursor =
     (let before = take cursor data; earlier = rfind_lf before;
          candidate = (case earlier of None \<Rightarrow> before | Some i \<Rightarrow> drop (i + 1) before)
      in if \<not> blank candidate then candidate
         else case earlier of None \<Rightarrow> [] | Some i \<Rightarrow> walk_back data i)"
  by pat_completeness auto
termination
proof (relation "measure (\<lambda>(data, cursor). cursor)", simp)
  fix data :: string and cursor before earlier candidate i
  assume "before = take cursor data" "earlier = rfind_lf before" "earlier = Some i"
  then show "((data, i), data, cursor) \<in> measure (\<lambda>(data, cursor). cursor)"
    using rfind_lf_less[of "take cursor data" i] by simp
qed

declare walk_back.simps [simp del]

definition window_bytes :: nat where
  "window_bytes = 1024 * 1024"

definition read_tail ::
    "'j ledger_codec \<Rightarrow> nat \<Rightarrow> string \<Rightarrow> (ledger_error, 'j ledger_entry option \<times> nat) result" where
  "read_tail c w file =
     (if file = [] then Inr (None, 0)
      else
        let data = read_window w file (length file) []
        in case rfind_lf data of
             None \<Rightarrow> Inr (None, 0)
           | Some last_nl \<Rightarrow>
               (let complete_len = length file - length data + last_nl + 1;
                    prev_nl = rfind_lf (take last_nl data);
                    line0 = (case prev_nl of None \<Rightarrow> take last_nl data | Some p \<Rightarrow> drop (p + 1) (take last_nl data));
                    line = (if blank line0 then (case prev_nl of None \<Rightarrow> line0 | Some p \<Rightarrow> walk_back data p) else line0)
                in if blank line then Inr (None, complete_len)
                   else case lc_parse c line of
                          None \<Rightarrow> Inl LineDoesNotParse
                        | Some e \<Rightarrow> Inr (Some e, complete_len)))"

subsection \<open>The chain\<close>

text \<open>The position is compared first, then the link, the hash and the receipt.\<close>

fun verify_chain :: "'j ledger_codec \<Rightarrow> nat \<Rightarrow> string \<Rightarrow> 'j ledger_entry list \<Rightarrow> ledger_error option" where
  "verify_chain c k prev [] = None"
| "verify_chain c k prev (e # es) =
     (if le_seq e \<noteq> k then Some SeqMismatch
      else if le_prev_hash e \<noteq> prev then Some ChainBroken
      else if compute_entry_hash c (e\<lparr>le_entry_hash := ''pending''\<rparr>) \<noteq> le_entry_hash e then Some HashMismatch
      else if le_action e = LCloseReceipt \<and> \<not> lc_receipt_ok c (filter (\<lambda>(k, v). k \<noteq> SIG_FIELD) (le_evidence e))
           then Some BadReceipt
      else verify_chain c (k + 1) (le_entry_hash e) es)"

definition tip_of :: "string \<Rightarrow> 'j ledger_entry list \<Rightarrow> string" where
  "tip_of prev es = (if es = [] then prev else le_entry_hash (last es))"

subsection \<open>Signatures\<close>

definition unsigned :: "'j ledger_entry \<Rightarrow> 'j ledger_entry" where
  "unsigned e = e\<lparr>le_evidence := filter (\<lambda>(k, v). k \<noteq> SIG_FIELD) (le_evidence e)\<rparr>"

definition signature_bytes :: "'j ledger_codec \<Rightarrow> 'j ledger_entry \<Rightarrow> string" where
  "signature_bytes c e = lc_canonical c (unsigned e)"

definition sign_entry :: "'j ledger_codec \<Rightarrow> string \<Rightarrow> 'j ledger_entry \<Rightarrow> string" where
  "sign_entry c key e = lc_hmac c key (signature_bytes c e)"

definition signature_ok :: "'j ledger_codec \<Rightarrow> string \<Rightarrow> 'j ledger_entry \<Rightarrow> bool" where
  "signature_ok c key e =
     (case map_of (le_evidence e) SIG_FIELD of
        None \<Rightarrow> False
      | Some v \<Rightarrow> lc_sig_of c v = Some (sign_entry c key e))"

definition before_append :: "'j ledger_codec \<Rightarrow> string \<Rightarrow> 'j ledger_entry \<Rightarrow> 'j ledger_entry" where
  "before_append c key e =
     (let bare = unsigned e in bare\<lparr>le_evidence := le_evidence bare @ [(SIG_FIELD, lc_sig_json c (sign_entry c key bare))]\<rparr>)"

text \<open>Unsigned entries are accepted until the first one with a signature field.\<close>

fun check_signatures :: "'j ledger_codec \<Rightarrow> string option \<Rightarrow> bool \<Rightarrow> 'j ledger_entry list \<Rightarrow> ledger_error option" where
  "check_signatures c key seen [] = None"
| "check_signatures c key seen (e # es) =
     (if \<not> seen \<and> map_of (le_evidence e) SIG_FIELD = None then check_signatures c key False es
      else case key of
             None \<Rightarrow> Some NoSignatureKey
           | Some k \<Rightarrow> if \<not> signature_ok c k e then Some BadSignature else check_signatures c key True es)"

subsection \<open>The sidecar\<close>

definition sidecar_matches :: "'j ledger_codec \<Rightarrow> string \<Rightarrow> tip_sidecar \<Rightarrow> bool" where
  "sidecar_matches c file tip \<longleftrightarrow>
     ts_prefix_bytes tip \<le> length file \<and> lc_sha256 c (take (ts_prefix_bytes tip) file) = ts_prefix_sha256 tip"

definition write_sidecar :: "'j ledger_codec \<Rightarrow> string \<Rightarrow> nat \<Rightarrow> string \<Rightarrow> tip_sidecar" where
  "write_sidecar c file n tip =
     \<lparr>ts_entries = n, ts_next_seq = n, ts_tip_hash = tip, ts_prefix_bytes = length file,
      ts_prefix_sha256 = lc_sha256 c file\<rparr>"

subsection \<open>Operations\<close>

definition scan_tip :: "'j ledger_codec \<Rightarrow> string \<Rightarrow> nat \<Rightarrow> (ledger_error, nat \<times> string) result" where
  "scan_tip c file complete_len =
     (case entries_from_bytes c (take complete_len file) of
        Inl e \<Rightarrow> Inl e
      | Inr es \<Rightarrow> Inr (length es, tip_of GENESIS_HASH es))"

definition tip_for_append :: "'j ledger_codec \<Rightarrow> nat \<Rightarrow> ledger_obj \<Rightarrow> (ledger_error, nat \<times> string) result" where
  "tip_for_append c w s =
     (case read_tail c w (lg_file s) of
        Inl e \<Rightarrow> Inl e
      | Inr (lst, complete_len) \<Rightarrow>
          if complete_len < length (lg_file s) then Inl TornTail
          else
            (let observed = (case lst of None \<Rightarrow> (0, GENESIS_HASH) | Some e \<Rightarrow> (le_seq e + 1, le_entry_hash e))
             in case lg_tip s of
                  Some t \<Rightarrow> if t \<noteq> observed then scan_tip c (lg_file s) complete_len else Inr observed
                | None \<Rightarrow>
                    (case lg_sidecar s of
                       None \<Rightarrow> scan_tip c (lg_file s) complete_len
                     | Some side \<Rightarrow>
                         if sidecar_matches c (lg_file s) side \<and> (ts_next_seq side, ts_tip_hash side) = observed
                         then Inr observed else scan_tip c (lg_file s) complete_len)))"

text \<open>\<open>_append_locked\<close>; the hook is the signing key, when one is configured.\<close>

definition append_locked ::
    "'j ledger_codec \<Rightarrow> nat \<Rightarrow> string option \<Rightarrow> ledger_obj \<Rightarrow> string \<Rightarrow> ledger_action \<Rightarrow> string \<Rightarrow> (string \<times> 'j) list \<Rightarrow> instant \<Rightarrow>
     (ledger_error, 'j ledger_entry \<times> ledger_obj) result" where
  "append_locked c w hook s actor action target evidence time =
     (case tip_for_append c w s of
        Inl e \<Rightarrow> Inl e
      | Inr (k, prev_hash) \<Rightarrow>
          (let draft0 = \<lparr>le_seq = k, le_prev_hash = prev_hash, le_entry_hash = ''pending'', le_actor = actor,
                         le_action = action, le_target = target, le_evidence = evidence, le_at = time\<rparr>;
               draft = (case hook of None \<Rightarrow> draft0 | Some key \<Rightarrow> before_append c key draft0);
               entry = draft\<lparr>le_entry_hash := compute_entry_hash c draft\<rparr>;
               file = lg_file s @ lc_dump c entry @ [LF]
           in Inr (entry, \<lparr>lg_file = file, lg_tip = Some (k + 1, le_entry_hash entry),
                           lg_sidecar = Some (write_sidecar c file (k + 1) (le_entry_hash entry))\<rparr>)))"

definition append_fenced ::
    "'j ledger_codec \<Rightarrow> nat \<Rightarrow> string option \<Rightarrow> lease_view \<Rightarrow> token option \<Rightarrow> ledger_obj \<Rightarrow> string \<Rightarrow> ledger_action \<Rightarrow> string \<Rightarrow>
     (string \<times> 'j) list \<Rightarrow> instant \<Rightarrow> (ledger_error, 'j ledger_entry \<times> ledger_obj) result" where
  "append_fenced c w hook view tok s actor action target evidence time =
     (if \<not> is_ok (require_lease_token view tok True) then Inl LedgerLeaseLost
      else append_locked c w hook s actor action target evidence time)"

definition ledger_entries :: "'j ledger_codec \<Rightarrow> nat \<Rightarrow> ledger_obj \<Rightarrow> (ledger_error, 'j ledger_entry list) result" where
  "ledger_entries c w s =
     (case read_tail c w (lg_file s) of
        Inl e \<Rightarrow> Inl e
      | Inr (lst, complete_len) \<Rightarrow>
          if complete_len < length (lg_file s) then Inl TornTail else entries_from_bytes c (lg_file s))"

record verify_report =
  vr_entries :: nat
  vr_tip_hash :: string

definition verify_full ::
    "'j ledger_codec \<Rightarrow> string option \<Rightarrow> bool \<Rightarrow> ledger_obj \<Rightarrow> nat \<Rightarrow> (ledger_error, verify_report \<times> ledger_obj) result" where
  "verify_full c key check_sig s complete_len =
     (case entries_from_bytes c (take complete_len (lg_file s)) of
        Inl e \<Rightarrow> Inl e
      | Inr es \<Rightarrow>
          (case verify_chain c 0 GENESIS_HASH es of
             Some e \<Rightarrow> Inl e
           | None \<Rightarrow>
               (case (if check_sig then check_signatures c key False es else None) of
                  Some e \<Rightarrow> Inl e
                | None \<Rightarrow>
                    (let tip = tip_of GENESIS_HASH es
                     in Inr (\<lparr>vr_entries = length es, vr_tip_hash = tip\<rparr>,
                          s\<lparr>lg_tip := Some (length es, tip),
                            lg_sidecar := Some (write_sidecar c (lg_file s) (length es) tip)\<rparr>)))))"

definition verify_suffix ::
    "'j ledger_codec \<Rightarrow> ledger_obj \<Rightarrow> nat \<Rightarrow> tip_sidecar \<Rightarrow> (ledger_error, verify_report \<times> ledger_obj) result" where
  "verify_suffix c s complete_len side =
     (case entries_from_bytes c (drop (ts_prefix_bytes side) (take complete_len (lg_file s))) of
        Inl e \<Rightarrow> Inl e
      | Inr es \<Rightarrow>
          (case verify_chain c (ts_entries side) (ts_tip_hash side) es of
             Some e \<Rightarrow> Inl e
           | None \<Rightarrow>
               (let tip = tip_of (ts_tip_hash side) es; n = ts_entries side + length es
                in Inr (\<lparr>vr_entries = n, vr_tip_hash = tip\<rparr>,
                     s\<lparr>lg_tip := Some (n, tip),
                       lg_sidecar := (if es = [] then lg_sidecar s else Some (write_sidecar c (lg_file s) n tip))\<rparr>))))"

definition verify ::
    "'j ledger_codec \<Rightarrow> nat \<Rightarrow> string option \<Rightarrow> bool \<Rightarrow> bool \<Rightarrow> ledger_obj \<Rightarrow> (ledger_error, verify_report \<times> ledger_obj) result" where
  "verify c w key full check_sig s =
     (case read_tail c w (lg_file s) of
        Inl e \<Rightarrow> Inl e
      | Inr (lst, complete_len) \<Rightarrow>
          if complete_len < length (lg_file s) then Inl TornTail
          else case (if full \<or> check_sig then None else lg_sidecar s) of
                 None \<Rightarrow> verify_full c key check_sig s complete_len
               | Some side \<Rightarrow>
                   if sidecar_matches c (lg_file s) side \<and> ts_prefix_bytes side \<le> complete_len
                   then verify_suffix c s complete_len side
                   else verify_full c key check_sig s complete_len)"

datatype repair_status = DryRun | Repaired | AlreadyClean

record repair_report =
  rp_status :: repair_status
  rp_dropped_bytes :: nat
  rp_prefix_entries :: nat

text \<open>\<open>repair_locked\<close>; the third component is what goes to quarantine.\<close>

definition repair_torn_tail ::
    "'j ledger_codec \<Rightarrow> nat \<Rightarrow> string option \<Rightarrow> ledger_obj \<Rightarrow> string \<Rightarrow> string \<Rightarrow> (string \<times> 'j) list \<Rightarrow> instant \<Rightarrow> bool \<Rightarrow>
     (ledger_error, repair_report \<times> ledger_obj \<times> string option) result" where
  "repair_torn_tail c w hook s actor target evidence time dry_run =
     (case read_tail c w (lg_file s) of
        Inl e \<Rightarrow> Inl e
      | Inr (lst, complete_len) \<Rightarrow>
          if complete_len < length (lg_file s) then
            (case entries_from_bytes c (take complete_len (lg_file s)) of
               Inl e \<Rightarrow> Inl NotATornTail
             | Inr es \<Rightarrow>
                 if verify_chain c 0 GENESIS_HASH es \<noteq> None then Inl NotATornTail
                 else
                   (let dropped = length (lg_file s) - complete_len;
                        report = (\<lambda>st. \<lparr>rp_status = st, rp_dropped_bytes = dropped, rp_prefix_entries = length es\<rparr>);
                        s1 = s\<lparr>lg_file := take complete_len (lg_file s), lg_tip := Some (length es, tip_of GENESIS_HASH es)\<rparr>
                    in if dry_run then Inr (report DryRun, s, None)
                       else case append_locked c w hook s1 actor LLedgerRepaired target evidence time of
                              Inl e \<Rightarrow> Inl e
                            | Inr (e, s2) \<Rightarrow> Inr (report Repaired, s2, Some (drop complete_len (lg_file s)))))
          else
            (case verify c w None True False s of
               Inl e \<Rightarrow> Inl NotATornTail
             | Inr (r, s1) \<Rightarrow> Inr (\<lparr>rp_status = AlreadyClean, rp_dropped_bytes = 0, rp_prefix_entries = 0\<rparr>, s1, None)))"

subsection \<open>What is used of the codec\<close>

text \<open>Serialised entries are one line that parses back (JSON escapes control characters), and the canonical
  bytes do not cover the hash itself.\<close>

definition codec_ok :: "'j ledger_codec \<Rightarrow> bool" where
  "codec_ok c \<longleftrightarrow>
     (\<forall>e. lc_parse c (lc_dump c e) = Some e) \<and> (\<forall>e. LF \<notin> set (lc_dump c e) \<and> CR \<notin> set (lc_dump c e)) \<and>
     (\<forall>e. \<not> blank (lc_dump c e)) \<and> (\<forall>e h. lc_canonical c (e\<lparr>le_entry_hash := h\<rparr>) = lc_canonical c e) \<and>
     (\<forall>x. lc_sig_of c (lc_sig_json c x) = Some x)"


text \<open>The file of a list of entries.\<close>

definition file_of :: "'j ledger_codec \<Rightarrow> 'j ledger_entry list \<Rightarrow> string" where
  "file_of c es = concat (map (\<lambda>e. lc_dump c e @ [LF]) es)"

lemma file_of_simps [simp]:
  "file_of c [] = []" "file_of c (es @ es') = file_of c es @ file_of c es'" "file_of c [e] = lc_dump c e @ [LF]"
  "file_of c (e # es) = lc_dump c e @ LF # file_of c es"
  by (simp_all add: file_of_def)

lemma codec_okD:
  assumes "codec_ok c"
  shows "lc_parse c (lc_dump c e) = Some e" "LF \<notin> set (lc_dump c e)" "CR \<notin> set (lc_dump c e)" "\<not> blank (lc_dump c e)"
    "lc_canonical c (e\<lparr>le_entry_hash := h\<rparr>) = lc_canonical c e" "lc_sig_of c (lc_sig_json c x) = Some x"
  using assms by (auto simp: codec_ok_def)

lemma split_lines_plain:
  "LF \<notin> set l \<Longrightarrow> CR \<notin> set l \<Longrightarrow> split_lines acc (l @ LF # rest) = (acc @ l) # split_lines [] rest"
  by (induction l arbitrary: acc) auto

lemma splitlines_file:
  assumes "codec_ok c"
  shows "splitlines (file_of c es @ rest) = map (lc_dump c) es @ splitlines rest"
  by (induction es) (simp_all add: splitlines_def split_lines_plain codec_okD[OF assms])

lemma parse_lines_append:
  "parse_lines c (ls @ ls') =
     (case parse_lines c ls of Inl e \<Rightarrow> Inl e
      | Inr es \<Rightarrow> (case parse_lines c ls' of Inl e \<Rightarrow> Inl e | Inr es' \<Rightarrow> Inr (es @ es')))"
  by (induction ls) (auto split: option.splits sum.splits)

lemma parse_dumped: "codec_ok c \<Longrightarrow> parse_lines c (map (lc_dump c) es) = Inr es"
  by (induction es) (simp_all add: codec_okD)

lemma entries_file_append:
  assumes "codec_ok c"
  shows "entries_from_bytes c (file_of c es @ rest) =
    (case entries_from_bytes c rest of Inl e \<Rightarrow> Inl e | Inr es' \<Rightarrow> Inr (es @ es'))"
  by (simp add: entries_from_bytes_def splitlines_file[OF assms] parse_lines_append parse_dumped[OF assms])

lemma entries_file:
  assumes "codec_ok c"
  shows "entries_from_bytes c (file_of c es) = Inr es"
  using entries_file_append[OF assms, of es "[]"] by (simp add: entries_from_bytes_def splitlines_def)

subsection \<open>The last newline\<close>

lemma rfind_lf_None: "rfind_lf s = None \<longleftrightarrow> LF \<notin> set s"
  by (induction s) (auto split: option.splits)

lemma rfind_lf_append: "LF \<notin> set t \<Longrightarrow> rfind_lf (s @ LF # t) = Some (length s)"
  using rfind_lf_None[of t] by (induction s) (auto split: option.splits)

lemma rfind_lf_SomeD:
  assumes "rfind_lf s = Some i"
  obtains a b where "s = a @ LF # b" "LF \<notin> set b" "length a = i"
proof -
  have "LF \<in> set s" using rfind_lf_None[of s] assms by auto
  then obtain a b where s: "s = a @ LF # b" "LF \<notin> set b" by (meson split_list_last)
  then show thesis using that assms rfind_lf_append[of b a] by simp
qed

text \<open>Whatever the window, what is read is an end of the file with two newlines, or all of it.\<close>

lemma read_window_suffix:
  assumes "drop stop f = data" "stop \<le> length f" "0 < w"
  shows "\<exists>k \<le> stop. read_window w f stop data = drop k f \<and> (k = 0 \<or> 2 \<le> count_list (drop k f) LF)"
  using assms
proof (induction w f stop data rule: read_window.induct)
  case (1 w f stop data)
  define start where "start = stop - w"
  have d: "take (stop - start) (drop start f) @ data = drop start f"
    using 1(2,3) unfolding start_def by (metis append_take_drop_id diff_le_self drop_drop le_add_diff_inverse2)
  have start_le: "start \<le> stop" by (simp add: start_def)
  have unf: "read_window w f stop data =
      (if 2 \<le> count_list (drop start f) LF \<or> start = 0 \<or> w = 0 then drop start f
       else read_window (w * 2) f start (drop start f))"
    by (subst read_window.simps) (simp only: Let_def start_def[symmetric] d)
  show ?case
  proof (cases "2 \<le> count_list (drop start f) LF \<or> start = 0")
    case True
    then show ?thesis unfolding unf using start_le by (intro exI[of _ start]) auto
  next
    case False
    then have "\<exists>k \<le> start. read_window (w * 2) f start (drop start f) = drop k f \<and>
        (k = 0 \<or> 2 \<le> count_list (drop k f) LF)"
      using 1(1)[OF start_def d[symmetric]] 1(3,4) start_le by auto
    then show ?thesis unfolding unf using False 1(4) start_le by (auto intro: order_trans)
  qed
qed

lemma read_window_last_line:
  assumes "LF \<notin> set line" "LF \<notin> set torn" "0 < w" "A = [] \<or> (\<exists>B. A = B @ [LF])"
  obtains D where "read_window w (A @ line @ LF # torn) (length (A @ line @ LF # torn)) [] = D @ line @ LF # torn"
    "D = [] \<or> (\<exists>B. D = B @ [LF])" "length D \<le> length A"
proof -
  let ?f = "A @ line @ LF # torn"
  obtain k where k: "read_window w ?f (length ?f) [] = drop k ?f" "k = 0 \<or> 2 \<le> count_list (drop k ?f) LF"
    using read_window_suffix[of "length ?f" ?f "[]" w] assms(3) by auto
  have "k < length A \<or> k = 0"
  proof (rule ccontr)
    assume "\<not> (k < length A \<or> k = 0)"
    then have two: "2 \<le> count_list (drop k ?f) LF" and ge: "length A \<le> k" using k(2) by auto
    have "count_list (drop j (line @ LF # torn)) LF \<le> 1" for j
    proof -
      have "count_list (drop j (line @ LF # torn)) LF \<le> count_list (take j (line @ LF # torn)) LF + count_list (drop j (line @ LF # torn)) LF" by simp
      also have "\<dots> = count_list (line @ LF # torn) LF" by (metis append_take_drop_id count_list_append)
      also have "\<dots> = 1" using assms(1,2) by (simp add: count_list_0_iff)
      finally show ?thesis .
    qed
    moreover have "drop k ?f = drop (k - length A) (line @ LF # torn)" using ge by simp
    ultimately show False using two by (metis Suc_1 not_less_eq_eq)
  qed
  then have "drop k ?f = drop k A @ line @ LF # torn" and "drop k A = [] \<or> (\<exists>B. drop k A = B @ [LF])"
    using assms(4) by auto
  then show thesis using that k(1) by (metis length_drop diff_le_self)
qed

lemma file_ends_lf: "file_of c es = [] \<or> (\<exists>B. file_of c es = B @ [LF])"
  by (cases es rule: rev_cases) auto

lemma read_tail_file:
  assumes "codec_ok c" "LF \<notin> set torn" "0 < w"
  shows "read_tail c w (file_of c es @ torn) = Inr (if es = [] then None else Some (last es), length (file_of c es))"
proof (cases es rule: rev_cases)
  case Nil
  have "LF \<notin> set (read_window w torn (length torn) [])"
    using read_window_suffix[of "length torn" torn "[]" w] assms(2,3) by (auto dest: in_set_dropD)
  then show ?thesis using Nil by (simp add: read_tail_def rfind_lf_None[THEN iffD2])
next
  case (snoc es' e)
  let ?A = "file_of c es'" and ?line = "lc_dump c e"
  note line = codec_okD(1-4)[OF assms(1), where e = e]
  obtain D where D: "read_window w (?A @ ?line @ LF # torn) (length (?A @ ?line @ LF # torn)) [] = D @ ?line @ LF # torn"
    "D = [] \<or> (\<exists>B. D = B @ [LF])" "length D \<le> length ?A"
    using read_window_last_line[OF line(2) assms(2,3) file_ends_lf] by blast
  define f where "f = ?A @ ?line @ LF # torn"
  have f: "f \<noteq> []" "length f = length ?A + length ?line + 1 + length torn"
    and w: "read_window w f (length f) [] = D @ ?line @ LF # torn"
    using D(1) by (simp_all add: f_def)
  have last: "rfind_lf (D @ ?line @ LF # torn) = Some (length D + length ?line)"
    using rfind_lf_append[OF assms(2), of "D @ ?line"] by simp
  have tk: "take (length D + length ?line) (D @ ?line @ LF # torn) = D @ ?line" by simp
  have prev: "(case rfind_lf (D @ ?line) of None \<Rightarrow> D @ ?line | Some p \<Rightarrow> drop (p + 1) (D @ ?line)) = ?line"
    using D(2) line(2) rfind_lf_append[OF line(2)] rfind_lf_None[of ?line] by auto
  have "read_tail c w f = Inr (Some e, length f - length (D @ ?line @ LF # torn) + (length D + length ?line) + 1)"
    unfolding read_tail_def Let_def w last option.case tk prev using f(1) line(1,4) by simp
  also have "length f - length (D @ ?line @ LF # torn) + (length D + length ?line) + 1 = length (file_of c es)"
    using D(3) f(2) by (simp add: snoc)
  finally show ?thesis by (simp add: snoc f_def)
qed

subsection \<open>Chains\<close>

lemma tip_of_simps [simp]: "tip_of p [] = p" "tip_of p (e # es) = tip_of (le_entry_hash e) es" "tip_of p (es @ [e]) = le_entry_hash e"
  by (simp_all add: tip_of_def)

lemma verify_chain_append:
  "verify_chain c k p (es @ es') =
     (case verify_chain c k p es of Some e \<Rightarrow> Some e | None \<Rightarrow> verify_chain c (k + length es) (tip_of p es) es')"
  by (induction es arbitrary: k p) (auto split: option.splits)

lemma verify_chain_last_seq:
  "verify_chain c k p es = None \<Longrightarrow> es \<noteq> [] \<Longrightarrow> le_seq (last es) + 1 = k + length es"
proof (induction es arbitrary: k p)
  case (Cons e es)
  then have "le_seq e = k" "verify_chain c (k + 1) (le_entry_hash e) es = None" by (auto split: if_splits)
  then show ?case using Cons.IH[of "k + 1" "le_entry_hash e"] by (cases "es = []") simp_all
qed simp




subsection \<open>Operations on a good ledger\<close>

definition good_ledger :: "'j ledger_codec \<Rightarrow> ledger_obj \<Rightarrow> 'j ledger_entry list \<Rightarrow> bool" where
  "good_ledger c s es \<longleftrightarrow> lg_file s = file_of c es \<and> verify_chain c 0 GENESIS_HASH es = None"

lemma read_tail_good:
  assumes "codec_ok c" "0 < w"
  shows "read_tail c w (file_of c es) = Inr (if es = [] then None else Some (last es), length (file_of c es))"
  using read_tail_file[OF assms(1) _ assms(2), of "[]" es] by simp

lemma tip_for_append_good:
  assumes "codec_ok c" "0 < w" "good_ledger c s es"
  shows "tip_for_append c w s = Inr (length es, tip_of GENESIS_HASH es)"
proof -
  have f: "lg_file s = file_of c es" and v: "verify_chain c 0 GENESIS_HASH es = None"
    using assms(3) by (simp_all add: good_ledger_def)
  have obs: "(case if es = [] then None else Some (last es) of None \<Rightarrow> (0, GENESIS_HASH)
      | Some e \<Rightarrow> (le_seq e + 1, le_entry_hash e)) = (length es, tip_of GENESIS_HASH es)"
    using verify_chain_last_seq[OF v] by (auto simp: tip_of_def)
  have scan: "scan_tip c (file_of c es) (length (file_of c es)) = Inr (length es, tip_of GENESIS_HASH es)"
    by (simp add: scan_tip_def entries_file[OF assms(1)])
  show ?thesis
    unfolding tip_for_append_def f read_tail_good[OF assms(1,2)]
    by (simp only: sum.case prod.case Let_def obs scan) (auto split: option.splits)
qed

definition stamped ::
    "'j ledger_codec \<Rightarrow> string option \<Rightarrow> nat \<Rightarrow> string \<Rightarrow> string \<Rightarrow> ledger_action \<Rightarrow> string \<Rightarrow> (string \<times> 'j) list \<Rightarrow> instant \<Rightarrow>
     'j ledger_entry" where
  "stamped c hook k prev_hash actor action target evidence time =
     (let draft0 = \<lparr>le_seq = k, le_prev_hash = prev_hash, le_entry_hash = ''pending'', le_actor = actor,
                    le_action = action, le_target = target, le_evidence = evidence, le_at = time\<rparr>;
          draft = (case hook of None \<Rightarrow> draft0 | Some key \<Rightarrow> before_append c key draft0)
      in draft\<lparr>le_entry_hash := compute_entry_hash c draft\<rparr>)"

lemma unsigned_sel [simp]:
  "le_seq (unsigned e) = le_seq e" "le_prev_hash (unsigned e) = le_prev_hash e" "le_actor (unsigned e) = le_actor e"
  "le_action (unsigned e) = le_action e" "le_target (unsigned e) = le_target e" "le_at (unsigned e) = le_at e"
  "le_evidence (unsigned e) = filter (\<lambda>(k, v). k \<noteq> SIG_FIELD) (le_evidence e)"
  by (simp_all add: unsigned_def)

lemma stamped_sel [simp]:
  "le_seq (stamped c hook k prev a act t ev tm) = k" "le_prev_hash (stamped c hook k prev a act t ev tm) = prev"
  "le_actor (stamped c hook k prev a act t ev tm) = a" "le_action (stamped c hook k prev a act t ev tm) = act"
  "le_target (stamped c hook k prev a act t ev tm) = t" "le_at (stamped c hook k prev a act t ev tm) = tm"
  by (simp_all add: stamped_def Let_def before_append_def split: option.splits)

lemma stamped_evidence:
  "filter (\<lambda>(k, v). k \<noteq> SIG_FIELD) (le_evidence (stamped c hook k prev a act t ev tm)) = filter (\<lambda>(k, v). k \<noteq> SIG_FIELD) ev"
  by (simp add: stamped_def Let_def before_append_def split: option.splits)

lemma stamped_hash:
  "codec_ok c \<Longrightarrow> le_entry_hash (stamped c hook k prev a act t ev tm) = compute_entry_hash c (stamped c hook k prev a act t ev tm)"
  by (simp add: stamped_def Let_def compute_entry_hash_def codec_okD(5))

lemma stamped_chain:
  assumes "codec_ok c" "act = LCloseReceipt \<Longrightarrow> lc_receipt_ok c (filter (\<lambda>(k, v). k \<noteq> SIG_FIELD) ev)"
  shows "verify_chain c k prev [stamped c hook k prev a act t ev tm] = None"
  using assms(2) stamped_hash[OF assms(1), of hook k prev a act t ev tm]
  by (auto simp: stamped_evidence compute_entry_hash_def codec_okD(5)[OF assms(1)])

lemma append_locked_good:
  assumes "codec_ok c" "0 < w" "good_ledger c s es"
    and e_def: "e = stamped c hook (length es) (tip_of GENESIS_HASH es) actor action target evidence time"
  shows "append_locked c w hook s actor action target evidence time =
    Inr (e, \<lparr>lg_file = file_of c (es @ [e]), lg_tip = Some (length es + 1, le_entry_hash e),
             lg_sidecar = Some (write_sidecar c (file_of c (es @ [e])) (length es + 1) (le_entry_hash e))\<rparr>)"
  using assms(3) tip_for_append_good[OF assms(1-3)]
  by (simp add: append_locked_def good_ledger_def e_def stamped_def Let_def)

lemma verify_good:
  assumes "codec_ok c" "0 < w" "good_ledger c s es"
    and "check_sig \<Longrightarrow> check_signatures c key False es = None"
    and "\<And>side. \<not> full \<Longrightarrow> \<not> check_sig \<Longrightarrow> lg_sidecar s = Some side \<Longrightarrow> side = write_sidecar c (file_of c es) (length es) (tip_of GENESIS_HASH es)"
  shows "\<exists>s'. verify c w key full check_sig s = Inr (\<lparr>vr_entries = length es, vr_tip_hash = tip_of GENESIS_HASH es\<rparr>, s') \<and>
    lg_file s' = lg_file s"
proof -
  have f: "lg_file s = file_of c es" and v: "verify_chain c 0 GENESIS_HASH es = None"
    using assms(3) by (simp_all add: good_ledger_def)
  have full: "\<exists>s'. verify_full c key check_sig s (length (file_of c es)) =
      Inr (\<lparr>vr_entries = length es, vr_tip_hash = tip_of GENESIS_HASH es\<rparr>, s') \<and> lg_file s' = lg_file s"
    using assms(4) by (simp add: verify_full_def f entries_file[OF assms(1)] v Let_def)
  have suffix: "\<exists>s'. verify_suffix c s (length (file_of c es)) (write_sidecar c (file_of c es) (length es) (tip_of GENESIS_HASH es)) =
      Inr (\<lparr>vr_entries = length es, vr_tip_hash = tip_of GENESIS_HASH es\<rparr>, s') \<and> lg_file s' = lg_file s"
    by (simp add: verify_suffix_def f write_sidecar_def entries_from_bytes_def splitlines_def tip_of_def Let_def)
  show ?thesis
    unfolding verify_def f read_tail_good[OF assms(1,2)]
    using full suffix assms(5) by (auto simp: f split: option.splits if_splits)
qed

lemma append_good:
  assumes "codec_ok c" "0 < w" "good_ledger c s es"
    and "action = LCloseReceipt \<Longrightarrow> lc_receipt_ok c (filter (\<lambda>(k, v). k \<noteq> SIG_FIELD) evidence)"
  obtains e s' where "append_locked c w hook s actor action target evidence time = Inr (e, s')"
    "e = stamped c hook (length es) (tip_of GENESIS_HASH es) actor action target evidence time"
    "good_ledger c s' (es @ [e])"
    "lg_sidecar s' = Some (write_sidecar c (file_of c (es @ [e])) (length (es @ [e])) (tip_of GENESIS_HASH (es @ [e])))"
proof -
  define e where "e = stamped c hook (length es) (tip_of GENESIS_HASH es) actor action target evidence time"
  note app = append_locked_good[OF assms(1-3) e_def]
  have "verify_chain c 0 GENESIS_HASH (es @ [e]) = None"
    using assms(3) stamped_chain[OF assms(1,4)] by (simp add: good_ledger_def verify_chain_append e_def)
  then show thesis
    by (intro that[OF app e_def]) (simp_all add: good_ledger_def tip_of_def)
qed

subsection \<open>Properties\<close>




text \<open>
  C16. A torn tail is refused and repaired without loss: when a crash leaves part of a line after a valid
  chain, append, reading and verification all refuse it; the repair moves the partial line to
  quarantine, keeps every complete entry and appends one that records the repair, and the ledger then
  verifies.\<close>

theorem torn_tail_repair:
  assumes "codec_ok c" "0 < w" "lg_file s = file_of c es @ torn" "LF \<notin> set torn" "torn \<noteq> []"
    and "verify_chain c 0 GENESIS_HASH es = None"
  shows "append_locked c w hook s a act t ev time = Inl TornTail \<and> ledger_entries c w s = Inl TornTail \<and>
         verify c w key full check_sig s = Inl TornTail \<and>
         (\<exists>e s1 s2. repair_torn_tail c w hook s actor target evidence time False =
              Inr (\<lparr>rp_status = Repaired, rp_dropped_bytes = length torn, rp_prefix_entries = length es\<rparr>, s1, Some torn) \<and>
            le_action e = LLedgerRepaired \<and> ledger_entries c w s1 = Inr (es @ [e]) \<and>
            verify c w key True False s1 = Inr (\<lparr>vr_entries = length es + 1, vr_tip_hash = le_entry_hash e\<rparr>, s2))"
proof -
  have tail: "read_tail c w (lg_file s) = Inr (if es = [] then None else Some (last es), length (file_of c es))"
    using read_tail_file[OF assms(1,4,2)] assms(3) by simp
  have torn: "length (file_of c es) < length (lg_file s)" using assms(3,5) by simp
  have refused: "append_locked c w hook s a act t ev time = Inl TornTail" "ledger_entries c w s = Inl TornTail"
    "verify c w key full check_sig s = Inl TornTail"
    using torn by (simp_all add: append_locked_def tip_for_append_def ledger_entries_def verify_def tail)
  define s0 where "s0 = s\<lparr>lg_file := file_of c es, lg_tip := Some (length es, tip_of GENESIS_HASH es)\<rparr>"
  have g: "good_ledger c s0 es" using assms(6) by (simp add: s0_def good_ledger_def)
  obtain e s1 where app: "append_locked c w hook s0 actor LLedgerRepaired target evidence time = Inr (e, s1)"
    and e: "e = stamped c hook (length es) (tip_of GENESIS_HASH es) actor LLedgerRepaired target evidence time"
    and g1: "good_ledger c s1 (es @ [e])"
    by (rule append_good[OF assms(1,2) g]) auto
  have parts: "take (length (file_of c es)) (lg_file s) = file_of c es" "drop (length (file_of c es)) (lg_file s) = torn"
    "length (lg_file s) - length (file_of c es) = length torn"
    using assms(3) by simp_all
  have rep: "repair_torn_tail c w hook s actor target evidence time False =
      Inr (\<lparr>rp_status = Repaired, rp_dropped_bytes = length torn, rp_prefix_entries = length es\<rparr>, s1, Some torn)"
    unfolding repair_torn_tail_def tail
    using torn app assms(6) parts by (simp add: entries_file[OF assms(1)] s0_def[symmetric] Let_def)
  obtain s2 where v: "verify c w key True False s1 =
      Inr (\<lparr>vr_entries = length (es @ [e]), vr_tip_hash = tip_of GENESIS_HASH (es @ [e])\<rparr>, s2)"
    using verify_good[OF assms(1,2) g1, of False key True] by auto
  have "lg_file s1 = file_of c (es @ [e])" using g1 by (simp add: good_ledger_def)
  then have "ledger_entries c w s1 = Inr (es @ [e])"
    using read_tail_good[OF assms(1,2), of "es @ [e]"] entries_file[OF assms(1), of "es @ [e]"]
    by (simp add: ledger_entries_def del: file_of_simps)
  with rep v e refused show ?thesis by (intro conjI exI[of _ e] exI[of _ s1] exI[of _ s2]) simp_all
qed

text \<open>A crash in the middle of writing a line leaves such a tail.\<close>

lemma partial_line_is_torn:
  "codec_ok c \<Longrightarrow> 0 < n \<Longrightarrow> n \<le> length (lc_dump c e) \<Longrightarrow>
     LF \<notin> set (take n (lc_dump c e @ [LF])) \<and> take n (lc_dump c e @ [LF]) \<noteq> []"
  using codec_okD(2)[of c e] by (auto dest: in_set_takeD)

lemma check_signatures_append:
  "check_signatures c key seen es = None \<Longrightarrow>
     check_signatures c key seen (es @ es') =
       check_signatures c key (seen \<or> (\<exists>e \<in> set es. map_of (le_evidence e) SIG_FIELD \<noteq> None)) es'"
  by (induction es arbitrary: seen) (auto split: if_splits option.splits)

lemma stamped_signature_ok:
  assumes "codec_ok c"
  shows "signature_ok c key (stamped c (Some key) k prev a act t ev tm)"
proof -
  define e0 where "e0 = unsigned \<lparr>le_seq = k, le_prev_hash = prev, le_entry_hash = ''pending'', le_actor = a,
      le_action = act, le_target = t, le_evidence = ev, le_at = tm\<rparr>"
  define e where "e = stamped c (Some key) k prev a act t ev tm"
  have ev0: "le_evidence e0 = filter (\<lambda>(k, v). k \<noteq> SIG_FIELD) ev" by (simp add: e0_def)
  obtain h where e: "e = e0\<lparr>le_evidence := filter (\<lambda>(k, v). k \<noteq> SIG_FIELD) ev @ [(SIG_FIELD, lc_sig_json c (sign_entry c key e0))], le_entry_hash := h\<rparr>"
    by (simp add: e_def stamped_def before_append_def e0_def[symmetric] Let_def)
  have ev: "map_of (le_evidence e0) SIG_FIELD = None" "filter (\<lambda>(k, v). k \<noteq> SIG_FIELD) (le_evidence e0) = le_evidence e0"
    by (auto simp: ev0 map_of_eq_None_iff)
  have "unsigned e = e0\<lparr>le_entry_hash := h\<rparr>" "unsigned e0 = e0"
    using ev(2) ev0 by (simp_all add: e unsigned_def)
  then have "sign_entry c key e = sign_entry c key e0"
    by (simp add: sign_entry_def signature_bytes_def codec_okD(5)[OF assms])
  moreover have "map_of (le_evidence e) SIG_FIELD = Some (lc_sig_json c (sign_entry c key e0))"
    using ev(1) unfolding ev0 by (simp add: e map_add_def)
  ultimately show ?thesis by (simp add: signature_ok_def e_def[symmetric] codec_okD(6)[OF assms])
qed

text \<open>
  Signing survives verification and cannot be dropped later: on a valid chain whose signatures
  verify, an append with the signing key keeps verification with signatures successful, and once an
  entry carries a signature field, a later entry without a valid signature is refused.\<close>

theorem signed_append_verifies:
  assumes "codec_ok c" "0 < w" "lg_file s = file_of c es" "verify_chain c 0 GENESIS_HASH es = None"
    and "check_signatures c (Some key) False es = None" "action \<noteq> LCloseReceipt"
  shows "\<exists>e s' s''. append_locked c w (Some key) s actor action target evidence time = Inr (e, s') \<and>
           verify c w (Some key) True True s' = Inr (\<lparr>vr_entries = length es + 1, vr_tip_hash = le_entry_hash e\<rparr>, s'') \<and>
           (\<forall>later. \<not> signature_ok c key later \<longrightarrow>
              check_signatures c (Some key) False (es @ [e, later]) = Some BadSignature)"
proof -
  have g: "good_ledger c s es" using assms(3,4) by (simp add: good_ledger_def)
  obtain e s' where a: "append_locked c w (Some key) s actor action target evidence time = Inr (e, s')"
    and e: "e = stamped c (Some key) (length es) (tip_of GENESIS_HASH es) actor action target evidence time"
    and g': "good_ledger c s' (es @ [e])"
    by (rule append_good[OF assms(1,2) g]) (use assms(6) in auto)
  have ok: "signature_ok c key e" using stamped_signature_ok[OF assms(1)] by (simp add: e)
  then have sig: "map_of (le_evidence e) SIG_FIELD \<noteq> None" by (auto simp: signature_ok_def split: option.splits)
  have "check_signatures c (Some key) False (es @ [e]) = None"
    using check_signatures_append[OF assms(5), of "[e]"] ok sig by auto
  then obtain s'' where "verify c w (Some key) True True s' =
      Inr (\<lparr>vr_entries = length (es @ [e]), vr_tip_hash = tip_of GENESIS_HASH (es @ [e])\<rparr>, s'')"
    using verify_good[OF assms(1,2) g', of True "Some key" True] by auto
  moreover have "check_signatures c (Some key) False (es @ [e, later]) = Some BadSignature" if "\<not> signature_ok c key later" for later
    using check_signatures_append[OF assms(5), of "[e, later]"] ok sig that by auto
  ultimately show ?thesis using a by (intro exI[of _ e] exI[of _ s'] exI[of _ s'']) simp
qed

subsection \<open>A codec\<close>

text \<open>Entries numbered by an injection and written in unary: one line, readable back, with the identity for
  a digest.\<close>

instance ledger_action :: countable
  by countable_datatype

definition entry_number :: "string ledger_entry \<Rightarrow> nat" where
  "entry_number e =
     to_nat (le_seq e, le_prev_hash e, le_entry_hash e, le_actor e, le_action e, le_target e, le_evidence e, le_at e)"

definition entry_numbered :: "nat \<Rightarrow> string ledger_entry" where
  "entry_numbered n =
     (case from_nat n of (k, p, h, a, act, t, ev, tm) \<Rightarrow>
        \<lparr>le_seq = k, le_prev_hash = p, le_entry_hash = h, le_actor = a, le_action = act, le_target = t,
         le_evidence = ev, le_at = tm\<rparr>)"

definition unary_codec :: "string ledger_codec" where
  "unary_codec =
     \<lparr>lc_dump = (\<lambda>e. replicate (entry_number e + 1) (CHR ''x'')),
      lc_parse = (\<lambda>l. if l = [] then None else Some (entry_numbered (length l - 1))),
      lc_canonical = (\<lambda>e. replicate (entry_number (e\<lparr>le_entry_hash := []\<rparr>)) (CHR ''x'')),
      lc_sha256 = (\<lambda>x. x), lc_receipt_ok = (\<lambda>ev. True), lc_hmac = (\<lambda>k m. k @ m), lc_sig_json = (\<lambda>x. x),
      lc_sig_of = Some\<rparr>"

lemma entry_numbered_number: "entry_numbered (entry_number e) = e"
  by (simp add: entry_numbered_def entry_number_def)

lemma unary_codec_ok: "codec_ok unary_codec"
  by (simp add: codec_ok_def unary_codec_def entry_numbered_number blank_def byte_space_def)


definition empty_ledger :: ledger_obj where
  "empty_ledger = \<lparr>lg_file = [], lg_tip = None, lg_sidecar = None\<rparr>"

definition first_entry :: "string ledger_entry" where
  "first_entry = stamped unary_codec None 0 GENESIS_HASH ''worker'' LWrite ''skill'' [] 7"

lemma first_entry_chain: "verify_chain unary_codec 0 GENESIS_HASH [first_entry] = None"
  unfolding first_entry_def by (rule stamped_chain[OF unary_codec_ok]) simp

definition torn_ledger :: ledger_obj where
  "torn_ledger = \<lparr>lg_file = file_of unary_codec [first_entry] @ ''par'', lg_tip = None, lg_sidecar = None\<rparr>"






theorem torn_tail_repair_witness:
  "\<exists>r s1. repair_torn_tail unary_codec window_bytes None torn_ledger ''op'' ''ledger'' [] 9 False = Inr (r, s1, Some ''par'') \<and>
     rp_status r = Repaired"
proof -
  have f: "lg_file torn_ledger = file_of unary_codec [first_entry] @ ''par''" "0 < window_bytes"
    by (simp_all add: torn_ledger_def window_bytes_def)
  obtain s1 where "repair_torn_tail unary_codec window_bytes None torn_ledger ''op'' ''ledger'' [] 9 False =
      Inr (\<lparr>rp_status = Repaired, rp_dropped_bytes = length ''par'', rp_prefix_entries = length [first_entry]\<rparr>, s1, Some ''par'')"
    using torn_tail_repair[OF unary_codec_ok f(2,1) _ _ first_entry_chain, where hook = None and actor = "''op''"
      and target = "''ledger''" and evidence = "[]" and time = 9] by (force simp del: file_of_simps)
  then show ?thesis by (intro exI conjI) (assumption, simp)
qed

theorem signed_append_verifies_witness:
  "\<exists>e s' s''. append_locked unary_codec window_bytes (Some ''key'') empty_ledger ''worker'' LWrite ''skill'' [] 7 = Inr (e, s') \<and>
     verify unary_codec window_bytes (Some ''key'') True True s' = Inr (\<lparr>vr_entries = 1, vr_tip_hash = le_entry_hash e\<rparr>, s'')"
proof -
  have "lg_file empty_ledger = file_of unary_codec []" "0 < window_bytes" by (simp_all add: empty_ledger_def window_bytes_def)
  from signed_append_verifies[OF unary_codec_ok this(2,1), where action = LWrite and key = "''key''" and actor = "''worker''"
      and target = "''skill''" and evidence = "[]" and time = 7]
  show ?thesis by auto
qed

end
