(* ===== verification/Run_Queue.thy ===== *)
theory Run_Queue
  imports Recertia_Prelude
begin

section \<open>The run queue\<close>

text \<open>
  \<open>workers/queue.py\<close>: enqueue, the deficit-round-robin claim, heartbeats, the transitions of a claim,
  requeueing, cancellation, maintenance and the reconciliation of orphaned claims. The tables are the
  list of queue rows in insertion order and a map per tenant or worker; time stamps are microseconds in the order of
  their text, delays too. Among rows of equal deficit and age the claim takes the first inserted. Whether a process is
  alive is an argument. Every operation is one transaction.
\<close>

datatype queue_kind = KRun | KEval | KJob
datatype queue_status = QQueued | QClaimed | QRunning | QSucceeded | QFailed | QCancelled | QDead
datatype maintenance_mode = MOpen | MQuiescing | MFrozen

type_synonym queue_key = "tenant \<times> run_id \<times> queue_kind"

record queue_row =
  qr_key :: queue_key
  qr_status :: queue_status
  qr_priority :: int
  qr_enqueued_at :: instant
  qr_not_before :: instant
  qr_claimed_by :: "string option"
  qr_claim_token :: int
  qr_heartbeat_at :: "instant option"
  qr_attempt :: int
  qr_max_attempts :: int
  qr_payload :: string
  qr_error_code :: "string option"
  qr_finished_at :: "instant option"
  qr_cancel_requested :: bool

record tenant_sched =
  sd_deficit :: int
  sd_weight :: int
  sd_last_claim_at :: "instant option"

record tenant_limits =
  tl_max_in_flight :: int
  tl_max_queue_depth :: int

record worker_row =
  wk_pid :: int
  wk_heartbeat_at :: instant
  wk_capacity :: int
  wk_inflight :: nat

record queue_db =
  qd_rows :: "queue_row list"
  qd_sched :: "tenant \<Rightarrow> tenant_sched option"
  qd_limits :: "tenant \<Rightarrow> tenant_limits option"
  qd_workers :: "string \<Rightarrow> worker_row option"
  qd_mode :: "maintenance_mode option"

record queue_settings =
  qs_deficit_cap :: int
  qs_max_attempts :: int
  qs_max_in_flight :: int
  qs_max_queue_depth :: int

record queue_item =
  qi_key :: queue_key
  qi_payload :: string
  qi_priority :: int
  qi_max_attempts :: int
  qi_enqueued_at :: "instant option"
  qi_not_before :: "instant option"

record claim_rec =
  cm_key :: queue_key
  cm_token :: int
  cm_attempt :: int
  cm_payload :: string

datatype queue_error = QuotaExceeded | AlreadyQueued | StaleClaim

definition CLAIM_COST :: int where
  "CLAIM_COST = 1"

definition q_terminal :: "queue_status \<Rightarrow> bool" where
  "q_terminal st \<longleftrightarrow> st \<in> {QSucceeded, QFailed, QCancelled, QDead}"

definition q_active :: "queue_status \<Rightarrow> bool" where
  "q_active st \<longleftrightarrow> st \<in> {QClaimed, QRunning}"

abbreviation row_tenant :: "queue_row \<Rightarrow> tenant" where
  "row_tenant r \<equiv> fst (qr_key r)"

subsection \<open>Enqueue\<close>

definition ensure_tenant :: "queue_settings \<Rightarrow> tenant \<Rightarrow> queue_db \<Rightarrow> queue_db" where
  "ensure_tenant cfg t db =
     db\<lparr>qd_sched := (if qd_sched db t = None
           then (qd_sched db)(t \<mapsto> \<lparr>sd_deficit = 0, sd_weight = 1, sd_last_claim_at = None\<rparr>) else qd_sched db),
        qd_limits := (if qd_limits db t = None
           then (qd_limits db)(t \<mapsto> \<lparr>tl_max_in_flight = qs_max_in_flight cfg, tl_max_queue_depth = qs_max_queue_depth cfg\<rparr>)
           else qd_limits db)\<rparr>"

definition depth :: "queue_db \<Rightarrow> tenant \<Rightarrow> nat" where
  "depth db t = length (filter (\<lambda>r. row_tenant r = t \<and> qr_status r = QQueued) (qd_rows db))"

definition queue_row_at :: "queue_db \<Rightarrow> queue_key \<Rightarrow> queue_row option" where
  "queue_row_at db k = List.find (\<lambda>r. qr_key r = k) (qd_rows db)"

text \<open>\<open>UPDATE run_queue SET ... WHERE\<close>.\<close>

definition update_rows :: "(queue_row \<Rightarrow> bool) \<Rightarrow> (queue_row \<Rightarrow> queue_row) \<Rightarrow> queue_db \<Rightarrow> queue_db" where
  "update_rows P f db = db\<lparr>qd_rows := map (\<lambda>r. if P r then f r else r) (qd_rows db)\<rparr>"

text \<open>The row an item is inserted as, and what replacing a finished one resets: everything but its token.\<close>

definition item_attempts :: "queue_settings \<Rightarrow> queue_item \<Rightarrow> int" where
  "item_attempts cfg item = (if qi_max_attempts item = 0 then qs_max_attempts cfg else qi_max_attempts item)"

definition item_stamp :: "instant \<Rightarrow> queue_item \<Rightarrow> instant" where
  "item_stamp now item = (case qi_enqueued_at item of None \<Rightarrow> now | Some x \<Rightarrow> x)"

definition reset_row :: "queue_settings \<Rightarrow> instant \<Rightarrow> queue_item \<Rightarrow> queue_row \<Rightarrow> queue_row" where
  "reset_row cfg now item x =
     x\<lparr>qr_status := QQueued, qr_priority := qi_priority item, qr_enqueued_at := item_stamp now item,
       qr_not_before := (case qi_not_before item of None \<Rightarrow> item_stamp now item | Some d \<Rightarrow> d),
       qr_claimed_by := None, qr_heartbeat_at := None, qr_attempt := 0, qr_max_attempts := item_attempts cfg item,
       qr_payload := qi_payload item, qr_error_code := None, qr_finished_at := None, qr_cancel_requested := False\<rparr>"

definition fresh_row :: "queue_settings \<Rightarrow> instant \<Rightarrow> queue_item \<Rightarrow> queue_row" where
  "fresh_row cfg now item =
     \<lparr>qr_key = qi_key item, qr_status = QQueued, qr_priority = qi_priority item, qr_enqueued_at = item_stamp now item,
      qr_not_before = (case qi_not_before item of None \<Rightarrow> item_stamp now item | Some d \<Rightarrow> d),
      qr_claimed_by = None, qr_claim_token = 0, qr_heartbeat_at = None, qr_attempt = 0,
      qr_max_attempts = item_attempts cfg item, qr_payload = qi_payload item, qr_error_code = None,
      qr_finished_at = None, qr_cancel_requested = False\<rparr>"

definition enqueue :: "queue_settings \<Rightarrow> instant \<Rightarrow> bool \<Rightarrow> queue_item \<Rightarrow> queue_db \<Rightarrow> (queue_error, unit) result \<times> queue_db" where
  "enqueue cfg now replace_terminal item db0 =
     (let t = fst (qi_key item);
          db = ensure_tenant cfg t db0;
          cap = (case qd_limits db t of None \<Rightarrow> qs_max_queue_depth cfg | Some l \<Rightarrow> tl_max_queue_depth l)
      in case queue_row_at db (qi_key item) of
           None \<Rightarrow>
             if cap \<le> int (depth db t) then (Inl QuotaExceeded, db)
             else (Inr (), db\<lparr>qd_rows := qd_rows db @ [fresh_row cfg now item]\<rparr>)
         | Some r \<Rightarrow>
             if replace_terminal \<and> q_terminal (qr_status r) then
               (if cap \<le> int (depth db t) then (Inl QuotaExceeded, db)
                else (Inr (), update_rows (\<lambda>x. qr_key x = qi_key item) (reset_row cfg now item) db))
             else (Inl AlreadyQueued, db))"

subsection \<open>Claim\<close>

definition in_flight :: "queue_db \<Rightarrow> tenant \<Rightarrow> nat" where
  "in_flight db t = length (filter (\<lambda>r. row_tenant r = t \<and> q_active (qr_status r)) (qd_rows db))"

definition claimable :: "queue_db \<Rightarrow> instant \<Rightarrow> queue_row \<Rightarrow> bool" where
  "claimable db now r \<longleftrightarrow>
     qr_status r = QQueued \<and> qr_not_before r \<le> now \<and> qd_sched db (row_tenant r) \<noteq> None \<and>
     (case qd_limits db (row_tenant r) of None \<Rightarrow> False | Some l \<Rightarrow> int (in_flight db (row_tenant r)) < tl_max_in_flight l)"

definition deficit_of :: "queue_db \<Rightarrow> tenant \<Rightarrow> int" where
  "deficit_of db t = (case qd_sched db t of None \<Rightarrow> 0 | Some s \<Rightarrow> sd_deficit s)"

text \<open>\<open>ORDER BY s.deficit DESC, q.enqueued_at ASC\<close>.\<close>

definition before_row :: "queue_db \<Rightarrow> queue_row \<Rightarrow> queue_row \<Rightarrow> bool" where
  "before_row db a b \<longleftrightarrow>
     deficit_of db (row_tenant b) < deficit_of db (row_tenant a) \<or>
     deficit_of db (row_tenant a) = deficit_of db (row_tenant b) \<and> qr_enqueued_at a < qr_enqueued_at b"

fun first_in_order :: "queue_db \<Rightarrow> queue_row list \<Rightarrow> queue_row option" where
  "first_in_order db [] = None"
| "first_in_order db (r # rs) =
     (case first_in_order db rs of None \<Rightarrow> Some r | Some m \<Rightarrow> if before_row db m r then Some m else Some r)"

definition pick :: "queue_db \<Rightarrow> instant \<Rightarrow> queue_row option" where
  "pick db now = first_in_order db (filter (claimable db now) (qd_rows db))"

definition charge_tenant :: "queue_settings \<Rightarrow> instant \<Rightarrow> tenant \<Rightarrow> (tenant \<Rightarrow> tenant_sched option) \<Rightarrow> tenant \<Rightarrow> tenant_sched option" where
  "charge_tenant cfg now t sched t' =
     map_option (\<lambda>s. if t' = t then s\<lparr>sd_deficit := sd_deficit s - CLAIM_COST, sd_last_claim_at := Some now\<rparr>
                     else s\<lparr>sd_deficit := min (sd_deficit s + sd_weight s) (qs_deficit_cap cfg)\<rparr>) (sched t')"

definition claim_one :: "queue_settings \<Rightarrow> instant \<Rightarrow> string \<Rightarrow> queue_db \<Rightarrow> claim_rec option \<times> queue_db" where
  "claim_one cfg now worker db =
     (if qd_mode db \<noteq> Some MOpen then (None, db)
      else case pick db now of
             None \<Rightarrow> (None, db)
           | Some p \<Rightarrow>
               (let db1 = update_rows (\<lambda>r. qr_key r = qr_key p \<and> qr_status r = QQueued)
                      (\<lambda>r. r\<lparr>qr_status := QClaimed, qr_claimed_by := Some worker, qr_claim_token := qr_claim_token r + 1,
                              qr_heartbeat_at := Some now\<rparr>) db
                in (Some \<lparr>cm_key = qr_key p, cm_token = qr_claim_token p + 1, cm_attempt = qr_attempt p, cm_payload = qr_payload p\<rparr>,
                    db1\<lparr>qd_sched := charge_tenant cfg now (row_tenant p) (qd_sched db1)\<rparr>)))"

fun claim :: "queue_settings \<Rightarrow> instant list \<Rightarrow> string \<Rightarrow> queue_db \<Rightarrow> claim_rec list \<times> queue_db" where
  "claim cfg [] worker db = ([], db)"
| "claim cfg (now # nows) worker db =
     (case claim_one cfg now worker db of
        (None, db1) \<Rightarrow> ([], db1)
      | (Some c, db1) \<Rightarrow> (case claim cfg nows worker db1 of (cs, db2) \<Rightarrow> (c # cs, db2)))"

subsection \<open>A claim's life\<close>

definition holds_row :: "claim_rec \<Rightarrow> queue_status list \<Rightarrow> queue_row \<Rightarrow> bool" where
  "holds_row c from r \<longleftrightarrow> qr_key r = cm_key c \<and> qr_claim_token r = cm_token c \<and> qr_status r \<in> set from"

definition heartbeat_claim :: "instant \<Rightarrow> claim_rec \<Rightarrow> queue_db \<Rightarrow> queue_db" where
  "heartbeat_claim now c db = update_rows (holds_row c [QClaimed, QRunning]) (\<lambda>r. r\<lparr>qr_heartbeat_at := Some now\<rparr>) db"

definition queue_transition ::
    "instant \<Rightarrow> claim_rec \<Rightarrow> queue_status \<Rightarrow> string option \<Rightarrow> queue_status list \<Rightarrow> queue_db \<Rightarrow> (queue_error, unit) result \<times> queue_db" where
  "queue_transition now c st err from db =
     (if \<exists>r \<in> set (qd_rows db). holds_row c from r then
        (Inr (), update_rows (holds_row c from)
           (\<lambda>r. r\<lparr>qr_status := st, qr_heartbeat_at := Some now, qr_error_code := err,
                   qr_finished_at := (if q_terminal st then Some now else qr_finished_at r)\<rparr>) db)
      else case queue_row_at db (cm_key c) of
             Some r \<Rightarrow> if qr_status r = st \<and> qr_claim_token r = cm_token c then (Inr (), db) else (Inl StaleClaim, db)
           | None \<Rightarrow> (Inl StaleClaim, db))"

definition mark_running :: "instant \<Rightarrow> claim_rec \<Rightarrow> queue_db \<Rightarrow> (queue_error, unit) result \<times> queue_db" where
  "mark_running now c db = queue_transition now c QRunning None [QClaimed] db"

text \<open>The status is one of succeeded, failed, cancelled.\<close>

definition finish :: "instant \<Rightarrow> claim_rec \<Rightarrow> queue_status \<Rightarrow> string option \<Rightarrow> queue_db \<Rightarrow> (queue_error, unit) result \<times> queue_db" where
  "finish now c st err db = queue_transition now c st err [QClaimed, QRunning] db"

definition requeue :: "instant \<Rightarrow> claim_rec \<Rightarrow> instant \<Rightarrow> string \<Rightarrow> queue_db \<Rightarrow> (queue_error, unit) result \<times> queue_db" where
  "requeue now c delay err db =
     (if \<exists>r \<in> set (qd_rows db). holds_row c [QClaimed, QRunning] r then
        (Inr (), update_rows (holds_row c [QClaimed, QRunning])
           (\<lambda>r. r\<lparr>qr_status := QQueued, qr_claimed_by := None, qr_heartbeat_at := None,
                   qr_not_before := now + max 0 delay, qr_error_code := Some err\<rparr>) db)
      else (Inl StaleClaim, db))"

subsection \<open>The rest\<close>

definition inflight :: "queue_db \<Rightarrow> tenant \<Rightarrow> nat" where
  "inflight db t =
     length (filter (\<lambda>r. row_tenant r = t \<and> snd (snd (qr_key r)) = KRun \<and> q_active (qr_status r)) (qd_rows db))"

definition outstanding :: "queue_db \<Rightarrow> nat" where
  "outstanding db = length (filter (\<lambda>r. qr_status r = QQueued \<or> q_active (qr_status r)) (qd_rows db))"

definition set_max_in_flight :: "queue_settings \<Rightarrow> tenant \<Rightarrow> int \<Rightarrow> queue_db \<Rightarrow> queue_db" where
  "set_max_in_flight cfg t n db0 =
     (let db = ensure_tenant cfg t db0
      in db\<lparr>qd_limits := (qd_limits db)(t := map_option (\<lambda>l. l\<lparr>tl_max_in_flight := n\<rparr>) (qd_limits db t))\<rparr>)"

definition set_maintenance :: "maintenance_mode \<Rightarrow> queue_db \<Rightarrow> queue_db" where
  "set_maintenance m db = db\<lparr>qd_mode := (case qd_mode db of None \<Rightarrow> None | Some x \<Rightarrow> Some m)\<rparr>"

definition request_cancel :: "queue_key \<Rightarrow> queue_db \<Rightarrow> queue_db" where
  "request_cancel k db =
     update_rows (\<lambda>r. qr_key r = k \<and> (qr_status r = QQueued \<or> q_active (qr_status r))) (\<lambda>r. r\<lparr>qr_cancel_requested := True\<rparr>) db"

definition cancel_requested :: "queue_key \<Rightarrow> queue_db \<Rightarrow> bool" where
  "cancel_requested k db = (case queue_row_at db k of None \<Rightarrow> False | Some r \<Rightarrow> qr_cancel_requested r)"

definition register_worker :: "instant \<Rightarrow> string \<Rightarrow> int \<Rightarrow> int \<Rightarrow> queue_db \<Rightarrow> queue_db" where
  "register_worker now w capacity pid db =
     db\<lparr>qd_workers := (qd_workers db)(w \<mapsto>
          (case qd_workers db w of
             None \<Rightarrow> \<lparr>wk_pid = pid, wk_heartbeat_at = now, wk_capacity = capacity, wk_inflight = 0\<rparr>
           | Some x \<Rightarrow> x\<lparr>wk_pid := pid, wk_heartbeat_at := now, wk_capacity := capacity\<rparr>))\<rparr>"

definition heartbeat_worker :: "instant \<Rightarrow> string \<Rightarrow> queue_db \<Rightarrow> queue_db" where
  "heartbeat_worker now w db =
     db\<lparr>qd_workers := (qd_workers db)(w := map_option (\<lambda>x. x\<lparr>wk_heartbeat_at := now,
          wk_inflight := length (filter (\<lambda>r. qr_claimed_by r = Some w \<and> q_active (qr_status r)) (qd_rows db))\<rparr>) (qd_workers db w))\<rparr>"

definition orphaned :: "(int \<Rightarrow> bool) \<Rightarrow> queue_db \<Rightarrow> queue_row \<Rightarrow> bool" where
  "orphaned pid_alive db r \<longleftrightarrow>
     q_active (qr_status r) \<and>
     \<not> (case qr_claimed_by r of
          None \<Rightarrow> False
        | Some w \<Rightarrow> (case qd_workers db w of None \<Rightarrow> False | Some x \<Rightarrow> pid_alive (wk_pid x)))"

definition reconciled :: "instant \<Rightarrow> queue_row \<Rightarrow> queue_row" where
  "reconciled now r =
     (if qr_max_attempts r \<le> qr_attempt r + 1
      then r\<lparr>qr_status := QDead, qr_error_code := Some ''lease_expired'', qr_finished_at := Some now\<rparr>
      else r\<lparr>qr_status := QQueued, qr_attempt := qr_attempt r + 1, qr_claimed_by := None,
              qr_not_before := now + 1000000 * min (2 ^ nat (qr_attempt r + 1)) 60, qr_heartbeat_at := None\<rparr>)"

definition reconcile_orphans :: "(int \<Rightarrow> bool) \<Rightarrow> instant \<Rightarrow> queue_db \<Rightarrow> nat \<times> queue_db" where
  "reconcile_orphans pid_alive now db =
     (length (filter (orphaned pid_alive db) (qd_rows db)), update_rows (orphaned pid_alive db) (reconciled now) db)"

subsection \<open>Choosing the next row\<close>

lemma before_row_trans: "before_row db a b \<Longrightarrow> before_row db b c \<Longrightarrow> before_row db a c"
  by (auto simp: before_row_def)

lemma before_row_weak: "\<not> before_row db b a \<Longrightarrow> before_row db b c \<Longrightarrow> before_row db a c"
  by (auto simp: before_row_def)

lemma first_in_order_None [simp]: "first_in_order db rs = None \<longleftrightarrow> rs = []"
  by (cases rs) (auto split: option.splits)

lemma first_in_order_Some:
  "first_in_order db rs = Some p \<Longrightarrow> p \<in> set rs \<and> (\<forall>r \<in> set rs. \<not> before_row db r p)"
proof (induction rs arbitrary: p)
  case (Cons r rs)
  show ?case
  proof (cases "first_in_order db rs")
    case None
    then show ?thesis using Cons.prems by (auto simp: before_row_def)
  next
    case (Some m)
    note m = Cons.IH[OF Some]
    show ?thesis
    proof (cases "before_row db m r")
      case True
      then have "p = m" using Cons.prems Some by simp
      moreover have "\<not> before_row db r m" using True by (auto simp: before_row_def)
      ultimately show ?thesis using m by auto
    next
      case False
      then have p: "p = r" using Cons.prems Some by simp
      have "\<not> before_row db x r" if "x \<in> set rs" for x
        using m that False before_row_weak[of db x m r] by blast
      then show ?thesis using p by (auto simp: before_row_def)
    qed
  qed
qed simp

lemma pick_Some:
  assumes "pick db now = Some p"
  shows "p \<in> set (qd_rows db)" "claimable db now p"
    "\<And>r. r \<in> set (qd_rows db) \<Longrightarrow> claimable db now r \<Longrightarrow> \<not> before_row db r p"
  using first_in_order_Some[OF assms[unfolded pick_def]] by auto

lemma pick_None: "pick db now = None \<longleftrightarrow> (\<forall>r \<in> set (qd_rows db). \<not> claimable db now r)"
  by (auto simp: pick_def filter_empty_conv)

subsection \<open>Updating one row\<close>

definition queue_ok :: "queue_db \<Rightarrow> bool" where
  "queue_ok db \<longleftrightarrow> distinct (map qr_key (qd_rows db))"

lemma update_rows_sel [simp]:
  "qd_rows (update_rows P f db) = map (\<lambda>r. if P r then f r else r) (qd_rows db)"
  "qd_sched (update_rows P f db) = qd_sched db" "qd_limits (update_rows P f db) = qd_limits db"
  "qd_workers (update_rows P f db) = qd_workers db" "qd_mode (update_rows P f db) = qd_mode db"
  by (simp_all add: update_rows_def)

lemma queue_ok_update: "queue_ok db \<Longrightarrow> \<forall>r. qr_key (f r) = qr_key r \<Longrightarrow> queue_ok (update_rows P f db)"
  by (simp add: queue_ok_def comp_def if_distrib cong: if_cong)

lemma row_by_key:
  assumes "queue_ok db" "r \<in> set (qd_rows db)" "r' \<in> set (qd_rows db)" "qr_key r = qr_key r'"
  shows "r = r'"
  using assms unfolding queue_ok_def by (metis distinct_map inj_onD)

lemma update_one:
  assumes "queue_ok db" "p \<in> set (qd_rows db)" "P p" "\<And>r. r \<in> set (qd_rows db) \<Longrightarrow> P r \<Longrightarrow> qr_key r = qr_key p"
  obtains xs ys where "qd_rows db = xs @ p # ys" "qd_rows (update_rows P f db) = xs @ f p # ys"
    "\<And>r. r \<in> set (xs @ ys) \<Longrightarrow> qr_key r \<noteq> qr_key p"
proof -
  obtain xs ys where rows: "qd_rows db = xs @ p # ys" using assms(2) by (meson split_list)
  have other: "qr_key r \<noteq> qr_key p" if "r \<in> set (xs @ ys)" for r
    using assms(1) rows imageI[OF that, of qr_key] by (auto simp: queue_ok_def)
  then have "\<not> P r" if "r \<in> set (xs @ ys)" for r using assms(4)[of r] rows that by auto
  then have "map (\<lambda>r. if P r then f r else r) xs = xs" "map (\<lambda>r. if P r then f r else r) ys = ys"
    by (auto intro!: map_idI)
  then show thesis using that[OF rows _ other] rows assms(3) by simp
qed

lemma claim_one_SomeE:
  assumes "claim_one cfg now w db = (Some c, db')" "queue_ok db"
  obtains p xs ys where "qd_mode db = Some MOpen" "pick db now = Some p" "qr_status p = QQueued" "qd_rows db = xs @ p # ys"
    "qd_rows db' = xs @ p\<lparr>qr_status := QClaimed, qr_claimed_by := Some w, qr_claim_token := qr_claim_token p + 1,
       qr_heartbeat_at := Some now\<rparr> # ys"
    "\<And>r. r \<in> set (xs @ ys) \<Longrightarrow> qr_key r \<noteq> qr_key p"
    "cm_key c = qr_key p" "cm_token c = qr_claim_token p + 1" "cm_attempt c = qr_attempt p" "cm_payload c = qr_payload p"
    "qd_sched db' = charge_tenant cfg now (row_tenant p) (qd_sched db)" "qd_limits db' = qd_limits db"
    "qd_workers db' = qd_workers db" "qd_mode db' = qd_mode db"
proof -
  obtain p where p: "qd_mode db = Some MOpen" "pick db now = Some p"
    using assms(1) by (auto simp: claim_one_def split: if_splits option.splits)
  let ?P = "\<lambda>r. qr_key r = qr_key p \<and> qr_status r = QQueued"
  let ?f = "\<lambda>r. r\<lparr>qr_status := QClaimed, qr_claimed_by := Some w, qr_claim_token := qr_claim_token r + 1, qr_heartbeat_at := Some now\<rparr>"
  have q: "qr_status p = QQueued" using pick_Some(2)[OF p(2)] by (simp add: claimable_def)
  obtain xs ys where "qd_rows db = xs @ p # ys" "qd_rows (update_rows ?P ?f db) = xs @ ?f p # ys"
    "\<And>r. r \<in> set (xs @ ys) \<Longrightarrow> qr_key r \<noteq> qr_key p"
    by (rule update_one[OF assms(2) pick_Some(1)[OF p(2)], of ?P ?f]) (use q in auto)
  then show thesis
    using assms(1) p q by (intro that[of p xs ys]) (auto simp: claim_one_def Let_def)
qed

lemma claim_one_None: "claim_one cfg now w db = (None, db') \<Longrightarrow> db' = db \<and> (qd_mode db \<noteq> Some MOpen \<or> pick db now = None)"
  by (auto simp: claim_one_def Let_def split: if_splits option.splits)

lemma q_active_simps [simp]:
  "q_active QClaimed" "q_active QRunning" "\<not> q_active QQueued" "\<not> q_active QSucceeded" "\<not> q_active QFailed"
  "\<not> q_active QCancelled" "\<not> q_active QDead"
  by (simp_all add: q_active_def)

text \<open>
  C10. The claim keeps its limits and its order: it takes a row only when the queue is open for work, and
  then the row is queued, due, of a tenant below its in-flight limit, of the largest deficit among
  the claimable rows and of the oldest of those; the row gets the next claim token, its tenant one
  more item in flight, which is within the limit, and no other tenant's count changes; the tenant
  pays one unit and every other tenant earns its weight up to the cap. It takes none exactly when the
  queue is under maintenance or no row is claimable.\<close>

theorem claim_takes_the_right_row:
  assumes "queue_ok db" "claim_one cfg now w db = (res, db')"
  shows "case res of
      None \<Rightarrow> db' = db \<and> (qd_mode db \<noteq> Some MOpen \<or> (\<forall>r \<in> set (qd_rows db). \<not> claimable db now r))
    | Some c \<Rightarrow> qd_mode db = Some MOpen \<and>
        (\<exists>p \<in> set (qd_rows db). claimable db now p \<and> cm_key c = qr_key p \<and> cm_token c = qr_claim_token p + 1 \<and>
           (\<forall>r \<in> set (qd_rows db). claimable db now r \<longrightarrow>
              deficit_of db (row_tenant r) \<le> deficit_of db (row_tenant p) \<and>
              (deficit_of db (row_tenant r) = deficit_of db (row_tenant p) \<longrightarrow> qr_enqueued_at p \<le> qr_enqueued_at r)) \<and>
           int (in_flight db' (row_tenant p)) \<le> tl_max_in_flight (the (qd_limits db (row_tenant p))) \<and>
           in_flight db' (row_tenant p) = in_flight db (row_tenant p) + 1 \<and>
           (\<forall>t. t \<noteq> row_tenant p \<longrightarrow> in_flight db' t = in_flight db t) \<and>
           qd_sched db' = charge_tenant cfg now (row_tenant p) (qd_sched db))"
proof (cases res)
  case None
  then show ?thesis using claim_one_None[of cfg now w db db'] assms(2) by (auto simp: pick_None)
next
  case (Some c)
  from claim_one_SomeE[OF assms(2)[unfolded Some] assms(1)] obtain p xs ys where
    p: "qd_mode db = Some MOpen" "pick db now = Some p" "qr_status p = QQueued" "qd_rows db = xs @ p # ys"
      "qd_rows db' = xs @ p\<lparr>qr_status := QClaimed, qr_claimed_by := Some w, qr_claim_token := qr_claim_token p + 1,
         qr_heartbeat_at := Some now\<rparr> # ys"
      "cm_key c = qr_key p" "cm_token c = qr_claim_token p + 1" "qd_sched db' = charge_tenant cfg now (row_tenant p) (qd_sched db)"
    by metis
  have fl: "in_flight db' (row_tenant p) = in_flight db (row_tenant p) + 1"
    "\<And>t. t \<noteq> row_tenant p \<Longrightarrow> in_flight db' t = in_flight db t"
    using p(3) by (auto simp: in_flight_def p(4,5))
  have cl: "claimable db now p" using pick_Some(2)[OF p(2)] .
  then have "int (in_flight db' (row_tenant p)) \<le> tl_max_in_flight (the (qd_limits db (row_tenant p)))"
    unfolding fl(1) by (auto simp: claimable_def split: option.splits)
  moreover have "deficit_of db (row_tenant r) \<le> deficit_of db (row_tenant p) \<and>
      (deficit_of db (row_tenant r) = deficit_of db (row_tenant p) \<longrightarrow> qr_enqueued_at p \<le> qr_enqueued_at r)"
    if "r \<in> set (qd_rows db)" "claimable db now r" for r
    using pick_Some(3)[OF p(2) that] by (auto simp: before_row_def)
  ultimately show ?thesis using p cl fl Some pick_Some(1)[OF p(2)] by (auto intro!: bexI[of _ p])
qed

subsection \<open>Interleavings\<close>

text \<open>Everything that happens to the queue, in any order, with the list of all claims handed out.\<close>

inductive queue_step :: "queue_settings \<Rightarrow> queue_db \<Rightarrow> claim_rec list \<Rightarrow> queue_db \<Rightarrow> claim_rec list \<Rightarrow> bool" for cfg where
  enqueued: "enqueue cfg now rt item db = (res, db') \<Longrightarrow> queue_step cfg db cs db' cs"
| claimed: "claim_one cfg now w db = (Some c, db') \<Longrightarrow> queue_step cfg db cs db' (c # cs)"
| idle: "claim_one cfg now w db = (None, db') \<Longrightarrow> queue_step cfg db cs db' cs"
| beat: "queue_step cfg db cs (heartbeat_claim now c db) cs"
| ran: "mark_running now c db = (res, db') \<Longrightarrow> queue_step cfg db cs db' cs"
| finished: "finish now c st err db = (res, db') \<Longrightarrow> st \<in> {QSucceeded, QFailed, QCancelled} \<Longrightarrow> queue_step cfg db cs db' cs"
| requeued: "requeue now c delay err db = (res, db') \<Longrightarrow> queue_step cfg db cs db' cs"
| cancelled: "queue_step cfg db cs (request_cancel k db) cs"
| limited: "queue_step cfg db cs (set_max_in_flight cfg t n db) cs"
| maintained: "queue_step cfg db cs (set_maintenance m db) cs"
| registered: "queue_step cfg db cs (register_worker now w capacity pid db) cs"
| worker_beat: "queue_step cfg db cs (heartbeat_worker now w db) cs"
| swept: "reconcile_orphans alive now db = (n, db') \<Longrightarrow> queue_step cfg db cs db' cs"

inductive queue_run :: "queue_settings \<Rightarrow> queue_db \<Rightarrow> claim_rec list \<Rightarrow> bool" for cfg where
  empty: "qd_rows db = [] \<Longrightarrow> queue_run cfg db []"
| step: "queue_run cfg db cs \<Longrightarrow> queue_step cfg db cs db' cs' \<Longrightarrow> queue_run cfg db' cs'"

text \<open>What no step but a claim does to the rows: drop one, change a key or raise a token.\<close>

definition keeps_tokens :: "queue_row list \<Rightarrow> queue_row list \<Rightarrow> bool" where
  "keeps_tokens rs rs' \<longleftrightarrow>
     (\<exists>new :: queue_row list. map qr_key rs' = map qr_key rs @ map qr_key new \<and> map qr_claim_token rs' = map qr_claim_token rs @ map qr_claim_token new)"

lemma keeps_tokens_refl [simp]: "keeps_tokens rs rs"
  by (auto simp: keeps_tokens_def intro: exI[of _ "[]"])

lemma keeps_tokens_update:
  "(\<And>r. qr_key (f r) = qr_key r) \<Longrightarrow> (\<And>r. qr_claim_token (f r) = qr_claim_token r) \<Longrightarrow>
     keeps_tokens rs (map (\<lambda>r. if P r then f r else r) rs)"
  by (auto simp: keeps_tokens_def intro!: exI[of _ "[]"])

lemma keeps_tokens_row:
  assumes "keeps_tokens rs rs'" "r \<in> set rs"
  shows "\<exists>r' \<in> set rs'. qr_key r' = qr_key r \<and> qr_claim_token r' = qr_claim_token r"
proof -
  obtain i where i: "i < length rs" "r = rs ! i" using assms(2) by (auto simp: in_set_conv_nth)
  obtain new :: "queue_row list" where eq: "map qr_key rs' = map qr_key rs @ map qr_key new"
    "map qr_claim_token rs' = map qr_claim_token rs @ map qr_claim_token new"
    using assms(1) unfolding keeps_tokens_def by blast
  have len: "i < length rs'" using arg_cong[OF eq(1), of length] i(1) by simp
  have "qr_key (rs' ! i) = qr_key r" "qr_claim_token (rs' ! i) = qr_claim_token r"
    using arg_cong[OF eq(1), of "\<lambda>l. l ! i"] arg_cong[OF eq(2), of "\<lambda>l. l ! i"] i len by (simp_all add: nth_append)
  then show ?thesis using len by (auto intro!: bexI[of _ "rs' ! i"])
qed

lemma ensure_tenant_rows [simp]: "qd_rows (ensure_tenant cfg t db) = qd_rows db"
  by (simp add: ensure_tenant_def)

lemma find_row_None: "queue_row_at db k = None \<longleftrightarrow> k \<notin> qr_key ` set (qd_rows db)"
  by (auto simp: queue_row_at_def find_None_iff)

lemma find_row_Some: "queue_row_at db k = Some r \<Longrightarrow> r \<in> set (qd_rows db) \<and> qr_key r = k"
  by (auto simp: queue_row_at_def find_Some_iff)

lemma reset_row_sel [simp]:
  "qr_key (reset_row cfg now item r) = qr_key r" "qr_claim_token (reset_row cfg now item r) = qr_claim_token r"
  "qr_status (reset_row cfg now item r) = QQueued" "qr_attempt (reset_row cfg now item r) = 0"
  "qr_max_attempts (reset_row cfg now item r) = item_attempts cfg item"
  "qr_enqueued_at (reset_row cfg now item r) = item_stamp now item"
  by (simp_all add: reset_row_def)

lemma fresh_row_sel [simp]:
  "qr_key (fresh_row cfg now item) = qi_key item" "qr_claim_token (fresh_row cfg now item) = 0"
  "qr_status (fresh_row cfg now item) = QQueued" "qr_attempt (fresh_row cfg now item) = 0"
  "qr_max_attempts (fresh_row cfg now item) = item_attempts cfg item"
  "qr_enqueued_at (fresh_row cfg now item) = item_stamp now item"
  by (simp_all add: fresh_row_def)

lemma enqueue_rows:
  assumes "enqueue cfg now rt item db = (res, db')"
  obtains (same) "qd_rows db' = qd_rows db"
  | (added) "qd_rows db' = qd_rows db @ [fresh_row cfg now item]" "qi_key item \<notin> qr_key ` set (qd_rows db)"
  | (replaced) r where "qd_rows db' = map (\<lambda>r. if qr_key r = qi_key item then reset_row cfg now item r else r) (qd_rows db)"
      "r \<in> set (qd_rows db)" "qr_key r = qi_key item" "q_terminal (qr_status r)"
proof (cases "queue_row_at (ensure_tenant cfg (fst (qi_key item)) db) (qi_key item)")
  case None
  then have "qi_key item \<notin> qr_key ` set (qd_rows db)" by (simp add: find_row_None)
  then show thesis using None assms same added by (auto simp: enqueue_def Let_def split: if_splits)
next
  case (Some r)
  then show thesis
    using assms same replaced[of r] find_row_Some[OF Some] by (auto simp: enqueue_def Let_def split: if_splits)
qed

lemma step_cases:
  assumes "queue_step cfg db cs db' cs'"
  shows "cs' = cs \<and> keeps_tokens (qd_rows db) (qd_rows db') \<and> (queue_ok db \<longrightarrow> queue_ok db') \<or>
         (\<exists>now w c. claim_one cfg now w db = (Some c, db') \<and> cs' = c # cs)"
  using assms
proof (cases rule: queue_step.cases)
  case (enqueued now rt item res)
  from enqueued(2) show ?thesis
  proof (cases rule: enqueue_rows)
    case added
    then have "keeps_tokens (qd_rows db) (qd_rows db')"
      unfolding keeps_tokens_def by (intro exI[of _ "[fresh_row cfg now item]"]) simp
    then show ?thesis using added enqueued(1) by (auto simp: queue_ok_def)
  next
    case (replaced r)
    then have "keeps_tokens (qd_rows db) (qd_rows db')" by (simp add: keeps_tokens_update)
    moreover have "map qr_key (qd_rows db') = map qr_key (qd_rows db)" using replaced(1) by simp
    ultimately show ?thesis using enqueued(1) by (simp add: queue_ok_def)
  qed (use enqueued(1) in \<open>auto simp: queue_ok_def\<close>)
next
  case (idle now w)
  then show ?thesis using claim_one_None[of cfg now w db db'] by auto
next
  case (beat now c)
  then show ?thesis by (auto simp: heartbeat_claim_def keeps_tokens_update queue_ok_update)
next
  case (ran now c res)
  then show ?thesis
    by (auto simp: mark_running_def queue_transition_def keeps_tokens_update queue_ok_update split: if_splits option.splits)
next
  case (finished now c st err res)
  then show ?thesis
    by (auto simp: finish_def queue_transition_def keeps_tokens_update queue_ok_update split: if_splits option.splits)
next
  case (requeued now c delay err res)
  then show ?thesis by (auto simp: requeue_def keeps_tokens_update queue_ok_update split: if_splits)
next
  case (cancelled k)
  then show ?thesis by (auto simp: request_cancel_def keeps_tokens_update queue_ok_update)
next
  case (swept alive now n)
  then show ?thesis
    by (auto simp: reconcile_orphans_def reconciled_def keeps_tokens_update queue_ok_update)
qed (auto simp: set_max_in_flight_def set_maintenance_def register_worker_def heartbeat_worker_def queue_ok_def Let_def)

text \<open>The same with the claimed row named.\<close>

lemma claim_one_moved:
  assumes "claim_one cfg now w db = (Some c, db')" "queue_ok db"
  obtains p p' xs ys where "pick db now = Some p" "qd_rows db = xs @ p # ys" "qd_rows db' = xs @ p' # ys"
    "qr_key p' = qr_key p" "qr_claim_token p' = qr_claim_token p + 1" "qr_status p = QQueued" "qr_status p' = QClaimed"
    "qr_attempt p' = qr_attempt p" "qr_max_attempts p' = qr_max_attempts p" "qr_enqueued_at p' = qr_enqueued_at p"
    "\<And>r. r \<in> set (xs @ ys) \<Longrightarrow> qr_key r \<noteq> qr_key p" "cm_key c = qr_key p" "cm_token c = qr_claim_token p + 1"
    "qd_sched db' = charge_tenant cfg now (row_tenant p) (qd_sched db)"
  using assms
proof (rule claim_one_SomeE)
  fix p :: queue_row and xs ys
  let ?p = "p\<lparr>qr_status := QClaimed, qr_claimed_by := Some w, qr_claim_token := qr_claim_token p + 1, qr_heartbeat_at := Some now\<rparr>"
  assume a: "pick db now = Some p" "qd_rows db = xs @ p # ys" "qd_rows db' = xs @ ?p # ys" "qr_status p = QQueued"
    "\<And>r. r \<in> set (xs @ ys) \<Longrightarrow> qr_key r \<noteq> qr_key p" "cm_key c = qr_key p" "cm_token c = qr_claim_token p + 1"
    "qd_sched db' = charge_tenant cfg now (row_tenant p) (qd_sched db)"
  show thesis by (rule that[OF a(1-3) _ _ a(4) _ _ _ _ a(5-8)]) simp_all
qed

definition claims_inv :: "queue_db \<Rightarrow> claim_rec list \<Rightarrow> bool" where
  "claims_inv db cs \<longleftrightarrow>
     queue_ok db \<and> distinct (map (\<lambda>c. (cm_key c, cm_token c)) cs) \<and>
     (\<forall>c \<in> set cs. \<exists>r \<in> set (qd_rows db). qr_key r = cm_key c \<and> cm_token c \<le> qr_claim_token r)"

lemma claims_inv_step:
  assumes "queue_step cfg db cs db' cs'" "claims_inv db cs"
  shows "claims_inv db' cs'"
  using step_cases[OF assms(1)]
proof
  assume "cs' = cs \<and> keeps_tokens (qd_rows db) (qd_rows db') \<and> (queue_ok db \<longrightarrow> queue_ok db')"
  then show ?thesis using assms(2) keeps_tokens_row unfolding claims_inv_def by metis
next
  assume "\<exists>now w c. claim_one cfg now w db = (Some c, db') \<and> cs' = c # cs"
  then obtain now w c where cl: "claim_one cfg now w db = (Some c, db')" "cs' = c # cs" by blast
  have ok: "queue_ok db" using assms(2) by (simp add: claims_inv_def)
  obtain p p' xs ys where p: "qd_rows db = xs @ p # ys" "qd_rows db' = xs @ p' # ys" "qr_key p' = qr_key p"
      "qr_claim_token p' = qr_claim_token p + 1" "\<And>r. r \<in> set (xs @ ys) \<Longrightarrow> qr_key r \<noteq> qr_key p" "cm_key c = qr_key p"
      "cm_token c = qr_claim_token p + 1"
    by (rule claim_one_moved[OF cl(1) ok]) (rule that, assumption+)
  have "queue_ok db'" using ok p(1-3) by (simp add: queue_ok_def)
  moreover have "(cm_key c, cm_token c) \<notin> (\<lambda>c. (cm_key c, cm_token c)) ` set cs"
  proof
    assume "(cm_key c, cm_token c) \<in> (\<lambda>c. (cm_key c, cm_token c)) ` set cs"
    then obtain r where r: "r \<in> set (qd_rows db)" "qr_key r = qr_key p" "cm_token c \<le> qr_claim_token r"
      using assms(2) p(6) by (auto simp: claims_inv_def)
    then have "r = p" using row_by_key[OF ok] p(1) by simp
    then show False using r(3) p(7) by simp
  qed
  moreover have "\<exists>r \<in> set (qd_rows db'). qr_key r = cm_key d \<and> cm_token d \<le> qr_claim_token r" if d: "d \<in> set cs'" for d
  proof (cases "d = c")
    case True
    then show ?thesis using p by auto
  next
    case False
    then obtain r where "r \<in> set (qd_rows db)" "qr_key r = cm_key d" "cm_token d \<le> qr_claim_token r"
      using d cl(2) assms(2) by (auto simp: claims_inv_def)
    then show ?thesis using p by (cases "r = p") auto
  qed
  ultimately show ?thesis using assms(2) cl(2) by (simp add: claims_inv_def)
qed

lemma queue_run_claims: "queue_run cfg db cs \<Longrightarrow> claims_inv db cs"
proof (induction rule: queue_run.induct)
  case (empty db)
  then show ?case by (simp add: claims_inv_def queue_ok_def)
qed (rule claims_inv_step)

lemma stale_claim_inert:
  assumes "queue_ok db" "r \<in> set (qd_rows db)" "qr_key r = cm_key c" "cm_token c < qr_claim_token r"
  shows "queue_transition now c st err from db = (Inl StaleClaim, db)" "requeue now c delay e db = (Inl StaleClaim, db)"
    "heartbeat_claim now c db = db"
proof -
  have no: "\<not> holds_row c from' x" if "x \<in> set (qd_rows db)" for x from'
    using row_by_key[OF assms(1) that assms(2)] assms(3,4) by (auto simp: holds_row_def)
  have "queue_row_at db (cm_key c) = Some r"
  proof (cases "queue_row_at db (cm_key c)")
    case None
    then have "cm_key c \<notin> qr_key ` set (qd_rows db)" by (simp add: find_row_None)
    then show ?thesis using imageI[OF assms(2), of qr_key] assms(3) by simp
  next
    case (Some x)
    then show ?thesis using find_row_Some[OF Some] row_by_key[OF assms(1) _ assms(2)] assms(3) by simp
  qed
  then show "queue_transition now c st err from db = (Inl StaleClaim, db)" using no assms(4) by (auto simp: queue_transition_def)
  show "requeue now c delay e db = (Inl StaleClaim, db)" using no by (auto simp: requeue_def)
  have "map (\<lambda>r. if holds_row c [QClaimed, QRunning] r then r\<lparr>qr_heartbeat_at := Some now\<rparr> else r) (qd_rows db) = qd_rows db"
    using no by (intro map_idI) simp
  then show "heartbeat_claim now c db = db" by (simp add: heartbeat_claim_def update_rows_def)
qed

text \<open>
  C11. A claim that was overtaken is powerless: over every interleaving of queue operations no claim token
  is handed out twice for an item, and once a later claim of the same item exists, finishing, marking
  as running or requeueing with the earlier one is refused as stale and changes nothing, and its
  heartbeat changes nothing either.\<close>

theorem overtaken_claims_are_powerless:
  assumes "queue_run cfg db cs" "c \<in> set cs" "c' \<in> set cs" "cm_key c = cm_key c'" "cm_token c < cm_token c'"
  shows "distinct (map (\<lambda>c. (cm_key c, cm_token c)) cs) \<and>
         finish now c st err db = (Inl StaleClaim, db) \<and> mark_running now c db = (Inl StaleClaim, db) \<and>
         requeue now c delay e db = (Inl StaleClaim, db) \<and> heartbeat_claim now c db = db"
proof -
  have inv: "claims_inv db cs" using queue_run_claims[OF assms(1)] .
  then obtain r where r: "r \<in> set (qd_rows db)" "qr_key r = cm_key c" "cm_token c < qr_claim_token r"
    using assms(3-5) by (fastforce simp: claims_inv_def)
  have ok: "queue_ok db" using inv by (simp add: claims_inv_def)
  show ?thesis
    using inv stale_claim_inert[OF ok r] by (simp add: claims_inv_def finish_def mark_running_def)
qed

subsection \<open>Retries\<close>

definition attempts_ok :: "queue_db \<Rightarrow> bool" where
  "attempts_ok db \<longleftrightarrow> (\<forall>r \<in> set (qd_rows db). 0 \<le> qr_attempt r \<and> (qr_attempt r = 0 \<or> qr_attempt r < qr_max_attempts r))"

lemma attempts_ok_update:
  assumes "attempts_ok db"
    "\<And>r. r \<in> set (qd_rows db) \<Longrightarrow> P r \<Longrightarrow> 0 \<le> qr_attempt r \<Longrightarrow> qr_attempt r = 0 \<or> qr_attempt r < qr_max_attempts r \<Longrightarrow>
       0 \<le> qr_attempt (f r) \<and> (qr_attempt (f r) = 0 \<or> qr_attempt (f r) < qr_max_attempts (f r))"
  shows "attempts_ok (update_rows P f db)"
  using assms by (auto simp: attempts_ok_def)

lemma reconciled_sel [simp]:
  "qr_key (reconciled now r) = qr_key r" "qr_claim_token (reconciled now r) = qr_claim_token r"
  "qr_max_attempts (reconciled now r) = qr_max_attempts r"
  "qr_attempt (reconciled now r) = (if qr_max_attempts r \<le> qr_attempt r + 1 then qr_attempt r else qr_attempt r + 1)"
  "qr_status (reconciled now r) = (if qr_max_attempts r \<le> qr_attempt r + 1 then QDead else QQueued)"
  by (simp_all add: reconciled_def)

lemma attempts_ok_step:
  assumes "queue_step cfg db cs db' cs'" "attempts_ok db" "queue_ok db"
  shows "attempts_ok db'"
  using assms(1)
proof (cases rule: queue_step.cases)
  case (enqueued now rt item res)
  from enqueued(2) show ?thesis
    by (cases rule: enqueue_rows) (use assms(2) in \<open>auto simp: attempts_ok_def\<close>)
next
  case (claimed now w c)
  obtain p p' xs ys where "qd_rows db = xs @ p # ys" "qd_rows db' = xs @ p' # ys" "qr_attempt p' = qr_attempt p"
    "qr_max_attempts p' = qr_max_attempts p"
    by (rule claim_one_moved[OF claimed(2) assms(3)]) (rule that, assumption+)
  then show ?thesis using assms(2) by (simp add: attempts_ok_def)
next
  case (idle now w)
  then show ?thesis using claim_one_None[of cfg now w db db'] assms(2) by simp
next
  case (beat now c)
  then show ?thesis using assms(2) by (simp add: heartbeat_claim_def attempts_ok_update)
next
  case (ran now c res)
  then show ?thesis
    using assms(2) by (auto simp: mark_running_def queue_transition_def split: if_splits option.splits intro!: attempts_ok_update)
next
  case (finished now c st err res)
  then show ?thesis
    using assms(2) by (auto simp: finish_def queue_transition_def split: if_splits option.splits intro!: attempts_ok_update)
next
  case (requeued now c delay err res)
  then show ?thesis using assms(2) by (auto simp: requeue_def split: if_splits intro!: attempts_ok_update)
next
  case (cancelled k)
  then show ?thesis using assms(2) by (simp add: request_cancel_def attempts_ok_update)
next
  case (swept alive now n)
  then have "db' = update_rows (orphaned alive db) (reconciled now) db" by (simp add: reconcile_orphans_def)
  then show ?thesis using assms(2) by (auto intro!: attempts_ok_update split: if_splits)
qed (use assms(2) in \<open>auto simp: attempts_ok_def set_max_in_flight_def set_maintenance_def register_worker_def
      heartbeat_worker_def Let_def\<close>)

lemma orphaned_update [simp]: "orphaned alive (update_rows P f db) = orphaned alive db"
  by (rule ext) (simp only: orphaned_def update_rows_sel)

lemma queue_run_attempts: "queue_run cfg db cs \<Longrightarrow> attempts_ok db"
proof (induction rule: queue_run.induct)
  case (empty db)
  then show ?case by (simp add: attempts_ok_def)
next
  case (step db cs db' cs')
  then show ?case using attempts_ok_step queue_run_claims by (auto simp: claims_inv_def)
qed

text \<open>
  Crashes are retried a bounded number of times: in every reachable queue an item has used fewer
  attempts than its limit (or none), the sweep leaves no claim of a dead worker behind, and it returns
  an orphaned item to the queue with one more attempt used exactly when that is still below the
  limit, and marks it dead otherwise; rows that are not orphaned stay as they are.\<close>

theorem orphans_retried_boundedly:
  assumes "queue_run cfg db cs" "reconcile_orphans alive now db = (n, db')"
  shows "(\<forall>r \<in> set (qd_rows db). 0 \<le> qr_attempt r \<and> (qr_attempt r = 0 \<or> qr_attempt r < qr_max_attempts r)) \<and>
         (\<forall>r \<in> set (qd_rows db'). \<not> orphaned alive db' r) \<and>
         length (qd_rows db') = length (qd_rows db) \<and>
         (\<forall>i < length (qd_rows db).
            (\<not> orphaned alive db (qd_rows db ! i) \<longrightarrow> qd_rows db' ! i = qd_rows db ! i) \<and>
            (orphaned alive db (qd_rows db ! i) \<longrightarrow>
               (if qr_attempt (qd_rows db ! i) + 1 < qr_max_attempts (qd_rows db ! i)
                then qr_status (qd_rows db' ! i) = QQueued \<and> qr_attempt (qd_rows db' ! i) = qr_attempt (qd_rows db ! i) + 1
                else qr_status (qd_rows db' ! i) = QDead)))"
proof -
  have db': "db' = update_rows (orphaned alive db) (reconciled now) db" using assms(2) by (simp add: reconcile_orphans_def)
  have "\<not> orphaned alive db' r" if "r \<in> set (qd_rows db')" for r
    using that unfolding db' orphaned_update by (auto simp: orphaned_def split: if_splits)
  then show ?thesis
    using queue_run_attempts[OF assms(1)] by (auto simp: attempts_ok_def db')
qed

subsection \<open>Fairness\<close>

















subsection \<open>Examples\<close>

definition example_cfg :: queue_settings where
  "example_cfg = \<lparr>qs_deficit_cap = 3, qs_max_attempts = 3, qs_max_in_flight = 1, qs_max_queue_depth = 5\<rparr>"

definition empty_queue :: queue_db where
  "empty_queue = \<lparr>qd_rows = [], qd_sched = Map.empty, qd_limits = Map.empty, qd_workers = Map.empty, qd_mode = Some MOpen\<rparr>"

definition example_item :: "tenant \<Rightarrow> queue_item" where
  "example_item t = \<lparr>qi_key = (t, ''r'', KRun), qi_payload = [], qi_priority = 0, qi_max_attempts = 0, qi_enqueued_at = None,
     qi_not_before = None\<rparr>"

definition one_queued :: queue_db where
  "one_queued = snd (enqueue example_cfg 1 False (example_item ''a'') empty_queue)"


definition once_claimed :: queue_db where
  "once_claimed = snd (claim_one example_cfg 5 ''w'' one_queued)"

definition swept_queue :: queue_db where
  "swept_queue = snd (reconcile_orphans (\<lambda>p. False) 6 once_claimed)"

definition twice_claimed :: queue_db where
  "twice_claimed = snd (claim_one example_cfg 9000000 ''w2'' swept_queue)"

definition example_claim :: "int \<Rightarrow> int \<Rightarrow> claim_rec" where
  "example_claim tok attempt = \<lparr>cm_key = (''a'', ''r'', KRun), cm_token = tok, cm_attempt = attempt, cm_payload = []\<rparr>"

lemmas queue_eval = example_cfg_def empty_queue_def example_item_def enqueue_def ensure_tenant_def depth_def queue_row_at_def
  fresh_row_def item_stamp_def item_attempts_def claim_one_def pick_def claimable_def in_flight_def update_rows_def
  reconcile_orphans_def orphaned_def reconciled_def example_claim_def Let_def

lemma one_queued_eval:
  "one_queued = \<lparr>qd_rows = [fresh_row example_cfg 1 (example_item ''a'')],
     qd_sched = Map.empty(''a'' \<mapsto> \<lparr>sd_deficit = 0, sd_weight = 1, sd_last_claim_at = None\<rparr>),
     qd_limits = Map.empty(''a'' \<mapsto> \<lparr>tl_max_in_flight = 1, tl_max_queue_depth = 5\<rparr>), qd_workers = Map.empty, qd_mode = Some MOpen\<rparr>"
  by (simp add: one_queued_def queue_eval)

lemma first_claim: "claim_one example_cfg 5 ''w'' one_queued = (Some (example_claim 1 0), once_claimed)"
  unfolding once_claimed_def by (simp add: one_queued_eval queue_eval)

lemma once_claimed_eval:
  "qd_rows once_claimed = [(fresh_row example_cfg 1 (example_item ''a''))\<lparr>qr_status := QClaimed, qr_claimed_by := Some ''w'',
     qr_claim_token := 1, qr_heartbeat_at := Some 5\<rparr>]"
  "qd_limits once_claimed = Map.empty(''a'' \<mapsto> \<lparr>tl_max_in_flight = 1, tl_max_queue_depth = 5\<rparr>)"
  "qd_workers once_claimed = Map.empty" "qd_mode once_claimed = Some MOpen"
  "qd_sched once_claimed ''a'' = Some \<lparr>sd_deficit = -1, sd_weight = 1, sd_last_claim_at = Some 5\<rparr>"
  by (simp_all add: once_claimed_def one_queued_eval queue_eval charge_tenant_def CLAIM_COST_def)

lemma swept_eval:
  "qd_rows swept_queue = [(fresh_row example_cfg 1 (example_item ''a''))\<lparr>qr_claim_token := 1, qr_attempt := 1,
     qr_not_before := 2000006\<rparr>]"
  "qd_limits swept_queue = Map.empty(''a'' \<mapsto> \<lparr>tl_max_in_flight = 1, tl_max_queue_depth = 5\<rparr>)" "qd_mode swept_queue = Some MOpen"
  "qd_sched swept_queue ''a'' = Some \<lparr>sd_deficit = -1, sd_weight = 1, sd_last_claim_at = Some 5\<rparr>"
  by (simp_all add: swept_queue_def once_claimed_eval queue_eval)

lemma second_claim: "claim_one example_cfg 9000000 ''w2'' swept_queue = (Some (example_claim 2 1), twice_claimed)"
  unfolding twice_claimed_def by (simp add: swept_eval queue_eval)

lemma example_queue_run:
  "queue_run example_cfg one_queued []" "queue_run example_cfg once_claimed [example_claim 1 0]"
  "queue_run example_cfg twice_claimed [example_claim 2 1, example_claim 1 0]"
proof -
  have "queue_run example_cfg empty_queue []" by (rule queue_run.empty) (simp add: empty_queue_def)
  then show q1: "queue_run example_cfg one_queued []"
    by (rule queue_run.step) (rule queue_step.enqueued[where now = 1 and rt = False and item = "example_item ''a''"],
      simp add: one_queued_def prod_eq_iff)
  then show q2: "queue_run example_cfg once_claimed [example_claim 1 0]"
    by (rule queue_run.step) (rule queue_step.claimed[OF first_claim])
  then have "queue_run example_cfg swept_queue [example_claim 1 0]"
    by (rule queue_run.step) (rule queue_step.swept[where alive = "\<lambda>p. False" and now = 6], simp add: swept_queue_def prod_eq_iff)
  then show "queue_run example_cfg twice_claimed [example_claim 2 1, example_claim 1 0]"
    by (rule queue_run.step) (rule queue_step.claimed[OF second_claim])
qed

theorem claim_takes_the_right_row_witness:
  "queue_ok one_queued \<and> qd_mode one_queued = Some MOpen \<and> in_flight once_claimed ''a'' = in_flight one_queued ''a'' + 1"
proof -
  have ok: "queue_ok one_queued" by (simp add: queue_ok_def one_queued_eval)
  have key: "cm_key (example_claim 1 0) = (''a'', ''r'', KRun)" by (simp add: example_claim_def)
  from claim_takes_the_right_row[OF ok first_claim] obtain p where
    p: "cm_key (example_claim 1 0) = qr_key p" "in_flight once_claimed (row_tenant p) = in_flight one_queued (row_tenant p) + 1"
    and m: "qd_mode one_queued = Some MOpen" by auto
  have "row_tenant p = ''a''" using p(1) key by (cases "qr_key p") simp
  then show ?thesis using ok m p(2) by simp
qed

theorem overtaken_claims_are_powerless_witness:
  "finish 7 (example_claim 1 0) QSucceeded None twice_claimed = (Inl StaleClaim, twice_claimed)"
  using overtaken_claims_are_powerless[OF example_queue_run(3), of "example_claim 1 0" "example_claim 2 1" 7 QSucceeded None]
  by (simp add: example_claim_def)

theorem orphans_retried_boundedly_witness:
  "\<exists>n. reconcile_orphans (\<lambda>p. False) 6 once_claimed = (n, swept_queue) \<and> length (qd_rows swept_queue) = 1"
proof -
  obtain n where r: "reconcile_orphans (\<lambda>p. False) 6 once_claimed = (n, swept_queue)"
    by (simp add: swept_queue_def prod_eq_iff)
  from orphans_retried_boundedly[OF example_queue_run(2) r] r show ?thesis by (auto simp: once_claimed_eval)
qed


end
