(* ===== verification/Skill_Document.thy ===== *)
theory Skill_Document
  imports Run_Contracts
begin

section \<open>Skill documents\<close>

text \<open>
  The immutable half of a skill, \<open>SkillVersion\<close> of \<open>contracts/skill.py\<close>, with its validators: typed step
  outputs and bindings, the check that the step bindings form a directed acyclic graph (Kahn's algorithm),
  the non-judge criterion, declared placeholders, and distinct uses. The nodes of a run read only the
  fields collected in the record \<open>skill_version\<close> of the run contracts; here the document is complete but
  for free text that no check reads.
\<close>

datatype precondition_kind = FileExists | PathGlob | EnvPresent | ToolAvailable | Probe

datatype value_type = TString | TNumber | TBoolean | TPath | TJson

datatype value_source = FromStdout | FromStderr | FromExitCode

datatype resource_mode = RMRead | RMWrite | RMExclusive

datatype secret_scan = ScanPassed | ScanFailed | ScanSkipped

record step_output =
  so_name :: string
  so_type :: value_type
  so_value_from :: value_source

record input_binding =
  ib_input :: string
  ib_source_step :: string
  ib_output :: string

record resource_claim =
  rc_kind :: string
  rc_id :: string
  rc_mode :: resource_mode

record doc_step =
  ds_id :: string
  ds_tool :: "string option"
  ds_intent :: string
  ds_inputs :: "string list"
  ds_outputs :: "step_output list"
  ds_input_bindings :: "input_binding list"
  ds_resources :: "resource_claim list"

record provenance =
  pv_curation :: curation
  pv_source_case_ids :: "string list"
  pv_source_run_ids :: "string list"
  pv_source_session_ids :: "string list"
  pv_source_contributor_ids :: "string list"

record hygiene =
  hy_secret_scan :: secret_scan
  hy_lint_content_hash :: "string option"

record skill_doc =
  sd_skill_id :: skill_id
  sd_version :: int
  sd_supersedes :: "int option"
  sd_title :: string
  sd_intent :: string
  sd_task_class :: string
  sd_uses :: "(skill_id \<times> int) list"
  sd_parameters :: "string list"
  sd_preconditions :: "(precondition_kind \<times> string) list"
  sd_steps :: "doc_step list"
  sd_certification_criteria :: "certification_criterion list"
  sd_failure_modes :: "(string \<times> string) list"
  sd_provenance :: provenance
  sd_hygiene :: hygiene

abbreviation doc_key :: "skill_doc \<Rightarrow> skill_id \<times> int" where
  "doc_key d \<equiv> (sd_skill_id d, sd_version d)"

subsection \<open>Validators of a step\<close>

definition output_ok :: "step_output \<Rightarrow> bool" where
  "output_ok q \<longleftrightarrow>
     (so_value_from q = FromExitCode \<longrightarrow> so_type q = TNumber) \<and>
     (so_value_from q \<in> {FromStdout, FromStderr} \<longrightarrow> so_type q \<noteq> TNumber)"

definition step_ok :: "doc_step \<Rightarrow> bool" where
  "step_ok s \<longleftrightarrow> (\<forall>q \<in> set (ds_outputs s). output_ok q) \<and> distinct (map so_name (ds_outputs s)) \<and>
     distinct (map ib_input (ds_input_bindings s))"

definition step_dependencies :: "doc_step \<Rightarrow> string list" where
  "step_dependencies s = remdups (map ib_source_step (ds_input_bindings s))"

subsection \<open>The step graph\<close>

datatype dag_error = DuplicateStepId | SelfBinding | UnknownSource | UnknownOutput | StepCycle

definition find_step :: "doc_step list \<Rightarrow> string \<Rightarrow> doc_step option" where
  "find_step steps sid = List.find (\<lambda>s. ds_id s = sid) steps"

definition binding_error :: "doc_step list \<Rightarrow> doc_step \<Rightarrow> input_binding \<Rightarrow> dag_error option" where
  "binding_error steps s b =
     (if ib_source_step b = ds_id s then Some SelfBinding
      else case find_step steps (ib_source_step b) of
             None \<Rightarrow> Some UnknownSource
           | Some src \<Rightarrow> if ib_output b \<in> set (map so_name (ds_outputs src)) then None else Some UnknownOutput)"

fun first_error :: "('a \<Rightarrow> 'e option) \<Rightarrow> 'a list \<Rightarrow> 'e option" where
  "first_error f [] = None"
| "first_error f (x # xs) = (case f x of None \<Rightarrow> first_error f xs | Some e \<Rightarrow> Some e)"

text \<open>The successors of a step in the order of the document, and the indegree table.\<close>

definition successors :: "doc_step list \<Rightarrow> string \<Rightarrow> string list" where
  "successors steps sid = map ds_id (filter (\<lambda>s. sid \<in> set (step_dependencies s)) steps)"

definition indegrees :: "doc_step list \<Rightarrow> (string \<times> int) list" where
  "indegrees steps = map (\<lambda>s. (ds_id s, int (length (step_dependencies s)))) steps"

text \<open>One visited node: each successor loses one open dependency and is queued when it has none left.\<close>

definition lower_indegree :: "string \<Rightarrow> (string \<times> int) list \<Rightarrow> (string \<times> int) list" where
  "lower_indegree n table = map (\<lambda>(i, k). if i = n then (i, k - 1) else (i, k)) table"

fun visit :: "string list \<Rightarrow> string list \<Rightarrow> (string \<times> int) list \<Rightarrow> string list \<times> (string \<times> int) list" where
  "visit [] queue table = (queue, table)"
| "visit (n # ns) queue table =
     (let table' = lower_indegree n table
      in visit ns (if map_of table' n = Some 0 then queue @ [n] else queue) table')"

definition open_dependencies :: "(string \<times> int) list \<Rightarrow> nat" where
  "open_dependencies table = sum_list (map (\<lambda>(i, k). nat k) table)"

lemma lower_indegree_open:
  "open_dependencies (lower_indegree n table) \<le> open_dependencies table \<and>
   (map_of (lower_indegree n table) n = Some 0 \<longrightarrow> open_dependencies (lower_indegree n table) < open_dependencies table)"
  by (induction table) (auto simp: open_dependencies_def lower_indegree_def)

lemma visit_measure:
  "visit ns queue table = (queue', table') \<Longrightarrow>
     length queue' + open_dependencies table' \<le> length queue + open_dependencies table"
proof (induction ns arbitrary: queue table)
  case (Cons n ns)
  then show ?case
    using lower_indegree_open[of n table] by (fastforce simp: Let_def split: if_splits)
qed simp

text \<open>The loop of Kahn's algorithm: the number of nodes it visits.\<close>

function kahn :: "(string \<Rightarrow> string list) \<Rightarrow> string list \<Rightarrow> (string \<times> int) list \<Rightarrow> nat" where
  "kahn succs queue table =
     (if queue = [] then 0
      else let (queue', table') = visit (succs (last queue)) (butlast queue) table in 1 + kahn succs queue' table')"
  by pat_completeness auto
termination
proof (relation "measure (\<lambda>(succs, queue, table). length queue + open_dependencies table)")
  fix succs :: "string \<Rightarrow> string list" and queue table z queue' table'
  assume q: "queue \<noteq> []" and z: "z = visit (succs (last queue)) (butlast queue) table" "(queue', table') = z"
  have "length queue' + open_dependencies table' \<le> length (butlast queue) + open_dependencies table"
    by (rule visit_measure[of "succs (last queue)"]) (simp add: z)
  moreover have "length (butlast queue) < length queue" using q by simp
  ultimately show "((succs, queue', table'), (succs, queue, table)) \<in> measure (\<lambda>(succs, queue, table). length queue + open_dependencies table)"
    by simp
qed simp

declare kahn.simps [simp del]

definition steps_form_a_dag :: "doc_step list \<Rightarrow> dag_error option" where
  "steps_form_a_dag steps =
     (if \<not> distinct (map ds_id steps) then Some DuplicateStepId
      else case first_error (\<lambda>s. first_error (binding_error steps s) (ds_input_bindings s)) steps of
             Some e \<Rightarrow> Some e
           | None \<Rightarrow>
               if kahn (successors steps) (map fst (filter (\<lambda>(i, k). k = 0) (indegrees steps))) (indegrees steps) \<noteq> length steps
               then Some StepCycle else None)"

subsection \<open>The other validators\<close>

text \<open>\<open>_placeholders_in\<close>: the matches of the regular expression for two opening braces, blanks, an identifier,
  blanks, two closing braces, from left to right.\<close>

definition ident_start :: "char \<Rightarrow> bool" where
  "ident_start c \<longleftrightarrow> (97 \<le> (of_char c :: nat) \<and> (of_char c :: nat) \<le> 122) \<or> c = CHR ''_''"

definition ident_char :: "char \<Rightarrow> bool" where
  "ident_char c \<longleftrightarrow> ident_start c \<or> (48 \<le> (of_char c :: nat) \<and> (of_char c :: nat) \<le> 57)"

definition placeholder_here :: "string \<Rightarrow> (string \<times> string) option" where
  "placeholder_here s =
     (if take 2 s \<noteq> ''{{'' then None
      else let body = dropWhile is_space (drop 2 s); name = takeWhile ident_char body;
               rest = dropWhile is_space (dropWhile ident_char body)
           in if name \<noteq> [] \<and> ident_start (hd name) \<and> take 2 rest = ''}}'' then Some (name, drop 2 rest) else None)"

lemma placeholder_here_shorter: "placeholder_here s = Some (name, rest) \<Longrightarrow> length rest < length s"
proof -
  assume p: "placeholder_here s = Some (name, rest)"
  have le: "length (dropWhile P xs) \<le> length xs" for P and xs :: string by (rule length_dropWhile_le)
  from p have t: "take 2 s = ''{{''" and r: "rest = drop 2 (dropWhile is_space (dropWhile ident_char (dropWhile is_space (drop 2 s))))"
    by (auto simp: placeholder_here_def Let_def split: if_splits)
  have "2 \<le> length s" using t by (metis length_take length_Cons list.size(3) min.bounded_iff One_nat_def Suc_1 order_refl)
  moreover have "length rest \<le> length (drop 2 s)" unfolding r
    using le[of is_space "dropWhile ident_char (dropWhile is_space (drop 2 s))"] le[of ident_char "dropWhile is_space (drop 2 s)"]
      le[of is_space "drop 2 s"] by simp
  ultimately show ?thesis by simp
qed

function placeholders_in :: "string \<Rightarrow> string list" where
  "placeholders_in s =
     (case s of
        [] \<Rightarrow> []
      | c # s' \<Rightarrow> (case placeholder_here s of None \<Rightarrow> placeholders_in s' | Some (name, rest) \<Rightarrow> name # placeholders_in rest))"
  by pat_completeness auto
termination
  by (relation "measure length") (auto dest: placeholder_here_shorter)

declare placeholders_in.simps [simp del]

definition used_placeholders :: "skill_doc \<Rightarrow> string list" where
  "used_placeholders d =
     concat (map (\<lambda>s. placeholders_in (ds_intent s) @ concat (map placeholders_in (ds_inputs s))) (sd_steps d)) @
     concat (map (\<lambda>c. concat (map (\<lambda>f. case f of None \<Rightarrow> [] | Some t \<Rightarrow> placeholders_in t) [c_run c, c_rubric c, c_expr c]))
       (sd_certification_criteria d))"

definition doc_ok :: "skill_doc \<Rightarrow> bool" where
  "doc_ok d \<longleftrightarrow> 1 \<le> sd_version d \<and> (\<forall>s \<in> set (sd_steps d). step_ok s) \<and> sd_steps d \<noteq> [] \<and>
     sd_certification_criteria d \<noteq> [] \<and> steps_form_a_dag (sd_steps d) = None \<and>
     (\<exists>c \<in> set (sd_certification_criteria d). c_kind c \<noteq> Judge) \<and>
     set (used_placeholders d) \<subseteq> set (sd_parameters d) \<and> distinct (sd_uses d)"

subsection \<open>Kahn's algorithm decides acyclicity\<close>

definition depends_on :: "doc_step list \<Rightarrow> (string \<times> string) set" where
  "depends_on steps = {(d, ds_id s) |d s. s \<in> set steps \<and> d \<in> set (step_dependencies s)}"

definition resolved :: "doc_step list \<Rightarrow> bool" where
  "resolved steps \<longleftrightarrow> (\<forall>s \<in> set steps. set (step_dependencies s) \<subseteq> set (map ds_id steps))"

lemma map_of_lower: "map_of (lower_indegree n table) m = (if m = n then map_option (\<lambda>k. k - 1) (map_of table m) else map_of table m)"
  by (induction table) (auto simp: lower_indegree_def)

lemma visit_spec:
  "distinct ns \<Longrightarrow> visit ns queue table =
     (queue @ filter (\<lambda>n. map_of table n = Some 1) ns, fold lower_indegree ns table)"
proof (induction ns arbitrary: queue table)
  case (Cons n ns)
  have "filter (\<lambda>m. map_of (lower_indegree n table) m = Some 1) ns = filter (\<lambda>m. map_of table m = Some 1) ns"
    by (rule filter_cong) (use Cons.prems in \<open>auto simp: map_of_lower\<close>)
  moreover have "map_of (lower_indegree n table) n = Some 0 \<longleftrightarrow> map_of table n = Some 1"
    by (auto simp: map_of_lower)
  ultimately show ?case using Cons by (simp add: Let_def)
qed simp

lemma map_of_fold_lower:
  "distinct ns \<Longrightarrow> map_of (fold lower_indegree ns table) m =
     (if m \<in> set ns then map_option (\<lambda>k. k - 1) (map_of table m) else map_of table m)"
  by (induction ns arbitrary: table) (auto simp: map_of_lower)

text \<open>The state of the loop: the nodes visited so far, in order, and what queue and table say of the others.\<close>

definition kahn_inv :: "doc_step list \<Rightarrow> string list \<Rightarrow> string list \<Rightarrow> (string \<times> int) list \<Rightarrow> bool" where
  "kahn_inv steps vs queue table \<longleftrightarrow>
     distinct (vs @ queue) \<and> set (vs @ queue) \<subseteq> set (map ds_id steps) \<and>
     (\<forall>s \<in> set steps. map_of table (ds_id s) = Some (int (card (set (step_dependencies s) - set vs)))) \<and>
     (\<forall>s \<in> set steps. ds_id s \<in> set (vs @ queue) \<longleftrightarrow> set (step_dependencies s) \<subseteq> set vs) \<and>
     (\<forall>i < length vs. \<forall>s \<in> set steps. ds_id s = vs ! i \<longrightarrow> set (step_dependencies s) \<subseteq> set (take i vs))"

lemma distinct_ids: "distinct (map ds_id steps) \<Longrightarrow> s \<in> set steps \<Longrightarrow> t \<in> set steps \<Longrightarrow> ds_id s = ds_id t \<Longrightarrow> s = t"
  by (auto simp: distinct_map dest: inj_onD)

lemma successors_iff: "n \<in> set (successors steps d) \<longleftrightarrow> (\<exists>s \<in> set steps. ds_id s = n \<and> d \<in> set (step_dependencies s))"
  by (auto simp: successors_def)

lemma distinct_successors: "distinct (map ds_id steps) \<Longrightarrow> distinct (successors steps d)"
  by (simp add: successors_def distinct_map_filter)

lemma kahn_inv_start:
  assumes "distinct (map ds_id steps)"
  shows "kahn_inv steps [] (map fst (filter (\<lambda>(i, k). k = 0) (indegrees steps))) (indegrees steps)"
proof -
  have q: "map fst (filter (\<lambda>(i, k). k = 0) (indegrees steps)) = map ds_id (filter (\<lambda>s. step_dependencies s = []) steps)"
    by (induction steps) (simp_all add: indegrees_def)
  have card: "length (step_dependencies s) = card (set (step_dependencies s))" for s
    by (rule distinct_card[symmetric]) (simp add: step_dependencies_def)
  have "map_of (indegrees steps) (ds_id s) = Some (int (card (set (step_dependencies s))))" if "s \<in> set steps" for s
    using map_of_is_SomeI[of "indegrees steps"] assms that by (auto simp: indegrees_def comp_def card)
  moreover have "ds_id s \<in> ds_id ` {s \<in> set steps. step_dependencies s = []} \<longleftrightarrow> step_dependencies s = []" if "s \<in> set steps" for s
    using distinct_ids[OF assms] that by auto
  ultimately show ?thesis
    using assms unfolding kahn_inv_def q by (auto simp: distinct_map_filter)
qed

lemma kahn_inv_step:
  assumes ids: "distinct (map ds_id steps)" and inv: "kahn_inv steps vs (q0 @ [n]) table"
    and v: "visit (successors steps n) q0 table = (queue', table')"
  shows "kahn_inv steps (vs @ [n]) queue' table'"
proof -
  let ?deps = "\<lambda>s. set (step_dependencies s)" let ?new = "filter (\<lambda>m. map_of table m = Some 1) (successors steps n)"
  have q': "queue' = q0 @ ?new" and t': "table' = fold lower_indegree (successors steps n) table"
    using v visit_spec[OF distinct_successors[OF ids]] by simp_all
  have d: "distinct vs" "distinct q0" "n \<notin> set vs" "n \<notin> set q0" "set vs \<inter> set q0 = {}"
    "set vs \<union> {n} \<union> set q0 \<subseteq> set (map ds_id steps)"
    using inv by (auto simp: kahn_inv_def)
  have cnt: "map_of table (ds_id s) = Some (int (card (?deps s - set vs)))" if "s \<in> set steps" for s
    using inv that by (simp add: kahn_inv_def)
  have mem: "ds_id s \<in> set vs \<or> ds_id s = n \<or> ds_id s \<in> set q0 \<longleftrightarrow> ?deps s \<subseteq> set vs" if "s \<in> set steps" for s
    using inv that by (auto simp: kahn_inv_def)
  have succ: "ds_id s \<in> set (successors steps n) \<longleftrightarrow> n \<in> ?deps s" if "s \<in> set steps" for s
    unfolding successors_iff using distinct_ids[OF ids] that by metis
  have new: "ds_id s \<in> set ?new \<longleftrightarrow> n \<in> ?deps s \<and> card (?deps s - set vs) = 1" if "s \<in> set steps" for s
    using succ[OF that] cnt[OF that] by auto
  have diff: "?deps s - set (vs @ [n]) = (?deps s - set vs) - {n}" for s by auto
  have closed: "?deps s \<subseteq> set (vs @ [n]) \<longleftrightarrow> ?deps s \<subseteq> set vs \<or> (n \<in> ?deps s \<and> card (?deps s - set vs) = 1)" for s
  proof -
    have "?deps s \<subseteq> set (vs @ [n]) \<longleftrightarrow> ?deps s - set vs \<subseteq> {n}" by auto
    also have "\<dots> \<longleftrightarrow> ?deps s - set vs = {} \<or> ?deps s - set vs = {n}" by (rule subset_singleton_iff)
    also have "\<dots> \<longleftrightarrow> ?deps s \<subseteq> set vs \<or> (n \<in> ?deps s \<and> card (?deps s - set vs) = 1)"
    proof -
      have "A = {n} \<longleftrightarrow> n \<in> A \<and> card A = 1" for A :: "string set" by (metis card_1_singletonE is_singletonI is_singleton_altdef singletonD singletonI)
      then show ?thesis using d(3) by simp
    qed
    finally show ?thesis .
  qed
  have sub: "set ?new \<subseteq> set (map ds_id steps)" by (auto simp: successors_def)
  have fresh: "x \<notin> set vs \<union> {n} \<union> set q0" if x: "x \<in> set ?new" for x
  proof -
    obtain s where s: "s \<in> set steps" "x = ds_id s" using x sub by auto
    then have "\<not> ?deps s \<subseteq> set vs" using new[OF s(1)] x d(3) by auto
    then show ?thesis using mem[OF s(1)] s(2) by auto
  qed
  have "distinct ?new" using distinct_successors[OF ids] by simp
  then have 1: "distinct ((vs @ [n]) @ queue')" using d fresh unfolding q' by auto
  have 2: "set ((vs @ [n]) @ queue') \<subseteq> set (map ds_id steps)" using d(6) sub unfolding q' by auto
  have 3: "map_of table' (ds_id s) = Some (int (card (?deps s - set (vs @ [n]))))" if s: "s \<in> set steps" for s
  proof (cases "n \<in> ?deps s")
    case True
    then have "?deps s - set vs \<noteq> {}" using d(3) by auto
    then have "0 < card (?deps s - set vs)" by (simp add: card_gt_0_iff)
    moreover have "card ((?deps s - set vs) - {n}) = card (?deps s - set vs) - 1"
      using True d(3) by (simp add: card_Diff_singleton)
    ultimately have e: "int (card ((?deps s - set vs) - {n})) = int (card (?deps s - set vs)) - 1" by linarith
    show ?thesis unfolding t' diff e map_of_fold_lower[OF distinct_successors[OF ids]] cnt[OF s] succ[OF s] using True by simp
  next
    case False
    then show ?thesis unfolding t' diff map_of_fold_lower[OF distinct_successors[OF ids]]
      using succ[OF s] cnt[OF s] by (simp add: card_Diff_singleton_if)
  qed
  have 4: "ds_id s \<in> set ((vs @ [n]) @ queue') \<longleftrightarrow> ?deps s \<subseteq> set (vs @ [n])" if s: "s \<in> set steps" for s
    unfolding closed using mem[OF s] new[OF s] by (auto simp: q')
  have 5: "?deps s \<subseteq> set (take i (vs @ [n]))" if "i < length (vs @ [n])" "s \<in> set steps" "ds_id s = (vs @ [n]) ! i" for i s
    using inv that mem[OF that(2)] by (cases "i < length vs") (auto simp: kahn_inv_def nth_append less_Suc_eq)
  show ?thesis unfolding kahn_inv_def using 1 2 3 4 5 by blast
qed

lemma kahn_visits:
  assumes "distinct (map ds_id steps)"
  shows "kahn_inv steps vs queue table \<Longrightarrow>
    \<exists>ws table'. kahn_inv steps (vs @ ws) [] table' \<and> kahn (successors steps) queue table = length ws"
proof (induction "length queue + open_dependencies table" arbitrary: vs queue table rule: less_induct)
  case less
  show ?case
  proof (cases queue rule: rev_cases)
    case Nil
    then show ?thesis using less.prems by (intro exI[of _ "[]"] exI[of _ table]) (simp add: kahn.simps)
  next
    case (snoc q0 n)
    obtain queue' table' where v: "visit (successors steps n) q0 table = (queue', table')" by fastforce
    have inv: "kahn_inv steps (vs @ [n]) queue' table'" by (rule kahn_inv_step[OF assms less.prems[unfolded snoc] v])
    have "length queue' + open_dependencies table' < length queue + open_dependencies table"
      using visit_measure[OF v] snoc by simp
    from less.hyps[OF this inv] obtain ws t where "kahn_inv steps ((vs @ [n]) @ ws) [] t"
      "kahn (successors steps) queue' table' = length ws" by blast
    moreover have "kahn (successors steps) queue table = 1 + kahn (successors steps) queue' table'"
      by (subst kahn.simps) (simp add: snoc v)
    ultimately show ?thesis by (intro exI[of _ "n # ws"] exI[of _ t]) simp
  qed
qed

lemma kahn_final_acyclic:
  assumes "kahn_inv steps ws [] table" "distinct (map ds_id steps)" "resolved steps"
  shows "length ws = length steps \<longleftrightarrow> acyclic (depends_on steps)"
proof
  have ws: "distinct ws" "set ws \<subseteq> set (map ds_id steps)" using assms(1) by (auto simp: kahn_inv_def)
  assume "length ws = length steps"
  then have all: "set ws = set (map ds_id steps)"
    using ws card_subset_eq[of "set (map ds_id steps)" "set ws"] distinct_card[of ws] distinct_card[OF assms(2)] by simp
  define pos where "pos n = length (takeWhile (\<lambda>x. x \<noteq> n) ws)" for n
  have "pos d < pos n" if "(d, n) \<in> depends_on steps" for d n
  proof -
    from that obtain s where s: "s \<in> set steps" "n = ds_id s" "d \<in> set (step_dependencies s)" by (auto simp: depends_on_def)
    have "n \<in> set ws" using all s by auto
    then obtain ys zs where "ws = ys @ n # zs" "n \<notin> set ys" by (blast dest: split_list_first)
    moreover from this have "takeWhile (\<lambda>x. x \<noteq> n) ws = ys" by (auto simp: takeWhile_append)
    ultimately have n: "pos n < length ws" "ws ! pos n = n" by (simp_all add: pos_def)
    have "\<forall>i < length ws. \<forall>s \<in> set steps. ds_id s = ws ! i \<longrightarrow> set (step_dependencies s) \<subseteq> set (take i ws)"
      using assms(1) by (simp add: kahn_inv_def)
    from this[rule_format, OF n(1) s(1)] have "d \<in> set (take (pos n) ws)" using s(2,3) n(2) by auto
    then obtain j where j: "j < pos n" "ws ! j = d" using n(1) by (auto simp: in_set_conv_nth)
    have "pos d \<le> j"
    proof (rule ccontr)
      assume "\<not> pos d \<le> j"
      then have "j < length (takeWhile (\<lambda>x. x \<noteq> d) ws)" by (simp add: pos_def)
      from takeWhile_nth[OF this] nth_mem[OF this] show False using j(2) by (auto dest: set_takeWhileD)
    qed
    then show ?thesis using j(1) by simp
  qed
  then have "depends_on steps \<subseteq> measure pos" by auto
  then show "acyclic (depends_on steps)" using wf_acyclic wf_measure wf_subset by blast
next
  have ws: "distinct ws" "set ws \<subseteq> set (map ds_id steps)" using assms(1) by (auto simp: kahn_inv_def)
  have fin: "finite (depends_on steps)"
    by (rule finite_subset[of _ "(\<Union>s \<in> set steps. set (step_dependencies s)) \<times> set (map ds_id steps)"]) (auto simp: depends_on_def)
  assume "acyclic (depends_on steps)"
  then have wf: "wf (depends_on steps)" using finite_acyclic_wf[OF fin] by simp
  have "set (map ds_id steps) \<subseteq> set ws"
  proof (rule ccontr)
    assume "\<not> ?thesis"
    then obtain x where "x \<in> set (map ds_id steps) - set ws" by auto
    from wfE_min[OF wf this] obtain z where z: "z \<in> set (map ds_id steps) - set ws"
      and min: "\<And>y. (y, z) \<in> depends_on steps \<Longrightarrow> y \<notin> set (map ds_id steps) - set ws" by blast
    from z obtain s where s: "s \<in> set steps" "ds_id s = z" by auto
    have "set (step_dependencies s) \<subseteq> set ws"
      using min s assms(3) by (fastforce simp: depends_on_def resolved_def)
    then show False using assms(1) s z by (auto simp: kahn_inv_def)
  qed
  then have "set ws = set (map ds_id steps)" using ws by auto
  then show "length ws = length steps" using distinct_card[OF ws(1)] distinct_card[OF assms(2)] by simp
qed

lemma first_error_None: "first_error f xs = None \<longleftrightarrow> (\<forall>x \<in> set xs. f x = None)"
  by (induction xs) (auto split: option.splits)

lemma find_step_None: "find_step steps i = None \<longleftrightarrow> i \<notin> set (map ds_id steps)"
  by (auto simp: find_step_def find_None_iff)

lemma binding_error_None:
  "binding_error steps s b = None \<longleftrightarrow> ib_source_step b \<noteq> ds_id s \<and>
     (\<exists>src. find_step steps (ib_source_step b) = Some src \<and> ib_output b \<in> set (map so_name (ds_outputs src)))"
  by (cases "find_step steps (ib_source_step b)") (auto simp: binding_error_def)

lemma bindings_resolved:
  assumes "\<forall>s \<in> set steps. \<forall>b \<in> set (ds_input_bindings s). binding_error steps s b = None"
  shows "resolved steps"
proof -
  have "ib_source_step b \<in> set (map ds_id steps)" if "s \<in> set steps" "b \<in> set (ds_input_bindings s)" for s b
  proof -
    have "find_step steps (ib_source_step b) \<noteq> None" using assms that by (auto simp: binding_error_None)
    then show ?thesis by (simp only: find_step_None not_not)
  qed
  then show ?thesis by (auto simp: resolved_def step_dependencies_def)
qed

subsection \<open>Properties\<close>

text \<open>
  C26. The step validator decides acyclicity: it accepts the steps of a document exactly when the step ids
  are unique, every binding names an output of another step of the document, and the dependency
  relation of the bindings has no cycle.\<close>

theorem steps_form_a_dag_iff:
  "steps_form_a_dag steps = None \<longleftrightarrow>
     distinct (map ds_id steps) \<and>
     (\<forall>s \<in> set steps. \<forall>b \<in> set (ds_input_bindings s). ib_source_step b \<noteq> ds_id s \<and>
        (\<exists>src. find_step steps (ib_source_step b) = Some src \<and> ib_output b \<in> set (map so_name (ds_outputs src)))) \<and>
     acyclic (depends_on steps)"
proof (cases "distinct (map ds_id steps) \<and> (\<forall>s \<in> set steps. \<forall>b \<in> set (ds_input_bindings s). binding_error steps s b = None)")
  case True
  then have ids: "distinct (map ds_id steps)" and res: "resolved steps" by (auto intro: bindings_resolved)
  let ?k = "kahn (successors steps) (map fst (filter (\<lambda>(i, k). k = 0) (indegrees steps))) (indegrees steps)"
  obtain ws t where w: "kahn_inv steps ([] @ ws) [] t" "?k = length ws"
    using kahn_visits[OF ids kahn_inv_start[OF ids]] by blast
  have "first_error (\<lambda>s. first_error (binding_error steps s) (ds_input_bindings s)) steps = None"
    using True by (simp add: first_error_None)
  then have "steps_form_a_dag steps = None \<longleftrightarrow> acyclic (depends_on steps)"
    using ids w kahn_final_acyclic[OF w(1)[simplified] ids res] by (simp add: steps_form_a_dag_def)
  then show ?thesis using True unfolding binding_error_None by blast
next
  case False
  then have "steps_form_a_dag steps \<noteq> None"
    by (auto simp: steps_form_a_dag_def first_error_None split: option.split)
  then show ?thesis using False unfolding binding_error_None by blast
qed

subsection \<open>Examples\<close>

definition two_steps :: "doc_step list" where
  "two_steps =
     [\<lparr>ds_id = ''use'', ds_tool = None, ds_intent = ''i'', ds_inputs = [''x''], ds_outputs = [],
       ds_input_bindings = [\<lparr>ib_input = ''x'', ib_source_step = ''make'', ib_output = ''out''\<rparr>], ds_resources = []\<rparr>,
      \<lparr>ds_id = ''make'', ds_tool = None, ds_intent = ''i'', ds_inputs = [],
       ds_outputs = [\<lparr>so_name = ''out'', so_type = TString, so_value_from = FromStdout\<rparr>], ds_input_bindings = [], ds_resources = []\<rparr>]"

theorem steps_form_a_dag_iff_witness: "steps_form_a_dag two_steps = None \<and> acyclic (depends_on two_steps)"
proof -
  have "steps_form_a_dag two_steps = None" by code_simp
  then show ?thesis using steps_form_a_dag_iff[of two_steps] by blast
qed

end
