(* ===== verification/Skill_Stats.thy ===== *)
theory Skill_Stats
  imports Run_Contracts "HOL-Library.Multiset" "HOL-Library.Char_ord" "HOL-Library.List_Lexorder" "HOL-Library.Product_Lexorder"
begin

section \<open>Evidence about a skill and the capacity controller\<close>

text \<open>
  The derived half of the skill library: \<open>SkillStats\<close> of \<open>contracts/stats.py\<close>, the binomial intervals of
  \<open>recertia/stats.py\<close>, the estimates of \<open>memory/procedural/contribution.py\<close>, the retirement predicate of
  \<open>retirement.py\<close>, live-mix admission (\<open>live_mix.py\<close>), the ranking of \<open>portfolio.py\<close> and the thresholds of
  \<open>autonomy.py\<close>. Nothing here writes anything.
\<close>

subsection \<open>Statistics of one version\<close>

record predictive_trust =
  pt_applications :: int
  pt_successes :: int
  pt_last_used_at :: "instant option"
  pt_decayed_score :: "real option"

record contribution =
  ct_applications :: int
  ct_successes :: int
  ct_suppressed_applications :: int
  ct_suppressed_successes :: int
  ct_interval_low :: "real option"
  ct_interval_high :: "real option"

record apply_diversity =
  ad_distinct_apply_sessions :: int
  ad_apply_session_sample :: "string list"
  ad_floor :: int

record skill_stats =
  st_skill_id :: skill_id
  st_version :: int
  st_predictive_trust :: predictive_trust
  st_contribution :: contribution
  st_apply_diversity :: apply_diversity

definition no_trust :: predictive_trust where
  "no_trust = \<lparr>pt_applications = 0, pt_successes = 0, pt_last_used_at = None, pt_decayed_score = None\<rparr>"

definition no_contribution :: contribution where
  "no_contribution =
     \<lparr>ct_applications = 0, ct_successes = 0, ct_suppressed_applications = 0, ct_suppressed_successes = 0,
      ct_interval_low = None, ct_interval_high = None\<rparr>"

definition no_diversity :: apply_diversity where
  "no_diversity = \<lparr>ad_distinct_apply_sessions = 0, ad_apply_session_sample = [], ad_floor = 30\<rparr>"

definition default_stats :: "skill_id \<Rightarrow> int \<Rightarrow> skill_stats" where
  "default_stats sid v =
     \<lparr>st_skill_id = sid, st_version = v, st_predictive_trust = no_trust, st_contribution = no_contribution,
      st_apply_diversity = no_diversity\<rparr>"

definition trust_score :: "int \<Rightarrow> int \<Rightarrow> real" where
  "trust_score applications successes = (real_of_int successes + 1) / (real_of_int applications + 2)"

definition contribution_estimate :: "contribution \<Rightarrow> real option" where
  "contribution_estimate c =
     (if ct_applications c = 0 \<or> ct_suppressed_applications c = 0 then None
      else Some (real_of_int (ct_successes c) / real_of_int (ct_applications c) -
                 real_of_int (ct_suppressed_successes c) / real_of_int (ct_suppressed_applications c)))"

text \<open>\<open>ApplyDiversity.note\<close>.\<close>

definition note_session :: "string \<Rightarrow> apply_diversity \<Rightarrow> apply_diversity" where
  "note_session session d =
     (if session = [] then d
      else if session \<in> set (ad_apply_session_sample d) then d
      else if ad_apply_session_sample d = [] \<and> ad_floor d \<le> ad_distinct_apply_sessions d then d
      else let count = ad_distinct_apply_sessions d + 1; sample = ad_apply_session_sample d @ [session]
           in d\<lparr>ad_distinct_apply_sessions := count,
                ad_apply_session_sample := (if ad_floor d \<le> count then [] else sample)\<rparr>)"

text \<open>\<open>SkillStats._sample_bounded_by_floor\<close> with the field bounds.\<close>

definition diversity_ok :: "apply_diversity \<Rightarrow> bool" where
  "diversity_ok d \<longleftrightarrow> 0 \<le> ad_distinct_apply_sessions d \<and> 1 \<le> ad_floor d \<and>
     int (length (ad_apply_session_sample d)) \<le> ad_floor d \<and>
     int (length (ad_apply_session_sample d)) \<le> ad_distinct_apply_sessions d"

subsection \<open>Intervals\<close>

record binomial_sample =
  bs_successes :: int
  bs_trials :: int

record confidence_interval =
  ci_low :: real
  ci_high :: real
  ci_level :: real

datatype stats_error = UnsupportedLevel | SqrtDomain

definition z_for :: "real \<Rightarrow> real option" where
  "z_for level =
     (if level = 90 / 100 then Some (16448536269514722 / 10 ^ 16)
      else if level = 95 / 100 then Some (1959963984540054 / 10 ^ 15)
      else if level = 99 / 100 then Some (25758293035489004 / 10 ^ 16)
      else None)"

definition rate :: "binomial_sample \<Rightarrow> real option" where
  "rate s = (if bs_trials s = 0 then None else Some (real_of_int (bs_successes s) / real_of_int (bs_trials s)))"

text \<open>\<open>math.sqrt\<close> raises on a negative argument.\<close>

definition math_sqrt :: "real \<Rightarrow> (stats_error, real) result" where
  "math_sqrt x = (if x < 0 then Inl SqrtDomain else Inr (sqrt x))"

definition wilson_interval :: "int \<Rightarrow> int \<Rightarrow> real \<Rightarrow> (stats_error, confidence_interval option) result" where
  "wilson_interval successes trials level =
     (if trials \<le> 0 then Inr None
      else case z_for level of
             None \<Rightarrow> Inl UnsupportedLevel
           | Some z \<Rightarrow>
               (let n = real_of_int trials; p = real_of_int successes / n; z2 = z * z;
                    denom = 1 + z2 / n; centre = (p + z2 / (2 * n)) / denom
                in case math_sqrt (p * (1 - p) / n + z2 / (4 * n * n)) of
                     Inl e \<Rightarrow> Inl e
                   | Inr r \<Rightarrow>
                       (let half = (z / denom) * r
                        in Inr (Some \<lparr>ci_low = max 0 (centre - half), ci_high = min 1 (centre + half), ci_level = level\<rparr>))))"

text \<open>The samples have trials once both Wilson intervals exist, so the rates are numbers.\<close>

definition newcombe_wilson_difference ::
    "binomial_sample \<Rightarrow> binomial_sample \<Rightarrow> real \<Rightarrow> (stats_error, confidence_interval option) result" where
  "newcombe_wilson_difference treatment control level =
     (case wilson_interval (bs_successes treatment) (bs_trials treatment) level of
        Inl e \<Rightarrow> Inl e
      | Inr ti \<Rightarrow>
          (case wilson_interval (bs_successes control) (bs_trials control) level of
             Inl e \<Rightarrow> Inl e
           | Inr ci \<Rightarrow>
               (case (ti, ci, rate treatment, rate control) of
                  (Some t, Some c, Some rt, Some rc) \<Rightarrow>
                    Inr (Some \<lparr>ci_low = rt - rc - sqrt ((rt - ci_low t)\<^sup>2 + (ci_high c - rc)\<^sup>2),
                               ci_high = rt - rc + sqrt ((ci_high t - rt)\<^sup>2 + (rc - ci_low c)\<^sup>2),
                               ci_level = level\<rparr>)
                | _ \<Rightarrow> Inr None)))"

definition default_level :: real where
  "default_level = 95 / 100"

subsection \<open>Estimates\<close>

definition estimate_contribution ::
    "binomial_sample \<Rightarrow> binomial_sample \<Rightarrow> bool \<Rightarrow> (stats_error, contribution) result" where
  "estimate_contribution shadow suppression has_required_non_judge =
     (if \<not> has_required_non_judge then
        Inr (no_contribution\<lparr>ct_applications := bs_trials shadow, ct_successes := bs_successes shadow\<rparr>)
      else if bs_trials shadow = 0 \<or> bs_trials suppression = 0 then
        Inr \<lparr>ct_applications = bs_trials shadow, ct_successes = bs_successes shadow,
             ct_suppressed_applications = bs_trials suppression, ct_suppressed_successes = bs_successes suppression,
             ct_interval_low = None, ct_interval_high = None\<rparr>
      else case newcombe_wilson_difference shadow suppression default_level of
             Inl e \<Rightarrow> Inl e
           | Inr interval \<Rightarrow>
               Inr \<lparr>ct_applications = bs_trials shadow, ct_successes = bs_successes shadow,
                    ct_suppressed_applications = bs_trials suppression, ct_suppressed_successes = bs_successes suppression,
                    ct_interval_low = map_option ci_low interval, ct_interval_high = map_option ci_high interval\<rparr>)"

record retrieval_ablation =
  ra_task_class :: string
  ra_retrieval_enabled :: int
  ra_retrieval_enabled_successes :: int
  ra_retrieval_suppressed :: int
  ra_retrieval_suppressed_successes :: int
  ra_interval_low :: "real option"
  ra_interval_high :: "real option"

definition estimate_retrieval_ablation ::
    "string \<Rightarrow> binomial_sample \<Rightarrow> binomial_sample \<Rightarrow> (stats_error, retrieval_ablation) result" where
  "estimate_retrieval_ablation task_class enabled suppressed =
     (case newcombe_wilson_difference enabled suppressed default_level of
        Inl e \<Rightarrow> Inl e
      | Inr interval \<Rightarrow>
          Inr \<lparr>ra_task_class = task_class, ra_retrieval_enabled = bs_trials enabled,
               ra_retrieval_enabled_successes = bs_successes enabled, ra_retrieval_suppressed = bs_trials suppressed,
               ra_retrieval_suppressed_successes = bs_successes suppressed,
               ra_interval_low = map_option ci_low interval, ra_interval_high = map_option ci_high interval\<rparr>)"

subsection \<open>Thresholds, retirement and live mix\<close>

record autonomy_config =
  au_shadow_min_successes :: int
  au_shadow_min_applications :: int
  au_shadow_min_lift :: real
  au_quarantine_consecutive_failures :: int
  au_evidence_floor :: int
  au_retirement_threshold :: real
  au_active_cap_per_task_class :: int
  au_shadow_slots_per_task_class :: int
  au_curation_prior_self_distilled :: real

definition DEFAULT_AUTONOMY :: autonomy_config where
  "DEFAULT_AUTONOMY =
     \<lparr>au_shadow_min_successes = 5, au_shadow_min_applications = 8, au_shadow_min_lift = 5 / 100,
      au_quarantine_consecutive_failures = 2, au_evidence_floor = 30, au_retirement_threshold = 5 / 100,
      au_active_cap_per_task_class = 50, au_shadow_slots_per_task_class = 3, au_curation_prior_self_distilled = 85 / 100\<rparr>"

datatype retirement_action = BelowFloor | NoEstimate | NoInterval | Keep | Retire

definition retirement_decision :: "int \<Rightarrow> real option \<Rightarrow> real option \<Rightarrow> int \<Rightarrow> real \<Rightarrow> retirement_action" where
  "retirement_decision applications estimate interval_high evidence_floor tau =
     (if applications < evidence_floor then BelowFloor
      else case estimate of
             None \<Rightarrow> NoEstimate
           | Some _ \<Rightarrow>
               (case interval_high of
                  None \<Rightarrow> NoInterval
                | Some h \<Rightarrow> if - tau \<le> h then Keep else Retire))"

definition live_mix_eligible :: "curation \<Rightarrow> skill_stats option \<Rightarrow> bool" where
  "live_mix_eligible cur stats =
     (if cur \<noteq> SelfDistilled then True
      else case stats of
             None \<Rightarrow> False
           | Some s \<Rightarrow> (case contribution_estimate (st_contribution s) of None \<Rightarrow> False | Some e \<Rightarrow> 0 \<le> e))"

subsection \<open>Ranking\<close>

text \<open>A score is a number or minus infinity (\<open>None\<close>).\<close>

record rank_item =
  ri_skill_id :: skill_id
  ri_version :: int
  ri_contribution_estimate :: "real option"
  ri_predictive_trust :: real
  ri_applications :: int
  ri_last_used_at :: "instant option"
  ri_score :: "real option"
  ri_interval_high :: "real option"

definition rank_item_of :: "(skill_id \<times> int) \<times> skill_stats \<Rightarrow> rank_item" where
  "rank_item_of c =
     (case c of ((sid, v), s) \<Rightarrow>
     \<lparr>ri_skill_id = sid, ri_version = v,
      ri_contribution_estimate = contribution_estimate (st_contribution s),
      ri_predictive_trust = trust_score (pt_applications (st_predictive_trust s)) (pt_successes (st_predictive_trust s)),
      ri_applications = ct_applications (st_contribution s),
      ri_last_used_at = pt_last_used_at (st_predictive_trust s),
      ri_score = contribution_estimate (st_contribution s),
      ri_interval_high = ct_interval_high (st_contribution s)\<rparr>)"

text \<open>\<open>_recency_sort_key\<close> and \<open>_sort_key\<close>: every component ascends. The negated score of minus infinity is
  plus infinity, which sorts after every number.\<close>

definition recency_sort_key :: "instant option \<Rightarrow> int \<times> int" where
  "recency_sort_key t = (case t of None \<Rightarrow> (1, 0) | Some m \<Rightarrow> (0, - m))"

definition negated_score :: "real option \<Rightarrow> int \<times> real" where
  "negated_score s = (case s of None \<Rightarrow> (1, 0) | Some x \<Rightarrow> (0, - x))"

type_synonym rank_key = "(int \<times> real) \<times> real \<times> (int \<times> int) \<times> int \<times> string \<times> int"

definition rank_key :: "rank_item \<Rightarrow> rank_key" where
  "rank_key i =
     (negated_score (ri_score i), - ri_predictive_trust i, recency_sort_key (ri_last_used_at i), - ri_applications i,
      ri_skill_id i, ri_version i)"

definition rank_skills :: "(rank_item \<Rightarrow> real option) option \<Rightarrow> ((skill_id \<times> int) \<times> skill_stats) list \<Rightarrow> rank_item list" where
  "rank_skills score_fn candidates =
     (let items = map rank_item_of candidates;
          items' = (case score_fn of None \<Rightarrow> items | Some f \<Rightarrow> map (\<lambda>i. i\<lparr>ri_score := f i\<rparr>) items)
      in sort_key rank_key items')"

definition select_active :: "rank_item list \<Rightarrow> int \<Rightarrow> (skill_id \<times> int) list" where
  "select_active ranked cap =
     (if cap \<le> 0 then [] else map (\<lambda>i. (ri_skill_id i, ri_version i)) (take (nat cap) ranked))"

record retirement_proposal =
  rq_skill_id :: skill_id
  rq_version :: int
  rq_contribution_estimate :: "real option"
  rq_applications :: int

definition propose_retirements :: "rank_item list \<Rightarrow> autonomy_config \<Rightarrow> retirement_proposal list" where
  "propose_retirements ranked cfg =
     map (\<lambda>i. \<lparr>rq_skill_id = ri_skill_id i, rq_version = ri_version i,
               rq_contribution_estimate = ri_contribution_estimate i, rq_applications = ri_applications i\<rparr>)
       (filter (\<lambda>i. retirement_decision (ri_applications i) (ri_contribution_estimate i) (ri_interval_high i)
                      (au_evidence_floor cfg) (au_retirement_threshold cfg) = Retire) ranked)"

subsection \<open>Interval lemmas\<close>

lemma z_for_pos: "z_for level = Some z \<Longrightarrow> 0 < z"
  by (auto simp: z_for_def split: if_splits)

lemma z_for_default: "z_for default_level = Some (1959963984540054 / 10 ^ 15)"
  by (simp add: z_for_def default_level_def)

text \<open>The point estimate lies within the Wilson score bounds.\<close>

lemma wilson_centre:
  fixes p z n :: real
  assumes "0 \<le> p" "p \<le> 1" "0 < n" "0 < z"
  defines "denom \<equiv> 1 + z * z / n"
  shows "\<bar>p - (p + z * z / (2 * n)) / denom\<bar> \<le> (z / denom) * sqrt (p * (1 - p) / n + z * z / (4 * n * n))"
proof -
  have d: "0 < denom" using assms(3,4) by (simp add: denom_def add_pos_pos)
  have var: "0 \<le> p * (1 - p) / n" using assms(1-3) by simp
  have eq: "p - (p + z * z / (2 * n)) / denom = (z / denom) * (z * (p - 1 / 2) / n)"
  proof -
    have "p * denom - (p + z * z / (2 * n)) = z * (z * (p - 1 / 2) / n)"
      using assms(3) by (simp add: denom_def field_simps)
    moreover have "p - (p + z * z / (2 * n)) / denom = (p * denom - (p + z * z / (2 * n))) / denom"
      using d by (simp add: diff_divide_distrib)
    ultimately show ?thesis by simp
  qed
  have "(z * (p - 1 / 2) / n)\<^sup>2 \<le> p * (1 - p) / n + z * z / (4 * n * n)"
  proof -
    have "(z * (p - 1 / 2) / n)\<^sup>2 = z * z / (4 * n * n) - (z * z / n) * (p * (1 - p) / n)"
      using assms(3) by (simp add: power2_eq_square field_simps)
    moreover have "0 \<le> (z * z / n) * (p * (1 - p) / n)"
      by (rule mult_nonneg_nonneg) (use var assms(3) in simp_all)
    ultimately show ?thesis using var by linarith
  qed
  then have "\<bar>z * (p - 1 / 2) / n\<bar> \<le> sqrt (p * (1 - p) / n + z * z / (4 * n * n))"
    by (rule real_le_rsqrt[of "\<bar>_\<bar>", unfolded power2_abs])
  then have "(z / denom) * \<bar>z * (p - 1 / 2) / n\<bar> \<le> (z / denom) * sqrt (p * (1 - p) / n + z * z / (4 * n * n))"
    by (rule mult_left_mono) (use d assms(4) in simp)
  moreover have "\<bar>z / denom\<bar> = z / denom" using d assms(4) by simp
  ultimately show ?thesis by (simp only: eq abs_mult)
qed

lemma wilson_contains_rate:
  assumes "0 \<le> s" "s \<le> n" "0 < n" "z_for level = Some z"
  shows "\<exists>ci. wilson_interval s n level = Inr (Some ci) \<and> 0 \<le> ci_low ci \<and> ci_low ci \<le> real_of_int s / real_of_int n \<and>
    real_of_int s / real_of_int n \<le> ci_high ci \<and> ci_high ci \<le> 1"
proof -
  define p where "p = real_of_int s / real_of_int n"
  have p: "0 \<le> p" "p \<le> 1" using assms(1-3) by (simp_all add: p_def)
  have n: "0 < real_of_int n" using assms(3) by simp
  let ?n = "real_of_int n" let ?d = "1 + z * z / ?n"
  let ?c = "(p + z * z / (2 * ?n)) / ?d" let ?h = "(z / ?d) * sqrt (p * (1 - p) / ?n + z * z / (4 * ?n * ?n))"
  have "\<bar>p - ?c\<bar> \<le> ?h" by (rule wilson_centre[OF p n z_for_pos[OF assms(4)]])
  then have b: "?c - ?h \<le> p" "p \<le> ?c + ?h" by (simp_all add: abs_le_iff)
  have "0 \<le> p * (1 - p) / ?n + z * z / (4 * ?n * ?n)" using p n by (intro add_nonneg_nonneg) simp_all
  then have "wilson_interval s n level = Inr (Some \<lparr>ci_low = max 0 (?c - ?h), ci_high = min 1 (?c + ?h), ci_level = level\<rparr>)"
    unfolding wilson_interval_def math_sqrt_def Let_def p_def[symmetric] using assms(3,4) by simp
  then show ?thesis using b p by (simp flip: p_def)
qed

text \<open>The sample a store can hold: counts of trials and of successes among them.\<close>

definition sample_ok :: "binomial_sample \<Rightarrow> bool" where
  "sample_ok s \<longleftrightarrow> 0 \<le> bs_successes s \<and> bs_successes s \<le> bs_trials s"

lemma sqrt_sum_le:
  fixes x y :: real
  assumes "0 \<le> x" "0 \<le> y"
  shows "sqrt (x\<^sup>2 + y\<^sup>2) \<le> x + y"
  by (rule real_le_lsqrt) (use assms in \<open>simp_all add: power2_sum\<close>)

lemma newcombe_bounds:
  assumes "sample_ok t" "sample_ok c" "0 < bs_trials t" "0 < bs_trials c" "z_for level = Some z"
  shows "\<exists>ci. newcombe_wilson_difference t c level = Inr (Some ci) \<and>
    -1 \<le> ci_low ci \<and> ci_low ci \<le> the (rate t) - the (rate c) \<and> the (rate t) - the (rate c) \<le> ci_high ci \<and> ci_high ci \<le> 1"
proof -
  obtain ti ci where
    ti: "wilson_interval (bs_successes t) (bs_trials t) level = Inr (Some ti)" "0 \<le> ci_low ti" "ci_low ti \<le> the (rate t)"
      "the (rate t) \<le> ci_high ti" "ci_high ti \<le> 1" and
    ci: "wilson_interval (bs_successes c) (bs_trials c) level = Inr (Some ci)" "0 \<le> ci_low ci" "ci_low ci \<le> the (rate c)"
      "the (rate c) \<le> ci_high ci" "ci_high ci \<le> 1"
    using wilson_contains_rate[of "bs_successes t" "bs_trials t" level z] wilson_contains_rate[of "bs_successes c" "bs_trials c" level z]
      assms by (auto simp: sample_ok_def rate_def)
  have r: "rate t = Some (the (rate t))" "rate c = Some (the (rate c))" using assms(3,4) by (auto simp: rate_def)
  have lo: "sqrt ((the (rate t) - ci_low ti)\<^sup>2 + (ci_high ci - the (rate c))\<^sup>2) \<le> (the (rate t) - ci_low ti) + (ci_high ci - the (rate c))"
    and hi: "sqrt ((ci_high ti - the (rate t))\<^sup>2 + (the (rate c) - ci_low ci)\<^sup>2) \<le> (ci_high ti - the (rate t)) + (the (rate c) - ci_low ci)"
    using ti ci by (simp_all add: sqrt_sum_le)
  have nonneg: "0 \<le> sqrt ((the (rate t) - ci_low ti)\<^sup>2 + (ci_high ci - the (rate c))\<^sup>2)"
    "0 \<le> sqrt ((ci_high ti - the (rate t))\<^sup>2 + (the (rate c) - ci_low ci)\<^sup>2)" by simp_all
  show ?thesis
    unfolding newcombe_wilson_difference_def ti(1) ci(1) sum.case option.case prod.case
    by (subst r(1), subst r(2)) (use lo hi nonneg ti ci in auto)
qed

lemma estimate_contribution_sound:
  assumes "sample_ok shadow" "sample_ok suppression"
  obtains c where "estimate_contribution shadow suppression (0 < bs_trials shadow \<and> 0 < bs_trials suppression) = Inr c"
    "ct_applications c = bs_trials shadow"
    "contribution_estimate c \<noteq> None \<longleftrightarrow> 0 < bs_trials shadow \<and> 0 < bs_trials suppression"
    "\<And>e. contribution_estimate c = Some e \<Longrightarrow>
       \<exists>lo hi. ct_interval_low c = Some lo \<and> ct_interval_high c = Some hi \<and> -1 \<le> lo \<and> lo \<le> e \<and> e \<le> hi \<and> hi \<le> 1"
proof (cases "0 < bs_trials shadow \<and> 0 < bs_trials suppression")
  case True
  then obtain ci where ci: "newcombe_wilson_difference shadow suppression default_level = Inr (Some ci)"
    "-1 \<le> ci_low ci" "ci_low ci \<le> the (rate shadow) - the (rate suppression)"
    "the (rate shadow) - the (rate suppression) \<le> ci_high ci" "ci_high ci \<le> 1"
    using newcombe_bounds[OF assms _ _ z_for_default] by blast
  show ?thesis
    by (rule that) (use True ci in \<open>auto simp: estimate_contribution_def contribution_estimate_def rate_def\<close>)
next
  case False
  show ?thesis
    by (rule that) (use False assms in \<open>auto simp: estimate_contribution_def contribution_estimate_def no_contribution_def sample_ok_def\<close>)
qed

subsection \<open>Ranking lemmas\<close>

lemma rank_item_id [simp]: "ri_skill_id (rank_item_of ((sid, v), s)) = sid" "ri_version (rank_item_of ((sid, v), s)) = v"
  by (simp_all add: rank_item_of_def)

lemma rank_key_id: "rank_key i = rank_key j \<Longrightarrow> ri_skill_id i = ri_skill_id j \<and> ri_version i = ri_version j"
  by (simp add: rank_key_def)

definition scored :: "(rank_item \<Rightarrow> real option) option \<Rightarrow> (skill_id \<times> int) \<times> skill_stats \<Rightarrow> rank_item" where
  "scored score_fn c = (case score_fn of None \<Rightarrow> rank_item_of c | Some f \<Rightarrow> (rank_item_of c)\<lparr>ri_score := f (rank_item_of c)\<rparr>)"

lemma rank_skills_scored: "rank_skills f cs = sort_key rank_key (map (scored f) cs)"
  by (cases f) (simp_all add: rank_skills_def scored_def[abs_def] Let_def comp_def)

lemma scored_id [simp]: "ri_skill_id (scored f c) = fst (fst c)" "ri_version (scored f c) = snd (fst c)"
  by (cases c; simp add: scored_def rank_item_of_def split: option.split prod.splits)+

lemma sort_key_unique:
  assumes "inj_on f (set xs)" "mset xs = mset ys"
  shows "sort_key f xs = sort_key f ys"
proof (rule map_inj_on)
  have "sort (map f xs) = sort (map f ys)" using assms(2) by (simp add: properties_for_sort mset_map)
  moreover have "map f (sort_key f zs) = sort (map f zs)" for zs
    by (rule properties_for_sort[symmetric]) (simp_all add: mset_map)
  ultimately show "map f (sort_key f xs) = map f (sort_key f ys)" by simp
  show "inj_on f (set (sort_key f xs) \<union> set (sort_key f ys))"
    using assms mset_eq_setD[OF assms(2)] by simp
qed

lemma scored_key_inj:
  assumes "distinct (map fst cs)"
  shows "inj_on rank_key (set (map (scored f) cs))"
proof (rule inj_onI)
  fix i j assume i: "i \<in> set (map (scored f) cs)" and j: "j \<in> set (map (scored f) cs)" and k: "rank_key i = rank_key j"
  from i j obtain c d where c: "c \<in> set cs" "d \<in> set cs" "i = scored f c" "j = scored f d" by auto
  from rank_key_id[OF k] c(3,4) have "fst c = fst d" by (simp add: prod_eq_iff)
  with c(1,2) assms have "c = d" by (auto simp: distinct_map dest: inj_onD)
  then show "i = j" using c by simp
qed

lemma select_active_subset: "set (select_active ranked cap) \<subseteq> set (map (\<lambda>i. (ri_skill_id i, ri_version i)) ranked)"
  by (auto simp: select_active_def dest: in_set_takeD)

lemma length_select_active: "length (select_active ranked cap) = min (nat cap) (length ranked)"
  by (simp add: select_active_def min_def)

lemma sorted_take_best:
  assumes "sorted (map f xs)" "i \<in> set (take n xs)" "j \<in> set (drop n xs)"
  shows "f i \<le> f j"
proof -
  have "sorted (map f (take n xs @ drop n xs))" using assms(1) by simp
  then show ?thesis using assms(2,3) by (auto simp only: map_append sorted_append set_map image_iff)
qed

text \<open>The sessions noted so far, as the counter and the bounded sample represent them.\<close>

definition noted :: "string set \<Rightarrow> apply_diversity \<Rightarrow> bool" where
  "noted seen d \<longleftrightarrow>
     (if ad_distinct_apply_sessions d < ad_floor d
      then distinct (ad_apply_session_sample d) \<and> set (ad_apply_session_sample d) = seen \<and>
        ad_distinct_apply_sessions d = int (card seen)
      else ad_distinct_apply_sessions d = ad_floor d \<and> ad_apply_session_sample d = [] \<and> ad_floor d \<le> int (card seen))"

lemma note_session_floor [simp]: "ad_floor (note_session x d) = ad_floor d"
  by (simp add: note_session_def Let_def)

lemma noted_step:
  assumes "noted seen d" "finite seen" "[] \<notin> seen"
  shows "noted (insert x seen - {[]}) (note_session x d)"
proof (cases "x = [] \<or> x \<in> seen")
  case True
  then have "insert x seen - {[]} = seen" using assms(3) by auto
  moreover have "note_session x d = d" using True assms(1) by (auto simp: note_session_def noted_def split: if_splits)
  ultimately show ?thesis using assms(1) by simp
next
  case False
  then have eq: "insert x seen - {[]} = insert x seen" and card: "card (insert x seen) = card seen + 1" using assms(2,3) by auto
  show ?thesis
    using assms(1) False unfolding eq by (auto simp: note_session_def noted_def card Let_def split: if_splits)
qed

lemma noted_fold:
  assumes "1 \<le> ad_floor d" "ad_distinct_apply_sessions d = 0" "ad_apply_session_sample d = []"
  shows "noted (set sessions - {[]}) (fold note_session sessions d)"
proof (induction sessions rule: rev_induct)
  case Nil
  then show ?case using assms by (simp add: noted_def)
next
  case (snoc x xs)
  have "insert x (set xs - {[]}) - {[]} = set (xs @ [x]) - {[]}" by auto
  then show ?case using noted_step[OF snoc.IH, of x] by simp
qed

lemma fold_note_floor [simp]: "ad_floor (fold note_session sessions d) = ad_floor d"
  by (induction sessions arbitrary: d) simp_all

subsection \<open>Properties\<close>

text \<open>
  Retirement needs confident harm: for counts of trials and successes the contribution of a version
  is always computed; it has an estimate exactly when both arms were observed, the estimate then lies in its
  interval, the interval in [-1, 1], and the retirement predicate answers retire only past the
  evidence floor and with an estimate below minus the threshold.\<close>

theorem retirement_needs_confident_harm:
  assumes "sample_ok shadow" "sample_ok suppression"
  shows "\<exists>c. estimate_contribution shadow suppression (0 < bs_trials shadow \<and> 0 < bs_trials suppression) = Inr c \<and>
     (contribution_estimate c \<noteq> None \<longleftrightarrow> 0 < bs_trials shadow \<and> 0 < bs_trials suppression) \<and>
     (\<forall>e. contribution_estimate c = Some e \<longrightarrow>
        (\<exists>lo hi. ct_interval_low c = Some lo \<and> ct_interval_high c = Some hi \<and> -1 \<le> lo \<and> lo \<le> e \<and> e \<le> hi \<and> hi \<le> 1)) \<and>
     (retirement_decision (ct_applications c) (contribution_estimate c) (ct_interval_high c) min_apps tau = Retire \<longrightarrow>
        min_apps \<le> bs_trials shadow \<and> (\<exists>e. contribution_estimate c = Some e \<and> e < - tau))"
proof -
  obtain c where c: "estimate_contribution shadow suppression (0 < bs_trials shadow \<and> 0 < bs_trials suppression) = Inr c"
    "ct_applications c = bs_trials shadow"
    "contribution_estimate c \<noteq> None \<longleftrightarrow> 0 < bs_trials shadow \<and> 0 < bs_trials suppression"
    "\<And>e. contribution_estimate c = Some e \<Longrightarrow>
       \<exists>lo hi. ct_interval_low c = Some lo \<and> ct_interval_high c = Some hi \<and> -1 \<le> lo \<and> lo \<le> e \<and> e \<le> hi \<and> hi \<le> 1"
    by (rule estimate_contribution_sound[OF assms]) (rule that, assumption+)
  have "min_apps \<le> bs_trials shadow \<and> (\<exists>e. contribution_estimate c = Some e \<and> e < - tau)"
    if r: "retirement_decision (ct_applications c) (contribution_estimate c) (ct_interval_high c) min_apps tau = Retire"
  proof -
    from r obtain e h where e: "contribution_estimate c = Some e" "ct_interval_high c = Some h" "h < - tau" "min_apps \<le> bs_trials shadow"
      by (auto simp: retirement_decision_def c(2) split: if_splits option.splits)
    with c(4)[OF e(1)] show ?thesis by auto
  qed
  with c show ?thesis by blast
qed

text \<open>
  The ranking is a total order of the candidates, whatever order the store lists them in: it is a
  permutation of the scored candidates, sorted by the ranking key, and every listing of the same
  versions gives the same ranking.\<close>

theorem ranking_independent_of_listing:
  assumes "distinct (map fst candidates)" "mset candidates' = mset candidates"
  shows "rank_skills f candidates' = rank_skills f candidates \<and>
         sorted (map rank_key (rank_skills f candidates)) \<and>
         set (map (\<lambda>i. (ri_skill_id i, ri_version i)) (rank_skills f candidates)) = set (map fst candidates) \<and>
         distinct (map (\<lambda>i. (ri_skill_id i, ri_version i)) (rank_skills f candidates))"
proof -
  have d: "distinct (map fst candidates')" using assms by (metis mset_eq_imp_distinct_iff mset_map)
  have "mset (map (scored f) candidates') = mset (map (scored f) candidates)" using assms(2) by (simp add: mset_map)
  then have same: "rank_skills f candidates' = rank_skills f candidates"
    unfolding rank_skills_scored by (rule sort_key_unique[OF scored_key_inj[OF d]])
  have ids: "mset (map (\<lambda>i. (ri_skill_id i, ri_version i)) (rank_skills f candidates)) = mset (map fst candidates)"
    unfolding rank_skills_scored by (simp add: multiset.map_comp comp_def)
  from ids have "distinct (map (\<lambda>i. (ri_skill_id i, ri_version i)) (rank_skills f candidates))"
    using assms(1) mset_eq_imp_distinct_iff by blast
  moreover from ids have "set (map (\<lambda>i. (ri_skill_id i, ri_version i)) (rank_skills f candidates)) = set (map fst candidates)"
    by (rule mset_eq_setD)
  ultimately show ?thesis using same by (simp add: rank_skills_scored)
qed

text \<open>
  The bounded session sample counts exactly: after any sequence of application sessions the counter
  is the number of distinct non-empty sessions, up to the evidence floor, and the retained sample never
  exceeds the floor and is dropped once the floor is reached.\<close>

theorem session_count_exact_up_to_floor:
  assumes "1 \<le> ad_floor d" "ad_distinct_apply_sessions d = 0" "ad_apply_session_sample d = []"
  shows "ad_distinct_apply_sessions (fold note_session sessions d) = min (ad_floor d) (int (card (set sessions - {[]}))) \<and>
         diversity_ok (fold note_session sessions d) \<and>
         (ad_floor d \<le> int (card (set sessions - {[]})) \<longrightarrow> ad_apply_session_sample (fold note_session sessions d) = [])"
proof -
  let ?d = "fold note_session sessions d" let ?n = "card (set sessions - {[]})"
  have n: "noted (set sessions - {[]}) ?d" by (rule noted_fold[OF assms])
  have len: "length (ad_apply_session_sample ?d) = ?n" if "ad_distinct_apply_sessions ?d < ad_floor d"
    using n that by (auto simp: noted_def distinct_card[symmetric])
  show ?thesis
    using n len assms(1) by (auto simp: noted_def diversity_ok_def split: if_splits)
qed

subsection \<open>Examples\<close>

theorem session_count_exact_up_to_floor_witness:
  "ad_distinct_apply_sessions (fold note_session [''a'', ''b'', ''a'', [], ''c''] no_diversity) = 3"
proof -
  have "set [''a'', ''b'', ''a'', [], ''c''] - {[]} = {''a'', ''b'', ''c''}" by auto
  then have "card (set [''a'', ''b'', ''a'', [], ''c''] - {[]}) = 3" by simp
  with session_count_exact_up_to_floor[of no_diversity "[''a'', ''b'', ''a'', [], ''c'']"]
  show ?thesis by (simp add: no_diversity_def del: fold.simps fold_simps set_simps)
qed

definition example_sample :: "int \<Rightarrow> binomial_sample" where
  "example_sample k = \<lparr>bs_successes = k, bs_trials = 40\<rparr>"

theorem retirement_needs_confident_harm_witness:
  "\<exists>c. estimate_contribution (example_sample 10) (example_sample 30) True = Inr c \<and> contribution_estimate c = Some (- 1 / 2) \<and>
     (\<exists>hi. ct_interval_high c = Some hi \<and> - 1 / 2 \<le> hi \<and> hi \<le> 1)"
proof -
  have "sample_ok (example_sample 10)" "sample_ok (example_sample 30)" by (simp_all add: sample_ok_def example_sample_def)
  from retirement_needs_confident_harm[OF this, of 30 0] obtain c where
    c: "estimate_contribution (example_sample 10) (example_sample 30) True = Inr c" "contribution_estimate c \<noteq> None"
      "\<forall>e. contribution_estimate c = Some e \<longrightarrow>
        (\<exists>lo hi. ct_interval_low c = Some lo \<and> ct_interval_high c = Some hi \<and> -1 \<le> lo \<and> lo \<le> e \<and> e \<le> hi \<and> hi \<le> 1)"
    by (auto simp: example_sample_def)
  have "contribution_estimate c = Some (- 1 / 2)"
    using c(1) by (auto simp: estimate_contribution_def contribution_estimate_def example_sample_def split: sum.splits)
  with c show ?thesis by auto
qed

definition example_candidates :: "((skill_id \<times> int) \<times> skill_stats) list" where
  "example_candidates = [((''b'', 1), default_stats ''b'' 1), ((''a'', 2), default_stats ''a'' 2), ((''a'', 1), default_stats ''a'' 1)]"

theorem ranking_independent_of_listing_witness:
  "rank_skills None (rev example_candidates) = rank_skills None example_candidates \<and>
   map (\<lambda>i. (ri_skill_id i, ri_version i)) (rank_skills None example_candidates) = [(''a'', 1), (''a'', 2), (''b'', 1)]"
proof -
  have "distinct (map fst example_candidates)" by (simp add: example_candidates_def)
  from ranking_independent_of_listing[OF this mset_rev, of None] show ?thesis
    by (auto simp: example_candidates_def rank_skills_def rank_item_of_def rank_key_def default_stats_def Let_def
        no_contribution_def contribution_estimate_def no_trust_def negated_score_def recency_sort_key_def less_char_def)
qed

end
