(* ===== verification/Skill_Lint.thy ===== *)
theory Skill_Lint
  imports Skill_Document Skill_Status Skill_Stats
begin

section \<open>Linting of skill documents\<close>

text \<open>
  \<open>memory/procedural/lint.py\<close> with the report of \<open>contracts/lint.py\<close>, the semantic profiles of
  \<open>contracts/profiles.py\<close> and the content hash stamp of \<open>memory/procedural/hygiene.py\<close>. The store is read through
  \<open>get_version\<close>, here a function that has no value where the file is missing; the digest stands for
  SHA-256 over the canonical JSON of the document without its hygiene record. Violations are values, the
  message text is left out.
\<close>

type_synonym version_lookup = "skill_id \<times> int \<Rightarrow> skill_doc option"

datatype profile_violation =
    StatusKeyMismatch | NeverReachedCandidate | NoRequiredCriterion | NoProvenCriterion | ScanNotPassed
  | SuccessesExceedApplications | DecayedScoreRange | SuppressedExceed | IntervalWithoutArms | IntervalOrder
  | SampleExceedsFloor | DistinctBelowSample
  | NotApproved | JudgeOnly | NoModelRecorded | NoEvidence | SingleSession | ActiveNotApproved | UsesItself

datatype severity = SevError | SevWarning

datatype lint_code =
    Profile profile_violation
  | SpecPreconditions | SpecFailureModes | SpecThinMode nat | Vague
  | R1_3 | R1_4 | R2_4 string | R3_1 string | R5 | Crit
  | DagMissing "skill_id \<times> int" | DagCycle "skill_id \<times> int" | DagDepth "skill_id \<times> int" | Compose "string \<times> string"

type_synonym finding = "lint_code \<times> severity"

subsection \<open>Profiles\<close>

definition validate_predictive_trust :: "predictive_trust \<Rightarrow> profile_violation list" where
  "validate_predictive_trust t =
     (if pt_applications t < pt_successes t then [SuccessesExceedApplications] else []) @
     (case pt_decayed_score t of None \<Rightarrow> [] | Some x \<Rightarrow> if 0 \<le> x \<and> x \<le> 1 then [] else [DecayedScoreRange])"

definition validate_contribution :: "contribution \<Rightarrow> profile_violation list" where
  "validate_contribution c =
     (if ct_applications c < ct_successes c then [SuccessesExceedApplications] else []) @
     (if ct_suppressed_applications c < ct_suppressed_successes c then [SuppressedExceed] else []) @
     (if ct_applications c = 0 \<or> ct_suppressed_applications c = 0
      then (if ct_interval_low c \<noteq> None \<or> ct_interval_high c \<noteq> None then [IntervalWithoutArms] else [])
      else (case (ct_interval_low c, ct_interval_high c) of
              (Some lo, Some hi) \<Rightarrow> if hi < lo then [IntervalOrder] else []
            | _ \<Rightarrow> []))"

definition validate_apply_diversity :: "apply_diversity \<Rightarrow> profile_violation list" where
  "validate_apply_diversity d =
     (if ad_floor d < int (length (ad_apply_session_sample d)) then [SampleExceedsFloor] else []) @
     (if ad_distinct_apply_sessions d < int (length (ad_apply_session_sample d)) then [DistinctBelowSample] else [])"

definition validate_skill_stats :: "skill_stats \<Rightarrow> profile_violation list" where
  "validate_skill_stats s =
     validate_predictive_trust (st_predictive_trust s) @ validate_contribution (st_contribution s) @
     validate_apply_diversity (st_apply_diversity s)"

definition validate_candidate_skill :: "digest \<Rightarrow> skill_doc \<Rightarrow> skill_status \<Rightarrow> profile_violation list" where
  "validate_candidate_skill digest d s =
     (if ss_skill_id s \<noteq> sd_skill_id d \<or> ss_version s \<noteq> sd_version d then [StatusKeyMismatch] else []) @
     (if ss_lifecycle s \<notin> {LcCandidate, LcShadow, LcApproved} then [NeverReachedCandidate] else []) @
     (let required = filter is_required (sd_certification_criteria d)
      in (if required = [] then [NoRequiredCriterion] else []) @
         (if \<exists>c \<in> set required. is_preregistered_and_proven digest c then [] else [NoProvenCriterion])) @
     (if hy_secret_scan (sd_hygiene d) \<noteq> ScanPassed then [ScanNotPassed] else [])"

definition judge_only :: "skill_doc \<Rightarrow> bool" where
  "judge_only d \<longleftrightarrow> (\<forall>c \<in> set (sd_certification_criteria d). c_kind c = Judge)"

definition validate_approved_skill :: "digest \<Rightarrow> skill_doc \<Rightarrow> skill_status \<Rightarrow> skill_stats \<Rightarrow> profile_violation list" where
  "validate_approved_skill digest d s st =
     validate_candidate_skill digest d s @ validate_skill_stats st @
     (if ss_lifecycle s \<noteq> LcApproved then [NotApproved] else []) @
     (if judge_only d then [JudgeOnly] else []) @
     (if ce_model_validated_on (ss_certification s) = None then [NoModelRecorded] else []) @
     (if pv_curation (sd_provenance d) = SelfDistilled
      then (if pt_applications (st_predictive_trust st) = 0 \<and> ce_recert_status (ss_certification s) = NeverCertified
            then [NoEvidence] else []) @
           (if 0 < pt_applications (st_predictive_trust st) \<and> ad_distinct_apply_sessions (st_apply_diversity st) < 2
            then [SingleSession] else [])
      else []) @
     (if ss_active s \<and> ss_lifecycle s \<noteq> LcApproved then [ActiveNotApproved] else []) @
     concat (map (\<lambda>u. if fst u = sd_skill_id d then [UsesItself] else []) (sd_uses d))"

subsection \<open>Words and phrases\<close>

text \<open>Word characters of a regular expression, over one-byte characters, and a case-insensitive search for a
  phrase of letters between two word boundaries.\<close>

definition word_char :: "char \<Rightarrow> bool" where
  "word_char c = (let n = (of_char c :: nat) in
     (48 \<le> n \<and> n \<le> 57) \<or> (65 \<le> n \<and> n \<le> 90) \<or> (97 \<le> n \<and> n \<le> 122) \<or> n = 95 \<or>
     n \<in> {170, 178, 179, 181, 185, 186, 188, 189, 190} \<or> (192 \<le> n \<and> n \<noteq> 215 \<and> n \<noteq> 247))"

fun search_phrase :: "string \<Rightarrow> bool \<Rightarrow> string \<Rightarrow> bool" where
  "search_phrase phrase after_word [] = False"
| "search_phrase phrase after_word (c # s) =
     ((\<not> after_word \<and> take (length phrase) (py_lower (c # s)) = phrase \<and>
       (case drop (length phrase) (c # s) of [] \<Rightarrow> True | e # _ \<Rightarrow> \<not> word_char e)) \<or>
      search_phrase phrase (word_char c) s)"

definition WHEN_CLAUSE :: "string list" where
  "WHEN_CLAUSE = [''when'', ''if'', ''before'', ''unless'', ''only'']"

definition VAGUE_PHRASES :: "string list" where
  "VAGUE_PHRASES =
     [''be careful'', ''handle edge cases'', ''edge cases'', ''as appropriate'', ''generally'', ''try to'', ''make sure'',
      ''etc'', ''and so on'', ''do the right thing'']"

definition matches_any :: "string list \<Rightarrow> string \<Rightarrow> bool" where
  "matches_any phrases blob \<longleftrightarrow> (\<exists>p \<in> set phrases. search_phrase p False blob)"

definition replace_char :: "char \<Rightarrow> char \<Rightarrow> string \<Rightarrow> string" where
  "replace_char a b s = map (\<lambda>c. if c = a then b else c) s"

subsection \<open>Packaging and specificity\<close>

definition packaging_findings :: "skill_doc \<Rightarrow> finding list" where
  "packaging_findings d =
     (if sd_preconditions d = [] \<and> \<not> matches_any WHEN_CLAUSE (sd_intent d) then [(R1_3, SevWarning)] else []) @
     (if py_lower (sd_title d) = replace_char (CHR ''-'') (CHR '' '') (sd_skill_id d) then [(R1_4, SevWarning)] else []) @
     concat (map (\<lambda>s.
       (if py_lower (replace_char (CHR ''-'') (CHR ''_'') (ds_intent s)) = ds_id s then [(R2_4 (ds_id s), SevError)] else []) @
       (if 2048 < length (ds_intent s) then [(R3_1 (ds_id s), SevWarning)] else [])) (sd_steps d)) @
     (if hy_secret_scan (sd_hygiene d) = ScanFailed then [(R5, SevError)] else []) @
     (if judge_only d then [(Crit, SevError)] else [])"

definition specificity_severity :: "skill_status \<Rightarrow> severity" where
  "specificity_severity s = (if ss_lifecycle s \<in> {LcDraft, LcCandidate, LcShadow} then SevError else SevWarning)"

definition specificity_findings :: "skill_doc \<Rightarrow> skill_status \<Rightarrow> finding list" where
  "specificity_findings d s =
     (let sev = specificity_severity s;
          blobs = [sd_intent d, sd_title d] @ map ds_intent (sd_steps d) @ map fst (sd_failure_modes d) @ map snd (sd_failure_modes d)
      in (if sd_preconditions d = [] then [(SpecPreconditions, sev)] else []) @
         (if sd_failure_modes d = [] then [(SpecFailureModes, sev)]
          else concat (map (\<lambda>(i, symptom, response).
                 if length (py_strip symptom) < 12 \<or> length (py_strip response) < 12 then [(SpecThinMode i, sev)] else [])
                 (enumerate 0 (sd_failure_modes d)))) @
         (if \<exists>b \<in> set blobs. matches_any VAGUE_PHRASES b then [(Vague, sev)] else []))"

subsection \<open>The uses graph\<close>

definition check_uses_resolve :: "version_lookup \<Rightarrow> skill_doc \<Rightarrow> lint_code list" where
  "check_uses_resolve get d = map DagMissing (filter (\<lambda>u. get u = None) (sd_uses d))"

text \<open>The walk of \<open>_check_uses_acyclic\<close>; \<open>room\<close> is the number of levels left below the maximal depth.\<close>

fun uses_walk :: "version_lookup \<Rightarrow> nat \<Rightarrow> (skill_id \<times> int) list \<Rightarrow> skill_id \<times> int \<Rightarrow> lint_code list" where
  "uses_walk get room path key =
     (if key \<in> set path then [DagCycle key]
      else case room of
             0 \<Rightarrow> [DagDepth key]
           | Suc r \<Rightarrow>
               (case get key of
                  None \<Rightarrow> []
                | Some child \<Rightarrow> concat (map (uses_walk get r (path @ [key])) (sd_uses child))))"

definition MAX_USES_DEPTH :: nat where
  "MAX_USES_DEPTH = 3"

definition check_uses_acyclic :: "version_lookup \<Rightarrow> skill_doc \<Rightarrow> lint_code list" where
  "check_uses_acyclic get d = concat (map (uses_walk get MAX_USES_DEPTH [doc_key d]) (sd_uses d))"

definition child_claims :: "version_lookup \<Rightarrow> skill_id \<times> int \<Rightarrow> ((string \<times> string) \<times> skill_id \<times> int) list" where
  "child_claims get u =
     (case get u of
        None \<Rightarrow> []
      | Some child \<Rightarrow>
          concat (map (\<lambda>s. map (\<lambda>c. ((rc_kind c, rc_id c), u))
            (filter (\<lambda>c. rc_mode c \<in> {RMWrite, RMExclusive}) (ds_resources s))) (sd_steps child)))"

definition check_composed_claims :: "version_lookup \<Rightarrow> skill_doc \<Rightarrow> lint_code list" where
  "check_composed_claims get d =
     (if length (sd_uses d) < 2 then []
      else let claims = concat (map (child_claims get) (sd_uses d))
           in map Compose (filter (\<lambda>r. 2 \<le> card (snd ` set (filter (\<lambda>c. fst c = r) claims))) (remdups (map fst claims))))"

subsection \<open>The report\<close>

definition no_hygiene :: hygiene where
  "no_hygiene = \<lparr>hy_secret_scan = ScanSkipped, hy_lint_content_hash = None\<rparr>"

definition lint_content_hash :: "(skill_doc \<Rightarrow> string) \<Rightarrow> skill_doc \<Rightarrow> string" where
  "lint_content_hash sha d = sha (d\<lparr>sd_hygiene := no_hygiene\<rparr>)"

definition stamp_lint_hash :: "(skill_doc \<Rightarrow> string) \<Rightarrow> skill_doc \<Rightarrow> skill_doc" where
  "stamp_lint_hash sha d =
     (let h = lint_content_hash sha d
      in if hy_lint_content_hash (sd_hygiene d) = Some h then d
         else d\<lparr>sd_hygiene := (sd_hygiene d)\<lparr>hy_lint_content_hash := Some h\<rparr>\<rparr>)"

definition lint_findings :: "digest \<Rightarrow> version_lookup option \<Rightarrow> skill_doc \<Rightarrow> skill_status \<Rightarrow> skill_stats \<Rightarrow> finding list" where
  "lint_findings digest store d s st =
     (if ss_lifecycle s \<in> {LcCandidate, LcShadow, LcApproved}
      then map (\<lambda>v. (Profile v, SevError)) (validate_candidate_skill digest d s) else []) @
     (if ss_lifecycle s = LcApproved then map (\<lambda>v. (Profile v, SevError)) (validate_approved_skill digest d s st) else []) @
     packaging_findings d @ specificity_findings d s @
     (case store of
        None \<Rightarrow> []
      | Some get \<Rightarrow>
          if sd_uses d = [] then []
          else map (\<lambda>c. (c, SevError)) (check_uses_resolve get d @ check_uses_acyclic get d @ check_composed_claims get d))"

definition lint_report ::
    "(skill_doc \<Rightarrow> string) \<Rightarrow> digest \<Rightarrow> version_lookup option \<Rightarrow> bool \<Rightarrow> skill_doc \<Rightarrow> skill_status \<Rightarrow> skill_stats option \<Rightarrow> finding list" where
  "lint_report sha digest store skip_if_hash_matches d s st =
     (if skip_if_hash_matches \<and> hy_lint_content_hash (sd_hygiene d) \<notin> {None, Some []} \<and>
         hy_lint_content_hash (sd_hygiene d) = Some (lint_content_hash sha d)
      then []
      else lint_findings digest store d s (case st of None \<Rightarrow> default_stats (sd_skill_id d) (sd_version d) | Some x \<Rightarrow> x))"

definition lint_skill ::
    "(skill_doc \<Rightarrow> string) \<Rightarrow> digest \<Rightarrow> version_lookup option \<Rightarrow> bool \<Rightarrow> skill_doc \<Rightarrow> skill_status \<Rightarrow> skill_stats option \<Rightarrow> lint_code list" where
  "lint_skill sha digest store skip_if_hash_matches d s st =
     map fst (filter (\<lambda>f. snd f = SevError) (lint_report sha digest store skip_if_hash_matches d s st))"

subsection \<open>Lemmas\<close>

lemma stamp_lint_hash_sel [simp]:
  "sd_skill_id (stamp_lint_hash sha d) = sd_skill_id d" "sd_version (stamp_lint_hash sha d) = sd_version d"
  "sd_uses (stamp_lint_hash sha d) = sd_uses d" "sd_task_class (stamp_lint_hash sha d) = sd_task_class d"
  "sd_provenance (stamp_lint_hash sha d) = sd_provenance d" "sd_supersedes (stamp_lint_hash sha d) = sd_supersedes d"
  "hy_secret_scan (sd_hygiene (stamp_lint_hash sha d)) = hy_secret_scan (sd_hygiene d)"
  by (simp_all add: stamp_lint_hash_def Let_def)

lemma lint_content_hash_stamp: "lint_content_hash sha (stamp_lint_hash sha d) = lint_content_hash sha d"
  by (simp add: lint_content_hash_def stamp_lint_hash_def Let_def)

lemma stamp_hash: "hy_lint_content_hash (sd_hygiene (stamp_lint_hash sha d)) = Some (lint_content_hash sha d)"
  by (simp add: stamp_lint_hash_def Let_def)

lemma stamp_idem: "stamp_lint_hash sha (stamp_lint_hash sha d) = stamp_lint_hash sha d"
  unfolding stamp_lint_hash_def[of sha "stamp_lint_hash sha d"] by (simp add: lint_content_hash_stamp stamp_hash)

text \<open>A chain of uses that starts at a document: each member is named by the one before it, and all but the
  last can be loaded.\<close>

fun uses_chain :: "version_lookup \<Rightarrow> skill_doc \<Rightarrow> (skill_id \<times> int) list \<Rightarrow> bool" where
  "uses_chain get d [] = True"
| "uses_chain get d (u # us) =
     (u \<in> set (sd_uses d) \<and> (us = [] \<or> (case get u of None \<Rightarrow> False | Some c \<Rightarrow> uses_chain get c us)))"

lemma walk_clean_bounds:
  "uses_walk get room path key = [] \<Longrightarrow> 0 < room \<and> (\<forall>c us. get key = Some c \<longrightarrow> uses_chain get c us \<longrightarrow> length us < room)"
proof (induction room arbitrary: path key)
  case (Suc r)
  have child: "uses_walk get r (path @ [key]) u = []" if "get key = Some c" "u \<in> set (sd_uses c)" for c u
    using Suc.prems that by (auto split: if_splits)
  have "length us < Suc r" if c: "get key = Some c" "uses_chain get c us" for c us
  proof (cases us)
    case (Cons u us')
    then have u: "u \<in> set (sd_uses c)" using c(2) by simp
    from Suc.IH[OF child[OF c(1) u]] c(2) Cons show ?thesis by (cases "us' = []") (auto split: option.splits)
  qed simp
  then show ?case by blast
qed (simp split: if_splits)

lemma cycle_chains:
  assumes "\<forall>p \<in> S. \<exists>c u. get p = Some c \<and> u \<in> set (sd_uses c) \<and> u \<in> S" "p \<in> S"
  shows "\<exists>c us. get p = Some c \<and> uses_chain get c us \<and> length us = n"
  using assms(2)
proof (induction n arbitrary: p)
  case 0
  then show ?case using assms(1) by (metis list.size(3) uses_chain.simps(1))
next
  case (Suc n)
  then obtain c u where c: "get p = Some c" "u \<in> set (sd_uses c)" "u \<in> S" using assms(1) by blast
  from Suc.IH[OF c(3)] obtain c' us where "get u = Some c'" "uses_chain get c' us" "length us = n" by blast
  then show ?case using c by (intro exI[of _ c] exI[of _ "u # us"]) simp
qed

lemma walk_violation_chain:
  "uses_walk get room path key \<noteq> [] \<Longrightarrow>
   \<forall>p \<in> set path. \<exists>c u. get p = Some c \<and> u \<in> set (sd_uses c) \<and> u \<in> insert key (set path) \<Longrightarrow>
   room = 0 \<or> (\<exists>c us. get key = Some c \<and> uses_chain get c us \<and> length us = room)"
proof (induction room arbitrary: path key)
  case (Suc r)
  show ?case
  proof (cases "key \<in> set path")
    case True
    then show ?thesis using cycle_chains[of "set path" get key "Suc r"] Suc.prems(2) by (simp add: insert_absorb)
  next
    case False
    with Suc.prems(1) obtain c u where c: "get key = Some c" "u \<in> set (sd_uses c)" "uses_walk get r (path @ [key]) u \<noteq> []"
      by (auto split: option.splits)
    have "\<forall>p \<in> set (path @ [key]). \<exists>c u'. get p = Some c \<and> u' \<in> set (sd_uses c) \<and> u' \<in> insert u (set (path @ [key]))"
    proof
      fix p assume p: "p \<in> set (path @ [key])"
      show "\<exists>c u'. get p = Some c \<and> u' \<in> set (sd_uses c) \<and> u' \<in> insert u (set (path @ [key]))"
      proof (cases "p = key")
        case True
        with c(1,2) show ?thesis by (intro exI[of _ c] exI[of _ u]) simp
      next
        case False
        with p Suc.prems(2) obtain d w where "get p = Some d" "w \<in> set (sd_uses d)" "w \<in> insert key (set path)" by auto
        then show ?thesis by (intro exI[of _ d] exI[of _ w]) simp
      qed
    qed
    from Suc.IH[OF c(3) this] have "r = 0 \<or> (\<exists>c' us. get u = Some c' \<and> uses_chain get c' us \<and> length us = r)" .
    then have "\<exists>us. uses_chain get c (u # us) \<and> length us = r"
    proof
      assume "r = 0"
      then show ?thesis using c(2) by (intro exI[of _ "[]"]) simp
    next
      assume "\<exists>c' us. get u = Some c' \<and> uses_chain get c' us \<and> length us = r"
      then show ?thesis using c(2) by auto
    qed
    then obtain us where "uses_chain get c (u # us)" "length us = r" by blast
    then show ?thesis using c(1) by (intro disjI2 exI[of _ c] exI[of _ "u # us"]) simp
  qed
qed simp

subsection \<open>Properties\<close>

text \<open>
  The bounded walk decides the shape of the uses graph: for a stored document it reports neither a
  cycle nor excessive depth exactly when no chain of uses that starts at the document has more than
  three members; in particular a document on a cycle or above one is always reported.\<close>

theorem check_uses_acyclic_iff:
  assumes "get (doc_key d) = Some d"
  shows "check_uses_acyclic get d = [] \<longleftrightarrow> (\<forall>us. uses_chain get d us \<longrightarrow> length us \<le> 3)"
proof
  assume clean: "check_uses_acyclic get d = []"
  show "\<forall>us. uses_chain get d us \<longrightarrow> length us \<le> 3"
  proof (intro allI impI)
    fix us assume chain: "uses_chain get d us"
    show "length us \<le> 3"
    proof (cases us)
      case (Cons u us')
      then have "uses_walk get 3 [doc_key d] u = []"
        using clean chain by (auto simp: check_uses_acyclic_def MAX_USES_DEPTH_def)
      from walk_clean_bounds[OF this] chain Cons show ?thesis by (cases "us' = []") (auto split: option.splits)
    qed simp
  qed
next
  assume short: "\<forall>us. uses_chain get d us \<longrightarrow> length us \<le> 3"
  have "uses_walk get 3 [doc_key d] u = []" if u: "u \<in> set (sd_uses d)" for u
  proof (rule ccontr)
    assume "\<not> ?thesis"
    moreover have "\<forall>p \<in> set [doc_key d]. \<exists>c u'. get p = Some c \<and> u' \<in> set (sd_uses c) \<and> u' \<in> insert u (set [doc_key d])"
      using assms u by (cases u) auto
    ultimately obtain c us where "get u = Some c" "uses_chain get c us" "length us = 3"
      using walk_violation_chain[of get 3 "[doc_key d]" u] by auto
    then have "uses_chain get d (u # us)" "length (u # us) = 4" using u by simp_all
    then show False using short by fastforce
  qed
  then show "check_uses_acyclic get d = []" by (simp add: check_uses_acyclic_def MAX_USES_DEPTH_def)
qed

text \<open>
  The lint skips every document that carries its own stamp: after \<open>stamp_lint_hash\<close>, which the store applies to
  every version it writes, the default lint reports no violation, whatever the document, its status and its statistics
  are; without the skip, a document with a failed secret scan is always reported.\<close>

theorem stamped_document_is_never_linted:
  assumes "lint_content_hash sha d \<noteq> []"
  shows "lint_skill sha digest store True (stamp_lint_hash sha d) s st = [] \<and>
         (hy_secret_scan (sd_hygiene d) = ScanFailed \<longrightarrow> R5 \<in> set (lint_skill sha digest store False (stamp_lint_hash sha d) s st))"
  using assms
  by (auto simp: lint_skill_def lint_report_def lint_content_hash_stamp stamp_hash lint_findings_def packaging_findings_def)

subsection \<open>Examples\<close>

definition example_doc :: "skill_id \<Rightarrow> int \<Rightarrow> (skill_id \<times> int) list \<Rightarrow> secret_scan \<Rightarrow> skill_doc" where
  "example_doc sid v uses scan =
     \<lparr>sd_skill_id = sid, sd_version = v, sd_supersedes = None, sd_title = ''t'', sd_intent = ''i'', sd_task_class = ''repo-chore'',
      sd_uses = uses, sd_parameters = [], sd_preconditions = [], sd_steps = [], sd_certification_criteria = [],
      sd_failure_modes = [],
      sd_provenance = \<lparr>pv_curation = SelfDistilled, pv_source_case_ids = [''c''], pv_source_run_ids = [''r''],
        pv_source_session_ids = [], pv_source_contributor_ids = []\<rparr>,
      sd_hygiene = \<lparr>hy_secret_scan = scan, hy_lint_content_hash = None\<rparr>\<rparr>"

text \<open>Two skills that use each other: the walk reports them, and there are chains of every length.\<close>

definition mutual_uses :: version_lookup where
  "mutual_uses k =
     (if k = (''a'', 1) then Some (example_doc ''a'' 1 [(''b'', 1)] ScanPassed)
      else if k = (''b'', 1) then Some (example_doc ''b'' 1 [(''a'', 1)] ScanPassed) else None)"

theorem check_uses_acyclic_iff_witness:
  "mutual_uses (''a'', 1) = Some (example_doc ''a'' 1 [(''b'', 1)] ScanPassed) \<and>
   check_uses_acyclic mutual_uses (example_doc ''a'' 1 [(''b'', 1)] ScanPassed) \<noteq> [] \<and>
   \<not> (\<forall>us. uses_chain mutual_uses (example_doc ''a'' 1 [(''b'', 1)] ScanPassed) us \<longrightarrow> length us \<le> 3)"
proof -
  let ?d = "example_doc ''a'' 1 [(''b'', 1)] ScanPassed"
  have get: "mutual_uses (doc_key ?d) = Some ?d" by (simp add: mutual_uses_def example_doc_def)
  have "check_uses_acyclic mutual_uses ?d \<noteq> []"
    by (simp add: check_uses_acyclic_def MAX_USES_DEPTH_def mutual_uses_def example_doc_def numeral_3_eq_3)
  with check_uses_acyclic_iff[of mutual_uses ?d, OF get] show ?thesis by (simp add: mutual_uses_def)
qed

theorem stamped_document_is_never_linted_witness:
  "lint_skill (\<lambda>d. ''h'') (\<lambda>x y. ''h'') None True (stamp_lint_hash (\<lambda>d. ''h'') (example_doc ''a'' 1 [] ScanFailed))
     (new_status ''a'' 1 LcCandidate) None = [] \<and>
   R5 \<in> set (lint_skill (\<lambda>d. ''h'') (\<lambda>x y. ''h'') None False (stamp_lint_hash (\<lambda>d. ''h'') (example_doc ''a'' 1 [] ScanFailed))
     (new_status ''a'' 1 LcCandidate) None)"
  using stamped_document_is_never_linted[of "\<lambda>d. ''h''" "example_doc ''a'' 1 [] ScanFailed" "\<lambda>x y. ''h''" None
      "new_status ''a'' 1 LcCandidate" None]
  by (simp add: lint_content_hash_def example_doc_def)

end
