(* ===== verification/Skill_Store.thy ===== *)
theory Skill_Store
  imports Skill_Lint
begin

section \<open>The skill library store\<close>

text \<open>
  \<open>SkillStore\<close> of \<open>memory/procedural/store.py\<close>, the version allocator of \<open>allocate.py\<close> and the lineage index and revoke
  queue of \<open>lineage.py\<close>. The library directory is a record: the version documents, the directories that exist,
  the status and statistics files, the reservation table, the lineage write-ahead log with its index, and the revoke
  queue. A version key is a skill id and a number; the strings \<open>id@version\<close> and \<open>kind:id\<close> of the index are
  pairs here. Signatures of seed files and file system failures are left out. A missing file is the error
  \<open>FileNotFound\<close>.
\<close>

type_synonym vkey = "skill_id \<times> int"

datatype source_kind = SkCase | SkRun | SkSession | SkContributor | SkSkill vkey

type_synonym source = "source_kind \<times> string"

record library =
  lb_docs :: "skill_doc list"
  lb_dirs :: "vkey list"
  lb_status :: "vkey \<Rightarrow> skill_status option"
  lb_stats :: "vkey \<Rightarrow> skill_stats option"
  lb_reservations :: "vkey list"
  lb_wal :: "(source \<times> vkey) list"
  lb_revokes :: "source list"

datatype store_error = Immutability | ApprovedLifecycle | LifecycleConflict | FileNotFound

subsection \<open>Reading\<close>

definition get_version :: "library \<Rightarrow> vkey \<Rightarrow> skill_doc option" where
  "get_version lib k = List.find (\<lambda>d. doc_key d = k) (lb_docs lib)"

definition get_status :: "library \<Rightarrow> vkey \<Rightarrow> skill_status option" where
  "get_status lib k = lb_status lib k"

definition get_stats :: "library \<Rightarrow> vkey \<Rightarrow> skill_stats" where
  "get_stats lib k = (case lb_stats lib k of None \<Rightarrow> default_stats (fst k) (snd k) | Some s \<Rightarrow> s)"

text \<open>Directories are listed in the order of their names.\<close>

definition list_versions :: "library \<Rightarrow> vkey list" where
  "list_versions lib = sort_key (\<lambda>(sid, v). (sid, ''v'' @ str_of_int v)) (map doc_key (lb_docs lib))"

definition loaded_status :: "library \<Rightarrow> vkey \<Rightarrow> skill_status" where
  "loaded_status lib k = (case lb_status lib k of None \<Rightarrow> new_status (fst k) (snd k) LcDraft | Some s \<Rightarrow> s)"

definition iter_loaded :: "library \<Rightarrow> (skill_doc \<times> skill_status \<times> skill_stats) list" where
  "iter_loaded lib = map (\<lambda>k. (the (get_version lib k), loaded_status lib k, get_stats lib k)) (list_versions lib)"

subsection \<open>The lineage index\<close>

definition source_keys :: "skill_doc \<Rightarrow> source list" where
  "source_keys d =
     (let p = sd_provenance d
      in map (Pair SkCase) (pv_source_case_ids p) @ map (Pair SkRun) (pv_source_run_ids p) @
         map (Pair SkSession) (pv_source_session_ids p) @ map (Pair SkContributor) (pv_source_contributor_ids p) @
         [(SkSkill (doc_key d), [])])"

definition record_lineage :: "skill_doc \<Rightarrow> library \<Rightarrow> library" where
  "record_lineage d lib = lib\<lparr>lb_wal := lb_wal lib @ map (\<lambda>s. (s, doc_key d)) (source_keys d)\<rparr>"

text \<open>The index holds, per source, the recorded targets without repetition in the order of the log.\<close>

definition dedup :: "'a list \<Rightarrow> 'a list" where
  "dedup xs = rev (remdups (rev xs))"

definition lineage_lookup :: "library \<Rightarrow> source \<Rightarrow> vkey list" where
  "lineage_lookup lib s = dedup (map snd (filter (\<lambda>r. fst r = s) (lb_wal lib)))"

definition rebuild_lineage :: "library \<Rightarrow> library" where
  "rebuild_lineage lib =
     lib\<lparr>lb_wal := dedup (concat (map (\<lambda>(d, s, st). map (\<lambda>r. (r, doc_key d)) (source_keys d)) (iter_loaded lib)))\<rparr>"

definition enqueue_revoke_for_quarantine :: "skill_doc \<Rightarrow> library \<Rightarrow> library" where
  "enqueue_revoke_for_quarantine d lib =
     (let p = sd_provenance d
      in lib\<lparr>lb_revokes := lb_revokes lib @ [(SkSkill (doc_key d), [])] @
           map (Pair SkRun) (pv_source_run_ids p) @ map (Pair SkCase) (pv_source_case_ids p) @
           map (Pair SkSession) (pv_source_session_ids p) @ map (Pair SkContributor) (pv_source_contributor_ids p)\<rparr>)"

subsection \<open>Writing\<close>

definition write_version :: "(skill_doc \<Rightarrow> string) \<Rightarrow> skill_doc \<Rightarrow> library \<Rightarrow> (store_error, unit) result \<times> library" where
  "write_version sha doc lib =
     (let d = stamp_lint_hash sha doc; lib' = lib\<lparr>lb_dirs := List.insert (doc_key d) (lb_dirs lib)\<rparr>
      in if get_version lib (doc_key d) \<noteq> None then (Inl Immutability, lib')
         else (Inr (), record_lineage d (lib'\<lparr>lb_docs := lb_docs lib @ [d]\<rparr>)))"

definition write_status_unchecked :: "skill_status \<Rightarrow> library \<Rightarrow> (store_error, unit) result \<times> library" where
  "write_status_unchecked s lib =
     (let k = (ss_skill_id s, ss_version s)
      in if get_version lib k = None then (Inl FileNotFound, lib) else (Inr (), lib\<lparr>lb_status := (lb_status lib)(k \<mapsto> s)\<rparr>))"

definition maybe_enqueue_revoke :: "skill_status \<Rightarrow> skill_status option \<Rightarrow> library \<Rightarrow> library" where
  "maybe_enqueue_revoke s previous lib =
     (if ss_lifecycle s \<noteq> LcQuarantined then lib
      else if (case previous of None \<Rightarrow> False | Some p \<Rightarrow> ss_lifecycle p = LcQuarantined) then lib
      else case get_version lib (ss_skill_id s, ss_version s) of
             None \<Rightarrow> lib
           | Some d \<Rightarrow> enqueue_revoke_for_quarantine d lib)"

definition write_status ::
    "lifecycle option \<Rightarrow> skill_status \<Rightarrow> library \<Rightarrow> (store_error, unit) result \<times> library" where
  "write_status expected_lifecycle s lib =
     (let k = (ss_skill_id s, ss_version s); existing = get_status lib k
      in if get_version lib k = None then (Inl FileNotFound, lib)
         else if expected_lifecycle \<noteq> None \<and> map_option ss_lifecycle existing \<noteq> expected_lifecycle
         then (Inl LifecycleConflict, lib)
         else if ss_lifecycle s = LcApproved \<and> map_option ss_lifecycle existing \<noteq> Some LcApproved
         then (Inl ApprovedLifecycle, lib)
         else (Inr (), maybe_enqueue_revoke s existing (snd (write_status_unchecked s lib))))"

definition write_stats :: "skill_stats \<Rightarrow> library \<Rightarrow> (store_error, unit) result \<times> library" where
  "write_stats s lib =
     (let k = (st_skill_id s, st_version s)
      in if get_version lib k = None then (Inl FileNotFound, lib) else (Inr (), lib\<lparr>lb_stats := (lb_stats lib)(k \<mapsto> s)\<rparr>))"

definition PROTECTED_FROM_CANDIDATE_DEMOTE :: "lifecycle set" where
  "PROTECTED_FROM_CANDIDATE_DEMOTE = {LcApproved, LcQuarantined, LcShadow, LcBenched, LcNeedsRecert, LcDeprecated}"

definition write_candidate :: "(skill_doc \<Rightarrow> string) \<Rightarrow> skill_doc \<Rightarrow> library \<Rightarrow> (store_error, skill_doc) result \<times> library" where
  "write_candidate sha doc lib =
     (let d = stamp_lint_hash sha doc;
          lib1 = (if get_version lib (doc_key d) = None then snd (write_version sha d lib) else lib)
      in if (case get_status lib1 (doc_key d) of None \<Rightarrow> False | Some s \<Rightarrow> ss_lifecycle s \<in> PROTECTED_FROM_CANDIDATE_DEMOTE)
         then (Inl ApprovedLifecycle, lib1)
         else (case write_status None (new_status (sd_skill_id d) (sd_version d) LcCandidate) lib1 of
                 (Inl e, lib2) \<Rightarrow> (Inl e, lib2)
               | (Inr _, lib2) \<Rightarrow>
                   (case write_stats (default_stats (sd_skill_id d) (sd_version d)) lib2 of
                      (Inl e, lib3) \<Rightarrow> (Inl e, lib3)
                    | (Inr _, lib3) \<Rightarrow> (Inr d, lib3))))"

definition note_apply_session :: "vkey \<Rightarrow> string \<Rightarrow> library \<Rightarrow> (store_error, unit) result \<times> library" where
  "note_apply_session k session lib =
     (let s = get_stats lib k in write_stats (s\<lparr>st_apply_diversity := note_session session (st_apply_diversity s)\<rparr>) lib)"

subsection \<open>Version allocation\<close>

definition numbers_of :: "skill_id \<Rightarrow> vkey list \<Rightarrow> int list" where
  "numbers_of sid ks = map snd (filter (\<lambda>k. fst k = sid) ks)"

definition next_number :: "library \<Rightarrow> skill_id \<Rightarrow> int" where
  "next_number lib sid = Max (set (0 # numbers_of sid (lb_dirs lib) @ numbers_of sid (lb_reservations lib))) + 1"

definition allocate_next_version :: "skill_id \<Rightarrow> library \<Rightarrow> int \<times> library" where
  "allocate_next_version sid lib =
     (let n = next_number lib sid in (n, lib\<lparr>lb_reservations := lb_reservations lib @ [(sid, n)]\<rparr>))"

definition write_version_exclusive ::
    "(skill_doc \<Rightarrow> string) \<Rightarrow> skill_doc \<Rightarrow> library \<Rightarrow> (store_error, unit) result \<times> library" where
  "write_version_exclusive sha d lib =
     (case write_version sha d lib of
        (Inl e, lib') \<Rightarrow> (Inl e, lib')
      | (Inr _, lib') \<Rightarrow> (Inr (), lib'\<lparr>lb_reservations := filter (\<lambda>k. k \<noteq> doc_key d) (lb_reservations lib')\<rparr>))"

definition allocate_and_write ::
    "(skill_doc \<Rightarrow> string) \<Rightarrow> skill_doc \<Rightarrow> library \<Rightarrow> (store_error, skill_doc) result \<times> library" where
  "allocate_and_write sha d lib =
     (let stamped = d\<lparr>sd_version := next_number lib (sd_skill_id d)\<rparr>
      in case write_version sha stamped lib of
           (Inl e, lib') \<Rightarrow> (Inl e, lib')
         | (Inr _, lib') \<Rightarrow> (Inr stamped, lib'))"

subsection \<open>Lemmas\<close>

lemma get_version_key: "get_version lib k = Some d \<Longrightarrow> doc_key d = k"
  by (auto simp: get_version_def dest: find_SomeD)

lemma get_version_in: "get_version lib k = Some d \<Longrightarrow> d \<in> set (lb_docs lib)"
  by (auto simp: get_version_def dest: find_SomeD)

lemma get_version_None: "get_version lib k = None \<longleftrightarrow> k \<notin> doc_key ` set (lb_docs lib)"
  by (auto simp: get_version_def find_None_iff)

lemma get_version_cong: "lb_docs lib = lb_docs lib' \<Longrightarrow> get_version lib = get_version lib'"
  by (simp add: get_version_def fun_eq_iff)

lemma record_lineage_sel [simp]:
  "lb_docs (record_lineage d lib) = lb_docs lib" "lb_dirs (record_lineage d lib) = lb_dirs lib"
  "lb_status (record_lineage d lib) = lb_status lib" "lb_stats (record_lineage d lib) = lb_stats lib"
  "lb_reservations (record_lineage d lib) = lb_reservations lib" "lb_revokes (record_lineage d lib) = lb_revokes lib"
  by (simp_all add: record_lineage_def)

lemma source_keys_stamp [simp]: "source_keys (stamp_lint_hash sha d) = source_keys d"
  by (simp add: source_keys_def Let_def)

lemma write_version_sel:
  assumes "write_version sha d lib = (r, lib')"
  shows "lb_status lib' = lb_status lib" "lb_stats lib' = lb_stats lib" "lb_reservations lib' = lb_reservations lib"
    "lb_revokes lib' = lb_revokes lib" "set (lb_dirs lib') = insert (doc_key d) (set (lb_dirs lib))"
    "lb_docs lib' = (if get_version lib (doc_key d) = None then lb_docs lib @ [stamp_lint_hash sha d] else lb_docs lib)"
    "lb_wal lib' = (if get_version lib (doc_key d) = None then lb_wal lib @ map (\<lambda>s. (s, doc_key d)) (source_keys d) else lb_wal lib)"
    "r = Inr () \<longleftrightarrow> get_version lib (doc_key d) = None"
  using assms by (auto simp: write_version_def Let_def record_lineage_def split: if_splits)

lemma enqueue_revoke_sel [simp]:
  "lb_docs (enqueue_revoke_for_quarantine d lib) = lb_docs lib" "lb_dirs (enqueue_revoke_for_quarantine d lib) = lb_dirs lib"
  "lb_status (enqueue_revoke_for_quarantine d lib) = lb_status lib" "lb_stats (enqueue_revoke_for_quarantine d lib) = lb_stats lib"
  "lb_reservations (enqueue_revoke_for_quarantine d lib) = lb_reservations lib" "lb_wal (enqueue_revoke_for_quarantine d lib) = lb_wal lib"
  by (simp_all add: enqueue_revoke_for_quarantine_def Let_def)

lemma maybe_enqueue_revoke_sel [simp]:
  "lb_docs (maybe_enqueue_revoke s p lib) = lb_docs lib" "lb_dirs (maybe_enqueue_revoke s p lib) = lb_dirs lib"
  "lb_status (maybe_enqueue_revoke s p lib) = lb_status lib" "lb_stats (maybe_enqueue_revoke s p lib) = lb_stats lib"
  "lb_reservations (maybe_enqueue_revoke s p lib) = lb_reservations lib" "lb_wal (maybe_enqueue_revoke s p lib) = lb_wal lib"
  by (simp_all add: maybe_enqueue_revoke_def split: option.splits)

text \<open>What a status write does to the files it does not name, and when it succeeds.\<close>

lemma write_status_sel:
  assumes "write_status e s lib = (r, lib')"
  shows "lb_docs lib' = lb_docs lib" "lb_dirs lib' = lb_dirs lib" "lb_stats lib' = lb_stats lib"
    "lb_reservations lib' = lb_reservations lib" "lb_wal lib' = lb_wal lib"
    "lb_status lib' = (if is_ok r then (lb_status lib)((ss_skill_id s, ss_version s) \<mapsto> s) else lb_status lib)"
  using assms by (auto simp: write_status_def write_status_unchecked_def Let_def split: if_splits)

lemma write_status_ok_iff:
  "is_ok (fst (write_status e s lib)) \<longleftrightarrow>
     get_version lib (ss_skill_id s, ss_version s) \<noteq> None \<and>
     (e \<noteq> None \<longrightarrow> map_option ss_lifecycle (get_status lib (ss_skill_id s, ss_version s)) = e) \<and>
     (ss_lifecycle s = LcApproved \<longrightarrow> map_option ss_lifecycle (get_status lib (ss_skill_id s, ss_version s)) = Some LcApproved)"
  by (auto simp: write_status_def Let_def)

lemma write_stats_sel:
  assumes "write_stats s lib = (r, lib')"
  shows "lb_docs lib' = lb_docs lib" "lb_dirs lib' = lb_dirs lib" "lb_status lib' = lb_status lib"
    "lb_reservations lib' = lb_reservations lib" "lb_wal lib' = lb_wal lib" "lb_revokes lib' = lb_revokes lib"
  using assms by (auto simp: write_stats_def Let_def split: if_splits)

subsection \<open>Allocation under interleaving\<close>

text \<open>Any interleaving of reservations, publications of reserved numbers and one-step allocations, each
  atomic under the lock of its skill; the list holds the keys handed out so far.\<close>

inductive alloc_run :: "(skill_doc \<Rightarrow> string) \<Rightarrow> library \<Rightarrow> vkey list \<Rightarrow> bool" for sha where
  start: "lb_dirs lib = [] \<Longrightarrow> lb_reservations lib = [] \<Longrightarrow> lb_docs lib = [] \<Longrightarrow> alloc_run sha lib []"
| reserve: "alloc_run sha lib h \<Longrightarrow> allocate_next_version sid lib = (n, lib') \<Longrightarrow> alloc_run sha lib' (h @ [(sid, n)])"
| publish: "alloc_run sha lib h \<Longrightarrow> doc_key d \<in> set h \<Longrightarrow> write_version_exclusive sha d lib = (r, lib') \<Longrightarrow> alloc_run sha lib' h"
| allocate: "alloc_run sha lib h \<Longrightarrow> allocate_and_write sha d lib = (Inr d', lib') \<Longrightarrow> alloc_run sha lib' (h @ [doc_key d'])"

definition alloc_inv :: "library \<Rightarrow> vkey list \<Rightarrow> bool" where
  "alloc_inv lib h \<longleftrightarrow>
     set (lb_dirs lib) \<union> set (lb_reservations lib) = set h \<and> doc_key ` set (lb_docs lib) \<subseteq> set (lb_dirs lib) \<and>
     (\<forall>sid. numbers_of sid h = [1..int (length (numbers_of sid h))])"

lemma numbers_of_simps [simp]:
  "numbers_of sid [] = []" "numbers_of sid (h @ h') = numbers_of sid h @ numbers_of sid h'"
  "numbers_of sid [(s, n)] = (if s = sid then [n] else [])"
  by (simp_all add: numbers_of_def)

lemma in_numbers_of: "n \<in> set (numbers_of sid h) \<longleftrightarrow> (sid, n) \<in> set h"
  by (force simp: numbers_of_def)

lemma Max_0_upto: "Max (insert 0 {1..int k}) = int k"
  by (intro Max_eqI) auto

lemma next_number_inv:
  assumes "alloc_inv lib h"
  shows "next_number lib sid = int (length (numbers_of sid h)) + 1"
proof -
  have "set (numbers_of sid (lb_dirs lib)) \<union> set (numbers_of sid (lb_reservations lib)) = set (numbers_of sid h)"
    using assms by (auto simp: alloc_inv_def in_numbers_of)
  also have "\<dots> = {1..int (length (numbers_of sid h))}"
    using assms set_upto by (metis alloc_inv_def)
  finally show ?thesis using Max_0_upto[of "length (numbers_of sid h)"] by (simp add: next_number_def)
qed

lemma alloc_inv_extend:
  assumes "alloc_inv lib h"
  shows "numbers_of s (h @ [(sid, next_number lib sid)]) = [1..int (length (numbers_of s (h @ [(sid, next_number lib sid)])))]"
proof (cases "s = sid")
  case True
  have "numbers_of sid h = [1..int (length (numbers_of sid h))]" using assms by (simp add: alloc_inv_def)
  then show ?thesis using True next_number_inv[OF assms, of sid] upto_rec2[of 1 "int (length (numbers_of sid h)) + 1"]
    by (simp add: add.commute)
next
  case False
  then show ?thesis using assms by (simp add: alloc_inv_def)
qed

lemma next_number_fresh:
  assumes "alloc_inv lib h"
  shows "(sid, next_number lib sid) \<notin> set h" "get_version lib (sid, next_number lib sid) = None"
proof -
  have "numbers_of sid h = [1..int (length (numbers_of sid h))]" using assms by (simp add: alloc_inv_def)
  then have "set (numbers_of sid h) = {1..int (length (numbers_of sid h))}" by (metis set_upto)
  then have "next_number lib sid \<notin> set (numbers_of sid h)" by (simp only: next_number_inv[OF assms]) simp
  then show fresh: "(sid, next_number lib sid) \<notin> set h" by (simp add: in_numbers_of)
  then show "get_version lib (sid, next_number lib sid) = None"
    using assms unfolding get_version_None alloc_inv_def by blast
qed

lemma subset_insert_grown: "A \<subseteq> insert k B \<Longrightarrow> B \<subseteq> D \<Longrightarrow> D' = insert k D \<Longrightarrow> A \<subseteq> D'"
  by blast

lemma alloc_run_inv: "alloc_run sha lib h \<Longrightarrow> alloc_inv lib h"
proof (induction rule: alloc_run.induct)
  case (start lib)
  then show ?case by (simp add: alloc_inv_def)
next
  case (reserve lib h sid n lib')
  then have n: "n = next_number lib sid" "lib' = lib\<lparr>lb_reservations := lb_reservations lib @ [(sid, n)]\<rparr>"
    by (auto simp: allocate_next_version_def Let_def)
  have "numbers_of s (h @ [(sid, n)]) = [1..int (length (numbers_of s (h @ [(sid, n)])))]" for s
    using alloc_inv_extend[OF reserve.IH, of s sid] n(1) by simp
  then show ?case using reserve.IH n(2) by (auto simp: alloc_inv_def)
next
  case (publish lib h d r lib')
  obtain r1 lib1 where w: "write_version sha d lib = (r1, lib1)" by fastforce
  have f: "lb_dirs lib' = lb_dirs lib1" "lb_docs lib' = lb_docs lib1"
    "set (lb_reservations lib1) - {doc_key d} \<subseteq> set (lb_reservations lib')" "set (lb_reservations lib') \<subseteq> set (lb_reservations lib1)"
    using publish.hyps(3) by (cases r1; auto simp: write_version_exclusive_def w)+
  have "set (lb_dirs lib') = insert (doc_key d) (set (lb_dirs lib))" using f(1) write_version_sel(5)[OF w] by simp
  moreover have "set (lb_reservations lib) - {doc_key d} \<subseteq> set (lb_reservations lib')" "set (lb_reservations lib') \<subseteq> set (lb_reservations lib)"
    using f(3,4) write_version_sel(3)[OF w] by simp_all
  moreover have "doc_key ` set (lb_docs lib') \<subseteq> insert (doc_key d) (doc_key ` set (lb_docs lib))"
    unfolding f(2) write_version_sel(6)[OF w] by auto
  ultimately have res: "set (lb_dirs lib') = insert (doc_key d) (set (lb_dirs lib)) \<and>
      set (lb_reservations lib) - {doc_key d} \<subseteq> set (lb_reservations lib') \<and> set (lb_reservations lib') \<subseteq> set (lb_reservations lib) \<and>
      doc_key ` set (lb_docs lib') \<subseteq> insert (doc_key d) (doc_key ` set (lb_docs lib))" by blast
  from publish.IH have i: "set (lb_dirs lib) \<union> set (lb_reservations lib) = set h" "doc_key ` set (lb_docs lib) \<subseteq> set (lb_dirs lib)"
    "\<forall>sid. numbers_of sid h = [1..int (length (numbers_of sid h))]" by (simp_all add: alloc_inv_def)
  have "set (lb_dirs lib') \<union> set (lb_reservations lib') = set h" using i(1) res publish.hyps(2) by auto
  moreover have "doc_key ` set (lb_docs lib') \<subseteq> set (lb_dirs lib')"
    by (rule subset_insert_grown[OF _ i(2)]) (use res in simp_all)
  ultimately show ?case using i(3) by (simp add: alloc_inv_def)
next
  case (allocate lib h d d' lib')
  let ?k = "(sd_skill_id d, next_number lib (sd_skill_id d))"
  obtain r1 lib1 where w: "write_version sha (d\<lparr>sd_version := next_number lib (sd_skill_id d)\<rparr>) lib = (r1, lib1)" by fastforce
  then have k: "doc_key d' = ?k" "lib' = lib1"
    using allocate.hyps(2) by (auto simp: allocate_and_write_def Let_def split: sum.splits)
  have sel: "set (lb_dirs lib') = insert ?k (set (lb_dirs lib))" "lb_reservations lib' = lb_reservations lib"
    "doc_key ` set (lb_docs lib') \<subseteq> insert ?k (doc_key ` set (lb_docs lib))"
    using write_version_sel[OF w] k(2) by auto
  from allocate.IH have i: "set (lb_dirs lib) \<union> set (lb_reservations lib) = set h" "doc_key ` set (lb_docs lib) \<subseteq> set (lb_dirs lib)"
    by (simp_all add: alloc_inv_def)
  have "doc_key ` set (lb_docs lib') \<subseteq> set (lb_dirs lib')" by (rule subset_insert_grown[OF sel(3) i(2) sel(1)])
  moreover have "set (lb_dirs lib') \<union> set (lb_reservations lib') = set (h @ [?k])" using sel(1,2) i(1) by auto
  ultimately show ?case unfolding alloc_inv_def k(1) using alloc_inv_extend[OF allocate.IH] by blast
qed

subsection \<open>Properties\<close>

text \<open>
  Concurrent authors never share a version number and leave no gaps: in every interleaving of
  reservations, publications and one-step allocations the numbers handed out for a skill are one, two,
  three and so on, in the order they were handed out, and a one-step allocation always succeeds.\<close>

theorem version_numbers_consecutive:
  assumes "alloc_run sha lib h"
  shows "numbers_of sid h = [1..int (length (numbers_of sid h))] \<and> distinct (numbers_of sid h) \<and>
         (\<exists>d' lib'. allocate_and_write sha d lib = (Inr d', lib') \<and>
            sd_version d' = int (length (numbers_of (sd_skill_id d) h)) + 1)"
proof -
  have inv: "alloc_inv lib h" by (rule alloc_run_inv[OF assms])
  then have n: "numbers_of sid h = [1..int (length (numbers_of sid h))]" by (simp add: alloc_inv_def)
  have "get_version lib (sd_skill_id d, next_number lib (sd_skill_id d)) = None" by (rule next_number_fresh(2)[OF inv])
  then have "\<exists>d' lib'. allocate_and_write sha d lib = (Inr d', lib') \<and> sd_version d' = next_number lib (sd_skill_id d)"
    by (simp add: allocate_and_write_def write_version_def Let_def)
  with n next_number_inv[OF inv] show ?thesis by (metis distinct_upto)
qed

subsection \<open>Examples\<close>

definition empty_library :: library where
  "empty_library =
     \<lparr>lb_docs = [], lb_dirs = [], lb_status = Map.empty, lb_stats = Map.empty, lb_reservations = [], lb_wal = [], lb_revokes = []\<rparr>"

text \<open>Two authors reserve before either publishes.\<close>

theorem version_numbers_consecutive_witness:
  "\<exists>lib. alloc_run (\<lambda>d. ''h'') lib [(''a'', 1), (''a'', 2)] \<and>
     (\<exists>d' lib'. allocate_and_write (\<lambda>d. ''h'') (example_doc ''a'' 1 [] ScanPassed) lib = (Inr d', lib') \<and> sd_version d' = 3)"
proof -
  let ?l1 = "empty_library\<lparr>lb_reservations := [(''a'', 1)]\<rparr>"
  let ?l2 = "empty_library\<lparr>lb_reservations := [(''a'', 1), (''a'', 2)]\<rparr>"
  have r1: "allocate_next_version ''a'' empty_library = (1, ?l1)"
    by (simp add: allocate_next_version_def next_number_def empty_library_def numbers_of_def)
  have r2: "allocate_next_version ''a'' ?l1 = (2, ?l2)"
    by (simp add: allocate_next_version_def next_number_def empty_library_def numbers_of_def)
  have "alloc_run (\<lambda>d. ''h'') empty_library []" by (rule alloc_run.start) (simp_all add: empty_library_def)
  then have "alloc_run (\<lambda>d. ''h'') ?l1 ([] @ [(''a'', 1)])" using r1 by (rule alloc_run.reserve)
  then have "alloc_run (\<lambda>d. ''h'') ?l2 (([] @ [(''a'', 1)]) @ [(''a'', 2)])" using r2 by (rule alloc_run.reserve)
  then have run: "alloc_run (\<lambda>d. ''h'') ?l2 [(''a'', 1), (''a'', 2)]" by simp
  with version_numbers_consecutive[OF run, of "''a''" "example_doc ''a'' 1 [] ScanPassed"] show ?thesis
    by (intro exI[of _ ?l2]) (simp add: example_doc_def numbers_of_def)
qed

end
