(* ===== verification/Skill_Applicability.thy ===== *)
theory Skill_Applicability
  imports Skill_Store
begin

section \<open>Applicability and composition of skills\<close>

text \<open>
  The gate in front of every promotion, \<open>memory/procedural/applicability.py\<close>, and the resolution of composite skills,
  \<open>memory/procedural/composition.py\<close>. The hash over the behavioural surface of a document and the cosine
  comparison of two embeddings are parameters; the second one only adds advisory reasons.
\<close>

subsection \<open>The applicability gate\<close>

text \<open>Python's \<open>a or b\<close> on optional text.\<close>

definition text_or :: "string option \<Rightarrow> string option \<Rightarrow> string option" where
  "text_or a b = (if a \<in> {None, Some []} then b else a)"

record surface =
  sf_task_class :: string
  sf_tools :: "string option list"
  sf_intents :: "string list"
  sf_preconditions :: "(precondition_kind \<times> string) list"
  sf_criteria :: "(criterion_kind \<times> string option) list"

definition behavioural_surface :: "skill_doc \<Rightarrow> surface" where
  "behavioural_surface d =
     \<lparr>sf_task_class = sd_task_class d, sf_tools = map ds_tool (sd_steps d),
      sf_intents = map (\<lambda>s. py_lower (py_strip (ds_intent s))) (sd_steps d), sf_preconditions = sd_preconditions d,
      sf_criteria = map (\<lambda>c. (c_kind c, text_or (text_or (c_run c) (c_expr c)) (c_metric c))) (sd_certification_criteria d)\<rparr>"

record gate_env =
  ge_tools :: "string list"
  ge_hash :: "surface \<Rightarrow> string"
  ge_near :: "skill_doc \<Rightarrow> skill_doc \<Rightarrow> bool"

definition structural_hash :: "gate_env \<Rightarrow> skill_doc \<Rightarrow> string" where
  "structural_hash env d = ge_hash env (behavioural_surface d)"

datatype applicability_reason =
  MissingTools "string list" | NoEvaluableCriterion | NearDuplicate vkey | AdvisoryNear vkey

definition missing_tools :: "gate_env \<Rightarrow> skill_doc \<Rightarrow> string list" where
  "missing_tools env d =
     filter (\<lambda>t. t \<noteq> [] \<and> t \<notin> set (ge_tools env)) (List.map_filter ds_tool (sd_steps d)) @
     map snd (filter (\<lambda>p. fst p = ToolAvailable \<and> snd p \<notin> set (ge_tools env)) (sd_preconditions d))"

definition environment_reasons :: "gate_env \<Rightarrow> skill_doc \<Rightarrow> applicability_reason list" where
  "environment_reasons env d = (if missing_tools env d = [] then [] else [MissingTools (sort (remdups (missing_tools env d)))])"

definition exact_criterion_match :: "certification_criterion \<Rightarrow> task_criterion \<Rightarrow> bool" where
  "exact_criterion_match cert lc \<longleftrightarrow>
     c_kind cert = c_kind lc \<and>
     ((c_run lc \<noteq> None \<and> c_run cert = c_run lc) \<or> (c_expr lc \<noteq> None \<and> c_expr cert = c_expr lc) \<or>
      (c_metric lc \<noteq> None \<and> c_metric cert = c_metric lc))"

definition criterion_reasons :: "skill_doc \<Rightarrow> task_criterion list option \<Rightarrow> applicability_reason list" where
  "criterion_reasons d locked =
     (let certs = filter (\<lambda>c. c_kind c \<noteq> Judge) (sd_certification_criteria d)
      in case locked of
           None \<Rightarrow> if certs = [] then [NoEvaluableCriterion] else []
         | Some cs \<Rightarrow>
             (let required = filter (\<lambda>c. is_required c \<and> c_kind c \<noteq> Judge) cs
              in if required = [] \<or> (\<exists>cert \<in> set certs. \<exists>lc \<in> set required. exact_criterion_match cert lc) then []
                 else [NoEvaluableCriterion]))"

definition CONTAGION_LIFECYCLES :: "lifecycle list" where
  "CONTAGION_LIFECYCLES = [LcQuarantined, LcBenched, LcDeprecated]"

definition is_low_contribution :: "skill_stats \<Rightarrow> bool" where
  "is_low_contribution st = (case contribution_estimate (st_contribution st) of None \<Rightarrow> False | Some e \<Rightarrow> e \<le> 0)"

definition advisory_embedding_near :: "gate_env \<Rightarrow> skill_doc \<Rightarrow> skill_doc \<Rightarrow> bool" where
  "advisory_embedding_near env d x \<longleftrightarrow>
     sd_task_class d = sd_task_class x \<and> map ds_tool (sd_steps d) = map ds_tool (sd_steps x) \<and> ge_near env d x"

definition contagion_reasons ::
    "gate_env \<Rightarrow> skill_doc \<Rightarrow> (skill_doc \<times> skill_status \<times> skill_stats) list option \<Rightarrow> applicability_reason list" where
  "contagion_reasons env d store =
     (case store of
        None \<Rightarrow> []
      | Some rows \<Rightarrow>
          concat (map (\<lambda>(x, s, st).
            if doc_key x = doc_key d then []
            else if ss_lifecycle s \<notin> set CONTAGION_LIFECYCLES \<and> \<not> is_low_contribution st then []
            else if structural_hash env x = structural_hash env d then [NearDuplicate (doc_key x)]
            else if advisory_embedding_near env d x then [AdvisoryNear (doc_key x)] else []) rows))"

record applicability_report =
  ar_environment_ok :: bool
  ar_criterion_ok :: bool
  ar_contagion_ok :: bool
  ar_reasons :: "applicability_reason list"

definition check_applicability ::
    "gate_env \<Rightarrow> task_criterion list option \<Rightarrow> (skill_doc \<times> skill_status \<times> skill_stats) list option \<Rightarrow> skill_doc \<Rightarrow> applicability_report" where
  "check_applicability env locked store d =
     (let e = environment_reasons env d; c = criterion_reasons d locked; g = contagion_reasons env d store
      in \<lparr>ar_environment_ok = (e = []), ar_criterion_ok = (c = []),
          ar_contagion_ok = (\<forall>r \<in> set g. case r of NearDuplicate _ \<Rightarrow> False | _ \<Rightarrow> True), ar_reasons = e @ c @ g\<rparr>)"

definition ar_ok :: "applicability_report \<Rightarrow> bool" where
  "ar_ok r \<longleftrightarrow> ar_environment_ok r \<and> ar_criterion_ok r \<and> ar_contagion_ok r"

subsection \<open>Composite skills\<close>

datatype composition_error = CompCycle | CompDepth | ChildQuarantined vkey | ChildNotActive vkey | ChildMissing vkey

fun fold_result :: "('a \<Rightarrow> 's \<Rightarrow> ('e, 's) result) \<Rightarrow> 'a list \<Rightarrow> 's \<Rightarrow> ('e, 's) result" where
  "fold_result f [] s = Inr s"
| "fold_result f (x # xs) s = (case f x s of Inl e \<Rightarrow> Inl e | Inr s' \<Rightarrow> fold_result f xs s')"

definition usable_child :: "library \<Rightarrow> vkey \<Rightarrow> (composition_error, skill_doc) result" where
  "usable_child lib u =
     (case (get_version lib u, get_status lib u) of
        (Some child, Some s) \<Rightarrow>
          if ss_lifecycle s = LcQuarantined then Inl (ChildQuarantined u)
          else if ss_lifecycle s \<noteq> LcApproved \<or> \<not> ss_active s then Inl (ChildNotActive u)
          else Inr child
      | _ \<Rightarrow> Inl (ChildMissing u))"

text \<open>The inner function \<open>walk\<close>; the first argument is the number of levels left below the maximal depth.\<close>

primrec resolve_walk ::
    "nat \<Rightarrow> library \<Rightarrow> vkey list \<Rightarrow> skill_doc \<Rightarrow> skill_doc list \<Rightarrow> (composition_error, skill_doc list) result" where
  "resolve_walk 0 = (\<lambda>lib path d acc. if doc_key d \<in> set path then Inl CompCycle else Inl CompDepth)"
| "resolve_walk (Suc r) = (\<lambda>lib path d acc.
     if doc_key d \<in> set path then Inl CompCycle
     else fold_result (\<lambda>u acc.
            case usable_child lib u of
              Inl e \<Rightarrow> Inl e
            | Inr child \<Rightarrow>
                resolve_walk r lib (path @ [doc_key d]) child
                  (if doc_key child \<in> set (map doc_key acc) then acc else acc @ [child]))
          (sd_uses d) acc)"

definition MAX_DEPTH :: nat where
  "MAX_DEPTH = 3"

definition resolve_uses :: "library \<Rightarrow> skill_doc \<Rightarrow> (composition_error, skill_doc list) result" where
  "resolve_uses lib d = resolve_walk (Suc MAX_DEPTH) lib [] d []"

subsection \<open>Lemmas\<close>

lemma usable_child_Inr:
  "usable_child lib u = Inr c \<longleftrightarrow>
     get_version lib u = Some c \<and> (\<exists>s. get_status lib u = Some s \<and> is_retrievable s)"
  by (auto simp: usable_child_def is_retrievable_def split: option.splits if_splits)

lemma fold_result_Inl: "fold_result f xs s = Inl e \<Longrightarrow> \<exists>x \<in> set xs. \<exists>s'. f x s' = Inl e"
  by (induction xs arbitrary: s) (auto split: sum.splits)

lemma fold_result_collect:
  assumes "fold_result f xs s = Inr t"
    and "\<And>x s t. x \<in> set xs \<Longrightarrow> f x s = Inr t \<Longrightarrow> good s \<Longrightarrow> good t \<and> P x \<and> keys t = keys s \<union> A x"
    and "good s"
  shows "good t \<and> (\<forall>x \<in> set xs. P x) \<and> keys t = keys s \<union> (\<Union>x \<in> set xs. A x)"
  using assms
proof (induction xs arbitrary: s)
  case (Cons x xs)
  from Cons.prems(1) obtain s' where s': "f x s = Inr s'" "fold_result f xs s' = Inr t" by (auto split: sum.splits)
  have x: "good s' \<and> P x \<and> keys s' = keys s \<union> A x" using Cons.prems(2)[OF _ s'(1) Cons.prems(3)] by simp
  have "good t \<and> (\<forall>x \<in> set xs. P x) \<and> keys t = keys s' \<union> (\<Union>x \<in> set xs. A x)"
    by (rule Cons.IH[OF s'(2)]) (use Cons.prems(2) x in auto)
  with x show ?case by auto
qed simp

text \<open>The versions that a document reaches through its uses.\<close>

definition reached :: "library \<Rightarrow> skill_doc \<Rightarrow> vkey set" where
  "reached lib d = {u. \<exists>us. uses_chain (get_version lib) d us \<and> u \<in> set us}"

definition callable :: "library \<Rightarrow> vkey \<Rightarrow> bool" where
  "callable lib u \<longleftrightarrow> get_version lib u \<noteq> None \<and> (\<exists>s. get_status lib u = Some s \<and> is_retrievable s)"

lemma usable_child_callable: "callable lib u \<longleftrightarrow> (\<exists>c. usable_child lib u = Inr c)"
  by (auto simp: callable_def usable_child_Inr)

lemma chain_Cons:
  "get_version lib u = Some c \<Longrightarrow> uses_chain (get_version lib) d (u # us) \<longleftrightarrow> u \<in> set (sd_uses d) \<and> uses_chain (get_version lib) c us"
  by (cases us) auto

lemma reached_unfold:
  assumes "\<And>u. u \<in> set (sd_uses d) \<Longrightarrow> get_version lib u \<noteq> None"
  shows "reached lib d = (\<Union>u \<in> set (sd_uses d). insert u (reached lib (the (get_version lib u))))"
proof (intro set_eqI iffI)
  fix x assume "x \<in> reached lib d"
  then obtain us where us: "uses_chain (get_version lib) d us" "x \<in> set us" by (auto simp: reached_def)
  then obtain u us' where eq: "us = u # us'" by (cases us) auto
  then have u: "u \<in> set (sd_uses d)" using us(1) by simp
  then obtain c where c: "get_version lib u = Some c" using assms by blast
  have "uses_chain (get_version lib) c us'" using us(1) unfolding eq chain_Cons[OF c] by simp
  then show "x \<in> (\<Union>u \<in> set (sd_uses d). insert u (reached lib (the (get_version lib u))))"
    using us(2) unfolding eq reached_def by (intro UN_I[OF u]) (auto simp: c)
next
  fix x assume "x \<in> (\<Union>u \<in> set (sd_uses d). insert u (reached lib (the (get_version lib u))))"
  then obtain u where u: "u \<in> set (sd_uses d)" "x = u \<or> x \<in> reached lib (the (get_version lib u))" by blast
  obtain c where c: "get_version lib u = Some c" using assms[OF u(1)] by blast
  show "x \<in> reached lib d"
  proof (cases "x = u")
    case True
    then show ?thesis using u(1) by (auto simp: reached_def intro: exI[of _ "[u]"])
  next
    case False
    then obtain us where "uses_chain (get_version lib) c us" "x \<in> set us" using u(2) c by (auto simp: reached_def)
    then have "uses_chain (get_version lib) d (u # us)" "x \<in> set (u # us)" using u(1) c by simp_all
    then show ?thesis unfolding reached_def by blast
  qed
qed

definition gathered :: "library \<Rightarrow> skill_doc list \<Rightarrow> bool" where
  "gathered lib acc \<longleftrightarrow> distinct (map doc_key acc) \<and> (\<forall>x \<in> set acc. get_version lib (doc_key x) = Some x)"

lemma gathered_add:
  assumes "gathered lib acc" "get_version lib u = Some c"
  shows "gathered lib (if doc_key c \<in> set (map doc_key acc) then acc else acc @ [c])"
    and "set (map doc_key (if doc_key c \<in> set (map doc_key acc) then acc else acc @ [c])) = insert u (set (map doc_key acc))"
  using assms get_version_key[OF assms(2)] by (auto simp: gathered_def)

lemma resolve_walk_sound:
  "resolve_walk room lib path d acc = Inr ds \<Longrightarrow> gathered lib acc \<Longrightarrow>
   gathered lib ds \<and> (\<forall>us. uses_chain (get_version lib) d us \<longrightarrow> length us < room \<and> (\<forall>u \<in> set us. callable lib u)) \<and>
   set (map doc_key ds) = set (map doc_key acc) \<union> reached lib d"
proof (induction room arbitrary: path d acc ds)
  case (Suc r)
  let ?next = "\<lambda>c acc. if doc_key c \<in> set (map doc_key acc) then acc else acc @ [c]"
  let ?f = "\<lambda>u acc. case usable_child lib u of Inl e \<Rightarrow> Inl e
            | Inr child \<Rightarrow> resolve_walk r lib (path @ [doc_key d]) child (?next child acc)"
  let ?P = "\<lambda>u. callable lib u \<and> (\<forall>us. uses_chain (get_version lib) (the (get_version lib u)) us \<longrightarrow>
      length us < r \<and> (\<forall>v \<in> set us. callable lib v))"
  have f: "fold_result ?f (sd_uses d) acc = Inr ds" using Suc.prems(1) by (simp split: if_splits)
  have step: "gathered lib t \<and> ?P u \<and> set (map doc_key t) = set (map doc_key s) \<union> insert u (reached lib (the (get_version lib u)))"
    if u: "?f u s = Inr t" "gathered lib s" for u s t
  proof -
    from u(1) obtain c where c: "usable_child lib u = Inr c" "resolve_walk r lib (path @ [doc_key d]) c (?next c s) = Inr t"
      by (auto split: sum.splits)
    then have g: "get_version lib u = Some c" "callable lib u" by (auto simp: usable_child_Inr usable_child_callable)
    from Suc.IH[OF c(2) gathered_add(1)[OF u(2) g(1)]] g gathered_add(2)[OF u(2) g(1)] show ?thesis by auto
  qed
  have all: "gathered lib ds \<and> (\<forall>u \<in> set (sd_uses d). ?P u) \<and>
      set (map doc_key ds) = set (map doc_key acc) \<union> (\<Union>u \<in> set (sd_uses d). insert u (reached lib (the (get_version lib u))))"
    using fold_result_collect[where f = ?f and good = "gathered lib" and keys = "\<lambda>l. set (map doc_key l)" and P = ?P
        and A = "\<lambda>u. insert u (reached lib (the (get_version lib u)))", OF f step Suc.prems(2)] .
  then have P: "\<And>u. u \<in> set (sd_uses d) \<Longrightarrow> ?P u" by blast
  then have some: "\<And>u. u \<in> set (sd_uses d) \<Longrightarrow> get_version lib u \<noteq> None" by (auto simp: callable_def)
  have "length us < Suc r \<and> (\<forall>u \<in> set us. callable lib u)" if us: "uses_chain (get_version lib) d us" for us
  proof (cases us)
    case (Cons u us')
    then have u: "u \<in> set (sd_uses d)" using us by simp
    then obtain c where c: "get_version lib u = Some c" using some by blast
    from us have "uses_chain (get_version lib) c us'" unfolding Cons chain_Cons[OF c] by simp
    then show ?thesis using P[OF u] c Cons by auto
  qed simp
  then show ?case using all reached_unfold[OF some] by simp
qed (simp split: if_splits)

lemma resolve_walk_complete:
  "resolve_walk room lib path d acc = Inl e \<Longrightarrow> get_version lib (doc_key d) = Some d \<Longrightarrow>
   \<forall>p \<in> set path. \<exists>c u. get_version lib p = Some c \<and> u \<in> set (sd_uses c) \<and> u \<in> insert (doc_key d) (set path) \<Longrightarrow>
   \<exists>us. uses_chain (get_version lib) d us \<and> (length us = room \<or> (\<exists>u \<in> set us. \<not> callable lib u))"
proof (induction room arbitrary: path d acc)
  case 0
  then show ?case by (intro exI[of _ "[]"]) simp
next
  case (Suc r)
  show ?case
  proof (cases "doc_key d \<in> set path")
    case True
    then obtain c us where "get_version lib (doc_key d) = Some c" "uses_chain (get_version lib) c us" "length us = Suc r"
      using cycle_chains[of "set path" "get_version lib" "doc_key d" "Suc r"] Suc.prems(3) by (auto simp: insert_absorb)
    then show ?thesis using Suc.prems(2) by auto
  next
    case False
    with Suc.prems(1) obtain u acc' where u: "u \<in> set (sd_uses d)"
      and bad: "(case usable_child lib u of Inl e \<Rightarrow> Inl e
            | Inr child \<Rightarrow> resolve_walk r lib (path @ [doc_key d]) child
                (if doc_key child \<in> set (map doc_key acc') then acc' else acc' @ [child])) = Inl e"
      using fold_result_Inl by (fastforce simp del: fold_result.simps)
    show ?thesis
    proof (cases "usable_child lib u")
      case (Inl e')
      then have "\<not> callable lib u" by (simp add: usable_child_callable)
      then show ?thesis using u by (intro exI[of _ "[u]"]) simp
    next
      case (Inr c)
      then have c: "get_version lib u = Some c" "doc_key c = u" by (auto simp: usable_child_Inr dest: get_version_key)
      have "\<forall>p \<in> set (path @ [doc_key d]). \<exists>c' v. get_version lib p = Some c' \<and> v \<in> set (sd_uses c') \<and>
          v \<in> insert (doc_key c) (set (path @ [doc_key d]))"
      proof
        fix p assume p: "p \<in> set (path @ [doc_key d])"
        show "\<exists>c' v. get_version lib p = Some c' \<and> v \<in> set (sd_uses c') \<and> v \<in> insert (doc_key c) (set (path @ [doc_key d]))"
        proof (cases "p = doc_key d")
          case True
          then show ?thesis using Suc.prems(2) u c(2) by (intro exI[of _ d] exI[of _ u]) simp
        next
          case False
          then have "p \<in> set path" using p by simp
          then obtain c' v where "get_version lib p = Some c'" "v \<in> set (sd_uses c')" "v \<in> insert (doc_key d) (set path)"
            using Suc.prems(3) by blast
          then show ?thesis by (intro exI[of _ c'] exI[of _ v]) simp
        qed
      qed
      moreover have "get_version lib (doc_key c) = Some c" using c by simp
      ultimately obtain us where "uses_chain (get_version lib) c us" "length us = r \<or> (\<exists>u \<in> set us. \<not> callable lib u)"
        using Suc.IH bad Inr by (metis (no_types, lifting) sum.case(2))
      then show ?thesis using u c(1) by (intro exI[of _ "u # us"]) (auto simp: chain_Cons)
    qed
  qed
qed

subsection \<open>Properties\<close>

text \<open>
  A composite skill resolves exactly when all it reaches may run: for a stored document the resolution succeeds
  iff every chain of uses below it has at most three members and every member is stored, approved and active; it then
  returns each reached version once.\<close>

theorem resolve_uses_iff:
  assumes "get_version lib (doc_key d) = Some d"
  shows "((\<exists>ds. resolve_uses lib d = Inr ds) \<longleftrightarrow>
      (\<forall>us. uses_chain (get_version lib) d us \<longrightarrow> length us \<le> 3 \<and> (\<forall>u \<in> set us. callable lib u))) \<and>
    (\<forall>ds. resolve_uses lib d = Inr ds \<longrightarrow> distinct (map doc_key ds) \<and> set (map doc_key ds) = reached lib d)"
proof -
  have sound: "gathered lib ds \<and> (\<forall>us. uses_chain (get_version lib) d us \<longrightarrow> length us < 4 \<and> (\<forall>u \<in> set us. callable lib u)) \<and>
      set (map doc_key ds) = reached lib d" if "resolve_uses lib d = Inr ds" for ds
    using resolve_walk_sound[of 4 lib "[]" d "[]" ds] that by (simp add: resolve_uses_def MAX_DEPTH_def gathered_def)
  have complete: "\<exists>us. uses_chain (get_version lib) d us \<and> (length us = 4 \<or> (\<exists>u \<in> set us. \<not> callable lib u))"
    if "resolve_uses lib d = Inl e" for e
    using resolve_walk_complete[of 4 lib "[]" d "[]" e] that assms by (simp add: resolve_uses_def MAX_DEPTH_def)
  have "\<exists>ds. resolve_uses lib d = Inr ds"
    if ok: "\<forall>us. uses_chain (get_version lib) d us \<longrightarrow> length us \<le> 3 \<and> (\<forall>u \<in> set us. callable lib u)"
  proof (cases "resolve_uses lib d")
    case (Inl e)
    from complete[OF this] obtain us where "uses_chain (get_version lib) d us" "length us = 4 \<or> (\<exists>u \<in> set us. \<not> callable lib u)" by blast
    moreover from this(1) have "length us \<le> 3 \<and> (\<forall>u \<in> set us. callable lib u)" using ok by blast
    ultimately show ?thesis by auto
  qed blast
  moreover have "length us \<le> 3 \<and> (\<forall>u \<in> set us. callable lib u)"
    if "resolve_uses lib d = Inr ds" "uses_chain (get_version lib) d us" for ds us
  proof -
    have "length us < 4 \<and> (\<forall>u \<in> set us. callable lib u)" using sound[OF that(1)] that(2) by blast
    then show ?thesis by auto
  qed
  ultimately show ?thesis using sound unfolding gathered_def by blast
qed

subsection \<open>Examples\<close>

definition composed_library :: library where
  "composed_library = empty_library\<lparr>
     lb_docs := [example_doc ''a'' 1 [(''b'', 1)] ScanPassed, example_doc ''b'' 1 [] ScanPassed],
     lb_status := [(''b'', 1) \<mapsto> (new_status ''b'' 1 LcApproved)\<lparr>ss_active := True\<rparr>]\<rparr>"

theorem resolve_uses_iff_witness:
  "\<exists>ds. resolve_uses composed_library (example_doc ''a'' 1 [(''b'', 1)] ScanPassed) = Inr ds \<and> set (map doc_key ds) = {(''b'', 1)} \<and>
     (\<forall>us. uses_chain (get_version composed_library) (example_doc ''a'' 1 [(''b'', 1)] ScanPassed) us \<longrightarrow> length us \<le> 3)"
proof -
  let ?d = "example_doc ''a'' 1 [(''b'', 1)] ScanPassed"
  have get: "get_version composed_library (doc_key ?d) = Some ?d"
    by (simp add: composed_library_def get_version_def example_doc_def)
  have run: "resolve_uses composed_library ?d = Inr [example_doc ''b'' 1 [] ScanPassed]"
    by (simp add: resolve_uses_def MAX_DEPTH_def numeral_3_eq_3 usable_child_def composed_library_def get_version_def get_status_def
        example_doc_def new_status_def)
  from resolve_uses_iff[OF get] run show ?thesis by (auto simp: example_doc_def)
qed

end
