(* ===== verification/Eval_Store.thy ===== *)
theory Eval_Store
  imports Skill_Store Graph_Engine
begin

section \<open>Evaluation observations\<close>

text \<open>
  \<open>EvalStore\<close> of \<open>evals/store.py\<close> and the outbox drain of \<open>evals/outbox.py\<close>. An observation is derived from a
  completed, locked run state and is written once per run; the samples the library controllers read are
  counts over the observations. The hash of the run payload is a parameter. The table is the list of
  observations in insertion order. SQL \<open>LIKE\<close> compares letters without case.
\<close>

datatype resolution = Decided | Unresolved | Invalid

record observation =
  on_run_id :: run_id
  on_task_class :: string
  on_arm :: arm
  on_snapshot_id :: string
  on_first_attempt_success :: bool
  on_predicted_success :: "real option"
  on_terminal :: terminal
  on_fixture_id :: "string option"
  on_is_eval_fixture :: bool
  on_strategy :: "string option"
  on_attempt_no :: int
  on_cost_usd :: real
  on_abstention_confirmed :: bool
  on_skill :: "vkey option"
  on_suppressed :: "vkey option"
  on_valid_non_judge_evidence :: bool
  on_evidence_hash :: string
  on_recorded_at :: instant
  on_tenant :: "tenant option"
  on_resolution :: resolution
  on_exit_code :: "int option"

record eval_db =
  ed_observations :: "observation list"
  ed_ablations :: "string \<Rightarrow> retrieval_ablation option"

datatype observation_error = NonTerminalRun | CriteriaNotLocked | NoTaskClass | NoSnapshot | AlreadyObserved

subsection \<open>Recording a run\<close>

text \<open>A later result of the same criterion replaces an earlier one.\<close>

definition result_of :: "criterion_result list \<Rightarrow> string \<Rightarrow> criterion_result option" where
  "result_of results cid = List.find (\<lambda>r. r_criterion_id r = cid) (rev results)"

fun first_required_exit_code :: "criterion_result list \<Rightarrow> task_criterion list \<Rightarrow> int option" where
  "first_required_exit_code results [] = None"
| "first_required_exit_code results (c # cs) =
     (if \<not> is_required c then first_required_exit_code results cs
      else case result_of results (c_id c) of
             None \<Rightarrow> first_required_exit_code results cs
           | Some r \<Rightarrow> (case r_exit_code r of None \<Rightarrow> first_required_exit_code results cs | Some e \<Rightarrow> Some e))"

fun first_unresolved_exit :: "criterion_result list \<Rightarrow> task_criterion list \<Rightarrow> int option" where
  "first_unresolved_exit results [] = None"
| "first_unresolved_exit results (c # cs) =
     (if \<not> is_required c then first_unresolved_exit results cs
      else case result_of results (c_id c) of
             None \<Rightarrow> first_unresolved_exit results cs
           | Some r \<Rightarrow> if r_exit_code r \<in> {Some 124, Some 126} then r_exit_code r else first_unresolved_exit results cs)"

definition classify_run_resolution :: "run_state \<Rightarrow> resolution \<times> int option" where
  "classify_run_resolution s =
     (if rs_terminal s = Some Error then (Invalid, first_required_exit_code (rs_results s) (rs_criteria s))
      else case first_unresolved_exit (rs_results s) (rs_criteria s) of
             Some e \<Rightarrow> (Unresolved, Some e)
           | None \<Rightarrow> (Decided, None))"

fun strategy_name :: "strategy \<Rightarrow> string" where
  "strategy_name Apply = ''apply''"
| "strategy_name Adapt = ''adapt''"
| "strategy_name Scratch = ''scratch''"
| "strategy_name Portfolio = ''portfolio''"
| "strategy_name Decomposition = ''decomposition''"
| "strategy_name Abstain = ''abstain''"

definition ref_key :: "candidate_ref \<Rightarrow> vkey" where
  "ref_key c = (cd_skill_id c, cd_version c)"

definition has_valid_non_judge_evidence :: "run_state \<Rightarrow> bool" where
  "has_valid_non_judge_evidence s =
     (let required = map c_id (filter (\<lambda>c. is_required c \<and> c_kind c \<noteq> Judge) (rs_criteria s));
          scored = map r_criterion_id (filter (\<lambda>r. \<not> r_errored r) (rs_results s))
      in required \<noteq> [] \<and> (\<forall>i \<in> set required. i \<in> set scored))"

definition observation_of ::
    "(run_state \<Rightarrow> string) \<Rightarrow> instant \<Rightarrow> string option \<Rightarrow> bool \<Rightarrow> tenant option \<Rightarrow> run_state \<Rightarrow> terminal \<Rightarrow> string \<Rightarrow> string \<Rightarrow> observation" where
  "observation_of payload_hash now strategy_override fixture tenant s tm tc snap =
     \<lparr>on_run_id = rs_run_id s, on_task_class = tc, on_arm = rs_arm s, on_snapshot_id = snap,
      on_first_attempt_success = (tm = Solved \<and> rs_attempt_no s = 1),
      on_predicted_success = rs_predicted_success s, on_terminal = tm,
      on_fixture_id = (if fixture then Some (t_task_id (rs_task s)) else None), on_is_eval_fixture = fixture,
      on_strategy = (if strategy_override \<noteq> None then strategy_override else map_option strategy_name (rs_strategy s)),
      on_attempt_no = rs_attempt_no s, on_cost_usd = sp_cost_usd (rs_spent s),
      on_abstention_confirmed = (tm = Abstained \<and> rs_failure s \<noteq> None),
      on_skill = map_option ref_key (rs_chosen s), on_suppressed = map_option ref_key (rs_suppressed_skill s),
      on_valid_non_judge_evidence = has_valid_non_judge_evidence s, on_evidence_hash = payload_hash s,
      on_recorded_at = now, on_tenant = tenant, on_resolution = fst (classify_run_resolution s),
      on_exit_code = snd (classify_run_resolution s)\<rparr>"

text \<open>\<open>_append_observation\<close>: the run id is the primary key.\<close>

definition append_observation :: "observation \<Rightarrow> eval_db \<Rightarrow> (observation_error, observation) result \<times> eval_db" where
  "append_observation ob db =
     (if \<exists>x \<in> set (ed_observations db). on_run_id x = on_run_id ob then (Inl AlreadyObserved, db)
      else (Inr ob, db\<lparr>ed_observations := ed_observations db @ [ob]\<rparr>))"

definition append_run ::
    "(run_state \<Rightarrow> string) \<Rightarrow> instant \<Rightarrow> string option \<Rightarrow> bool \<Rightarrow> tenant option \<Rightarrow> run_state \<Rightarrow> eval_db \<Rightarrow>
     (observation_error, observation) result \<times> eval_db" where
  "append_run payload_hash now strategy_override force_eval_fixture tenant s db =
     (case rs_terminal s of
        None \<Rightarrow> (Inl NonTerminalRun, db)
      | Some tm \<Rightarrow>
          if \<not> rs_criteria_locked s \<or> mf_criteria_hash (rs_manifest s) = None then (Inl CriteriaNotLocked, db)
          else if t_task_class (rs_task s) \<in> {None, Some []} then (Inl NoTaskClass, db)
          else if mf_index_snapshot_id (rs_manifest s) \<in> {None, Some []} then (Inl NoSnapshot, db)
          else append_observation
                 (observation_of payload_hash now strategy_override (t_is_eval_fixture (rs_task s) \<or> force_eval_fixture) tenant s
                    tm (the (t_task_class (rs_task s))) (the (mf_index_snapshot_id (rs_manifest s)))) db)"

subsection \<open>Samples\<close>

definition count_sample :: "observation list \<Rightarrow> binomial_sample" where
  "count_sample os = \<lparr>bs_successes = int (length (filter on_first_attempt_success os)), bs_trials = int (length os)\<rparr>"

definition in_snapshot :: "string option \<Rightarrow> observation \<Rightarrow> bool" where
  "in_snapshot snap x \<longleftrightarrow> (case snap of None \<Rightarrow> True | Some s \<Rightarrow> on_snapshot_id x = s)"

definition not_faithfulness :: "observation \<Rightarrow> bool" where
  "not_faithfulness x \<longleftrightarrow> (case on_strategy x of None \<Rightarrow> True | Some s \<Rightarrow> \<not> py_startswith (py_lower s) ''faithfulness:'')"

definition arm_evidence :: "string \<Rightarrow> string option \<Rightarrow> arm \<Rightarrow> observation \<Rightarrow> bool" where
  "arm_evidence tc snap a x \<longleftrightarrow>
     on_task_class x = tc \<and> on_arm x = a \<and> \<not> on_is_eval_fixture x \<and> on_valid_non_judge_evidence x \<and> in_snapshot snap x"

definition contribution_samples :: "eval_db \<Rightarrow> vkey \<Rightarrow> string \<Rightarrow> string option \<Rightarrow> binomial_sample \<times> binomial_sample" where
  "contribution_samples db k tc snap =
     (count_sample (filter (\<lambda>x. arm_evidence tc snap Shadow x \<and> not_faithfulness x \<and> on_skill x = Some k) (ed_observations db)),
      count_sample (filter (\<lambda>x. arm_evidence tc snap Control x \<and> not_faithfulness x \<and> on_suppressed x = Some k) (ed_observations db)))"

text \<open>\<open>GROUP BY\<close>: one row per key that occurs.\<close>

definition group_samples :: "(observation \<Rightarrow> vkey option) \<Rightarrow> observation list \<Rightarrow> (vkey \<times> binomial_sample) list" where
  "group_samples key_of os =
     map (\<lambda>k. (k, count_sample (filter (\<lambda>x. key_of x = Some k) os))) (remdups (List.map_filter key_of os))"

definition empty_sample :: binomial_sample where
  "empty_sample = \<lparr>bs_successes = 0, bs_trials = 0\<rparr>"

definition pair_at :: "(vkey \<Rightarrow> (binomial_sample \<times> binomial_sample) option) \<Rightarrow> vkey \<Rightarrow> binomial_sample \<times> binomial_sample" where
  "pair_at m k = (case m k of None \<Rightarrow> (empty_sample, empty_sample) | Some p \<Rightarrow> p)"

definition contribution_samples_bulk ::
    "eval_db \<Rightarrow> string \<Rightarrow> string option \<Rightarrow> vkey \<Rightarrow> (binomial_sample \<times> binomial_sample) option" where
  "contribution_samples_bulk db tc snap =
     (let shadow_rows = group_samples on_skill
            (filter (\<lambda>x. arm_evidence tc snap Shadow x \<and> not_faithfulness x) (ed_observations db));
          suppression_rows = group_samples on_suppressed
            (filter (\<lambda>x. arm_evidence tc snap Control x \<and> not_faithfulness x) (ed_observations db));
          first = fold (\<lambda>(k, s) m. m(k \<mapsto> (s, snd (pair_at m k)))) shadow_rows Map.empty
      in fold (\<lambda>(k, s) m. m(k \<mapsto> (fst (pair_at m k), s))) suppression_rows first)"

definition retrieval_ablation_samples :: "eval_db \<Rightarrow> string \<Rightarrow> string option \<Rightarrow> binomial_sample \<times> binomial_sample" where
  "retrieval_ablation_samples db tc snap =
     (count_sample (filter (arm_evidence tc snap Treatment) (ed_observations db)),
      count_sample (filter (arm_evidence tc snap Control) (ed_observations db)))"

definition write_retrieval_ablation :: "retrieval_ablation \<Rightarrow> eval_db \<Rightarrow> eval_db" where
  "write_retrieval_ablation eff db = db\<lparr>ed_ablations := (ed_ablations db)(ra_task_class eff \<mapsto> eff)\<rparr>"

definition arm_counts :: "eval_db \<Rightarrow> string \<Rightarrow> string option \<Rightarrow> arm \<Rightarrow> binomial_sample option" where
  "arm_counts db tc snap a =
     (let os = filter (\<lambda>x. on_task_class x = tc \<and> on_arm x = a \<and> \<not> on_is_eval_fixture x \<and> not_faithfulness x \<and> in_snapshot snap x)
                 (ed_observations db)
      in if os = [] then None else Some (count_sample os))"

subsection \<open>Field failures\<close>

definition field_rows :: "eval_db \<Rightarrow> observation list" where
  "field_rows db = filter (\<lambda>x. on_arm x = Treatment \<and> \<not> on_is_eval_fixture x \<and> on_skill x \<noteq> None) (ed_observations db)"

text \<open>\<open>ORDER BY skill_id, skill_version, recorded_at DESC, run_id DESC\<close>.\<close>

definition most_recent_first :: "observation list \<Rightarrow> observation list" where
  "most_recent_first os = rev (sort_key (\<lambda>x. (on_recorded_at x, on_run_id x)) os)"

definition streak_order :: "eval_db \<Rightarrow> observation list" where
  "streak_order db = sort_key (\<lambda>x. the (on_skill x)) (most_recent_first (field_rows db))"

definition field_failed :: "observation \<Rightarrow> bool" where
  "field_failed x \<longleftrightarrow> on_terminal x \<in> {Unsolved, Rejected, Error}"

definition streak_step :: "observation \<Rightarrow> (vkey \<Rightarrow> int option) \<times> vkey list \<Rightarrow> (vkey \<Rightarrow> int option) \<times> vkey list" where
  "streak_step x acc =
     (case acc of (streaks, broken) \<Rightarrow>
        let key = the (on_skill x); old = (case streaks key of None \<Rightarrow> 0 | Some n \<Rightarrow> n)
        in if key \<in> set broken then (streaks, broken)
           else if field_failed x then (streaks(key \<mapsto> old + 1), broken)
           else (streaks(key \<mapsto> old), key # broken))"

definition field_failure_streaks :: "eval_db \<Rightarrow> vkey \<Rightarrow> int option" where
  "field_failure_streaks db = fst (fold streak_step (streak_order db) (Map.empty, []))"

subsection \<open>Delivery from the outbox\<close>

definition MAX_DELIVERY_ATTEMPTS :: int where
  "MAX_DELIVERY_ATTEMPTS = 8"

definition outbox_retry :: "run_db \<Rightarrow> eval_outbox_row \<Rightarrow> run_db" where
  "outbox_retry db row =
     mark_eval_outbox db (eo_key row)
       (if MAX_DELIVERY_ATTEMPTS \<le> eo_attempts row + 1 then Dead else PendingDelivery) (eo_attempts row + 1)"

definition key_tenant :: "string \<Rightarrow> tenant option" where
  "key_tenant key = (if CHR ''/'' \<in> set key then Some (takeWhile (\<lambda>c. c \<noteq> CHR ''/'') key) else None)"

definition deliver_row ::
    "(run_state \<Rightarrow> string) \<Rightarrow> instant \<Rightarrow> eval_outbox_row \<Rightarrow> nat \<times> run_db \<times> eval_db \<Rightarrow> nat \<times> run_db \<times> eval_db" where
  "deliver_row payload_hash now row acc =
     (case acc of (n, db, ev) \<Rightarrow>
        (case append_run payload_hash now None False (key_tenant (eo_key row)) (eo_payload row) ev of
           (Inr ob, ev') \<Rightarrow> (n + 1, mark_eval_outbox db (eo_key row) Delivered (eo_attempts row), ev')
         | (Inl AlreadyObserved, ev') \<Rightarrow> (n + 1, mark_eval_outbox db (eo_key row) Delivered (eo_attempts row), ev')
         | (Inl e, ev') \<Rightarrow> (n, outbox_retry db row, ev')))"

definition drain_eval_outbox :: "(run_state \<Rightarrow> string) \<Rightarrow> instant \<Rightarrow> run_db \<Rightarrow> eval_db \<Rightarrow> nat \<times> run_db \<times> eval_db" where
  "drain_eval_outbox payload_hash now db ev = fold (deliver_row payload_hash now) (pending_eval_outbox db) (0, db, ev)"

subsection \<open>Lemmas\<close>

lemma count_sample_ok: "sample_ok (count_sample os)"
  by (simp add: count_sample_def sample_ok_def)

lemma count_sample_Nil [simp]: "count_sample [] = empty_sample"
  by (simp add: count_sample_def empty_sample_def)

lemma map_of_group_samples:
  "map_of (group_samples key_of os) k =
     (if filter (\<lambda>x. key_of x = Some k) os = [] then None else Some (count_sample (filter (\<lambda>x. key_of x = Some k) os)))"
proof -
  have "k \<in> set (List.map_filter key_of os) \<longleftrightarrow> filter (\<lambda>x. key_of x = Some k) os \<noteq> []"
    by (auto simp: List.map_filter_def filter_empty_conv image_iff)
  then show ?thesis by (auto simp: group_samples_def map_of_map_restrict restrict_map_def)
qed

lemma distinct_group_samples: "distinct (map fst (group_samples key_of os))"
  by (simp add: group_samples_def comp_def)

lemma fold_set_first:
  "distinct (map fst rows) \<Longrightarrow>
   fold (\<lambda>(k, s) m. m(k \<mapsto> (s, snd (pair_at m k)))) rows m k' =
     (case map_of rows k' of None \<Rightarrow> m k' | Some s \<Rightarrow> Some (s, snd (pair_at m k')))"
  by (induction rows arbitrary: m) (force simp: pair_at_def split: option.splits)+

lemma fold_set_second:
  "distinct (map fst rows) \<Longrightarrow>
   fold (\<lambda>(k, s) m. m(k \<mapsto> (fst (pair_at m k), s))) rows m k' =
     (case map_of rows k' of None \<Rightarrow> m k' | Some s \<Rightarrow> Some (fst (pair_at m k'), s))"
  by (induction rows arbitrary: m) (force simp: pair_at_def split: option.splits)+

lemma pair_at_first:
  "distinct (map fst rows) \<Longrightarrow> pair_at (fold (\<lambda>(k, s) m. m(k \<mapsto> (s, snd (pair_at m k)))) rows m) k' =
     (case map_of rows k' of None \<Rightarrow> fst (pair_at m k') | Some s \<Rightarrow> s, snd (pair_at m k'))"
  unfolding pair_at_def[of "fold _ _ _"] by (simp add: fold_set_first) (simp add: pair_at_def split: option.splits)

lemma pair_at_second:
  "distinct (map fst rows) \<Longrightarrow> pair_at (fold (\<lambda>(k, s) m. m(k \<mapsto> (fst (pair_at m k), s))) rows m) k' =
     (fst (pair_at m k'), case map_of rows k' of None \<Rightarrow> snd (pair_at m k') | Some s \<Rightarrow> s)"
  unfolding pair_at_def[of "fold _ _ _"] by (simp add: fold_set_second) (simp add: pair_at_def split: option.splits)

lemma pair_at_empty [simp]: "pair_at Map.empty k = (empty_sample, empty_sample)"
  by (simp add: pair_at_def)

lemma filter_key_arm:
  "filter (\<lambda>x. key_of x = Some k) (filter (\<lambda>x. P x \<and> Q x) os) = filter (\<lambda>x. P x \<and> Q x \<and> key_of x = Some k) os"
  by (simp add: conj_ac)

text \<open>Streaks: within one key only the rows up to the first success count.\<close>

definition trailing_failures :: "observation list \<Rightarrow> int" where
  "trailing_failures os = int (length (takeWhile field_failed os))"

definition streak_at :: "vkey \<Rightarrow> observation list \<Rightarrow> (vkey \<Rightarrow> int option) \<times> vkey list \<Rightarrow> bool" where
  "streak_at k os acc \<longleftrightarrow>
     (let rows = filter (\<lambda>x. on_skill x = Some k) os
      in fst acc k = (if rows = [] then None else Some (trailing_failures rows)) \<and>
         (k \<in> set (snd acc) \<longleftrightarrow> (\<exists>x \<in> set rows. \<not> field_failed x)))"

lemma takeWhile_snoc_all: "\<forall>x \<in> set xs. P x \<Longrightarrow> takeWhile P (xs @ [y]) = (if P y then xs @ [y] else xs)"
  by (induction xs) auto

lemma takeWhile_snoc_some: "x \<in> set xs \<Longrightarrow> \<not> P x \<Longrightarrow> takeWhile P (xs @ [y]) = takeWhile P xs"
  by (induction xs) auto

lemma streak_at_other: "streak_at j os acc \<Longrightarrow> on_skill x = Some k \<Longrightarrow> j \<noteq> k \<Longrightarrow> streak_at j (os @ [x]) (streak_step x acc)"
  by (cases acc) (auto simp: streak_at_def streak_step_def Let_def)

lemma streak_at_same:
  assumes "streak_at k os acc" "on_skill x = Some k"
  shows "streak_at k (os @ [x]) (streak_step x acc)"
proof -
  obtain m b where acc: "acc = (m, b)" by fastforce
  let ?rows = "filter (\<lambda>x. on_skill x = Some k) os"
  have k: "m k = (if ?rows = [] then None else Some (trailing_failures ?rows))" "k \<in> set b \<longleftrightarrow> (\<exists>x \<in> set ?rows. \<not> field_failed x)"
    using assms(1) by (simp_all add: streak_at_def acc Let_def)
  have old: "(case m k of None \<Rightarrow> 0 | Some n \<Rightarrow> n) = trailing_failures ?rows"
    using k(1) by (simp add: trailing_failures_def)
  show ?thesis
  proof (cases "k \<in> set b")
    case True
    then obtain y where y: "y \<in> set ?rows" "\<not> field_failed y" using k(2) by blast
    then have "trailing_failures (?rows @ [x]) = trailing_failures ?rows" by (simp add: trailing_failures_def takeWhile_snoc_some)
    moreover have "?rows \<noteq> []" using y(1) by (metis empty_iff list.set(1))
    ultimately show ?thesis using True k assms(2) by (auto simp: streak_at_def acc streak_step_def Let_def)
  next
    case False
    then have "\<forall>y \<in> set ?rows. field_failed y" using k(2) by blast
    then have t: "trailing_failures (?rows @ [x]) = (if field_failed x then trailing_failures ?rows + 1 else trailing_failures ?rows)"
      by (simp add: trailing_failures_def takeWhile_snoc_all takeWhile_eq_all_conv[THEN iffD2])
    show ?thesis using False k old t assms(2) by (auto simp: streak_at_def acc streak_step_def Let_def)
  qed
qed

lemma streaks_spec:
  assumes "\<forall>x \<in> set os. on_skill x \<noteq> None"
  shows "streak_at k os (fold streak_step os (Map.empty, []))"
  using assms
proof (induction os rule: rev_induct)
  case Nil
  then show ?case by (simp add: streak_at_def)
next
  case (snoc x xs)
  then obtain j where j: "on_skill x = Some j" by auto
  have "streak_at k xs (fold streak_step xs (Map.empty, []))" using snoc by simp
  from streak_at_other[OF this j] streak_at_same[OF this] j show ?case by (cases "k = j") simp_all
qed

lemma filter_sort_by_key:
  "filter (\<lambda>x. key_of x = Some k) (sort_key (\<lambda>x. the (key_of x)) os) = filter (\<lambda>x. key_of x = Some k) os"
  if "\<forall>x \<in> set os. key_of x \<noteq> None" for os :: "observation list" and key_of :: "observation \<Rightarrow> vkey option"
proof -
  have "filter (\<lambda>x. key_of x = Some k) xs = filter (\<lambda>x. the (key_of x) = k) xs" if "\<forall>x \<in> set xs. key_of x \<noteq> None" for xs
    using that by (auto intro: filter_cong)
  then show ?thesis using that by (simp add: sort_key_stable)
qed

text \<open>A run that can be recorded, and what recording does.\<close>

definition recordable :: "run_state \<Rightarrow> bool" where
  "recordable s \<longleftrightarrow> rs_terminal s \<noteq> None \<and> rs_criteria_locked s \<and> mf_criteria_hash (rs_manifest s) \<noteq> None \<and>
     t_task_class (rs_task s) \<notin> {None, Some []} \<and> mf_index_snapshot_id (rs_manifest s) \<notin> {None, Some []}"

definition observed :: "eval_db \<Rightarrow> run_id \<Rightarrow> bool" where
  "observed ev rid \<longleftrightarrow> (\<exists>x \<in> set (ed_observations ev). on_run_id x = rid)"

lemma append_run_cases:
  assumes "append_run ph now so ff tenant s ev = (r, ev')"
  shows "(recordable s \<and> observed ev (rs_run_id s) \<and> r = Inl AlreadyObserved \<and> ev' = ev) \<or>
         (recordable s \<and> \<not> observed ev (rs_run_id s) \<and>
            (\<exists>ob. r = Inr ob \<and> on_run_id ob = rs_run_id s \<and> ev' = ev\<lparr>ed_observations := ed_observations ev @ [ob]\<rparr>)) \<or>
         (\<not> recordable s \<and> (\<exists>e. r = Inl e \<and> e \<noteq> AlreadyObserved) \<and> ev' = ev)"
proof (cases "recordable s")
  case True
  then obtain tm where t: "rs_terminal s = Some tm" by (auto simp: recordable_def)
  have id: "on_run_id (observation_of a b c d e s f g h) = rs_run_id s" for a b c d e f g h by (simp add: observation_of_def)
  show ?thesis
    using assms True t by (auto simp: append_run_def recordable_def append_observation_def observed_def id split: if_splits)
next
  case False
  then show ?thesis using assms by (auto simp: append_run_def recordable_def split: option.splits if_splits)
qed

text \<open>What a drain does to a pending row.\<close>

definition settled_row :: "eval_outbox_row \<Rightarrow> eval_outbox_row" where
  "settled_row e =
     (if recordable (eo_payload e) then e\<lparr>eo_status := Delivered\<rparr>
      else e\<lparr>eo_status := (if MAX_DELIVERY_ATTEMPTS \<le> eo_attempts e + 1 then Dead else PendingDelivery),
             eo_attempts := eo_attempts e + 1\<rparr>)"

lemma settle_key [simp]: "eo_key (settled_row e) = eo_key e" "eo_payload (settled_row e) = eo_payload e"
  by (simp_all add: settled_row_def)

lemma deliver_row_effect:
  assumes "deliver_row ph now row (n, db, ev) = (n', db', ev')" "row \<in> set (db_eval_outbox db)" "distinct (map eo_key (db_eval_outbox db))"
  shows "db_eval_outbox db' = map (\<lambda>e. if e = row then settled_row e else e) (db_eval_outbox db)"
    and "recordable (eo_payload row) \<Longrightarrow> observed ev' (rs_run_id (eo_payload row))"
    and "\<exists>new. ed_observations ev' = ed_observations ev @ new \<and>
           (\<forall>x \<in> set new. on_run_id x = rs_run_id (eo_payload row) \<and> recordable (eo_payload row) \<and> \<not> observed ev (on_run_id x)) \<and> length new \<le> 1"
proof -
  obtain r ev1 where a: "append_run ph now None False (key_tenant (eo_key row)) (eo_payload row) ev = (r, ev1)" by fastforce
  have same: "e = row" if "e \<in> set (db_eval_outbox db)" "eo_key e = eo_key row" for e
    using assms(2,3) that by (auto simp: distinct_map dest: inj_onD)
  have mark: "map (\<lambda>e. if eo_key e = eo_key row then e\<lparr>eo_status := st, eo_attempts := k\<rparr> else e) (db_eval_outbox db) =
      map (\<lambda>e. if e = row then row\<lparr>eo_status := st, eo_attempts := k\<rparr> else e) (db_eval_outbox db)" for st k
    by (rule map_cong) (auto dest: same)
  have settled: "map (\<lambda>e. if e = row then row' else e) xs = map (\<lambda>e. if e = row then settled_row e else e) xs" if "row' = settled_row row" for row' xs
    using that by (intro map_cong) auto
  consider (dup) "recordable (eo_payload row)" "observed ev (rs_run_id (eo_payload row))" "r = Inl AlreadyObserved" "ev1 = ev"
    | (fresh) ob where "recordable (eo_payload row)" "\<not> observed ev (rs_run_id (eo_payload row))" "r = Inr ob"
        "on_run_id ob = rs_run_id (eo_payload row)" "ev1 = ev\<lparr>ed_observations := ed_observations ev @ [ob]\<rparr>"
    | (bad) e where "\<not> recordable (eo_payload row)" "r = Inl e" "e \<noteq> AlreadyObserved" "ev1 = ev"
    using append_run_cases[OF a] by blast
  then have "db_eval_outbox db' = map (\<lambda>e. if e = row then settled_row e else e) (db_eval_outbox db) \<and>
      (recordable (eo_payload row) \<longrightarrow> observed ev' (rs_run_id (eo_payload row))) \<and>
      (\<exists>new. ed_observations ev' = ed_observations ev @ new \<and>
           (\<forall>x \<in> set new. on_run_id x = rs_run_id (eo_payload row) \<and> recordable (eo_payload row) \<and> \<not> observed ev (on_run_id x)) \<and> length new \<le> 1)"
  proof cases
    case dup
    then have d: "db' = mark_eval_outbox db (eo_key row) Delivered (eo_attempts row)" "ev' = ev" using assms(1) by (simp_all add: deliver_row_def a)
    have "row\<lparr>eo_status := Delivered, eo_attempts := eo_attempts row\<rparr> = settled_row row" using dup(1) by (simp add: settled_row_def)
    from settled[OF this] show ?thesis using dup d by (simp add: mark_eval_outbox_def mark)
  next
    case fresh
    then have d: "db' = mark_eval_outbox db (eo_key row) Delivered (eo_attempts row)" "ev' = ev1" using assms(1) by (simp_all add: deliver_row_def a)
    have "row\<lparr>eo_status := Delivered, eo_attempts := eo_attempts row\<rparr> = settled_row row" using fresh(1) by (simp add: settled_row_def)
    from settled[OF this] show ?thesis using fresh d by (simp add: mark_eval_outbox_def mark observed_def)
  next
    case bad
    then have d: "db' = outbox_retry db row" "ev' = ev" using assms(1) by (auto simp: deliver_row_def a split: observation_error.splits)
    have "row\<lparr>eo_status := (if MAX_DELIVERY_ATTEMPTS \<le> eo_attempts row + 1 then Dead else PendingDelivery), eo_attempts := eo_attempts row + 1\<rparr> = settled_row row"
      using bad(1) by (simp add: settled_row_def)
    from settled[OF this] show ?thesis using bad d by (simp add: mark_eval_outbox_def outbox_retry_def mark)
  qed
  then show "db_eval_outbox db' = map (\<lambda>e. if e = row then settled_row e else e) (db_eval_outbox db)"
    and "recordable (eo_payload row) \<Longrightarrow> observed ev' (rs_run_id (eo_payload row))"
    and "\<exists>new. ed_observations ev' = ed_observations ev @ new \<and>
           (\<forall>x \<in> set new. on_run_id x = rs_run_id (eo_payload row) \<and> recordable (eo_payload row) \<and> \<not> observed ev (on_run_id x)) \<and> length new \<le> 1"
    by blast+
qed

text \<open>One observation per run, and observations are never removed.\<close>

definition one_per_run :: "eval_db \<Rightarrow> bool" where
  "one_per_run ev \<longleftrightarrow> distinct (map on_run_id (ed_observations ev))"

lemma one_per_run_extend:
  assumes "one_per_run ev" "ed_observations ev' = ed_observations ev @ new" "length new \<le> 1" "\<forall>x \<in> set new. \<not> observed ev (on_run_id x)"
  shows "one_per_run ev'"
proof (cases new)
  case Nil
  then show ?thesis using assms by (simp add: one_per_run_def)
next
  case (Cons x xs)
  then have new: "new = [x]" using assms(3) by simp
  then show ?thesis using assms(1,2,4) by (auto simp: one_per_run_def observed_def)
qed

lemma observed_extend: "ed_observations ev' = ed_observations ev @ new \<Longrightarrow> observed ev r \<Longrightarrow> observed ev' r"
  by (auto simp: observed_def)

lemma deliver_rows_effect:
  assumes "fold (deliver_row ph now) rows (n, db, ev) = (n', db', ev')" "set rows \<subseteq> set (db_eval_outbox db)"
    "distinct (map eo_key (db_eval_outbox db))" "distinct rows" "one_per_run ev"
  shows "db_eval_outbox db' = map (\<lambda>e. if e \<in> set rows then settled_row e else e) (db_eval_outbox db) \<and> one_per_run ev' \<and>
     (\<exists>new. ed_observations ev' = ed_observations ev @ new \<and>
        (\<forall>x \<in> set new. \<exists>e \<in> set rows. on_run_id x = rs_run_id (eo_payload e) \<and> recordable (eo_payload e))) \<and>
     (\<forall>e \<in> set rows. recordable (eo_payload e) \<longrightarrow> observed ev' (rs_run_id (eo_payload e)))"
  using assms
proof (induction rows arbitrary: n db ev)
  case (Cons row rows)
  obtain n1 db1 ev1 where d: "deliver_row ph now row (n, db, ev) = (n1, db1, ev1)" by (metis prod_cases3)
  have row: "row \<in> set (db_eval_outbox db)" using Cons.prems(2) by simp
  note eff = deliver_row_effect[OF d row Cons.prems(3)]
  from eff(3) obtain new1 where new1: "ed_observations ev1 = ed_observations ev @ new1" "length new1 \<le> 1"
    "\<forall>x \<in> set new1. on_run_id x = rs_run_id (eo_payload row) \<and> recordable (eo_payload row) \<and> \<not> observed ev (on_run_id x)" by blast
  have keys: "map eo_key (db_eval_outbox db1) = map eo_key (db_eval_outbox db)" unfolding eff(1) by simp
  have "row \<notin> set rows" using Cons.prems(4) by simp
  then have sub: "set rows \<subseteq> set (db_eval_outbox db1)" unfolding eff(1) using Cons.prems(2) by auto
  have one: "one_per_run ev1" using one_per_run_extend[OF Cons.prems(5) new1(1,2)] new1(3) by blast
  have rest: "fold (deliver_row ph now) rows (n1, db1, ev1) = (n', db', ev')" using Cons.prems(1) d by simp
  have "distinct (map eo_key (db_eval_outbox db1))" "distinct rows" using keys Cons.prems(3,4) by simp_all
  from Cons.IH[OF rest sub this one] obtain new2 where ih:
    "db_eval_outbox db' = map (\<lambda>e. if e \<in> set rows then settled_row e else e) (db_eval_outbox db1)" "one_per_run ev'"
    "ed_observations ev' = ed_observations ev1 @ new2"
    "\<forall>x \<in> set new2. \<exists>e \<in> set rows. on_run_id x = rs_run_id (eo_payload e) \<and> recordable (eo_payload e)"
    "\<forall>e \<in> set rows. recordable (eo_payload e) \<longrightarrow> observed ev' (rs_run_id (eo_payload e))" by blast
  have inj: "settled_row row \<notin> set rows"
  proof
    assume "settled_row row \<in> set rows"
    then have "settled_row row \<in> set (db_eval_outbox db)" using Cons.prems(2) by auto
    then have "settled_row row = row" using Cons.prems(3) row settle_key(1) by (metis distinct_map inj_onD)
    then show False using \<open>settled_row row \<in> set rows\<close> \<open>row \<notin> set rows\<close> by simp
  qed
  have "db_eval_outbox db' = map (\<lambda>e. if e \<in> set (row # rows) then settled_row e else e) (db_eval_outbox db)"
    unfolding ih(1) eff(1) using inj by (auto simp: comp_def)
  moreover have "ed_observations ev' = ed_observations ev @ (new1 @ new2)" using ih(3) new1(1) by simp
  moreover have "observed ev' (rs_run_id (eo_payload row))" if "recordable (eo_payload row)"
    using observed_extend[OF ih(3) eff(2)[OF that]] .
  ultimately show ?case using ih(2,4,5) new1(3) by (intro conjI exI[of _ "new1 @ new2"]) auto
qed simp

text \<open>Repeated drains, one per instant.\<close>

definition drains :: "(run_state \<Rightarrow> string) \<Rightarrow> instant list \<Rightarrow> run_db \<times> eval_db \<Rightarrow> run_db \<times> eval_db" where
  "drains ph instants = fold (\<lambda>now (db, ev). snd (drain_eval_outbox ph now db ev)) instants"

lemma settle_pending: "eo_status (settled_row e) = PendingDelivery \<Longrightarrow> eo_attempts (settled_row e) = eo_attempts e + 1 \<and> eo_attempts e + 1 < 8"
  by (simp add: settled_row_def MAX_DELIVERY_ATTEMPTS_def split: if_splits)

text \<open>After a number of drains every pending row has used as many attempts.\<close>

definition worn :: "int \<Rightarrow> run_db \<Rightarrow> bool" where
  "worn k db \<longleftrightarrow> (\<forall>e \<in> set (pending_eval_outbox db). k \<le> eo_attempts e \<and> (0 < k \<longrightarrow> eo_attempts e < 8))"

lemma settled_rows:
  assumes "db_eval_outbox db' = map (\<lambda>e. if eo_status e = PendingDelivery then settled_row e else e) (db_eval_outbox db)"
    "e' \<in> set (pending_eval_outbox db')"
  obtains e where "e \<in> set (pending_eval_outbox db)" "e' = settled_row e"
proof -
  from assms(2) have p: "eo_status e' = PendingDelivery" "e' \<in> set (db_eval_outbox db')"
    by (simp_all add: pending_eval_outbox_def)
  from p(2) obtain e where e: "e \<in> set (db_eval_outbox db)" "e' = (if eo_status e = PendingDelivery then settled_row e else e)"
    unfolding assms(1) set_map by (rule imageE)
  from e(2) p(1) have "eo_status e = PendingDelivery" by (simp split: if_splits)
  with e show thesis by (intro that[of e]) (simp_all add: pending_eval_outbox_def)
qed

lemma drain_observes_step:
  assumes "drain_eval_outbox ph now db ev = (n, db', ev')" "distinct (map eo_key (db_eval_outbox db))" "one_per_run ev"
  shows "db_eval_outbox db' = map (\<lambda>e. if eo_status e = PendingDelivery then settled_row e else e) (db_eval_outbox db)"
    and "one_per_run ev'"
    and "\<exists>new. ed_observations ev' = ed_observations ev @ new \<and>
        (\<forall>x \<in> set new. \<exists>e \<in> set (pending_eval_outbox db). on_run_id x = rs_run_id (eo_payload e) \<and> recordable (eo_payload e))"
    and "\<forall>e \<in> set (pending_eval_outbox db). recordable (eo_payload e) \<longrightarrow> observed ev' (rs_run_id (eo_payload e))"
proof -
  have "set (pending_eval_outbox db) \<subseteq> set (db_eval_outbox db)" "distinct (pending_eval_outbox db)"
    using assms(2) by (auto simp: pending_eval_outbox_def distinct_map)
  note eff = deliver_rows_effect[OF assms(1)[unfolded drain_eval_outbox_def] this(1) assms(2) this(2) assms(3)]
  have "map (\<lambda>e. if e \<in> set (pending_eval_outbox db) then settled_row e else e) (db_eval_outbox db) =
      map (\<lambda>e. if eo_status e = PendingDelivery then settled_row e else e) (db_eval_outbox db)"
    by (rule map_cong) (auto simp: pending_eval_outbox_def)
  with eff show "db_eval_outbox db' = map (\<lambda>e. if eo_status e = PendingDelivery then settled_row e else e) (db_eval_outbox db)"
    and "one_per_run ev'"
    and "\<exists>new. ed_observations ev' = ed_observations ev @ new \<and>
        (\<forall>x \<in> set new. \<exists>e \<in> set (pending_eval_outbox db). on_run_id x = rs_run_id (eo_payload e) \<and> recordable (eo_payload e))"
    and "\<forall>e \<in> set (pending_eval_outbox db). recordable (eo_payload e) \<longrightarrow> observed ev' (rs_run_id (eo_payload e))"
    by simp_all
qed

lemma bulk_samples_single: "pair_at (contribution_samples_bulk db tc snap) k = contribution_samples db k tc snap"
proof -
  have g: "(case map_of (group_samples key_of os) k of None \<Rightarrow> empty_sample | Some s \<Rightarrow> s) =
      count_sample (filter (\<lambda>x. key_of x = Some k) os)" for key_of os
    by (simp add: map_of_group_samples)
  show ?thesis
    unfolding contribution_samples_bulk_def Let_def pair_at_second[OF distinct_group_samples]
      pair_at_first[OF distinct_group_samples] pair_at_empty fst_conv snd_conv g filter_key_arm
    by (simp add: contribution_samples_def)
qed

lemma contribution_samples_ok:
  "sample_ok (fst (contribution_samples db k tc snap))" "sample_ok (snd (contribution_samples db k tc snap))"
  by (simp_all add: contribution_samples_def count_sample_ok)

subsection \<open>Properties\<close>

text \<open>
  The bulk query agrees with the single queries: for every task class, snapshot and version, the pair of
  samples that the two grouped scans yield (two empty samples when the version is absent) is the pair of the
  per-version query, and both are counts of successes among trials.\<close>

theorem bulk_samples_equal_single:
  "pair_at (contribution_samples_bulk db tc snap) k = contribution_samples db k tc snap \<and>
   sample_ok (fst (contribution_samples db k tc snap)) \<and> sample_ok (snd (contribution_samples db k tc snap))"
  by (simp add: bulk_samples_single contribution_samples_ok)

text \<open>
  The failure streak is the run of failures at the end: for a version with caller-visible treatment
  runs, the scan returns how many of its most recent runs failed before the latest one that did not, and
  it returns nothing for a version without such runs.\<close>

theorem field_failure_streak_is_trailing:
  "field_failure_streaks db k =
     (let rows = filter (\<lambda>x. on_skill x = Some k) (most_recent_first (field_rows db))
      in if rows = [] then None else Some (int (length (takeWhile field_failed rows))))"
proof -
  have some: "\<forall>x \<in> set (most_recent_first (field_rows db)). on_skill x \<noteq> None"
    by (simp add: most_recent_first_def field_rows_def)
  have "\<forall>x \<in> set (streak_order db). on_skill x \<noteq> None" using some by (simp add: streak_order_def)
  from streaks_spec[OF this, of k] show ?thesis
    unfolding streak_at_def field_failure_streaks_def streak_order_def filter_sort_by_key[OF some]
    by (simp add: Let_def trailing_failures_def)
qed

text \<open>
  C25. Every finished run is observed once, however often the outbox is drained: a drain settles exactly the
  pending rows, a recordable row becomes delivered and its run has an observation, a row that cannot be
  recorded loses one of its eight attempts, observations are only added, only for runs of the outbox, and
  no run ever has two.\<close>

theorem drain_observes_each_run_once:
  assumes "drain_eval_outbox ph now db ev = (n, db', ev')" "distinct (map eo_key (db_eval_outbox db))" "one_per_run ev"
  shows "db_eval_outbox db' = map (\<lambda>e. if eo_status e = PendingDelivery then settled_row e else e) (db_eval_outbox db) \<and>
     one_per_run ev' \<and>
     (\<exists>new. ed_observations ev' = ed_observations ev @ new \<and>
        (\<forall>x \<in> set new. \<exists>e \<in> set (pending_eval_outbox db). on_run_id x = rs_run_id (eo_payload e) \<and> recordable (eo_payload e))) \<and>
     (\<forall>e \<in> set (pending_eval_outbox db). recordable (eo_payload e) \<longrightarrow> observed ev' (rs_run_id (eo_payload e)))"
  using drain_observes_step[OF assms] by blast

text \<open>
  Nothing stays pending: after eight drains, whatever was recorded meanwhile, every row that was pending
  is delivered or dead.\<close>

theorem outbox_settles_within_eight_drains:
  assumes "drains ph instants (db, ev) = (db', ev')" "length instants = 8" "distinct (map eo_key (db_eval_outbox db))" "one_per_run ev"
    and "\<forall>e \<in> set (db_eval_outbox db). 0 \<le> eo_attempts e"
  shows "pending_eval_outbox db' = []"
proof -
  have "worn (int (length instants)) db' \<and> distinct (map eo_key (db_eval_outbox db')) \<and> one_per_run ev'"
    if "drains ph instants (db, ev) = (db', ev')" for instants db' ev'
    using that
  proof (induction instants arbitrary: db' ev' rule: rev_induct)
    case Nil
    then show ?case using assms(3-5) by (auto simp: drains_def worn_def pending_eval_outbox_def)
  next
    case (snoc now instants)
    obtain db1 ev1 where d1: "drains ph instants (db, ev) = (db1, ev1)" by fastforce
    obtain n where d2: "drain_eval_outbox ph now db1 ev1 = (n, db', ev')"
      using snoc.prems d1 by (auto simp: drains_def) (metis prod.collapse snd_conv)
    from snoc.IH[OF d1] have ih: "worn (int (length instants)) db1" "distinct (map eo_key (db_eval_outbox db1))" "one_per_run ev1" by simp_all
    note eff = drain_observes_step[OF d2 ih(2,3)]
    have "int (length instants) + 1 \<le> eo_attempts e' \<and> eo_attempts e' < 8" if e': "e' \<in> set (pending_eval_outbox db')" for e'
    proof -
      obtain e where e: "e \<in> set (pending_eval_outbox db1)" "e' = settled_row e" by (rule settled_rows[OF eff(1) e'])
      have "eo_status (settled_row e) = PendingDelivery" using e' e(2) by (simp add: pending_eval_outbox_def)
      from settle_pending[OF this] e ih(1) show ?thesis by (auto simp: worn_def)
    qed
    then have "worn (int (length (instants @ [now]))) db'" by (auto simp: worn_def add.commute)
    moreover have "map eo_key (db_eval_outbox db') = map eo_key (db_eval_outbox db1)" unfolding eff(1) by simp
    ultimately show ?case using eff(2) ih(2) by simp
  qed
  from this[OF assms(1)] have "worn 8 db'" using assms(2) by simp
  then show ?thesis by (cases "pending_eval_outbox db'") (force simp: worn_def)+
qed

subsection \<open>Examples\<close>

definition finished_run :: run_state where
  "finished_run = example_state\<lparr>rs_terminal := Some Solved, rs_criteria_locked := True,
     rs_manifest := \<lparr>mf_index_snapshot_id = Some ''snap'', mf_criteria_hash = Some ''h''\<rparr>,
     rs_task := (rs_task example_state)\<lparr>t_task_class := Some ''repo-chore''\<rparr>\<rparr>"

definition finished_row :: eval_outbox_row where
  "finished_row = \<lparr>eo_key = ''t/r/1'', eo_run_id = rs_run_id finished_run, eo_attempt_no = 1, eo_payload = finished_run,
     eo_status = PendingDelivery, eo_attempts = 0\<rparr>"

definition no_observations :: eval_db where
  "no_observations = \<lparr>ed_observations = [], ed_ablations = Map.empty\<rparr>"

lemma finished_run_recordable: "recordable finished_run"
  by (simp add: recordable_def finished_run_def)

theorem drain_observes_each_run_once_witness:
  "\<exists>n db' ev'. drain_eval_outbox (\<lambda>s. ''h'') 5 (empty_db\<lparr>db_eval_outbox := [finished_row]\<rparr>) no_observations = (n, db', ev') \<and>
     map eo_status (db_eval_outbox db') = [Delivered] \<and> observed ev' (rs_run_id finished_run) \<and> one_per_run ev'"
proof -
  let ?db = "empty_db\<lparr>db_eval_outbox := [finished_row]\<rparr>"
  obtain n db' ev' where d: "drain_eval_outbox (\<lambda>s. ''h'') 5 ?db no_observations = (n, db', ev')" by (metis prod_cases3)
  have "distinct (map eo_key (db_eval_outbox ?db))" "one_per_run no_observations" by (simp_all add: one_per_run_def no_observations_def)
  note once = drain_observes_each_run_once[OF d this]
  have rec: "recordable (eo_payload finished_row)" "finished_row \<in> set (pending_eval_outbox ?db)"
    using finished_run_recordable by (simp_all add: finished_row_def pending_eval_outbox_def)
  have "map eo_status (db_eval_outbox db') = [Delivered]" using once rec(1) by (simp add: settled_row_def finished_row_def)
  moreover have "observed ev' (rs_run_id finished_run)" using once rec by (auto simp: finished_row_def)
  ultimately show ?thesis using d once by (intro exI[of _ n] exI[of _ db'] exI[of _ ev']) simp
qed

text \<open>A row whose run never locked its criteria is dead after eight drains.\<close>

definition unlocked_row :: eval_outbox_row where
  "unlocked_row = finished_row\<lparr>eo_payload := finished_run\<lparr>rs_criteria_locked := False\<rparr>\<rparr>"

theorem outbox_settles_within_eight_drains_witness:
  "\<exists>db' ev'. drains (\<lambda>s. ''h'') [1, 2, 3, 4, 5, 6, 7, 8] (empty_db\<lparr>db_eval_outbox := [unlocked_row]\<rparr>, no_observations) = (db', ev') \<and>
     pending_eval_outbox db' = []"
proof -
  let ?db = "empty_db\<lparr>db_eval_outbox := [unlocked_row]\<rparr>"
  obtain db' ev' where d: "drains (\<lambda>s. ''h'') [1, 2, 3, 4, 5, 6, 7, 8] (?db, no_observations) = (db', ev')" by (metis prod.exhaust)
  have "one_per_run no_observations" by (simp add: one_per_run_def no_observations_def)
  with outbox_settles_within_eight_drains[OF d] d show ?thesis
    by (simp add: unlocked_row_def finished_row_def)
qed

end
