(* ===== verification/Skill_Lifecycle.thy ===== *)
theory Skill_Lifecycle
  imports Skill_Applicability Eval_Store
begin

section \<open>Lifecycle transitions\<close>

text \<open>
  The transitions of \<open>review/lifecycle.py\<close>, \<open>review/field_failures.py\<close>, the shadow entry of \<open>review/shadow.py\<close>, the
  revoke drain of \<open>memory/procedural/lineage.py\<close>, the quarantine of \<open>memory/procedural/composition.py\<close> and the
  recertification passes of \<open>jobs/workers.py\<close>. The state they share is a record: the library, the evaluation store and
  the ledger, here the notes appended to it (actor, action, version), absent when no ledger is passed. Every
  operation returns its value or error with the state it leaves behind. The second half shows that all of them
  refine one lifecycle automaton.
\<close>

record lifecycle_world =
  lw_library :: library
  lw_evals :: eval_db
  lw_ledger :: "(string \<times> string \<times> vkey) list option"

datatype lifecycle_error =
    NotShadow | LiftRefused | FewApplications | FewSuccesses | PriorIsZero | SelfDistilledBar | GateRefusedSkill
  | BelowEvidenceFloor | NotConfidentlyNegative | NotBenched | ShadowRefused
  | StoreFailed store_error | StatsFailed stats_error

type_synonym 'a transition = "lifecycle_world \<Rightarrow> (lifecycle_error, 'a) result \<times> lifecycle_world"

text \<open>An exception ends the operation; what was written before it stays.\<close>

definition and_then :: "('e, 'a) result \<times> 'w \<Rightarrow> ('a \<Rightarrow> 'w \<Rightarrow> ('e, 'b) result \<times> 'w) \<Rightarrow> ('e, 'b) result \<times> 'w" where
  "and_then m f = (case m of (Inl e, w) \<Rightarrow> (Inl e, w) | (Inr x, w) \<Rightarrow> f x w)"

definition on_library :: "(library \<Rightarrow> (store_error, unit) result \<times> library) \<Rightarrow> unit transition" where
  "on_library f w =
     (case f (lw_library w) of
        (Inl e, lib) \<Rightarrow> (Inl (StoreFailed e), w\<lparr>lw_library := lib\<rparr>)
      | (Inr _, lib) \<Rightarrow> (Inr (), w\<lparr>lw_library := lib\<rparr>))"

definition note_ledger :: "string \<Rightarrow> string \<Rightarrow> vkey \<Rightarrow> lifecycle_world \<Rightarrow> lifecycle_world" where
  "note_ledger actor action target w = w\<lparr>lw_ledger := map_option (\<lambda>l. l @ [(actor, action, target)]) (lw_ledger w)\<rparr>"

fun for_each :: "('a \<Rightarrow> 'w \<Rightarrow> ('e, 'b list) result \<times> 'w) \<Rightarrow> 'a list \<Rightarrow> 'w \<Rightarrow> ('e, 'b list) result \<times> 'w" where
  "for_each f [] w = (Inr [], w)"
| "for_each f (x # xs) w = and_then (f x w) (\<lambda>ys w1. and_then (for_each f xs w1) (\<lambda>zs w2. (Inr (ys @ zs), w2)))"

abbreviation set_lifecycle :: "lifecycle \<Rightarrow> skill_status \<Rightarrow> skill_status" where
  "set_lifecycle lc s \<equiv> s\<lparr>ss_lifecycle := lc, ss_active := False\<rparr>"

abbreviation status_key :: "skill_status \<Rightarrow> vkey" where
  "status_key s \<equiv> (ss_skill_id s, ss_version s)"

subsection \<open>Evidence of one version\<close>

definition skill_contribution :: "eval_db \<Rightarrow> vkey \<Rightarrow> string \<Rightarrow> binomial_sample \<times> (stats_error, contribution) result" where
  "skill_contribution ev k tc =
     (case contribution_samples ev k tc None of (shadow, suppression) \<Rightarrow>
        (shadow, estimate_contribution shadow suppression (0 < bs_trials shadow \<and> 0 < bs_trials suppression)))"

definition refresh_ablation :: "string \<Rightarrow> unit transition" where
  "refresh_ablation tc w =
     (case retrieval_ablation_samples (lw_evals w) tc None of (enabled, suppressed) \<Rightarrow>
        (case estimate_retrieval_ablation tc enabled suppressed of
           Inl e \<Rightarrow> (Inl (StatsFailed e), w)
         | Inr eff \<Rightarrow> (Inr (), w\<lparr>lw_evals := write_retrieval_ablation eff (lw_evals w)\<rparr>)))"

subsection \<open>Shadow and candidate\<close>

definition refuse_if_inapplicable :: "gate_env \<Rightarrow> skill_doc \<Rightarrow> lifecycle_world \<Rightarrow> bool \<times> lifecycle_world" where
  "refuse_if_inapplicable env d w =
     (if ar_ok (check_applicability env None (Some (iter_loaded (lw_library w))) d) then (False, w)
      else (True, note_ledger ''applicability-gate'' ''applicability_reject'' (doc_key d) w))"

definition shadow_lift_error :: "autonomy_config \<Rightarrow> skill_doc \<Rightarrow> binomial_sample \<Rightarrow> real option \<Rightarrow> lifecycle_error option" where
  "shadow_lift_error cfg d shadow estimate =
     (case estimate of
        None \<Rightarrow> Some LiftRefused
      | Some lift \<Rightarrow>
          if lift < au_shadow_min_lift cfg then Some LiftRefused
          else if bs_trials shadow < au_shadow_min_applications cfg then Some FewApplications
          else if bs_successes shadow < au_shadow_min_successes cfg then Some FewSuccesses
          else if pv_curation (sd_provenance d) = SelfDistilled then
            (if au_curation_prior_self_distilled cfg = 0 then Some PriorIsZero
             else if lift < au_shadow_min_lift cfg / au_curation_prior_self_distilled cfg then Some SelfDistilledBar else None)
          else None)"

definition maybe_advance_shadow_to_candidate :: "gate_env \<Rightarrow> autonomy_config \<Rightarrow> vkey \<Rightarrow> skill_status transition" where
  "maybe_advance_shadow_to_candidate env cfg k w =
     (case (get_status (lw_library w) k, get_version (lw_library w) k) of
        (Some status, Some d) \<Rightarrow>
          if ss_lifecycle status \<noteq> LcShadow then (Inl NotShadow, w)
          else
            (let stats = get_stats (lw_library w) k;
                 trust = trust_score (pt_applications (st_predictive_trust stats)) (pt_successes (st_predictive_trust stats));
                 candidate = set_lifecycle LcCandidate status
             in case skill_contribution (lw_evals w) k (sd_task_class d) of
                  (shadow, Inl e) \<Rightarrow> (Inl (StatsFailed e), w)
                | (shadow, Inr contrib) \<Rightarrow>
                    (case shadow_lift_error cfg d shadow (contribution_estimate contrib) of
                       Some e \<Rightarrow> (Inl e, w)
                     | None \<Rightarrow>
                         (case refuse_if_inapplicable env d w of
                            (True, w0) \<Rightarrow> (Inl GateRefusedSkill, w0)
                          | (False, w0) \<Rightarrow>
                              and_then (on_library (write_status (Some LcShadow) candidate) w0) (\<lambda>_ w1.
                              and_then (refresh_ablation (sd_task_class d) w1) (\<lambda>_ w2.
                              and_then (on_library (write_stats (stats\<lparr>
                                  st_predictive_trust := (st_predictive_trust stats)\<lparr>pt_decayed_score := Some trust\<rparr>,
                                  st_contribution := contrib\<rparr>)) w2) (\<lambda>_ w3.
                              (Inr candidate, note_ledger ''m5-shadow-autonomy'' ''advance_to_candidate'' k w3)))))))
      | (Some status, None) \<Rightarrow>
          if ss_lifecycle status \<noteq> LcShadow then (Inl NotShadow, w) else (Inl (StoreFailed FileNotFound), w)
      | _ \<Rightarrow> (Inl (StoreFailed FileNotFound), w))"

definition SHADOWABLE :: "lifecycle list" where
  "SHADOWABLE = [LcCandidate, LcApproved, LcBenched, LcShadow, LcDraft]"

definition enter_shadow :: "vkey \<Rightarrow> unit transition" where
  "enter_shadow k w =
     (case get_status (lw_library w) k of
        None \<Rightarrow> (Inl (StoreFailed FileNotFound), w)
      | Some status \<Rightarrow>
          if ss_lifecycle status \<notin> set SHADOWABLE then (Inl ShadowRefused, w)
          else on_library (write_status (Some (ss_lifecycle status)) (set_lifecycle LcShadow status)) w)"

subsection \<open>Quarantine\<close>

definition quarantine_on_failures :: "autonomy_config \<Rightarrow> int \<Rightarrow> vkey \<Rightarrow> skill_status transition" where
  "quarantine_on_failures cfg consecutive_failures k w =
     (case get_status (lw_library w) k of
        None \<Rightarrow> (Inl (StoreFailed FileNotFound), w)
      | Some status \<Rightarrow>
          if consecutive_failures < au_quarantine_consecutive_failures cfg then (Inr status, w)
          else and_then (on_library (write_status (Some (ss_lifecycle status)) (set_lifecycle LcQuarantined status)) w) (\<lambda>_ w1.
                 (Inr (set_lifecycle LcQuarantined status), note_ledger ''m5-quarantine'' ''quarantine_version'' k w1)))"

definition recertify_field_failures :: "autonomy_config \<Rightarrow> (vkey \<times> int) list transition" where
  "recertify_field_failures cfg w =
     (let streaks = field_failure_streaks (lw_evals w)
      in for_each (\<lambda>(d, status, stats) w1.
           let streak = (case streaks (doc_key d) of None \<Rightarrow> 0 | Some n \<Rightarrow> n)
           in if ss_lifecycle status \<notin> {LcApproved, LcShadow, LcNeedsRecert} \<or> streak < au_quarantine_consecutive_failures cfg
              then (Inr [], w1)
              else and_then (quarantine_on_failures cfg streak (doc_key d) w1) (\<lambda>s w2.
                     (Inr (if ss_lifecycle s = LcQuarantined then [(doc_key d, streak)] else []), w2)))
           (iter_loaded (lw_library w)) w)"

definition pins :: "vkey \<Rightarrow> skill_doc \<Rightarrow> bool" where
  "pins child d \<longleftrightarrow> child \<in> set (sd_uses d)"

definition quarantine_child_blocks_parents :: "vkey \<Rightarrow> skill_status list transition" where
  "quarantine_child_blocks_parents child w =
     (case get_status (lw_library w) child of
        None \<Rightarrow> (Inl (StoreFailed FileNotFound), w)
      | Some status \<Rightarrow>
          and_then (on_library (write_status None (set_lifecycle LcQuarantined status)) w) (\<lambda>_ w1.
            for_each (\<lambda>(d, s, stats) w2.
                if pins child d
                then and_then (on_library (write_status None (set_lifecycle LcNeedsRecert s)) w2) (\<lambda>_ w3.
                       (Inr [set_lifecycle LcNeedsRecert s], w3))
                else (Inr [], w2))
              (iter_loaded (lw_library w1)) w1))"

subsection \<open>Bench and restore\<close>

definition mark_parents_needs_recert :: "vkey \<Rightarrow> unit list transition" where
  "mark_parents_needs_recert child w =
     for_each (\<lambda>(d, status, stats) w1.
         if pins child d \<and> ss_lifecycle status \<in> {LcApproved, LcShadow}
         then and_then (on_library (write_status (Some (ss_lifecycle status)) (set_lifecycle LcNeedsRecert status)) w1) (\<lambda>_ w2.
                (Inr [], note_ledger ''m5-retirement'' ''policy_change'' (doc_key d) w2))
         else (Inr [], w1))
       (iter_loaded (lw_library w)) w"

definition benched_status :: "instant \<Rightarrow> skill_status \<Rightarrow> skill_status" where
  "benched_status now status = (set_lifecycle LcBenched status)\<lparr>ss_retirement :=
     \<lparr>rt_benched_at = Some now, rt_reason = Some NegativeContribution, rt_restored_at = None, rt_grace_remaining = None\<rparr>\<rparr>"

definition maybe_bench_on_contribution :: "instant \<Rightarrow> autonomy_config \<Rightarrow> vkey \<Rightarrow> skill_status transition" where
  "maybe_bench_on_contribution now cfg k w =
     (case (get_status (lw_library w) k, get_version (lw_library w) k) of
        (Some status, Some d) \<Rightarrow>
          (case skill_contribution (lw_evals w) k (sd_task_class d) of
             (shadow, Inl e) \<Rightarrow> (Inl (StatsFailed e), w)
           | (shadow, Inr contrib) \<Rightarrow>
               (case retirement_decision (bs_trials shadow) (contribution_estimate contrib) (ct_interval_high contrib)
                       (au_evidence_floor cfg) (au_retirement_threshold cfg) of
                  BelowFloor \<Rightarrow> (Inl BelowEvidenceFloor, w)
                | Retire \<Rightarrow>
                    and_then (on_library (write_status (Some (ss_lifecycle status)) (benched_status now status)) w) (\<lambda>_ w1.
                    and_then (refresh_ablation (sd_task_class d) w1) (\<lambda>_ w2.
                    and_then (on_library (write_stats ((get_stats (lw_library w) k)\<lparr>st_contribution := contrib\<rparr>)) w2) (\<lambda>_ w3.
                    and_then (mark_parents_needs_recert k (note_ledger ''m5-retirement'' ''deprecate'' k w3)) (\<lambda>_ w4.
                    (Inr (benched_status now status), w4)))))
                | _ \<Rightarrow> (Inl NotConfidentlyNegative, w)))
      | _ \<Rightarrow> (Inl (StoreFailed FileNotFound), w))"

definition restored_status :: "instant \<Rightarrow> skill_status \<Rightarrow> skill_status" where
  "restored_status now status =
     (set_lifecycle LcCandidate status)\<lparr>ss_retirement := (ss_retirement status)\<lparr>rt_restored_at := Some now\<rparr>\<rparr>"

definition restore_benched :: "instant \<Rightarrow> vkey \<Rightarrow> skill_status transition" where
  "restore_benched now k w =
     (case get_status (lw_library w) k of
        None \<Rightarrow> (Inl (StoreFailed FileNotFound), w)
      | Some status \<Rightarrow>
          if ss_lifecycle status \<noteq> LcBenched then (Inl NotBenched, w)
          else and_then (on_library (write_status (Some LcBenched) (restored_status now status)) w) (\<lambda>_ w1.
                 (Inr (restored_status now status), note_ledger ''m5-retirement'' ''policy_change'' k w1)))"

subsection \<open>Recertification\<close>

definition recertify_stale :: "string option \<Rightarrow> vkey list transition" where
  "recertify_stale tool_upgraded w =
     for_each (\<lambda>(d, status, stats) w1.
         if tool_upgraded \<notin> {None, Some []} \<or> ce_recert_status (ss_certification status) = Stale
         then and_then (on_library (write_status None (set_lifecycle LcNeedsRecert status)) w1) (\<lambda>_ w2. (Inr [doc_key d], w2))
         else (Inr [], w1))
       (iter_loaded (lw_library w)) w"

text \<open>\<open>_mark_needs_recert\<close>; the flag says whether a status was written.\<close>

definition mark_needs_recert :: "vkey \<Rightarrow> library \<Rightarrow> (store_error, bool) result \<times> library" where
  "mark_needs_recert k lib =
     (case get_status lib k of
        None \<Rightarrow> (Inr False, lib)
      | Some status \<Rightarrow>
          if ss_lifecycle status \<in> {LcQuarantined, LcDeprecated, LcNeedsRecert} then (Inr False, lib)
          else and_then (write_status None (set_lifecycle LcNeedsRecert status) lib) (\<lambda>_ lib'. (Inr True, lib')))"

definition parents_of :: "library \<Rightarrow> vkey \<Rightarrow> vkey list" where
  "parents_of lib k = concat (map (\<lambda>(d, s, st). map (\<lambda>u. doc_key d) (filter (\<lambda>u. u = k) (sd_uses d))) (iter_loaded lib))"

text \<open>The loops of \<open>drain_revokes\<close> thread the writes left, the items put back and the library; their value is the
  list of versions marked. A target that finds no write left puts the item back and ends its loop; a parent
  that finds none is skipped.\<close>

record drain_state =
  dr_remaining :: int
  dr_leftover :: "source list"
  dr_library :: library

definition drain_mark :: "vkey \<Rightarrow> drain_state \<Rightarrow> (store_error, vkey list) result \<times> drain_state" where
  "drain_mark k s =
     (case mark_needs_recert k (dr_library s) of
        (Inl e, lib) \<Rightarrow> (Inl e, s\<lparr>dr_library := lib\<rparr>)
      | (Inr marked, lib) \<Rightarrow>
          if marked then (Inr [k], s\<lparr>dr_library := lib, dr_remaining := dr_remaining s - 1\<rparr>)
          else (Inr [], s\<lparr>dr_library := lib\<rparr>))"

definition drain_parent :: "vkey \<Rightarrow> drain_state \<Rightarrow> (store_error, vkey list) result \<times> drain_state" where
  "drain_parent p s = (if dr_remaining s \<le> 0 then (Inr [], s) else drain_mark p s)"

fun drain_targets :: "(vkey \<Rightarrow> vkey list) \<Rightarrow> source \<Rightarrow> vkey list \<Rightarrow> drain_state \<Rightarrow> (store_error, vkey list) result \<times> drain_state" where
  "drain_targets parents item [] s = (Inr [], s)"
| "drain_targets parents item (k # ks) s =
     (if dr_remaining s \<le> 0 then (Inr [], s\<lparr>dr_leftover := dr_leftover s @ [item]\<rparr>)
      else and_then (drain_mark k s) (\<lambda>m1 s1.
           and_then (for_each drain_parent (parents k) s1) (\<lambda>m2 s2.
           and_then (drain_targets parents item ks s2) (\<lambda>m3 s3. (Inr (m1 @ m2 @ m3), s3)))))"

definition drain_item :: "(vkey \<Rightarrow> vkey list) \<Rightarrow> source \<Rightarrow> drain_state \<Rightarrow> (store_error, vkey list) result \<times> drain_state" where
  "drain_item parents item s =
     (if dr_remaining s \<le> 0 then (Inr [], s\<lparr>dr_leftover := dr_leftover s @ [item]\<rparr>)
      else drain_targets parents item (lineage_lookup (dr_library s) item) s)"

definition take_revokes :: "int \<Rightarrow> library \<Rightarrow> source list \<times> library" where
  "take_revokes limit lib =
     (if limit \<le> 0 then ([], lib)
      else (take (nat limit) (lb_revokes lib), lib\<lparr>lb_revokes := drop (nat limit) (lb_revokes lib)\<rparr>))"

definition drain_revokes :: "int \<Rightarrow> library \<Rightarrow> (store_error, vkey list) result \<times> library" where
  "drain_revokes max_writes lib =
     (case take_revokes max_writes lib of (items, lib1) \<Rightarrow>
        (case for_each (drain_item (parents_of lib1)) items \<lparr>dr_remaining = max_writes, dr_leftover = [], dr_library = lib1\<rparr> of
           (Inl e, s) \<Rightarrow> (Inl e, dr_library s)
         | (Inr touched, s) \<Rightarrow>
             (Inr touched, (dr_library s)\<lparr>lb_revokes := lb_revokes (dr_library s) @ dr_leftover s\<rparr>)))"

definition recertify_with_revokes :: "autonomy_config \<Rightarrow> int \<Rightarrow> string option \<Rightarrow> vkey list transition" where
  "recertify_with_revokes cfg max_writes tool_upgraded w =
     and_then (recertify_stale tool_upgraded w) (\<lambda>stale w1.
     and_then (recertify_field_failures cfg w1) (\<lambda>off w2.
       case drain_revokes max_writes (lw_library w2) of
         (Inl e, lib) \<Rightarrow> (Inl (StoreFailed e), w2\<lparr>lw_library := lib\<rparr>)
       | (Inr touched, lib) \<Rightarrow> (Inr (stale @ map fst off @ touched), w2\<lparr>lw_library := lib\<rparr>)))"

subsection \<open>The lifecycle automaton\<close>

text \<open>The abstract specification: which lifecycle may follow which without the golden gate.\<close>

definition lifecycle_arc :: "lifecycle option \<Rightarrow> lifecycle \<Rightarrow> bool" where
  "lifecycle_arc before lc =
     (case lc of
        LcDraft \<Rightarrow> before = Some LcDraft
      | LcCandidate \<Rightarrow> before \<in> {None, Some LcDraft, Some LcCandidate, Some LcShadow, Some LcBenched}
      | LcShadow \<Rightarrow> before \<in> Some ` set SHADOWABLE
      | LcApproved \<Rightarrow> before = Some LcApproved
      | LcBenched \<Rightarrow> before \<noteq> None
      | LcNeedsRecert \<Rightarrow> True
      | LcDeprecated \<Rightarrow> before = Some LcDeprecated
      | LcQuarantined \<Rightarrow> before \<noteq> None)"

definition lib_ok :: "library \<Rightarrow> bool" where
  "lib_ok lib \<longleftrightarrow> distinct (map doc_key (lb_docs lib)) \<and>
     (\<forall>k s. lb_status lib k = Some s \<longrightarrow> status_key s = k \<and> get_version lib k \<noteq> None \<and> (ss_active s \<longrightarrow> ss_lifecycle s = LcApproved))"

text \<open>One step of the library: a new document, or one status along an arc of the automaton.\<close>

inductive lib_move :: "library \<Rightarrow> library \<Rightarrow> bool" where
  quiet: "lb_docs lib' = lb_docs lib \<Longrightarrow> lb_status lib' = lb_status lib \<Longrightarrow> lib_move lib lib'"
| publish: "get_version lib (doc_key d) = None \<Longrightarrow> lb_docs lib' = lb_docs lib @ [d] \<Longrightarrow> lb_status lib' = lb_status lib \<Longrightarrow> lib_move lib lib'"
| change: "lb_docs lib' = lb_docs lib \<Longrightarrow> lb_status lib' = (lb_status lib)(status_key s \<mapsto> s) \<Longrightarrow> get_version lib (status_key s) \<noteq> None \<Longrightarrow>
    lifecycle_arc (map_option ss_lifecycle (lb_status lib (status_key s))) (ss_lifecycle s) \<Longrightarrow>
    (ss_active s \<longrightarrow> ss_lifecycle s = LcApproved) \<Longrightarrow> lib_move lib lib'"

abbreviation lib_moves :: "library \<Rightarrow> library \<Rightarrow> bool" where
  "lib_moves \<equiv> lib_move\<^sup>*\<^sup>*"

lemma get_version_snoc:
  "get_version lib k = None \<Longrightarrow> lb_docs lib' = lb_docs lib @ [d] \<Longrightarrow> get_version lib' j = (case get_version lib j of None \<Rightarrow> if doc_key d = j then Some d else None | Some x \<Rightarrow> Some x)"
  by (simp add: get_version_def find_append split: option.splits)

lemma lib_move_ok:
  assumes "lib_move lib lib'" "lib_ok lib"
  shows "lib_ok lib'"
  using assms
proof (cases rule: lib_move.cases)
  case quiet
  then show ?thesis using assms(2) by (simp add: lib_ok_def get_version_def)
next
  case (publish d)
  have "doc_key d \<notin> set (map doc_key (lb_docs lib))" using publish(1) unfolding get_version_None set_map .
  then have dist: "distinct (map doc_key (lb_docs lib'))" using publish(2) assms(2) by (simp add: lib_ok_def)
  have "get_version lib' k \<noteq> None" if "get_version lib k \<noteq> None" for k
    using that get_version_snoc[OF publish(1,2), of k] by auto
  then show ?thesis using dist assms(2) publish(3) by (simp add: lib_ok_def)
next
  case (change s)
  then show ?thesis using assms(2) get_version_cong[OF change(1)] by (auto simp: lib_ok_def)
qed

lemma lib_moves_ok: "lib_moves lib lib' \<Longrightarrow> lib_ok lib \<Longrightarrow> lib_ok lib'"
  by (induction rule: rtranclp_induct) (auto intro: lib_move_ok)

text \<open>Documents are immutable.\<close>

lemma lib_move_docs: "lib_move lib lib' \<Longrightarrow> get_version lib k = Some d \<Longrightarrow> get_version lib' k = Some d"
  by (cases rule: lib_move.cases) (auto simp: get_version_def find_append)

lemma lib_moves_docs: "lib_moves lib lib' \<Longrightarrow> get_version lib k = Some d \<Longrightarrow> get_version lib' k = Some d"
  by (induction rule: rtranclp_induct) (auto intro: lib_move_docs)

lemma lib_okD:
  assumes "lib_ok lib" "lb_status lib k = Some s"
  shows "status_key s = k" "get_version lib k \<noteq> None" "ss_active s \<longrightarrow> ss_lifecycle s = LcApproved"
  using assms(1)[unfolded lib_ok_def, THEN conjunct2, rule_format, OF assms(2)] by simp_all

text \<open>No move of the automaton approves a version.\<close>

lemma lib_move_approved:
  assumes "lib_move lib lib'" "lb_status lib' k = Some s'" "ss_lifecycle s' = LcApproved"
  shows "\<exists>s. lb_status lib k = Some s \<and> ss_lifecycle s = LcApproved"
  using assms
proof (cases rule: lib_move.cases)
  case (change s)
  then show ?thesis using assms(2,3) by (cases "k = status_key s") (auto simp: lifecycle_arc_def)
qed auto

lemma lib_moves_approved:
  "lib_moves lib lib' \<Longrightarrow> lb_status lib' k = Some s' \<Longrightarrow> ss_lifecycle s' = LcApproved \<Longrightarrow>
   \<exists>s. lb_status lib k = Some s \<and> ss_lifecycle s = LcApproved"
proof (induction arbitrary: s' rule: rtranclp_induct)
  case (step y z)
  from lib_move_approved[OF step.hyps(2) step.prems] step.IH show ?case by blast
qed auto

subsection \<open>Every transition moves along the automaton\<close>

lemma moves_and_then:
  assumes "lib_ok a" "lib_moves a (\<pi> (snd m))"
    and "\<And>x w1. m = (Inr x, w1) \<Longrightarrow> lib_ok (\<pi> w1) \<Longrightarrow> lib_moves (\<pi> w1) (\<pi> (snd (f x w1)))"
  shows "lib_moves a (\<pi> (snd (and_then m f)))"
proof -
  obtain r w1 where m: "m = (r, w1)" by fastforce
  have "lib_ok (\<pi> w1)" using lib_moves_ok[OF assms(2,1)] m by simp
  then show ?thesis
    using assms(2) assms(3)[of _ w1] m by (cases r) (auto simp: and_then_def intro: rtranclp_trans)
qed

lemma moves_for_each:
  assumes "lib_ok (\<pi> w)" "\<And>x w. x \<in> set xs \<Longrightarrow> lib_ok (\<pi> w) \<Longrightarrow> lib_moves (\<pi> w) (\<pi> (snd (f x w)))"
  shows "lib_moves (\<pi> w) (\<pi> (snd (for_each f xs w)))"
  using assms
proof (induction xs arbitrary: w)
  case (Cons x xs)
  show ?case unfolding for_each.simps
  proof (rule moves_and_then[where \<pi> = \<pi>, OF Cons.prems(1)])
    show "lib_moves (\<pi> w) (\<pi> (snd (f x w)))" using Cons.prems by simp
    fix ys w1 assume ok: "lib_ok (\<pi> w1)"
    have "lib_moves (\<pi> w1) (\<pi> (snd (for_each f xs w1)))" by (rule Cons.IH[OF ok]) (rule Cons.prems(2), simp)
    then show "lib_moves (\<pi> w1) (\<pi> (snd (and_then (for_each f xs w1) (\<lambda>zs w2. (Inr (ys @ zs), w2)))))"
      by (rule moves_and_then[where \<pi> = \<pi>, OF ok]) simp
  qed
qed simp

lemmas world_and_then = moves_and_then[where \<pi> = lw_library]
lemmas world_for_each = moves_for_each[where \<pi> = lw_library]

lemma world_last:
  "lib_ok a \<Longrightarrow> lib_moves a (lw_library (snd m)) \<Longrightarrow> (\<And>x w. lw_library (snd (f x w)) = lw_library w) \<Longrightarrow>
   lib_moves a (lw_library (snd (and_then m f)))"
  by (erule (1) world_and_then) simp

text \<open>Steps that leave documents and statuses alone.\<close>

lemma quiet_moves: "lb_docs lib' = lb_docs lib \<Longrightarrow> lb_status lib' = lb_status lib \<Longrightarrow> lib_moves lib lib'"
  by (blast intro: lib_move.quiet)

lemma note_ledger_library [simp]: "lw_library (note_ledger a b k w) = lw_library w"
  by (simp add: note_ledger_def)

lemma refresh_ablation_library [simp]: "lw_library (snd (refresh_ablation tc w)) = lw_library w"
  by (simp add: refresh_ablation_def split: prod.splits sum.splits)

lemma on_library_world: "lw_library (snd (on_library f w)) = snd (f (lw_library w))" "lw_evals (snd (on_library f w)) = lw_evals w"
  by (simp_all add: on_library_def split: prod.splits sum.splits)

lemma write_stats_moves: "lib_moves lib (snd (write_stats s lib))"
  by (rule quiet_moves) (use write_stats_sel[of s lib] in \<open>metis prod.collapse\<close>)+

lemma write_status_moves:
  assumes "\<not> ss_active s \<or> ss_lifecycle s = LcApproved"
    and "lifecycle_arc (map_option ss_lifecycle (lb_status lib (status_key s))) (ss_lifecycle s) \<or> ss_lifecycle s = LcApproved"
  shows "lib_moves lib (snd (write_status e s lib))"
proof -
  obtain r lib' where w: "write_status e s lib = (r, lib')" by fastforce
  note sel = write_status_sel[OF w]
  show ?thesis
  proof (cases "is_ok r")
    case True
    then have ok: "get_version lib (status_key s) \<noteq> None"
      "ss_lifecycle s = LcApproved \<longrightarrow> map_option ss_lifecycle (get_status lib (status_key s)) = Some LcApproved"
      using write_status_ok_iff[of e s lib] w by simp_all
    have arc: "lifecycle_arc (map_option ss_lifecycle (lb_status lib (status_key s))) (ss_lifecycle s)"
      using assms(2) ok(2) by (auto simp: lifecycle_arc_def get_status_def)
    have "lib_move lib lib'"
      by (rule lib_move.change[where s = s]) (use sel(1,6) True ok(1) arc assms(1) in auto)
    then show ?thesis using w by simp
  next
    case False
    then show ?thesis using sel(1,6) w by (intro quiet_moves) simp_all
  qed
qed

text \<open>Writes of a status that was read from the library, inactive and under another lifecycle.\<close>

lemma to_needs_recert_moves: "lib_moves lib (snd (write_status e (set_lifecycle LcNeedsRecert s) lib))"
  by (rule write_status_moves) (simp_all add: lifecycle_arc_def)

lemma own_status_moves:
  assumes "lib_ok lib" "get_status lib k = Some s0" "ss_skill_id s = ss_skill_id s0" "ss_version s = ss_version s0"
    "\<not> ss_active s" "lifecycle_arc (Some (ss_lifecycle s0)) (ss_lifecycle s)"
  shows "lib_moves lib (snd (write_status e s lib))"
proof (rule write_status_moves)
  have s0: "lb_status lib k = Some s0" using assms(2) by (simp add: get_status_def)
  have "status_key s = k" using lib_okD(1)[OF assms(1) s0] assms(3,4) by simp
  with s0 show "lifecycle_arc (map_option ss_lifecycle (lb_status lib (status_key s))) (ss_lifecycle s) \<or> ss_lifecycle s = LcApproved"
    using assms(6) by simp
qed (use assms(5) in simp)

lemma on_library_moves:
  "lib_moves (lw_library w) (snd (f (lw_library w))) \<Longrightarrow> lib_moves (lw_library w) (lw_library (snd (on_library f w)))"
  by (simp add: on_library_world)

lemma needs_recert_world: "lib_moves (lw_library w) (lw_library (snd (on_library (write_status e (set_lifecycle LcNeedsRecert s)) w)))"
  by (rule on_library_moves) (rule to_needs_recert_moves)

lemma own_status_world:
  assumes "lib_ok (lw_library w)" "get_status (lw_library w) k = Some s0" "ss_skill_id s = ss_skill_id s0" "ss_version s = ss_version s0"
    "\<not> ss_active s" "lifecycle_arc (Some (ss_lifecycle s0)) (ss_lifecycle s)"
  shows "lib_moves (lw_library w) (lw_library (snd (on_library (write_status e s) w)))"
  by (rule on_library_moves) (rule own_status_moves[OF assms])

lemma enter_shadow_moves:
  assumes "lib_ok (lw_library w)"
  shows "lib_moves (lw_library w) (lw_library (snd (enter_shadow k w)))"
proof (cases "get_status (lw_library w) k")
  case (Some s)
  show ?thesis
  proof (cases "ss_lifecycle s \<in> set SHADOWABLE")
    case True
    then show ?thesis unfolding enter_shadow_def Some option.case
      by (simp add: own_status_world[OF assms Some] lifecycle_arc_def)
  qed (simp add: enter_shadow_def Some)
qed (simp add: enter_shadow_def)

lemma quarantine_on_failures_moves:
  assumes "lib_ok (lw_library w)"
  shows "lib_moves (lw_library w) (lw_library (snd (quarantine_on_failures cfg n k w)))"
proof (cases "get_status (lw_library w) k")
  case (Some s)
  have "lib_moves (lw_library w) (lw_library (snd (on_library (write_status (Some (ss_lifecycle s)) (set_lifecycle LcQuarantined s)) w)))"
    by (rule own_status_world[OF assms Some]) (simp_all add: lifecycle_arc_def)
  then show ?thesis
    unfolding quarantine_on_failures_def Some option.case by (auto intro: world_last[OF assms])
qed (simp add: quarantine_on_failures_def)

lemma recertify_field_failures_moves:
  assumes "lib_ok (lw_library w)"
  shows "lib_moves (lw_library w) (lw_library (snd (recertify_field_failures cfg w)))"
  unfolding recertify_field_failures_def Let_def
proof (rule world_for_each[OF assms], clarify)
  fix d s st and w1 :: lifecycle_world
  assume ok: "lib_ok (lw_library w1)"
  show "lib_moves (lw_library w1) (lw_library (snd
      (if ss_lifecycle s \<notin> {LcApproved, LcShadow, LcNeedsRecert} \<or>
          (case field_failure_streaks (lw_evals w) (doc_key d) of None \<Rightarrow> 0 | Some n \<Rightarrow> n) < au_quarantine_consecutive_failures cfg
       then (Inr [], w1)
       else and_then (quarantine_on_failures cfg (case field_failure_streaks (lw_evals w) (doc_key d) of None \<Rightarrow> 0 | Some n \<Rightarrow> n) (doc_key d) w1)
         (\<lambda>s w2. (Inr (if ss_lifecycle s = LcQuarantined
             then [(doc_key d, case field_failure_streaks (lw_evals w) (doc_key d) of None \<Rightarrow> 0 | Some n \<Rightarrow> n)] else []), w2)))))"
    by (auto intro: world_last[OF ok quarantine_on_failures_moves[OF ok]])
qed

lemma needs_recert_rows:
  assumes "lib_ok (lw_library w)" "\<And>d w. mark d w = w \<or> mark d w = note_ledger a b (doc_key d) w"
  shows "lib_moves (lw_library w) (lw_library (snd (for_each (\<lambda>(d, s, st) w1.
           if P d s then and_then (on_library (write_status (e s) (set_lifecycle LcNeedsRecert s)) w1) (\<lambda>_ w2. (Inr (f d s), mark d w2))
           else (Inr [], w1)) rows w)))"
proof (rule world_for_each[OF assms(1)], clarify)
  fix d s st and w1 :: lifecycle_world
  assume ok: "lib_ok (lw_library w1)"
  have "lw_library (mark d w2) = lw_library w2" for w2 using assms(2)[of d w2] by auto
  then show "lib_moves (lw_library w1) (lw_library (snd
      (if P d s then and_then (on_library (write_status (e s) (set_lifecycle LcNeedsRecert s)) w1) (\<lambda>_ w2. (Inr (f d s), mark d w2))
       else (Inr [], w1))))" by (auto intro: world_last[OF ok needs_recert_world])
qed

lemma quarantine_child_moves:
  assumes "lib_ok (lw_library w)"
  shows "lib_moves (lw_library w) (lw_library (snd (quarantine_child_blocks_parents k w)))"
proof (cases "get_status (lw_library w) k")
  case (Some s)
  have "lib_moves (lw_library w) (lw_library (snd (on_library (write_status None (set_lifecycle LcQuarantined s)) w)))"
    by (rule own_status_world[OF assms Some]) (simp_all add: lifecycle_arc_def)
  then show ?thesis unfolding quarantine_child_blocks_parents_def Some option.case
  proof (rule world_and_then[OF assms])
    fix w1 :: lifecycle_world assume ok: "lib_ok (lw_library w1)"
    show "lib_moves (lw_library w1) (lw_library (snd (for_each (\<lambda>(d, s, stats) w2.
        if pins k d then and_then (on_library (write_status None (set_lifecycle LcNeedsRecert s)) w2) (\<lambda>_ w3. (Inr [set_lifecycle LcNeedsRecert s], w3))
        else (Inr [], w2)) (iter_loaded (lw_library w1)) w1)))"
      using needs_recert_rows[OF ok, where mark = "\<lambda>d w. w" and e = "\<lambda>s. None" and P = "\<lambda>d s. pins k d"
          and f = "\<lambda>d s. [set_lifecycle LcNeedsRecert s]"] by simp
  qed
qed (simp add: quarantine_child_blocks_parents_def)

lemma mark_parents_moves:
  assumes "lib_ok (lw_library w)"
  shows "lib_moves (lw_library w) (lw_library (snd (mark_parents_needs_recert k w)))"
  using needs_recert_rows[OF assms, where mark = "\<lambda>d. note_ledger ''m5-retirement'' ''policy_change'' (doc_key d)" and a = "''m5-retirement''"
      and b = "''policy_change''" and e = "\<lambda>s. Some (ss_lifecycle s)" and P = "\<lambda>d s. pins k d \<and> ss_lifecycle s \<in> {LcApproved, LcShadow}"
      and f = "\<lambda>d s. []"]
  by (simp add: mark_parents_needs_recert_def)

lemma restore_benched_moves:
  assumes "lib_ok (lw_library w)"
  shows "lib_moves (lw_library w) (lw_library (snd (restore_benched now k w)))"
proof (cases "get_status (lw_library w) k")
  case (Some s)
  show ?thesis
  proof (cases "ss_lifecycle s = LcBenched")
    case True
    have "lib_moves (lw_library w) (lw_library (snd (on_library (write_status (Some LcBenched) (restored_status now s)) w)))"
      by (rule own_status_world[OF assms Some]) (simp_all add: lifecycle_arc_def restored_status_def True)
    then show ?thesis unfolding restore_benched_def Some option.case by (auto intro: world_last[OF assms])
  qed (simp add: restore_benched_def Some)
qed (simp add: restore_benched_def)

lemma recertify_stale_moves:
  assumes "lib_ok (lw_library w)"
  shows "lib_moves (lw_library w) (lw_library (snd (recertify_stale tu w)))"
  using needs_recert_rows[OF assms, where mark = "\<lambda>x w. w" and e = "\<lambda>s. None"
      and P = "\<lambda>d s. tu \<notin> {None, Some []} \<or> ce_recert_status (ss_certification s) = Stale" and f = "\<lambda>d s. [doc_key d]"]
  by (simp add: recertify_stale_def)

lemma on_stats_moves: "lib_moves (lw_library w) (lw_library (snd (on_library (write_stats st) w)))"
  by (rule on_library_moves) (rule write_stats_moves)

lemma refresh_ablation_moves: "lib_moves (lw_library w) (lw_library (snd (refresh_ablation tc w)))"
  by simp

lemma refuse_library: "lw_library (snd (refuse_if_inapplicable env d w)) = lw_library w"
  by (simp add: refuse_if_inapplicable_def)

text \<open>The tail that advance and bench share: a status write, the ablation refresh and a statistics write.\<close>

lemma status_and_stats_moves:
  assumes "lib_ok (lw_library w)" "lib_moves (lw_library w) (lw_library (snd (on_library (write_status e s) w)))"
    and "\<And>w3. lib_ok (lw_library w3) \<Longrightarrow> lib_moves (lw_library w3) (lw_library (snd (rest w3)))"
  shows "lib_moves (lw_library w) (lw_library (snd (and_then (on_library (write_status e s) w) (\<lambda>_ w1.
     and_then (refresh_ablation tc w1) (\<lambda>_ w2. and_then (on_library (write_stats st) w2) (\<lambda>_ w3. rest w3))))))"
  using assms(2)
proof (rule world_and_then[OF assms(1)])
  fix w1 :: lifecycle_world assume ok1: "lib_ok (lw_library w1)"
  show "lib_moves (lw_library w1) (lw_library (snd (and_then (refresh_ablation tc w1) (\<lambda>_ w2. and_then (on_library (write_stats st) w2) (\<lambda>_ w3. rest w3)))))"
    using refresh_ablation_moves
  proof (rule world_and_then[OF ok1])
    fix w2 :: lifecycle_world assume ok2: "lib_ok (lw_library w2)"
    show "lib_moves (lw_library w2) (lw_library (snd (and_then (on_library (write_stats st) w2) (\<lambda>_ w3. rest w3))))"
      using on_stats_moves by (rule world_and_then[OF ok2]) (rule assms(3))
  qed
qed

lemma maybe_advance_moves:
  assumes "lib_ok (lw_library w)"
  shows "lib_moves (lw_library w) (lw_library (snd (maybe_advance_shadow_to_candidate env cfg k w)))"
proof (cases "get_status (lw_library w) k")
  case (Some s)
  show ?thesis
  proof (cases "ss_lifecycle s = LcShadow \<and> get_version (lw_library w) k \<noteq> None")
    case True
    then obtain d where d: "get_version (lw_library w) k = Some d" and sh: "ss_lifecycle s = LcShadow" by blast
    obtain b w0 where g: "refuse_if_inapplicable env d w = (b, w0)" by fastforce
    then have lib: "lw_library w0 = lw_library w" using refuse_library[of env d w] by simp
    have "lib_moves (lw_library w) (lw_library (snd (on_library (write_status (Some LcShadow) (set_lifecycle LcCandidate s)) w0)))"
      unfolding lib[symmetric]
      by (rule own_status_world[of _ k s]) (use assms Some lib sh in \<open>simp_all add: lifecycle_arc_def\<close>)
    then have "lib_moves (lw_library w0) (lw_library (snd (and_then (on_library (write_status (Some LcShadow) (set_lifecycle LcCandidate s)) w0) (\<lambda>_ w1.
       and_then (refresh_ablation (sd_task_class d) w1) (\<lambda>_ w2. and_then (on_library (write_stats st) w2) (\<lambda>_ w3.
         (Inr (set_lifecycle LcCandidate s), note_ledger ''m5-shadow-autonomy'' ''advance_to_candidate'' k w3)))))))" for st
      by (intro status_and_stats_moves) (use assms lib in simp_all)
    then show ?thesis
      unfolding maybe_advance_shadow_to_candidate_def Some d option.case prod.case Let_def g lib
      by (simp add: sh split: prod.splits sum.splits option.splits bool.splits) (simp add: lib)
  qed (auto simp: maybe_advance_shadow_to_candidate_def Some split: option.splits)
qed (simp add: maybe_advance_shadow_to_candidate_def)

lemma maybe_bench_moves:
  assumes "lib_ok (lw_library w)"
  shows "lib_moves (lw_library w) (lw_library (snd (maybe_bench_on_contribution now cfg k w)))"
proof (cases "get_status (lw_library w) k")
  case (Some s)
  show ?thesis
  proof (cases "get_version (lw_library w) k")
    case d: (Some d)
    have "lib_moves (lw_library w) (lw_library (snd (on_library (write_status (Some (ss_lifecycle s)) (benched_status now s)) w)))"
      by (rule own_status_world[OF assms Some]) (simp_all add: lifecycle_arc_def benched_status_def)
    then have "lib_moves (lw_library w) (lw_library (snd (and_then (on_library (write_status (Some (ss_lifecycle s)) (benched_status now s)) w) (\<lambda>_ w1.
       and_then (refresh_ablation (sd_task_class d) w1) (\<lambda>_ w2. and_then (on_library (write_stats st) w2) (\<lambda>_ w3.
         and_then (mark_parents_needs_recert k (note_ledger ''m5-retirement'' ''deprecate'' k w3)) (\<lambda>_ w4. (Inr (benched_status now s), w4))))))))" for st
    proof (rule status_and_stats_moves[OF assms])
      fix w3 :: lifecycle_world assume "lib_ok (lw_library w3)"
      then show "lib_moves (lw_library w3) (lw_library (snd (and_then (mark_parents_needs_recert k (note_ledger ''m5-retirement'' ''deprecate'' k w3))
          (\<lambda>_ w4. (Inr (benched_status now s), w4)))))"
        using mark_parents_moves[of "note_ledger ''m5-retirement'' ''deprecate'' k w3" k] by (intro world_last) simp_all
    qed
    then show ?thesis unfolding maybe_bench_on_contribution_def Some d option.case prod.case
      by (simp split: prod.splits sum.splits retirement_action.splits)
  qed (simp add: maybe_bench_on_contribution_def Some)
qed (simp add: maybe_bench_on_contribution_def)

text \<open>The revoke drain.\<close>

lemma mark_needs_recert_moves: "lib_moves lib (snd (mark_needs_recert k lib))"
proof (cases "get_status lib k")
  case (Some s)
  then show ?thesis using to_needs_recert_moves[of lib None s]
    by (auto simp: mark_needs_recert_def and_then_def split: prod.splits sum.splits)
qed (simp add: mark_needs_recert_def)

lemma drain_mark_moves: "lib_moves (dr_library s) (dr_library (snd (drain_mark k s)))"
  using mark_needs_recert_moves[of "dr_library s" k] by (auto simp: drain_mark_def split: prod.splits sum.splits)

lemma drain_parent_moves: "lib_moves (dr_library s) (dr_library (snd (drain_parent k s)))"
  using drain_mark_moves[of s k] by (simp add: drain_parent_def)

lemmas drain_and_then = moves_and_then[where \<pi> = dr_library]
lemmas drain_for_each = moves_for_each[where \<pi> = dr_library]

lemma drain_targets_moves: "lib_ok (dr_library s) \<Longrightarrow> lib_moves (dr_library s) (dr_library (snd (drain_targets parents item ks s)))"
proof (induction ks arbitrary: s)
  case (Cons k ks)
  have "lib_moves (dr_library s) (dr_library (snd (and_then (drain_mark k s) (\<lambda>m1 s1.
        and_then (for_each drain_parent (parents k) s1) (\<lambda>m2 s2.
        and_then (drain_targets parents item ks s2) (\<lambda>m3 s3. (Inr (m1 @ m2 @ m3), s3)))))))"
    using drain_mark_moves
  proof (rule drain_and_then[OF Cons.prems])
    fix m1 and s1 :: drain_state assume ok1: "lib_ok (dr_library s1)"
    have "lib_moves (dr_library s1) (dr_library (snd (for_each drain_parent (parents k) s1)))"
      by (rule drain_for_each[OF ok1]) (rule drain_parent_moves)
    then show "lib_moves (dr_library s1) (dr_library (snd (and_then (for_each drain_parent (parents k) s1) (\<lambda>m2 s2.
        and_then (drain_targets parents item ks s2) (\<lambda>m3 s3. (Inr (m1 @ m2 @ m3), s3))))))"
    proof (rule drain_and_then[OF ok1])
      fix m2 and s2 :: drain_state assume ok2: "lib_ok (dr_library s2)"
      show "lib_moves (dr_library s2) (dr_library (snd (and_then (drain_targets parents item ks s2) (\<lambda>m3 s3. (Inr (m1 @ m2 @ m3), s3)))))"
        using Cons.IH[OF ok2] by (rule drain_and_then[OF ok2]) simp
    qed
  qed
  then show ?case by simp
qed simp

lemma drain_revokes_moves:
  assumes "lib_ok lib"
  shows "lib_moves lib (snd (drain_revokes n lib))"
proof -
  obtain items lib1 where t: "take_revokes n lib = (items, lib1)" by fastforce
  then have q: "lb_docs lib1 = lb_docs lib" "lb_status lib1 = lb_status lib" by (auto simp: take_revokes_def split: if_splits)
  then have ok: "lib_ok lib1" using lib_moves_ok[OF quiet_moves assms] by blast
  let ?s = "\<lparr>dr_remaining = n, dr_leftover = [], dr_library = lib1\<rparr>"
  let ?m = "for_each (drain_item (parents_of lib1)) items ?s"
  have "lib_moves (dr_library ?s) (dr_library (snd ?m))"
    by (rule drain_for_each) (simp add: ok, simp add: drain_item_def drain_targets_moves)
  then have m: "lib_moves lib (dr_library (snd ?m))" using quiet_moves[OF q] by simp
  obtain r s where rs: "?m = (r, s)" by fastforce
  have "lib_moves (dr_library s) (snd (drain_revokes n lib))"
    by (rule quiet_moves) (simp_all add: drain_revokes_def t rs split: sum.splits)
  with m rs show ?thesis by simp
qed

lemma recertify_with_revokes_moves:
  assumes "lib_ok (lw_library w)"
  shows "lib_moves (lw_library w) (lw_library (snd (recertify_with_revokes cfg n tu w)))"
  unfolding recertify_with_revokes_def using recertify_stale_moves[OF assms]
proof (rule world_and_then[OF assms])
  fix stale and w1 :: lifecycle_world assume ok1: "lib_ok (lw_library w1)"
  show "lib_moves (lw_library w1) (lw_library (snd (and_then (recertify_field_failures cfg w1) (\<lambda>off w2.
       case drain_revokes n (lw_library w2) of
         (Inl e, lib) \<Rightarrow> (Inl (StoreFailed e), w2\<lparr>lw_library := lib\<rparr>)
       | (Inr touched, lib) \<Rightarrow> (Inr (stale @ map fst off @ touched), w2\<lparr>lw_library := lib\<rparr>)))))"
    using recertify_field_failures_moves[OF ok1]
  proof (rule world_and_then[OF ok1])
    fix off and w2 :: lifecycle_world assume ok2: "lib_ok (lw_library w2)"
    show "lib_moves (lw_library w2) (lw_library (snd (case drain_revokes n (lw_library w2) of
         (Inl e, lib) \<Rightarrow> (Inl (StoreFailed e), w2\<lparr>lw_library := lib\<rparr>)
       | (Inr touched, lib) \<Rightarrow> (Inr (stale @ map fst off @ touched), w2\<lparr>lw_library := lib\<rparr>))))"
      using drain_revokes_moves[OF ok2, of n] by (auto split: prod.splits sum.splits)
  qed
qed

text \<open>Authoring.\<close>

lemma write_version_moves: "lib_moves lib (snd (write_version sha d lib))"
proof -
  obtain r lib' where w: "write_version sha d lib = (r, lib')" by fastforce
  note sel = write_version_sel[OF w]
  show ?thesis
  proof (cases "get_version lib (doc_key d) = None")
    case True
    then have "lib_move lib lib'" using sel(1,6) by (intro lib_move.publish[of _ "stamp_lint_hash sha d"]) simp_all
    then show ?thesis using w by simp
  next
    case False
    then show ?thesis using sel(1,6) w by (intro quiet_moves) simp_all
  qed
qed

lemma write_candidate_moves: "lib_moves lib (snd (write_candidate sha d lib))"
proof -
  let ?d = "stamp_lint_hash sha d"
  define lib1 where "lib1 = (if get_version lib (doc_key ?d) = None then snd (write_version sha ?d lib) else lib)"
  let ?s = "new_status (sd_skill_id d) (sd_version d) LcCandidate"
  have m1: "lib_moves lib lib1" using write_version_moves by (simp add: lib1_def)
  show ?thesis
  proof (cases "case get_status lib1 (doc_key ?d) of None \<Rightarrow> False | Some s \<Rightarrow> ss_lifecycle s \<in> PROTECTED_FROM_CANDIDATE_DEMOTE")
    case True
    then have "write_candidate sha d lib = (Inl ApprovedLifecycle, lib1)" unfolding write_candidate_def Let_def lib1_def[symmetric] by simp
    then show ?thesis using m1 by simp
  next
    case False
    obtain r2 lib2 where w2: "write_status None ?s lib1 = (r2, lib2)" by fastforce
    obtain r3 lib3 where w3: "write_stats (default_stats (sd_skill_id d) (sd_version d)) lib2 = (r3, lib3)" by fastforce
    have "lifecycle_arc (map_option ss_lifecycle (lb_status lib1 (doc_key d))) LcCandidate"
    proof (cases "lb_status lib1 (doc_key d)")
      case (Some x)
      then have "ss_lifecycle x \<notin> PROTECTED_FROM_CANDIDATE_DEMOTE" using False by (simp add: get_status_def)
      then show ?thesis using Some by (cases "ss_lifecycle x") (simp_all add: lifecycle_arc_def PROTECTED_FROM_CANDIDATE_DEMOTE_def)
    qed (simp add: lifecycle_arc_def)
    then have m2: "lib_moves lib1 lib2" using write_status_moves[of ?s lib1 None] w2 by (simp add: new_status_def)
    have m3: "lib_moves lib2 lib3" using write_stats_moves[of lib2 "default_stats (sd_skill_id d) (sd_version d)"] w3 by simp
    have "snd (write_candidate sha d lib) = lib2 \<or> snd (write_candidate sha d lib) = lib3"
      using False w2 w3 unfolding write_candidate_def Let_def lib1_def[symmetric] by (cases r2; cases r3) simp_all
    then show ?thesis using m1 m2 m3 by (metis rtranclp_trans)
  qed
qed

subsection \<open>What a recertification pass marks\<close>

definition due :: "string option \<Rightarrow> library \<Rightarrow> vkey \<Rightarrow> bool" where
  "due tu lib k \<longleftrightarrow> tu \<notin> {None, Some []} \<or> ce_recert_status (ss_certification (loaded_status lib k)) = Stale"

lemma write_needs_recert:
  assumes "get_version lib (status_key s) \<noteq> None"
  shows "write_status None (set_lifecycle LcNeedsRecert s) lib = (Inr (), lib\<lparr>lb_status := (lb_status lib)(status_key s \<mapsto> set_lifecycle LcNeedsRecert s)\<rparr>)"
  using assms by (auto simp: write_status_def write_status_unchecked_def maybe_enqueue_revoke_def Let_def)

lemma loaded_key: "lib_ok lib \<Longrightarrow> status_key (loaded_status lib k) = k"
  by (auto simp: loaded_status_def new_status_def dest: lib_okD(1) split: option.split)

lemma recertify_keys:
  assumes "lib_ok lib0" "distinct ks" "\<And>k. k \<in> set ks \<Longrightarrow> get_version lib0 k \<noteq> None" "lb_docs (lw_library w) = lb_docs lib0"
  shows "\<exists>w'. for_each (\<lambda>(d, status, stats) w1.
           if tu \<notin> {None, Some []} \<or> ce_recert_status (ss_certification status) = Stale
           then and_then (on_library (write_status None (set_lifecycle LcNeedsRecert status)) w1) (\<lambda>_ w2. (Inr [doc_key d], w2))
           else (Inr [], w1)) (map (\<lambda>k. (the (get_version lib0 k), loaded_status lib0 k, st k)) ks) w = (Inr (filter (due tu lib0) ks), w') \<and>
         lb_status (lw_library w') =
           (\<lambda>k. if k \<in> set ks \<and> due tu lib0 k then Some (set_lifecycle LcNeedsRecert (loaded_status lib0 k)) else lb_status (lw_library w) k)"
  using assms(2-4)
proof (induction ks arbitrary: w)
  case (Cons k ks)
  obtain d where d: "get_version lib0 k = Some d" using Cons.prems(2)[of k] by auto
  have key: "doc_key d = k" "status_key (loaded_status lib0 k) = k" using get_version_key[OF d] loaded_key[OF assms(1)] by blast+
  have here: "get_version (lw_library w) k \<noteq> None" using d get_version_cong[OF Cons.prems(3)] by simp
  show ?case
  proof (cases "due tu lib0 k")
    case True
    let ?w1 = "w\<lparr>lw_library := (lw_library w)\<lparr>lb_status := (lb_status (lw_library w))(k \<mapsto> set_lifecycle LcNeedsRecert (loaded_status lib0 k))\<rparr>\<rparr>"
    have "on_library (write_status None (set_lifecycle LcNeedsRecert (loaded_status lib0 k))) w = (Inr (), ?w1)"
      using write_needs_recert[of "lw_library w" "loaded_status lib0 k"] here key(2) by (simp add: on_library_def)
    moreover have "distinct ks" "\<And>j. j \<in> set ks \<Longrightarrow> get_version lib0 j \<noteq> None" "lb_docs (lw_library ?w1) = lb_docs lib0"
      using Cons.prems by auto
    ultimately show ?thesis using Cons.IH[of ?w1] True key(1) d Cons.prems(1)
      by (auto simp: due_def and_then_def fun_eq_iff)
  next
    case False
    moreover have "distinct ks" "\<And>j. j \<in> set ks \<Longrightarrow> get_version lib0 j \<noteq> None" using Cons.prems by auto
    ultimately show ?thesis using Cons.IH[of w] Cons.prems(3)
      by (auto simp: due_def and_then_def fun_eq_iff)
  qed
qed simp

lemma list_versions_keys: "set (list_versions lib) = doc_key ` set (lb_docs lib)" "distinct (map doc_key (lb_docs lib)) \<Longrightarrow> distinct (list_versions lib)"
  by (simp_all add: list_versions_def)

subsection \<open>What a revoke drain reaches\<close>

definition settled :: "library \<Rightarrow> vkey \<Rightarrow> bool" where
  "settled lib k \<longleftrightarrow> (case lb_status lib k of None \<Rightarrow> True | Some s \<Rightarrow> ss_lifecycle s \<in> {LcQuarantined, LcDeprecated, LcNeedsRecert})"

definition drain_rel :: "drain_state \<Rightarrow> vkey list \<Rightarrow> drain_state \<Rightarrow> bool" where
  "drain_rel s m s' \<longleftrightarrow> lib_ok (dr_library s') \<and> dr_remaining s' = dr_remaining s - int (length m) \<and>
     lb_wal (dr_library s') = lb_wal (dr_library s) \<and> lb_revokes (dr_library s') = lb_revokes (dr_library s) \<and>
     Collect (settled (dr_library s)) \<subseteq> Collect (settled (dr_library s')) \<and> (0 \<le> dr_remaining s \<longrightarrow> 0 \<le> dr_remaining s')"

lemma drain_rel_settled: "drain_rel s m s' \<Longrightarrow> settled (dr_library s) j \<Longrightarrow> settled (dr_library s') j"
  unfolding drain_rel_def by blast

lemma drain_rel_left: "drain_rel s m s' \<Longrightarrow> 0 < dr_remaining s' \<Longrightarrow> 0 < dr_remaining s"
  unfolding drain_rel_def by linarith

lemma drain_rel_refl: "lib_ok (dr_library s) \<Longrightarrow> drain_rel s [] s"
  by (simp add: drain_rel_def)

lemma drain_rel_trans: "drain_rel s m s1 \<Longrightarrow> drain_rel s1 m' s2 \<Longrightarrow> drain_rel s (m @ m') s2"
  unfolding drain_rel_def by (intro conjI; (elim conjE)?) (blast | simp)+

lemma mark_needs_recert_result:
  assumes "lib_ok lib"
  obtains "settled lib k" "mark_needs_recert k lib = (Inr False, lib)"
  | s where "\<not> settled lib k" "lb_status lib k = Some s"
      "mark_needs_recert k lib = (Inr True, lib\<lparr>lb_status := (lb_status lib)(k \<mapsto> set_lifecycle LcNeedsRecert s)\<rparr>)"
proof (cases "settled lib k")
  case True
  then have "mark_needs_recert k lib = (Inr False, lib)" by (auto simp: settled_def mark_needs_recert_def get_status_def split: option.splits)
  then show ?thesis using True that(1) by blast
next
  case False
  then obtain s where s: "lb_status lib k = Some s" by (auto simp: settled_def split: option.splits)
  have w: "write_status None (set_lifecycle LcNeedsRecert s) lib = (Inr (), lib\<lparr>lb_status := (lb_status lib)(k \<mapsto> set_lifecycle LcNeedsRecert s)\<rparr>)"
    using write_needs_recert[of lib s] lib_okD(1,2)[OF assms s] by simp
  have "mark_needs_recert k lib = (Inr True, lib\<lparr>lb_status := (lb_status lib)(k \<mapsto> set_lifecycle LcNeedsRecert s)\<rparr>)"
    using False s w by (simp add: mark_needs_recert_def get_status_def settled_def and_then_def)
  then show ?thesis using False s that(2) by blast
qed

lemma drain_mark_rel:
  assumes "lib_ok (dr_library s)" "0 < dr_remaining s"
  shows "\<exists>m s'. drain_mark k s = (Inr m, s') \<and> drain_rel s m s' \<and> settled (dr_library s') k \<and> dr_leftover s' = dr_leftover s"
proof (cases rule: mark_needs_recert_result[OF assms(1), of k])
  case 1
  then show ?thesis using drain_rel_refl[OF assms(1)] by (intro exI[of _ "[]"] exI[of _ s]) (simp add: drain_mark_def)
next
  case (2 x)
  let ?lib = "(dr_library s)\<lparr>lb_status := (lb_status (dr_library s))(k \<mapsto> set_lifecycle LcNeedsRecert x)\<rparr>"
  let ?s = "s\<lparr>dr_library := ?lib, dr_remaining := dr_remaining s - 1\<rparr>"
  have d: "drain_mark k s = (Inr [k], ?s)" using 2(3) by (simp add: drain_mark_def)
  have "lib_ok ?lib" using lib_moves_ok[OF drain_mark_moves assms(1), of k] d by simp
  moreover have "settled ?lib j" if "settled (dr_library s) j \<or> j = k" for j
    using that by (cases "j = k") (simp_all add: settled_def)
  then have "Collect (settled (dr_library s)) \<subseteq> Collect (settled ?lib)" "settled ?lib k" by blast+
  ultimately have "drain_rel s [k] ?s \<and> settled (dr_library ?s) k" using assms(2) by (simp add: drain_rel_def)
  with d show ?thesis by (intro exI[of _ "[k]"] exI[of _ ?s]) simp
qed

lemma drain_parents_rel:
  "lib_ok (dr_library s) \<Longrightarrow> \<exists>m s'. for_each drain_parent ps s = (Inr m, s') \<and> drain_rel s m s' \<and> dr_leftover s' = dr_leftover s \<and>
     (0 < dr_remaining s' \<longrightarrow> (\<forall>p \<in> set ps. settled (dr_library s') p))"
proof (induction ps arbitrary: s)
  case Nil
  then show ?case using drain_rel_refl by simp
next
  case (Cons p ps)
  have "\<exists>m s'. drain_parent p s = (Inr m, s') \<and> drain_rel s m s' \<and> dr_leftover s' = dr_leftover s \<and> (0 < dr_remaining s' \<longrightarrow> settled (dr_library s') p)"
  proof (cases "0 < dr_remaining s")
    case True
    then show ?thesis using drain_mark_rel[OF Cons.prems True, of p] by (auto simp: drain_parent_def)
  next
    case False
    then show ?thesis using drain_rel_refl[OF Cons.prems] by (intro exI[of _ "[]"] exI[of _ s]) (simp add: drain_parent_def)
  qed
  then obtain m1 s1 where 1: "drain_parent p s = (Inr m1, s1)" "drain_rel s m1 s1" "dr_leftover s1 = dr_leftover s"
    "0 < dr_remaining s1 \<longrightarrow> settled (dr_library s1) p" by blast
  have "lib_ok (dr_library s1)" using 1(2) by (simp add: drain_rel_def)
  from Cons.IH[OF this] obtain m2 s2 where 2: "for_each drain_parent ps s1 = (Inr m2, s2)" "drain_rel s1 m2 s2"
    "dr_leftover s2 = dr_leftover s1" "0 < dr_remaining s2 \<longrightarrow> (\<forall>p \<in> set ps. settled (dr_library s2) p)" by blast
  have "settled (dr_library s2) p" if "0 < dr_remaining s2" using that 1(4) drain_rel_left[OF 2(2)] drain_rel_settled[OF 2(2)] by blast
  then show ?case using 1 2 drain_rel_trans[OF 1(2) 2(2)]
    by (intro exI[of _ "m1 @ m2"] exI[of _ s2]) (auto simp: and_then_def)
qed

definition target_done :: "(vkey \<Rightarrow> vkey list) \<Rightarrow> library \<Rightarrow> vkey \<Rightarrow> bool" where
  "target_done parents lib k \<longleftrightarrow> settled lib k \<and> (\<forall>p \<in> set (parents k). settled lib p)"

lemma target_done_mono: "drain_rel s m s' \<Longrightarrow> target_done parents (dr_library s) k \<Longrightarrow> target_done parents (dr_library s') k"
  unfolding target_done_def by (blast intro: drain_rel_settled)

lemma drain_targets_rel:
  "lib_ok (dr_library s) \<Longrightarrow> \<exists>m s'. drain_targets parents item ks s = (Inr m, s') \<and> drain_rel s m s' \<and>
     (0 < dr_remaining s' \<longrightarrow> dr_leftover s' = dr_leftover s \<and> (\<forall>k \<in> set ks. target_done parents (dr_library s') k))"
proof (induction ks arbitrary: s)
  case Nil
  then show ?case using drain_rel_refl by simp
next
  case (Cons k ks)
  show ?case
  proof (cases "0 < dr_remaining s")
    case True
    obtain m1 s1 where 1: "drain_mark k s = (Inr m1, s1)" "drain_rel s m1 s1" "settled (dr_library s1) k" "dr_leftover s1 = dr_leftover s"
      using drain_mark_rel[OF Cons.prems True, of k] by blast
    have "lib_ok (dr_library s1)" using 1(2) by (simp add: drain_rel_def)
    from drain_parents_rel[OF this] obtain m2 s2 where 2: "for_each drain_parent (parents k) s1 = (Inr m2, s2)" "drain_rel s1 m2 s2"
      "dr_leftover s2 = dr_leftover s1" "0 < dr_remaining s2 \<longrightarrow> (\<forall>p \<in> set (parents k). settled (dr_library s2) p)" by blast
    have "lib_ok (dr_library s2)" using 2(2) by (simp add: drain_rel_def)
    from Cons.IH[OF this] obtain m3 s3 where 3: "drain_targets parents item ks s2 = (Inr m3, s3)" "drain_rel s2 m3 s3"
      "0 < dr_remaining s3 \<longrightarrow> dr_leftover s3 = dr_leftover s2 \<and> (\<forall>k \<in> set ks. target_done parents (dr_library s3) k)" by blast
    have "target_done parents (dr_library s3) k" if r: "0 < dr_remaining s3"
    proof (rule target_done_mono[OF 3(2)])
      have "0 < dr_remaining s2" by (rule drain_rel_left[OF 3(2) r])
      then show "target_done parents (dr_library s2) k" unfolding target_done_def using 2(4) drain_rel_settled[OF 2(2) 1(3)] by blast
    qed
    then show ?thesis using 1 2 3 True drain_rel_trans[OF 1(2) drain_rel_trans[OF 2(2) 3(2)]]
      by (intro exI[of _ "m1 @ m2 @ m3"] exI[of _ s3]) (auto simp: and_then_def)
  next
    case False
    then show ?thesis using drain_rel_refl[OF Cons.prems]
      by (intro exI[of _ "[]"] exI[of _ "s\<lparr>dr_leftover := dr_leftover s @ [item]\<rparr>"]) (simp add: drain_rel_def)
  qed
qed

lemma drain_items_rel:
  "lib_ok (dr_library s) \<Longrightarrow> \<exists>m s'. for_each (drain_item parents) items s = (Inr m, s') \<and> drain_rel s m s' \<and>
     (0 < dr_remaining s' \<longrightarrow> dr_leftover s' = dr_leftover s \<and>
        (\<forall>item \<in> set items. \<forall>k \<in> set (lineage_lookup (dr_library s) item). target_done parents (dr_library s') k))"
proof (induction items arbitrary: s)
  case Nil
  then show ?case using drain_rel_refl by simp
next
  case (Cons item items)
  have "\<exists>m s'. drain_item parents item s = (Inr m, s') \<and> drain_rel s m s' \<and> (0 < dr_remaining s' \<longrightarrow> dr_leftover s' = dr_leftover s \<and>
      (\<forall>k \<in> set (lineage_lookup (dr_library s) item). target_done parents (dr_library s') k))"
  proof (cases "0 < dr_remaining s")
    case True
    then show ?thesis using drain_targets_rel[OF Cons.prems] by (simp add: drain_item_def)
  next
    case False
    then show ?thesis using drain_rel_refl[OF Cons.prems]
      by (intro exI[of _ "[]"] exI[of _ "s\<lparr>dr_leftover := dr_leftover s @ [item]\<rparr>"]) (simp add: drain_item_def drain_rel_def)
  qed
  then obtain m1 s1 where 1: "drain_item parents item s = (Inr m1, s1)" "drain_rel s m1 s1"
    "0 < dr_remaining s1 \<longrightarrow> dr_leftover s1 = dr_leftover s \<and> (\<forall>k \<in> set (lineage_lookup (dr_library s) item). target_done parents (dr_library s1) k)"
    by blast
  have "lib_ok (dr_library s1)" using 1(2) by (simp add: drain_rel_def)
  from Cons.IH[OF this] obtain m2 s2 where 2: "for_each (drain_item parents) items s1 = (Inr m2, s2)" "drain_rel s1 m2 s2"
    "0 < dr_remaining s2 \<longrightarrow> dr_leftover s2 = dr_leftover s1 \<and>
       (\<forall>item \<in> set items. \<forall>k \<in> set (lineage_lookup (dr_library s1) item). target_done parents (dr_library s2) k)" by blast
  have same: "lineage_lookup (dr_library s1) = lineage_lookup (dr_library s)" using 1(2) by (simp add: drain_rel_def lineage_lookup_def fun_eq_iff)
  have "0 < dr_remaining s1" if "0 < dr_remaining s2" by (rule drain_rel_left[OF 2(2) that])
  then show ?case using 1 2 same drain_rel_trans[OF 1(2) 2(2)] target_done_mono[OF 2(2)]
    by (intro exI[of _ "m1 @ m2"] exI[of _ s2]) (simp add: and_then_def)
qed

lemma parents_of_cong: "lb_docs lib = lb_docs lib' \<Longrightarrow> parents_of lib = parents_of lib'"
  by (rule ext) (simp add: parents_of_def iter_loaded_def comp_def list_versions_def get_version_cong[of lib lib'])

subsection \<open>Properties\<close>

text \<open>
  What a recertification pass changes: on a consistent library it always succeeds, lists exactly the stored versions
  whose certification is stale, or all of them after a tool upgrade, and moves exactly those to needs-recert,
  inactive, whatever their lifecycle was; a quarantined version loses its quarantine.\<close>

theorem recertify_stale_exact:
  assumes "lib_ok (lw_library w)"
  shows "\<exists>w'. recertify_stale tu w = (Inr (filter (due tu (lw_library w)) (list_versions (lw_library w))), w') \<and>
     lb_status (lw_library w') =
        (\<lambda>k. if get_version (lw_library w) k \<noteq> None \<and> due tu (lw_library w) k
              then Some (set_lifecycle LcNeedsRecert (loaded_status (lw_library w) k)) else lb_status (lw_library w) k)"
proof -
  have keys: "k \<in> set (list_versions (lw_library w)) \<longleftrightarrow> get_version (lw_library w) k \<noteq> None" for k
    unfolding get_version_None list_versions_keys(1) by (rule not_not[symmetric])
  have "distinct (list_versions (lw_library w))" using assms by (simp add: lib_ok_def list_versions_keys(2))
  from recertify_keys[OF assms this, of w tu "get_stats (lw_library w)"] keys show ?thesis
    by (simp add: recertify_stale_def iter_loaded_def)
qed

text \<open>
  The revoke drain respects its cap and, below it, misses nothing: on a consistent library it succeeds and marks at
  most the given number of versions; if it marks fewer, every version recorded under a drained source and every version
  that pins one is out of circulation (needs-recert, quarantined or deprecated), and the drained items are gone.\<close>

theorem drain_revokes_covers:
  assumes "lib_ok lib" "0 \<le> n"
  shows "\<exists>touched lib'. drain_revokes n lib = (Inr touched, lib') \<and> int (length touched) \<le> n \<and>
     (int (length touched) < n \<longrightarrow> lb_revokes lib' = drop (nat n) (lb_revokes lib) \<and>
        (\<forall>item \<in> set (take (nat n) (lb_revokes lib)). \<forall>k \<in> set (lineage_lookup lib item).
           settled lib' k \<and> (\<forall>p \<in> set (parents_of lib k). settled lib' p)))"
proof -
  define lib1 where "lib1 = lib\<lparr>lb_revokes := drop (nat n) (lb_revokes lib)\<rparr>"
  let ?items = "take (nat n) (lb_revokes lib)" and ?s = "\<lparr>dr_remaining = n, dr_leftover = [], dr_library = lib1\<rparr>"
  have t: "take_revokes n lib = (?items, lib1)" using assms(2) by (simp add: take_revokes_def lib1_def)
  have same: "parents_of lib1 = parents_of lib" "lineage_lookup lib1 = lineage_lookup lib"
    by (rule parents_of_cong, simp add: lib1_def) (rule ext, simp add: lib1_def lineage_lookup_def)
  have "lib_ok (dr_library ?s)" using assms(1) by (simp add: lib1_def lib_ok_def get_version_def)
  from drain_items_rel[OF this, of "parents_of lib1" ?items] obtain m s' where m:
    "for_each (drain_item (parents_of lib1)) ?items ?s = (Inr m, s')" "drain_rel ?s m s'"
    "0 < dr_remaining s' \<longrightarrow> dr_leftover s' = [] \<and> (\<forall>item \<in> set ?items. \<forall>k \<in> set (lineage_lookup lib1 item).
       target_done (parents_of lib1) (dr_library s') k)" by auto
  let ?lib' = "(dr_library s')\<lparr>lb_revokes := lb_revokes (dr_library s') @ dr_leftover s'\<rparr>"
  have d: "drain_revokes n lib = (Inr m, ?lib')" unfolding drain_revokes_def t prod.case m(1) by simp
  have rem: "dr_remaining s' = n - int (length m)" "0 \<le> dr_remaining s'" "lb_revokes (dr_library s') = drop (nat n) (lb_revokes lib)"
    using m(2) assms(2) by (simp_all add: drain_rel_def lib1_def)
  have lib': "settled ?lib' = settled (dr_library s')" by (rule ext) (simp add: settled_def)
  show ?thesis
  proof (intro exI[of _ m] exI[of _ ?lib'] conjI impI)
    assume less: "int (length m) < n"
    then show "lb_revokes ?lib' = drop (nat n) (lb_revokes lib)" using rem m(3) by simp
    show "\<forall>item \<in> set ?items. \<forall>k \<in> set (lineage_lookup lib item). settled ?lib' k \<and> (\<forall>p \<in> set (parents_of lib k). settled ?lib' p)"
      using m(3) less rem(1) unfolding lib' same target_done_def by simp
  qed (use d rem in simp_all)
qed

subsection \<open>Examples\<close>

text \<open>A parent that pins a child; both are approved and active, or the child is quarantined.\<close>

definition family :: "lifecycle \<Rightarrow> library" where
  "family lc = composed_library\<lparr>
     lb_status := [(''a'', 1) \<mapsto> (new_status ''a'' 1 LcApproved)\<lparr>ss_active := True\<rparr>,
                   (''b'', 1) \<mapsto> (new_status ''b'' 1 lc)\<lparr>ss_active := (lc = LcApproved)\<rparr>],
     lb_wal := [((SkSkill (''a'', 1), []), (''a'', 1)), ((SkSkill (''b'', 1), []), (''b'', 1))],
     lb_revokes := [(SkSkill (''b'', 1), [])]\<rparr>"

definition quiet_world :: "library \<Rightarrow> lifecycle_world" where
  "quiet_world lib = \<lparr>lw_library = lib, lw_evals = no_observations, lw_ledger = None\<rparr>"

lemma family_docs: "lb_docs (family lc) = [example_doc ''a'' 1 [(''b'', 1)] ScanPassed, example_doc ''b'' 1 [] ScanPassed]"
  by (simp add: family_def composed_library_def)

lemma example_doc_sel [simp]:
  "sd_skill_id (example_doc sid v us sc) = sid" "sd_version (example_doc sid v us sc) = v" "sd_uses (example_doc sid v us sc) = us"
  by (simp_all add: example_doc_def)

lemma family_get: "get_version (family lc) (''a'', 1) \<noteq> None" "get_version (family lc) (''b'', 1) \<noteq> None"
  by (simp_all add: get_version_def family_docs)

lemma family_ok: "lib_ok (family lc)"
  unfolding lib_ok_def
proof (intro conjI allI impI)
  fix k s assume s: "lb_status (family lc) k = Some s"
  then have "k = (''a'', 1) \<or> k = (''b'', 1)" by (auto simp: family_def split: if_splits)
  then show "status_key s = k" "get_version (family lc) k \<noteq> None" "ss_active s \<Longrightarrow> ss_lifecycle s = LcApproved"
    using s family_get by (auto simp: family_def new_status_def)
qed (simp add: family_docs)

theorem recertify_stale_exact_witness:
  "\<exists>ks w'. recertify_stale (Some ''pytest'') (quiet_world (family LcQuarantined)) = (Inr ks, w') \<and>
     map_option ss_lifecycle (lb_status (lw_library w') (''b'', 1)) = Some LcNeedsRecert"
proof -
  let ?w = "quiet_world (family LcQuarantined)"
  have "lib_ok (lw_library ?w)" by (simp add: quiet_world_def family_ok)
  from recertify_stale_exact[OF this, of "Some ''pytest''"] obtain w' where
    "recertify_stale (Some ''pytest'') ?w = (Inr (filter (due (Some ''pytest'') (lw_library ?w)) (list_versions (lw_library ?w))), w')"
    "lb_status (lw_library w') (''b'', 1) = Some (set_lifecycle LcNeedsRecert (loaded_status (lw_library ?w) (''b'', 1)))"
    using family_get by (auto simp: quiet_world_def due_def)
  then show ?thesis by (intro exI[of _ "filter (due (Some ''pytest'') (lw_library ?w)) (list_versions (lw_library ?w))"] exI[of _ w']) simp
qed

lemma family_lookup: "lineage_lookup (family lc) (SkSkill (''b'', 1), []) = [(''b'', 1)]"
  by (simp add: lineage_lookup_def dedup_def family_def)

lemma family_versions: "list_versions (family lc) = [(''a'', 1), (''b'', 1)]"
  by (simp add: list_versions_def family_docs less_char_def)

lemma family_parents: "parents_of (family lc) (''b'', 1) = [(''a'', 1)]"
  by (simp add: parents_of_def iter_loaded_def family_versions get_version_def family_docs)

theorem drain_revokes_covers_witness:
  "\<exists>touched lib'. drain_revokes 50 (family LcApproved) = (Inr touched, lib') \<and> int (length touched) \<le> 50 \<and>
     (int (length touched) < 50 \<longrightarrow> settled lib' (''b'', 1) \<and> settled lib' (''a'', 1))"
proof -
  have "lb_revokes (family LcApproved) = [(SkSkill (''b'', 1), [])]" by (simp add: family_def)
  then show ?thesis using drain_revokes_covers[OF family_ok, of 50 LcApproved] family_lookup family_parents by auto
qed

text \<open>When the cap is used up by the last target of an item, its parents are neither marked nor queued again.\<close>

lemma drain_revokes_forgets_parents:
  "\<exists>lib'. drain_revokes 1 (family LcApproved) = (Inr [(''b'', 1)], lib') \<and> lb_revokes lib' = [] \<and>
     map_option is_retrievable (lb_status lib' (''a'', 1)) = Some True"
proof -
  let ?lib1 = "(family LcApproved)\<lparr>lb_revokes := []\<rparr>"
  let ?s = "\<lparr>dr_remaining = 1, dr_leftover = [], dr_library = ?lib1\<rparr>"
  have rv: "lb_revokes (family LcApproved) = [(SkSkill (''b'', 1), [])]" by (simp add: family_def)
  have t: "take_revokes 1 (family LcApproved) = ([(SkSkill (''b'', 1), [])], ?lib1)"
    by (simp add: take_revokes_def rv)
  have par: "parents_of ?lib1 (''b'', 1) = [(''a'', 1)]" using family_parents parents_of_cong[of ?lib1 "family LcApproved"] by simp
  have look: "lineage_lookup ?lib1 (SkSkill (''b'', 1), []) = [(''b'', 1)]" using family_lookup by (simp add: lineage_lookup_def)
  have ok: "lib_ok ?lib1" using family_ok[of LcApproved] by (simp add: lib_ok_def get_version_def)
  have st: "lb_status ?lib1 (''b'', 1) = Some ((new_status ''b'' 1 LcApproved)\<lparr>ss_active := True\<rparr>)" by (simp add: family_def)
  then have "\<not> settled ?lib1 (''b'', 1)" by (simp add: settled_def new_status_def)
  then obtain x where m: "mark_needs_recert (''b'', 1) ?lib1 = (Inr True, ?lib1\<lparr>lb_status := (lb_status ?lib1)((''b'', 1) \<mapsto> set_lifecycle LcNeedsRecert x)\<rparr>)"
    by (rule_tac mark_needs_recert_result[OF ok, of "(''b'', 1)"]) blast+
  have "for_each (drain_item (parents_of ?lib1)) [(SkSkill (''b'', 1), [])] ?s =
      (Inr [(''b'', 1)], ?s\<lparr>dr_library := ?lib1\<lparr>lb_status := (lb_status ?lib1)((''b'', 1) \<mapsto> set_lifecycle LcNeedsRecert x)\<rparr>, dr_remaining := 0\<rparr>)"
    by (simp add: drain_item_def look par drain_mark_def m and_then_def drain_parent_def)
  then show ?thesis unfolding drain_revokes_def t prod.case
    by (simp add: family_def is_retrievable_def new_status_def)
qed

end
