(* ===== verification/Active_Set.thy ===== *)
theory Active_Set
  imports Skill_Lifecycle
begin

section \<open>The active set and shadow slots\<close>

text \<open>
  \<open>memory/procedural/active_set.py\<close>, the live-mix reasons of \<open>live_mix.py\<close> and the shadow scheduling of
  \<open>review/shadow.py\<close>. Rows are the triples of a document, its status and its statistics that \<open>iter_loaded\<close> yields;
  dictionaries keyed by task class keep the order of first occurrence. The offline evaluation of a slot and the
  fresh run ids are parameters.
\<close>

type_synonym row = "skill_doc \<times> skill_status \<times> skill_stats"

definition assign_active_on_approval :: "skill_doc option \<Rightarrow> skill_stats option \<Rightarrow> skill_status \<Rightarrow> skill_status" where
  "assign_active_on_approval version stats status =
     (if ss_lifecycle status \<noteq> LcApproved then status\<lparr>ss_active := False\<rparr>
      else case version of
             Some d \<Rightarrow> status\<lparr>ss_active := live_mix_eligible (pv_curation (sd_provenance d)) stats\<rparr>
           | None \<Rightarrow> status\<lparr>ss_active := True\<rparr>)"

definition row_eligible :: "row \<Rightarrow> bool" where
  "row_eligible r = (case r of (d, s, st) \<Rightarrow> live_mix_eligible (pv_curation (sd_provenance d)) (Some st))"

definition classes_of :: "row list \<Rightarrow> string list" where
  "classes_of rows = dedup (map (\<lambda>(d, s, st). sd_task_class d) rows)"

definition rows_of_class :: "string \<Rightarrow> row list \<Rightarrow> row list" where
  "rows_of_class tc rows = filter (\<lambda>(d, s, st). sd_task_class d = tc) rows"

subsection \<open>Live-mix reasons\<close>

datatype live_mix_reason =
  Live | ShadowTrial | NegativeMix | Capped | BenchedMix | NeedsRecertMix | QuarantinedMix | DeprecatedMix | NotApprovedMix

definition live_mix_reason :: "skill_doc \<Rightarrow> skill_status \<Rightarrow> skill_stats option \<Rightarrow> live_mix_reason" where
  "live_mix_reason d s stats =
     (if ss_lifecycle s = LcQuarantined then QuarantinedMix
      else if ss_lifecycle s = LcNeedsRecert then NeedsRecertMix
      else if ss_lifecycle s = LcBenched then BenchedMix
      else if ss_lifecycle s = LcDeprecated then DeprecatedMix
      else if ss_lifecycle s \<noteq> LcApproved then NotApprovedMix
      else if ss_active s then Live
      else if pv_curation (sd_provenance d) = SelfDistilled \<and> \<not> live_mix_eligible (pv_curation (sd_provenance d)) stats then
        (case stats of
           None \<Rightarrow> ShadowTrial
         | Some st \<Rightarrow> (case contribution_estimate (st_contribution st) of
                        None \<Rightarrow> ShadowTrial
                      | Some e \<Rightarrow> if e < 0 then NegativeMix else ShadowTrial))
      else Capped)"

subsection \<open>Recomputation\<close>

definition refresh_row :: "(vkey \<Rightarrow> (binomial_sample \<times> binomial_sample) option) \<Rightarrow> row \<Rightarrow> row list transition" where
  "refresh_row samples r w =
     (case r of (d, s, st) \<Rightarrow>
        (case pair_at samples (doc_key d) of (shadow, suppression) \<Rightarrow>
           (case estimate_contribution shadow suppression (0 < bs_trials shadow \<and> 0 < bs_trials suppression) of
              Inl e \<Rightarrow> (Inl (StatsFailed e), w)
            | Inr c \<Rightarrow>
                (let st' = st\<lparr>st_contribution := c\<rparr>
                 in and_then (if st' = st then (Inr (), w) else on_library (write_stats st') w) (\<lambda>_ w1. (Inr [(d, s, st')], w1))))))"

definition pool_for_class :: "bool \<Rightarrow> string \<Rightarrow> row list \<Rightarrow> (row list \<times> row list) transition" where
  "pool_for_class with_evals tc rows w =
     (let approved = filter (\<lambda>(d, s, st). ss_lifecycle s = LcApproved) rows
      in if \<not> with_evals then (Inr (approved, filter row_eligible approved), w)
         else and_then (refresh_ablation tc w) (\<lambda>_ w1.
              and_then (for_each (refresh_row (contribution_samples_bulk (lw_evals w1) tc None)) approved w1) (\<lambda>refreshed w2.
                let pool = filter (\<lambda>(d, s, st). contribution_estimate (st_contribution st) \<noteq> None \<and> row_eligible (d, s, st)) refreshed
                in (Inr (refreshed, if pool = [] then filter row_eligible refreshed else pool), w2))))"

definition wanted_status :: "vkey list \<Rightarrow> row list \<Rightarrow> row \<Rightarrow> skill_status" where
  "wanted_status top_ids approved r =
     (case r of (d, s, st) \<Rightarrow>
        let current = (case map_of (map (\<lambda>(d, s, st). (doc_key d, st)) approved) (doc_key d) of None \<Rightarrow> st | Some x \<Rightarrow> x)
        in if ss_lifecycle s = LcApproved
           then s\<lparr>ss_active := live_mix_eligible (pv_curation (sd_provenance d)) (Some current) \<and> doc_key d \<in> set top_ids\<rparr>
           else assign_active_on_approval (Some d) (Some current) s)"

definition apply_active_bit :: "vkey list \<Rightarrow> row list \<Rightarrow> row \<Rightarrow> skill_status list transition" where
  "apply_active_bit top_ids approved r w =
     (let s' = wanted_status top_ids approved r
      in and_then (if s' = fst (snd r) then (Inr (), w) else on_library (write_status None s') w) (\<lambda>_ w1. (Inr [s'], w1)))"

definition top_of_pool :: "autonomy_config \<Rightarrow> row list \<Rightarrow> vkey list" where
  "top_of_pool cfg pool = select_active (rank_skills None (map (\<lambda>(d, s, st). (doc_key d, st)) pool)) (au_active_cap_per_task_class cfg)"

definition recompute_class :: "autonomy_config \<Rightarrow> bool \<Rightarrow> row list \<Rightarrow> string \<Rightarrow> skill_status list transition" where
  "recompute_class cfg with_evals rows tc w =
     and_then (pool_for_class with_evals tc (rows_of_class tc rows) w) (\<lambda>(approved, pool) w1.
       for_each (apply_active_bit (top_of_pool cfg pool) approved) (rows_of_class tc rows) w1)"

definition cap_pressure :: "autonomy_config \<Rightarrow> row list \<Rightarrow> string \<Rightarrow> real" where
  "cap_pressure cfg rows tc =
     (let cap = au_active_cap_per_task_class cfg;
          approved = int (length (filter (\<lambda>(d, s, st). ss_lifecycle s = LcApproved) (rows_of_class tc rows)))
      in if cap = 0 then 0 else real_of_int (max 0 (approved - cap)) / real_of_int cap)"

definition recompute_active_set ::
    "autonomy_config \<Rightarrow> bool \<Rightarrow> (skill_status list \<times> (string \<times> real) list) transition" where
  "recompute_active_set cfg with_evals w =
     (let rows = iter_loaded (lw_library w)
      in and_then (for_each (recompute_class cfg with_evals rows) (classes_of rows) w) (\<lambda>updated w1.
           (Inr (updated, map (\<lambda>tc. (tc, cap_pressure cfg rows tc)) (classes_of rows)), w1)))"

subsection \<open>Shadow slots\<close>

record shadow_slot =
  sl_skill_id :: skill_id
  sl_version :: int
  sl_task_class :: string
  sl_benched :: bool

text \<open>The slice \<open>xs[:n]\<close>.\<close>

definition py_slice :: "int \<Rightarrow> 'a list \<Rightarrow> 'a list" where
  "py_slice n xs = (if 0 \<le> n then take (nat n) xs else take (length xs - nat (- n)) xs)"

definition wants_shadow :: "row \<Rightarrow> bool" where
  "wants_shadow r = (case r of (d, s, st) \<Rightarrow> ss_lifecycle s = LcBenched \<or> (ss_lifecycle s = LcApproved \<and> \<not> ss_active s))"

definition shadow_key :: "row \<Rightarrow> int \<times> string \<times> int" where
  "shadow_key r = (case r of (d, s, st) \<Rightarrow>
     (ct_applications (st_contribution st) + ct_suppressed_applications (st_contribution st), sd_skill_id d, sd_version d))"

definition slot_of :: "row \<Rightarrow> shadow_slot" where
  "slot_of r = (case r of (d, s, st) \<Rightarrow>
     \<lparr>sl_skill_id = sd_skill_id d, sl_version = sd_version d, sl_task_class = sd_task_class d, sl_benched = (ss_lifecycle s = LcBenched)\<rparr>)"

definition select_shadow_slots :: "autonomy_config \<Rightarrow> library \<Rightarrow> shadow_slot list" where
  "select_shadow_slots cfg lib =
     (let rows = filter wants_shadow (iter_loaded lib)
      in concat (map (\<lambda>tc. map slot_of (py_slice (au_shadow_slots_per_task_class cfg) (sort_key shadow_key (rows_of_class tc rows))))
           (classes_of rows)))"

definition shadow_criterion :: task_criterion where
  "shadow_criterion =
     \<lparr>c_id = ''shadow-offline'', c_kind = Command, c_run = Some ''true'', c_expect_exit = 0, c_expr = None,
      c_target = None, c_schema_ref = None, c_metric = None, c_op = None, c_threshold = None,
      c_rubric = None, c_isolation = FreshContext, c_lens = None, c_timeout_s = 300, c_weight = 1,
      c_sensitivity_proof = None, c_source = Caller, c_preregistered = True\<rparr>"

definition shadow_state :: "shadow_slot \<Rightarrow> bool \<Rightarrow> string \<Rightarrow> run_id \<Rightarrow> run_state" where
  "shadow_state slot success snapshot_id rid =
     (initial_state rid
        \<lparr>t_task_id = rid, t_goal = None, t_request = Some (''offline shadow slot for '' @ sl_skill_id slot @ ''@v'' @ str_of_int (sl_version slot)),
         t_task_class = Some (sl_task_class slot), t_submitted_by = None, t_is_eval_fixture = False,
         t_execution_strategy = SingleExecution\<rparr>
        [shadow_criterion] default_budget Shadow \<lparr>mf_index_snapshot_id = Some snapshot_id, mf_criteria_hash = Some ''shadow-offline''\<rparr>)
     \<lparr>rs_criteria_locked := True,
      rs_chosen := Some \<lparr>cd_skill_id = sl_skill_id slot, cd_version = sl_version slot, cd_score = 1, cd_bound_parameters = [], cd_shadow = True\<rparr>,
      rs_attempt_no := 1, rs_results := [plain_result ''shadow-offline'' Command success 1],
      rs_terminal := Some (if success then Solved else Unsolved)\<rparr>"

datatype shadow_error = OutcomeRefused | SlotMissing | ObservationFailed observation_error | ActiveLeak

definition record_shadow_outcome :: "library \<Rightarrow> vkey \<Rightarrow> shadow_error option" where
  "record_shadow_outcome lib k =
     (case get_status lib k of
        None \<Rightarrow> Some SlotMissing
      | Some s \<Rightarrow> if ss_lifecycle s \<in> {LcShadow, LcApproved, LcBenched} then None else Some OutcomeRefused)"

definition active_bits :: "library \<Rightarrow> (vkey \<times> bool) list" where
  "active_bits lib = map (\<lambda>(d, s, st). (doc_key d, ss_active s)) (iter_loaded lib)"

text \<open>One slot; the offline evaluation may return a changed library, which the guard on the active bits inspects.\<close>

definition run_shadow_slot ::
    "(run_state \<Rightarrow> string) \<Rightarrow> instant \<Rightarrow> string \<Rightarrow> (shadow_slot \<Rightarrow> library \<Rightarrow> bool \<times> library) \<Rightarrow> (shadow_slot \<Rightarrow> run_id) \<Rightarrow> shadow_slot \<Rightarrow>
     lifecycle_world \<Rightarrow> (shadow_error, (shadow_slot \<times> bool) list) result \<times> lifecycle_world" where
  "run_shadow_slot payload_hash now snapshot_id evaluate fresh slot w =
     (case evaluate slot (lw_library w) of (success, lib1) \<Rightarrow>
        let w1 = w\<lparr>lw_library := lib1\<rparr>
        in case record_shadow_outcome lib1 (sl_skill_id slot, sl_version slot) of
             Some e \<Rightarrow> (Inl e, w1)
           | None \<Rightarrow>
               (case append_run payload_hash now None False None (shadow_state slot success snapshot_id (fresh slot)) (lw_evals w1) of
                  (Inl e, ev) \<Rightarrow> (Inl (ObservationFailed e), w1\<lparr>lw_evals := ev\<rparr>)
                | (Inr _, ev) \<Rightarrow>
                    if active_bits lib1 \<noteq> active_bits (lw_library w) then (Inl ActiveLeak, w1\<lparr>lw_evals := ev\<rparr>)
                    else (Inr [(slot, success)], w1\<lparr>lw_evals := ev\<rparr>)))"

definition schedule_shadow_slots ::
    "(run_state \<Rightarrow> string) \<Rightarrow> instant \<Rightarrow> string \<Rightarrow> (shadow_slot \<Rightarrow> library \<Rightarrow> bool \<times> library) \<Rightarrow> (shadow_slot \<Rightarrow> run_id) \<Rightarrow> autonomy_config \<Rightarrow>
     lifecycle_world \<Rightarrow> (shadow_error, (shadow_slot \<times> bool) list) result \<times> lifecycle_world" where
  "schedule_shadow_slots payload_hash now snapshot_id evaluate fresh cfg w =
     for_each (run_shadow_slot payload_hash now snapshot_id evaluate fresh) (select_shadow_slots cfg (lw_library w)) w"

subsection \<open>Lemmas\<close>

definition stats_keyed :: "library \<Rightarrow> bool" where
  "stats_keyed lib \<longleftrightarrow> (\<forall>k st. lb_stats lib k = Some st \<longrightarrow> (st_skill_id st, st_version st) = k)"

abbreviation row_of :: "library \<Rightarrow> vkey \<Rightarrow> row" where
  "row_of lib k \<equiv> (the (get_version lib k), loaded_status lib k, get_stats lib k)"

lemma get_stats_key: "stats_keyed lib \<Longrightarrow> (st_skill_id (get_stats lib k), st_version (get_stats lib k)) = k"
  unfolding get_stats_def by (cases "lb_stats lib k"; cases k) (simp_all add: default_stats_def stats_keyed_def)

text \<open>The estimates over counted samples are numbers, so no transition fails on them.\<close>

lemma estimate_samples_ok:
  obtains c where "estimate_contribution (fst (contribution_samples ev k tc snap)) (snd (contribution_samples ev k tc snap))
     (0 < bs_trials (fst (contribution_samples ev k tc snap)) \<and> 0 < bs_trials (snd (contribution_samples ev k tc snap))) = Inr c"
  using estimate_contribution_sound[OF contribution_samples_ok(1) contribution_samples_ok(2)] by metis

lemma wilson_no_trials: "wilson_interval s t level = Inr None \<or> 0 < t"
  by (simp add: wilson_interval_def)

lemma newcombe_ok:
  assumes "sample_ok t" "sample_ok c"
  shows "\<exists>i. newcombe_wilson_difference t c default_level = Inr i"
proof -
  have w: "\<exists>i. wilson_interval (bs_successes x) (bs_trials x) default_level = Inr i" if "sample_ok x" for x
  proof (cases "0 < bs_trials x")
    case True
    then show ?thesis using newcombe_bounds[OF that that _ _ z_for_default]
      by (auto simp: newcombe_wilson_difference_def split: sum.splits)
  next
    case False
    then show ?thesis by (simp add: wilson_interval_def)
  qed
  from w[OF assms(1)] w[OF assms(2)] show ?thesis by (auto simp: newcombe_wilson_difference_def split: option.splits)
qed

lemma refresh_ablation_ok: "\<exists>w'. refresh_ablation tc w = (Inr (), w') \<and> lw_library w' = lw_library w"
proof -
  obtain e d where s: "retrieval_ablation_samples (lw_evals w) tc None = (e, d)" by fastforce
  then have "sample_ok e" "sample_ok d" by (auto simp: retrieval_ablation_samples_def count_sample_ok)
  from newcombe_ok[OF this] obtain i where "newcombe_wilson_difference e d default_level = Inr i" by blast
  then show ?thesis by (simp add: refresh_ablation_def s estimate_retrieval_ablation_def)
qed

text \<open>Refreshing the statistics leaves documents and statuses alone.\<close>

lemma refresh_row_ok:
  assumes "get_version (lw_library w) (st_skill_id st, st_version st) \<noteq> None"
  shows "\<exists>st' w'. refresh_row (contribution_samples_bulk ev tc None) (d, s, st) w = (Inr [(d, s, st')], w') \<and>
     lb_docs (lw_library w') = lb_docs (lw_library w) \<and> lb_status (lw_library w') = lb_status (lw_library w)"
proof -
  let ?p = "contribution_samples ev (doc_key d) tc None"
  have pair: "pair_at (contribution_samples_bulk ev tc None) (doc_key d) = ?p" by (rule bulk_samples_single)
  obtain c where c: "estimate_contribution (fst ?p) (snd ?p) (0 < bs_trials (fst ?p) \<and> 0 < bs_trials (snd ?p)) = Inr c"
    by (rule estimate_samples_ok)
  let ?st = "st\<lparr>st_contribution := c\<rparr>"
  let ?m = "if ?st = st then (Inr (), w) else on_library (write_stats ?st) w"
  have r: "refresh_row (contribution_samples_bulk ev tc None) (d, s, st) w = and_then ?m (\<lambda>_ w1. (Inr [(d, s, ?st)], w1))"
    using c unfolding refresh_row_def prod.case pair by (simp add: case_prod_beta Let_def)
  have "\<exists>w1. ?m = (Inr (), w1) \<and> lb_docs (lw_library w1) = lb_docs (lw_library w) \<and> lb_status (lw_library w1) = lb_status (lw_library w)"
    using assms by (auto simp: on_library_def write_stats_def Let_def)
  then show ?thesis unfolding r by (auto simp: and_then_def)
qed

definition row_stored :: "library \<Rightarrow> row \<Rightarrow> bool" where
  "row_stored lib r \<longleftrightarrow> (case r of (d, s, st) \<Rightarrow> get_version lib (st_skill_id st, st_version st) \<noteq> None)"

lemma refresh_rows_ok:
  assumes "\<forall>r \<in> set rows. row_stored (lw_library w) r"
  shows "\<exists>rows' w'. for_each (refresh_row (contribution_samples_bulk ev tc None)) rows w = (Inr rows', w') \<and>
     lb_docs (lw_library w') = lb_docs (lw_library w) \<and> lb_status (lw_library w') = lb_status (lw_library w)"
  using assms
proof (induction rows arbitrary: w)
  case (Cons r rows)
  obtain d s st where r: "r = (d, s, st)" by (cases r)
  have "get_version (lw_library w) (st_skill_id st, st_version st) \<noteq> None" using Cons.prems r by (simp add: row_stored_def)
  from refresh_row_ok[OF this] obtain st' w1 where 1: "refresh_row (contribution_samples_bulk ev tc None) r w = (Inr [(d, s, st')], w1)"
    "lb_docs (lw_library w1) = lb_docs (lw_library w)" "lb_status (lw_library w1) = lb_status (lw_library w)" unfolding r by blast
  have "\<forall>r \<in> set rows. row_stored (lw_library w1) r" using Cons.prems get_version_cong[OF 1(2)] by (simp add: row_stored_def)
  from Cons.IH[OF this] 1 show ?case by (auto simp: and_then_def)
qed simp

lemma pool_for_class_ok:
  assumes "\<forall>r \<in> set rows. row_stored (lw_library w) r"
  shows "\<exists>approved pool w'. pool_for_class with_evals tc rows w = (Inr (approved, pool), w') \<and>
     lb_docs (lw_library w') = lb_docs (lw_library w) \<and> lb_status (lw_library w') = lb_status (lw_library w)"
proof (cases with_evals)
  case True
  obtain w1 where 1: "refresh_ablation tc w = (Inr (), w1)" "lw_library w1 = lw_library w" using refresh_ablation_ok by blast
  have "\<forall>r \<in> set (filter (\<lambda>(d, s, st). ss_lifecycle s = LcApproved) rows). row_stored (lw_library w1) r" using assms 1(2) by simp
  from refresh_rows_ok[OF this, of "lw_evals w1" tc] obtain rows' w2 where
    "for_each (refresh_row (contribution_samples_bulk (lw_evals w1) tc None)) (filter (\<lambda>(d, s, st). ss_lifecycle s = LcApproved) rows) w1 = (Inr rows', w2)"
    "lb_docs (lw_library w2) = lb_docs (lw_library w1)" "lb_status (lw_library w2) = lb_status (lw_library w1)" by blast
  with 1 True show ?thesis by (simp add: pool_for_class_def and_then_def Let_def)
qed (simp add: pool_for_class_def)

text \<open>Setting the active bits: only approved statuses change, and only in their bit.\<close>

definition with_bit :: "bool \<Rightarrow> skill_status \<Rightarrow> skill_status" where
  "with_bit b s = (if ss_lifecycle s = LcApproved then s\<lparr>ss_active := b\<rparr> else s)"

lemma wanted_status_bit:
  assumes "lib_ok lib" "get_version lib k = Some d"
  obtains b where "wanted_status top_ids approved (row_of lib k) = with_bit b (loaded_status lib k)" "b \<longrightarrow> k \<in> set top_ids"
proof (cases "ss_lifecycle (loaded_status lib k) = LcApproved")
  case True
  then show thesis
    using that[of "live_mix_eligible (pv_curation (sd_provenance d)) (Some (case map_of (map (\<lambda>(d, s, st). (doc_key d, st)) approved) (doc_key d)
        of None \<Rightarrow> get_stats lib k | Some x \<Rightarrow> x)) \<and> doc_key d \<in> set top_ids"] get_version_key[OF assms(2)] assms(2)
    by (simp add: wanted_status_def with_bit_def Let_def)
next
  case False
  have "\<not> ss_active (loaded_status lib k)"
  proof (cases "lb_status lib k")
    case (Some s)
    then show ?thesis using False lib_okD(3)[OF assms(1) Some] by (auto simp: loaded_status_def)
  qed (simp add: loaded_status_def new_status_def)
  then have "(loaded_status lib k)\<lparr>ss_active := False\<rparr> = loaded_status lib k" by simp
  then show thesis using False that[of False] by (simp add: wanted_status_def with_bit_def Let_def assign_active_on_approval_def)
qed

lemma apply_active_bit_ok:
  assumes "lib_ok lib" "get_version lib k \<noteq> None" "lb_docs (lw_library w) = lb_docs lib" "lb_status (lw_library w) k = lb_status lib k"
  shows "\<exists>us w' b. apply_active_bit top_ids approved (row_of lib k) w = (Inr us, w') \<and> lb_docs (lw_library w') = lb_docs lib \<and>
     lb_status (lw_library w') = (lb_status (lw_library w))(k := map_option (with_bit b) (lb_status lib k)) \<and> (b \<longrightarrow> k \<in> set top_ids)"
proof -
  obtain d where d: "get_version lib k = Some d" using assms(2) by blast
  let ?s = "loaded_status lib k"
  obtain b where b: "wanted_status top_ids approved (row_of lib k) = with_bit b ?s" "b \<longrightarrow> k \<in> set top_ids"
    by (rule wanted_status_bit[OF assms(1) d])
  have run: "apply_active_bit top_ids approved (row_of lib k) w =
      and_then (if with_bit b ?s = ?s then (Inr (), w) else on_library (write_status None (with_bit b ?s)) w) (\<lambda>_ w1. (Inr [with_bit b ?s], w1))"
    unfolding apply_active_bit_def b(1) by (simp add: Let_def)
  show ?thesis
  proof (cases "with_bit b ?s = ?s")
    case True
    have "(lb_status (lw_library w))(k := map_option (with_bit b) (lb_status lib k)) = lb_status (lw_library w)"
      using True assms(4) by (cases "lb_status lib k") (auto simp: loaded_status_def)
    with True b(2) run assms(3) show ?thesis by (intro exI[of _ "[with_bit b ?s]"] exI[of _ w] exI[of _ b]) (simp add: and_then_def)
  next
    case False
    then have ap: "ss_lifecycle ?s = LcApproved" by (auto simp: with_bit_def split: if_splits)
    then obtain s where s: "lb_status lib k = Some s" "?s = s" by (cases "lb_status lib k") (simp_all add: loaded_status_def new_status_def)
    have key: "status_key (with_bit b s) = k" using lib_okD(1)[OF assms(1) s(1)] by (simp add: with_bit_def)
    have lc: "ss_lifecycle (with_bit b s) = LcApproved" using ap s(2) by (simp add: with_bit_def)
    obtain r lib' where ws: "write_status None (with_bit b s) (lw_library w) = (r, lib')" by fastforce
    have "get_version (lw_library w) k \<noteq> None" using d get_version_cong[OF assms(3)] by simp
    then have "is_ok r" using write_status_ok_iff[of None "with_bit b s" "lw_library w"] ws key s ap assms(4)
      by (simp add: get_status_def)
    then have r: "r = Inr ()" and st: "lb_status lib' = (lb_status (lw_library w))(k \<mapsto> with_bit b s)" and doc: "lb_docs lib' = lb_docs lib"
      using write_status_sel[OF ws] key assms(3) by (auto simp: is_ok_iff)
    have "apply_active_bit top_ids approved (row_of lib k) w = (Inr [with_bit b ?s], w\<lparr>lw_library := lib'\<rparr>)"
      using run False ws r s(2) by (simp add: and_then_def on_library_def)
    then show ?thesis using st doc b(2) s by (intro exI[of _ "[with_bit b ?s]"] exI[of _ "w\<lparr>lw_library := lib'\<rparr>"] exI[of _ b]) simp
  qed
qed

lemma apply_active_bits_ok:
  assumes "lib_ok lib" "distinct ks" "\<forall>k \<in> set ks. get_version lib k \<noteq> None" "lb_docs (lw_library w) = lb_docs lib"
    "\<forall>k \<in> set ks. lb_status (lw_library w) k = lb_status lib k"
  shows "\<exists>us w' bit. for_each (apply_active_bit top_ids approved) (map (row_of lib) ks) w = (Inr us, w') \<and> lb_docs (lw_library w') = lb_docs lib \<and>
     lb_status (lw_library w') = (\<lambda>k. if k \<in> set ks then map_option (with_bit (bit k)) (lb_status lib k) else lb_status (lw_library w) k) \<and>
     (\<forall>k. bit k \<longrightarrow> k \<in> set top_ids)"
  using assms(2-)
proof (induction ks arbitrary: w)
  case Nil
  then show ?case by (intro exI[of _ "[]"] exI[of _ w] exI[of _ "\<lambda>k. False"]) simp
next
  case (Cons k ks)
  have "get_version lib k \<noteq> None" "lb_status (lw_library w) k = lb_status lib k" using Cons.prems by simp_all
  from apply_active_bit_ok[OF assms(1) this(1) Cons.prems(3) this(2), of top_ids approved] obtain us w1 b where 1:
    "apply_active_bit top_ids approved (row_of lib k) w = (Inr us, w1)" "lb_docs (lw_library w1) = lb_docs lib"
    "lb_status (lw_library w1) = (lb_status (lw_library w))(k := map_option (with_bit b) (lb_status lib k))" "b \<longrightarrow> k \<in> set top_ids" by blast
  have pre: "distinct ks" "\<forall>j \<in> set ks. get_version lib j \<noteq> None" "\<forall>j \<in> set ks. lb_status (lw_library w1) j = lb_status lib j"
    using Cons.prems 1(3) by auto
  from Cons.IH[OF pre(1,2) 1(2) pre(3)] obtain us' w2 bit where 2:
    "for_each (apply_active_bit top_ids approved) (map (row_of lib) ks) w1 = (Inr us', w2)" "lb_docs (lw_library w2) = lb_docs lib"
    "lb_status (lw_library w2) = (\<lambda>k. if k \<in> set ks then map_option (with_bit (bit k)) (lb_status lib k) else lb_status (lw_library w1) k)"
    "\<forall>k. bit k \<longrightarrow> k \<in> set top_ids" by blast
  have "for_each (apply_active_bit top_ids approved) (map (row_of lib) (k # ks)) w = (Inr (us @ us'), w2)"
    using 1(1) 2(1) by (simp add: and_then_def)
  moreover have "lb_status (lw_library w2) = (\<lambda>j. if j \<in> set (k # ks) then map_option (with_bit ((bit(k := b)) j)) (lb_status lib j) else lb_status (lw_library w) j)"
    using Cons.prems(1) unfolding 2(3) 1(3) by (rule_tac ext) simp
  moreover have "(bit(k := b)) j \<longrightarrow> j \<in> set top_ids" for j using 1(4) spec[OF 2(4), of j] by (cases "j = k") simp_all
  ultimately show ?case using 2(2) by (intro exI[of _ "us @ us'"] exI[of _ w2] exI[of _ "bit(k := b)"]) blast
qed

definition class_keys :: "library \<Rightarrow> string \<Rightarrow> vkey list" where
  "class_keys lib tc = filter (\<lambda>k. sd_task_class (the (get_version lib k)) = tc) (list_versions lib)"

lemma rows_of_class_keys: "rows_of_class tc (iter_loaded lib) = map (row_of lib) (class_keys lib tc)"
  by (simp add: rows_of_class_def iter_loaded_def class_keys_def filter_map comp_def)

lemma class_keys_iff:
  "k \<in> set (class_keys lib tc) \<longleftrightarrow> (\<exists>d. get_version lib k = Some d \<and> sd_task_class d = tc)"
proof -
  have "k \<in> set (list_versions lib) \<longleftrightarrow> get_version lib k \<noteq> None"
    unfolding get_version_None list_versions_keys(1) by (rule not_not[symmetric])
  then show ?thesis by (auto simp: class_keys_def)
qed

lemma distinct_class_keys: "lib_ok lib \<Longrightarrow> distinct (class_keys lib tc)"
  by (simp add: class_keys_def lib_ok_def list_versions_keys(2))

lemma recompute_class_ok:
  assumes "lib_ok lib" "stats_keyed lib" "lb_docs (lw_library w) = lb_docs lib"
    "\<forall>k \<in> set (class_keys lib tc). lb_status (lw_library w) k = lb_status lib k"
  shows "\<exists>us w' bit S. recompute_class cfg with_evals (iter_loaded lib) tc w = (Inr us, w') \<and> lb_docs (lw_library w') = lb_docs lib \<and>
     lb_status (lw_library w') = (\<lambda>k. if k \<in> set (class_keys lib tc) then map_option (with_bit (bit k)) (lb_status lib k) else lb_status (lw_library w) k) \<and>
     Collect bit \<subseteq> set S \<and> length S \<le> nat (au_active_cap_per_task_class cfg)"
proof -
  let ?ks = "class_keys lib tc"
  have stored: "\<forall>k \<in> set ?ks. get_version lib k \<noteq> None" by (metis class_keys_iff option.distinct(1))
  have "row_stored (lw_library w) (row_of lib k)" if "k \<in> set ?ks" for k
    using stored that get_stats_key[OF assms(2), of k] get_version_cong[OF assms(3)] by (simp add: row_stored_def)
  then have "\<forall>r \<in> set (map (row_of lib) ?ks). row_stored (lw_library w) r" by simp
  from pool_for_class_ok[OF this, of with_evals tc] obtain approved pool w1 where p:
    "pool_for_class with_evals tc (map (row_of lib) ?ks) w = (Inr (approved, pool), w1)"
    "lb_docs (lw_library w1) = lb_docs (lw_library w)" "lb_status (lw_library w1) = lb_status (lw_library w)" by blast
  have w1: "lb_docs (lw_library w1) = lb_docs lib" "\<forall>k \<in> set ?ks. lb_status (lw_library w1) k = lb_status lib k"
    using p(2,3) assms(3,4) by simp_all
  from apply_active_bits_ok[OF assms(1) distinct_class_keys[OF assms(1)] stored w1, of "top_of_pool cfg pool" approved]
  obtain us w2 bit where 2: "for_each (apply_active_bit (top_of_pool cfg pool) approved) (map (row_of lib) ?ks) w1 = (Inr us, w2)"
    "lb_docs (lw_library w2) = lb_docs lib"
    "lb_status (lw_library w2) = (\<lambda>k. if k \<in> set ?ks then map_option (with_bit (bit k)) (lb_status lib k) else lb_status (lw_library w1) k)"
    "\<forall>k. bit k \<longrightarrow> k \<in> set (top_of_pool cfg pool)" by blast
  have "recompute_class cfg with_evals (iter_loaded lib) tc w = (Inr us, w2)"
    unfolding recompute_class_def rows_of_class_keys p(1) using 2(1) by (simp add: and_then_def)
  moreover have "Collect bit \<subseteq> set (top_of_pool cfg pool)" using 2(4) by blast
  moreover have "length (top_of_pool cfg pool) \<le> nat (au_active_cap_per_task_class cfg)"
    by (simp add: top_of_pool_def length_select_active)
  ultimately show ?thesis using 2(2) 2(3)[unfolded p(3)]
    by (intro exI[of _ us] exI[of _ w2] exI[of _ bit] exI[of _ "top_of_pool cfg pool"] conjI)
qed

lemma recompute_classes_ok:
  assumes "lib_ok lib" "stats_keyed lib" "distinct tcs" "lb_docs (lw_library w) = lb_docs lib"
    "\<forall>tc \<in> set tcs. \<forall>k \<in> set (class_keys lib tc). lb_status (lw_library w) k = lb_status lib k"
  shows "\<exists>us w' bit top. for_each (recompute_class cfg with_evals (iter_loaded lib)) tcs w = (Inr us, w') \<and> lb_docs (lw_library w') = lb_docs lib \<and>
     lb_status (lw_library w') = (\<lambda>k. if \<exists>tc \<in> set tcs. k \<in> set (class_keys lib tc) then map_option (with_bit (bit k)) (lb_status lib k) else lb_status (lw_library w) k) \<and>
     (\<forall>tc \<in> set tcs. {k \<in> set (class_keys lib tc). bit k} \<subseteq> set (top tc) \<and> length (top tc) \<le> nat (au_active_cap_per_task_class cfg))"
  using assms(3-)
proof (induction tcs arbitrary: w)
  case Nil
  then show ?case by (intro exI[of _ "[]"] exI[of _ w] exI[of _ "\<lambda>k. False"] exI[of _ "\<lambda>tc. []"]) simp
next
  case (Cons tc tcs)
  have "\<forall>k \<in> set (class_keys lib tc). lb_status (lw_library w) k = lb_status lib k" using Cons.prems(3) by simp
  from recompute_class_ok[OF assms(1,2) Cons.prems(2) this, of cfg with_evals] obtain us w1 bit S where 1:
    "recompute_class cfg with_evals (iter_loaded lib) tc w = (Inr us, w1)" "lb_docs (lw_library w1) = lb_docs lib"
    "lb_status (lw_library w1) = (\<lambda>k. if k \<in> set (class_keys lib tc) then map_option (with_bit (bit k)) (lb_status lib k) else lb_status (lw_library w) k)"
    "Collect bit \<subseteq> set S" "length S \<le> nat (au_active_cap_per_task_class cfg)" by blast
  have disj: "k \<notin> set (class_keys lib tc)" if "t \<in> set tcs" "k \<in> set (class_keys lib t)" for t k
    using that Cons.prems(1) by (auto simp: class_keys_def)
  have pre: "\<forall>t \<in> set tcs. \<forall>k \<in> set (class_keys lib t). lb_status (lw_library w1) k = lb_status lib k"
  proof (intro ballI)
    fix t k assume t: "t \<in> set tcs" "k \<in> set (class_keys lib t)"
    have "lb_status (lw_library w) k = lb_status lib k" using bspec[OF bspec[OF Cons.prems(3), of t] t(2)] t(1) by simp
    then show "lb_status (lw_library w1) k = lb_status lib k" using disj[OF t] 1(3) by simp
  qed
  have "distinct tcs" using Cons.prems(1) by simp
  from Cons.IH[OF this 1(2) pre] obtain us' w2 bit' top where 2:
    "for_each (recompute_class cfg with_evals (iter_loaded lib)) tcs w1 = (Inr us', w2)" "lb_docs (lw_library w2) = lb_docs lib"
    "lb_status (lw_library w2) = (\<lambda>k. if \<exists>tc \<in> set tcs. k \<in> set (class_keys lib tc) then map_option (with_bit (bit' k)) (lb_status lib k) else lb_status (lw_library w1) k)"
    "\<forall>tc \<in> set tcs. {k \<in> set (class_keys lib tc). bit' k} \<subseteq> set (top tc) \<and> length (top tc) \<le> nat (au_active_cap_per_task_class cfg)" by blast
  let ?bit = "\<lambda>k. if k \<in> set (class_keys lib tc) then bit k else bit' k"
  have run: "for_each (recompute_class cfg with_evals (iter_loaded lib)) (tc # tcs) w = (Inr (us @ us'), w2)"
    using 1(1) 2(1) by (simp add: and_then_def)
  have st: "lb_status (lw_library w2) = (\<lambda>k. if \<exists>t \<in> set (tc # tcs). k \<in> set (class_keys lib t) then map_option (with_bit (?bit k)) (lb_status lib k) else lb_status (lw_library w) k)"
    unfolding 2(3) 1(3) by (rule ext) (use disj in auto)
  have caps: "{k \<in> set (class_keys lib t). ?bit k} \<subseteq> set ((top(tc := S)) t) \<and> length ((top(tc := S)) t) \<le> nat (au_active_cap_per_task_class cfg)"
    if t: "t \<in> set (tc # tcs)" for t
  proof (cases "t = tc")
    case True
    then show ?thesis using 1(4,5) by auto
  next
    case False
    then have "t \<in> set tcs" using t by simp
    then have "{k \<in> set (class_keys lib t). ?bit k} = {k \<in> set (class_keys lib t). bit' k}" using disj by auto
    then show ?thesis using 2(4) \<open>t \<in> set tcs\<close> False by simp
  qed
  show ?case
    by (intro exI[of _ "us @ us'"] exI[of _ w2] exI[of _ ?bit] exI[of _ "top(tc := S)"] conjI ballI)
       (rule run, rule 2(2), rule st, rule caps[THEN conjunct1], assumption, rule caps[THEN conjunct2], assumption)
qed

text \<open>The recomputation moves along the lifecycle automaton, whatever else has changed since the rows were read.\<close>

lemma iter_loaded_row:
  assumes "r \<in> set (iter_loaded lib)"
  obtains k d where "r = row_of lib k" "get_version lib k = Some d"
proof -
  from assms obtain k where k: "k \<in> set (list_versions lib)" "r = row_of lib k" by (auto simp: iter_loaded_def)
  have "get_version lib k \<noteq> None" using k(1) unfolding get_version_None list_versions_keys(1) by blast
  then show thesis using k(2) that by blast
qed

lemma apply_active_bit_moves:
  assumes "lib_ok lib" "r \<in> set (iter_loaded lib)" "lib_ok (lw_library w)"
  shows "lib_moves (lw_library w) (lw_library (snd (apply_active_bit top_ids approved r w)))"
proof -
  obtain k d where r: "r = row_of lib k" "get_version lib k = Some d" by (rule iter_loaded_row[OF assms(2)])
  obtain b where b: "wanted_status top_ids approved (row_of lib k) = with_bit b (loaded_status lib k)" by (rule wanted_status_bit[OF assms(1) r(2)])
  let ?s = "with_bit b (loaded_status lib k)"
  have "lib_moves (lw_library w) (lw_library (snd (if ?s = loaded_status lib k then (Inr (), w) else on_library (write_status None ?s) w)))"
  proof (cases "?s = loaded_status lib k")
    case False
    then have "ss_lifecycle ?s = LcApproved" by (auto simp: with_bit_def split: if_splits)
    then have "lib_moves (lw_library w) (lw_library (snd (on_library (write_status None ?s) w)))"
      by (intro on_library_moves write_status_moves) simp_all
    then show ?thesis using False by simp
  qed simp
  then show ?thesis unfolding apply_active_bit_def r(1) b Let_def by (intro world_last[OF assms(3)]) simp_all
qed

lemma refresh_row_moves:
  assumes "lib_ok (lw_library w)"
  shows "lib_moves (lw_library w) (lw_library (snd (refresh_row samples r w)))"
proof -
  obtain d s st where r: "r = (d, s, st)" by (cases r)
  have "lib_moves (lw_library w) (lw_library (snd (and_then (if x = st then (Inr (), w) else on_library (write_stats x) w) (\<lambda>_ w1. (Inr [(d, s, x)], w1)))))" for x
    by (rule world_last[OF assms]) (simp_all add: on_stats_moves)
  then show ?thesis by (simp add: refresh_row_def r Let_def split: prod.splits sum.splits)
qed

lemma pool_for_class_moves:
  assumes "lib_ok (lw_library w)"
  shows "lib_moves (lw_library w) (lw_library (snd (pool_for_class b tc rows w)))"
proof (cases b)
  case True
  let ?app = "filter (\<lambda>(d, s, st). ss_lifecycle s = LcApproved) rows"
  have step: "lib_moves (lw_library w1) (lw_library (snd (and_then (for_each (refresh_row (contribution_samples_bulk (lw_evals w1) tc None)) ?app w1) (\<lambda>refreshed w2.
      let pool = filter (\<lambda>(d, s, st). contribution_estimate (st_contribution st) \<noteq> None \<and> row_eligible (d, s, st)) refreshed
      in (Inr (refreshed, if pool = [] then filter row_eligible refreshed else pool), w2)))))" if "lib_ok (lw_library w1)" for w1
    by (rule world_last[OF that]) (rule world_for_each[OF that refresh_row_moves], simp_all add: Let_def)
  show ?thesis unfolding pool_for_class_def Let_def using True
    by (simp only: not_True_eq_False if_False) (rule world_and_then[OF assms refresh_ablation_moves], rule step[unfolded Let_def])
qed (simp add: pool_for_class_def)

lemma recompute_active_set_moves:
  assumes "lib_ok (lw_library w)"
  shows "lib_moves (lw_library w) (lw_library (snd (recompute_active_set cfg b w)))"
proof -
  let ?rows = "iter_loaded (lw_library w)"
  have cls: "lib_moves (lw_library w1) (lw_library (snd (recompute_class cfg b ?rows tc w1)))" if ok: "lib_ok (lw_library w1)" for tc w1
    unfolding recompute_class_def
  proof (rule world_and_then[OF ok pool_for_class_moves[OF ok]], clarify)
    fix approved pool and w2 :: lifecycle_world assume ok2: "lib_ok (lw_library w2)"
    show "lib_moves (lw_library w2) (lw_library (snd (for_each (apply_active_bit (top_of_pool cfg pool) approved) (rows_of_class tc ?rows) w2)))"
    proof (rule world_for_each[OF ok2])
      fix r and w3 :: lifecycle_world assume "r \<in> set (rows_of_class tc ?rows)" "lib_ok (lw_library w3)"
      then show "lib_moves (lw_library w3) (lw_library (snd (apply_active_bit (top_of_pool cfg pool) approved r w3)))"
        by (intro apply_active_bit_moves[OF assms]) (simp_all add: rows_of_class_def)
    qed
  qed
  show ?thesis unfolding recompute_active_set_def Let_def
    by (rule world_last[OF assms]) (rule world_for_each[OF assms cls], simp_all)
qed

subsection \<open>Properties\<close>

definition active_in_class :: "library \<Rightarrow> string \<Rightarrow> vkey set" where
  "active_in_class lib tc = {k. \<exists>d s. get_version lib k = Some d \<and> sd_task_class d = tc \<and> lb_status lib k = Some s \<and> ss_active s}"

text \<open>
  C24. The capacity of the caller-visible set: on a consistent library the recomputation always succeeds; afterwards no
  task class has more active versions than the cap, every active version is approved, and no lifecycle has
  changed.\<close>

theorem active_cap_respected:
  assumes "lib_ok (lw_library w)" "stats_keyed (lw_library w)"
  shows "\<exists>out w'. recompute_active_set cfg with_evals w = (Inr out, w') \<and>
     (\<forall>tc. card (active_in_class (lw_library w') tc) \<le> nat (au_active_cap_per_task_class cfg)) \<and>
     lib_ok (lw_library w') \<and>
     map_option ss_lifecycle \<circ> lb_status (lw_library w') = map_option ss_lifecycle \<circ> lb_status (lw_library w)"
proof -
  let ?lib = "lw_library w" and ?tcs = "classes_of (iter_loaded (lw_library w))"
  have "distinct ?tcs" by (simp add: classes_of_def dedup_def)
  moreover have "\<forall>tc \<in> set ?tcs. \<forall>k \<in> set (class_keys ?lib tc). lb_status ?lib k = lb_status ?lib k" by simp
  ultimately obtain us w' bit top where r:
    "for_each (recompute_class cfg with_evals (iter_loaded ?lib)) ?tcs w = (Inr us, w')" "lb_docs (lw_library w') = lb_docs ?lib"
    "lb_status (lw_library w') = (\<lambda>k. if \<exists>tc \<in> set ?tcs. k \<in> set (class_keys ?lib tc) then map_option (with_bit (bit k)) (lb_status ?lib k) else lb_status ?lib k)"
    "\<forall>tc \<in> set ?tcs. {k \<in> set (class_keys ?lib tc). bit k} \<subseteq> set (top tc) \<and> length (top tc) \<le> nat (au_active_cap_per_task_class cfg)"
    using recompute_classes_ok[OF assms, of ?tcs w cfg with_evals] by blast
  have cls: "tc \<in> set ?tcs" if "k \<in> set (class_keys ?lib tc)" for k tc
    using that by (auto simp: classes_of_def dedup_def class_keys_def iter_loaded_def)
  have docs: "get_version (lw_library w') = get_version ?lib" by (rule get_version_cong[OF r(2)])
  have cap: "card (active_in_class (lw_library w') tc) \<le> nat (au_active_cap_per_task_class cfg)" for tc
  proof (cases "active_in_class (lw_library w') tc = {}")
    case False
    have sub: "active_in_class (lw_library w') tc \<subseteq> {k \<in> set (class_keys ?lib tc). bit k}"
    proof
      fix k assume "k \<in> active_in_class (lw_library w') tc"
      then obtain d s where k: "get_version ?lib k = Some d" "sd_task_class d = tc" "lb_status (lw_library w') k = Some s" "ss_active s"
        unfolding active_in_class_def docs by blast
      then have kt: "k \<in> set (class_keys ?lib tc)" by (simp add: class_keys_iff)
      then have "\<exists>tc \<in> set ?tcs. k \<in> set (class_keys ?lib tc)" using cls by blast
      then obtain s0 where s0: "lb_status ?lib k = Some s0" "s = with_bit (bit k) s0" using k(3) r(3) by auto
      have "bit k" using k(4) s0(2) lib_okD(3)[OF assms(1) s0(1)] by (auto simp: with_bit_def split: if_splits)
      then show "k \<in> {k \<in> set (class_keys ?lib tc). bit k}" using kt by simp
    qed
    then have "tc \<in> set ?tcs" using False cls by blast
    then have "active_in_class (lw_library w') tc \<subseteq> set (top tc)" "length (top tc) \<le> nat (au_active_cap_per_task_class cfg)"
      using sub r(4) by blast+
    then show ?thesis using card_mono[OF finite_set, of "active_in_class (lw_library w') tc" "top tc"] card_length[of "top tc"] by linarith
  qed simp
  have lc: "map_option ss_lifecycle (map_option (with_bit b) x) = map_option ss_lifecycle x" for b x
    by (cases x) (simp_all add: with_bit_def)
  have life: "map_option ss_lifecycle \<circ> lb_status (lw_library w') = map_option ss_lifecycle \<circ> lb_status ?lib"
    by (rule ext) (simp add: r(3) lc)
  have ok: "lib_ok (lw_library w')"
    unfolding lib_ok_def docs
  proof (intro conjI allI impI)
    show "distinct (map doc_key (lb_docs (lw_library w')))" using assms(1) r(2) by (simp add: lib_ok_def)
    fix k s assume "lb_status (lw_library w') k = Some s"
    then obtain s0 where s0: "lb_status ?lib k = Some s0" "s = with_bit (bit k) s0 \<or> s = s0" 
      unfolding r(3) by (cases "\<exists>tc \<in> set ?tcs. k \<in> set (class_keys ?lib tc)"; cases "lb_status ?lib k") simp_all
    note ok = lib_okD[OF assms(1) s0(1)]
    show "status_key s = k" "get_version ?lib k \<noteq> None" using ok(1,2) s0(2) by (auto simp: with_bit_def)
    show "ss_active s \<Longrightarrow> ss_lifecycle s = LcApproved" using ok(3) s0(2) by (auto simp: with_bit_def split: if_splits)
  qed
  have "recompute_active_set cfg with_evals w = (Inr (us, map (\<lambda>tc. (tc, cap_pressure cfg (iter_loaded ?lib) tc)) ?tcs), w')"
    using r(1) by (simp add: recompute_active_set_def Let_def and_then_def)
  with cap ok life show ?thesis by blast
qed

lemma concat_filter_classes:
  "distinct cs \<Longrightarrow> (\<And>c x. c \<in> set cs \<Longrightarrow> x \<in> set (f c) \<Longrightarrow> cls x = c) \<Longrightarrow>
   filter (\<lambda>x. cls x = c0) (concat (map f cs)) = (if c0 \<in> set cs then f c0 else [])"
proof (induction cs)
  case (Cons c cs)
  have here: "filter (\<lambda>x. cls x = c0) (f c) = (if c = c0 then f c else [])"
    using Cons.prems(2)[of c] by (auto simp: filter_empty_conv filter_id_conv)
  have "filter (\<lambda>x. cls x = c0) (concat (map f cs)) = (if c0 \<in> set cs then f c0 else [])"
    by (rule Cons.IH) (use Cons.prems in auto)
  with here Cons.prems(1) show ?case by auto
qed simp

lemma set_py_slice: "x \<in> set (py_slice n xs) \<Longrightarrow> x \<in> set xs"
  by (auto simp: py_slice_def dest: in_set_takeD split: if_splits)

text \<open>
  Shadow slots stay offline: each slot is for a stored version that is benched, or approved and not active, so no
  caller-visible version is ever assigned one, and a task class gets at most the configured number.\<close>

theorem shadow_slots_offline:
  assumes "0 \<le> au_shadow_slots_per_task_class cfg"
  shows "(\<forall>slot \<in> set (select_shadow_slots cfg lib).
       let s = loaded_status lib (sl_skill_id slot, sl_version slot)
       in get_version lib (sl_skill_id slot, sl_version slot) \<noteq> None \<and>
          (ss_lifecycle s = LcBenched \<or> (ss_lifecycle s = LcApproved \<and> \<not> ss_active s))) \<and>
     (\<forall>tc. int (length (filter (\<lambda>slot. sl_task_class slot = tc) (select_shadow_slots cfg lib))) \<le> au_shadow_slots_per_task_class cfg)"
proof -
  let ?rows = "filter wants_shadow (iter_loaded lib)"
  let ?f = "\<lambda>tc. map slot_of (py_slice (au_shadow_slots_per_task_class cfg) (sort_key shadow_key (rows_of_class tc ?rows)))"
  have slots: "select_shadow_slots cfg lib = concat (map ?f (classes_of ?rows))" by (simp add: select_shadow_slots_def Let_def)
  have from_row: "\<exists>r \<in> set (rows_of_class tc ?rows). slot = slot_of r" if "slot \<in> set (?f tc)" for slot tc
    using that by (auto dest!: set_py_slice)
  have cls: "sl_task_class slot = tc" if "slot \<in> set (?f tc)" for slot tc
    using from_row[OF that] by (auto simp: rows_of_class_def slot_of_def)
  have "filter (\<lambda>slot. sl_task_class slot = tc) (select_shadow_slots cfg lib) = (if tc \<in> set (classes_of ?rows) then ?f tc else [])" for tc
    unfolding slots by (rule concat_filter_classes) (simp add: classes_of_def dedup_def, rule cls)
  then have len: "int (length (filter (\<lambda>slot. sl_task_class slot = tc) (select_shadow_slots cfg lib))) \<le> au_shadow_slots_per_task_class cfg" for tc
    using assms by (auto simp: py_slice_def)
  have "let s = loaded_status lib (sl_skill_id slot, sl_version slot)
       in get_version lib (sl_skill_id slot, sl_version slot) \<noteq> None \<and> (ss_lifecycle s = LcBenched \<or> (ss_lifecycle s = LcApproved \<and> \<not> ss_active s))"
    if slot: "slot \<in> set (select_shadow_slots cfg lib)" for slot
  proof -
    obtain tc where "slot \<in> set (?f tc)" using slot unfolding slots by auto
    from from_row[OF this] obtain r where r: "r \<in> set (iter_loaded lib)" "wants_shadow r" "slot = slot_of r" by (auto simp: rows_of_class_def)
    from r(1) obtain k where k: "k \<in> set (list_versions lib)" "r = row_of lib k" by (auto simp: iter_loaded_def)
    have "get_version lib k \<noteq> None" using k(1) unfolding get_version_None list_versions_keys(1) by blast
    then obtain d where d: "get_version lib k = Some d" "doc_key d = k" using get_version_key by blast
    have "(sl_skill_id slot, sl_version slot) = k" using r(3) k(2) d by (simp add: slot_of_def)
    then show ?thesis using r(2) k(2) d(1) by (simp add: wants_shadow_def Let_def)
  qed
  with len show ?thesis by blast
qed

subsection \<open>Examples\<close>

theorem active_cap_respected_witness:
  "\<exists>out w'. recompute_active_set (DEFAULT_AUTONOMY\<lparr>au_active_cap_per_task_class := 1\<rparr>) True (quiet_world (family LcApproved)) = (Inr out, w') \<and>
     card (active_in_class (family LcApproved) ''repo-chore'') = 2 \<and> card (active_in_class (lw_library w') ''repo-chore'') \<le> 1"
proof -
  let ?w = "quiet_world (family LcApproved)"
  have lib: "lw_library ?w = family LcApproved" by (simp add: quiet_world_def)
  have "stats_keyed (family LcApproved)" by (simp add: stats_keyed_def family_def composed_library_def empty_library_def)
  with active_cap_respected[of ?w "DEFAULT_AUTONOMY\<lparr>au_active_cap_per_task_class := 1\<rparr>" True] family_ok[of LcApproved]
  obtain out w' where "recompute_active_set (DEFAULT_AUTONOMY\<lparr>au_active_cap_per_task_class := 1\<rparr>) True ?w = (Inr out, w')"
    "card (active_in_class (lw_library w') ''repo-chore'') \<le> 1" unfolding lib by auto
  moreover have "active_in_class (family LcApproved) ''repo-chore'' = {(''a'', 1), (''b'', 1)}"
  proof (intro set_eqI iffI)
    fix k assume "k \<in> active_in_class (family LcApproved) ''repo-chore''"
    then have "lb_status (family LcApproved) k \<noteq> None" by (auto simp: active_in_class_def)
    then show "k \<in> {(''a'', 1), (''b'', 1)}" by (auto simp: family_def split: if_splits)
  next
    fix k :: vkey assume "k \<in> {(''a'', 1), (''b'', 1)}"
    then show "k \<in> active_in_class (family LcApproved) ''repo-chore''"
      by (auto simp: active_in_class_def get_version_def family_docs example_doc_def) (simp_all add: family_def)
  qed
  ultimately show ?thesis by (intro exI[of _ out] exI[of _ w']) simp
qed

theorem shadow_slots_offline_witness:
  "int (length (filter (\<lambda>slot. sl_task_class slot = ''repo-chore'') (select_shadow_slots DEFAULT_AUTONOMY (family LcBenched)))) \<le> 3"
  using shadow_slots_offline[of DEFAULT_AUTONOMY "family LcBenched"] by (simp add: DEFAULT_AUTONOMY_def)

end
