(* ===== verification/Skill_Promotion.thy ===== *)
theory Skill_Promotion
  imports Active_Set
begin

section \<open>Promotion through the golden gate\<close>

text \<open>
  \<open>promote_to_approved\<close> of \<open>review/promotion.py\<close>, the only writer of an approved lifecycle, and the library as a
  whole: authoring, lifecycle transitions and promotions that interleave. A promotion is split where the code
  releases control: the check reads the library, runs the gate and writes its log; the commit reads the status again
  and writes. What lies outside the library (the gate that runs the fixtures, the audit sink, the file system with
  the fixture directories) is collected in the record \<open>promotion_env\<close>.
\<close>

datatype refusal_kind = RefGoldenGate | RefPredecessor | RefGateError

datatype promotion_error =
    AuditUnavailable | NotEligible "lint_code list" | InapplicableSkill "applicability_reason list"
  | GateRefused refusal_kind nat string | ProfileViolations "lint_code list" | LifecycleMoved lifecycle | NoSuchVersion

record golden_result =
  gr_path :: string
  gr_skill_id :: skill_id
  gr_passed :: bool

definition all_passed :: "golden_result list \<Rightarrow> bool" where
  "all_passed rs \<longleftrightarrow> rs \<noteq> [] \<and> (\<forall>r \<in> set rs. gr_passed r)"

datatype promotion_log = RefusalLog refusal_kind nat string | ReportLog "golden_result list"

record audit_entry =
  ae_key :: vkey
  ae_kind :: refusal_kind
  ae_failing :: "string list"
  ae_results :: "golden_result list"

record promotion_env =
  pe_sha :: "skill_doc \<Rightarrow> string"
  pe_digest :: digest
  pe_applicability :: gate_env
  pe_exists :: "string \<Rightarrow> bool"
  pe_resolve :: "string \<Rightarrow> string"
  pe_fixture_dirs :: "skill_doc \<Rightarrow> skill_doc \<Rightarrow> string list"
  pe_ref_log :: "string \<Rightarrow> golden_result list option"
  pe_gate :: "skill_doc \<Rightarrow> string list \<Rightarrow> (unit, golden_result list) result"
  pe_sink :: "(audit_entry \<Rightarrow> string option) option"
  pe_log_ref :: "vkey \<Rightarrow> string"
  pe_model :: string
  pe_fingerprint :: "(string \<times> string) list"
  pe_now :: instant

record promotion_world =
  pw_library :: library
  pw_logs :: "vkey \<Rightarrow> promotion_log option"
  pw_audit :: "(string \<times> audit_entry) list"

subsection \<open>The predecessor and its fixtures\<close>

text \<open>\<open>Path.name\<close>: the last component that is neither empty nor a single dot.\<close>

fun split_slash :: "string \<Rightarrow> string list" where
  "split_slash [] = [[]]"
| "split_slash (c # s) =
     (if c = CHR ''/'' then [] # split_slash s
      else case split_slash s of [] \<Rightarrow> [[c]] | p # ps \<Rightarrow> (c # p) # ps)"

definition path_name :: "string \<Rightarrow> string" where
  "path_name p = (case rev (filter (\<lambda>x. x \<notin> {[], ''.''}) (split_slash p)) of [] \<Rightarrow> [] | x # _ \<Rightarrow> x)"

definition name_or :: "string \<Rightarrow> string \<Rightarrow> string" where
  "name_or p q = (if path_name p = [] then q else path_name p)"

definition predecessor_version :: "library \<Rightarrow> skill_doc \<Rightarrow> skill_doc option" where
  "predecessor_version lib d =
     (case sd_supersedes d of
        Some v \<Rightarrow> get_version lib (sd_skill_id d, v)
      | None \<Rightarrow>
          (let prior = map snd (filter (\<lambda>k. fst k = sd_skill_id d \<and> snd k < sd_version d \<and>
                         (case get_status lib k of None \<Rightarrow> False | Some s \<Rightarrow> ss_lifecycle s = LcApproved)) (list_versions lib))
           in if prior = [] then None else get_version lib (sd_skill_id d, Max (set prior))))"

definition passed_paths :: "golden_result list \<Rightarrow> string list" where
  "passed_paths rs = map gr_path (filter (\<lambda>r. gr_passed r \<and> gr_path r \<noteq> []) rs)"

text \<open>The first log that can be read decides; a refusal log has no result rows.\<close>

definition passed_dirs_from_log :: "promotion_env \<Rightarrow> promotion_world \<Rightarrow> string option \<Rightarrow> vkey \<Rightarrow> string list" where
  "passed_dirs_from_log env w golden_set_ref k =
     (case pw_logs w k of
        Some (ReportLog rs) \<Rightarrow> passed_paths rs
      | Some (RefusalLog _ _ _) \<Rightarrow> []
      | None \<Rightarrow>
          (if golden_set_ref \<in> {None, Some []} then []
           else case pe_ref_log env (the golden_set_ref) of None \<Rightarrow> [] | Some rs \<Rightarrow> passed_paths rs))"

definition canonical :: "promotion_env \<Rightarrow> string \<Rightarrow> string" where
  "canonical env p = (if pe_exists env p then pe_resolve env p else p)"

fun dedup_on :: "('a \<Rightarrow> 'b) \<Rightarrow> 'b list \<Rightarrow> 'a list \<Rightarrow> 'a list" where
  "dedup_on f seen [] = []"
| "dedup_on f seen (x # xs) = (if f x \<in> set seen then dedup_on f seen xs else x # dedup_on f (f x # seen) xs)"

definition predecessor_golden_dirs :: "promotion_env \<Rightarrow> promotion_world \<Rightarrow> skill_doc \<Rightarrow> string list" where
  "predecessor_golden_dirs env w d =
     (case predecessor_version (pw_library w) d of
        None \<Rightarrow> []
      | Some pred \<Rightarrow>
          dedup_on (canonical env) []
            ((case get_status (pw_library w) (doc_key pred) of
                None \<Rightarrow> []
              | Some s \<Rightarrow> passed_dirs_from_log env w (ce_golden_set_ref (ss_certification s)) (doc_key pred)) @
             pe_fixture_dirs env d pred))"

definition matched_result :: "promotion_env \<Rightarrow> golden_result list \<Rightarrow> string \<Rightarrow> golden_result option" where
  "matched_result env rs dir =
     List.find (\<lambda>r. gr_path r \<noteq> [] \<and> pe_resolve env (gr_path r) = canonical env dir) (rev rs)"

definition predecessor_regressions :: "promotion_env \<Rightarrow> string list \<Rightarrow> golden_result list \<Rightarrow> string list" where
  "predecessor_regressions env dirs rs =
     map (\<lambda>dir. name_or dir dir)
       (filter (\<lambda>dir. case matched_result env rs dir of None \<Rightarrow> True | Some r \<Rightarrow> \<not> gr_passed r) dirs)"

subsection \<open>Refusals\<close>

text \<open>\<open>_record_refusal\<close> and the decision-only log; without a reference nothing is logged.\<close>

definition refuse :: "promotion_env \<Rightarrow> vkey \<Rightarrow> refusal_kind \<Rightarrow> string list \<Rightarrow> golden_result list \<Rightarrow> promotion_world \<Rightarrow>
    promotion_error \<times> promotion_world" where
  "refuse env k kind failing rs w =
     (let entry = \<lparr>ae_key = k, ae_kind = kind, ae_failing = failing, ae_results = rs\<rparr>
      in case (case pe_sink env of None \<Rightarrow> None | Some sink \<Rightarrow> sink entry) of
           None \<Rightarrow> (AuditUnavailable, w)
         | Some ref \<Rightarrow>
             if ref = [] then (AuditUnavailable, w)
             else (GateRefused kind (length failing) ref,
                   w\<lparr>pw_audit := pw_audit w @ [(ref, entry)], pw_logs := (pw_logs w)(k \<mapsto> RefusalLog kind (length failing) ref)\<rparr>))"

definition failing_fixtures :: "golden_result list \<Rightarrow> string list \<Rightarrow> string list" where
  "failing_fixtures rs regressions =
     (let failing = map (\<lambda>r. name_or (gr_path r) (gr_skill_id r)) (filter (\<lambda>r. \<not> gr_passed r) rs)
      in fold (\<lambda>name acc. if name \<in> set acc then acc else acc @ [name]) regressions failing)"

subsection \<open>Check and commit\<close>

definition approved_status :: "promotion_env \<Rightarrow> vkey \<Rightarrow> skill_status" where
  "approved_status env k =
     (new_status (fst k) (snd k) LcApproved)\<lparr>ss_certification :=
        \<lparr>ce_model_validated_on = Some (pe_model env), ce_tool_fingerprint = pe_fingerprint env, ce_golden_set_ref = Some (pe_log_ref env k),
         ce_last_recertified_at = Some (pe_now env), ce_recert_status = Fresh\<rparr>\<rparr>"

definition gate_verdict ::
    "promotion_env \<Rightarrow> vkey \<Rightarrow> skill_doc \<Rightarrow> promotion_world \<Rightarrow> (promotion_error, golden_result list) result \<times> promotion_world" where
  "gate_verdict env k d w =
     (let dirs = predecessor_golden_dirs env w d
      in case pe_gate env d dirs of
           Inl _ \<Rightarrow> (case refuse env k RefGateError [] [] w of (e, w') \<Rightarrow> (Inl e, w'))
         | Inr rs \<Rightarrow>
             (let regressions = predecessor_regressions env dirs rs
              in if \<not> all_passed rs \<or> regressions \<noteq> []
                 then (case refuse env k (if regressions \<noteq> [] then RefPredecessor else RefGoldenGate) (failing_fixtures rs regressions) rs w of
                         (e, w') \<Rightarrow> (Inl e, w'))
                 else (Inr rs, w\<lparr>pw_logs := (pw_logs w)(k \<mapsto> ReportLog rs)\<rparr>)))"

definition promote_check :: "promotion_env \<Rightarrow> vkey \<Rightarrow> promotion_world \<Rightarrow>
    (promotion_error, skill_status \<times> golden_result list) result \<times> promotion_world" where
  "promote_check env k w =
     (if pe_sink env = None then (Inl AuditUnavailable, w)
      else case (get_version (pw_library w) k, get_status (pw_library w) k) of
             (Some d, Some status) \<Rightarrow>
               (let stats = get_stats (pw_library w) k;
                    lint = (\<lambda>s. lint_skill (pe_sha env) (pe_digest env) (Some (get_version (pw_library w))) True d s (Some stats));
                    report = check_applicability (pe_applicability env) None (Some (iter_loaded (pw_library w))) d
                in if lint (status\<lparr>ss_lifecycle := LcCandidate\<rparr>) \<noteq> [] then (Inl (NotEligible (lint (status\<lparr>ss_lifecycle := LcCandidate\<rparr>))), w)
                   else if \<not> ar_ok report then (Inl (InapplicableSkill (ar_reasons report)), w)
                   else and_then (gate_verdict env k d w) (\<lambda>rs w1.
                     let approved = assign_active_on_approval (Some d) (Some stats) (approved_status env k)
                     in if lint approved \<noteq> [] then (Inl (ProfileViolations (lint approved)), w1) else (Inr (approved, rs), w1)))
           | _ \<Rightarrow> (Inl NoSuchVersion, w))"

definition BLOCKS_PROMOTION :: "lifecycle list" where
  "BLOCKS_PROMOTION = [LcQuarantined, LcBenched, LcNeedsRecert]"

definition promote_commit :: "skill_status \<Rightarrow> promotion_world \<Rightarrow> (promotion_error, skill_status) result \<times> promotion_world" where
  "promote_commit approved w =
     (case get_status (pw_library w) (status_key approved) of
        None \<Rightarrow> (Inl NoSuchVersion, w)
      | Some current \<Rightarrow>
          if ss_lifecycle current \<in> set BLOCKS_PROMOTION then (Inl (LifecycleMoved (ss_lifecycle current)), w)
          else (case write_status_unchecked approved (pw_library w) of
                  (Inl _, lib) \<Rightarrow> (Inl NoSuchVersion, w\<lparr>pw_library := lib\<rparr>)
                | (Inr _, lib) \<Rightarrow> (Inr approved, w\<lparr>pw_library := lib\<rparr>)))"

definition promote_to_approved :: "promotion_env \<Rightarrow> vkey \<Rightarrow> promotion_world \<Rightarrow> (promotion_error, skill_status) result \<times> promotion_world" where
  "promote_to_approved env k w = and_then (promote_check env k w) (\<lambda>(approved, rs) w1. promote_commit approved w1)"

subsection \<open>The library as a system\<close>



record library_system =
  sy_world :: lifecycle_world
  sy_logs :: "vkey \<Rightarrow> promotion_log option"
  sy_audit :: "(string \<times> audit_entry) list"
  sy_pending :: "skill_status list"
  sy_gated :: "(vkey \<times> golden_result list) list"

definition promotion_view :: "library_system \<Rightarrow> promotion_world" where
  "promotion_view s = \<lparr>pw_library = lw_library (sy_world s), pw_logs = sy_logs s, pw_audit = sy_audit s\<rparr>"

definition with_promotion :: "promotion_world \<Rightarrow> library_system \<Rightarrow> library_system" where
  "with_promotion p s = s\<lparr>sy_world := (sy_world s)\<lparr>lw_library := pw_library p\<rparr>, sy_logs := pw_logs p, sy_audit := pw_audit p\<rparr>"






subsection \<open>Lemmas on promotion\<close>

lemma refuse_keeps_library: "refuse env k kind f rs w = (e, w') \<Longrightarrow> pw_library w' = pw_library w"
  by (auto simp: refuse_def Let_def split: option.splits if_splits)

lemma gate_verdict_library: "gate_verdict env k d w = (r, w') \<Longrightarrow> pw_library w' = pw_library w"
  by (auto simp: gate_verdict_def Let_def dest: refuse_keeps_library split: sum.splits if_splits prod.splits)

lemma promote_check_library: "promote_check env k w = (r, w') \<Longrightarrow> pw_library w' = pw_library w"
  by (auto simp: promote_check_def and_then_def Let_def dest: gate_verdict_library split: if_splits option.splits prod.splits sum.splits)

lemma promote_check_passed:
  assumes "promote_check env k w = (Inr (st, rs), w')"
  shows "status_key st = k" "ss_lifecycle st = LcApproved" "all_passed rs"
    and "\<exists>d. get_version (pw_library w) k = Some d \<and> pe_gate env d (predecessor_golden_dirs env w d) = Inr rs \<and>
        predecessor_regressions env (predecessor_golden_dirs env w d) rs = [] \<and>
        ar_ok (check_applicability (pe_applicability env) None (Some (iter_loaded (pw_library w))) d)"
    and "pe_sink env \<noteq> None" "pw_logs w' = (pw_logs w)(k \<mapsto> ReportLog rs)"
proof -
  from assms obtain d status w1 where d: "get_version (pw_library w) k = Some d" "pe_sink env \<noteq> None"
    "ar_ok (check_applicability (pe_applicability env) None (Some (iter_loaded (pw_library w))) d)"
    "gate_verdict env k d w = (Inr rs, w1)" "w' = w1"
    and st: "st = assign_active_on_approval (Some d) (Some (get_stats (pw_library w) k)) (approved_status env k)"
    by (auto simp: promote_check_def and_then_def Let_def split: if_splits option.splits prod.splits sum.splits)
  show "status_key st = k" "ss_lifecycle st = LcApproved"
    by (simp_all add: st assign_active_on_approval_def approved_status_def new_status_def)
  from d(4) have g: "pe_gate env d (predecessor_golden_dirs env w d) = Inr rs" "all_passed rs"
    "predecessor_regressions env (predecessor_golden_dirs env w d) rs = []" "pw_logs w1 = (pw_logs w)(k \<mapsto> ReportLog rs)"
    by (auto simp: gate_verdict_def Let_def split: sum.splits if_splits prod.splits)
  then show "all_passed rs" "pw_logs w' = (pw_logs w)(k \<mapsto> ReportLog rs)" using d(5) by simp_all
  show "pe_sink env \<noteq> None" by (rule d(2))
  show "\<exists>d. get_version (pw_library w) k = Some d \<and> pe_gate env d (predecessor_golden_dirs env w d) = Inr rs \<and>
        predecessor_regressions env (predecessor_golden_dirs env w d) rs = [] \<and>
        ar_ok (check_applicability (pe_applicability env) None (Some (iter_loaded (pw_library w))) d)" using d g by blast
qed

lemma promote_commit_cases:
  assumes "promote_commit st w = (r, w')"
  obtains (kept) e where "r = Inl e" "pw_library w' = pw_library w"
  | (written) cur where "r = Inr st" "lb_status (pw_library w) (status_key st) = Some cur" "ss_lifecycle cur \<notin> set BLOCKS_PROMOTION"
      "lb_docs (pw_library w') = lb_docs (pw_library w)" "lb_status (pw_library w') = (lb_status (pw_library w))(status_key st \<mapsto> st)"
      "get_version (pw_library w) (status_key st) \<noteq> None"
  using assms
  by (auto simp: promote_commit_def get_status_def write_status_unchecked_def Let_def split: option.splits if_splits prod.splits sum.splits)

lemma no_regression_passed:
  "predecessor_regressions env dirs rs = [] \<Longrightarrow> dir \<in> set dirs \<Longrightarrow>
   \<exists>r \<in> set rs. gr_passed r \<and> pe_resolve env (gr_path r) = canonical env dir"
  by (force simp: predecessor_regressions_def matched_result_def filter_empty_conv dest: find_SomeD split: option.splits)

lemma dedup_on_covers: "x \<in> set xs \<Longrightarrow> f x \<in> set seen \<or> (\<exists>y \<in> set (dedup_on f seen xs). f y = f x)"
  by (induction f seen xs rule: dedup_on.induct) auto


subsection \<open>Invariants of the system\<close>








lemma with_promotion_library [simp]: "lw_library (sy_world (with_promotion p s)) = pw_library p"
  by (simp add: with_promotion_def)

lemma with_promotion_sel [simp]: "sy_pending (with_promotion p s) = sy_pending s" "sy_gated (with_promotion p s) = sy_gated s"
  by (simp_all add: with_promotion_def)

lemma promotion_view_library [simp]: "pw_library (promotion_view s) = lw_library (sy_world s)"
  by (simp add: promotion_view_def)





lemma refuse_effect:
  assumes "refuse env k kind failing rs w = (e, w')"
  shows "e = AuditUnavailable \<and> w' = w \<or>
     (\<exists>ref. e = GateRefused kind (length failing) ref \<and> ref \<noteq> [] \<and>
        w' = w\<lparr>pw_audit := pw_audit w @ [(ref, \<lparr>ae_key = k, ae_kind = kind, ae_failing = failing, ae_results = rs\<rparr>)],
                pw_logs := (pw_logs w)(k \<mapsto> RefusalLog kind (length failing) ref)\<rparr>)"
  using assms by (auto simp: refuse_def Let_def split: option.splits if_splits)

text \<open>What a refused check leaves behind.\<close>

definition refusal_recorded :: "vkey \<Rightarrow> promotion_error \<Rightarrow> promotion_world \<Rightarrow> promotion_world \<Rightarrow> bool" where
  "refusal_recorded k e w w' \<longleftrightarrow>
     (case e of
        GateRefused kind n ref \<Rightarrow>
          \<exists>entry. ref \<noteq> [] \<and> ae_key entry = k \<and> length (ae_failing entry) = n \<and>
            w' = w\<lparr>pw_audit := pw_audit w @ [(ref, entry)], pw_logs := (pw_logs w)(k \<mapsto> RefusalLog kind n ref)\<rparr>
      | ProfileViolations _ \<Rightarrow> pw_audit w' = pw_audit w
      | _ \<Rightarrow> w' = w)"

lemma gate_verdict_refused:
  assumes "gate_verdict env k d w = (Inl e, w')"
  shows "refusal_recorded k e w w' \<and> (e = AuditUnavailable \<or> (\<exists>kind n ref. e = GateRefused kind n ref))"
proof -
  from assms obtain kind failing rs where "refuse env k kind failing rs w = (e, w')"
    by (auto simp: gate_verdict_def Let_def split: sum.splits if_splits prod.splits)
  from refuse_effect[OF this] show ?thesis
  proof (elim disjE exE conjE)
    fix ref assume e: "e = GateRefused kind (length failing) ref" "ref \<noteq> []"
      and w': "w' = w\<lparr>pw_audit := pw_audit w @ [(ref, \<lparr>ae_key = k, ae_kind = kind, ae_failing = failing, ae_results = rs\<rparr>)],
                pw_logs := (pw_logs w)(k \<mapsto> RefusalLog kind (length failing) ref)\<rparr>"
    show ?thesis unfolding refusal_recorded_def e(1) promotion_error.case
      by (rule conjI, rule exI[of _ "\<lparr>ae_key = k, ae_kind = kind, ae_failing = failing, ae_results = rs\<rparr>"]) (simp_all add: e(2) w')
  qed (simp add: refusal_recorded_def)
qed

lemma promote_check_refused:
  assumes "promote_check env k w = (Inl e, w')"
  shows "refusal_recorded k e w w'"
proof -
  have log: "pw_audit w1 = pw_audit w" if "gate_verdict env k d w = (Inr rs, w1)" for d rs w1
    using that by (auto simp: gate_verdict_def Let_def split: sum.splits if_splits prod.splits)
  show ?thesis using assms
    by (auto simp: promote_check_def and_then_def Let_def refusal_recorded_def[of k "NotEligible _"] refusal_recorded_def[of k "InapplicableSkill _"]
        refusal_recorded_def[of k AuditUnavailable] refusal_recorded_def[of k NoSuchVersion] refusal_recorded_def[of k "ProfileViolations _"]
        dest: gate_verdict_refused log split: if_splits option.splits prod.splits sum.splits)
qed

lemma promote_check_key: "promote_check env k w = (Inr (st, rs), w') \<Longrightarrow> get_status (pw_library w') (status_key st) = get_status (pw_library w) k"
  using promote_check_passed(1) promote_check_library by metis

subsection \<open>Properties\<close>

text \<open>
  C23. Competence compounds: a version that a promotion approves has passed the golden gate, which ran at least one
  fixture and failed none, and has passed every fixture directory that the predecessor's log or the fixture tree
  names; an audit sink was present and the applicability gate agreed.\<close>

theorem promotion_never_regresses:
  assumes "promote_to_approved env k w = (Inr st, w')"
  shows "\<exists>d rs. get_version (pw_library w) k = Some d \<and> pe_gate env d (predecessor_golden_dirs env w d) = Inr rs \<and> all_passed rs \<and>
     (\<forall>dir \<in> set (predecessor_golden_dirs env w d). \<exists>r \<in> set rs. gr_passed r \<and> pe_resolve env (gr_path r) = canonical env dir) \<and>
     pe_sink env \<noteq> None \<and> ar_ok (check_applicability (pe_applicability env) None (Some (iter_loaded (pw_library w))) d) \<and>
     status_key st = k \<and> ss_lifecycle st = LcApproved \<and> lb_status (pw_library w') = (lb_status (pw_library w))(k \<mapsto> st)"
proof -
  from assms obtain st1 rs w1 where c: "promote_check env k w = (Inr (st1, rs), w1)" "promote_commit st1 w1 = (Inr st, w')"
    by (auto simp: promote_to_approved_def and_then_def split: prod.splits sum.splits)
  note p = promote_check_passed[OF c(1)]
  have "st1 = st" "lb_status (pw_library w') = (lb_status (pw_library w))(k \<mapsto> st)"
    using promote_commit_cases[OF c(2)] promote_check_library[OF c(1)] p(1) by (auto elim: promote_commit_cases[OF c(2)])
  moreover from p(4) obtain d where d: "get_version (pw_library w) k = Some d" "pe_gate env d (predecessor_golden_dirs env w d) = Inr rs"
    "predecessor_regressions env (predecessor_golden_dirs env w d) rs = []"
    "ar_ok (check_applicability (pe_applicability env) None (Some (iter_loaded (pw_library w))) d)" by blast
  ultimately show ?thesis using p(1-3,5) no_regression_passed[OF d(3)] by blast
qed

text \<open>
  Refusals fail closed and are audited: a promotion that does not approve leaves every document and status as it
  was; a refusal by the gate has stored its failing fixtures in the audit sink under the reference that the caller
  gets, with their count, and without such a reference neither log nor audit changes.\<close>

theorem refused_promotion_is_audited:
  assumes "promote_to_approved env k w = (Inl e, w')"
  shows "pw_library w' = pw_library w \<and>
     (case e of
        GateRefused kind n ref \<Rightarrow>
          ref \<noteq> [] \<and> pw_logs w' k = Some (RefusalLog kind n ref) \<and>
          (\<exists>entry. pw_audit w' = pw_audit w @ [(ref, entry)] \<and> ae_key entry = k \<and> length (ae_failing entry) = n)
      | AuditUnavailable \<Rightarrow> w' = w
      | _ \<Rightarrow> pw_audit w' = pw_audit w)"
proof (cases "promote_check env k w")
  case (Pair r w1)
  show ?thesis
  proof (cases r)
    case (Inl e1)
    then have "e1 = e" "w1 = w'" using assms Pair by (simp_all add: promote_to_approved_def and_then_def)
    with promote_check_refused[of env k w e w'] promote_check_library[OF Pair] Pair Inl show ?thesis
      by (auto simp: refusal_recorded_def split: promotion_error.splits)
  next
    case (Inr x)
    obtain st rs where x: "x = (st, rs)" by (cases x)
    then have c: "promote_commit st w1 = (Inl e, w')" using assms Pair Inr by (simp add: promote_to_approved_def and_then_def)
    then have "(\<exists>lc. e = LifecycleMoved lc) \<or> e = NoSuchVersion" "pw_library w' = pw_library w1" "pw_audit w' = pw_audit w1"
      by (auto simp: promote_commit_def write_status_unchecked_def Let_def split: option.splits if_splits prod.splits sum.splits)
    moreover have "pw_audit w1 = pw_audit w"
    proof -
      have "pw_audit w1 = pw_audit w" if "gate_verdict env k d w = (Inr rs, w1)" for d
        using that by (auto simp: gate_verdict_def Let_def split: sum.splits if_splits prod.splits)
      then show ?thesis using Pair Inr x
        by (auto simp: promote_check_def and_then_def Let_def split: if_splits option.splits prod.splits sum.splits)
    qed
    ultimately show ?thesis using promote_check_library[OF Pair] by auto
  qed
qed

text \<open>
  A version in need of recertification has no way back: as long as it is needs-recert or quarantined, every promotion
  fails without effect on the library, it cannot enter shadow, and it cannot be written as a candidate; the
  documented arc from needs-recert to approved does not exist.\<close>

theorem needs_recert_cannot_be_promoted:
  assumes "lb_status (pw_library w) k = Some cur" "ss_lifecycle cur \<in> {LcNeedsRecert, LcQuarantined}" "get_version (pw_library w) k = Some d"
  shows "(\<exists>e w'. promote_to_approved env k w = (Inl e, w') \<and> pw_library w' = pw_library w) \<and>
     (lw_library v = pw_library w \<longrightarrow> enter_shadow k v = (Inl ShadowRefused, v)) \<and>
     write_candidate sha d (pw_library w) = (Inl ApprovedLifecycle, pw_library w)"
proof (intro conjI impI)
  show "\<exists>e w'. promote_to_approved env k w = (Inl e, w') \<and> pw_library w' = pw_library w"
  proof (cases "promote_check env k w")
    case (Pair r w1)
    note lib = promote_check_library[OF Pair]
    show ?thesis
    proof (cases r)
      case (Inr x)
      obtain st rs where x: "x = (st, rs)" by (cases x)
      have "promote_commit st w1 = (Inl (LifecycleMoved (ss_lifecycle cur)), w1)"
        using promote_check_key[of env k w st rs w1] Pair Inr x assms(1,2) by (auto simp: promote_commit_def BLOCKS_PROMOTION_def get_status_def)
      then show ?thesis using Pair Inr x lib by (simp add: promote_to_approved_def and_then_def)
    qed (use Pair lib in \<open>simp add: promote_to_approved_def and_then_def\<close>)
  qed
  show "enter_shadow k v = (Inl ShadowRefused, v)" if "lw_library v = pw_library w"
    using assms(1,2) that by (auto simp: enter_shadow_def get_status_def SHADOWABLE_def)
  have "doc_key (stamp_lint_hash sha d) = k" using get_version_key[OF assms(3)] by simp
  then show "write_candidate sha d (pw_library w) = (Inl ApprovedLifecycle, pw_library w)"
    using assms by (auto simp: write_candidate_def Let_def get_status_def PROTECTED_FROM_CANDIDATE_DEMOTE_def)
qed

text \<open>
  A refused promotion erases the evidence of an earlier one: after the gate refuses a version, the log that
  successors read names no passed fixture any more, although the version keeps its status; successors of an approved
  version that failed a second promotion are no longer held to the fixtures of the first.\<close>

theorem refusal_erases_passed_fixtures:
  assumes "promote_to_approved env k w = (Inl (GateRefused kind n ref), w')"
  shows "passed_dirs_from_log env' w' golden_set_ref k = [] \<and> lb_status (pw_library w') = lb_status (pw_library w)"
proof -
  obtain r w1 where c: "promote_check env k w = (r, w1)" by fastforce
  have r: "r = Inl (GateRefused kind n ref) \<and> w1 = w'"
    using assms c by (auto simp: promote_to_approved_def and_then_def promote_commit_def write_status_unchecked_def Let_def
        split: sum.splits prod.splits option.splits if_splits)
  with promote_check_refused[of env k w "GateRefused kind n ref" w'] c promote_check_library[OF c] show ?thesis
    by (auto simp: refusal_recorded_def passed_dirs_from_log_def)
qed



subsection \<open>Examples\<close>

definition example_cert :: certification_criterion where
  "example_cert =
     \<lparr>c_id = ''tests'', c_kind = Command, c_run = Some ''pytest'', c_expect_exit = 0, c_expr = None,
      c_target = None, c_schema_ref = None, c_metric = None, c_op = None, c_threshold = None,
      c_rubric = None, c_isolation = FreshContext, c_lens = None, c_timeout_s = 300, c_weight = 1,
      c_sensitivity_proof = None, cc_authored_by = Human, cc_preregistered = True\<rparr>"

definition seed_doc :: skill_doc where
  "seed_doc = stamp_lint_hash (\<lambda>d. ''h'') ((example_doc ''a'' 1 [] ScanPassed)\<lparr>sd_certification_criteria := [example_cert]\<rparr>)"

definition promo_env :: "bool \<Rightarrow> promotion_env" where
  "promo_env passes =
     \<lparr>pe_sha = (\<lambda>d. ''h''), pe_digest = (\<lambda>x y. ''h''), pe_applicability = \<lparr>ge_tools = [], ge_hash = sf_task_class, ge_near = (\<lambda>d x. False)\<rparr>,
      pe_exists = (\<lambda>p. True), pe_resolve = id, pe_fixture_dirs = (\<lambda>d p. []), pe_ref_log = (\<lambda>r. None),
      pe_gate = (\<lambda>d dirs. Inr [\<lparr>gr_path = ''golden/a'', gr_skill_id = ''a'', gr_passed = passes\<rparr>]),
      pe_sink = Some (\<lambda>e. Some ''pa-1''), pe_log_ref = (\<lambda>k. ''evals/a.json''), pe_model = ''m'', pe_fingerprint = [], pe_now = 7\<rparr>"

definition seed_library :: "lifecycle \<Rightarrow> library" where
  "seed_library lc = empty_library\<lparr>lb_docs := [seed_doc], lb_status := [(''a'', 1) \<mapsto> new_status ''a'' 1 lc]\<rparr>"

definition seed_world :: "library \<Rightarrow> promotion_world" where
  "seed_world lib = \<lparr>pw_library = lib, pw_logs = Map.empty, pw_audit = []\<rparr>"

lemma seed_doc_sel:
  "sd_skill_id seed_doc = ''a''" "sd_version seed_doc = 1" "sd_supersedes seed_doc = None" "sd_uses seed_doc = []"
  "sd_certification_criteria seed_doc = [example_cert]" "sd_steps seed_doc = []" "sd_preconditions seed_doc = []"
  by (simp_all add: seed_doc_def stamp_lint_hash_def Let_def example_doc_def)

lemma seed_lint: "lint_skill (\<lambda>d. ''h'') dg look True seed_doc s st = []"
  by (simp add: lint_skill_def lint_report_def seed_doc_def lint_content_hash_stamp stamp_hash) (simp add: lint_content_hash_def)

lemma seed_get: "lb_docs lib = [seed_doc] \<Longrightarrow> get_version lib (''a'', 1) = Some seed_doc"
  by (simp add: get_version_def seed_doc_sel)

lemma seed_rows: "lb_docs lib = [seed_doc] \<Longrightarrow> iter_loaded lib = [(seed_doc, loaded_status lib (''a'', 1), get_stats lib (''a'', 1))]"
  by (simp add: iter_loaded_def list_versions_def seed_doc_sel seed_get)

lemma seed_applicable:
  "lb_docs lib = [seed_doc] \<Longrightarrow> ar_ok (check_applicability (pe_applicability (promo_env b)) None (Some (iter_loaded lib)) seed_doc)"
  by (simp add: seed_rows check_applicability_def ar_ok_def environment_reasons_def missing_tools_def seed_doc_sel criterion_reasons_def
      contagion_reasons_def example_cert_def Let_def List.map_filter_def)

lemma seed_dirs: "lb_docs (pw_library w) = [seed_doc] \<Longrightarrow> predecessor_golden_dirs env w seed_doc = []"
  by (simp add: predecessor_golden_dirs_def predecessor_version_def list_versions_def seed_doc_sel)

lemma seed_check:
  assumes "lb_docs (pw_library w) = [seed_doc]" "lb_status (pw_library w) (''a'', 1) = Some s0"
  shows "promote_check (promo_env True) (''a'', 1) w =
     (Inr (assign_active_on_approval (Some seed_doc) (Some (get_stats (pw_library w) (''a'', 1))) (approved_status (promo_env True) (''a'', 1)),
           [\<lparr>gr_path = ''golden/a'', gr_skill_id = ''a'', gr_passed = True\<rparr>]),
      w\<lparr>pw_logs := (pw_logs w)((''a'', 1) \<mapsto> ReportLog [\<lparr>gr_path = ''golden/a'', gr_skill_id = ''a'', gr_passed = True\<rparr>])\<rparr>)"
proof -
  have sh: "pe_sha (promo_env True) = (\<lambda>d. ''h'')" "pe_sink (promo_env True) \<noteq> None" by (simp_all add: promo_env_def)
  have gate: "gate_verdict (promo_env True) (''a'', 1) seed_doc w =
      (Inr [\<lparr>gr_path = ''golden/a'', gr_skill_id = ''a'', gr_passed = True\<rparr>],
       w\<lparr>pw_logs := (pw_logs w)((''a'', 1) \<mapsto> ReportLog [\<lparr>gr_path = ''golden/a'', gr_skill_id = ''a'', gr_passed = True\<rparr>])\<rparr>)"
    by (simp add: gate_verdict_def seed_dirs[OF assms(1)] Let_def promo_env_def all_passed_def predecessor_regressions_def)
  show ?thesis
    unfolding promote_check_def seed_get[OF assms(1)] get_status_def assms(2) prod.case option.case Let_def sh seed_lint gate
    using sh(2) seed_applicable[OF assms(1)] by (simp add: and_then_def)
qed

lemma seed_refused:
  assumes "lb_docs (pw_library w) = [seed_doc]" "lb_status (pw_library w) (''a'', 1) = Some s0"
  shows "\<exists>w'. promote_to_approved (promo_env False) (''a'', 1) w = (Inl (GateRefused RefGoldenGate 1 ''pa-1''), w')"
proof -
  have sh: "pe_sha (promo_env False) = (\<lambda>d. ''h'')" "pe_sink (promo_env False) \<noteq> None" by (simp_all add: promo_env_def)
  have gate: "\<exists>w1. gate_verdict (promo_env False) (''a'', 1) seed_doc w = (Inl (GateRefused RefGoldenGate 1 ''pa-1''), w1)"
    by (simp add: gate_verdict_def seed_dirs[OF assms(1)] Let_def promo_env_def all_passed_def predecessor_regressions_def refuse_def failing_fixtures_def)
  then obtain w1 where g: "gate_verdict (promo_env False) (''a'', 1) seed_doc w = (Inl (GateRefused RefGoldenGate 1 ''pa-1''), w1)" by blast
  have "promote_check (promo_env False) (''a'', 1) w = (Inl (GateRefused RefGoldenGate 1 ''pa-1''), w1)"
    unfolding promote_check_def seed_get[OF assms(1)] get_status_def assms(2) prod.case option.case Let_def sh seed_lint g
    using sh(2) seed_applicable[OF assms(1)] by (simp add: and_then_def)
  then show ?thesis by (simp add: promote_to_approved_def and_then_def)
qed

lemma seed_library_sel:
  "lb_docs (pw_library (seed_world (seed_library lc))) = [seed_doc]"
  "lb_status (pw_library (seed_world (seed_library lc))) (''a'', 1) = Some (new_status ''a'' 1 lc)"
  by (simp_all add: seed_library_def seed_world_def)

theorem promotion_never_regresses_witness:
  "\<exists>st w'. promote_to_approved (promo_env True) (''a'', 1) (seed_world (seed_library LcCandidate)) = (Inr st, w') \<and> ss_lifecycle st = LcApproved \<and>
     lb_status (pw_library w') (''a'', 1) = Some st"
proof -
  let ?w = "seed_world (seed_library LcCandidate)"
  obtain st w' where p: "promote_to_approved (promo_env True) (''a'', 1) ?w = (Inr st, w')"
    using seed_check[OF seed_library_sel] seed_get[OF seed_library_sel(1), of LcCandidate]
    by (simp add: promote_to_approved_def and_then_def promote_commit_def assign_active_on_approval_def approved_status_def
        new_status_def get_status_def seed_library_def seed_world_def BLOCKS_PROMOTION_def write_status_unchecked_def Let_def)
  from promotion_never_regresses[OF p] p show ?thesis by (intro exI[of _ st] exI[of _ w']) auto
qed

theorem refused_promotion_is_audited_witness:
  "\<exists>w' entry. promote_to_approved (promo_env False) (''a'', 1) (seed_world (seed_library LcCandidate)) = (Inl (GateRefused RefGoldenGate 1 ''pa-1''), w') \<and>
     pw_library w' = seed_library LcCandidate \<and> pw_audit w' = [(''pa-1'', entry)] \<and> length (ae_failing entry) = 1"
proof -
  let ?w = "seed_world (seed_library LcCandidate)"
  obtain w' where p: "promote_to_approved (promo_env False) (''a'', 1) ?w = (Inl (GateRefused RefGoldenGate 1 ''pa-1''), w')"
    using seed_refused[OF seed_library_sel] by blast
  from refused_promotion_is_audited[OF p] obtain entry where
    "pw_library w' = pw_library ?w" "pw_audit w' = pw_audit ?w @ [(''pa-1'', entry)]" "length (ae_failing entry) = 1" by auto
  with p show ?thesis by (intro exI[of _ w'] exI[of _ entry]) (simp add: seed_world_def)
qed

theorem refusal_erases_passed_fixtures_witness:
  "\<exists>w'. promote_to_approved (promo_env False) (''a'', 1)
       ((seed_world (seed_library LcApproved))\<lparr>pw_logs := [(''a'', 1) \<mapsto> ReportLog [\<lparr>gr_path = ''golden/a'', gr_skill_id = ''a'', gr_passed = True\<rparr>]]\<rparr>) =
       (Inl (GateRefused RefGoldenGate 1 ''pa-1''), w') \<and>
     passed_dirs_from_log (promo_env True) w' None (''a'', 1) = [] \<and>
     map_option ss_lifecycle (lb_status (pw_library w') (''a'', 1)) = Some LcApproved"
proof -
  let ?w = "(seed_world (seed_library LcApproved))\<lparr>pw_logs := [(''a'', 1) \<mapsto> ReportLog [\<lparr>gr_path = ''golden/a'', gr_skill_id = ''a'', gr_passed = True\<rparr>]]\<rparr>"
  have "lb_docs (pw_library ?w) = [seed_doc]" "lb_status (pw_library ?w) (''a'', 1) = Some (new_status ''a'' 1 LcApproved)"
    using seed_library_sel[of LcApproved] by simp_all
  note sel = this
  obtain w' where p: "promote_to_approved (promo_env False) (''a'', 1) ?w = (Inl (GateRefused RefGoldenGate 1 ''pa-1''), w')"
    using seed_refused[OF sel] by blast
  from refusal_erases_passed_fixtures[OF p, of "promo_env True" None] p sel(2) show ?thesis
    by (intro exI[of _ w']) (simp add: new_status_def)
qed

theorem needs_recert_cannot_be_promoted_witness:
  "(\<exists>e w'. promote_to_approved (promo_env True) (''a'', 1) (seed_world (seed_library LcNeedsRecert)) = (Inl e, w')) \<and>
   enter_shadow (''a'', 1) (quiet_world (seed_library LcNeedsRecert)) = (Inl ShadowRefused, quiet_world (seed_library LcNeedsRecert))"
  using needs_recert_cannot_be_promoted[OF seed_library_sel(2)[of LcNeedsRecert] _ seed_get[OF seed_library_sel(1)],
      of "promo_env True" "quiet_world (seed_library LcNeedsRecert)" "\<lambda>d. ''h''"]
  by (auto simp: new_status_def quiet_world_def seed_world_def)







end
