(* ===== verification/Job_Quota.thy ===== *)
theory Job_Quota
  imports Recertia_Prelude
begin

section \<open>Weekly quotas of the improvement jobs\<close>

text \<open>
  \<open>contracts/policy.py\<close> (JobQuota), \<open>src/recertia/policy_load.py\<close> (the JSON sidecar), \<open>src/recertia/jobs/quota_repo.py\<close>
  (the two tables of job_quota.sqlite) and \<open>src/recertia/jobs/__init__.py\<close> (JobRunner) with the enablement predicate of
  \<open>jobs/enablement.py\<close>. Every statement of the repository selects the rows of one tenant, so the state is that tenant's
  slice: a week table by week id and a ledger of reservations in insertion order. Each method is one BEGIN IMMEDIATE
  transaction and is a function on the state; ROLLBACK gives the state back. The class maps are written by
  \<open>json.dumps\<close> only and are maps here. Shares are reals. Operations take the week id where the
  code takes the instant that \<open>iso_week_id\<close> turns into it.\<close>

subsection \<open>Priorities and the quota contract\<close>

datatype job_priority = Recertifier | CuratorRetire | FailClusterAuthor | PracticeBand | PracticeHex | Compress

definition JOB_PRIORITY_ORDER :: "(string \<times> job_priority) list" where
  "JOB_PRIORITY_ORDER =
     [(''recertifier'', Recertifier), (''curator_retire'', CuratorRetire), (''fail_cluster_author'', FailClusterAuthor),
      (''practice_band'', PracticeBand), (''practice_hex'', PracticeHex), (''compress'', Compress)]"

definition JOB_NAME_TO_PRIORITY :: "(string \<times> job_priority) list" where
  "JOB_NAME_TO_PRIORITY =
     [(''recertify'', Recertifier), (''recertifier'', Recertifier), (''curator'', CuratorRetire), (''curate'', CuratorRetire),
      (''curator_retire'', CuratorRetire), (''fail_cluster'', FailClusterAuthor), (''fail_cluster_author'', FailClusterAuthor),
      (''practice'', PracticeBand), (''practice_band'', PracticeBand), (''practice_hex'', PracticeHex), (''hex'', PracticeHex),
      (''compress'', Compress), (''mine'', CuratorRetire), (''miner'', CuratorRetire), (''trading'', CuratorRetire),
      (''trading_propose'', CuratorRetire)]"

definition resolve_job_priority :: "string \<Rightarrow> job_priority option" where
  "resolve_job_priority job =
     (case map_of JOB_PRIORITY_ORDER job of Some p \<Rightarrow> Some p | None \<Rightarrow> map_of JOB_NAME_TO_PRIORITY job)"

definition COMPUTER_USE_TASK_CLASSES :: "string list" where
  "COMPUTER_USE_TASK_CLASSES = [''bug_reproduction'', ''playtest_operator'', ''docs_auditor'']"

type_synonym class_counts = "string \<Rightarrow> int option"

record job_quota =
  jq_weekly_token_cap :: int
  jq_hex_share :: real
  jq_max_hex_jobs_per_task_class :: int
  jq_max_status_writes_per_tick :: int
  jq_max_compress_candidates_per_tick :: int
  jq_computer_use_practice_share :: real
  jq_tokens_spent :: int
  jq_hex_tokens_spent :: int
  jq_computer_use_tokens_spent :: int
  jq_hex_jobs_by_class :: class_counts

definition quota_ok :: "job_quota \<Rightarrow> bool" where
  "quota_ok q \<longleftrightarrow>
     0 \<le> jq_weekly_token_cap q \<and> 0 \<le> jq_hex_share q \<and> jq_hex_share q \<le> 1 \<and> 0 \<le> jq_max_hex_jobs_per_task_class q \<and>
     1 \<le> jq_max_status_writes_per_tick q \<and> 0 \<le> jq_max_compress_candidates_per_tick q \<and>
     0 \<le> jq_computer_use_practice_share q \<and> jq_computer_use_practice_share q \<le> 1 \<and>
     0 \<le> jq_tokens_spent q \<and> 0 \<le> jq_hex_tokens_spent q \<and> 0 \<le> jq_computer_use_tokens_spent q"

text \<open>\<open>get0 m c\<close> is \<open>m.get(c, 0)\<close>; \<open>py_int\<close> is \<open>int\<close> on a float.\<close>

definition get0 :: "class_counts \<Rightarrow> string \<Rightarrow> int" where
  "get0 m c = (case m c of None \<Rightarrow> 0 | Some v \<Rightarrow> v)"

definition py_int :: "real \<Rightarrow> int" where
  "py_int x = (if x < 0 then \<lceil>x\<rceil> else \<lfloor>x\<rfloor>)"

definition remaining :: "job_quota \<Rightarrow> int" where
  "remaining q = max 0 (jq_weekly_token_cap q - jq_tokens_spent q)"

definition share_cap :: "job_quota \<Rightarrow> real \<Rightarrow> int" where
  "share_cap q share = py_int (of_int (jq_weekly_token_cap q) * share)"

definition share_remaining :: "job_quota \<Rightarrow> int \<Rightarrow> real \<Rightarrow> int" where
  "share_remaining q spent share = max 0 (min (share_cap q share - spent) (remaining q))"

definition hex_remaining :: "job_quota \<Rightarrow> int" where
  "hex_remaining q = share_remaining q (jq_hex_tokens_spent q) (jq_hex_share q)"

definition computer_use_remaining :: "job_quota \<Rightarrow> int" where
  "computer_use_remaining q = share_remaining q (jq_computer_use_tokens_spent q) (jq_computer_use_practice_share q)"

definition computer_use_class :: "string option \<Rightarrow> bool" where
  "computer_use_class tc = (case tc of None \<Rightarrow> False | Some c \<Rightarrow> c \<in> set COMPUTER_USE_TASK_CLASSES)"

definition can_admit :: "job_quota \<Rightarrow> job_priority \<Rightarrow> string option \<Rightarrow> int \<Rightarrow> bool" where
  "can_admit q job tc tokens =
     (if remaining q \<le> 0 then False
      else if computer_use_class tc \<and> job \<in> {PracticeBand, PracticeHex} \<and>
              (computer_use_remaining q \<le> 0 \<or> computer_use_remaining q < tokens) then False
      else if job \<in> {Recertifier, CuratorRetire, FailClusterAuthor, PracticeBand} then tokens \<le> remaining q
      else if job = PracticeHex then
        (if (case tc of None \<Rightarrow> False | Some c \<Rightarrow> jq_max_hex_jobs_per_task_class q \<le> get0 (jq_hex_jobs_by_class q) c) then False
         else 0 < hex_remaining q \<and> tokens \<le> hex_remaining q)
      else tokens \<le> remaining q)"

definition charge_quota :: "job_quota \<Rightarrow> job_priority \<Rightarrow> int \<Rightarrow> string option \<Rightarrow> job_quota" where
  "charge_quota q job tokens tc =
     q\<lparr>jq_tokens_spent := jq_tokens_spent q + tokens,
       jq_hex_tokens_spent := (if job = PracticeHex then jq_hex_tokens_spent q + tokens else jq_hex_tokens_spent q),
       jq_computer_use_tokens_spent :=
         (if computer_use_class tc \<and> job \<in> {PracticeBand, PracticeHex} then jq_computer_use_tokens_spent q + tokens
          else jq_computer_use_tokens_spent q),
       jq_hex_jobs_by_class :=
         (case tc of
            Some c \<Rightarrow> if job = PracticeHex then (jq_hex_jobs_by_class q)(c \<mapsto> get0 (jq_hex_jobs_by_class q) c + 1)
                      else jq_hex_jobs_by_class q
          | None \<Rightarrow> jq_hex_jobs_by_class q)\<rparr>"

subsection \<open>The JSON sidecar\<close>

text \<open>\<open>sf_values\<close> is None when a value of the object is not of the right type; that is noticed only in the file's own week.\<close>

record sidecar_data =
  sf_week :: string
  sf_values :: "(int \<times> int \<times> int \<times> class_counts) option"

datatype sidecar_file = NoFile | CorruptFile | EmptyObject | SidecarData sidecar_data

datatype quota_error = QuotaExceeded | NegativeTokens | SidecarCorrupt | DuplicateReservation

definition with_spent :: "job_quota \<Rightarrow> int \<times> int \<times> int \<times> class_counts \<Rightarrow> job_quota" where
  "with_spent q v =
     (case v of (t, h, c, m) \<Rightarrow>
        q\<lparr>jq_tokens_spent := t, jq_hex_tokens_spent := h, jq_computer_use_tokens_spent := c, jq_hex_jobs_by_class := m\<rparr>)"

definition sidecar_merge :: "sidecar_file \<Rightarrow> job_quota \<Rightarrow> string \<Rightarrow> (quota_error, job_quota) result" where
  "sidecar_merge f base week =
     (case f of
        CorruptFile \<Rightarrow> Inl SidecarCorrupt
      | SidecarData d \<Rightarrow>
          if sf_week d \<noteq> week then Inr (with_spent base (0, 0, 0, Map.empty))
          else (case sf_values d of None \<Rightarrow> Inl SidecarCorrupt | Some v \<Rightarrow> Inr (with_spent base v))
      | _ \<Rightarrow> Inr (with_spent base (0, 0, 0, Map.empty)))"

definition sidecar_save :: "job_quota \<Rightarrow> string \<Rightarrow> sidecar_file" where
  "sidecar_save q week =
     SidecarData \<lparr>sf_week = week,
       sf_values = Some (jq_tokens_spent q, jq_hex_tokens_spent q, jq_computer_use_tokens_spent q, jq_hex_jobs_by_class q)\<rparr>"

subsection \<open>The tables\<close>

record week_row =
  wk_tokens_spent :: int
  wk_tokens_reserved :: int
  wk_hex_tokens_spent :: int
  wk_hex_tokens_reserved :: int
  wk_computer_use_tokens_spent :: int
  wk_computer_use_tokens_reserved :: int
  wk_hex_jobs_by_class :: class_counts
  wk_hex_jobs_reserved :: class_counts

datatype reservation_status = Reserved | Settled | Released

record quota_row =
  qr_id :: string
  qr_week :: string
  qr_job :: string
  qr_priority :: job_priority
  qr_tokens :: int
  qr_tokens_settled :: "int option"
  qr_computer_use_tokens :: int
  qr_hex_tokens :: int
  qr_task_class :: "string option"
  qr_status :: reservation_status
  qr_created_at :: instant
  qr_settled_at :: "instant option"

record quota_db =
  qd_weeks :: "string \<Rightarrow> week_row option"
  qd_ledger :: "quota_row list"

definition week_row_of :: "int \<Rightarrow> int \<Rightarrow> int \<Rightarrow> class_counts \<Rightarrow> week_row" where
  "week_row_of t h c m =
     \<lparr>wk_tokens_spent = t, wk_tokens_reserved = 0, wk_hex_tokens_spent = h, wk_hex_tokens_reserved = 0,
      wk_computer_use_tokens_spent = c, wk_computer_use_tokens_reserved = 0, wk_hex_jobs_by_class = m,
      wk_hex_jobs_reserved = Map.empty\<rparr>"

definition insert_week :: "string \<Rightarrow> week_row \<Rightarrow> quota_db \<Rightarrow> quota_db" where
  "insert_week week r db =
     (case qd_weeks db week of None \<Rightarrow> db\<lparr>qd_weeks := (qd_weeks db)(week \<mapsto> r)\<rparr> | Some _ \<Rightarrow> db)"

definition ensure_week :: "string \<Rightarrow> quota_db \<Rightarrow> quota_db" where
  "ensure_week week db =
     (case qd_weeks db week of None \<Rightarrow> insert_week week (week_row_of 0 0 0 Map.empty) db | Some _ \<Rightarrow> db)"

definition import_sidecar :: "sidecar_file \<Rightarrow> job_quota \<Rightarrow> string \<Rightarrow> quota_db \<Rightarrow> (quota_error, quota_db) result" where
  "import_sidecar f base week db =
     (case f of
        CorruptFile \<Rightarrow> Inl SidecarCorrupt
      | SidecarData d \<Rightarrow>
          if sf_week d \<noteq> week then Inr db
          else (case sidecar_merge f base week of
                  Inl e \<Rightarrow> Inl e
                | Inr m \<Rightarrow> Inr (insert_week week (week_row_of (jq_tokens_spent m) (jq_hex_tokens_spent m)
                             (jq_computer_use_tokens_spent m) (jq_hex_jobs_by_class m)) db))
      | _ \<Rightarrow> Inr db)"

definition spent_row :: "job_quota \<Rightarrow> week_row" where
  "spent_row q = week_row_of (jq_tokens_spent q) (jq_hex_tokens_spent q) (jq_computer_use_tokens_spent q) (jq_hex_jobs_by_class q)"

definition seed_open_week :: "job_quota \<Rightarrow> string \<Rightarrow> quota_db \<Rightarrow> quota_db" where
  "seed_open_week q week db =
     (if jq_tokens_spent q = 0 \<and> jq_hex_tokens_spent q = 0 \<and> jq_computer_use_tokens_spent q = 0 \<and>
         jq_hex_jobs_by_class q = Map.empty then db
      else insert_week week (spent_row q) db)"

definition snapshot_jobs :: "week_row \<Rightarrow> class_counts" where
  "snapshot_jobs r =
     (\<lambda>c. if wk_hex_jobs_by_class r c = None \<and> wk_hex_jobs_reserved r c = None then None
          else Some (get0 (wk_hex_jobs_by_class r) c + get0 (wk_hex_jobs_reserved r) c))"

definition snapshot_row :: "job_quota \<Rightarrow> week_row \<Rightarrow> job_quota" where
  "snapshot_row base r =
     with_spent base
       (wk_tokens_spent r + wk_tokens_reserved r, wk_hex_tokens_spent r + wk_hex_tokens_reserved r,
        wk_computer_use_tokens_spent r + wk_computer_use_tokens_reserved r, snapshot_jobs r)"

definition snapshot :: "job_quota \<Rightarrow> string \<Rightarrow> quota_db \<Rightarrow> job_quota" where
  "snapshot base week db = (case qd_weeks db week of None \<Rightarrow> base | Some r \<Rightarrow> snapshot_row base r)"

definition publish :: "job_quota \<Rightarrow> string \<Rightarrow> quota_db \<Rightarrow> sidecar_file \<Rightarrow> sidecar_file" where
  "publish template week db f =
     (case qd_weeks db week of
        None \<Rightarrow> f
      | Some r \<Rightarrow> sidecar_save (with_spent template (wk_tokens_spent r, wk_hex_tokens_spent r,
                    wk_computer_use_tokens_spent r, wk_hex_jobs_by_class r)) week)"

definition totals :: "string \<Rightarrow> quota_db \<Rightarrow> int \<times> int" where
  "totals week db = (case qd_weeks db week of None \<Rightarrow> (0, 0) | Some r \<Rightarrow> (wk_tokens_spent r, wk_tokens_reserved r))"

subsection \<open>Reserve, settle, release\<close>

text \<open>\<open>_hold\<close> answers None where the code answers False.\<close>

definition hold_row :: "job_quota \<Rightarrow> int \<Rightarrow> int \<Rightarrow> int \<Rightarrow> string option \<Rightarrow> week_row \<Rightarrow> week_row option" where
  "hold_row q tokens hex_tokens cu_tokens slot r =
     (if jq_weekly_token_cap q < wk_tokens_spent r + wk_tokens_reserved r + tokens then None
      else if share_cap q (jq_hex_share q) < wk_hex_tokens_spent r + wk_hex_tokens_reserved r + hex_tokens then None
      else if share_cap q (jq_computer_use_practice_share q)
                < wk_computer_use_tokens_spent r + wk_computer_use_tokens_reserved r + cu_tokens then None
      else if (case slot of None \<Rightarrow> False
               | Some c \<Rightarrow> jq_max_hex_jobs_per_task_class q \<le> get0 (wk_hex_jobs_by_class r) c + get0 (wk_hex_jobs_reserved r) c)
      then None
      else Some (r\<lparr>wk_tokens_reserved := wk_tokens_reserved r + tokens,
                   wk_hex_tokens_reserved := wk_hex_tokens_reserved r + hex_tokens,
                   wk_computer_use_tokens_reserved := wk_computer_use_tokens_reserved r + cu_tokens,
                   wk_hex_jobs_reserved :=
                     (case slot of None \<Rightarrow> wk_hex_jobs_reserved r
                      | Some c \<Rightarrow> (wk_hex_jobs_reserved r)(c \<mapsto> get0 (wk_hex_jobs_reserved r) c + 1))\<rparr>))"

definition hold :: "job_quota \<Rightarrow> string \<Rightarrow> int \<Rightarrow> int \<Rightarrow> int \<Rightarrow> string option \<Rightarrow> quota_db \<Rightarrow> quota_db option" where
  "hold q week tokens hex_tokens cu_tokens slot db =
     (case qd_weeks db week of
        None \<Rightarrow> None
      | Some r \<Rightarrow> map_option (\<lambda>r'. db\<lparr>qd_weeks := (qd_weeks db)(week \<mapsto> r')\<rparr>)
                    (hold_row q tokens hex_tokens cu_tokens slot r))"

definition hex_part :: "job_priority \<Rightarrow> int \<Rightarrow> int" where
  "hex_part p tokens = (if p = PracticeHex then tokens else 0)"

definition cu_part :: "job_priority \<Rightarrow> string option \<Rightarrow> int \<Rightarrow> int" where
  "cu_part p tc tokens = (if computer_use_class tc \<and> p \<in> {PracticeBand, PracticeHex} then tokens else 0)"

definition class_slot :: "job_priority \<Rightarrow> string option \<Rightarrow> string option" where
  "class_slot p tc = (if p = PracticeHex \<and> tc \<noteq> Some [] then tc else None)"

definition reserve ::
    "job_quota \<Rightarrow> string \<Rightarrow> instant \<Rightarrow> string \<Rightarrow> string \<Rightarrow> job_priority \<Rightarrow> int \<Rightarrow> string option \<Rightarrow> quota_db \<Rightarrow>
     (quota_error, unit) result \<times> quota_db" where
  "reserve q week stamp rid job p tokens tc db =
     (if tokens < 0 then (Inl NegativeTokens, db)
      else case hold q week tokens (hex_part p tokens) (cu_part p tc tokens) (class_slot p tc) (ensure_week week db) of
             None \<Rightarrow> (Inl QuotaExceeded, db)
           | Some db' \<Rightarrow>
               if rid \<in> qr_id ` set (qd_ledger db') then (Inl DuplicateReservation, db)
               else (Inr (), db'\<lparr>qd_ledger := qd_ledger db' @
                       [\<lparr>qr_id = rid, qr_week = week, qr_job = job, qr_priority = p, qr_tokens = tokens, qr_tokens_settled = None,
                         qr_computer_use_tokens = cu_part p tc tokens, qr_hex_tokens = hex_part p tokens,
                         qr_task_class = class_slot p tc, qr_status = Reserved, qr_created_at = stamp, qr_settled_at = None\<rparr>]\<rparr>))"

definition drop_slot :: "string \<Rightarrow> class_counts \<Rightarrow> class_counts" where
  "drop_slot c m = (let n = max 0 (get0 m c - 1) in m(c := (if n = 0 then None else Some n)))"

definition unhold_row :: "int \<Rightarrow> int \<Rightarrow> int \<Rightarrow> string option \<Rightarrow> bool \<Rightarrow> week_row \<Rightarrow> week_row" where
  "unhold_row tokens hex_tokens cu_tokens slot settle r =
     (let released = r\<lparr>wk_tokens_reserved := max 0 (wk_tokens_reserved r - tokens),
                       wk_hex_tokens_reserved := max 0 (wk_hex_tokens_reserved r - hex_tokens),
                       wk_computer_use_tokens_reserved := max 0 (wk_computer_use_tokens_reserved r - cu_tokens),
                       wk_hex_jobs_reserved := (case slot of None \<Rightarrow> wk_hex_jobs_reserved r | Some c \<Rightarrow> drop_slot c (wk_hex_jobs_reserved r))\<rparr>
      in if \<not> settle then released
         else released\<lparr>wk_tokens_spent := wk_tokens_spent r + tokens,
                       wk_hex_tokens_spent := wk_hex_tokens_spent r + hex_tokens,
                       wk_computer_use_tokens_spent := wk_computer_use_tokens_spent r + cu_tokens,
                       wk_hex_jobs_by_class :=
                         (case slot of None \<Rightarrow> wk_hex_jobs_by_class r
                          | Some c \<Rightarrow> (wk_hex_jobs_by_class r)(c \<mapsto> get0 (wk_hex_jobs_by_class r) c + 1))\<rparr>)"

definition unhold :: "string \<Rightarrow> int \<Rightarrow> int \<Rightarrow> int \<Rightarrow> string option \<Rightarrow> bool \<Rightarrow> quota_db \<Rightarrow> quota_db" where
  "unhold week tokens hex_tokens cu_tokens slot settle db =
     (case qd_weeks db week of
        None \<Rightarrow> db
      | Some r \<Rightarrow> db\<lparr>qd_weeks := (qd_weeks db)(week \<mapsto> unhold_row tokens hex_tokens cu_tokens slot settle r)\<rparr>)"

definition close_row :: "instant \<Rightarrow> string \<Rightarrow> bool \<Rightarrow> quota_row \<Rightarrow> quota_row" where
  "close_row now rid settle x =
     (if qr_id x = rid \<and> qr_status x = Reserved
      then x\<lparr>qr_status := (if settle then Settled else Released),
             qr_tokens_settled := (if settle then Some (qr_tokens x) else None), qr_settled_at := Some now\<rparr>
      else x)"

definition find_row :: "string \<Rightarrow> quota_db \<Rightarrow> quota_row option" where
  "find_row rid db = List.find (\<lambda>x. qr_id x = rid) (qd_ledger db)"

definition finish_reservation :: "instant \<Rightarrow> string \<Rightarrow> bool \<Rightarrow> quota_db \<Rightarrow> quota_db" where
  "finish_reservation now rid settle db =
     (case find_row rid db of
        None \<Rightarrow> db
      | Some x \<Rightarrow>
          if qr_status x \<noteq> Reserved then db
          else let db1 = unhold (qr_week x) (qr_tokens x) (qr_hex_tokens x) (qr_computer_use_tokens x) (qr_task_class x) settle db
               in db1\<lparr>qd_ledger := map (close_row now rid settle) (qd_ledger db1)\<rparr>)"

definition settle :: "instant \<Rightarrow> string \<Rightarrow> quota_db \<Rightarrow> quota_db" where
  "settle now rid db = finish_reservation now rid True db"

definition release_reservation :: "instant \<Rightarrow> string \<Rightarrow> quota_db \<Rightarrow> quota_db" where
  "release_reservation now rid db = finish_reservation now rid False db"

definition reserved_created :: "quota_db \<Rightarrow> (string \<times> instant) list" where
  "reserved_created db = map (\<lambda>x. (qr_id x, qr_created_at x)) (filter (\<lambda>x. qr_status x = Reserved) (qd_ledger db))"

definition expired_ids :: "int \<Rightarrow> instant \<Rightarrow> quota_db \<Rightarrow> string list" where
  "expired_ids ttl_s now db = map fst (filter (\<lambda>(rid, created). ttl_s * 1000000 \<le> now - created) (reserved_created db))"

definition release_expired :: "int \<Rightarrow> instant \<Rightarrow> quota_db \<Rightarrow> nat \<times> quota_db" where
  "release_expired ttl_s now db =
     (let ids = expired_ids ttl_s now db in (length ids, fold (release_reservation now) ids db))"

subsection \<open>Weeks\<close>

text \<open>\<open>strftime("%G-W%V")\<close>: the ISO year and week of an instant in microseconds since 0001-01-01, a Monday. The year comes from
  the proleptic Gregorian calendar the way \<open>datetime\<close> computes it, and both belong to the Thursday of the week.\<close>

definition days_before_year :: "int \<Rightarrow> int" where
  "days_before_year y = 365 * (y - 1) + (y - 1) div 4 - (y - 1) div 100 + (y - 1) div 400"

definition year_of_day :: "int \<Rightarrow> int" where
  "year_of_day d =
     (let n400 = d div 146097; r = d mod 146097; n100 = r div 36524; r' = r mod 36524; n4 = r' div 1461; n1 = (r' mod 1461) div 365;
          y = 400 * n400 + 100 * n100 + 4 * n4 + n1 + 1
      in if n1 = 4 \<or> n100 = 4 then y - 1 else y)"

definition iso_thursday :: "instant \<Rightarrow> int" where
  "iso_thursday t = (let d = t div 86400000000 in d - d mod 7 + 3)"

definition two_digits :: "int \<Rightarrow> string" where
  "two_digits n = (if n < 10 then CHR ''0'' # str_of_int n else str_of_int n)"

definition iso_week_id :: "instant \<Rightarrow> string" where
  "iso_week_id t =
     (let th = iso_thursday t; y = year_of_day th
      in str_of_int y @ ''-W'' @ two_digits ((th - days_before_year y) div 7 + 1))"

subsection \<open>The job runner\<close>

datatype lift_status = EstablishedPositive | EstablishedNegative | NotEstablished | InsufficientData | LowRunCount

record metric_report =
  mr_practice_conversion :: "real option"
  mr_causal_lift :: "lift_status option"

record improvement_flags =
  if_practice_hex_search :: bool
  if_curator_compress :: bool

datatype skip_reason = HexDisabled | CompressDisabled | ConversionUnavailable | LiftNotEstablished | QuotaRefused

definition hex_compress_skip_reason ::
    "improvement_flags option \<Rightarrow> metric_report option \<Rightarrow> job_priority \<Rightarrow> bool \<Rightarrow> skip_reason option" where
  "hex_compress_skip_reason flags report job recovery =
     (if job = PracticeHex \<and> (case flags of None \<Rightarrow> True | Some f \<Rightarrow> \<not> if_practice_hex_search f) then Some HexDisabled
      else if job = Compress \<and> (case flags of None \<Rightarrow> True | Some f \<Rightarrow> \<not> if_curator_compress f) then Some CompressDisabled
      else if job \<notin> {PracticeHex, Compress} then None
      else if (case report of None \<Rightarrow> True | Some m \<Rightarrow> mr_practice_conversion m = None) then Some ConversionUnavailable
      else if recovery then None
      else if (case report of None \<Rightarrow> True | Some m \<Rightarrow> mr_causal_lift m \<noteq> Some EstablishedPositive) then Some LiftNotEstablished
      else None)"

record job_runner =
  jr_quota :: job_quota
  jr_repo :: "quota_db option"
  jr_sidecar :: sidecar_file
  jr_flags :: "improvement_flags option"
  jr_report :: "metric_report option"
  jr_hex_recovery :: bool

text \<open>What one call of \<open>run\<close> brings: the job, its budget, the instants and the identifier it draws. \<open>jc_max_proposals\<close> and
  \<open>jc_tokens\<close> are the fields of JobBudget that the runner reads.\<close>

record job_call =
  jc_job :: string
  jc_max_proposals :: int
  jc_tokens :: int
  jc_task_class :: "string option"
  jc_rid :: string
  jc_ttl_s :: int

datatype job_stop = JobSkipped skip_reason | JobRaised | TooManyProposals | IdentifierClash

definition refreshed :: "string \<Rightarrow> quota_db \<Rightarrow> job_runner \<Rightarrow> job_runner" where
  "refreshed week db r = r\<lparr>jr_repo := Some db, jr_quota := snapshot (jr_quota r) week db\<rparr>"

definition run_open :: "job_call \<Rightarrow> instant \<Rightarrow> job_runner \<Rightarrow> (job_stop, string option) result \<times> job_runner" where
  "run_open c now r =
     (let week = iso_week_id now; p = resolve_job_priority (jc_job c);
          r1 = (case jr_repo r of None \<Rightarrow> r | Some db \<Rightarrow> refreshed week (snd (release_expired (jc_ttl_s c) now db)) r)
      in case p of
           None \<Rightarrow> (Inr None, r1)
         | Some pr \<Rightarrow>
             (case hex_compress_skip_reason (jr_flags r1) (jr_report r1) pr (jr_hex_recovery r1) of
                Some s \<Rightarrow> (Inl (JobSkipped s), r1)
              | None \<Rightarrow>
                  if \<not> can_admit (jr_quota r1) pr (jc_task_class c) (jc_tokens c) then (Inl (JobSkipped QuotaRefused), r1)
                  else (case jr_repo r1 of
                          None \<Rightarrow> (Inr None, r1)
                        | Some db \<Rightarrow>
                            if jc_tokens c = 0 then (Inr None, r1)
                            else (case reserve (jr_quota r1) week now (jc_rid c) (jc_job c) pr (jc_tokens c) (jc_task_class c) db of
                                    (Inl DuplicateReservation, _) \<Rightarrow> (Inl IdentifierClash, r1)
                                  | (Inl _, _) \<Rightarrow> (Inl (JobSkipped QuotaRefused), r1)
                                  | (Inr _, db') \<Rightarrow> (Inr (Some (jc_rid c)), r1\<lparr>jr_repo := Some db'\<rparr>)))))"

definition release_run :: "instant \<Rightarrow> string option \<Rightarrow> job_runner \<Rightarrow> job_runner" where
  "release_run now reservation r =
     (case (reservation, jr_repo r) of
        (Some rid, Some db) \<Rightarrow>
          let week = iso_week_id now; r1 = refreshed week (release_reservation now rid db) r
          in r1\<lparr>jr_sidecar := publish (jr_quota r1) week (release_reservation now rid db) (jr_sidecar r1)\<rparr>
      | _ \<Rightarrow> r)"

definition run_close ::
    "job_call \<Rightarrow> instant \<Rightarrow> string option \<Rightarrow> 'p list option \<Rightarrow> job_runner \<Rightarrow> (job_stop, 'p list) result \<times> job_runner" where
  "run_close c now reservation produced r =
     (case produced of
        None \<Rightarrow> (Inl JobRaised, release_run now reservation r)
      | Some ps \<Rightarrow>
          if jc_max_proposals c < int (length ps) then (Inl TooManyProposals, release_run now reservation r)
          else let week = iso_week_id now
               in (Inr (take (nat (jc_max_proposals c)) ps),
                   case (reservation, jr_repo r, resolve_job_priority (jc_job c)) of
                     (Some rid, Some db, _) \<Rightarrow>
                       (let r1 = refreshed week (settle now rid db) r
                        in r1\<lparr>jr_sidecar := publish (jr_quota r1) week (settle now rid db) (jr_sidecar r1)\<rparr>)
                   | (_, repo, Some p) \<Rightarrow>
                       if jc_tokens c = 0 then r
                       else (let q = charge_quota (jr_quota r) p (jc_tokens c) (jc_task_class c)
                             in r\<lparr>jr_quota := q, jr_sidecar := (if repo = None then jr_sidecar r else sidecar_save q week)\<rparr>)
                   | _ \<Rightarrow> r))"

text \<open>\<open>run\<close> with no other process in between; \<open>produced\<close> is what the job function returns, None when it raises.\<close>

definition run_job :: "job_call \<Rightarrow> instant \<Rightarrow> instant \<Rightarrow> 'p list option \<Rightarrow> job_runner \<Rightarrow> (job_stop, 'p list) result \<times> job_runner" where
  "run_job c now later produced r =
     (case run_open c now r of
        (Inl e, r1) \<Rightarrow> (Inl e, r1)
      | (Inr reservation, r1) \<Rightarrow> run_close c later reservation produced r1)"

text \<open>The constructor and the operator's constructor.\<close>

definition open_runner :: "string \<Rightarrow> job_runner \<Rightarrow> (quota_error, job_runner) result" where
  "open_runner week r =
     (case jr_repo r of
        None \<Rightarrow> Inr r
      | Some db \<Rightarrow>
          (case import_sidecar (jr_sidecar r) (jr_quota r) week db of
             Inl e \<Rightarrow> Inl e
           | Inr db1 \<Rightarrow> Inr (refreshed week (seed_open_week (jr_quota r) week db1) r)))"

definition build_job_runner :: "job_quota \<Rightarrow> string \<Rightarrow> job_runner \<Rightarrow> (quota_error, job_runner) result" where
  "build_job_runner policy_quota week r =
     (case sidecar_merge (jr_sidecar r) policy_quota week of
        Inl e \<Rightarrow> Inl e
      | Inr q \<Rightarrow> open_runner week (r\<lparr>jr_quota := q\<rparr>))"

subsection \<open>Accounts\<close>

text \<open>The four kinds of account that a week keeps, and what a reservation takes from each.\<close>

datatype account = TokenAccount | HexAccount | ComputerUseAccount | ClassAccount string

fun row_spent :: "account \<Rightarrow> week_row \<Rightarrow> int" where
  "row_spent TokenAccount r = wk_tokens_spent r"
| "row_spent HexAccount r = wk_hex_tokens_spent r"
| "row_spent ComputerUseAccount r = wk_computer_use_tokens_spent r"
| "row_spent (ClassAccount c) r = get0 (wk_hex_jobs_by_class r) c"

fun row_reserved :: "account \<Rightarrow> week_row \<Rightarrow> int" where
  "row_reserved TokenAccount r = wk_tokens_reserved r"
| "row_reserved HexAccount r = wk_hex_tokens_reserved r"
| "row_reserved ComputerUseAccount r = wk_computer_use_tokens_reserved r"
| "row_reserved (ClassAccount c) r = get0 (wk_hex_jobs_reserved r) c"

fun cap_of :: "job_quota \<Rightarrow> account \<Rightarrow> int" where
  "cap_of q TokenAccount = jq_weekly_token_cap q"
| "cap_of q HexAccount = share_cap q (jq_hex_share q)"
| "cap_of q ComputerUseAccount = share_cap q (jq_computer_use_practice_share q)"
| "cap_of q (ClassAccount c) = jq_max_hex_jobs_per_task_class q"

fun amount :: "int \<Rightarrow> int \<Rightarrow> int \<Rightarrow> string option \<Rightarrow> account \<Rightarrow> int" where
  "amount tokens hex_tokens cu_tokens slot TokenAccount = tokens"
| "amount tokens hex_tokens cu_tokens slot HexAccount = hex_tokens"
| "amount tokens hex_tokens cu_tokens slot ComputerUseAccount = cu_tokens"
| "amount tokens hex_tokens cu_tokens slot (ClassAccount c) = (if slot = Some c then 1 else 0)"

definition row_amount :: "quota_row \<Rightarrow> account \<Rightarrow> int" where
  "row_amount x = amount (qr_tokens x) (qr_hex_tokens x) (qr_computer_use_tokens x) (qr_task_class x)"

definition held :: "quota_row list \<Rightarrow> string \<Rightarrow> reservation_status \<Rightarrow> account \<Rightarrow> int" where
  "held rows week s a = sum_list (map (\<lambda>x. row_amount x a) (filter (\<lambda>x. qr_week x = week \<and> qr_status x = s) rows))"

text \<open>\<open>quota_reachable q openings db\<close>: the states that processes with the caps of \<open>q\<close> reach in any order of their transactions;
  \<open>openings\<close> remembers the row each week was opened with. The import of a sidecar and the seeding of a runner open a week
  with the spend they bring, a reservation opens it empty.\<close>

inductive quota_reachable :: "job_quota \<Rightarrow> (string \<Rightarrow> week_row option) \<Rightarrow> quota_db \<Rightarrow> bool" for q where
  start: "quota_reachable q Map.empty \<lparr>qd_weeks = Map.empty, qd_ledger = []\<rparr>"
| importing: "\<lbrakk>quota_reachable q opened db; import_sidecar f base week db = Inr db'\<rbrakk> \<Longrightarrow>
    quota_reachable q (qd_weeks db' ++ opened) db'"
| seeding: "quota_reachable q opened db \<Longrightarrow>
    quota_reachable q (qd_weeks (seed_open_week base week db) ++ opened) (seed_open_week base week db)"
| reserving: "\<lbrakk>quota_reachable q opened db; cap_of q' = cap_of q; reserve q' week stamp rid job p tokens tc db = (res, db')\<rbrakk> \<Longrightarrow>
    quota_reachable q (if is_ok res then qd_weeks (ensure_week week db) ++ opened else opened) db'"
| finishing: "quota_reachable q opened db \<Longrightarrow> quota_reachable q opened (finish_reservation now rid settled db)"
| expiring: "quota_reachable q opened db \<Longrightarrow> quota_reachable q opened (snd (release_expired ttl now db))"

definition ledger_ok :: "quota_db \<Rightarrow> bool" where
  "ledger_ok db \<longleftrightarrow> distinct (map qr_id (qd_ledger db)) \<and>
     (\<forall>x \<in> set (qd_ledger db). qd_weeks db (qr_week x) \<noteq> None \<and> (\<forall>a. 0 \<le> row_amount x a))"

definition week_ok :: "job_quota \<Rightarrow> week_row \<Rightarrow> quota_row list \<Rightarrow> string \<Rightarrow> week_row \<Rightarrow> account \<Rightarrow> bool" where
  "week_ok q opn rows week r a \<longleftrightarrow>
     row_reserved a r = held rows week Reserved a \<and>
     row_spent a r = row_spent a opn + held rows week Settled a \<and>
     row_spent a r + row_reserved a r \<le> max (cap_of q a) (row_spent a opn)"

definition balanced :: "job_quota \<Rightarrow> (string \<Rightarrow> week_row option) \<Rightarrow> quota_db \<Rightarrow> bool" where
  "balanced q opened db \<longleftrightarrow> ledger_ok db \<and> dom opened = dom (qd_weeks db) \<and>
     (\<forall>week r opn. qd_weeks db week = Some r \<longrightarrow> opened week = Some opn \<longrightarrow>
        (\<forall>a. week_ok q opn (qd_ledger db) week r a))"

subsection \<open>Lemmas\<close>

lemma get0_upd [simp]: "get0 (m(c \<mapsto> v)) d = (if d = c then v else get0 m d)"
  by (simp add: get0_def)

lemma get0_drop_slot [simp]: "get0 (drop_slot c m) d = (if d = c then max 0 (get0 m c - 1) else get0 m d)"
  by (simp add: get0_def drop_slot_def Let_def)

lemma get0_empty [simp]: "get0 Map.empty c = 0"
  by (simp add: get0_def)

lemma row_reserved_opening [simp]: "row_reserved a (week_row_of t h c m) = 0"
  by (cases a) (simp_all add: week_row_of_def)

lemma row_spent_empty [simp]: "row_spent a (week_row_of 0 0 0 Map.empty) = 0"
  by (cases a) (simp_all add: week_row_of_def)

lemma hold_row_amount:
  assumes "hold_row q t h c slot r = Some r'"
  shows "row_spent a r' = row_spent a r" "row_reserved a r' = row_reserved a r + amount t h c slot a"
    and "amount t h c slot a \<noteq> 0 \<Longrightarrow> row_spent a r + row_reserved a r + amount t h c slot a \<le> cap_of q a"
  using assms by (cases a; auto simp: hold_row_def split: if_splits option.splits)+

lemma unhold_row_amount:
  "row_reserved a (unhold_row t h c slot s r) = max 0 (row_reserved a r - amount t h c slot a)"
  if "0 \<le> row_reserved a r"
  using that by (cases a) (auto simp: unhold_row_def Let_def split: option.splits)

lemma unhold_row_spent:
  "row_spent a (unhold_row t h c slot s r) = row_spent a r + (if s then amount t h c slot a else 0)"
  by (cases a) (auto simp: unhold_row_def Let_def split: option.splits)

lemma held_nonneg: "(\<forall>x \<in> set rows. 0 \<le> row_amount x a) \<Longrightarrow> 0 \<le> held rows week s a"
  by (auto simp: held_def intro!: sum_list_nonneg)

lemma held_append [simp]: "held (xs @ ys) week s a = held xs week s a + held ys week s a"
  by (simp add: held_def)

lemma held_Nil [simp]: "held [] week s a = 0"
  by (simp add: held_def)

lemma held_other_week: "\<forall>x \<in> set rows. qr_week x \<noteq> week \<Longrightarrow> held rows week s a = 0"
  by (simp add: held_def filter_False)

lemma close_row_keys [simp]: "qr_id (close_row now rid s x) = qr_id x" "qr_week (close_row now rid s x) = qr_week x"
  "row_amount (close_row now rid s x) = row_amount x"
  by (auto simp: close_row_def row_amount_def)

lemma close_row_other: "rid \<notin> qr_id ` set rows \<Longrightarrow> map (close_row now rid s) rows = rows"
  by (rule map_idI) (auto simp: close_row_def)

text \<open>Closing a reservation moves its amount from the reserved to the settled or released ones of its week.\<close>

lemma held_close:
  assumes "distinct (map qr_id rows)" "x \<in> set rows" "qr_status x = Reserved"
  shows "held (map (close_row now (qr_id x) s) rows) week st a =
     held rows week st a +
     (if qr_week x \<noteq> week then 0
      else (if st = (if s then Settled else Released) then row_amount x a else 0) - (if st = Reserved then row_amount x a else 0))"
proof -
  obtain ys zs where rows: "rows = ys @ x # zs" using assms(2) by (meson split_list)
  then have "qr_id x \<notin> qr_id ` set ys" "qr_id x \<notin> qr_id ` set zs" using assms(1) by auto
  then have "map (close_row now (qr_id x) s) rows = ys @ close_row now (qr_id x) s x # zs"
    by (simp add: rows close_row_other)
  then show ?thesis using assms(3)
    by (simp add: rows held_def close_row_def row_amount_def)
qed

lemma balancedI:
  assumes "ledger_ok db" "dom opened = dom (qd_weeks db)"
    and "\<And>week r opn a. \<lbrakk>qd_weeks db week = Some r; opened week = Some opn\<rbrakk> \<Longrightarrow> week_ok q opn (qd_ledger db) week r a"
  shows "balanced q opened db"
  using assms by (simp add: balanced_def)

lemma balanced_week:
  "\<lbrakk>balanced q opened db; qd_weeks db week = Some r; opened week = Some opn\<rbrakk> \<Longrightarrow> week_ok q opn (qd_ledger db) week r a"
  by (simp add: balanced_def)

lemma balanced_dom: "balanced q opened db \<Longrightarrow> dom opened = dom (qd_weeks db)"
  by (simp add: balanced_def)

lemma balancedD:
  assumes "balanced q opened db" "qd_weeks db week = Some r"
  obtains opn where "opened week = Some opn" "\<And>a. week_ok q opn (qd_ledger db) week r a"
proof -
  have "week \<in> dom opened" using assms by (auto simp: balanced_def)
  then obtain opn where "opened week = Some opn" by blast
  with that assms show thesis by (auto simp: balanced_def)
qed

lemma opening_balanced:
  assumes "balanced q opened db" "row = week_row_of t h c m"
  shows "balanced q (qd_weeks (insert_week week row db) ++ opened) (insert_week week row db)"
proof (cases "qd_weeks db week")
  case (Some r)
  then show ?thesis using assms(1) by (auto simp: insert_week_def balanced_def map_add_def split: option.splits)
next
  case None
  then have new: "opened week = None" "\<forall>x \<in> set (qd_ledger db). qr_week x \<noteq> week"
    using assms(1) by (auto simp: balanced_def ledger_ok_def)
  have "week_ok q row (qd_ledger db) week row a" for a
    using held_other_week[OF new(2)] by (simp add: week_ok_def assms(2))
  note row = this
  have db: "insert_week week row db = db\<lparr>qd_weeks := (qd_weeks db)(week \<mapsto> row)\<rparr>" using None by (simp add: insert_week_def)
  have opn: "(qd_weeks (insert_week week row db) ++ opened) w = (if w = week then Some row else opened w)" for w
    using new(1) balanced_dom[OF assms(1)] by (auto simp: db map_add_def split: option.splits)
  show ?thesis
  proof (rule balancedI)
    show "ledger_ok (insert_week week row db)" using assms(1) by (auto simp: db balanced_def ledger_ok_def)
    show "dom (qd_weeks (insert_week week row db) ++ opened) = dom (qd_weeks (insert_week week row db))"
      using balanced_dom[OF assms(1)] by (auto simp: db)
    show "week_ok q op (qd_ledger (insert_week week row db)) w r a"
      if "qd_weeks (insert_week week row db) w = Some r" "(qd_weeks (insert_week week row db) ++ opened) w = Some op" for w r op a
      using that row balanced_week[OF assms(1)] unfolding opn by (auto simp: db split: if_splits)
  qed
qed

lemma ensure_week_insert: "ensure_week week db = insert_week week (week_row_of 0 0 0 Map.empty) db"
  by (simp add: ensure_week_def insert_week_def split: option.split)

lemma import_sidecar_cases:
  assumes "import_sidecar f base week db = Inr db'"
  shows "db' = db \<or> (\<exists>t h c m. db' = insert_week week (week_row_of t h c m) db)"
  using assms by (auto simp: import_sidecar_def split: sidecar_file.splits if_splits sum.splits)

lemma map_add_same: "balanced q opened db \<Longrightarrow> qd_weeks db ++ opened = opened"
  by (rule ext) (auto simp: balanced_def map_add_def split: option.splits)

lemma amount_nonneg: "0 \<le> tokens \<Longrightarrow> 0 \<le> amount tokens (hex_part p tokens) (cu_part p tc tokens) slot a"
  by (cases a) (auto simp: hex_part_def cu_part_def)

lemma reserve_cases:
  assumes "reserve q week stamp rid job p tokens tc db = (res, db')"
  obtains (refused) e where "res = Inl e" "db' = db"
  | (held) r r' x where "res = Inr ()" "0 \<le> tokens" "qd_weeks (ensure_week week db) week = Some r"
    "hold_row q tokens (hex_part p tokens) (cu_part p tc tokens) (class_slot p tc) r = Some r'"
    "db' = \<lparr>qd_weeks = (qd_weeks (ensure_week week db))(week \<mapsto> r'), qd_ledger = qd_ledger db @ [x]\<rparr>"
    "qr_id x = rid" "qr_id x \<notin> qr_id ` set (qd_ledger db)" "qr_week x = week" "qr_status x = Reserved"
    "row_amount x = amount tokens (hex_part p tokens) (cu_part p tc tokens) (class_slot p tc)"
proof -
  have led: "qd_ledger (ensure_week week db) = qd_ledger db"
    by (simp add: ensure_week_def insert_week_def split: option.split)
  show thesis
  proof (cases "\<exists>e. res = Inl e")
    case True
    then show ?thesis using assms refused by (auto simp: reserve_def split: if_splits option.splits)
  next
    case False
    then obtain d where "hold q week tokens (hex_part p tokens) (cu_part p tc tokens) (class_slot p tc) (ensure_week week db) = Some d"
      "\<not> tokens < 0" "rid \<notin> qr_id ` set (qd_ledger d)" "res = Inr ()"
      using assms by (auto simp: reserve_def split: if_splits option.splits)
    then obtain r r' where r: "qd_weeks (ensure_week week db) week = Some r"
      "hold_row q tokens (hex_part p tokens) (cu_part p tc tokens) (class_slot p tc) r = Some r'"
      "hold q week tokens (hex_part p tokens) (cu_part p tc tokens) (class_slot p tc) (ensure_week week db) =
         Some ((ensure_week week db)\<lparr>qd_weeks := (qd_weeks (ensure_week week db))(week \<mapsto> r')\<rparr>)"
      "\<not> tokens < 0" "rid \<notin> qr_id ` set (qd_ledger db)" "res = Inr ()"
      using led by (auto simp: hold_def split: option.splits)
    have "db' = \<lparr>qd_weeks = (qd_weeks (ensure_week week db))(week \<mapsto> r'),
        qd_ledger = qd_ledger db @
          [\<lparr>qr_id = rid, qr_week = week, qr_job = job, qr_priority = p, qr_tokens = tokens, qr_tokens_settled = None,
            qr_computer_use_tokens = cu_part p tc tokens, qr_hex_tokens = hex_part p tokens,
            qr_task_class = class_slot p tc, qr_status = Reserved, qr_created_at = stamp, qr_settled_at = None\<rparr>]\<rparr>"
      using assms r led by (intro quota_db.equality) (auto simp: reserve_def)
    then show ?thesis using held[OF r(6) _ r(1,2)] r(4,5) by (simp add: row_amount_def)
  qed
qed

lemma reserve_balanced:
  assumes "balanced q opened db" "cap_of q' = cap_of q" "reserve q' week stamp rid job p tokens tc db = (res, db')"
  shows "balanced q (if is_ok res then qd_weeks (ensure_week week db) ++ opened else opened) db'"
  using assms(3)
proof (cases rule: reserve_cases)
  case (refused e)
  then show ?thesis using assms(1) by simp
next
  case (held r r' x)
  let ?db = "ensure_week week db" and ?op = "qd_weeks (ensure_week week db) ++ opened"
  have b: "balanced q ?op ?db" unfolding ensure_week_insert by (rule opening_balanced[OF assms(1) refl])
  have led: "qd_ledger ?db = qd_ledger db" by (simp add: ensure_week_insert insert_week_def split: option.split)
  obtain opn where o: "?op week = Some opn" "\<And>a. week_ok q opn (qd_ledger db) week r a"
    using balancedD[OF b held(3)] led by metis
  have nn: "0 \<le> row_amount x a" for a unfolding held(10) by (rule amount_nonneg[OF held(2)])
  have x: "held [x] w s a = (if w = week \<and> s = Reserved then row_amount x a else 0)" for w s a
    using held(8,9) by (auto simp: held_def)
  have "week_ok q opn (qd_ledger db @ [x]) week r' a" for a
    using o(2)[of a] hold_row_amount[OF held(4), of a] assms(2) nn[of a] held(10)
    by (cases "row_amount x a = 0") (auto simp: week_ok_def x)
  moreover have "ledger_ok db'" using b nn held led by (auto simp: balanced_def ledger_ok_def)
  moreover have "week_ok q op (qd_ledger db @ [x]) w s a" if "w \<noteq> week" "week_ok q op (qd_ledger db) w s a" for op w s a
    using that by (simp add: week_ok_def x)
  ultimately have "balanced q ?op db'"
    using o(1) balanced_dom[OF b] held(3,5) led balanced_week[OF b]
    by (intro balancedI) (auto split: if_splits)
  then show ?thesis using held(1) by simp
qed

lemma finish_balanced:
  assumes "balanced q opened db"
  shows "balanced q opened (finish_reservation now rid s db)"
proof (cases "\<exists>x. find_row rid db = Some x \<and> qr_status x = Reserved")
  case False
  then show ?thesis using assms by (auto simp: finish_reservation_def split: option.splits)
next
  case True
  then obtain x where x: "find_row rid db = Some x" "qr_status x = Reserved" by blast
  then have mem: "x \<in> set (qd_ledger db)" "qr_id x = rid" by (auto simp: find_row_def dest: find_SomeD)
  then obtain r where r: "qd_weeks db (qr_week x) = Some r" using assms by (auto simp: balanced_def ledger_ok_def)
  obtain opn where o: "opened (qr_week x) = Some opn" "\<And>a. week_ok q opn (qd_ledger db) (qr_week x) r a"
    using balancedD[OF assms r] by blast
  have d: "distinct (map qr_id (qd_ledger db))" and nn: "\<forall>y \<in> set (qd_ledger db). 0 \<le> row_amount y a" for a
    using assms by (auto simp: balanced_def ledger_ok_def)
  let ?rows = "map (close_row now rid s) (qd_ledger db)"
  let ?r = "unhold_row (qr_tokens x) (qr_hex_tokens x) (qr_computer_use_tokens x) (qr_task_class x) s r"
  have db': "finish_reservation now rid s db = \<lparr>qd_weeks = (qd_weeks db)(qr_week x \<mapsto> ?r), qd_ledger = ?rows\<rparr>"
    using x r by (simp add: finish_reservation_def unhold_def Let_def)
  have h: "held ?rows week st a = held (qd_ledger db) week st a +
     (if qr_week x \<noteq> week then 0
      else (if st = (if s then Settled else Released) then row_amount x a else 0) - (if st = Reserved then row_amount x a else 0))" for week st a
    using held_close[OF d mem(1) x(2)] mem(2) by simp
  have "week_ok q opn ?rows (qr_week x) ?r a" for a
  proof -
    have am: "amount (qr_tokens x) (qr_hex_tokens x) (qr_computer_use_tokens x) (qr_task_class x) a = row_amount x a"
      by (simp add: row_amount_def)
    have ok: "week_ok q opn (qd_ledger db) (qr_week x) r a" by (rule o(2))
    have hr: "held ?rows (qr_week x) Reserved a = held (qd_ledger db) (qr_week x) Reserved a - row_amount x a"
      and hs: "held ?rows (qr_week x) Settled a = held (qd_ledger db) (qr_week x) Settled a + (if s then row_amount x a else 0)"
      by (simp_all add: h)
    have "0 \<le> held ?rows (qr_week x) Reserved a" by (rule held_nonneg) (use nn in auto)
    then have "row_amount x a \<le> row_reserved a r" using ok hr by (simp add: week_ok_def)
    moreover have "0 \<le> row_amount x a" using nn mem(1) by blast
    ultimately show ?thesis using ok by (simp add: week_ok_def hr hs am unhold_row_amount unhold_row_spent)
  qed
  moreover have "week_ok q op ?rows w t a" if "w \<noteq> qr_week x" "week_ok q op (qd_ledger db) w t a" for op w t a
    using that by (simp add: week_ok_def h)
  moreover have "ledger_ok (finish_reservation now rid s db)"
    using assms r by (auto simp: db' balanced_def ledger_ok_def o_def)
  ultimately show ?thesis using balanced_dom[OF assms] o(1) r balanced_week[OF assms]
    by (intro balancedI) (auto simp: db' split: if_splits)
qed

lemma release_expired_balanced: "balanced q opened db \<Longrightarrow> balanced q opened (snd (release_expired ttl now db))"
proof -
  have "balanced q opened db \<Longrightarrow> balanced q opened (fold (release_reservation now) ids db)" for ids
    by (induction ids arbitrary: db) (auto simp: release_reservation_def finish_balanced)
  then show "balanced q opened db \<Longrightarrow> ?thesis" by (simp add: release_expired_def Let_def)
qed

lemma quota_reachable_balanced: "quota_reachable q opened db \<Longrightarrow> balanced q opened db"
proof (induction rule: quota_reachable.induct)
  case start
  then show ?case by (simp add: balanced_def ledger_ok_def)
next
  case (importing opened db f base week db')
  from import_sidecar_cases[OF importing(2)] show ?case
    using importing(3) opening_balanced[OF importing(3) refl] map_add_same[OF importing(3)] by auto
next
  case (seeding opened db base week)
  show ?case
    using seeding.IH opening_balanced[OF seeding.IH refl] map_add_same[OF seeding.IH]
    by (auto simp: seed_open_week_def spent_row_def)
next
  case (reserving opened db q' week stamp rid job p tokens tc res db')
  show ?case by (rule reserve_balanced[OF reserving.IH reserving(2,3)])
next
  case (finishing opened db now rid settled)
  show ?case by (rule finish_balanced[OF finishing.IH])
next
  case (expiring opened db ttl now)
  show ?case by (rule release_expired_balanced[OF expiring.IH])
qed

lemma share_cap_with_spent [simp]:
  "share_cap (with_spent q v) = share_cap q" "cap_of (with_spent q v) = cap_of q"
  "jq_weekly_token_cap (with_spent q v) = jq_weekly_token_cap q" "jq_hex_share (with_spent q v) = jq_hex_share q"
  "jq_computer_use_practice_share (with_spent q v) = jq_computer_use_practice_share q"
  "jq_max_hex_jobs_per_task_class (with_spent q v) = jq_max_hex_jobs_per_task_class q"
proof -
  show s: "share_cap (with_spent q v) = share_cap q" by (rule ext) (simp add: share_cap_def with_spent_def split: prod.split)
  show "cap_of (with_spent q v) = cap_of q"
  proof (rule ext)
    fix a show "cap_of (with_spent q v) a = cap_of q a" by (cases a) (simp_all add: s, simp_all add: with_spent_def split: prod.split)
  qed
qed (simp_all add: with_spent_def split: prod.split)

lemma cap_of_snapshot [simp]: "cap_of (snapshot q week db) = cap_of q"
  by (simp add: snapshot_def snapshot_row_def split: option.split)

lemma snapshot_row_sel [simp]:
  "jq_tokens_spent (snapshot_row q r) = wk_tokens_spent r + wk_tokens_reserved r"
  "jq_hex_tokens_spent (snapshot_row q r) = wk_hex_tokens_spent r + wk_hex_tokens_reserved r"
  "jq_computer_use_tokens_spent (snapshot_row q r) = wk_computer_use_tokens_spent r + wk_computer_use_tokens_reserved r"
  "get0 (jq_hex_jobs_by_class (snapshot_row q r)) c = get0 (wk_hex_jobs_by_class r) c + get0 (wk_hex_jobs_reserved r) c"
  by (simp_all add: snapshot_row_def with_spent_def snapshot_jobs_def get0_def)

lemma snapshot_row_caps [simp]:
  "share_cap (snapshot_row q r) = share_cap q" "jq_weekly_token_cap (snapshot_row q r) = jq_weekly_token_cap q"
  "jq_hex_share (snapshot_row q r) = jq_hex_share q" "jq_computer_use_practice_share (snapshot_row q r) = jq_computer_use_practice_share q"
  "jq_max_hex_jobs_per_task_class (snapshot_row q r) = jq_max_hex_jobs_per_task_class q"
  by (simp_all add: snapshot_row_def)

lemma hold_row_Some_iff:
  "(\<exists>r'. hold_row q t h c slot r = Some r') \<longleftrightarrow>
     wk_tokens_spent r + wk_tokens_reserved r + t \<le> jq_weekly_token_cap q \<and>
     wk_hex_tokens_spent r + wk_hex_tokens_reserved r + h \<le> share_cap q (jq_hex_share q) \<and>
     wk_computer_use_tokens_spent r + wk_computer_use_tokens_reserved r + c \<le> share_cap q (jq_computer_use_practice_share q) \<and>
     (\<forall>k. slot = Some k \<longrightarrow> get0 (wk_hex_jobs_by_class r) k + get0 (wk_hex_jobs_reserved r) k < jq_max_hex_jobs_per_task_class q)"
  by (auto simp: hold_row_def split: option.splits)

lemma reserve_ok_iff:
  assumes "qd_weeks db week = Some r" "rid \<notin> qr_id ` set (qd_ledger db)" "0 \<le> tokens"
  shows "(\<exists>db'. reserve q week stamp rid job p tokens tc db = (Inr (), db')) \<longleftrightarrow>
     (\<exists>r'. hold_row q tokens (hex_part p tokens) (cu_part p tc tokens) (class_slot p tc) r = Some r')"
  using assms by (auto simp: reserve_def hold_def ensure_week_def)

lemma can_admit_snapshot_iff:
  assumes "row_spent HexAccount r + row_reserved HexAccount r \<le> cap_of q HexAccount"
    "row_spent ComputerUseAccount r + row_reserved ComputerUseAccount r \<le> cap_of q ComputerUseAccount"
    "0 < tokens" "tc \<noteq> Some []"
  shows "can_admit (snapshot_row q r) p tc tokens \<longleftrightarrow>
     (\<exists>r'. hold_row q tokens (hex_part p tokens) (cu_part p tc tokens) (class_slot p tc) r = Some r')"
proof -
  have rem: "remaining (snapshot_row q r) = max 0 (jq_weekly_token_cap q - (wk_tokens_spent r + wk_tokens_reserved r))"
    by (simp add: remaining_def)
  have hex: "tokens \<le> hex_remaining (snapshot_row q r) \<longleftrightarrow>
      wk_hex_tokens_spent r + wk_hex_tokens_reserved r + tokens \<le> share_cap q (jq_hex_share q) \<and> tokens \<le> remaining (snapshot_row q r)"
    using assms(3) by (auto simp: hex_remaining_def share_remaining_def)
  have cu: "tokens \<le> computer_use_remaining (snapshot_row q r) \<longleftrightarrow>
      wk_computer_use_tokens_spent r + wk_computer_use_tokens_reserved r + tokens \<le> share_cap q (jq_computer_use_practice_share q) \<and>
      tokens \<le> remaining (snapshot_row q r)"
    using assms(3) by (auto simp: computer_use_remaining_def share_remaining_def)
  have tok: "tokens \<le> remaining (snapshot_row q r) \<longleftrightarrow> wk_tokens_spent r + wk_tokens_reserved r + tokens \<le> jq_weekly_token_cap q"
    using assms(3) by (auto simp: rem)
  have admit: "can_admit (snapshot_row q r) p tc tokens \<longleftrightarrow>
      tokens \<le> remaining (snapshot_row q r) \<and>
      (computer_use_class tc \<and> p \<in> {PracticeBand, PracticeHex} \<longrightarrow> tokens \<le> computer_use_remaining (snapshot_row q r)) \<and>
      (p = PracticeHex \<longrightarrow> tokens \<le> hex_remaining (snapshot_row q r) \<and>
         (\<forall>k. tc = Some k \<longrightarrow> get0 (wk_hex_jobs_by_class r) k + get0 (wk_hex_jobs_reserved r) k < jq_max_hex_jobs_per_task_class q))"
    using assms(3) hex cu by (cases p) (auto simp: can_admit_def split: option.splits)
  show ?thesis unfolding admit hold_row_Some_iff hex cu tok
    using assms(1,2,4) by (auto simp: hex_part_def cu_part_def class_slot_def)
qed

lemma release_expired_ledger [simp]: "qr_id ` set (qd_ledger (snd (release_expired ttl now db))) = qr_id ` set (qd_ledger db)"
proof -
  have "qr_id ` set (qd_ledger (finish_reservation now rid s db)) = qr_id ` set (qd_ledger db)" for rid s db
    by (auto simp: finish_reservation_def unhold_def Let_def image_image split: option.splits)
  then have "qr_id ` set (qd_ledger (fold (release_reservation now) ids db)) = qr_id ` set (qd_ledger db)" for ids
    by (induction ids arbitrary: db) (simp_all add: release_reservation_def)
  then show ?thesis by (simp add: release_expired_def Let_def)
qed

lemma find_row_fresh:
  "rid \<notin> qr_id ` set rows \<Longrightarrow> qr_id x = rid \<Longrightarrow> List.find (\<lambda>y. qr_id y = rid) (rows @ [x]) = Some x"
  by (induction rows) auto

text \<open>A reservation that is taken and closed_reservation again leaves the week's reserved amounts as they were.\<close>

lemma reserve_finish:
  assumes "balanced q opened db" "reserve q' week stamp rid job p tokens tc db = (Inr (), db1)"
  shows "totals week (finish_reservation now rid s db1) = (fst (totals week db) + (if s then tokens else 0), snd (totals week db))"
  using assms(2)
proof (cases rule: reserve_cases)
  case (held r r' x)
  have t: "totals week db = (row_spent TokenAccount r, row_reserved TokenAccount r)"
    using held(3) by (auto simp: totals_def ensure_week_def insert_week_def week_row_of_def split: option.splits if_splits)
  have b: "balanced q (qd_weeks (ensure_week week db) ++ opened) (ensure_week week db)"
    unfolding ensure_week_insert by (rule opening_balanced[OF assms(1) refl])
  then have "0 \<le> row_reserved TokenAccount r"
    using balancedD[OF b held(3)] held_nonneg[of "qd_ledger (ensure_week week db)" TokenAccount week Reserved]
    by (metis balanced_def ledger_ok_def week_ok_def)
  moreover have "find_row rid db1 = Some x" unfolding find_row_def held(5) using held(6,7) find_row_fresh by simp
  moreover have "qr_tokens x = tokens" using fun_cong[OF held(10), of TokenAccount] by (simp add: row_amount_def)
  ultimately show ?thesis
    using held(5,8,9) t hold_row_amount(1,2)[OF held(4), of TokenAccount]
    by (simp add: finish_reservation_def unhold_def Let_def totals_def unhold_row_def)
qed auto

lemma run_open_ok:
  assumes "jr_repo r = Some db" "balanced q opened db" "run_open c now r = (res, r1)"
  shows "\<exists>db1. jr_repo r1 = Some db1 \<and>
     (case res of
        Inl _ \<Rightarrow> db1 = snd (release_expired (jc_ttl_s c) now db)
      | Inr None \<Rightarrow> db1 = snd (release_expired (jc_ttl_s c) now db) \<and> (resolve_job_priority (jc_job c) = None \<or> jc_tokens c = 0)
      | Inr (Some rid) \<Rightarrow> rid = jc_rid c \<and> resolve_job_priority (jc_job c) \<noteq> None \<and>
          (\<exists>q' p. reserve q' (iso_week_id now) now rid (jc_job c) p (jc_tokens c) (jc_task_class c)
             (snd (release_expired (jc_ttl_s c) now db)) = (Inr (), db1)))"
  using assms(1,3)
  by (auto simp: run_open_def Let_def refreshed_def split: option.splits if_splits prod.splits sum.splits quota_error.splits) blast+

lemma find_row_finish: "find_row k (finish_reservation now rid s db) = map_option (close_row now rid s) (find_row k db)"
proof (cases "\<exists>x. find_row rid db = Some x \<and> qr_status x = Reserved")
  case True
  then show ?thesis
    by (auto simp: finish_reservation_def unhold_def Let_def find_row_def find_map o_def split: option.splits)
next
  case False
  have "close_row now rid s x = x" if "find_row k db = Some x" for x
    using that False by (cases "k = rid") (auto simp: close_row_def find_row_def dest: find_SomeD)
  then show ?thesis using False by (cases "find_row k db") (auto simp: finish_reservation_def split: option.splits)
qed

definition closed_reservation :: "string \<Rightarrow> quota_db \<Rightarrow> bool" where
  "closed_reservation rid db \<longleftrightarrow> (\<exists>x. find_row rid db = Some x \<and> qr_status x \<noteq> Reserved)"

lemma finish_closed: "closed_reservation rid db \<Longrightarrow> finish_reservation now rid s db = db"
  by (auto simp: closed_reservation_def finish_reservation_def)

lemma closed_finish: "closed_reservation k db \<Longrightarrow> closed_reservation k (finish_reservation now rid s db)"
  by (auto simp: closed_reservation_def find_row_finish close_row_def)

lemma finish_closes: "find_row rid db \<noteq> None \<Longrightarrow> closed_reservation rid (finish_reservation now rid s db)"
proof -
  assume "find_row rid db \<noteq> None"
  then obtain x where "find_row rid db = Some x" "qr_id x = rid" by (auto simp: find_row_def dest: find_SomeD)
  then show ?thesis by (auto simp: closed_reservation_def find_row_finish close_row_def)
qed

lemma releases_close:
  "rid \<in> set ids \<Longrightarrow> find_row rid db \<noteq> None \<Longrightarrow> closed_reservation rid (fold (release_reservation now) ids db)"
proof (induction ids arbitrary: db)
  case (Cons i ids)
  have keep: "closed_reservation rid db \<Longrightarrow> closed_reservation rid (fold (release_reservation now) ids db)" for db
    by (induction ids arbitrary: db) (auto simp: release_reservation_def closed_finish)
  show ?case
  proof (cases "rid = i")
    case True
    then have "closed_reservation rid (release_reservation now i db)" using finish_closes[OF Cons.prems(2)] by (simp add: release_reservation_def)
    then show ?thesis using keep by simp
  next
    case False
    have "find_row rid (release_reservation now i db) \<noteq> None" using Cons.prems(2) by (simp add: release_reservation_def find_row_finish)
    then show ?thesis using Cons.IH Cons.prems(1) False by simp
  qed
qed simp

lemma releases_keep_spent:
  "map_option (row_spent a) (qd_weeks (fold (release_reservation now) ids db) week) = map_option (row_spent a) (qd_weeks db week)"
proof (induction ids arbitrary: db)
  case (Cons i ids)
  have "map_option (row_spent a) (qd_weeks (release_reservation now i db) week) = map_option (row_spent a) (qd_weeks db week)"
    by (auto simp: release_reservation_def finish_reservation_def unhold_def Let_def unhold_row_spent split: option.splits)
  then show ?case using Cons by simp
qed simp

text \<open>Week arithmetic.\<close>

lemma iso_thursday_week: "iso_thursday t = 7 * (t div 604800000000) + 3"
proof -
  have "t div 604800000000 = t div 86400000000 div 7" by (simp add: zdiv_zmult2_eq[symmetric])
  then show ?thesis unfolding iso_thursday_def Let_def by presburger
qed

lemma same_week: "(7 * k + 3 - d) div 7 = (7 * j + 3 - d) div 7 \<Longrightarrow> k = (j :: int)"
  by presburger

lemma year_of_day_pos: "0 \<le> d \<Longrightarrow> 0 \<le> year_of_day d"
  unfolding year_of_day_def Let_def by (simp add: pos_imp_zdiv_nonneg_iff)

lemma days_before_year_blocks:
  assumes "0 \<le> b" "b \<le> 3" "0 \<le> c" "c \<le> 24" "0 \<le> e" "e \<le> (3 :: int)"
  shows "days_before_year (400 * a + 100 * b + 4 * c + e + 1) = 146097 * a + 36524 * b + 1461 * c + 365 * e"
proof -
  have block: "(n * k + x) div n = k" if "0 \<le> x" "x < n" for n k x :: int using that by simp
  have "(400 * a + 100 * b + 4 * c + e) div 4 = 100 * a + 25 * b + c"
    using block[of e 4 "100 * a + 25 * b + c"] assms by (simp add: algebra_simps)
  moreover have "(400 * a + 100 * b + 4 * c + e) div 100 = 4 * a + b"
    using block[of "4 * c + e" 100 "4 * a + b"] assms by (simp add: algebra_simps)
  moreover have "(400 * a + 100 * b + 4 * c + e) div 400 = a"
    using block[of "100 * b + 4 * c + e" 400 a] assms by (simp add: algebra_simps)
  ultimately show ?thesis by (simp add: days_before_year_def)
qed

lemma days_before_year_le: "days_before_year (year_of_day d) \<le> d"
proof -
  define a r where "a = d div 146097" and "r = d mod 146097"
  define b r' where "b = r div 36524" and "r' = r mod 36524"
  define c r'' where "c = r' div 1461" and "r'' = r' mod 1461"
  define e f where "e = r'' div 365" and "f = r'' mod 365"
  have rb: "0 \<le> r" "r < 146097" "0 \<le> r'" "r' < 36524" "0 \<le> r''" "r'' < 1461" "0 \<le> f"
    by (simp_all add: r_def r'_def r''_def f_def)
  have sums: "d = 146097 * a + r" "r = 36524 * b + r'" "r' = 1461 * c + r''" "r'' = 365 * e + f" "f < 365"
    by (simp_all add: a_def r_def b_def r'_def c_def r''_def e_def f_def)
  then have bounds: "0 \<le> b" "b \<le> 4" "0 \<le> c" "c \<le> 24" "0 \<le> e" "e \<le> 4" using rb by linarith+
  have y: "year_of_day d = (if e = 4 \<or> b = 4 then 400 * a + 100 * b + 4 * c + e else 400 * a + 100 * b + 4 * c + e + 1)"
    by (simp add: year_of_day_def Let_def a_def r_def b_def r'_def c_def r''_def e_def)
  consider "b = 4" | "b \<le> 3" "e = 4" | "b \<le> 3" "e \<le> 3" using bounds by linarith
  then show ?thesis
  proof cases
    case 1
    then have "c = 0" "e = 0" using sums rb bounds by linarith+
    then have "year_of_day d = 400 * a + 100 * 3 + 4 * 24 + 3 + 1" using y 1 by simp
    then show ?thesis using days_before_year_blocks[of 3 24 3 a] sums 1 rb by simp
  next
    case 2
    then have "year_of_day d = 400 * a + 100 * b + 4 * c + 3 + 1" using y by simp
    then show ?thesis using days_before_year_blocks[of b c 3 a] sums 2 rb bounds by simp
  next
    case 3
    then show ?thesis using y days_before_year_blocks[of b c e a] sums rb bounds by simp
  qed
qed

lemma week_pos: "0 \<le> (d - days_before_year (year_of_day d)) div 7 + 1"
  using days_before_year_le[of d] by (simp add: pos_imp_zdiv_nonneg_iff)

lemma str_of_nat_no_dash: "CHR ''-'' \<notin> set (str_of_nat n)"
proof (induction n rule: str_of_nat.induct)
  case (1 n)
  have d: "digit_char k \<noteq> CHR ''-''" if "k < 10" for k
  proof
    assume "digit_char k = CHR ''-''"
    then have "(of_char (digit_char k) :: nat) = 45" by simp
    then show False using that by (simp add: digit_char_def)
  qed
  show ?case
    using 1 d[of n] d[of "n mod 10", symmetric] by (subst str_of_nat.simps) (auto dest: sym)
qed

lemma nat_of_two_digits: "0 \<le> w \<Longrightarrow> nat_of_str 0 (two_digits w) = nat w"
  by (simp add: two_digits_def str_of_int_def nat_of_str_of_nat)

lemma week_text_inj:
  assumes "str_of_int y @ ''-W'' @ two_digits w = str_of_int y' @ ''-W'' @ two_digits w'" "0 \<le> y" "0 \<le> y'" "0 \<le> w" "0 \<le> w'"
  shows "y = y' \<and> w = w'"
proof -
  have "takeWhile (\<lambda>c. c \<noteq> CHR ''-'') (str_of_nat n @ CHR ''-'' # v) = str_of_nat n" for n v
    using str_of_nat_no_dash[of n] by (subst takeWhile_append2) auto
  then have n: "takeWhile (\<lambda>c. c \<noteq> CHR ''-'') (str_of_int i @ ''-W'' @ v) = str_of_nat (nat i)" if "0 \<le> i" for i v
    using that by (simp add: str_of_int_def)
  have "str_of_nat (nat y) = str_of_nat (nat y')" using assms(1) n[OF assms(2)] n[OF assms(3)] by metis
  then have y: "y = y'" using assms(2,3) by (simp add: str_of_nat_inj)
  with assms(1) have "two_digits w = two_digits w'" by simp
  then have "nat w = nat w'" using nat_of_two_digits assms(4,5) by metis
  with y assms(4,5) show ?thesis by simp
qed

subsection \<open>Properties\<close>

text \<open>
  C27. The books of a week always balance: in every order of imports, seedings, reservations, settlements, releases and
  expiries of any number of processes, the reserved amount of each account is the sum over the open reservations, the spent
  amount is what the week was opened with plus the settled reservations, each counted once, and their sum never exceeds the
  cap unless the week was opened beyond it.\<close>

theorem quota_accounts_balance:
  assumes "quota_reachable q opened db" "qd_weeks db week = Some r"
  shows "\<exists>opn. opened week = Some opn \<and>
     (\<forall>a. row_reserved a r = held (qd_ledger db) week Reserved a \<and>
          row_spent a r = row_spent a opn + held (qd_ledger db) week Settled a \<and>
          row_spent a r + row_reserved a r \<le> max (cap_of q a) (row_spent a opn))"
  using balancedD[OF quota_reachable_balanced[OF assms(1)] assms(2)] unfolding week_ok_def by blast

text \<open>
  Admission and reservation agree: in a week whose practice shares are not overdrawn, a positive request of a named task
  class is admitted on the snapshot exactly when the reservation in the database succeeds.\<close>

theorem admission_equals_reservation:
  assumes "qd_weeks db week = Some r" "rid \<notin> qr_id ` set (qd_ledger db)" "0 < tokens" "tc \<noteq> Some []"
    "row_spent HexAccount r + row_reserved HexAccount r \<le> cap_of q HexAccount"
    "row_spent ComputerUseAccount r + row_reserved ComputerUseAccount r \<le> cap_of q ComputerUseAccount"
  shows "can_admit (snapshot q week db) p tc tokens \<longleftrightarrow>
     (\<exists>db'. reserve q week stamp rid job p tokens tc db = (Inr (), db'))"
  using can_admit_snapshot_iff[OF assms(5,6,3,4), of p] reserve_ok_iff[OF assms(1,2), of tokens q stamp job p tc] assms(1,3)
  by (simp add: snapshot_def)

text \<open>
  A job is charged exactly when it delivers: an undisturbed run over a reachable database leaves the reserved
  tokens of its week as the expiry pass left them; it adds the tokens of its budget to the spent ones when it returns its
  proposals under a known priority, and nothing when it is skipped, raises or returns too many.\<close>

theorem job_charged_iff_delivered:
  assumes "jr_repo r = Some db" "quota_reachable q opened db" "run_job c now later produced r = (res, r')"
  shows "\<exists>db'. jr_repo r' = Some db' \<and>
     (let before = totals (iso_week_id now) (snd (release_expired (jc_ttl_s c) now db))
      in totals (iso_week_id now) db' =
           (fst before + (if is_ok res \<and> resolve_job_priority (jc_job c) \<noteq> None then jc_tokens c else 0), snd before))"
proof -
  let ?db0 = "snd (release_expired (jc_ttl_s c) now db)"
  have b: "balanced q opened db" by (rule quota_reachable_balanced[OF assms(2)])
  have b0: "balanced q opened ?db0" by (rule release_expired_balanced[OF b])
  obtain o1 r1 where o1: "run_open c now r = (o1, r1)" by fastforce
  then obtain db1 where db1: "jr_repo r1 = Some db1" and c: "case o1 of
        Inl _ \<Rightarrow> db1 = ?db0
      | Inr None \<Rightarrow> db1 = ?db0 \<and> (resolve_job_priority (jc_job c) = None \<or> jc_tokens c = 0)
      | Inr (Some rid) \<Rightarrow> rid = jc_rid c \<and> resolve_job_priority (jc_job c) \<noteq> None \<and>
          (\<exists>q' p. reserve q' (iso_week_id now) now rid (jc_job c) p (jc_tokens c) (jc_task_class c) ?db0 = (Inr (), db1))"
    using run_open_ok[OF assms(1) b o1] by blast
  show ?thesis
  proof (cases o1)
    case (Inl e)
    then show ?thesis using assms(3) o1 db1 c by (auto simp: run_job_def Let_def)
  next
    case (Inr reservation)
    then have close: "run_close c later reservation produced r1 = (res, r')" using assms(3) o1 by (simp add: run_job_def)
    show ?thesis
    proof (cases reservation)
      case None
      then show ?thesis using close c Inr db1
        by (auto simp: run_close_def release_run_def Let_def split: option.splits if_splits)
    next
      case (Some rid)
      then obtain q' p where rv: "reserve q' (iso_week_id now) now rid (jc_job c) p (jc_tokens c) (jc_task_class c) ?db0 = (Inr (), db1)"
        "resolve_job_priority (jc_job c) \<noteq> None" using c Inr by auto
      have "\<exists>s. jr_repo r' = Some (finish_reservation later rid s db1) \<and> s = is_ok res"
        using close Some db1
        by (auto simp: run_close_def release_run_def refreshed_def settle_def release_reservation_def Let_def split: option.splits if_splits)
      then show ?thesis using reserve_finish[OF b0 rv(1)] rv(2) by (auto simp: Let_def)
    qed
  qed
qed

text \<open>
  A job that outlives the reservation's time to live is free: once an expiry pass has released a reservation, the
  settlement of the job that still runs under it has no effect, and the expiry itself charges nothing to any
  account of any week.\<close>

theorem expired_reservation_is_never_charged:
  assumes "rid \<in> set (expired_ids ttl now db)" "(n, db') = release_expired ttl now db"
  shows "settle later rid db' = db' \<and>
     (\<forall>week a. map_option (row_spent a) (qd_weeks db' week) = map_option (row_spent a) (qd_weeks db week))"
proof -
  have db': "db' = fold (release_reservation now) (expired_ids ttl now db) db"
    using assms(2) by (simp add: release_expired_def Let_def)
  have "rid \<in> qr_id ` set (qd_ledger db)" using assms(1) by (auto simp: expired_ids_def reserved_created_def)
  then have "find_row rid db \<noteq> None" by (auto simp: find_row_def find_None_iff)
  then have "closed_reservation rid db'" unfolding db' using releases_close[OF assms(1)] by simp
  then show ?thesis using releases_keep_spent unfolding db' by (simp add: settle_def finish_closed)
qed

text \<open>
  A week's quota is the quota of one calendar week: two instants have the same week id exactly when no midnight
  between a Sunday and a Monday lies between them, across the ends of years too.\<close>

theorem week_ids_are_calendar_weeks:
  assumes "0 \<le> t" "0 \<le> u"
  shows "iso_week_id t = iso_week_id u \<longleftrightarrow> t div 604800000000 = u div 604800000000"
proof
  assume eq: "t div 604800000000 = u div 604800000000"
  have "iso_thursday t = 7 * (t div 604800000000) + 3" for t by (rule iso_thursday_week)
  with eq show "iso_week_id t = iso_week_id u" by (simp add: iso_week_id_def)
next
  assume eq: "iso_week_id t = iso_week_id u"
  let ?y = "\<lambda>t. year_of_day (iso_thursday t)" and ?w = "\<lambda>t. (iso_thursday t - days_before_year (year_of_day (iso_thursday t))) div 7 + 1"
  have b: "0 \<le> iso_thursday t" "0 \<le> iso_thursday u" using assms by (simp_all add: iso_thursday_week)
  from eq have "?y t = ?y u \<and> ?w t = ?w u"
    unfolding iso_week_id_def Let_def using week_text_inj year_of_day_pos[OF b(1)] year_of_day_pos[OF b(2)] week_pos
    by blast
  then have "(iso_thursday t - days_before_year (?y t)) div 7 = (iso_thursday u - days_before_year (?y t)) div 7" by (metis add_right_cancel)
  then show "t div 604800000000 = u div 604800000000" unfolding iso_thursday_week by (rule same_week)
qed

subsection \<open>Examples\<close>

definition example_quota :: job_quota where
  "example_quota =
     \<lparr>jq_weekly_token_cap = 100, jq_hex_share = 1 / 4, jq_max_hex_jobs_per_task_class = 1, jq_max_status_writes_per_tick = 50,
      jq_max_compress_candidates_per_tick = 1, jq_computer_use_practice_share = 1 / 2, jq_tokens_spent = 0,
      jq_hex_tokens_spent = 0, jq_computer_use_tokens_spent = 0, jq_hex_jobs_by_class = Map.empty\<rparr>"

definition no_quota_db :: quota_db where
  "no_quota_db = \<lparr>qd_weeks = Map.empty, qd_ledger = []\<rparr>"

definition held_db :: "string \<Rightarrow> quota_db" where
  "held_db week = snd (reserve example_quota week 0 ''r1'' ''hex'' PracticeHex 20 (Some ''docs_auditor'') no_quota_db)"

definition one_hold :: week_row where
  "one_hold = (week_row_of 0 0 0 Map.empty)
     \<lparr>wk_tokens_reserved := 20, wk_hex_tokens_reserved := 20, wk_computer_use_tokens_reserved := 20, wk_hex_jobs_reserved := [''docs_auditor'' \<mapsto> 1]\<rparr>"

lemma example_caps [simp]:
  "share_cap example_quota (jq_hex_share example_quota) = 25" "share_cap example_quota (jq_computer_use_practice_share example_quota) = 50"
  "jq_weekly_token_cap example_quota = 100"
  by (simp_all add: share_cap_def example_quota_def py_int_def)

lemma held_db_eq:
  "reserve example_quota week 0 ''r1'' ''hex'' PracticeHex 20 (Some ''docs_auditor'') no_quota_db = (Inr (), held_db week)"
  "qd_weeks (held_db week) week = Some one_hold" "qr_id ` set (qd_ledger (held_db week)) = {''r1''}"
  "reserved_created (held_db week) = [(''r1'', 0)]"
  by (simp_all add: held_db_def reserve_def hold_def hold_row_def ensure_week_def insert_week_def no_quota_db_def week_row_of_def one_hold_def
      hex_part_def cu_part_def class_slot_def computer_use_class_def COMPUTER_USE_TASK_CLASSES_def example_quota_def share_cap_def py_int_def
      reserved_created_def fun_upd_def)

theorem quota_accounts_balance_witness:
  "\<exists>opened opn. quota_reachable example_quota opened (held_db ''w'') \<and> opened ''w'' = Some opn \<and>
     row_reserved HexAccount one_hold = 20 \<and> held (qd_ledger (held_db ''w'')) ''w'' Reserved HexAccount = 20 \<and>
     row_spent HexAccount one_hold + row_reserved HexAccount one_hold \<le> max 25 (row_spent HexAccount opn)"
proof -
  have "quota_reachable example_quota (if is_ok (Inr () :: (quota_error, unit) result) then qd_weeks (ensure_week ''w'' no_quota_db) ++ Map.empty else Map.empty) (held_db ''w'')"
    by (rule quota_reachable.reserving[OF quota_reachable.start[folded no_quota_db_def] refl held_db_eq(1)])
  from quota_accounts_balance[OF this held_db_eq(2)] this show ?thesis
    by (fastforce simp: one_hold_def week_row_of_def dest: spec[of _ HexAccount])
qed

theorem admission_equals_reservation_witness:
  "can_admit (snapshot example_quota ''w'' (held_db ''w'')) Compress None 80 \<and>
   (\<exists>db'. reserve example_quota ''w'' 1 ''r2'' ''compress'' Compress 80 None (held_db ''w'') = (Inr (), db')) \<and>
   \<not> can_admit (snapshot example_quota ''w'' (held_db ''w'')) PracticeHex (Some ''docs_auditor'') 1"
proof -
  have snap: "snapshot example_quota ''w'' (held_db ''w'') = snapshot_row example_quota one_hold"
    by (simp add: snapshot_def held_db_eq)
  have "can_admit (snapshot example_quota ''w'' (held_db ''w'')) Compress None 80"
    by (simp add: snap can_admit_def remaining_def computer_use_class_def one_hold_def week_row_of_def)
  moreover have "\<not> can_admit (snapshot example_quota ''w'' (held_db ''w'')) PracticeHex (Some ''docs_auditor'') 1"
    unfolding snap by (simp add: can_admit_def one_hold_def week_row_of_def) (simp add: get0_def example_quota_def)
  moreover have "can_admit (snapshot example_quota ''w'' (held_db ''w'')) Compress None 80 \<longleftrightarrow>
      (\<exists>db'. reserve example_quota ''w'' 1 ''r2'' ''compress'' Compress 80 None (held_db ''w'') = (Inr (), db'))"
    by (rule admission_equals_reservation[OF held_db_eq(2)]) (simp_all add: held_db_eq one_hold_def week_row_of_def)
  ultimately show ?thesis by blast
qed

definition example_call :: job_call where
  "example_call = \<lparr>jc_job = ''recertify'', jc_max_proposals = 1, jc_tokens = 10, jc_task_class = None, jc_rid = ''r1'', jc_ttl_s = 60\<rparr>"

definition example_runner :: job_runner where
  "example_runner =
     \<lparr>jr_quota = example_quota, jr_repo = Some no_quota_db, jr_sidecar = NoFile, jr_flags = None, jr_report = None, jr_hex_recovery = False\<rparr>"

theorem job_charged_iff_delivered_witness:
  "\<exists>db'. jr_repo (snd (run_job example_call 0 0 (Some [()]) example_runner)) = Some db' \<and> totals (iso_week_id 0) db' = (10, 0)"
proof -
  have p: "resolve_job_priority ''recertify'' = Some Recertifier" by code_simp
  have e: "release_expired 60 0 no_quota_db = (0, no_quota_db)"
    by (simp add: release_expired_def expired_ids_def reserved_created_def no_quota_db_def)
  have "is_ok (fst (run_job example_call 0 0 (Some [()]) example_runner))"
    by (simp add: run_job_def run_open_def run_close_def Let_def example_call_def example_runner_def p e[unfolded no_quota_db_def] refreshed_def snapshot_def no_quota_db_def
        hex_compress_skip_reason_def can_admit_def remaining_def computer_use_class_def reserve_def hold_def hold_row_def ensure_week_def
        insert_week_def week_row_of_def hex_part_def cu_part_def class_slot_def example_quota_def share_cap_def py_int_def)
  moreover have "quota_reachable example_quota Map.empty no_quota_db" unfolding no_quota_db_def by (rule quota_reachable.start)
  ultimately show ?thesis
    using job_charged_iff_delivered[of example_runner no_quota_db example_quota Map.empty example_call 0 0 "Some [()]"]
    by (cases "run_job example_call 0 0 (Some [()]) example_runner")
       (auto simp: example_runner_def example_call_def p e[unfolded no_quota_db_def] totals_def no_quota_db_def Let_def)
qed

theorem expired_reservation_is_never_charged_witness:
  "\<exists>db'. release_expired 0 5 (held_db ''w'') = (1, db') \<and> settle 9 ''r1'' db' = db'"
proof -
  have i: "expired_ids 0 5 (held_db ''w'') = [''r1'']" by (simp add: expired_ids_def held_db_eq)
  then obtain db' where db': "release_expired 0 5 (held_db ''w'') = (1, db')" by (simp add: release_expired_def)
  with expired_reservation_is_never_charged[of "''r1''" 0 5 "held_db ''w''" 1 db' 9] i show ?thesis by simp
qed

theorem week_ids_are_calendar_weeks_witness:
  "iso_week_id 0 = iso_week_id 604799999999 \<and> iso_week_id 0 \<noteq> iso_week_id 604800000000"
  using week_ids_are_calendar_weeks[of 0 604799999999] week_ids_are_calendar_weeks[of 0 604800000000] by simp

end
