(* ===== verification/Step_Systems.thy ===== *)
theory Step_Systems
  imports Main
begin

section \<open>Invariants and stable properties of interleaved steps\<close>

text \<open>
  The stores of the control plane are shared by processes whose transactions interleave. Each is modelled by a step
  relation; what their theorems have in common is stated here once: an invariant that every step keeps holds
  after any sequence of steps, and a property that no step can undo stays once it holds.\<close>

locale step_system =
  fixes step :: "'s \<Rightarrow> 's \<Rightarrow> bool"
    and inv :: "'s \<Rightarrow> bool"
  assumes inv_step: "\<lbrakk>inv s; step s s'\<rbrakk> \<Longrightarrow> inv s'"
begin

lemma inv_steps:
  assumes "step\<^sup>*\<^sup>* s s'" "inv s"
  shows "inv s'"
  using assms by (induction rule: rtranclp_induct) (auto intro: inv_step)

lemma stays:
  assumes stable: "\<And>s s'. \<lbrakk>inv s; step s s'; P s\<rbrakk> \<Longrightarrow> P s'"
    and steps: "step\<^sup>*\<^sup>* s s'" and start: "inv s" "P s"
  shows "P s'"
  using steps
proof (induction rule: rtranclp_induct)
  case base
  then show ?case by (rule start(2))
next
  case (step t u)
  have "inv t" by (rule inv_steps[OF step(1) start(1)])
  then show ?case using stable step by blast
qed

end

text \<open>A system with an initial states predicate: what holds initially and is kept by steps holds in every reachable state.\<close>

locale started_system = step_system step inv
  for step :: "'s \<Rightarrow> 's \<Rightarrow> bool" and inv :: "'s \<Rightarrow> bool" +
  fixes initial :: "'s \<Rightarrow> bool"
  assumes inv_initial: "initial s \<Longrightarrow> inv s"
begin

lemma reachable_inv: "\<lbrakk>initial s; step\<^sup>*\<^sup>* s s'\<rbrakk> \<Longrightarrow> inv s'"
  by (rule inv_steps[OF _ inv_initial])

lemma reachable_stays:
  assumes "initial s0" "step\<^sup>*\<^sup>* s0 s" "\<And>s s'. \<lbrakk>inv s; step s s'; P s\<rbrakk> \<Longrightarrow> P s'" "step\<^sup>*\<^sup>* s s'" "P s"
  shows "P s'"
  by (rule stays[where P = P]) (use assms reachable_inv in \<open>blast+\<close>)

end

end
