(* ===== verification/Idempotency.thy ===== *)
theory Idempotency
  imports Recertia_Prelude Step_Systems
begin

section \<open>Idempotency keys\<close>

text \<open>
  \<open>src/recertia/persistence/idempotency.py\<close>: the table idempotency_keys of control.db. A keyed bind of a program step
  reserves a pending row, binds the step in another database and completes the row; a request that finds a pending
  row older than \<open>LEASE_SECONDS\<close> takes it over. Each method is one BEGIN IMMEDIATE transaction, a function on the rows of the
  table; the clock is whole seconds and read inside the transaction. Which expired rows the bounded sweep picks is left open
  by SQL; here it is the first ones of the table. Opening and closing the connection is left out.\<close>

definition LEASE_SECONDS :: int where
  "LEASE_SECONDS = 30"

definition SWEEP_LIMIT :: nat where
  "SWEEP_LIMIT = 500"

record key_scope =
  ks_tenant :: tenant
  ks_program :: string
  ks_step :: string
  ks_key :: string

datatype idem_state = Pending | Complete

record idem_row =
  ir_scope :: key_scope
  ir_request_hash :: string
  ir_state :: idem_state
  ir_run_id :: "run_id option"
  ir_created_at :: int
  ir_expires_at :: int

type_synonym idem_table = "idem_row list"

datatype idem_outcome = OcReserved | OcReplay | OcTakenOver | OcInProgress | OcMismatch

datatype completion = Completed | Superseded | Lost

record idem_reservation =
  rv_outcome :: idem_outcome
  rv_run_id :: "run_id option"
  rv_lease :: "int option"

definition row_at :: "key_scope \<Rightarrow> idem_table \<Rightarrow> idem_row option" where
  "row_at s t = List.find (\<lambda>r. ir_scope r = s) t"

fun sweep :: "nat \<Rightarrow> int \<Rightarrow> idem_table \<Rightarrow> idem_table" where
  "sweep n now [] = []"
| "sweep 0 now (r # t) = r # t"
| "sweep (Suc n) now (r # t) = (if ir_expires_at r \<le> now then sweep n now t else r # sweep (Suc n) now t)"

definition drop_expired :: "key_scope \<Rightarrow> int \<Rightarrow> idem_table \<Rightarrow> idem_table" where
  "drop_expired s now t = filter (\<lambda>r. \<not> (ir_scope r = s \<and> ir_expires_at r \<le> now)) t"

definition answer :: "idem_outcome \<Rightarrow> run_id option \<Rightarrow> int option \<Rightarrow> idem_reservation" where
  "answer oc run lease = \<lparr>rv_outcome = oc, rv_run_id = run, rv_lease = lease\<rparr>"

definition reserve_key :: "int \<Rightarrow> int \<Rightarrow> key_scope \<Rightarrow> string \<Rightarrow> idem_table \<Rightarrow> idem_reservation \<times> idem_table" where
  "reserve_key ttl now s h t0 =
     (let t = drop_expired s now (sweep SWEEP_LIMIT now t0)
      in case row_at s t of
           None \<Rightarrow>
             (answer OcReserved None (Some now),
              t @ [\<lparr>ir_scope = s, ir_request_hash = h, ir_state = Pending, ir_run_id = None, ir_created_at = now, ir_expires_at = now + ttl\<rparr>])
         | Some r \<Rightarrow>
             if ir_request_hash r \<noteq> h then (answer OcMismatch None None, t)
             else if ir_state r = Complete then (answer OcReplay (ir_run_id r) None, t)
             else if now - ir_created_at r < LEASE_SECONDS then (answer OcInProgress None None, t)
             else (answer OcTakenOver None (Some now),
                   map (\<lambda>x. if ir_scope x = s \<and> ir_state x = Pending then x\<lparr>ir_created_at := now, ir_expires_at := now + ttl\<rparr> else x) t))"

text \<open>\<open>holds s h lease r\<close> is the WHERE clause of complete and release.\<close>

definition holds :: "key_scope \<Rightarrow> string \<Rightarrow> int \<Rightarrow> idem_row \<Rightarrow> bool" where
  "holds s h lease r \<longleftrightarrow> ir_scope r = s \<and> ir_state r = Pending \<and> ir_request_hash r = h \<and> ir_created_at r = lease"

definition complete_key :: "key_scope \<Rightarrow> string \<Rightarrow> run_id \<Rightarrow> int \<Rightarrow> idem_table \<Rightarrow> completion \<times> idem_table" where
  "complete_key s h run lease t =
     (if length (filter (holds s h lease) t) = 1
      then (Completed, map (\<lambda>r. if holds s h lease r then r\<lparr>ir_state := Complete, ir_run_id := Some run\<rparr> else r) t)
      else case row_at s t of
             None \<Rightarrow> (Lost, t)
           | Some r \<Rightarrow>
               if ir_request_hash r \<noteq> h then (Lost, t)
               else if ir_state r = Complete then (if ir_run_id r = Some run then Completed else Lost, t)
               else (Superseded, t))"

definition release_key :: "key_scope \<Rightarrow> string \<Rightarrow> int \<Rightarrow> idem_table \<Rightarrow> idem_table" where
  "release_key s h lease t = filter (\<lambda>r. \<not> holds s h lease r) t"

subsection \<open>Requests that share the table\<close>

text \<open>A request that holds a lease, and the system of all requests: the clock, the table, the requests that still run, and
  the completions that were recorded. The clock does not step back; a request that dies simply never acts again.\<close>

record holder =
  ho_request :: nat
  ho_scope :: key_scope
  ho_hash :: string
  ho_lease :: int

record idem_system =
  is_now :: int
  is_table :: idem_table
  is_holders :: "holder list"
  is_completed :: "(key_scope \<times> string \<times> run_id) list"

definition fresh_system :: "int \<Rightarrow> idem_system" where
  "fresh_system now = \<lparr>is_now = now, is_table = [], is_holders = [], is_completed = []\<rparr>"

definition without :: "holder \<Rightarrow> holder list \<Rightarrow> holder list" where
  "without h hs = filter (\<lambda>x. ho_request x \<noteq> ho_request h) hs"

inductive idem_step :: "int \<Rightarrow> idem_system \<Rightarrow> idem_system \<Rightarrow> bool" for ttl where
  tick: "is_now s \<le> now \<Longrightarrow> idem_step ttl s (s\<lparr>is_now := now\<rparr>)"
| reserving: "\<lbrakk>reserve_key ttl (is_now s) k h (is_table s) = (rv, t); i \<notin> ho_request ` set (is_holders s)\<rbrakk> \<Longrightarrow>
    idem_step ttl s (s\<lparr>is_table := t,
      is_holders := (case rv_lease rv of None \<Rightarrow> is_holders s
                     | Some l \<Rightarrow> is_holders s @ [\<lparr>ho_request = i, ho_scope = k, ho_hash = h, ho_lease = l\<rparr>])\<rparr>)"
| completing: "\<lbrakk>x \<in> set (is_holders s); complete_key (ho_scope x) (ho_hash x) run (ho_lease x) (is_table s) = (c, t)\<rbrakk> \<Longrightarrow>
    idem_step ttl s (s\<lparr>is_table := t, is_holders := without x (is_holders s),
      is_completed := (if c = Completed then is_completed s @ [(ho_scope x, ho_hash x, run)] else is_completed s)\<rparr>)"
| releasing: "x \<in> set (is_holders s) \<Longrightarrow>
    idem_step ttl s (s\<lparr>is_table := release_key (ho_scope x) (ho_hash x) (ho_lease x) (is_table s), is_holders := without x (is_holders s)\<rparr>)"

inductive_cases idem_stepE: "idem_step ttl s s'"

abbreviation idem_reachable :: "int \<Rightarrow> idem_system \<Rightarrow> bool" where
  "idem_reachable ttl s \<equiv> \<exists>now. (idem_step ttl)\<^sup>*\<^sup>* (fresh_system now) s"

text \<open>\<open>current x t\<close>: the row of the request's key is pending under its lease.\<close>

definition current :: "holder \<Rightarrow> idem_table \<Rightarrow> bool" where
  "current x t \<longleftrightarrow> (\<exists>r \<in> set t. holds (ho_scope x) (ho_hash x) (ho_lease x) r)"

definition table_ok :: "int \<Rightarrow> int \<Rightarrow> (key_scope \<times> string \<times> run_id) list \<Rightarrow> idem_table \<Rightarrow> bool" where
  "table_ok ttl now recorded t \<longleftrightarrow> distinct (map ir_scope t) \<and>
     (\<forall>r \<in> set t. ir_created_at r \<le> now \<and> ir_expires_at r = ir_created_at r + ttl) \<and>
     (\<forall>r \<in> set t. ir_state r = Pending \<longrightarrow> ir_run_id r = None) \<and>
     (\<forall>r \<in> set t. ir_state r = Complete \<longrightarrow>
        (\<exists>run. ir_run_id r = Some run \<and> (ir_scope r, ir_request_hash r, run) \<in> set recorded))"

definition holders_ok :: "idem_system \<Rightarrow> bool" where
  "holders_ok s \<longleftrightarrow> distinct (map ho_request (is_holders s)) \<and>
     (\<forall>x \<in> set (is_holders s). ho_lease x \<le> is_now s \<and> (current x (is_table s) \<or> ho_lease x < is_now s)) \<and>
     (\<forall>x \<in> set (is_holders s). \<forall>y \<in> set (is_holders s).
        ho_scope x = ho_scope y \<longrightarrow> ho_lease x = ho_lease y \<longrightarrow> ho_request x = ho_request y)"

definition idem_ok :: "int \<Rightarrow> idem_system \<Rightarrow> bool" where
  "idem_ok ttl s \<longleftrightarrow> table_ok ttl (is_now s) (is_completed s) (is_table s) \<and> holders_ok s"

subsection \<open>Lemmas\<close>

lemma set_sweep: "set (sweep n now t) \<subseteq> set t"
  by (induction n now t rule: sweep.induct) auto

lemma distinct_sweep: "distinct (map ir_scope t) \<Longrightarrow> distinct (map ir_scope (sweep n now t))"
  by (induction n now t rule: sweep.induct) (use set_sweep in \<open>fastforce+\<close>)

lemma sweep_keeps: "r \<in> set t \<Longrightarrow> now < ir_expires_at r \<Longrightarrow> r \<in> set (sweep n now t)"
  by (induction n now t rule: sweep.induct) auto

text \<open>The table after both deletions: a part of the old one that keeps every row that has not expired.\<close>

definition swept :: "key_scope \<Rightarrow> int \<Rightarrow> idem_table \<Rightarrow> idem_table" where
  "swept s now t = drop_expired s now (sweep SWEEP_LIMIT now t)"

lemma swept_subset: "r \<in> set (swept s now t) \<Longrightarrow> r \<in> set t"
  using set_sweep by (auto simp: swept_def drop_expired_def)

lemma swept_keeps: "r \<in> set t \<Longrightarrow> now < ir_expires_at r \<Longrightarrow> r \<in> set (swept s now t)"
  by (auto simp: swept_def drop_expired_def sweep_keeps)

lemma distinct_swept: "distinct (map ir_scope t) \<Longrightarrow> distinct (map ir_scope (swept s now t))"
  by (simp add: swept_def drop_expired_def distinct_map_filter distinct_sweep)

lemma swept_live: "r \<in> set (swept s now t) \<Longrightarrow> ir_scope r = s \<Longrightarrow> now < ir_expires_at r"
  by (auto simp: swept_def drop_expired_def)

lemma row_at_None: "row_at s t = None \<longleftrightarrow> s \<notin> ir_scope ` set t"
  by (auto simp: row_at_def find_None_iff)

lemma row_at_Some: "row_at s t = Some r \<Longrightarrow> r \<in> set t \<and> ir_scope r = s"
  unfolding row_at_def by (drule find_SomeD) simp

lemma row_at_eq:
  assumes "distinct (map ir_scope t)" "r \<in> set t"
  shows "row_at (ir_scope r) t = Some r"
proof (cases "row_at (ir_scope r) t")
  case None
  then show ?thesis using assms(2) by (simp add: row_at_None)
next
  case (Some r')
  then have "r' \<in> set t" "ir_scope r' = ir_scope r" by (simp_all add: row_at_Some)
  with assms Some show ?thesis by (metis inj_on_eq_iff distinct_map)
qed

lemma same_row: "\<lbrakk>distinct (map ir_scope t); r \<in> set t; r' \<in> set t; ir_scope r = ir_scope r'\<rbrakk> \<Longrightarrow> r = r'"
  by (metis inj_on_eq_iff distinct_map)

text \<open>The five answers of \<open>reserve_key\<close>.\<close>

lemma reserve_key_cases:
  assumes "reserve_key ttl now s h t0 = (rv, t)" "distinct (map ir_scope t0)"
  obtains (inserted) "rv = answer OcReserved None (Some now)" "s \<notin> ir_scope ` set (swept s now t0)"
    "t = swept s now t0 @ [\<lparr>ir_scope = s, ir_request_hash = h, ir_state = Pending, ir_run_id = None, ir_created_at = now, ir_expires_at = now + ttl\<rparr>]"
  | (mismatch) r where "rv = answer OcMismatch None None" "t = swept s now t0" "r \<in> set t" "ir_scope r = s" "ir_request_hash r \<noteq> h"
  | (replay) r where "rv = answer OcReplay (ir_run_id r) None" "t = swept s now t0" "r \<in> set t" "ir_scope r = s" "ir_request_hash r = h"
      "ir_state r = Complete"
  | (progress) r where "rv = answer OcInProgress None None" "t = swept s now t0" "r \<in> set t" "holds s h (ir_created_at r) r"
      "now - ir_created_at r < LEASE_SECONDS"
  | (taken) r where "rv = answer OcTakenOver None (Some now)" "r \<in> set (swept s now t0)" "holds s h (ir_created_at r) r"
      "LEASE_SECONDS \<le> now - ir_created_at r"
      "t = map (\<lambda>x. if x = r then x\<lparr>ir_created_at := now, ir_expires_at := now + ttl\<rparr> else x) (swept s now t0)"
proof (cases "row_at s (swept s now t0)")
  case None
  then have "rv = answer OcReserved None (Some now)"
    "t = swept s now t0 @ [\<lparr>ir_scope = s, ir_request_hash = h, ir_state = Pending, ir_run_id = None, ir_created_at = now, ir_expires_at = now + ttl\<rparr>]"
    using assms(1) by (auto simp: reserve_key_def swept_def[symmetric] Let_def)
  then show ?thesis using None inserted by (simp add: row_at_None)
next
  case (Some r)
  then have r: "r \<in> set (swept s now t0)" "ir_scope r = s" by (simp_all add: row_at_Some)
  have one: "ir_scope x = s \<longleftrightarrow> x = r" if "x \<in> set (swept s now t0)" for x
    using same_row[OF distinct_swept[OF assms(2)] that r(1)] r(2) by auto
  consider "ir_request_hash r \<noteq> h" | "ir_request_hash r = h" "ir_state r = Complete"
    | "ir_request_hash r = h" "ir_state r = Pending" "now - ir_created_at r < LEASE_SECONDS"
    | "ir_request_hash r = h" "ir_state r = Pending" "LEASE_SECONDS \<le> now - ir_created_at r"
    using idem_state.exhaust by (metis not_le)
  then show ?thesis
  proof cases
    case 4
    then have "t = map (\<lambda>x. if x = r then x\<lparr>ir_created_at := now, ir_expires_at := now + ttl\<rparr> else x) (swept s now t0)"
      using assms(1) Some one r(2) by (auto simp: reserve_key_def swept_def[symmetric] Let_def)
    then show ?thesis using 4 assms(1) Some r taken by (auto simp: reserve_key_def swept_def[symmetric] Let_def holds_def)
  qed (use assms(1) Some r mismatch replay progress in \<open>auto simp: reserve_key_def swept_def[symmetric] Let_def holds_def\<close>)
qed

text \<open>Every row of the new table is an old one or was stamped now, and old pending rows survive unless their lease is old.\<close>

lemma reserve_key_rows:
  assumes "reserve_key ttl now s h t0 = (rv, t)" "distinct (map ir_scope t0)"
  shows "distinct (map ir_scope t)"
    and "r \<in> set t \<Longrightarrow> r \<in> set t0 \<or> (ir_created_at r = now \<and> ir_expires_at r = now + ttl \<and> ir_state r = Pending \<and>
           (ir_run_id r = None \<or> (\<exists>r0 \<in> set t0. ir_state r0 = Pending \<and> ir_run_id r = ir_run_id r0)))"
    and "r \<in> set t0 \<Longrightarrow> now < ir_expires_at r \<Longrightarrow> ir_state r = Complete \<or> now < ir_created_at r + LEASE_SECONDS \<Longrightarrow> r \<in> set t"
proof -
  have d: "distinct (map ir_scope (swept s now t0))" by (rule distinct_swept[OF assms(2)])
  show "distinct (map ir_scope t)"
    using assms
  proof (cases rule: reserve_key_cases)
    case (taken r)
    have "map ir_scope t = map ir_scope (swept s now t0)" unfolding taken(5) by simp
    then show ?thesis using d by simp
  qed (use d in auto)
  show "r \<in> set t \<Longrightarrow> r \<in> set t0 \<or> (ir_created_at r = now \<and> ir_expires_at r = now + ttl \<and> ir_state r = Pending \<and>
           (ir_run_id r = None \<or> (\<exists>r0 \<in> set t0. ir_state r0 = Pending \<and> ir_run_id r = ir_run_id r0)))"
    using assms by (cases rule: reserve_key_cases) (auto dest: swept_subset simp: holds_def)
  show "r \<in> set t0 \<Longrightarrow> now < ir_expires_at r \<Longrightarrow> ir_state r = Complete \<or> now < ir_created_at r + LEASE_SECONDS \<Longrightarrow> r \<in> set t"
    using assms by (cases rule: reserve_key_cases) (auto dest: swept_keeps[where s = s] simp: holds_def image_iff)
qed

text \<open>A lease is handed out only to a request whose key has no pending row of this second.\<close>

lemma reserve_key_lease:
  assumes "reserve_key ttl now s h t0 = (rv, t)" "distinct (map ir_scope t0)" "0 < ttl" "rv_lease rv = Some l"
  shows "l = now" "\<exists>r \<in> set t. holds s h now r"
    and "\<not> (\<exists>r \<in> set t0. holds s h' now r \<and> ir_expires_at r = now + ttl)"
proof -
  show "l = now" using assms(1,2,4) by (cases rule: reserve_key_cases) (auto simp: answer_def)
  show "\<exists>r \<in> set t. holds s h now r"
    using assms(1,2,4) by (cases rule: reserve_key_cases) (auto simp: answer_def holds_def)
  show "\<not> (\<exists>r \<in> set t0. holds s h' now r \<and> ir_expires_at r = now + ttl)"
  proof
    assume "\<exists>r \<in> set t0. holds s h' now r \<and> ir_expires_at r = now + ttl"
    then obtain r where r: "r \<in> set t0" "holds s h' now r" "ir_expires_at r = now + ttl" by blast
    then have "r \<in> set (swept s now t0)" using assms(3) by (intro swept_keeps) auto
    with assms(1,2) show False
    proof (cases rule: reserve_key_cases)
      case inserted
      then show ?thesis using r(2) \<open>r \<in> set (swept s now t0)\<close> by (auto simp: holds_def)
    next
      case (taken r')
      then have "r' = r" using same_row[OF distinct_swept[OF assms(2)], of r' s now r] r(2) \<open>r \<in> set (swept s now t0)\<close> by (auto simp: holds_def)
      then show ?thesis using taken(4) r(2) by (simp add: holds_def LEASE_SECONDS_def)
    qed (use assms(4) in \<open>auto simp: answer_def\<close>)
  qed
qed

lemma held_row_unique:
  "\<lbrakk>distinct (map ir_scope t); r \<in> set t; holds s h l r\<rbrakk> \<Longrightarrow> filter (holds s h l) t = [r]"
proof (induction t)
  case (Cons x t)
  show ?case
  proof (cases "x = r")
    case True
    have "holds s h l y \<Longrightarrow> ir_scope y = s" for y by (simp add: holds_def)
    then have "filter (holds s h l) t = []" using Cons.prems True by (auto simp: filter_empty_conv holds_def image_iff)
    then show ?thesis using True Cons.prems by simp
  next
    case False
    then have "r \<in> set t" using Cons.prems by simp
    moreover have "\<not> holds s h l x" using Cons.prems False by (auto simp: holds_def image_iff)
    ultimately show ?thesis using Cons by simp
  qed
qed simp

lemma complete_key_cases:
  assumes "complete_key s h run l t = (c, t')" "distinct (map ir_scope t)"
  obtains (marked) r where "r \<in> set t" "holds s h l r" "c = Completed"
    "t' = map (\<lambda>x. if x = r then x\<lparr>ir_state := Complete, ir_run_id := Some run\<rparr> else x) t"
  | (kept) "\<not> (\<exists>r \<in> set t. holds s h l r)" "t' = t"
proof (cases "\<exists>r \<in> set t. holds s h l r")
  case True
  then obtain r where r: "r \<in> set t" "holds s h l r" by blast
  have one: "holds s h l x \<longleftrightarrow> x = r" if "x \<in> set t" for x
    using same_row[OF assms(2) that r(1)] r(2) by (auto simp: holds_def)
  have "t' = map (\<lambda>x. if x = r then x\<lparr>ir_state := Complete, ir_run_id := Some run\<rparr> else x) t" "c = Completed"
    using assms(1) held_row_unique[OF assms(2) r] one by (auto simp: complete_key_def)
  then show ?thesis using marked r by blast
next
  case False
  then have "filter (holds s h l) t = []" by (simp add: filter_empty_conv)
  then show ?thesis using False kept assms(1) by (auto simp: complete_key_def split: option.splits if_splits)
qed

lemma idem_okD:
  assumes "idem_ok ttl s"
  shows "distinct (map ir_scope (is_table s))" "r \<in> set (is_table s) \<Longrightarrow> ir_created_at r \<le> is_now s"
    "r \<in> set (is_table s) \<Longrightarrow> ir_expires_at r = ir_created_at r + ttl"
    "r \<in> set (is_table s) \<Longrightarrow> ir_state r = Pending \<Longrightarrow> ir_run_id r = None"
    "r \<in> set (is_table s) \<Longrightarrow> ir_state r = Complete \<Longrightarrow> \<exists>run. ir_run_id r = Some run \<and> (ir_scope r, ir_request_hash r, run) \<in> set (is_completed s)"
    "x \<in> set (is_holders s) \<Longrightarrow> ho_lease x \<le> is_now s"
    "x \<in> set (is_holders s) \<Longrightarrow> current x (is_table s) \<or> ho_lease x < is_now s"
    "\<lbrakk>x \<in> set (is_holders s); y \<in> set (is_holders s); ho_scope x = ho_scope y; ho_lease x = ho_lease y\<rbrakk> \<Longrightarrow> ho_request x = ho_request y"
    "distinct (map ho_request (is_holders s))"
  using assms unfolding idem_ok_def table_ok_def holders_ok_def by blast+

lemma idem_okI:
  assumes "distinct (map ir_scope (is_table s))"
    "\<And>r. r \<in> set (is_table s) \<Longrightarrow> ir_created_at r \<le> is_now s \<and> ir_expires_at r = ir_created_at r + ttl"
    "\<And>r. r \<in> set (is_table s) \<Longrightarrow> ir_state r = Pending \<Longrightarrow> ir_run_id r = None"
    "\<And>r. r \<in> set (is_table s) \<Longrightarrow> ir_state r = Complete \<Longrightarrow> \<exists>run. ir_run_id r = Some run \<and> (ir_scope r, ir_request_hash r, run) \<in> set (is_completed s)"
    "distinct (map ho_request (is_holders s))"
    "\<And>x. x \<in> set (is_holders s) \<Longrightarrow> ho_lease x \<le> is_now s \<and> (current x (is_table s) \<or> ho_lease x < is_now s)"
    "\<And>x y. \<lbrakk>x \<in> set (is_holders s); y \<in> set (is_holders s); ho_scope x = ho_scope y; ho_lease x = ho_lease y\<rbrakk> \<Longrightarrow> ho_request x = ho_request y"
  shows "idem_ok ttl s"
  unfolding idem_ok_def table_ok_def holders_ok_def
  by (intro conjI ballI impI) (use assms in \<open>blast+\<close>)

text \<open>What one transaction of the other requests can do to a request that still runs.\<close>

lemma reserve_keeps_current:
  assumes "idem_ok ttl s" "0 < ttl" "reserve_key ttl (is_now s) k h (is_table s) = (rv, t)"
    and "current x (is_table s) \<or> ho_lease x < is_now s"
  shows "current x t \<or> ho_lease x < is_now s"
proof (cases "current x (is_table s)")
  case True
  then obtain r where r: "r \<in> set (is_table s)" "holds (ho_scope x) (ho_hash x) (ho_lease x) r" by (auto simp: current_def)
  show ?thesis
  proof (cases "ho_lease x < is_now s")
    case False
    then have c: "ir_created_at r = is_now s" using r idem_okD(2)[OF assms(1) r(1)] by (simp add: holds_def)
    then have "r \<in> set t"
      using reserve_key_rows(3)[OF assms(3) idem_okD(1)[OF assms(1)] r(1)] idem_okD(3)[OF assms(1) r(1)] assms(2)
      by (simp add: LEASE_SECONDS_def)
    then show ?thesis using r(2) by (auto simp: current_def)
  qed simp
qed (use assms(4) in simp)

lemma reserving_ok:
  assumes ok: "idem_ok ttl s" and ttl: "0 < ttl" and rv: "reserve_key ttl (is_now s) k h (is_table s) = (rv, t)"
    and i: "i \<notin> ho_request ` set (is_holders s)"
  shows "idem_ok ttl (s\<lparr>is_table := t,
      is_holders := (case rv_lease rv of None \<Rightarrow> is_holders s
                     | Some l \<Rightarrow> is_holders s @ [\<lparr>ho_request = i, ho_scope = k, ho_hash = h, ho_lease = l\<rparr>])\<rparr>)"
    (is "idem_ok ttl ?s")
proof -
  note d = idem_okD(1)[OF ok]
  let ?new = "\<lambda>l. \<lparr>ho_request = i, ho_scope = k, ho_hash = h, ho_lease = l\<rparr>"
  have old: "x \<in> set (is_holders s) \<or> (\<exists>l. rv_lease rv = Some l \<and> x = ?new l)" if "x \<in> set (is_holders ?s)" for x
    using that by (auto split: option.splits)
  have clash: False if l: "rv_lease rv = Some l" and x: "x \<in> set (is_holders s)" "ho_scope x = k" "ho_lease x = l" for x l
  proof -
    have now: "l = is_now s" by (rule reserve_key_lease(1)[OF rv d ttl l])
    then have "current x (is_table s)" using idem_okD(7)[OF ok x(1)] x(3) by simp
    then obtain r where r: "r \<in> set (is_table s)" "holds k (ho_hash x) (is_now s) r" using x(2,3) now by (auto simp: current_def)
    moreover have "ir_expires_at r = is_now s + ttl" using idem_okD(3)[OF ok r(1)] r(2) by (simp add: holds_def)
    ultimately show False using reserve_key_lease(3)[OF rv d ttl l] by blast
  qed
  show ?thesis
  proof (rule idem_okI)
    show "distinct (map ir_scope (is_table ?s))" using reserve_key_rows(1)[OF rv d] by simp
    show "ir_created_at r \<le> is_now ?s \<and> ir_expires_at r = ir_created_at r + ttl" if "r \<in> set (is_table ?s)" for r
      using reserve_key_rows(2)[OF rv d, of r] that idem_okD(2,3)[OF ok] by auto
    show "ir_run_id r = None" if "r \<in> set (is_table ?s)" "ir_state r = Pending" for r
      using reserve_key_rows(2)[OF rv d, of r] that idem_okD(4)[OF ok] by fastforce
    show "\<exists>run. ir_run_id r = Some run \<and> (ir_scope r, ir_request_hash r, run) \<in> set (is_completed ?s)"
      if "r \<in> set (is_table ?s)" "ir_state r = Complete" for r
      using reserve_key_rows(2)[OF rv d, of r] that idem_okD(5)[OF ok] by auto
    show "distinct (map ho_request (is_holders ?s))" using idem_okD(9)[OF ok] i by (auto split: option.split)
    show "ho_lease x \<le> is_now ?s \<and> (current x (is_table ?s) \<or> ho_lease x < is_now ?s)" if "x \<in> set (is_holders ?s)" for x
      using old[OF that]
    proof
      assume x: "x \<in> set (is_holders s)"
      then show ?thesis using reserve_keeps_current[OF ok ttl rv idem_okD(7)[OF ok x]] idem_okD(6)[OF ok x] by simp
    next
      assume "\<exists>l. rv_lease rv = Some l \<and> x = ?new l"
      then obtain l where l: "rv_lease rv = Some l" "x = ?new l" by blast
      then show ?thesis using reserve_key_lease(1,2)[OF rv d ttl l(1)] by (simp add: current_def)
    qed
    show "ho_request x = ho_request y"
      if "x \<in> set (is_holders ?s)" "y \<in> set (is_holders ?s)" "ho_scope x = ho_scope y" "ho_lease x = ho_lease y" for x y
      using old[OF that(1)] old[OF that(2)] that(3,4) clash idem_okD(8)[OF ok, of x y] by fastforce
  qed
qed

lemma other_holder_current:
  assumes ok: "idem_ok ttl s" and x: "x \<in> set (is_holders s)" and y: "y \<in> set (without x (is_holders s))"
    and "current y (is_table s)" and t: "\<And>r. r \<in> set (is_table s) \<Longrightarrow> \<not> holds (ho_scope x) (ho_hash x) (ho_lease x) r \<Longrightarrow> r \<in> set t"
  shows "current y t"
proof -
  obtain r where r: "r \<in> set (is_table s)" "holds (ho_scope y) (ho_hash y) (ho_lease y) r" using assms(4) by (auto simp: current_def)
  have "\<not> holds (ho_scope x) (ho_hash x) (ho_lease x) r"
  proof
    assume "holds (ho_scope x) (ho_hash x) (ho_lease x) r"
    then have "ho_scope x = ho_scope y" "ho_lease x = ho_lease y" using r(2) by (simp_all add: holds_def)
    then have "ho_request x = ho_request y" using idem_okD(8)[OF ok x, of y] y by (simp add: without_def)
    then show False using y by (simp add: without_def)
  qed
  then show ?thesis using t r by (auto simp: current_def)
qed

text \<open>Both ways to finish a request change only rows it holds, and never stamp one.\<close>

lemma finishing_ok:
  assumes ok: "idem_ok ttl s" and x: "x \<in> set (is_holders s)" and d: "distinct (map ir_scope t)"
    and old: "\<And>r. r \<in> set t \<Longrightarrow> r \<in> set (is_table s) \<or>
        (\<exists>r0 run. r0 \<in> set (is_table s) \<and> r = r0\<lparr>ir_state := Complete, ir_run_id := Some run\<rparr> \<and>
           (ir_scope r, ir_request_hash r, run) \<in> set recorded)"
    and keep: "\<And>r. r \<in> set (is_table s) \<Longrightarrow> \<not> holds (ho_scope x) (ho_hash x) (ho_lease x) r \<Longrightarrow> r \<in> set t"
    and rec: "set (is_completed s) \<subseteq> set recorded"
  shows "idem_ok ttl (s\<lparr>is_table := t, is_holders := without x (is_holders s), is_completed := recorded\<rparr>)"
    (is "idem_ok ttl ?s")
proof (rule idem_okI)
  show "distinct (map ir_scope (is_table ?s))" using d by simp
  show "ir_created_at r \<le> is_now ?s \<and> ir_expires_at r = ir_created_at r + ttl" if "r \<in> set (is_table ?s)" for r
    using old[of r] that idem_okD(2,3)[OF ok] by auto
  show "ir_run_id r = None" if "r \<in> set (is_table ?s)" "ir_state r = Pending" for r
    using old[of r] that idem_okD(4)[OF ok] by auto
  show "\<exists>run. ir_run_id r = Some run \<and> (ir_scope r, ir_request_hash r, run) \<in> set (is_completed ?s)"
    if "r \<in> set (is_table ?s)" "ir_state r = Complete" for r
    using old[of r] that idem_okD(5)[OF ok] rec by fastforce
  show "distinct (map ho_request (is_holders ?s))" using idem_okD(9)[OF ok] by (simp add: without_def distinct_map_filter)
  show "ho_lease y \<le> is_now ?s \<and> (current y (is_table ?s) \<or> ho_lease y < is_now ?s)" if "y \<in> set (is_holders ?s)" for y
    using that idem_okD(6,7)[OF ok, of y] other_holder_current[OF ok x, of y t] keep by (auto simp: without_def)
  show "ho_request y = ho_request z"
    if "y \<in> set (is_holders ?s)" "z \<in> set (is_holders ?s)" "ho_scope y = ho_scope z" "ho_lease y = ho_lease z" for y z
    using that idem_okD(8)[OF ok, of y z] by (simp add: without_def)
qed

lemma idem_step_ok:
  assumes "0 < ttl" "idem_ok ttl s" "idem_step ttl s s'"
  shows "idem_ok ttl s'"
  using assms(3)
proof (cases rule: idem_step.cases)
  case (tick now)
  then show ?thesis using assms(2) by (fastforce intro!: idem_okI dest: idem_okD)
next
  case (reserving k h rv t i)
  then show ?thesis using reserving_ok[OF assms(2,1)] by simp
next
  case (completing x run c t)
  note d = idem_okD(1)[OF assms(2)]
  let ?rec = "if c = Completed then is_completed s @ [(ho_scope x, ho_hash x, run)] else is_completed s"
  have "distinct (map ir_scope t) \<and>
     (\<forall>r \<in> set t. r \<in> set (is_table s) \<or> (\<exists>r0 run. r0 \<in> set (is_table s) \<and> r = r0\<lparr>ir_state := Complete, ir_run_id := Some run\<rparr> \<and>
           (ir_scope r, ir_request_hash r, run) \<in> set ?rec)) \<and>
     (\<forall>r \<in> set (is_table s). \<not> holds (ho_scope x) (ho_hash x) (ho_lease x) r \<longrightarrow> r \<in> set t)"
    using completing(3) d
  proof (cases rule: complete_key_cases)
    case (marked r)
    have "map ir_scope t = map ir_scope (is_table s)" unfolding marked(4) by simp
    then have "distinct (map ir_scope t)" using d by metis
    then show ?thesis using marked by (auto simp: holds_def image_iff)
  qed (use d in auto)
  note t = this
  show ?thesis unfolding completing(1)
    by (rule finishing_ok[OF assms(2) completing(2)]) (use t in \<open>auto split: if_splits\<close>)
next
  case (releasing x)
  have "idem_ok ttl (s\<lparr>is_table := release_key (ho_scope x) (ho_hash x) (ho_lease x) (is_table s),
      is_holders := without x (is_holders s), is_completed := is_completed s\<rparr>)"
    by (rule finishing_ok[OF assms(2) releasing(2)]) (use idem_okD(1)[OF assms(2)] in \<open>auto simp: release_key_def distinct_map_filter\<close>)
  then show ?thesis using releasing(1) by simp
qed

lemma fresh_system_ok: "idem_ok ttl (fresh_system now)"
  by (simp add: idem_ok_def table_ok_def holders_ok_def fresh_system_def)

text \<open>The system of requests as a step system, for any positive time to live.\<close>

interpretation idem: started_system "idem_step ttl" "\<lambda>s. 0 < ttl \<and> idem_ok ttl s" "\<lambda>s. 0 < ttl \<and> (\<exists>now. s = fresh_system now)"
  by unfold_locales (auto intro: idem_step_ok fresh_system_ok)

lemma reachable_idem_ok: "\<lbrakk>idem_reachable ttl s; 0 < ttl\<rbrakk> \<Longrightarrow> idem_ok ttl s"
  using idem.reachable_inv by blast

text \<open>A lease that lies in the past and is not in the table never comes back.\<close>

definition overtaken :: "holder \<Rightarrow> idem_system \<Rightarrow> bool" where
  "overtaken x s \<longleftrightarrow> ho_lease x < is_now s \<and> \<not> current x (is_table s)"

lemma overtaken_stable:
  assumes "0 < ttl \<and> idem_ok ttl s" "idem_step ttl s s'" "overtaken x s"
  shows "overtaken x s'"
proof -
  have d: "distinct (map ir_scope (is_table s))" using idem_okD(1) assms(1) by blast
  show ?thesis using assms(2)
  proof (cases rule: idem_step.cases)
    case (reserving k h rv t i)
    have "\<not> current x t"
    proof
      assume "current x t"
      then obtain r where r: "r \<in> set t" "holds (ho_scope x) (ho_hash x) (ho_lease x) r" by (auto simp: current_def)
      then show False using reserve_key_rows(2)[OF reserving(2) d r(1)] assms(3) by (auto simp: overtaken_def current_def holds_def)
    qed
    then show ?thesis using assms(3) reserving(1) by (simp add: overtaken_def)
  next
    case (completing y run c t)
    have "\<not> current x t" using completing(3) d
      by (cases rule: complete_key_cases) (use assms(3) in \<open>auto simp: overtaken_def current_def holds_def\<close>)
    then show ?thesis using assms(3) completing(1) by (simp add: overtaken_def)
  qed (use assms(3) in \<open>auto simp: overtaken_def current_def release_key_def\<close>)
qed

lemma not_current_powerless:
  assumes "distinct (map ir_scope t)" "\<not> current x t"
  shows "snd (complete_key (ho_scope x) (ho_hash x) run (ho_lease x) t) = t" "release_key (ho_scope x) (ho_hash x) (ho_lease x) t = t"
proof -
  obtain c t' where c: "complete_key (ho_scope x) (ho_hash x) run (ho_lease x) t = (c, t')" by fastforce
  then have "t' = t" using assms(1) by (cases rule: complete_key_cases) (use assms(2) in \<open>auto simp: current_def\<close>)
  then show "snd (complete_key (ho_scope x) (ho_hash x) run (ho_lease x) t) = t" by (simp add: c)
  show "release_key (ho_scope x) (ho_hash x) (ho_lease x) t = t"
    using assms(2) by (auto simp: release_key_def current_def filter_id_conv)
qed

lemma complete_row_stable:
  assumes "0 < ttl \<and> idem_ok ttl s" "idem_step ttl s s'" "r \<in> set (is_table s)" "ir_state r = Complete"
  shows "r \<in> set (is_table s') \<or> ir_expires_at r \<le> is_now s'"
proof -
  have d: "distinct (map ir_scope (is_table s))" using idem_okD(1) assms(1) by blast
  show ?thesis using assms(2)
  proof (cases rule: idem_step.cases)
    case (reserving k h rv t i)
    then show ?thesis using reserve_key_rows(3)[OF reserving(2) d assms(3)] assms(4) by auto
  next
    case (completing y run c t)
    have "r \<in> set t" using completing(3) d
      by (cases rule: complete_key_cases) (use assms(3,4) in \<open>auto simp: holds_def image_iff\<close>)
    then show ?thesis using completing(1) by simp
  qed (use assms(3,4) in \<open>auto simp: release_key_def holds_def\<close>)
qed

lemma idem_step_now: "idem_step ttl s s' \<Longrightarrow> is_now s \<le> is_now s'"
  by (cases rule: idem_step.cases) auto

lemma complete_row_stays:
  assumes "idem_reachable ttl s" "0 < ttl" "(idem_step ttl)\<^sup>*\<^sup>* s s'" "r \<in> set (is_table s)" "ir_state r = Complete"
  shows "r \<in> set (is_table s') \<or> ir_expires_at r \<le> is_now s'"
proof (rule idem.stays[where P = "\<lambda>s. r \<in> set (is_table s) \<or> ir_expires_at r \<le> is_now s"])
  show "r \<in> set (is_table s') \<or> ir_expires_at r \<le> is_now s'"
    if "0 < ttl \<and> idem_ok ttl s" "idem_step ttl s s'" "r \<in> set (is_table s) \<or> ir_expires_at r \<le> is_now s" for s s'
    using that(3) complete_row_stable[OF that(1,2) _ assms(5)] idem_step_now[OF that(2)] by linarith
qed (use assms reachable_idem_ok in auto)

subsection \<open>Properties\<close>

text \<open>
  C32. A request that was slow and not dead can do no harm: in every interleaving of requests on one key store, of two running
  requests for the same key at most one holds the key's row, and a request that does not hold it now never holds it
  again: however the others go on, its completion and its release leave the table as it is.\<close>

theorem overtaken_request_is_powerless:
  assumes "idem_reachable ttl s" "0 < ttl" "x \<in> set (is_holders s)" "y \<in> set (is_holders s)" "ho_scope x = ho_scope y"
    "current x (is_table s)" "ho_request x \<noteq> ho_request y" "(idem_step ttl)\<^sup>*\<^sup>* s s'"
  shows "\<not> current y (is_table s') \<and>
     snd (complete_key (ho_scope y) (ho_hash y) run (ho_lease y) (is_table s')) = is_table s' \<and>
     release_key (ho_scope y) (ho_hash y) (ho_lease y) (is_table s') = is_table s'"
proof -
  have ok: "idem_ok ttl s" by (rule reachable_idem_ok[OF assms(1,2)])
  have "\<not> current y (is_table s)"
  proof
    assume "current y (is_table s)"
    then obtain r r' where "r \<in> set (is_table s)" "holds (ho_scope x) (ho_hash x) (ho_lease x) r"
      "r' \<in> set (is_table s)" "holds (ho_scope y) (ho_hash y) (ho_lease y) r'"
      using assms(6) by (auto simp: current_def)
    moreover from this have "r = r'" using same_row[OF idem_okD(1)[OF ok]] assms(5) by (auto simp: holds_def)
    ultimately have "ho_lease x = ho_lease y" by (simp add: holds_def)
    then show False using idem_okD(8)[OF ok assms(3,4,5)] assms(7) by simp
  qed
  then have "overtaken y s" using idem_okD(7)[OF ok assms(4)] by (simp add: overtaken_def)
  moreover have "overtaken y s \<Longrightarrow> overtaken y s'"
    by (rule idem.stays[where P = "overtaken y", OF _ assms(8)]) (use ok assms(2) overtaken_stable in auto)
  ultimately have "overtaken y s'" by blast
  moreover have "idem_ok ttl s'" using idem.inv_steps[OF assms(8)] ok assms(2) by blast
  ultimately show ?thesis using not_current_powerless[OF idem_okD(1)] by (auto simp: overtaken_def)
qed

text \<open>
  A completed key answers for its run and no other until it expires: whatever happens after the row was completed, a
  request with the same body is answered with the run the completion recorded, and one with another body is refused.\<close>

theorem completed_key_replays:
  assumes "idem_reachable ttl s" "0 < ttl" "r \<in> set (is_table s)" "ir_state r = Complete"
    "(idem_step ttl)\<^sup>*\<^sup>* s s'" "is_now s' < ir_expires_at r"
  shows "\<exists>run. (ir_scope r, ir_request_hash r, run) \<in> set (is_completed s) \<and>
     fst (reserve_key ttl (is_now s') (ir_scope r) h (is_table s')) =
       (if h = ir_request_hash r then answer OcReplay (Some run) None else answer OcMismatch None None)"
proof -
  have ok: "idem_ok ttl s" by (rule reachable_idem_ok[OF assms(1,2)])
  obtain run where run: "ir_run_id r = Some run" "(ir_scope r, ir_request_hash r, run) \<in> set (is_completed s)"
    using idem_okD(5)[OF ok assms(3,4)] by blast
  have "r \<in> set (is_table s')" using complete_row_stays[OF assms(1,2,5,3,4)] assms(6) by linarith
  then have sw: "r \<in> set (swept (ir_scope r) (is_now s') (is_table s'))" by (rule swept_keeps[OF _ assms(6)])
  have "idem_ok ttl s'" using idem.inv_steps[OF assms(5)] ok assms(2) by blast
  then have "row_at (ir_scope r) (swept (ir_scope r) (is_now s') (is_table s')) = Some r"
    using row_at_eq[OF distinct_swept[OF idem_okD(1)] sw] by blast
  then show ?thesis using run assms(4) by (auto simp: reserve_key_def swept_def[symmetric] Let_def)
qed

subsection \<open>Examples\<close>

definition example_scope :: key_scope where
  "example_scope = \<lparr>ks_tenant = ''t'', ks_program = ''p'', ks_step = ''s'', ks_key = ''k''\<rparr>"

text \<open>A request reserves the key, a retry takes it over after the lease, and completes it.\<close>

definition slow :: holder where
  "slow = \<lparr>ho_request = 1, ho_scope = example_scope, ho_hash = ''h'', ho_lease = 0\<rparr>"

definition taker :: holder where
  "taker = \<lparr>ho_request = 2, ho_scope = example_scope, ho_hash = ''h'', ho_lease = 40\<rparr>"

definition pending_row :: "int \<Rightarrow> idem_row" where
  "pending_row now =
     \<lparr>ir_scope = example_scope, ir_request_hash = ''h'', ir_state = Pending, ir_run_id = None, ir_created_at = now, ir_expires_at = now + 86400\<rparr>"

definition taken_over :: idem_system where
  "taken_over = \<lparr>is_now = 40, is_table = [pending_row 40], is_holders = [slow, taker], is_completed = []\<rparr>"

definition finished_key :: idem_system where
  "finished_key = \<lparr>is_now = 40, is_table = [(pending_row 40)\<lparr>ir_state := Complete, ir_run_id := Some ''r''\<rparr>], is_holders = [slow],
     is_completed = [(example_scope, ''h'', ''r'')]\<rparr>"

lemma example_reserve:
  "reserve_key 86400 0 example_scope ''h'' [] = (answer OcReserved None (Some 0), [pending_row 0])"
  "reserve_key 86400 40 example_scope ''h'' [pending_row 0] = (answer OcTakenOver None (Some 40), [pending_row 40])"
  by (simp_all add: reserve_key_def drop_expired_def row_at_def pending_row_def SWEEP_LIMIT_def numeral_eq_Suc LEASE_SECONDS_def)

lemma taken_over_reachable: "(idem_step 86400)\<^sup>*\<^sup>* (fresh_system 0) taken_over"
proof -
  define s1 where "s1 = \<lparr>is_now = 0, is_table = [pending_row 0], is_holders = [slow], is_completed = []\<rparr>"
  have "idem_step 86400 (fresh_system 0) s1"
    using idem_step.reserving[of 86400 "fresh_system 0" example_scope "''h''" _ _ 1] example_reserve(1)
    by (simp add: fresh_system_def answer_def s1_def slow_def)
  moreover have "idem_step 86400 s1 (s1\<lparr>is_now := 40\<rparr>)" by (rule idem_step.tick) (simp add: s1_def)
  moreover have "idem_step 86400 (s1\<lparr>is_now := 40\<rparr>) taken_over"
    using idem_step.reserving[of 86400 "s1\<lparr>is_now := 40\<rparr>" example_scope "''h''" _ _ 2] example_reserve(2)
    by (simp add: s1_def answer_def taken_over_def taker_def slow_def)
  ultimately show ?thesis by (meson converse_rtranclp_into_rtranclp r_into_rtranclp)
qed

lemma finished_key_reachable: "(idem_step 86400)\<^sup>*\<^sup>* (fresh_system 0) finished_key"
proof -
  have "complete_key example_scope ''h'' ''r'' 40 [pending_row 40] = (Completed, [(pending_row 40)\<lparr>ir_state := Complete, ir_run_id := Some ''r''\<rparr>])"
    by (simp add: complete_key_def holds_def pending_row_def)
  then have "idem_step 86400 taken_over finished_key"
    using idem_step.completing[of taker taken_over "''r''" _ _ 86400]
    by (simp add: taken_over_def finished_key_def taker_def slow_def without_def)
  with taken_over_reachable show ?thesis by simp
qed

theorem overtaken_request_is_powerless_witness:
  "snd (complete_key example_scope ''h'' ''r'' 0 (is_table taken_over)) = is_table taken_over \<and>
   release_key example_scope ''h'' 0 (is_table taken_over) = is_table taken_over"
proof -
  have "current taker (is_table taken_over)" by (simp add: current_def taken_over_def taker_def holds_def pending_row_def)
  then show ?thesis
    using overtaken_request_is_powerless[of 86400 taken_over taker slow taken_over "''r''"] taken_over_reachable
    by (auto simp: taken_over_def taker_def slow_def)
qed

theorem completed_key_replays_witness:
  "fst (reserve_key 86400 40 example_scope ''h'' (is_table finished_key)) = answer OcReplay (Some ''r'') None"
proof -
  let ?r = "(pending_row 40)\<lparr>ir_state := Complete, ir_run_id := Some ''r''\<rparr>"
  have "?r \<in> set (is_table finished_key)" by (simp add: finished_key_def)
  then show ?thesis
    using completed_key_replays[of 86400 finished_key ?r finished_key "''h''"] finished_key_reachable
    by (auto simp: finished_key_def pending_row_def)
qed

end
