(* ===== verification/Migration_Program.thy ===== *)
theory Migration_Program
  imports Goal_Compiler Budgets Idempotency
begin

section \<open>Migration programs\<close>

text \<open>
  Ordered goals with human gates: \<open>contracts/program.py\<close>, \<open>src/recertia/programs/materialize.py\<close>, \<open>stress.py\<close>, \<open>store.py\<close> and
  the service \<open>src/recertia/app/programs.py\<close>. A program is a list of steps, each with a goal; a step is previewed, a run of
  its goal is created elsewhere and bound to the step, and the status of the bound run moves the step and the
  program. Programs live in one table with a version per row; a handler reads a program, computes, and saves it pinned to
  the version it read. Authorisation, the rendering of answers and the git commands of \<open>git_tip.py\<close> are left out: the tip of
  a repository and the existence of a binding root are functions of the environment. SHA-256 hashes, the runs of the
  tenant and the text of a number are functions of the environment too. Fields nobody reads back (decomposition, source, author,
  creation time, reserved dependencies, free-text notes) are left out.\<close>

subsection \<open>Contracts\<close>

datatype program_status = PgDraft | PgActive | PgBlocked | PgCompleted | PgAbandoned

datatype step_status = SsPlanned | SsReady | SsQueued | SsRunning | SsSucceeded | SsFailed | SsSkipped | SsCancelled

datatype step_role = RoleCharacterization | RoleStructural | RoleBehaviourLock | RoleCustom

datatype handoff_mode = HandoffNone | OperatorWorkdir | CopyForward | GitTip

datatype freeze_enforcement = Advisory | HardFreeze

record external_handoff =
  eh_branch :: "string option"
  eh_pr_url :: "string option"
  eh_base_sha :: "string option"
  eh_head_sha :: "string option"

record repo_binding =
  rb_binding_id :: string
  rb_root :: string
  rb_default_branch :: string
  rb_remote_url :: "string option"

record acceptance_gate =
  ag_terminal_in :: "string list"
  ag_require_program_bar :: bool

record program_budget =
  pb_max_cost_usd :: "real option"
  pb_spent_cost_usd :: real

record migration_step =
  ms_step_id :: string
  ms_ordinal :: int
  ms_title :: string
  ms_role :: step_role
  ms_goal :: goal
  ms_freeze_paths :: "string list"
  ms_mutate_paths :: "string list"
  ms_acceptance_gate :: acceptance_gate
  ms_status :: step_status
  ms_run_ids :: "run_id list"
  ms_current_run_id :: "run_id option"
  ms_criteria_preview_hash :: "string option"
  ms_external_handoff :: "external_handoff option"
  ms_skip_note :: "string option"
  ms_goal_revision :: int

record migration_program =
  mp_program_id :: string
  mp_tenant_id :: tenant
  mp_title :: string
  mp_intent :: string
  mp_task_class :: string
  mp_status :: program_status
  mp_steps :: "migration_step list"
  mp_program_bar_desired :: "desired_state list"
  mp_program_bar_constraints :: "constraint list"
  mp_handoff :: handoff_mode
  mp_freeze_enforcement :: freeze_enforcement
  mp_repo_binding :: "repo_binding option"
  mp_budget :: "program_budget option"
  mp_updated_at :: instant
  mp_disclaimer_acked_at :: "instant option"
  mp_version :: int

definition program_ok :: "migration_program \<Rightarrow> bool" where
  "program_ok p \<longleftrightarrow> distinct (map ms_ordinal (mp_steps p)) \<and> distinct (map ms_step_id (mp_steps p))"

datatype prog_error =
    ProgNotFound | ProgConfig | ProgConflict | PreconditionFailed | PreconditionRequired | BudgetRefused | UncaughtValueError
  | IdemMismatch | IdemInProgress | StateCorrupt

text \<open>What the service reads besides the program: the digest of a criteria list and of a request body, \<open>float\<close> on text, the run
  records of the tenant, the criteria hash a checkpoint of the run holds, and git.\<close>

record run_record =
  rr_status :: string
  rr_terminal :: "string option"
  rr_criteria_hash :: "string option"

record program_env =
  pg_criteria_hash :: "task_criterion list \<Rightarrow> string"
  pg_float :: "string \<Rightarrow> real option"
  pg_runs :: "tenant \<Rightarrow> run_id \<Rightarrow> run_record option"
  pg_loaded_hash :: "tenant \<Rightarrow> run_id \<Rightarrow> string option"
  pg_binding_root_ok :: "tenant \<Rightarrow> repo_binding \<Rightarrow> bool"
  pg_head_sha :: "tenant \<Rightarrow> string option \<Rightarrow> string option"
  pg_rev_parse :: "tenant \<Rightarrow> repo_binding \<Rightarrow> string option"
  pg_checkout :: "tenant \<Rightarrow> repo_binding \<Rightarrow> string \<Rightarrow> run_id \<Rightarrow> string option"
  pg_now :: instant

subsection \<open>Materializing a step\<close>

definition rstrip_slash :: "string \<Rightarrow> string" where
  "rstrip_slash p = rev (dropWhile (\<lambda>c. c = CHR ''/'') (rev p))"

text \<open>The order of the overlap only shows in a message.\<close>

definition freeze_mutate_overlap :: "migration_step \<Rightarrow> string list" where
  "freeze_mutate_overlap st =
     filter (\<lambda>p. p \<in> rstrip_slash ` set (ms_mutate_paths st)) (remdups (map rstrip_slash (ms_freeze_paths st)))"

text \<open>A dictionary keeps the position of the first entry of a key and the value of the last.\<close>

fun upsert :: "('a \<Rightarrow> string) \<Rightarrow> 'a \<Rightarrow> 'a list \<Rightarrow> 'a list" where
  "upsert key x [] = [x]"
| "upsert key x (y # ys) = (if key y = key x then x # ys else y # upsert key x ys)"

definition by_id :: "('a \<Rightarrow> string) \<Rightarrow> 'a list \<Rightarrow> 'a list" where
  "by_id key xs = fold (upsert key) xs []"

fun merge_extra :: "('a \<Rightarrow> string) \<Rightarrow> 'a list \<Rightarrow> 'a list \<Rightarrow> (prog_error, 'a list) result" where
  "merge_extra key [] acc = Inr acc"
| "merge_extra key (x # xs) acc =
     (if \<exists>y \<in> set acc. key y = key x \<and> y \<noteq> x then Inl ProgConfig else merge_extra key xs (upsert key x acc))"

definition merge_desired :: "desired_state list \<Rightarrow> desired_state list \<Rightarrow> (prog_error, desired_state list) result" where
  "merge_desired base extra = merge_extra d_id extra (by_id d_id base)"

definition merge_constraints :: "constraint list \<Rightarrow> constraint list \<Rightarrow> (prog_error, constraint list) result" where
  "merge_constraints base extra = merge_extra k_id extra (by_id k_id base)"

definition freeze_constraint :: "migration_step \<Rightarrow> constraint" where
  "freeze_constraint st =
     \<lparr>k_id = ''freeze-'' @ ms_step_id st, k_kind = MustNotModify, k_value = VList (ms_freeze_paths st), k_weight = 1\<rparr>"

definition bar_applies :: "migration_program \<Rightarrow> migration_step \<Rightarrow> bool" where
  "bar_applies p st \<longleftrightarrow> ag_require_program_bar (ms_acceptance_gate st) \<and>
     (ms_role st \<noteq> RoleCharacterization \<or> mp_program_bar_desired p \<noteq> [])"

definition or_given :: "string option \<Rightarrow> string \<Rightarrow> string option" where
  "or_given x y = (if truthy x then x else Some y)"

definition hard_criterion :: "desired_state \<Rightarrow> bool" where
  "hard_criterion d \<longleftrightarrow> 1 \<le> d_weight d \<and> d_kind d \<noteq> DJudge"

text \<open>The constructor call at the end validates: a goal without a required criterion raises.\<close>

definition materialize_step_goal :: "migration_program \<Rightarrow> migration_step \<Rightarrow> (prog_error, goal) result" where
  "materialize_step_goal p st =
     (if freeze_mutate_overlap st \<noteq> [] then Inl ProgConfig
      else
        bind_result (if bar_applies p st then merge_desired (g_desired (ms_goal st)) (mp_program_bar_desired p)
                     else Inr (g_desired (ms_goal st))) (\<lambda>desired.
        bind_result (if bar_applies p st then merge_constraints (g_constraints (ms_goal st)) (mp_program_bar_constraints p)
                     else Inr (g_constraints (ms_goal st))) (\<lambda>constraints1.
        bind_result (if mp_freeze_enforcement p = HardFreeze \<and> ms_freeze_paths st \<noteq> [] then merge_constraints constraints1 [freeze_constraint st]
                     else Inr constraints1) (\<lambda>constraints.
          if filter hard_criterion desired = [] then Inl UncaughtValueError
          else Inr \<lparr>g_goal_id = or_given (g_goal_id (ms_goal st)) (mp_program_id p @ ''-'' @ ms_step_id st),
                    g_desired = desired, g_constraints = constraints, g_context = g_context (ms_goal st),
                    g_task_class = or_given (g_task_class (ms_goal st)) (mp_task_class p),
                    g_strategy_hint = g_strategy_hint (ms_goal st), g_mea_opt_in = False\<rparr>))))"

definition preview_hash :: "program_env \<Rightarrow> goal \<Rightarrow> (prog_error, string) result" where
  "preview_hash env g =
     (case compile_goal g Caller of Inl _ \<Rightarrow> Inl UncaughtValueError | Inr cs \<Rightarrow> Inr (pg_criteria_hash env cs))"

definition ceiling_value :: "program_env \<Rightarrow> constraint_value \<Rightarrow> real option" where
  "ceiling_value env v = (case v of VFloat x \<Rightarrow> Some x | VStr s \<Rightarrow> pg_float env s | VList _ \<Rightarrow> None)"

fun apply_ceilings :: "program_env \<Rightarrow> constraint list \<Rightarrow> budget \<Rightarrow> (prog_error, budget) result" where
  "apply_ceilings env [] b = Inr b"
| "apply_ceilings env (c # cs) b =
     (if k_kind c \<noteq> BudgetCeiling then apply_ceilings env cs b
      else case ceiling_value env (k_value c) of
             None \<Rightarrow> Inl UncaughtValueError
           | Some x \<Rightarrow> apply_ceilings env cs
               (b\<lparr>max_cost_usd := (case max_cost_usd b of None \<Rightarrow> Some x | Some y \<Rightarrow> Some (min y x))\<rparr>))"

definition resolve_run_budget :: "program_env \<Rightarrow> goal \<Rightarrow> budget option \<Rightarrow> (prog_error, budget) result" where
  "resolve_run_budget env g override =
     apply_ceilings env (g_constraints g) (case override of None \<Rightarrow> default_budget | Some b \<Rightarrow> b)"

definition previous_step :: "migration_program \<Rightarrow> migration_step \<Rightarrow> migration_step option" where
  "previous_step p st = List.find (\<lambda>s. ms_ordinal s = ms_ordinal st - 1) (mp_steps p)"

definition step_done :: "migration_step \<Rightarrow> bool" where
  "step_done st \<longleftrightarrow> ms_status st \<in> {SsSucceeded, SsSkipped}"

definition step_is_ready :: "migration_program \<Rightarrow> migration_step \<Rightarrow> bool" where
  "step_is_ready p st =
     (if mp_status p \<noteq> PgActive then False
      else if ms_status st \<notin> {SsPlanned, SsReady, SsFailed} then False
      else case previous_step p st of None \<Rightarrow> True | Some prev \<Rightarrow> step_done prev)"

text \<open>The request body of a step run.\<close>

record step_run_body =
  sr_plan_only :: bool
  sr_workdir :: "string option"
  sr_workspace_id :: "string option"
  sr_budget :: "budget option"
  sr_bind_run_id :: "run_id option"
  sr_idempotency_key :: "string option"

definition assert_gp0_execution_prereqs :: "migration_program \<Rightarrow> migration_step \<Rightarrow> step_run_body \<Rightarrow> prog_error option" where
  "assert_gp0_execution_prereqs p st body =
     (let has_workdir = truthy (sr_workdir body) \<or> truthy (sr_workspace_id body);
          has_ext = (case ms_external_handoff st of None \<Rightarrow> False
                     | Some eh \<Rightarrow> truthy (eh_branch eh) \<or> truthy (eh_pr_url eh) \<or> truthy (eh_base_sha eh) \<or> truthy (eh_head_sha eh))
      in if sr_plan_only body then None
         else case mp_handoff p of
                HandoffNone \<Rightarrow> if \<not> has_workdir \<and> \<not> has_ext then Some ProgConfig else None
              | OperatorWorkdir \<Rightarrow> if \<not> has_workdir then Some ProgConfig else None
              | GitTip \<Rightarrow> if mp_repo_binding p = None then Some ProgConfig else None
              | CopyForward \<Rightarrow> Some ProgConfig)"

subsection \<open>Stress checks\<close>

datatype stress_code =
    NoHardCriteria | FreezeMutateOverlap | FreezeAdvisory | VacuousCommand | GenericPytestOnly | WeakCharacterization
  | MissingHandoff | MissingRepoBinding | ProgramBarDropped | MegaGoal

datatype stress_severity = SvInfo | SvWarn | SvBlock

type_synonym stress_warning = "stress_code \<times> stress_severity"

definition command_text :: "desired_state \<Rightarrow> string" where
  "command_text d = py_strip (str_or_empty (d_run d))"

definition stress_step :: "migration_program \<Rightarrow> migration_step \<Rightarrow> goal \<Rightarrow> stress_warning list" where
  "stress_step p st g =
     (let cmds = filter (\<lambda>d. d_kind d = DCommand) (g_desired g);
          priors = filter (\<lambda>s. ms_ordinal s < ms_ordinal st) (mp_steps p)
      in (if filter hard_criterion (g_desired g) = [] then [(NoHardCriteria, SvBlock)] else []) @
         (if freeze_mutate_overlap st \<noteq> [] then [(FreezeMutateOverlap, SvBlock)] else []) @
         (if ms_freeze_paths st \<noteq> [] \<and> mp_freeze_enforcement p = Advisory then [(FreezeAdvisory, SvInfo)] else []) @
         map (\<lambda>_. (VacuousCommand, SvBlock)) (filter (\<lambda>d. command_text d \<in> {''true'', '':'', ''exit 0''}) cmds) @
         (if cmds \<noteq> [] \<and> (\<forall>d \<in> set cmds. command_text d \<in> {''python -m pytest -q'', ''pytest -q'', ''pytest''})
          then [(GenericPytestOnly, SvWarn)] else []) @
         (if ms_role st = RoleStructural \<and> priors \<noteq> [] \<and> (\<forall>s \<in> set priors. ms_role s \<noteq> RoleCharacterization)
          then [(WeakCharacterization, SvWarn)] else []) @
         (if mp_handoff p = CopyForward then [(MissingHandoff, SvWarn)] else []) @
         (if mp_handoff p = GitTip \<and> mp_repo_binding p = None then [(MissingRepoBinding, SvBlock)] else []) @
         (if ag_require_program_bar (ms_acceptance_gate st) \<and> ms_role st \<noteq> RoleCharacterization \<and>
             mp_program_bar_desired p = [] \<and> mp_program_bar_constraints p = [] \<and> 0 < ms_ordinal st
          then [(ProgramBarDropped, SvWarn)] else []))"

definition stress_program :: "migration_program \<Rightarrow> stress_warning list" where
  "stress_program p =
     concat (map (\<lambda>st. stress_step p st (ms_goal st)) (mp_steps p)) @
     (if length (mp_steps p) = 1 \<and>
         8 < sum_list (map (\<lambda>st. length (filter hard_criterion (g_desired (ms_goal st)))) (mp_steps p))
      then [(MegaGoal, SvWarn)] else [])"

definition blocks :: "stress_warning list \<Rightarrow> bool" where
  "blocks ws \<longleftrightarrow> (\<exists>w \<in> set ws. snd w = SvBlock)"

subsection \<open>The store\<close>

type_synonym program_table = "migration_program list"

definition prog_key :: "migration_program \<Rightarrow> tenant \<times> string" where
  "prog_key p = (mp_tenant_id p, mp_program_id p)"

definition get_program :: "program_table \<Rightarrow> tenant \<Rightarrow> string \<Rightarrow> migration_program option" where
  "get_program tbl t pid = List.find (\<lambda>p. prog_key p = (t, pid)) tbl"

definition put_program ::
    "instant \<Rightarrow> int option \<Rightarrow> migration_program \<Rightarrow> program_table \<Rightarrow> (prog_error, migration_program) result \<times> program_table" where
  "put_program now expected p tbl =
     (let stored = map_option mp_version (get_program tbl (mp_tenant_id p) (mp_program_id p))
      in if expected \<noteq> None \<and> stored \<noteq> expected then (Inl PreconditionFailed, tbl)
         else let p' = p\<lparr>mp_updated_at := now, mp_version := (case stored of None \<Rightarrow> 1 | Some v \<Rightarrow> v + 1)\<rparr>
              in (Inr p', if stored = None then tbl @ [p'] else map (\<lambda>q. if prog_key q = prog_key p then p' else q) tbl))"

definition list_programs :: "program_table \<Rightarrow> tenant \<Rightarrow> program_status option \<Rightarrow> int \<Rightarrow> migration_program list" where
  "list_programs tbl t status limit =
     take (nat (max 1 (min limit 100)))
       (sort_key (\<lambda>p. - mp_updated_at p)
          (filter (\<lambda>p. mp_tenant_id p = t \<and> (case status of None \<Rightarrow> True | Some s \<Rightarrow> mp_status p = s)) tbl))"

definition save_pinned ::
    "instant \<Rightarrow> int \<Rightarrow> migration_program \<Rightarrow> program_table \<Rightarrow> (prog_error, migration_program) result \<times> program_table" where
  "save_pinned now read_version p tbl =
     (case put_program now (Some read_version) p tbl of
        (Inl PreconditionFailed, tbl') \<Rightarrow> (Inl ProgConflict, tbl')
      | r \<Rightarrow> r)"

subsection \<open>Steps follow their runs\<close>

definition find_program_step :: "migration_program \<Rightarrow> string \<Rightarrow> (prog_error, migration_step) result" where
  "find_program_step p sid =
     (case List.find (\<lambda>s. ms_step_id s = sid) (mp_steps p) of None \<Rightarrow> Inl ProgNotFound | Some st \<Rightarrow> Inr st)"

definition replace_step :: "migration_program \<Rightarrow> migration_step \<Rightarrow> migration_program" where
  "replace_step p st = p\<lparr>mp_steps := map (\<lambda>s. if ms_step_id s = ms_step_id st then st else s) (mp_steps p)\<rparr>"

definition run_outcome :: "run_record \<Rightarrow> string" where
  "run_outcome rec = (if truthy (rr_terminal rec) then the (rr_terminal rec) else rr_status rec)"

definition followed_status :: "acceptance_gate \<Rightarrow> run_record \<Rightarrow> step_status \<Rightarrow> step_status" where
  "followed_status gate rec old_status =
     (if run_outcome rec \<in> set (ag_terminal_in gate) then SsSucceeded
      else if run_outcome rec = ''queued'' \<or> rr_status rec = ''queued'' then SsQueued
      else if run_outcome rec = ''running'' \<or> rr_status rec = ''running'' then SsRunning
      else if run_outcome rec \<noteq> [] then SsFailed
      else old_status)"

definition follow_run :: "program_env \<Rightarrow> tenant \<Rightarrow> migration_step \<Rightarrow> migration_step" where
  "follow_run env t st =
     (if truthy (ms_current_run_id st) \<and> ms_status st \<in> {SsQueued, SsRunning}
      then case pg_runs env t (the (ms_current_run_id st)) of
             None \<Rightarrow> st
           | Some rec \<Rightarrow> st\<lparr>ms_status := followed_status (ms_acceptance_gate st) rec (ms_status st)\<rparr>
      else st)"

definition mark_ready :: "migration_program \<Rightarrow> migration_step \<Rightarrow> migration_step" where
  "mark_ready p st = (if ms_status st = SsPlanned \<and> step_is_ready p st then st\<lparr>ms_status := SsReady\<rparr> else st)"

definition rolled_up :: "program_status \<Rightarrow> migration_step list \<Rightarrow> program_status" where
  "rolled_up status steps =
     (if status \<notin> {PgActive, PgBlocked} then status
      else if \<exists>s \<in> set steps. ms_status s = SsFailed then PgBlocked
      else if steps \<noteq> [] \<and> (\<forall>s \<in> set steps. step_done s) then PgCompleted
      else PgActive)"

definition refresh_step_statuses :: "program_env \<Rightarrow> migration_program \<Rightarrow> migration_program" where
  "refresh_step_statuses env p =
     (let steps = map (\<lambda>st. mark_ready p (follow_run env (mp_tenant_id p) st)) (mp_steps p);
          q = p\<lparr>mp_steps := steps, mp_status := rolled_up (mp_status p) steps\<rparr>
      in q\<lparr>mp_steps := map (mark_ready q) steps\<rparr>)"

subsection \<open>Handlers\<close>

text \<open>A handler reads the program, computes an answer and possibly a new program, and saves it pinned to the version it
  read. \<open>with_program\<close> is that frame with no other request in between.\<close>

type_synonym 'a edit = "migration_program \<Rightarrow> (prog_error, 'a \<times> migration_program option) result"

definition with_program :: "instant \<Rightarrow> tenant \<Rightarrow> string \<Rightarrow> 'a edit \<Rightarrow> program_table \<Rightarrow> (prog_error, 'a) result \<times> program_table" where
  "with_program now t pid edit tbl =
     (case get_program tbl t pid of
        None \<Rightarrow> (Inl ProgNotFound, tbl)
      | Some p \<Rightarrow>
          (case edit p of
             Inl e \<Rightarrow> (Inl e, tbl)
           | Inr (a, None) \<Rightarrow> (Inr a, tbl)
           | Inr (a, Some p') \<Rightarrow>
               (case save_pinned now (mp_version p) p' tbl of
                  (Inl e, tbl') \<Rightarrow> (Inl e, tbl')
                | (Inr _, tbl') \<Rightarrow> (Inr a, tbl'))))"

definition create_program :: "program_env \<Rightarrow> migration_program \<Rightarrow> program_table \<Rightarrow> (prog_error, migration_program) result \<times> program_table" where
  "create_program env p tbl =
     (if \<not> program_ok p then (Inl UncaughtValueError, tbl) else put_program (pg_now env) None (p\<lparr>mp_status := PgDraft\<rparr>) tbl)"

definition get_edit :: "program_env \<Rightarrow> unit edit" where
  "get_edit env p = Inr ((), if refresh_step_statuses env p = p then None else Some (refresh_step_statuses env p))"

definition get_handler :: "program_env \<Rightarrow> tenant \<Rightarrow> string \<Rightarrow> program_table \<Rightarrow> (prog_error, unit) result \<times> program_table" where
  "get_handler env t pid tbl = with_program (pg_now env) t pid (get_edit env) tbl"

record replace_body =
  rp_title :: string
  rp_intent :: string
  rp_task_class :: string
  rp_handoff :: handoff_mode
  rp_freeze_enforcement :: freeze_enforcement
  rp_steps :: "migration_step list"
  rp_bar_desired :: "desired_state list"
  rp_bar_constraints :: "constraint list"

definition replaced_program :: "replace_body \<Rightarrow> migration_program \<Rightarrow> migration_program" where
  "replaced_program b p =
     p\<lparr>mp_title := rp_title b, mp_intent := rp_intent b, mp_task_class := rp_task_class b, mp_handoff := rp_handoff b,
       mp_freeze_enforcement := rp_freeze_enforcement b, mp_steps := rp_steps b, mp_program_bar_desired := rp_bar_desired b,
       mp_program_bar_constraints := rp_bar_constraints b\<rparr>"

definition replace_handler ::
    "program_env \<Rightarrow> replace_body \<Rightarrow> int option \<Rightarrow> tenant \<Rightarrow> string \<Rightarrow> program_table \<Rightarrow> (prog_error, migration_program) result \<times> program_table" where
  "replace_handler env b if_match t pid tbl =
     (case get_program tbl t pid of
        None \<Rightarrow> (Inl ProgNotFound, tbl)
      | Some p \<Rightarrow>
          if if_match = None then (Inl PreconditionRequired, tbl)
          else if if_match \<noteq> Some (mp_version p) then (Inl PreconditionFailed, tbl)
          else if mp_status p \<noteq> PgDraft then (Inl ProgConflict, tbl)
          else if \<not> program_ok (replaced_program b p) then (Inl ProgConfig, tbl)
          else put_program (pg_now env) (Some (mp_version p)) (replaced_program b p) tbl)"

definition accept_edit :: "program_env \<Rightarrow> unit edit" where
  "accept_edit env p =
     (if mp_status p \<noteq> PgDraft then Inl ProgConflict
      else if mp_steps p = [] then Inl ProgConfig
      else if mp_handoff p = GitTip \<and> mp_repo_binding p = None then Inl ProgConfig
      else if mp_handoff p = CopyForward then Inl ProgConfig
      else if \<exists>st \<in> set (mp_steps p). g_desired (ms_goal st) = [] then Inl ProgConfig
      else Inr ((), Some (refresh_step_statuses env (p\<lparr>mp_status := PgActive, mp_disclaimer_acked_at := Some (pg_now env)\<rparr>))))"

definition accept_handler :: "program_env \<Rightarrow> bool \<Rightarrow> tenant \<Rightarrow> string \<Rightarrow> program_table \<Rightarrow> (prog_error, unit) result \<times> program_table" where
  "accept_handler env ack t pid tbl =
     (if \<not> ack then (Inl ProgConfig, tbl) else with_program (pg_now env) t pid (accept_edit env) tbl)"

definition abandon_edit :: "unit edit" where
  "abandon_edit p = Inr ((), Some (p\<lparr>mp_status := PgAbandoned\<rparr>))"

record step_patch =
  sp_title :: "string option"
  sp_goal :: "goal option"
  sp_freeze_paths :: "string list option"
  sp_mutate_paths :: "string list option"
  sp_role :: "step_role option"
  sp_external_handoff :: "external_handoff option"

definition given :: "'a option \<Rightarrow> 'a \<Rightarrow> 'a" where
  "given x y = (case x of None \<Rightarrow> y | Some v \<Rightarrow> v)"

definition patched_step :: "step_patch \<Rightarrow> migration_step \<Rightarrow> migration_step" where
  "patched_step b st =
     st\<lparr>ms_title := given (sp_title b) (ms_title st),
        ms_goal := given (sp_goal b) (ms_goal st),
        ms_goal_revision := (if sp_goal b = None then ms_goal_revision st else ms_goal_revision st + 1),
        ms_criteria_preview_hash := (if sp_goal b = None then ms_criteria_preview_hash st else None),
        ms_freeze_paths := given (sp_freeze_paths b) (ms_freeze_paths st),
        ms_mutate_paths := given (sp_mutate_paths b) (ms_mutate_paths st),
        ms_role := given (sp_role b) (ms_role st),
        ms_external_handoff := (case sp_external_handoff b of None \<Rightarrow> ms_external_handoff st | Some eh \<Rightarrow> Some eh)\<rparr>"

definition patch_step_edit :: "string \<Rightarrow> step_patch \<Rightarrow> unit edit" where
  "patch_step_edit sid b p =
     bind_result (find_program_step p sid) (\<lambda>st.
       if ms_status st \<in> {SsQueued, SsRunning, SsSucceeded} then Inl ProgConflict
       else Inr ((), Some (replace_step p (patched_step b st))))"

definition skip_step_edit :: "program_env \<Rightarrow> string \<Rightarrow> string \<Rightarrow> unit edit" where
  "skip_step_edit env sid note_text p =
     (if mp_status p \<notin> {PgActive, PgBlocked} then Inl ProgConflict
      else bind_result (find_program_step p sid) (\<lambda>st.
        if ms_status st \<in> {SsSucceeded, SsQueued, SsRunning} then Inl ProgConflict
        else let q = replace_step p (st\<lparr>ms_status := SsSkipped, ms_skip_note := Some (py_strip note_text)\<rparr>);
                 q' = q\<lparr>mp_status := (if \<forall>s \<in> set (mp_steps q). step_done s then PgCompleted else PgActive)\<rparr>
             in Inr ((), Some (refresh_step_statuses env q'))))"

definition skip_step_handler :: "program_env \<Rightarrow> tenant \<Rightarrow> string \<Rightarrow> string \<Rightarrow> string \<Rightarrow> program_table \<Rightarrow> (prog_error, unit) result \<times> program_table" where
  "skip_step_handler env t pid sid note_text tbl =
     (if py_strip note_text = [] then (Inl ProgConfig, tbl)
      else with_program (pg_now env) t pid (skip_step_edit env sid note_text) tbl)"

definition bind_repo_edit :: "program_env \<Rightarrow> repo_binding \<Rightarrow> unit edit" where
  "bind_repo_edit env b p =
     (if \<not> pg_binding_root_ok env (mp_tenant_id p) b then Inl ProgConfig
      else Inr ((), Some (p\<lparr>mp_repo_binding := Some b, mp_handoff := GitTip\<rparr>)))"

definition lstrip_slash :: "string \<Rightarrow> string" where
  "lstrip_slash p = dropWhile (\<lambda>c. c = CHR ''/'') p"

text \<open>\<open>use_binding\<close> reads the head of the binding root, otherwise the body names a directory below the tenant's workspaces.\<close>

definition tip_source :: "program_env \<Rightarrow> bool \<Rightarrow> string option \<Rightarrow> migration_program \<Rightarrow> string option" where
  "tip_source env use_binding workdir p =
     (if use_binding then
        (case mp_repo_binding p of
           None \<Rightarrow> None
         | Some b \<Rightarrow> if pg_binding_root_ok env (mp_tenant_id p) b then pg_head_sha env (mp_tenant_id p) None else None)
      else let rel = lstrip_slash (py_strip (str_or_empty workdir))
           in if rel = [] \<or> ''..'' \<in> set (path_parts rel) then None else pg_head_sha env (mp_tenant_id p) (Some rel))"

definition no_handoff :: external_handoff where
  "no_handoff = \<lparr>eh_branch = None, eh_pr_url = None, eh_base_sha = None, eh_head_sha = None\<rparr>"

definition record_tip_edit :: "program_env \<Rightarrow> string \<Rightarrow> bool \<Rightarrow> string option \<Rightarrow> string edit" where
  "record_tip_edit env sid use_binding workdir p =
     bind_result (find_program_step p sid) (\<lambda>st.
       if ms_status st \<notin> {SsSucceeded, SsRunning, SsQueued, SsReady, SsPlanned} then Inl ProgConflict
       else case tip_source env use_binding workdir p of
              None \<Rightarrow> Inl ProgConfig
            | Some sha \<Rightarrow>
                let eh = (given (ms_external_handoff st) no_handoff)\<lparr>eh_head_sha := Some sha\<rparr>
                in Inr (sha, Some (replace_step p (st\<lparr>ms_external_handoff := Some eh\<rparr>))))"

text \<open>The hash is saved before the budget is resolved, so an invalid ceiling is part of the answer.\<close>

definition preview_step_edit :: "program_env \<Rightarrow> string \<Rightarrow> (string \<times> bool \<times> (prog_error, budget) result) edit" where
  "preview_step_edit env sid p =
     bind_result (find_program_step p sid) (\<lambda>st.
     bind_result (materialize_step_goal p st) (\<lambda>g.
     bind_result (preview_hash env g) (\<lambda>ph.
       let changed = ms_criteria_preview_hash st \<noteq> Some ph;
           q = replace_step p (st\<lparr>ms_criteria_preview_hash := Some ph\<rparr>)
       in Inr ((ph, blocks (stress_step p st g), resolve_run_budget env g None), if changed then Some q else None))))"

subsection \<open>Binding a run to a step\<close>

datatype step_answer = PlanAnswer string budget bool | BoundAnswer run_id step_status | AlreadyBound run_id

definition budget_refused :: "migration_program \<Rightarrow> budget \<Rightarrow> bool" where
  "budget_refused p b =
     (case mp_budget p of
        None \<Rightarrow> False
      | Some pb \<Rightarrow>
          (case pb_max_cost_usd pb of
             None \<Rightarrow> False
           | Some cap \<Rightarrow>
               cap - pb_spent_cost_usd pb \<le> 0 \<or>
               (case max_cost_usd b of None \<Rightarrow> False | Some need \<Rightarrow> cap - pb_spent_cost_usd pb < need)))"

definition known_hash :: "program_env \<Rightarrow> tenant \<Rightarrow> run_id \<Rightarrow> run_record \<Rightarrow> string option" where
  "known_hash env t run rec = (case rr_criteria_hash rec of Some h \<Rightarrow> Some h | None \<Rightarrow> pg_loaded_hash env t run)"

definition bound_status :: "acceptance_gate \<Rightarrow> run_record \<Rightarrow> step_status" where
  "bound_status gate rec =
     (if run_outcome rec \<in> set (ag_terminal_in gate) then SsSucceeded
      else if run_outcome rec \<in> {''queued'', ''running''} \<or> rr_status rec \<in> {''queued'', ''running''}
      then (if rr_status rec = ''running'' then SsRunning else SsQueued)
      else SsFailed)"

definition bound_program :: "program_env \<Rightarrow> migration_program \<Rightarrow> migration_step \<Rightarrow> run_id \<Rightarrow> run_record \<Rightarrow> migration_program" where
  "bound_program env p st run rec =
     (let status = bound_status (ms_acceptance_gate st) rec;
          q = replace_step p (st\<lparr>ms_run_ids := (if run \<in> set (ms_run_ids st) then ms_run_ids st else ms_run_ids st @ [run]),
                                 ms_current_run_id := Some run, ms_status := status\<rparr>)
      in if status = SsFailed then q\<lparr>mp_status := PgBlocked\<rparr>
         else if status = SsSucceeded
         then refresh_step_statuses env (q\<lparr>mp_status := (if \<forall>s \<in> set (mp_steps q). step_done s then PgCompleted else PgActive)\<rparr>)
         else q)"

definition bind_error :: "program_env \<Rightarrow> migration_program \<Rightarrow> migration_step \<Rightarrow> string option \<Rightarrow> string \<Rightarrow> run_id \<Rightarrow> prog_error option" where
  "bind_error env p st previewed ph run =
     (if mp_status p \<noteq> PgActive then Some ProgConflict
      else if \<not> step_is_ready p st \<and> ms_status st \<notin> {SsFailed, SsReady, SsPlanned} then Some ProgConflict
      else if (case previous_step p st of None \<Rightarrow> False | Some prev \<Rightarrow> \<not> step_done prev) then Some ProgConflict
      else case pg_runs env (mp_tenant_id p) run of
             None \<Rightarrow> Some ProgNotFound
           | Some rec \<Rightarrow>
               if \<not> truthy previewed then Some ProgConfig
               else if Some ph \<noteq> previewed then Some ProgConflict
               else (case known_hash env (mp_tenant_id p) run rec of
                       Some h \<Rightarrow> if h \<noteq> ph then Some ProgConflict else None
                     | None \<Rightarrow>
                         if (case rr_terminal rec of None \<Rightarrow> False | Some x \<Rightarrow> x \<in> set (ag_terminal_in (ms_acceptance_gate st))) \<or>
                            rr_status rec \<in> set (ag_terminal_in (ms_acceptance_gate st))
                         then Some ProgConflict else None))"

definition apply_run_step :: "program_env \<Rightarrow> step_run_body \<Rightarrow> migration_step \<Rightarrow> step_answer edit" where
  "apply_run_step env body st0 p0 =
     bind_result (materialize_step_goal p0 st0) (\<lambda>g.
       if assert_gp0_execution_prereqs p0 st0 body \<noteq> None then Inl ProgConfig
       else if blocks (stress_step p0 st0 g) then Inl ProgConfig
       else
       bind_result (resolve_run_budget env g (sr_budget body)) (\<lambda>b.
         if budget_refused p0 b then Inl BudgetRefused
         else
         bind_result (preview_hash env g) (\<lambda>ph.
           let st = st0\<lparr>ms_criteria_preview_hash := Some ph\<rparr>; p = replace_step p0 st
           in if sr_plan_only body \<or> sr_bind_run_id body = None
              then Inr (PlanAnswer ph b (step_is_ready p st), Some p)
              else let run = the (sr_bind_run_id body)
                   in case bind_error env p st (ms_criteria_preview_hash st0) ph run of
                        Some e \<Rightarrow> Inl e
                      | None \<Rightarrow>
                          if ms_current_run_id st = Some run then Inr (AlreadyBound run, None)
                          else if ms_status st \<in> {SsQueued, SsRunning} \<and> truthy (ms_current_run_id st) then Inl ProgConflict
                          else let rec = the (pg_runs env (mp_tenant_id p) run)
                               in Inr (BoundAnswer run (bound_status (ms_acceptance_gate st) rec), Some (bound_program env p st run rec)))))"

text \<open>\<open>_load_step\<close> hands the refreshed program on; the save is still pinned to the version that was read.\<close>

definition run_step_edit :: "program_env \<Rightarrow> step_run_body \<Rightarrow> string \<Rightarrow> step_answer edit" where
  "run_step_edit env body sid p =
     (let q = refresh_step_statuses env p
      in bind_result (find_program_step q sid) (\<lambda>st. apply_run_step env body st q))"

subsection \<open>Seeding a workdir from a tip\<close>

definition tip_sha_ok :: "string \<Rightarrow> bool" where
  "tip_sha_ok sha \<longleftrightarrow> length sha = 40 \<and> (\<forall>c \<in> set sha. c \<in> set ''0123456789abcdef'')"

definition predecessor_tip :: "migration_program \<Rightarrow> migration_step \<Rightarrow> string option" where
  "predecessor_tip p st =
     (case previous_step p st of
        None \<Rightarrow> None
      | Some prev \<Rightarrow> (case ms_external_handoff prev of None \<Rightarrow> None | Some eh \<Rightarrow> if truthy (eh_head_sha eh) then eh_head_sha eh else None))"

definition resolve_tip_sha :: "program_env \<Rightarrow> migration_program \<Rightarrow> migration_step \<Rightarrow> repo_binding \<Rightarrow> string option \<Rightarrow> string option" where
  "resolve_tip_sha env p st b explicit =
     (if truthy explicit then (if tip_sha_ok (the explicit) then explicit else None)
      else case predecessor_tip p st of
             Some sha \<Rightarrow> Some sha
           | None \<Rightarrow> if pg_binding_root_ok env (mp_tenant_id p) b then pg_rev_parse env (mp_tenant_id p) b else None)"

text \<open>None where the code raises GitTipError; the clone and the switch are one function of the environment.\<close>

definition checked_out :: "program_env \<Rightarrow> migration_program \<Rightarrow> migration_step \<Rightarrow> string option \<Rightarrow> run_id \<Rightarrow> string option" where
  "checked_out env p st explicit run =
     (if mp_handoff p \<noteq> GitTip then None
      else case mp_repo_binding p of
             None \<Rightarrow> None
           | Some b \<Rightarrow>
               (case resolve_tip_sha env p st b explicit of
                  None \<Rightarrow> None
                | Some tip \<Rightarrow>
                    if \<not> pg_binding_root_ok env (mp_tenant_id p) b \<or> \<not> tip_sha_ok tip then None
                    else pg_checkout env (mp_tenant_id p) b tip run))"

text \<open>A failed checkout marks the step failed and the program blocked, unless another write landed meanwhile.\<close>

definition seed_workdir_handler ::
    "program_env \<Rightarrow> string option \<Rightarrow> run_id \<Rightarrow> tenant \<Rightarrow> string \<Rightarrow> string \<Rightarrow> program_table \<Rightarrow> (prog_error, string) result \<times> program_table" where
  "seed_workdir_handler env explicit run t pid sid tbl =
     (case get_program tbl t pid of
        None \<Rightarrow> (Inl ProgNotFound, tbl)
      | Some p \<Rightarrow>
          (case find_program_step p sid of
             Inl e \<Rightarrow> (Inl e, tbl)
           | Inr st \<Rightarrow>
               (case checked_out env p st explicit run of
                  Some sha \<Rightarrow> (Inr sha, tbl)
                | None \<Rightarrow>
                    (Inl ProgConfig,
                     snd (save_pinned (pg_now env) (mp_version p)
                       ((replace_step p (st\<lparr>ms_status := SsFailed\<rparr>))\<lparr>mp_status := PgBlocked\<rparr>) tbl)))))"

subsection \<open>Keyed binds\<close>

text \<open>\<open>run_step\<close> over both databases: the key row in control.db, then the bind in programs.sqlite, then the completion. \<open>secs\<close> is the
  clock of the key store and \<open>req\<close> the digest of the body without its key. \<open>load_step\<close> does not save.\<close>

definition load_step :: "program_env \<Rightarrow> tenant \<Rightarrow> string \<Rightarrow> string \<Rightarrow> program_table \<Rightarrow> (prog_error, migration_step) result" where
  "load_step env t pid sid tbl =
     (case get_program tbl t pid of None \<Rightarrow> Inl ProgNotFound | Some p \<Rightarrow> find_program_step (refresh_step_statuses env p) sid)"

definition is_keyed_bind :: "step_run_body \<Rightarrow> bool" where
  "is_keyed_bind body \<longleftrightarrow> sr_idempotency_key body \<noteq> None \<and> \<not> sr_plan_only body \<and> sr_bind_run_id body \<noteq> None"

definition step_scope :: "tenant \<Rightarrow> string \<Rightarrow> string \<Rightarrow> step_run_body \<Rightarrow> key_scope" where
  "step_scope t pid sid body =
     \<lparr>ks_tenant = t, ks_program = pid, ks_step = sid, ks_key = the (sr_idempotency_key body)\<rparr>"

definition bind_under_lease ::
    "program_env \<Rightarrow> step_run_body \<Rightarrow> bool \<Rightarrow> tenant \<Rightarrow> string \<Rightarrow> string \<Rightarrow> program_table \<Rightarrow> (prog_error, step_answer) result \<times> program_table" where
  "bind_under_lease env body is_taken t pid sid tbl =
     (case load_step env t pid sid tbl of
        Inl e \<Rightarrow> (Inl e, tbl)
      | Inr st \<Rightarrow>
          if is_taken \<and> ms_current_run_id st = sr_bind_run_id body then (Inr (AlreadyBound (the (sr_bind_run_id body))), tbl)
          else with_program (pg_now env) t pid (run_step_edit env body sid) tbl)"

definition complete_bind ::
    "key_scope \<Rightarrow> string \<Rightarrow> run_id \<Rightarrow> int \<Rightarrow> (prog_error, step_answer) result \<Rightarrow> idem_table \<Rightarrow> (prog_error, step_answer) result \<times> idem_table" where
  "complete_bind k req run lease r keys =
     (case r of
        Inl e \<Rightarrow> (Inl e, release_key k req lease keys)
      | Inr a \<Rightarrow>
          (case complete_key k req run lease keys of
             (Completed, keys') \<Rightarrow> (Inr a, keys')
           | (Superseded, keys') \<Rightarrow> (Inl IdemInProgress, keys')
           | (Lost, keys') \<Rightarrow> (Inl StateCorrupt, keys')))"

definition run_step ::
    "program_env \<Rightarrow> int \<Rightarrow> int \<Rightarrow> string \<Rightarrow> step_run_body \<Rightarrow> tenant \<Rightarrow> string \<Rightarrow> string \<Rightarrow> program_table \<times> idem_table \<Rightarrow>
     (prog_error, step_answer) result \<times> program_table \<times> idem_table" where
  "run_step env ttl secs req body t pid sid world =
     (case world of (tbl, keys) \<Rightarrow>
      (case load_step env t pid sid tbl of
         Inl e \<Rightarrow> (Inl e, tbl, keys)
       | Inr _ \<Rightarrow>
           if \<not> is_keyed_bind body
           then (case with_program (pg_now env) t pid (run_step_edit env body sid) tbl of (r, tbl') \<Rightarrow> (r, tbl', keys))
           else (let k = step_scope t pid sid body; run = the (sr_bind_run_id body)
                 in case reserve_key ttl secs k req keys of
                      (rv, keys1) \<Rightarrow>
                        (case rv_outcome rv of
                           OcMismatch \<Rightarrow> (Inl IdemMismatch, tbl, keys1)
                         | OcInProgress \<Rightarrow> (Inl IdemInProgress, tbl, keys1)
                         | OcReplay \<Rightarrow>
                             (case load_step env t pid sid tbl of
                                Inl e \<Rightarrow> (Inl e, tbl, keys1)
                              | Inr st \<Rightarrow> (if ms_current_run_id st \<noteq> rv_run_id rv then Inl ProgConflict
                                           else Inr (AlreadyBound (the (rv_run_id rv))), tbl, keys1))
                         | oc \<Rightarrow>
                             (case rv_lease rv of
                                None \<Rightarrow> (Inl StateCorrupt, tbl, keys1)
                              | Some lease \<Rightarrow>
                                  (case bind_under_lease env body (oc = OcTakenOver) t pid sid tbl of
                                     (r, tbl') \<Rightarrow> (case complete_bind k req run lease r keys1 of (r', keys2) \<Rightarrow> (r', tbl', keys2))))))))"

end
