(* ===== verification/Program_Requests.thy ===== *)
theory Program_Requests
  imports Migration_Program
begin

section \<open>Requests on migration programs\<close>

text \<open>
  What the operations of \<open>src/recertia/app/programs.py\<close> guarantee together: saves that interleave on the program table, the
  refresh of the step statuses, the checks before a run is bound to a step, retries under a key, and the program status.\<close>

subsection \<open>Requests that interleave on the program table\<close>

text \<open>\<open>request_edit\<close> is the program a request saves, computed from the program it read: None where the request answers without
  saving, \<open>Inl\<close> where it is refused before any save. A failed checkout is an edit: it saves the blocked program.\<close>

datatype program_request =
    RqGet | RqReplace replace_body "int option" | RqAccept | RqAbandon | RqPatch string step_patch | RqSkip string string
  | RqBindRepo repo_binding | RqRecordTip string bool "string option" | RqPreview string | RqRun step_run_body string
  | RqSeed "string option" run_id string

definition saved_part :: "(prog_error, 'a \<times> migration_program option) result \<Rightarrow> (prog_error, migration_program option) result" where
  "saved_part r = (case r of Inl e \<Rightarrow> Inl e | Inr (_, q) \<Rightarrow> Inr q)"

fun request_edit :: "program_env \<Rightarrow> program_request \<Rightarrow> migration_program \<Rightarrow> (prog_error, migration_program option) result" where
  "request_edit env RqGet p = saved_part (get_edit env p)"
| "request_edit env (RqReplace b if_match) p =
     (if if_match = None then Inl PreconditionRequired
      else if if_match \<noteq> Some (mp_version p) then Inl PreconditionFailed
      else if mp_status p \<noteq> PgDraft then Inl ProgConflict
      else if \<not> program_ok (replaced_program b p) then Inl ProgConfig
      else Inr (Some (replaced_program b p)))"
| "request_edit env RqAccept p = saved_part (accept_edit env p)"
| "request_edit env RqAbandon p = saved_part (abandon_edit p)"
| "request_edit env (RqPatch sid b) p = saved_part (patch_step_edit sid b p)"
| "request_edit env (RqSkip sid note_text) p = saved_part (skip_step_edit env sid note_text p)"
| "request_edit env (RqBindRepo b) p = saved_part (bind_repo_edit env b p)"
| "request_edit env (RqRecordTip sid use_binding workdir) p = saved_part (record_tip_edit env sid use_binding workdir p)"
| "request_edit env (RqPreview sid) p = saved_part (preview_step_edit env sid p)"
| "request_edit env (RqRun body sid) p = saved_part (run_step_edit env body sid p)"
| "request_edit env (RqSeed explicit run sid) p =
     (case find_program_step p sid of
        Inl e \<Rightarrow> Inl e
      | Inr st \<Rightarrow>
          (case checked_out env p st explicit run of
             Some _ \<Rightarrow> Inr None
           | None \<Rightarrow> Inr (Some ((replace_step p (st\<lparr>ms_status := SsFailed\<rparr>))\<lparr>mp_status := PgBlocked\<rparr>))))"

text \<open>A request that no other interrupts reads and saves in one go; the handlers are such requests.\<close>

definition serve :: "program_env \<Rightarrow> program_request \<Rightarrow> tenant \<Rightarrow> string \<Rightarrow> program_table \<Rightarrow> program_table" where
  "serve env rq t pid tbl =
     (case get_program tbl t pid of
        None \<Rightarrow> tbl
      | Some p \<Rightarrow>
          (case request_edit env rq p of
             Inr (Some q) \<Rightarrow> snd (save_pinned (pg_now env) (mp_version p) q tbl)
           | _ \<Rightarrow> tbl))"

text \<open>The read and the save of a request are two transactions. The system keeps every program that was ever read; any request
  may be served from any of them at any later time. The log records the creations and the requests whose save
  succeeded, in that order; \<open>replay\<close> is the sequential object that serves them one after the other.\<close>

definition stamp :: "instant \<Rightarrow> int \<Rightarrow> migration_program \<Rightarrow> migration_program" where
  "stamp now v p = p\<lparr>mp_updated_at := now, mp_version := v\<rparr>"

datatype prog_event =
    Created program_env migration_program
  | Served "tenant \<times> string" program_env program_request

fun apply_event :: "tenant \<times> string \<Rightarrow> migration_program option \<Rightarrow> prog_event \<Rightarrow> migration_program option" where
  "apply_event k x (Created env p) = (if prog_key p = k then Some (stamp (pg_now env) 1 (p\<lparr>mp_status := PgDraft\<rparr>)) else x)"
| "apply_event k x (Served k' env rq) =
     (if k' \<noteq> k then x
      else case x of
             None \<Rightarrow> None
           | Some p \<Rightarrow>
               (case request_edit env rq p of
                  Inr (Some q) \<Rightarrow> Some (stamp (pg_now env) (mp_version p + 1) q)
                | _ \<Rightarrow> Some p))"

definition replay :: "prog_event list \<Rightarrow> tenant \<times> string \<Rightarrow> migration_program option" where
  "replay events k = foldl (apply_event k) None events"

record prog_system =
  ps_table :: program_table
  ps_reads :: "migration_program list"
  ps_log :: "prog_event list"

definition no_programs :: prog_system where
  "no_programs = \<lparr>ps_table = [], ps_reads = [], ps_log = []\<rparr>"

inductive prog_step :: "prog_system \<Rightarrow> prog_system \<Rightarrow> bool" where
  creating: "\<lbrakk>get_program (ps_table s) (mp_tenant_id p) (mp_program_id p) = None; create_program env p (ps_table s) = (Inr q, tbl)\<rbrakk> \<Longrightarrow>
    prog_step s (s\<lparr>ps_table := tbl, ps_log := ps_log s @ [Created env p]\<rparr>)"
| reading: "get_program (ps_table s) t pid = Some p \<Longrightarrow> prog_step s (s\<lparr>ps_reads := p # ps_reads s\<rparr>)"
| saving: "\<lbrakk>p \<in> set (ps_reads s); request_edit env rq p = Inr (Some q);
     save_pinned (pg_now env) (mp_version p) q (ps_table s) = (r, tbl)\<rbrakk> \<Longrightarrow>
    prog_step s (s\<lparr>ps_table := tbl, ps_log := (if is_ok r then ps_log s @ [Served (prog_key p) env rq] else ps_log s)\<rparr>)"

text \<open>The disclaimer was acknowledged before anything ran.\<close>

definition acked :: "migration_program \<Rightarrow> bool" where
  "acked p \<longleftrightarrow> (mp_status p \<in> {PgActive, PgBlocked, PgCompleted} \<longrightarrow> mp_disclaimer_acked_at p \<noteq> None)"

fun is_seed :: "prog_event \<Rightarrow> bool" where
  "is_seed (Served k env (RqSeed explicit run sid)) = True"
| "is_seed e = False"

definition seed_free :: "prog_event list \<Rightarrow> bool" where
  "seed_free events \<longleftrightarrow> (\<forall>e \<in> set events. \<not> is_seed e)"

text \<open>A read is never ahead of the table, and equal to the row when the versions agree.\<close>

definition prog_ok :: "prog_system \<Rightarrow> bool" where
  "prog_ok s \<longleftrightarrow> distinct (map prog_key (ps_table s)) \<and>
     (\<forall>k. get_program (ps_table s) (fst k) (snd k) = replay (ps_log s) k) \<and>
     (\<forall>p \<in> set (ps_reads s). \<exists>q. get_program (ps_table s) (mp_tenant_id p) (mp_program_id p) = Some q \<and>
        mp_version p \<le> mp_version q \<and> (mp_version p = mp_version q \<longrightarrow> p = q)) \<and>
     (\<forall>env p. Created env p \<in> set (ps_log s) \<longrightarrow> program_ok p)"

subsection \<open>Lemmas on the store\<close>

lemma stamp_sel [simp]: "mp_version (stamp now v p) = v" "prog_key (stamp now v p) = prog_key p"
  "mp_tenant_id (stamp now v p) = mp_tenant_id p" "mp_program_id (stamp now v p) = mp_program_id p"
  by (simp_all add: stamp_def prog_key_def)

lemma get_program_key: "get_program tbl t pid = Some p \<Longrightarrow> p \<in> set tbl \<and> mp_tenant_id p = t \<and> mp_program_id p = pid"
  unfolding get_program_def by (drule find_SomeD) (simp add: prog_key_def)

lemma get_program_append: "get_program (tbl @ [p]) t pid =
    (case get_program tbl t pid of None \<Rightarrow> if prog_key p = (t, pid) then Some p else None | Some q \<Rightarrow> Some q)"
  by (simp add: get_program_def find_append split: option.split)

lemma get_program_update:
  assumes "prog_key p' = k"
  shows "get_program (map (\<lambda>q. if prog_key q = k then p' else q) tbl) t pid =
    (if (t, pid) = k then map_option (\<lambda>_. p') (get_program tbl t pid) else get_program tbl t pid)"
proof -
  have "(\<lambda>x. prog_key (if prog_key x = k then p' else x) = (t, pid)) = (\<lambda>x. prog_key x = (t, pid))"
    using assms by (auto simp: fun_eq_iff)
  then have "get_program (map (\<lambda>q. if prog_key q = k then p' else q) tbl) t pid =
      map_option (\<lambda>q. if prog_key q = k then p' else q) (get_program tbl t pid)"
    by (simp add: get_program_def find_map o_def)
  also have "\<dots> = (if (t, pid) = k then map_option (\<lambda>_. p') (get_program tbl t pid) else get_program tbl t pid)"
  proof (cases "get_program tbl t pid")
    case (Some q)
    then have "prog_key q = (t, pid)" by (simp add: get_program_key prog_key_def)
    then show ?thesis using Some by auto
  qed simp
  finally show ?thesis .
qed

lemma put_program_cases:
  assumes "put_program now expected p tbl = (r, tbl')"
  obtains (failed) "r = Inl PreconditionFailed" "tbl' = tbl" "expected \<noteq> None"
      "map_option mp_version (get_program tbl (mp_tenant_id p) (mp_program_id p)) \<noteq> expected"
  | (inserted) "get_program tbl (mp_tenant_id p) (mp_program_id p) = None" "expected = None" "r = Inr (stamp now 1 p)" "tbl' = tbl @ [stamp now 1 p]"
  | (updated) q where "get_program tbl (mp_tenant_id p) (mp_program_id p) = Some q" "expected \<in> {None, Some (mp_version q)}"
      "r = Inr (stamp now (mp_version q + 1) p)"
      "tbl' = map (\<lambda>x. if prog_key x = prog_key p then stamp now (mp_version q + 1) p else x) tbl"
  using assms
  by (cases "get_program tbl (mp_tenant_id p) (mp_program_id p)") (auto simp: put_program_def stamp_def Let_def split: if_splits)

lemma save_pinned_cases:
  assumes "save_pinned now v p tbl = (r, tbl')"
  obtains (conflict) "r = Inl ProgConflict" "tbl' = tbl" "map_option mp_version (get_program tbl (mp_tenant_id p) (mp_program_id p)) \<noteq> Some v"
  | (saved) q where "get_program tbl (mp_tenant_id p) (mp_program_id p) = Some q" "mp_version q = v" "r = Inr (stamp now (v + 1) p)"
      "tbl' = map (\<lambda>x. if prog_key x = prog_key p then stamp now (v + 1) p else x) tbl"
proof -
  obtain r1 where r1: "put_program now (Some v) p tbl = (r1, tbl')" "r = (case r1 of Inl PreconditionFailed \<Rightarrow> Inl ProgConflict | _ \<Rightarrow> r1)"
    using assms by (auto simp: save_pinned_def split: prod.splits sum.splits prog_error.splits)
  from r1(1) show ?thesis
    by (cases rule: put_program_cases) (use r1(2) conflict saved in auto)
qed

lemma put_program_distinct:
  assumes "put_program now expected p tbl = (r, tbl')" "distinct (map prog_key tbl)"
  shows "distinct (map prog_key tbl')"
  using assms(1)
proof (cases rule: put_program_cases)
  case inserted
  have "prog_key p \<notin> prog_key ` set tbl"
  proof
    assume "prog_key p \<in> prog_key ` set tbl"
    then show False using inserted(1) by (auto simp: get_program_def find_None_iff prog_key_def)
  qed
  then show ?thesis using assms(2) inserted(4) by simp
next
  case (updated q)
  have "map prog_key tbl' = map prog_key tbl" unfolding updated(4) by simp
  then show ?thesis using assms(2) by metis
qed (use assms(2) in simp)

lemma save_pinned_distinct:
  "\<lbrakk>save_pinned now v p tbl = (r, tbl'); distinct (map prog_key tbl)\<rbrakk> \<Longrightarrow> distinct (map prog_key tbl')"
  using put_program_distinct by (auto simp: save_pinned_def split: prod.splits sum.splits prog_error.splits)

lemma replay_snoc: "replay (es @ [e]) k = apply_event k (replay es k) e"
  by (simp add: replay_def)

subsection \<open>Lemmas on refreshing\<close>

lemma follow_run_sel [simp]: "ms_step_id (follow_run env t st) = ms_step_id st" "ms_ordinal (follow_run env t st) = ms_ordinal st"
  "ms_current_run_id (follow_run env t st) = ms_current_run_id st"
  by (simp_all add: follow_run_def split: option.split)

lemma mark_ready_sel [simp]: "ms_step_id (mark_ready p st) = ms_step_id st" "ms_ordinal (mark_ready p st) = ms_ordinal st"
  "ms_current_run_id (mark_ready p st) = ms_current_run_id st" "step_done (mark_ready p st) = step_done st"
  "ms_status (mark_ready p st) = SsFailed \<longleftrightarrow> ms_status st = SsFailed"
  by (auto simp: mark_ready_def step_done_def)

lemma refresh_sel [simp]:
  "mp_program_id (refresh_step_statuses env p) = mp_program_id p" "mp_tenant_id (refresh_step_statuses env p) = mp_tenant_id p"
  "mp_version (refresh_step_statuses env p) = mp_version p" "prog_key (refresh_step_statuses env p) = prog_key p"
  "mp_disclaimer_acked_at (refresh_step_statuses env p) = mp_disclaimer_acked_at p"
  by (simp_all add: refresh_step_statuses_def Let_def prog_key_def)

lemma replace_step_sel [simp]:
  "mp_program_id (replace_step p st) = mp_program_id p" "mp_tenant_id (replace_step p st) = mp_tenant_id p"
  "mp_version (replace_step p st) = mp_version p" "prog_key (replace_step p st) = prog_key p"
  "mp_status (replace_step p st) = mp_status p" "mp_disclaimer_acked_at (replace_step p st) = mp_disclaimer_acked_at p"
  by (simp_all add: replace_step_def prog_key_def)

lemma refresh_ids: "map ms_step_id (mp_steps (refresh_step_statuses env p)) = map ms_step_id (mp_steps p)"
    "map ms_ordinal (mp_steps (refresh_step_statuses env p)) = map ms_ordinal (mp_steps p)"
  by (simp_all add: refresh_step_statuses_def Let_def o_def)

lemma refresh_program_ok: "program_ok p \<Longrightarrow> program_ok (refresh_step_statuses env p)"
  unfolding program_ok_def refresh_ids .

lemma refresh_status: "mp_status (refresh_step_statuses env p) = rolled_up (mp_status p) (mp_steps (refresh_step_statuses env p))"
  by (simp add: refresh_step_statuses_def Let_def rolled_up_def)

lemma rolled_up_active: "rolled_up status steps = PgActive \<Longrightarrow> st \<in> set steps \<Longrightarrow> ms_status st \<noteq> SsFailed"
  by (auto simp: rolled_up_def split: if_splits)

lemma rolled_up_idem: "rolled_up (rolled_up status steps) steps = rolled_up status steps"
  by (auto simp: rolled_up_def)

lemma find_step_Inr: "find_program_step p sid = Inr st \<Longrightarrow> st \<in> set (mp_steps p) \<and> ms_step_id st = sid"
  unfolding find_program_step_def by (auto split: option.splits dest: find_SomeD)

text \<open>A second refresh against the same runs changes nothing.\<close>

lemma followed_status_idem [simp]: "followed_status g rec (followed_status g rec x) = followed_status g rec x"
  by (simp add: followed_status_def)

lemma followed_status_planned: "x \<noteq> SsPlanned \<Longrightarrow> followed_status g rec x \<noteq> SsPlanned"
  by (simp add: followed_status_def)

lemma follow_run_id: "ms_status st \<notin> {SsQueued, SsRunning} \<Longrightarrow> follow_run env t st = st"
  by (simp add: follow_run_def)

lemma follow_run_planned: "ms_status (follow_run env t st) = SsPlanned \<longleftrightarrow> ms_status st = SsPlanned"
proof (cases "ms_status st = SsPlanned")
  case False
  then show ?thesis using followed_status_planned[OF False] by (simp add: follow_run_def split: option.split)
qed (simp add: follow_run_id)

lemma follow_run_idem: "follow_run env t (follow_run env t st) = follow_run env t st"
  by (auto simp: follow_run_def split: option.split)

lemma follow_run_mark_ready: "follow_run env t (mark_ready p st) = mark_ready p (follow_run env t st)"
proof (cases "ms_status st = SsPlanned")
  case True
  then have "ms_status (mark_ready p st) \<in> {SsPlanned, SsReady}" by (simp add: mark_ready_def)
  then have "follow_run env t (mark_ready p st) = mark_ready p st" by (intro follow_run_id) auto
  then show ?thesis using True by (simp add: follow_run_id)
next
  case False
  then have "ms_status (follow_run env t st) \<noteq> SsPlanned" by (simp add: follow_run_planned)
  with False show ?thesis by (simp add: mark_ready_def)
qed

lemma mark_ready_stable:
  assumes "ms_status st = SsPlanned \<Longrightarrow> step_is_ready q st \<Longrightarrow> step_is_ready p st"
  shows "mark_ready q (mark_ready p st) = mark_ready p st"
  using assms by (auto simp: mark_ready_def)

lemma step_is_ready_marked:
  "step_is_ready (q\<lparr>mp_steps := map (mark_ready q) (mp_steps q)\<rparr>) st = step_is_ready q st"
proof -
  have "previous_step (q\<lparr>mp_steps := map (mark_ready q) (mp_steps q)\<rparr>) st = map_option (mark_ready q) (previous_step q st)"
    by (simp add: previous_step_def find_map o_def)
  then show ?thesis by (simp add: step_is_ready_def option.case_eq_if option.map_sel)
qed

lemma refresh_idem: "refresh_step_statuses env (refresh_step_statuses env p) = refresh_step_statuses env p"
proof -
  define steps1 where "steps1 = map (\<lambda>st. mark_ready p (follow_run env (mp_tenant_id p) st)) (mp_steps p)"
  define q where "q = p\<lparr>mp_steps := steps1, mp_status := rolled_up (mp_status p) steps1\<rparr>"
  define r where "r = q\<lparr>mp_steps := map (mark_ready q) (mp_steps q)\<rparr>"
  have r: "refresh_step_statuses env p = r" by (simp add: refresh_step_statuses_def Let_def r_def q_def steps1_def)
  have marked: "mark_ready r (mark_ready q st) = mark_ready q st" for st
    by (rule mark_ready_stable) (simp add: r_def step_is_ready_marked)
  have stays: "follow_run env (mp_tenant_id p) st = st" "mark_ready r st = st" if "st \<in> set (mp_steps r)" for st
    using that marked by (auto simp: r_def q_def steps1_def follow_run_mark_ready follow_run_idem)
  have tenant: "mp_tenant_id r = mp_tenant_id p" by (simp add: r_def q_def)
  have "map (\<lambda>st. mark_ready r (follow_run env (mp_tenant_id r) st)) (mp_steps r) = mp_steps r"
    by (rule map_idI) (simp add: stays tenant)
  moreover have "rolled_up (mp_status r) (mp_steps r) = mp_status r"
    using refresh_status[of env p] rolled_up_idem by (metis r)
  moreover have "map (mark_ready r) (mp_steps r) = mp_steps r" by (rule map_idI) (rule stays)
  ultimately have "refresh_step_statuses env r = r" unfolding refresh_step_statuses_def Let_def by simp
  then show ?thesis by (simp add: r)
qed

lemma refresh_stamp: "refresh_step_statuses env (stamp now v p) = stamp now v (refresh_step_statuses env p)"
proof -
  have ready: "step_is_ready (p\<lparr>mp_updated_at := now, mp_version := v\<rparr>) = step_is_ready p" for p
    by (simp add: fun_eq_iff step_is_ready_def previous_step_def)
  then have "mark_ready (p\<lparr>mp_updated_at := now, mp_version := v\<rparr>) = mark_ready p" for p
    by (simp add: fun_eq_iff mark_ready_def)
  moreover have "mark_ready (p\<lparr>mp_updated_at := now, mp_version := v, mp_steps := a, mp_status := b\<rparr>) = mark_ready (p\<lparr>mp_steps := a, mp_status := b\<rparr>)" for a b
    by (simp add: fun_eq_iff mark_ready_def step_is_ready_def previous_step_def)
  ultimately show ?thesis by (simp add: refresh_step_statuses_def stamp_def Let_def)
qed

lemma get_program_saved:
  assumes "save_pinned now v p tbl = (Inr p', tbl')"
  shows "p' = stamp now (v + 1) p" "get_program tbl' (mp_tenant_id p) (mp_program_id p) = Some p'"
proof -
  have "p' = stamp now (v + 1) p \<and> get_program tbl' (mp_tenant_id p) (mp_program_id p) = Some p'"
    using assms
  proof (cases rule: save_pinned_cases)
    case (saved q)
    then show ?thesis unfolding saved(4) by (subst get_program_update) (simp_all add: prog_key_def)
  qed simp
  then show "p' = stamp now (v + 1) p" "get_program tbl' (mp_tenant_id p) (mp_program_id p) = Some p'" by blast+
qed

lemma with_program_cases:
  assumes "with_program now t pid edit tbl = (r, tbl')"
  obtains (refused) e where "r = Inl e" "tbl' = tbl"
  | (answered) p a where "get_program tbl t pid = Some p" "edit p = Inr (a, None)" "r = Inr a" "tbl' = tbl"
  | (saved) p a p' where "get_program tbl t pid = Some p" "edit p = Inr (a, Some p')" "r = Inr a"
      "save_pinned now (mp_version p) p' tbl = (Inr (stamp now (mp_version p + 1) p'), tbl')"
proof (cases "get_program tbl t pid")
  case None
  then show ?thesis using assms refused by (auto simp: with_program_def)
next
  case (Some p)
  show ?thesis
  proof (cases "edit p")
    case (Inl e)
    then show ?thesis using assms Some refused by (auto simp: with_program_def)
  next
    case (Inr x)
    obtain a np where x: "x = (a, np)" by fastforce
    show ?thesis
    proof (cases np)
      case None
      note got = Some Inr[unfolded x None]
      have "r = Inr a" "tbl' = tbl" using assms by (simp_all add: with_program_def got)
      then show ?thesis by (rule answered[OF got])
    next
      case (Some p')
      note got = \<open>get_program tbl t pid = Some p\<close> Inr[unfolded x Some]
      obtain r1 tbl1 where s: "save_pinned now (mp_version p) p' tbl = (r1, tbl1)" by fastforce
      have w: "(case r1 of Inl e \<Rightarrow> Inl e | Inr _ \<Rightarrow> Inr a) = r" "tbl1 = tbl'"
        using assms by (cases r1; simp add: with_program_def got s)+
      show ?thesis
      proof (cases r1)
        case (Inl e)
        have "tbl1 = tbl" using s[unfolded Inl] by (cases rule: save_pinned_cases) auto
        then show ?thesis using w Inl refused by auto
      next
        case (Inr y)
        then show ?thesis using saved[OF got] s w get_program_saved(1) by simp
      qed
    qed
  qed
qed

subsection \<open>Lemmas on binding\<close>

lemma replace_step_previous:
  assumes "program_ok q" "find_program_step q sid = Inr st" "ms_step_id st' = ms_step_id st" "ms_ordinal st' = ms_ordinal st"
  shows "previous_step (replace_step q st') st' = previous_step q st"
proof -
  have st: "st \<in> set (mp_steps q)" by (simp add: find_step_Inr[OF assms(2)])
  have same: "s = st" if "s \<in> set (mp_steps q)" "ms_step_id s = ms_step_id st" for s
    using that st assms(1) by (metis program_ok_def distinct_map inj_on_eq_iff)
  have "List.find (\<lambda>s. ms_ordinal (if ms_step_id s = ms_step_id st then st' else s) = ms_ordinal st - 1) (mp_steps q) =
      List.find (\<lambda>s. ms_ordinal s = ms_ordinal st - 1) (mp_steps q)"
    by (rule find_cong[OF refl]) (use same assms(4) in fastforce)
  then have "previous_step (replace_step q st') st' = map_option (\<lambda>s. if ms_step_id s = ms_step_id st then st' else s) (previous_step q st)"
    by (simp add: previous_step_def replace_step_def find_map o_def assms(3,4))
  also have "\<dots> = previous_step q st"
  proof (cases "previous_step q st")
    case (Some prev)
    then have "prev \<in> set (mp_steps q)" "ms_ordinal prev = ms_ordinal st - 1" unfolding previous_step_def by (auto dest: find_SomeD)
    then have "ms_step_id prev \<noteq> ms_step_id st" using same by fastforce
    then show ?thesis using Some by simp
  qed simp
  finally show ?thesis .
qed

text \<open>What the checks of a bind let through.\<close>

lemma bind_error_None:
  assumes "bind_error env p st previewed ph run = None"
  shows "mp_status p = PgActive" "ms_status st \<in> {SsPlanned, SsReady, SsFailed}" "previewed = Some ph"
    "previous_step p st = Some prev \<Longrightarrow> step_done prev"
    "\<exists>rec. pg_runs env (mp_tenant_id p) run = Some rec \<and> (\<forall>h. known_hash env (mp_tenant_id p) run rec = Some h \<longrightarrow> h = ph) \<and>
       (known_hash env (mp_tenant_id p) run rec = None \<longrightarrow> rr_status rec \<notin> set (ag_terminal_in (ms_acceptance_gate st)))"
  using assms by (auto simp: bind_error_def step_is_ready_def truthy_def split: if_splits option.splits)

lemma apply_run_step_bound:
  assumes "apply_run_step env body st0 p0 = Inr (BoundAnswer run s, q)"
  obtains g ph where "materialize_step_goal p0 st0 = Inr g" "\<not> blocks (stress_step p0 st0 g)" "preview_hash env g = Inr ph"
    "assert_gp0_execution_prereqs p0 st0 body = None"
    "bind_error env (replace_step p0 (st0\<lparr>ms_criteria_preview_hash := Some ph\<rparr>)) (st0\<lparr>ms_criteria_preview_hash := Some ph\<rparr>)
       (ms_criteria_preview_hash st0) ph run = None"
    "s = bound_status (ms_acceptance_gate st0) (the (pg_runs env (mp_tenant_id p0) run))"
    "q = Some (bound_program env (replace_step p0 (st0\<lparr>ms_criteria_preview_hash := Some ph\<rparr>)) (st0\<lparr>ms_criteria_preview_hash := Some ph\<rparr>)
       run (the (pg_runs env (mp_tenant_id p0) run)))"
  using assms unfolding apply_run_step_def by (auto simp: Let_def split: if_splits option.splits)

subsection \<open>What a request keeps\<close>

lemma saved_part_Inr: "saved_part r = Inr q \<longleftrightarrow> (\<exists>a. r = Inr (a, q))"
  by (auto simp: saved_part_def split: sum.splits)

lemma replace_step_ok:
  assumes "program_ok p" "find_program_step p sid = Inr st" "ms_step_id st' = ms_step_id st" "ms_ordinal st' = ms_ordinal st"
  shows "program_ok (replace_step p st')"
proof -
  have st: "st \<in> set (mp_steps p)" by (simp add: find_step_Inr[OF assms(2)])
  have "s = st" if "s \<in> set (mp_steps p)" "ms_step_id s = ms_step_id st" for s
    using that st assms(1) by (metis program_ok_def distinct_map inj_on_eq_iff)
  then have "map ms_ordinal (mp_steps (replace_step p st')) = map ms_ordinal (mp_steps p)"
    using assms(3,4) by (auto simp: replace_step_def)
  moreover have "map ms_step_id (mp_steps (replace_step p st')) = map ms_step_id (mp_steps p)" by (simp add: replace_step_def)
  ultimately show ?thesis using assms(1) by (simp add: program_ok_def)
qed

lemma program_ok_upd [simp]:
  "program_ok (p\<lparr>mp_status := x\<rparr>) = program_ok p" "program_ok (p\<lparr>mp_disclaimer_acked_at := y\<rparr>) = program_ok p"
  "program_ok (p\<lparr>mp_handoff := h\<rparr>) = program_ok p" "program_ok (p\<lparr>mp_repo_binding := b\<rparr>) = program_ok p"
  by (simp_all add: program_ok_def)

lemma program_ok_stamp [simp]: "program_ok (stamp now v p) = program_ok p"
  by (simp add: program_ok_def stamp_def)

lemma patched_step_sel [simp]: "ms_step_id (patched_step b st) = ms_step_id st" "ms_ordinal (patched_step b st) = ms_ordinal st"
  by (simp_all add: patched_step_def)

text \<open>The kept part of a program: its key and version, and that its steps are well formed.\<close>

definition keeps :: "migration_program \<Rightarrow> migration_program \<Rightarrow> bool" where
  "keeps p q \<longleftrightarrow> prog_key q = prog_key p \<and> mp_version q = mp_version p \<and> (program_ok p \<longrightarrow> program_ok q)"

lemma keeps_trans: "keeps p q \<Longrightarrow> keeps q r \<Longrightarrow> keeps p r"
  by (simp add: keeps_def)

lemma keeps_refresh: "keeps p (refresh_step_statuses env p)"
  by (simp add: keeps_def refresh_program_ok)

lemma keeps_replace_step:
  "\<lbrakk>find_program_step p sid = Inr st; ms_step_id st' = ms_step_id st; ms_ordinal st' = ms_ordinal st\<rbrakk> \<Longrightarrow> keeps p (replace_step p st')"
  by (simp add: keeps_def replace_step_ok)

lemma keeps_upd: "keeps p (p\<lparr>mp_status := x\<rparr>)" "keeps p (p\<lparr>mp_status := x, mp_disclaimer_acked_at := y\<rparr>)"
  "keeps p (p\<lparr>mp_repo_binding := b, mp_handoff := h\<rparr>)"
  by (simp_all add: keeps_def prog_key_def)

lemma keeps_two_steps:
  assumes "find_program_step p sid = Inr st" "ms_step_id st1 = ms_step_id st" "ms_ordinal st1 = ms_ordinal st"
    "ms_step_id st2 = ms_step_id st" "ms_ordinal st2 = ms_ordinal st"
  shows "keeps p (replace_step (replace_step p st1) st2)"
proof -
  have "replace_step (replace_step p st1) st2 = replace_step p st2" using assms(2,4) by (simp add: replace_step_def)
  then show ?thesis using keeps_replace_step[OF assms(1,4,5)] by simp
qed

lemma bound_program_keeps:
  assumes "find_program_step p sid = Inr st" "ms_step_id st1 = ms_step_id st" "ms_ordinal st1 = ms_ordinal st"
  shows "keeps p (bound_program env (replace_step p st1) st1 run rec)"
  unfolding bound_program_def Let_def
  by (auto intro!: keeps_two_steps[OF assms(1)] keeps_trans[OF _ keeps_refresh] keeps_trans[OF _ keeps_upd(1)] simp: assms(2,3))

lemma apply_run_step_keeps:
  assumes "apply_run_step env body st p = Inr (a, Some q)" "find_program_step p sid = Inr st"
  shows "keeps p q"
  using assms(1) unfolding apply_run_step_def
  by (auto simp: Let_def split: if_splits option.splits intro!: bound_program_keeps[OF assms(2)] keeps_replace_step[OF assms(2)])

lemma request_edit_keeps:
  assumes "request_edit env rq p = Inr (Some q)"
  shows "keeps p q"
proof (cases rq)
  case (RqRun body sid)
  then obtain a st where "find_program_step (refresh_step_statuses env p) sid = Inr st"
    "apply_run_step env body st (refresh_step_statuses env p) = Inr (a, Some q)"
    using assms by (auto simp: saved_part_Inr run_step_edit_def Let_def)
  then show ?thesis using keeps_trans[OF keeps_refresh apply_run_step_keeps] by blast
next
  case (RqSkip sid note_text)
  then show ?thesis using assms
    by (auto simp: saved_part_Inr skip_step_edit_def Let_def split: if_splits
        intro!: keeps_trans[OF _ keeps_refresh] keeps_trans[OF _ keeps_upd(1)] keeps_replace_step)
next
  case (RqSeed explicit run sid)
  then show ?thesis using assms
    by (auto split: sum.splits option.splits intro!: keeps_trans[OF _ keeps_upd(1)] keeps_replace_step)
next
  case (RqReplace b if_match)
  then show ?thesis using assms by (auto simp: keeps_def replaced_program_def prog_key_def split: if_splits)
qed (use assms in \<open>auto simp: saved_part_Inr get_edit_def accept_edit_def abandon_edit_def patch_step_edit_def bind_repo_edit_def record_tip_edit_def
    preview_step_edit_def Let_def split: if_splits option.splits
    intro!: keeps_upd keeps_refresh keeps_trans[OF _ keeps_refresh] keeps_replace_step\<close>)

text \<open>Consent: what a request other than a seed leaves of the acknowledgement and of an abandoned program.\<close>

definition consents :: "migration_program \<Rightarrow> migration_program \<Rightarrow> bool" where
  "consents p q \<longleftrightarrow> (acked p \<longrightarrow> acked q) \<and> (mp_status p = PgAbandoned \<longrightarrow> mp_status q = PgAbandoned)"

lemma consents_trans: "consents p q \<Longrightarrow> consents q r \<Longrightarrow> consents p r"
  by (simp add: consents_def)

lemma consents_same: "\<lbrakk>mp_status q = mp_status p; mp_disclaimer_acked_at q = mp_disclaimer_acked_at p\<rbrakk> \<Longrightarrow> consents p q"
  by (simp add: consents_def acked_def)

lemma consents_running: "\<lbrakk>mp_status p \<in> {PgActive, PgBlocked}; mp_disclaimer_acked_at q = mp_disclaimer_acked_at p\<rbrakk> \<Longrightarrow> consents p q"
  by (auto simp: consents_def acked_def)

lemma consents_acked: "\<lbrakk>mp_status p \<noteq> PgAbandoned; mp_disclaimer_acked_at q \<noteq> None\<rbrakk> \<Longrightarrow> consents p q"
  by (simp add: consents_def acked_def)

lemma consents_refresh: "consents p (refresh_step_statuses env p)"
  by (auto simp: consents_def acked_def refresh_status[of env p] rolled_up_def)

lemma bound_program_acked_at [simp]: "mp_disclaimer_acked_at (bound_program env p st run rec) = mp_disclaimer_acked_at p"
  by (simp add: bound_program_def Let_def)

lemma apply_run_step_consents:
  assumes "apply_run_step env body st p = Inr (a, Some q)"
  shows "consents p q"
proof (cases "sr_plan_only body \<or> sr_bind_run_id body = None")
  case True
  then show ?thesis using assms unfolding apply_run_step_def by (auto simp: Let_def split: if_splits intro!: consents_same)
next
  case False
  then have "mp_status p = PgActive" "mp_disclaimer_acked_at q = mp_disclaimer_acked_at p"
    using assms unfolding apply_run_step_def by (auto simp: Let_def split: if_splits option.splits dest: bind_error_None(1))
  then show ?thesis by (intro consents_running) auto
qed

lemma request_edit_consents:
  assumes "request_edit env rq p = Inr (Some q)" "\<not> is_seed (Served k env rq)"
  shows "consents p q"
proof (cases rq)
  case (RqRun body sid)
  then obtain a st where "apply_run_step env body st (refresh_step_statuses env p) = Inr (a, Some q)"
    using assms by (auto simp: saved_part_Inr run_step_edit_def Let_def)
  then show ?thesis using consents_trans[OF consents_refresh apply_run_step_consents] by blast
next
  case RqAccept
  then show ?thesis using assms by (auto simp: saved_part_Inr accept_edit_def split: if_splits intro!: consents_acked)
next
  case (RqSkip sid note_text)
  then show ?thesis using assms
    by (auto simp: saved_part_Inr skip_step_edit_def Let_def split: if_splits intro!: consents_running)
next
  case (RqReplace b if_match)
  then show ?thesis using assms by (auto simp: replaced_program_def split: if_splits intro!: consents_same)
next
  case RqAbandon
  then show ?thesis using assms by (auto simp: saved_part_Inr abandon_edit_def consents_def acked_def)
next
  case (RqSeed explicit run sid)
  then show ?thesis using assms(2) by simp
qed (use assms in \<open>auto simp: saved_part_Inr get_edit_def patch_step_edit_def bind_repo_edit_def record_tip_edit_def
    preview_step_edit_def Let_def split: if_splits option.splits intro!: consents_same consents_refresh\<close>)

subsection \<open>The system of requests\<close>

lemma prog_okD:
  assumes "prog_ok s"
  shows "distinct (map prog_key (ps_table s))" "get_program (ps_table s) t pid = replay (ps_log s) (t, pid)"
    "p \<in> set (ps_reads s) \<Longrightarrow> \<exists>q. get_program (ps_table s) (mp_tenant_id p) (mp_program_id p) = Some q \<and>
        mp_version p \<le> mp_version q \<and> (mp_version p = mp_version q \<longrightarrow> p = q)"
    "Created env p \<in> set (ps_log s) \<Longrightarrow> program_ok p"
  using assms unfolding prog_ok_def by (blast, metis fst_conv snd_conv, blast, blast)

lemma prog_okI:
  assumes "distinct (map prog_key (ps_table s))" "\<And>t pid. get_program (ps_table s) t pid = replay (ps_log s) (t, pid)"
    "\<And>p. p \<in> set (ps_reads s) \<Longrightarrow> \<exists>q. get_program (ps_table s) (mp_tenant_id p) (mp_program_id p) = Some q \<and>
        mp_version p \<le> mp_version q \<and> (mp_version p = mp_version q \<longrightarrow> p = q)"
    "\<And>env p. Created env p \<in> set (ps_log s) \<Longrightarrow> program_ok p"
  shows "prog_ok s"
  unfolding prog_ok_def using assms(1,3,4) assms(2)[of "fst _" "snd _"] by auto

lemma creating_ok:
  assumes "prog_ok s" "get_program (ps_table s) (mp_tenant_id p) (mp_program_id p) = None" "create_program env p (ps_table s) = (Inr q, tbl)"
  shows "prog_ok (s\<lparr>ps_table := tbl, ps_log := ps_log s @ [Created env p]\<rparr>)"
proof -
  let ?p = "stamp (pg_now env) 1 (p\<lparr>mp_status := PgDraft\<rparr>)"
  have put: "put_program (pg_now env) None (p\<lparr>mp_status := PgDraft\<rparr>) (ps_table s) = (Inr q, tbl)"
    using assms(3) by (simp add: create_program_def split: if_splits)
  then have tbl: "tbl = ps_table s @ [?p]" by (cases rule: put_program_cases) (use assms(2) in auto)
  have key: "prog_key (p\<lparr>mp_status := PgDraft\<rparr>) = prog_key p" by (simp add: prog_key_def)
  have get: "get_program tbl t pid = (if (t, pid) = prog_key p then Some ?p else get_program (ps_table s) t pid)" for t pid
    using assms(2) by (auto simp: tbl get_program_append key prog_key_def[of p] split: option.split)
  have fresh: "prog_key x \<noteq> prog_key p" if "x \<in> set (ps_reads s)" for x
    using prog_okD(3)[OF assms(1) that] assms(2) by (auto simp: prog_key_def)
  show ?thesis
  proof (rule prog_okI)
    let ?s = "s\<lparr>ps_table := tbl, ps_log := ps_log s @ [Created env p]\<rparr>"
    show "distinct (map prog_key (ps_table ?s))"
      using put_program_distinct[OF put prog_okD(1)[OF assms(1)]] by simp
    show "get_program (ps_table ?s) t pid = replay (ps_log ?s) (t, pid)" for t pid
      using prog_okD(2)[OF assms(1), of t pid] by (auto simp: get replay_snoc)
    show "\<exists>y. get_program (ps_table ?s) (mp_tenant_id x) (mp_program_id x) = Some y \<and>
        mp_version x \<le> mp_version y \<and> (mp_version x = mp_version y \<longrightarrow> x = y)" if "x \<in> set (ps_reads ?s)" for x
      using prog_okD(3)[OF assms(1), of x] that fresh[of x] by (auto simp: get prog_key_def)
    show "program_ok x" if "Created e x \<in> set (ps_log ?s)" for e x
      using that prog_okD(4)[OF assms(1)] assms(3) by (auto simp: create_program_def split: if_splits)
  qed
qed

lemma saving_ok:
  assumes "prog_ok s" "p \<in> set (ps_reads s)" "request_edit env rq p = Inr (Some p')"
    "save_pinned (pg_now env) (mp_version p) p' (ps_table s) = (r, tbl)"
  shows "prog_ok (s\<lparr>ps_table := tbl, ps_log := (if is_ok r then ps_log s @ [Served (prog_key p) env rq] else ps_log s)\<rparr>)"
proof -
  obtain q where q: "get_program (ps_table s) (mp_tenant_id p) (mp_program_id p) = Some q" "mp_version p = mp_version q \<longrightarrow> p = q"
    using prog_okD(3)[OF assms(1,2)] by blast
  have key: "prog_key p' = prog_key p" using request_edit_keeps[OF assms(3)] by (simp add: keeps_def)
  then have k: "mp_tenant_id p' = mp_tenant_id p" "mp_program_id p' = mp_program_id p" by (auto simp: prog_key_def)
  from assms(4) show ?thesis
  proof (cases rule: save_pinned_cases)
    case conflict
    then show ?thesis using assms(1) by simp
  next
    case (saved q')
    then have same: "q' = q" "p = q" using q k by auto
    have get: "get_program tbl t pid = (if (t, pid) = prog_key p then Some (stamp (pg_now env) (mp_version p + 1) p') else get_program (ps_table s) t pid)" for t pid
      using q(1) key unfolding saved(4) by (subst get_program_update) (auto simp: prog_key_def)
    show ?thesis
    proof (rule prog_okI)
      let ?s = "s\<lparr>ps_table := tbl, ps_log := if is_ok r then ps_log s @ [Served (prog_key p) env rq] else ps_log s\<rparr>"
      show "distinct (map prog_key (ps_table ?s))" using save_pinned_distinct[OF assms(4) prog_okD(1)[OF assms(1)]] by simp
      show "get_program (ps_table ?s) t pid = replay (ps_log ?s) (t, pid)" for t pid
        using q(1) same prog_okD(2)[OF assms(1), of t pid] assms(3) by (auto simp: get replay_snoc saved(3) prog_key_def)
      show "\<exists>y. get_program (ps_table ?s) (mp_tenant_id x) (mp_program_id x) = Some y \<and>
          mp_version x \<le> mp_version y \<and> (mp_version x = mp_version y \<longrightarrow> x = y)" if "x \<in> set (ps_reads ?s)" for x
        using prog_okD(3)[OF assms(1), of x] that q(1) same by (fastforce simp: get prog_key_def)
      show "program_ok x" if "Created e x \<in> set (ps_log ?s)" for e x
        using that prog_okD(4)[OF assms(1)] by (auto split: if_splits)
    qed
  qed
qed

lemma prog_step_ok:
  assumes "prog_ok s" "prog_step s s'"
  shows "prog_ok s'"
  using assms(2)
proof (cases rule: prog_step.cases)
  case (reading t pid p)
  then show ?thesis using prog_okD[OF assms(1)] get_program_key[OF reading(2)] by (auto intro!: prog_okI)
qed (use creating_ok saving_ok assms(1) in auto)

lemma no_programs_ok: "prog_ok no_programs"
  by (simp add: prog_ok_def no_programs_def get_program_def replay_def)

interpretation programs: started_system prog_step prog_ok "\<lambda>s. s = no_programs"
  by unfold_locales (auto intro: prog_step_ok no_programs_ok)

text \<open>A fact of the sequential object: what every creation gives and every request keeps holds of the replayed programs.\<close>

lemma replay_keeps:
  assumes "replay es k = Some p"
    and "\<And>env q. Created env q \<in> set es \<Longrightarrow> P (stamp (pg_now env) 1 (q\<lparr>mp_status := PgDraft\<rparr>))"
    and "\<And>env rq q q' v. \<lbrakk>Served k env rq \<in> set es; request_edit env rq q = Inr (Some q'); P q\<rbrakk> \<Longrightarrow> P (stamp (pg_now env) v q')"
  shows "P p"
  using assms
proof (induction es arbitrary: p rule: rev_induct)
  case Nil
  then show ?case by (simp add: replay_def)
next
  case (snoc e es)
  have old: "P p'" if "replay es k = Some p'" for p'
  proof (rule snoc.IH[OF that])
    show "P (stamp (pg_now env) 1 (q\<lparr>mp_status := PgDraft\<rparr>))" if "Created env q \<in> set es" for env q
      by (rule snoc.prems(2)) (simp add: that)
    show "P (stamp (pg_now env) v q')" if "Served k env rq \<in> set es" "request_edit env rq q = Inr (Some q')" "P q" for env rq q q' v
      by (rule snoc.prems(3)[OF _ that(2,3)]) (simp add: that(1))
  qed
  show ?case
  proof (cases e)
    case (Created env q)
    then show ?thesis using snoc.prems(1) snoc.prems(2)[of env q] old by (auto simp: replay_snoc split: if_splits)
  next
    case (Served k' env rq)
    then show ?thesis using snoc.prems(1) snoc.prems(3)[of env rq] old
      by (auto simp: replay_snoc split: if_splits option.splits sum.splits)
  qed
qed

lemma reachable_prog_ok: "prog_step\<^sup>*\<^sup>* no_programs s \<Longrightarrow> prog_ok s"
  using programs.reachable_inv by blast

lemma acked_stamp [simp]: "acked (stamp now v p) = acked p" "mp_status (stamp now v p) = mp_status p"
  by (simp_all add: acked_def stamp_def)

lemma seed_free_snoc: "seed_free (es @ [e]) \<longleftrightarrow> seed_free es \<and> \<not> is_seed e"
  by (auto simp: seed_free_def)

text \<open>One event leaves an abandoned program abandoned.\<close>

lemma apply_event_abandoned:
  assumes "mp_status p = PgAbandoned" "\<not> is_seed e" "\<And>env q. e = Created env q \<Longrightarrow> prog_key q \<noteq> k"
  shows "\<exists>q. apply_event k (Some p) e = Some q \<and> mp_status q = PgAbandoned"
proof (cases e)
  case (Served k' env rq)
  then show ?thesis using assms(1,2) request_edit_consents[of env rq p _ k'] by (auto simp: consents_def split: sum.splits option.splits)
qed (use assms in auto)

definition abandoned_at :: "tenant \<Rightarrow> string \<Rightarrow> prog_system \<Rightarrow> bool" where
  "abandoned_at t pid s \<longleftrightarrow> (\<exists>p. get_program (ps_table s) t pid = Some p \<and> (seed_free (ps_log s) \<longrightarrow> mp_status p = PgAbandoned))"

lemma prog_step_log:
  assumes "prog_step s s'"
  obtains (same) "ps_log s' = ps_log s" | (event) e where "ps_log s' = ps_log s @ [e]"
    "\<And>env q. e = Created env q \<Longrightarrow> get_program (ps_table s) (mp_tenant_id q) (mp_program_id q) = None"
  using assms by (cases rule: prog_step.cases) (auto split: if_splits)

lemma abandoned_stable:
  assumes "prog_ok s" "prog_step s s'" "abandoned_at t pid s"
  shows "abandoned_at t pid s'"
proof -
  note get = prog_okD(2)[OF assms(1), of t pid] prog_okD(2)[OF prog_step_ok[OF assms(1,2)], of t pid]
  obtain p where p: "get_program (ps_table s) t pid = Some p" "seed_free (ps_log s) \<longrightarrow> mp_status p = PgAbandoned"
    using assms(3) by (auto simp: abandoned_at_def)
  from assms(2) show ?thesis
  proof (cases rule: prog_step_log)
    case same
    then have "get_program (ps_table s') t pid = Some p" using get p(1) by simp
    then show ?thesis using p(2) same by (simp add: abandoned_at_def)
  next
    case (event e)
    have other: "prog_key q \<noteq> (t, pid)" if "e = Created env q" for env q using event(2)[OF that] p(1) by (auto simp: prog_key_def)
    have s': "get_program (ps_table s') t pid = apply_event (t, pid) (Some p) e" using get p(1) by (simp add: event(1) replay_snoc)
    moreover have "\<exists>q. apply_event (t, pid) (Some p) e = Some q"
      using other by (cases e) (auto split: sum.splits option.splits)
    ultimately show ?thesis
      using apply_event_abandoned[of p e "(t, pid)"] other p(2) by (auto simp: abandoned_at_def event(1) seed_free_snoc)
  qed
qed

lemma save_pinned_succeeds:
  assumes "get_program tbl (mp_tenant_id q) (mp_program_id q) = Some p"
  shows "\<exists>tbl'. save_pinned now (mp_version p) q tbl = (Inr (stamp now (mp_version p + 1) q), tbl')"
proof -
  obtain r tbl' where s: "save_pinned now (mp_version p) q tbl = (r, tbl')" by fastforce
  then show ?thesis by (cases rule: save_pinned_cases) (use assms s in auto)
qed

lemma find_step_replace:
  assumes "find_program_step p sid = Inr st" "ms_step_id st' = sid"
  shows "find_program_step (replace_step p st') sid = Inr st'"
proof -
  have "(\<lambda>s. ms_step_id (if ms_step_id s = ms_step_id st' then st' else s) = sid) = (\<lambda>s. ms_step_id s = sid)"
    using assms(2) by auto
  moreover obtain s where "List.find (\<lambda>s. ms_step_id s = sid) (mp_steps p) = Some s" "ms_step_id s = sid"
    using assms(1) by (auto simp: find_program_step_def split: option.splits dest: find_SomeD)
  ultimately show ?thesis using assms(2) by (simp add: find_program_step_def replace_step_def find_map o_def)
qed

lemma find_step_upd [simp]: "find_program_step (p\<lparr>mp_status := x\<rparr>) sid = find_program_step p sid" "find_program_step (stamp now v p) sid = find_program_step p sid"
  by (simp_all add: find_program_step_def stamp_def)





text \<open>The handlers are requests that nothing interrupts.\<close>

lemma save_pinned_table: "snd (save_pinned now v p tbl) = snd (put_program now (Some v) p tbl)"
  by (simp add: save_pinned_def split: prod.split sum.split prog_error.split)

lemma with_program_serves:
  assumes "\<And>p. request_edit env rq p = saved_part (edit p)"
  shows "snd (with_program (pg_now env) t pid edit tbl) = serve env rq t pid tbl"
  unfolding with_program_def serve_def assms saved_part_def
  by (auto split: option.splits sum.splits prod.splits)

lemma handlers_serve:
  "snd (get_handler env t pid tbl) = serve env RqGet t pid tbl"
  "snd (replace_handler env b if_match t pid tbl) = serve env (RqReplace b if_match) t pid tbl"
  "snd (accept_handler env True t pid tbl) = serve env RqAccept t pid tbl"
  "py_strip note_text \<noteq> [] \<Longrightarrow> snd (skip_step_handler env t pid sid note_text tbl) = serve env (RqSkip sid note_text) t pid tbl"
  "snd (seed_workdir_handler env explicit run t pid sid tbl) = serve env (RqSeed explicit run sid) t pid tbl"
  by (simp add: get_handler_def with_program_serves[of env RqGet],
      auto simp: replace_handler_def serve_def save_pinned_table split: option.split)
    (auto simp: accept_handler_def with_program_serves[of env RqAccept] skip_step_handler_def with_program_serves[of env "RqSkip sid note_text"]
      seed_workdir_handler_def serve_def split: option.split sum.split)

subsection \<open>Properties\<close>

text \<open>
  C28. Concurrent requests on a program never lose a save. Whatever programs the requests have read and in whatever order they save, the
  stored programs are those that result from serving the creations and the requests whose save succeeded one
  after the other, each on the program its predecessor left.\<close>

theorem pinned_saves_serialise:
  assumes "prog_step\<^sup>*\<^sup>* no_programs s"
  shows "get_program (ps_table s) t pid = replay (ps_log s) (t, pid)"
  by (rule prog_okD(2)[OF reachable_prog_ok[OF assms]])

text \<open>
  C31. Every stored program has distinct step ids and ordinals, and as long as no checkout has failed, a program that
  is active, blocked or completed has its disclaimer acknowledged.\<close>

theorem programs_run_with_consent:
  assumes "prog_step\<^sup>*\<^sup>* no_programs s" "get_program (ps_table s) t pid = Some p"
  shows "program_ok p \<and> (seed_free (ps_log s) \<longrightarrow> acked p)"
proof -
  have ok: "prog_ok s" by (rule reachable_prog_ok[OF assms(1)])
  have p: "replay (ps_log s) (t, pid) = Some p" using assms(2) prog_okD(2)[OF ok] by simp
  have "program_ok p"
    by (rule replay_keeps[OF p, where P = program_ok]) (use prog_okD(4)[OF ok] request_edit_keeps in \<open>auto simp: keeps_def\<close>)
  moreover have "acked p" if "seed_free (ps_log s)"
  proof (rule replay_keeps[OF p, where P = acked])
    show "acked (stamp (pg_now env) v q')" if "Served (t, pid) env rq \<in> set (ps_log s)" "request_edit env rq q = Inr (Some q')" "acked q" for env rq q q' v
      using that request_edit_consents[of env rq q q' "(t, pid)"] \<open>seed_free (ps_log s)\<close> by (auto simp: consents_def seed_free_def)
  qed (simp add: acked_def)
  ultimately show ?thesis by blast
qed

text \<open>
  Abandoning is final: whatever the requests do afterwards, and from whatever program they had read, an abandoned program
  stays abandoned as long as no checkout has failed.\<close>

theorem abandoned_is_final:
  assumes "prog_step\<^sup>*\<^sup>* no_programs s" "get_program (ps_table s) t pid = Some p" "mp_status p = PgAbandoned"
    "prog_step\<^sup>*\<^sup>* s s'" "seed_free (ps_log s')"
  shows "\<exists>q. get_program (ps_table s') t pid = Some q \<and> mp_status q = PgAbandoned"
proof -
  have "abandoned_at t pid s'"
    by (rule programs.stays[where P = "abandoned_at t pid", OF _ assms(4) reachable_prog_ok[OF assms(1)]])
      (use abandoned_stable assms(2,3) in \<open>auto simp: abandoned_at_def\<close>)
  then show ?thesis using assms(5) by (auto simp: abandoned_at_def)
qed

text \<open>
  Reading a program twice saves at most once: after a get, another get against the same runs leaves the table, and with it
  every version, as it is.\<close>

theorem second_get_writes_nothing:
  assumes "get_handler env t pid tbl = (Inr (), tbl')"
  shows "get_handler env t pid tbl' = (Inr (), tbl')"
  using assms[unfolded get_handler_def]
proof (cases rule: with_program_cases)
  case (answered p a)
  then show ?thesis using assms by simp
next
  case (saved p a p')
  have key: "mp_tenant_id p = t" "mp_program_id p = pid" using get_program_key[OF saved(1)] by auto
  have p': "p' = refresh_step_statuses env p" using saved(2) by (auto simp: get_edit_def split: if_splits)
  have "get_program tbl' t pid = Some (stamp (pg_now env) (mp_version p + 1) p')"
    using get_program_saved(2)[OF saved(4)] key by (simp add: p')
  then show ?thesis by (simp add: get_handler_def with_program_def get_edit_def p' refresh_stamp refresh_idem)
qed auto

text \<open>
  C29. No run is bound to a step past a gate. When a bind is answered as new, the refreshed program was active, the step was planned or
  ready and its predecessor succeeded or skipped, the goal the step materializes to now is the one that was previewed and raised no
  blocking warning, the run exists, and where the criteria the run works against are known they are those of that goal.\<close>

theorem bind_is_gated:
  assumes "program_ok p" "run_step_edit env body sid p = Inr (BoundAnswer run s, q)"
  shows "\<exists>st g ph rec. find_program_step (refresh_step_statuses env p) sid = Inr st \<and> mp_status (refresh_step_statuses env p) = PgActive \<and>
     ms_status st \<in> {SsPlanned, SsReady} \<and>
     (\<forall>prev. previous_step (refresh_step_statuses env p) st = Some prev \<longrightarrow> step_done prev) \<and>
     materialize_step_goal (refresh_step_statuses env p) st = Inr g \<and> \<not> blocks (stress_step (refresh_step_statuses env p) st g) \<and>
     preview_hash env g = Inr ph \<and> ms_criteria_preview_hash st = Some ph \<and>
     pg_runs env (mp_tenant_id p) run = Some rec \<and> known_hash env (mp_tenant_id p) run rec \<in> {None, Some ph}"
proof -
  let ?p = "refresh_step_statuses env p"
  obtain st where st: "find_program_step ?p sid = Inr st" "apply_run_step env body st ?p = Inr (BoundAnswer run s, q)"
    using assms(2) by (auto simp: run_step_edit_def Let_def)
  from st(2) show ?thesis
  proof (cases rule: apply_run_step_bound)
    case (1 g ph)
    let ?st = "st\<lparr>ms_criteria_preview_hash := Some ph\<rparr>"
    note gate = bind_error_None[OF 1(5)]
    have prev: "previous_step (replace_step ?p ?st) ?st = previous_step ?p st"
      by (rule replace_step_previous[OF refresh_program_ok[OF assms(1)] st(1)]) simp_all
    have active: "mp_status ?p = PgActive" using gate(1) by simp
    then have "rolled_up (mp_status p) (mp_steps ?p) = PgActive" using refresh_status[of env p] by simp
    then have "ms_status st \<noteq> SsFailed" using rolled_up_active find_step_Inr[OF st(1)] by blast
    then have "ms_status st \<in> {SsPlanned, SsReady}" using gate(2) by simp
    moreover have "\<forall>prev. previous_step ?p st = Some prev \<longrightarrow> step_done prev" using gate(4) prev by simp
    moreover obtain rec where "pg_runs env (mp_tenant_id p) run = Some rec" "known_hash env (mp_tenant_id p) run rec \<in> {None, Some ph}"
      using gate(5) by (cases "known_hash env (mp_tenant_id p) run (the (pg_runs env (mp_tenant_id p) run))") auto
    ultimately show ?thesis using st(1) active 1(1-3) gate(3) by auto
  qed
qed


text \<open>
  A failed checkout undoes the gates: whatever its status was, draft, completed or abandoned, a program one of whose steps is seeded in
  vain and then skipped is active, blocked or completed, with the acknowledgement it had before.\<close>

theorem failed_seed_reopens:
  assumes "get_program tbl t pid = Some p" "find_program_step p sid = Inr st" "checked_out env p st explicit run = None" "py_strip note_text \<noteq> []"
  shows "\<exists>q. get_program (snd (skip_step_handler env t pid sid note_text (snd (seed_workdir_handler env explicit run t pid sid tbl)))) t pid = Some q \<and>
     mp_status q \<in> {PgActive, PgBlocked, PgCompleted} \<and> mp_disclaimer_acked_at q = mp_disclaimer_acked_at p"
proof -
  define b where "b = (replace_step p (st\<lparr>ms_status := SsFailed\<rparr>))\<lparr>mp_status := PgBlocked\<rparr>"
  define b1 where "b1 = stamp (pg_now env) (mp_version p + 1) b"
  have key: "mp_tenant_id p = t" "mp_program_id p = pid" using get_program_key[OF assms(1)] by auto
  then have bkey: "mp_tenant_id b1 = t" "mp_program_id b1 = pid" "mp_tenant_id b = t" "mp_program_id b = pid" by (simp_all add: b1_def b_def)
  obtain tbl1 where tbl1: "save_pinned (pg_now env) (mp_version p) b tbl = (Inr b1, tbl1)"
    using save_pinned_succeeds[of tbl b p] assms(1) bkey by (auto simp: b1_def)
  have get1: "get_program tbl1 t pid = Some b1" using get_program_saved(2)[OF tbl1] bkey by simp
  have seed: "snd (seed_workdir_handler env explicit run t pid sid tbl) = tbl1"
    using assms tbl1 by (simp add: seed_workdir_handler_def b_def)
  have id: "ms_step_id st = sid" using find_step_Inr[OF assms(2)] by simp
  have "find_program_step b1 sid = Inr (st\<lparr>ms_status := SsFailed\<rparr>)"
    unfolding b1_def b_def find_step_upd by (rule find_step_replace[OF assms(2)]) (simp add: id)
  moreover have "mp_status b1 = PgBlocked" by (simp add: b1_def b_def)
  ultimately obtain q where q: "skip_step_edit env sid note_text b1 = Inr ((), Some q)" "mp_status q \<in> {PgActive, PgBlocked, PgCompleted}"
      "mp_disclaimer_acked_at q = mp_disclaimer_acked_at b1" "mp_tenant_id q = t" "mp_program_id q = pid"
    by (auto simp: skip_step_edit_def bind_result_def Let_def refresh_status bkey rolled_up_def)
  obtain tbl2 where tbl2: "save_pinned (pg_now env) (mp_version b1) q tbl1 = (Inr (stamp (pg_now env) (mp_version b1 + 1) q), tbl2)"
    using save_pinned_succeeds[of tbl1 q b1] get1 q(4,5) by auto
  then have "snd (skip_step_handler env t pid sid note_text tbl1) = tbl2"
    using assms(4) get1 q(1) by (simp add: skip_step_handler_def with_program_def)
  then show ?thesis
    using get_program_saved(2)[OF tbl2] q seed by (simp add: stamp_def b1_def b_def)
qed

subsection \<open>Examples\<close>

definition example_step :: "string \<Rightarrow> int \<Rightarrow> step_status \<Rightarrow> migration_step" where
  "example_step sid n status =
     \<lparr>ms_step_id = sid, ms_ordinal = n, ms_title = ''step'', ms_role = RoleCustom, ms_goal = example_goal, ms_freeze_paths = [],
      ms_mutate_paths = [], ms_acceptance_gate = \<lparr>ag_terminal_in = [''completed''], ag_require_program_bar = False\<rparr>,
      ms_status = status, ms_run_ids = [], ms_current_run_id = None, ms_criteria_preview_hash = Some ''hash'',
      ms_external_handoff = None, ms_skip_note = None, ms_goal_revision = 0\<rparr>"

definition example_program :: "program_status \<Rightarrow> migration_program" where
  "example_program status =
     \<lparr>mp_program_id = ''p'', mp_tenant_id = ''t'', mp_title = ''program'', mp_intent = '''', mp_task_class = ''refactor'', mp_status = status,
      mp_steps = [example_step ''s0'' 0 SsSkipped, example_step ''s1'' 1 SsPlanned], mp_program_bar_desired = [],
      mp_program_bar_constraints = [], mp_handoff = HandoffNone, mp_freeze_enforcement = Advisory, mp_repo_binding = None,
      mp_budget = None, mp_updated_at = 0, mp_disclaimer_acked_at = None, mp_version = 0\<rparr>"

definition program_example_env :: program_env where
  "program_example_env =
     \<lparr>pg_criteria_hash = (\<lambda>_. ''hash''), pg_float = (\<lambda>_. None),
      pg_runs = (\<lambda>_ _. Some \<lparr>rr_status = ''running'', rr_terminal = None, rr_criteria_hash = Some ''hash''\<rparr>),
      pg_loaded_hash = (\<lambda>_ _. None), pg_binding_root_ok = (\<lambda>_ _. False), pg_head_sha = (\<lambda>_ _. None), pg_rev_parse = (\<lambda>_ _. None),
      pg_checkout = (\<lambda>_ _ _ _. None), pg_now = 7\<rparr>"

definition example_body :: step_run_body where
  "example_body =
     \<lparr>sr_plan_only = False, sr_workdir = Some ''w'', sr_workspace_id = None, sr_budget = None, sr_bind_run_id = Some ''r'',
      sr_idempotency_key = Some ''k''\<rparr>"

lemmas example_defs = example_step_def example_program_def program_example_env_def example_body_def

definition ready_program :: migration_program where
  "ready_program = (example_program PgActive)\<lparr>mp_steps := [example_step ''s0'' 0 SsSkipped, example_step ''s1'' 1 SsReady]\<rparr>"

lemma example_refresh: "refresh_step_statuses program_example_env (example_program PgActive) = ready_program"
  by (simp add: refresh_step_statuses_def ready_program_def example_defs follow_run_def mark_ready_def step_is_ready_def previous_step_def
      rolled_up_def step_done_def truthy_def)

definition ready_goal :: goal where
  "ready_goal = example_goal\<lparr>g_goal_id := Some ''p-s1'', g_task_class := Some ''refactor''\<rparr>"

lemma example_materialize: "materialize_step_goal ready_program (example_step ''s1'' 1 SsReady) = Inr ready_goal"
  by (simp add: materialize_step_goal_def ready_program_def example_defs freeze_mutate_overlap_def bar_applies_def bind_result_def example_goal_def
      hard_criterion_def or_given_def truthy_def ready_goal_def)

lemma example_preview: "preview_hash program_example_env ready_goal = Inr ''hash''"
proof -
  have "compile_goal ready_goal Caller = compile_goal example_goal Caller" by (simp add: compile_goal_def ready_goal_def)
  then show ?thesis using example_goal_compiles by (auto simp: preview_hash_def program_example_env_def)
qed

lemma example_stress: "\<not> blocks (stress_step ready_program (example_step ''s1'' 1 SsReady) ready_goal)"
  by (simp add: blocks_def stress_step_def ready_program_def example_defs ready_goal_def example_goal_def hard_criterion_def freeze_mutate_overlap_def)

lemma example_bind: "\<exists>q. run_step_edit program_example_env example_body ''s1'' (example_program PgActive) = Inr (BoundAnswer ''r'' SsRunning, Some q)"
proof -
  let ?st = "example_step ''s1'' 1 SsReady"
  have find: "find_program_step ready_program ''s1'' = Inr ?st" by (simp add: find_program_step_def ready_program_def example_step_def)
  have budget: "resolve_run_budget program_example_env ready_goal None = Inr default_budget"
    by (simp add: resolve_run_budget_def ready_goal_def example_goal_def)
  have pre: "assert_gp0_execution_prereqs ready_program ?st example_body = None" "\<not> budget_refused ready_program default_budget"
    by (simp_all add: assert_gp0_execution_prereqs_def budget_refused_def ready_program_def example_defs truthy_def)
  have same: "replace_step ready_program (?st\<lparr>ms_criteria_preview_hash := Some ''hash''\<rparr>) = ready_program"
    by (simp add: replace_step_def ready_program_def example_defs)
  have gate: "bind_error program_example_env ready_program (?st\<lparr>ms_criteria_preview_hash := Some ''hash''\<rparr>) (Some ''hash'') ''hash'' ''r'' = None"
    by (simp add: bind_error_def ready_program_def example_defs previous_step_def step_is_ready_def step_done_def known_hash_def truthy_def)
  have sel: "sr_plan_only example_body = False" "sr_bind_run_id example_body = Some ''r''" "sr_budget example_body = None"
    "ms_current_run_id ?st = None" "ms_criteria_preview_hash ?st = Some ''hash''" "ms_status ?st = SsReady"
    "bound_status (ms_acceptance_gate ?st) (the (pg_runs program_example_env (mp_tenant_id ready_program) ''r'')) = SsRunning"
    by (simp_all add: example_defs ready_program_def bound_status_def run_outcome_def truthy_def)
  show ?thesis
    unfolding run_step_edit_def example_refresh apply_run_step_def
    by (simp add: bind_result_def find example_materialize pre example_stress budget sel example_preview same gate Let_def)
qed

theorem bind_is_gated_witness:
  "mp_status (refresh_step_statuses program_example_env (example_program PgActive)) = PgActive \<and>
   (\<exists>g. preview_hash program_example_env g = Inr ''hash'')"
proof -
  obtain q where q: "run_step_edit program_example_env example_body ''s1'' (example_program PgActive) = Inr (BoundAnswer ''r'' SsRunning, Some q)"
    using example_bind by blast
  have "program_ok (example_program PgActive)" by (simp add: program_ok_def example_defs)
  from bind_is_gated[OF this q] show ?thesis using example_preview by blast
qed


theorem failed_seed_reopens_witness:
  "\<exists>tbl q. get_program tbl ''t'' ''p'' = Some q \<and> mp_status q \<in> {PgActive, PgBlocked, PgCompleted} \<and> mp_disclaimer_acked_at q = None"
proof -
  let ?p = "example_program PgAbandoned"
  have "get_program [?p] ''t'' ''p'' = Some ?p" "find_program_step ?p ''s1'' = Inr (example_step ''s1'' 1 SsPlanned)"
    "checked_out program_example_env ?p (example_step ''s1'' 1 SsPlanned) None ''r'' = None" "py_strip ''x'' \<noteq> []" "mp_disclaimer_acked_at ?p = None"
    by (simp_all add: get_program_def prog_key_def find_program_step_def checked_out_def py_strip_def is_space_def example_program_def example_step_def)
  then show ?thesis using failed_seed_reopens[of "[?p]" "''t''" "''p''" ?p "''s1''"] by metis
qed

theorem second_get_writes_nothing_witness:
  "\<exists>tbl. get_handler program_example_env ''t'' ''p'' tbl = (Inr (), tbl) \<and> tbl \<noteq> [example_program PgActive]"
proof -
  let ?p = "example_program PgActive"
  have get: "get_program [?p] ''t'' ''p'' = Some ?p" by (simp add: get_program_def prog_key_def example_program_def)
  have key: "mp_tenant_id ready_program = ''t''" "mp_program_id ready_program = ''p''" by (simp_all add: ready_program_def example_program_def)
  obtain tbl' where s: "save_pinned 7 (mp_version ?p) ready_program [?p] = (Inr (stamp 7 (mp_version ?p + 1) ready_program), tbl')"
    using save_pinned_succeeds[of "[?p]" ready_program ?p 7] get key by auto
  have ne: "ready_program \<noteq> ?p" by (simp add: ready_program_def example_program_def example_step_def)
  have "get_handler program_example_env ''t'' ''p'' [?p] = (Inr (), tbl')"
    by (simp add: get_handler_def with_program_def get get_edit_def example_refresh ne) (simp add: program_example_env_def s)
  then have "get_handler program_example_env ''t'' ''p'' tbl' = (Inr (), tbl')" by (rule second_get_writes_nothing)
  moreover have "get_program tbl' ''t'' ''p'' \<noteq> Some ?p"
    using get_program_saved(2)[OF s] key by (simp add: stamp_def ready_program_def example_program_def)
  ultimately show ?thesis using get by metis
qed

text \<open>A program that is created, read and abandoned.\<close>

definition draft_row :: migration_program where
  "draft_row = stamp 7 1 (example_program PgDraft)"

definition abandoned_row :: migration_program where
  "abandoned_row = stamp 7 2 (draft_row\<lparr>mp_status := PgAbandoned\<rparr>)"

definition after_abandon :: prog_system where
  "after_abandon = \<lparr>ps_table = [abandoned_row], ps_reads = [draft_row],
     ps_log = [Created program_example_env (example_program PgDraft), Served (''t'', ''p'') program_example_env RqAbandon]\<rparr>"

lemma example_keys: "prog_key draft_row = (''t'', ''p'')" "prog_key abandoned_row = (''t'', ''p'')" "mp_version draft_row = 1"
    "mp_status abandoned_row = PgAbandoned" "pg_now program_example_env = 7"
  by (simp_all add: draft_row_def abandoned_row_def stamp_def prog_key_def example_program_def program_example_env_def)

lemma after_abandon_reachable: "prog_step\<^sup>*\<^sup>* no_programs after_abandon"
proof -
  define s1 where "s1 = \<lparr>ps_table = [draft_row], ps_reads = [], ps_log = [Created program_example_env (example_program PgDraft)]\<rparr>"
  have "create_program program_example_env (example_program PgDraft) [] = (Inr draft_row, [draft_row])"
    by (simp add: create_program_def put_program_def get_program_def program_ok_def example_step_def example_program_def example_keys(5)
        draft_row_def stamp_def Let_def)
  then have "prog_step no_programs s1"
    using prog_step.creating[of no_programs "example_program PgDraft" program_example_env draft_row "[draft_row]"]
    by (simp add: no_programs_def get_program_def s1_def)
  moreover have "prog_step s1 (s1\<lparr>ps_reads := [draft_row]\<rparr>)"
    using prog_step.reading[of s1 "''t''" "''p''" draft_row] by (simp add: s1_def get_program_def example_keys)
  moreover have "save_pinned 7 (mp_version draft_row) (draft_row\<lparr>mp_status := PgAbandoned\<rparr>) [draft_row] = (Inr abandoned_row, [abandoned_row])"
    by (simp add: save_pinned_def put_program_def get_program_def prog_key_def abandoned_row_def draft_row_def stamp_def example_program_def Let_def)
  then have "prog_step (s1\<lparr>ps_reads := [draft_row]\<rparr>) after_abandon"
    using prog_step.saving[of draft_row "s1\<lparr>ps_reads := [draft_row]\<rparr>" program_example_env RqAbandon "draft_row\<lparr>mp_status := PgAbandoned\<rparr>" "Inr abandoned_row" "[abandoned_row]"]
    by (simp add: s1_def after_abandon_def example_keys saved_part_def abandon_edit_def)
  ultimately show ?thesis by (meson converse_rtranclp_into_rtranclp r_into_rtranclp)
qed

lemma after_abandon_row: "get_program (ps_table after_abandon) ''t'' ''p'' = Some abandoned_row"
  by (simp add: after_abandon_def get_program_def example_keys)

theorem pinned_saves_serialise_witness: "replay (ps_log after_abandon) (''t'', ''p'') = Some abandoned_row"
  using pinned_saves_serialise[OF after_abandon_reachable] after_abandon_row by metis

theorem programs_run_with_consent_witness: "program_ok abandoned_row \<and> acked abandoned_row"
  using programs_run_with_consent[OF after_abandon_reachable after_abandon_row] by (simp add: seed_free_def after_abandon_def)

theorem abandoned_is_final_witness:
  "\<exists>q. get_program (ps_table after_abandon) ''t'' ''p'' = Some q \<and> mp_status q = PgAbandoned"
  using abandoned_is_final[OF after_abandon_reachable after_abandon_row _ rtranclp.rtrancl_refl] example_keys(4)
  by (simp add: seed_free_def after_abandon_def)

end
