(* ===== verification/Model_Client.thy ===== *)
theory Model_Client
  imports Goal_Compiler Step_Systems Complex_Main
begin

section \<open>Model calls\<close>

text \<open>
  \<open>src/recertia/solver/resilience.py\<close> and the client of \<open>src/recertia/solver/model.py\<close>: the classification of provider failures, the
  jittered wait, the circuit breaker per provider and model, and the call with its retries, deadline and spend. Times and
  costs are reals; the provider, the lengths of its calls, the random rolls and the small delays between two clock
  readings are functions of the attempt number. Metrics and telemetry are left out.\<close>

subsection \<open>Failures\<close>







definition backoff_s :: "nat \<Rightarrow> real \<Rightarrow> real \<Rightarrow> real option \<Rightarrow> real \<Rightarrow> real" where
  "backoff_s attempt base cap retry_after roll0 =
     (let ceiling = max 0 (min cap (base * 2 ^ attempt));
          roll = (if roll0 = 0 then 1 else roll0);
          wait = roll * ceiling;
          wait' = (case retry_after of Some r \<Rightarrow> if 0 < r then max wait r else wait | None \<Rightarrow> wait)
      in min cap wait')"

subsection \<open>The circuit breaker\<close>

datatype phase = PhClosed | PhOpen | PhHalfOpen

record circuit =
  cb_phase :: phase
  cb_failures :: "real list"
  cb_opened_at :: real
  cb_probe :: bool

record breaker =
  br_threshold :: int
  br_window_s :: real
  br_open_s :: real

type_synonym circuit_key = "string \<times> string"

type_synonym circuits = "circuit_key \<rightharpoonup> circuit"

definition fresh_circuit :: circuit where
  "fresh_circuit = \<lparr>cb_phase = PhClosed, cb_failures = [], cb_opened_at = 0, cb_probe = False\<rparr>"


text \<open>True where the call may go on, false where \<open>before_call\<close> raises with the reason circuit_open.\<close>

definition gate :: "breaker \<Rightarrow> real \<Rightarrow> circuit \<Rightarrow> bool \<times> circuit" where
  "gate b now c0 =
     (let c = (if cb_phase c0 = PhOpen \<and> br_open_s b \<le> now - cb_opened_at c0 then c0\<lparr>cb_phase := PhHalfOpen, cb_probe := False\<rparr> else c0)
      in case cb_phase c of
           PhOpen \<Rightarrow> (False, c)
         | PhHalfOpen \<Rightarrow> if cb_probe c then (False, c) else (True, c\<lparr>cb_probe := True\<rparr>)
         | PhClosed \<Rightarrow> (True, c))"

definition succeeded :: "circuit \<Rightarrow> circuit" where
  "succeeded c = c\<lparr>cb_phase := PhClosed, cb_failures := [], cb_probe := False\<rparr>"

definition recent :: "breaker \<Rightarrow> real \<Rightarrow> real list \<Rightarrow> real list" where
  "recent b now fs = filter (\<lambda>t. now - t \<le> br_window_s b) fs"

definition failed_at :: "breaker \<Rightarrow> real \<Rightarrow> circuit \<Rightarrow> circuit" where
  "failed_at b now c =
     (if cb_phase c = PhHalfOpen then c\<lparr>cb_phase := PhOpen, cb_opened_at := now, cb_probe := False\<rparr>
      else let c1 = c\<lparr>cb_failures := recent b now (cb_failures c) @ [now]\<rparr>
           in if br_threshold b \<le> int (length (cb_failures c1)) then c1\<lparr>cb_phase := PhOpen, cb_opened_at := now\<rparr> else c1)"




subsection \<open>A call with retries\<close>

record model_response =
  re_text :: string
  re_prompt_tokens :: int
  re_completion_tokens :: int
  re_cost_usd :: real
  re_latency_s :: real

record model_spend =
  sp_calls :: int
  sp_tokens :: int
  sp_cost_usd :: real
  sp_retries :: int



record model_client =
  mc_max_retries :: int
  mc_timeout_s :: real
  mc_retry_backoff_s :: real
  mc_backoff_cap_s :: real
  mc_provider :: "string option"
  mc_model_id :: "string option"
  mc_credential_id :: "string option"
  mc_breaker :: breaker


text \<open>The state a call works on; \<open>ws_log\<close> lists the calls that reached the provider: attempt, start and the time limit handed on.\<close>

record call_world =
  ws_now :: real
  ws_circuits :: circuits
  ws_spend :: model_spend
  ws_late_cost :: real
  ws_log :: "(nat \<times> real \<times> real) list"

definition model_identity :: "model_client \<Rightarrow> (string \<times> string \<times> string) option" where
  "model_identity m =
     (case (mc_provider m, mc_model_id m) of
        (Some p, Some i) \<Rightarrow> Some (p, i, str_or_empty (mc_credential_id m))
      | _ \<Rightarrow> None)"

definition shares_identity :: "bool \<Rightarrow> model_client \<Rightarrow> model_client \<Rightarrow> bool" where
  "shares_identity same_object m1 m2 =
     (if same_object then True
      else case (model_identity m1, model_identity m2) of
             (Some l, Some r) \<Rightarrow> l = r
           | _ \<Rightarrow> False)"


definition charge_call :: "model_response \<Rightarrow> bool \<Rightarrow> call_world \<Rightarrow> call_world" where
  "charge_call r late w =
     w\<lparr>ws_spend := (ws_spend w)\<lparr>sp_calls := sp_calls (ws_spend w) + 1,
                                 sp_tokens := sp_tokens (ws_spend w) + (re_prompt_tokens r + re_completion_tokens r),
                                 sp_cost_usd := sp_cost_usd (ws_spend w) + re_cost_usd r\<rparr>,
       ws_late_cost := (if late then ws_late_cost w + re_cost_usd r else ws_late_cost w)\<rparr>"


definition passes :: "real \<Rightarrow> call_world \<Rightarrow> call_world" where
  "passes d w = w\<lparr>ws_now := ws_now w + d\<rparr>"



subsection \<open>Calls of several threads on one circuit\<close>

text \<open>Threads share the breaker, whose methods hold a lock. A call that was let through ends in a success, in a counted failure, or in
  an error of the client, which touches the breaker not at all. \<open>cy_failed\<close> lists the times of the counted failures since the last
  success, a failed probe left out.\<close>

record call_system =
  cy_now :: real
  cy_circuit :: circuit
  cy_running :: "nat list"
  cy_failed :: "real list"

definition quiet_system :: "real \<Rightarrow> call_system" where
  "quiet_system now = \<lparr>cy_now = now, cy_circuit = fresh_circuit, cy_running = [], cy_failed = []\<rparr>"

inductive circuit_step :: "breaker \<Rightarrow> call_system \<Rightarrow> call_system \<Rightarrow> bool" for b where
  ticking: "cy_now s \<le> now \<Longrightarrow> circuit_step b s (s\<lparr>cy_now := now\<rparr>)"
| starting: "\<lbrakk>i \<notin> set (cy_running s); gate b (cy_now s) (cy_circuit s) = (ok, c)\<rbrakk> \<Longrightarrow>
    circuit_step b s (s\<lparr>cy_circuit := c, cy_running := (if ok then i # cy_running s else cy_running s)\<rparr>)"
| succeeding: "i \<in> set (cy_running s) \<Longrightarrow>
    circuit_step b s (s\<lparr>cy_circuit := succeeded (cy_circuit s), cy_running := removeAll i (cy_running s), cy_failed := []\<rparr>)"
| failing: "i \<in> set (cy_running s) \<Longrightarrow>
    circuit_step b s (s\<lparr>cy_circuit := failed_at b (cy_now s) (cy_circuit s), cy_running := removeAll i (cy_running s),
      cy_failed := (if cb_phase (cy_circuit s) = PhHalfOpen then cy_failed s else cy_failed s @ [cy_now s])\<rparr>)"
| client_failing: "i \<in> set (cy_running s) \<Longrightarrow> circuit_step b s (s\<lparr>cy_running := removeAll i (cy_running s)\<rparr>)"

definition circuit_ok :: "breaker \<Rightarrow> call_system \<Rightarrow> bool" where
  "circuit_ok b s \<longleftrightarrow>
     (cb_phase (cy_circuit s) = PhHalfOpen \<longrightarrow> cb_probe (cy_circuit s)) \<and>
     (cb_phase (cy_circuit s) = PhOpen \<longrightarrow> cb_opened_at (cy_circuit s) \<le> cy_now s) \<and>
     (\<forall>n \<ge> cy_now s. recent b n (cb_failures (cy_circuit s)) = recent b n (cy_failed s))"

lemma recent_append [simp]: "recent b n (xs @ ys) = recent b n xs @ recent b n ys"
  by (simp add: recent_def)

lemma recent_recent: "m \<le> n \<Longrightarrow> recent b n (recent b m xs) = recent b n xs"
  by (auto simp: recent_def intro: filter_cong)

lemma gate_failures [simp]: "cb_failures (snd (gate b now c)) = cb_failures c"
  by (simp add: gate_def Let_def split: phase.split)

lemma gate_ok:
  assumes "gate b now c = (ok, c')" "cb_phase c = PhHalfOpen \<longrightarrow> cb_probe c"
  shows "cb_phase c' = PhHalfOpen \<longrightarrow> cb_probe c'" "cb_phase c' = PhOpen \<longrightarrow> c' = c"
  using assms by (auto simp: gate_def Let_def split: phase.splits if_splits)

lemma failed_at_ok: "cb_phase (failed_at b now c) = PhHalfOpen \<Longrightarrow> False"
    "cb_phase (failed_at b now c) = PhOpen \<Longrightarrow> cb_phase c \<noteq> PhOpen \<Longrightarrow> cb_opened_at (failed_at b now c) = now"
    "cb_phase c = PhOpen \<Longrightarrow> cb_opened_at (failed_at b now c) \<in> {now, cb_opened_at c}"
  by (auto simp: failed_at_def Let_def split: if_splits)

lemma failed_at_failures: "cb_failures (failed_at b now c) =
    (if cb_phase c = PhHalfOpen then cb_failures c else recent b now (cb_failures c) @ [now])"
  by (simp add: failed_at_def Let_def)

lemma circuit_step_ok:
  assumes "circuit_ok b s" "circuit_step b s s'"
  shows "circuit_ok b s'"
  using assms(2)
proof (cases rule: circuit_step.cases)
  case (starting i ok c)
  have "cb_failures c = cb_failures (cy_circuit s)" using starting(3) gate_failures[of b "cy_now s" "cy_circuit s"] by simp
  then show ?thesis using assms(1) starting(1) gate_ok[OF starting(3)] by (auto simp: circuit_ok_def)
next
  case (failing i)
  have "cb_phase (failed_at b (cy_now s) (cy_circuit s)) = PhOpen \<Longrightarrow> cb_opened_at (failed_at b (cy_now s) (cy_circuit s)) \<le> cy_now s"
    using failed_at_ok(2,3)[where b = b and now = "cy_now s" and c = "cy_circuit s"] assms(1) by (cases "cb_phase (cy_circuit s) = PhOpen") (auto simp: circuit_ok_def)
  then show ?thesis
    using assms(1) failing(1) failed_at_ok(1)[where b = b and now = "cy_now s" and c = "cy_circuit s"]
    by (auto simp: circuit_ok_def failed_at_failures recent_recent)
qed (use assms(1) in \<open>auto simp: circuit_ok_def succeeded_def\<close>)

lemma quiet_system_ok: "circuit_ok b (quiet_system now)"
  by (simp add: circuit_ok_def quiet_system_def fresh_circuit_def)

interpretation calls: started_system "circuit_step b" "circuit_ok b" "\<lambda>s. \<exists>now. s = quiet_system now" for b
  by unfold_locales (auto intro: circuit_step_ok quiet_system_ok)

abbreviation circuit_reachable :: "breaker \<Rightarrow> call_system \<Rightarrow> bool" where
  "circuit_reachable b s \<equiv> \<exists>now. (circuit_step b)\<^sup>*\<^sup>* (quiet_system now) s"

lemma reachable_circuit_ok: "circuit_reachable b s \<Longrightarrow> circuit_ok b s"
  using calls.reachable_inv by blast

text \<open>Nobody holds the probe and the circuit is half open: nothing can move it any more.\<close>

definition wedged :: "call_system \<Rightarrow> bool" where
  "wedged s \<longleftrightarrow> cb_phase (cy_circuit s) = PhHalfOpen \<and> cb_probe (cy_circuit s) \<and> cy_running s = []"

lemma gate_wedged: "\<lbrakk>cb_phase c = PhHalfOpen; cb_probe c\<rbrakk> \<Longrightarrow> gate b now c = (False, c)"
  by (simp add: gate_def)

lemma wedged_step: "circuit_step b s s' \<Longrightarrow> wedged s \<Longrightarrow> wedged s'"
  by (cases rule: circuit_step.cases) (auto simp: wedged_def gate_wedged)




subsection \<open>What the attempts of a call do\<close>







lemma passes_sel [simp]: "ws_now (passes d w) = ws_now w + d" "ws_circuits (passes d w) = ws_circuits w" "ws_spend (passes d w) = ws_spend w"
  "ws_log (passes d w) = ws_log w"
  by (simp_all add: passes_def)

lemma charge_call_sel [simp]: "ws_now (charge_call r late w) = ws_now w" "ws_log (charge_call r late w) = ws_log w"
  "sp_calls (ws_spend (charge_call r late w)) = sp_calls (ws_spend w) + 1" "ws_circuits (charge_call r late w) = ws_circuits w"
  by (simp_all add: charge_call_def)


subsection \<open>Properties\<close>


text \<open>
  The circuit opens exactly at the threshold: in every interleaving of calls, a counted failure of a closed circuit opens it just when
  it and the counted failures since the last success that are at most a window old make up the threshold.\<close>

theorem circuit_opens_exactly:
  assumes "circuit_reachable b s" "cb_phase (cy_circuit s) = PhClosed"
  shows "cb_phase (failed_at b (cy_now s) (cy_circuit s)) = PhOpen \<longleftrightarrow> br_threshold b \<le> int (length (recent b (cy_now s) (cy_failed s))) + 1"
proof -
  have "recent b (cy_now s) (cb_failures (cy_circuit s)) = recent b (cy_now s) (cy_failed s)"
    using reachable_circuit_ok[OF assms(1)] by (simp add: circuit_ok_def)
  then show ?thesis using assms(2) by (simp add: failed_at_def Let_def algebra_simps)
qed


text \<open>
  C40. A circuit can be lost for good. When no call is running and the circuit is half open, which is what a probe that ended in an error
  of the client leaves behind, every later call is refused: no time that passes and no further call moves the circuit again.\<close>

theorem wedged_circuit_never_recovers:
  assumes "circuit_reachable b s" "cb_phase (cy_circuit s) = PhHalfOpen" "cy_running s = []" "(circuit_step b)\<^sup>*\<^sup>* s s'"
  shows "cb_phase (cy_circuit s') = PhHalfOpen \<and> cy_running s' = [] \<and> \<not> fst (gate b now (cy_circuit s'))"
proof -
  have "circuit_ok b s" by (rule reachable_circuit_ok[OF assms(1)])
  moreover from this have "wedged s" using assms(2,3) by (simp add: wedged_def circuit_ok_def)
  ultimately have "wedged s'" by (intro calls.stays[where P = wedged, OF _ assms(4)]) (auto intro: wedged_step)
  then show ?thesis by (simp add: wedged_def gate_wedged)
qed

text \<open>
  The wait before a retry never exceeds the cap and honours a Retry-After delay below it.\<close>

theorem backoff_is_capped:
  assumes "0 \<le> cap" "0 \<le> roll" "roll \<le> 1"
  shows "0 \<le> backoff_s n base cap ra roll \<and> backoff_s n base cap ra roll \<le> cap \<and> (\<forall>x. ra = Some x \<longrightarrow> min cap x \<le> backoff_s n base cap ra roll)"
proof -
  have "0 \<le> (if roll = 0 then 1 else roll) * max 0 (min cap (base * 2 ^ n))" using assms by simp
  then show ?thesis using assms(1) unfolding backoff_s_def Let_def by (cases ra) auto
qed

subsection \<open>Examples\<close>

definition shaky_breaker :: breaker where
  "shaky_breaker = \<lparr>br_threshold = 1, br_window_s = 30, br_open_s = 30\<rparr>"








text \<open>A failure opens the circuit, a later call probes it and ends in an error of the client.\<close>

definition open_state :: call_system where
  "open_state = \<lparr>cy_now = 0, cy_circuit = \<lparr>cb_phase = PhOpen, cb_failures = [0], cb_opened_at = 0, cb_probe = False\<rparr>, cy_running = [], cy_failed = [0]\<rparr>"

definition wedged_state :: call_system where
  "wedged_state = \<lparr>cy_now = 30, cy_circuit = \<lparr>cb_phase = PhHalfOpen, cb_failures = [0], cb_opened_at = 0, cb_probe = True\<rparr>,
     cy_running = [], cy_failed = [0]\<rparr>"

lemma open_state_reachable: "circuit_reachable shaky_breaker open_state"
proof -
  have "circuit_step shaky_breaker (quiet_system 0) ((quiet_system 0)\<lparr>cy_running := [1]\<rparr>)"
    using circuit_step.starting[of 1 "quiet_system 0" shaky_breaker True fresh_circuit]
    by (simp add: quiet_system_def gate_def fresh_circuit_def)
  moreover have "circuit_step shaky_breaker ((quiet_system 0)\<lparr>cy_running := [1]\<rparr>) open_state"
    using circuit_step.failing[of 1 "(quiet_system 0)\<lparr>cy_running := [1]\<rparr>" shaky_breaker]
    by (simp add: quiet_system_def fresh_circuit_def failed_at_def recent_def shaky_breaker_def open_state_def)
  ultimately show ?thesis by (meson converse_rtranclp_into_rtranclp r_into_rtranclp)
qed

lemma wedged_state_reachable: "circuit_reachable shaky_breaker wedged_state"
proof -
  have "circuit_step shaky_breaker open_state (open_state\<lparr>cy_now := 30\<rparr>)"
    by (rule circuit_step.ticking) (simp add: open_state_def)
  moreover have "circuit_step shaky_breaker (open_state\<lparr>cy_now := 30\<rparr>) (wedged_state\<lparr>cy_running := [2]\<rparr>)"
    using circuit_step.starting[of 2 "open_state\<lparr>cy_now := 30\<rparr>" shaky_breaker True "cy_circuit wedged_state"]
    by (simp add: open_state_def wedged_state_def gate_def shaky_breaker_def Let_def)
  moreover have "circuit_step shaky_breaker (wedged_state\<lparr>cy_running := [2]\<rparr>) wedged_state"
    using circuit_step.client_failing[of 2 "wedged_state\<lparr>cy_running := [2]\<rparr>" shaky_breaker] by (simp add: wedged_state_def)
  ultimately show ?thesis using open_state_reachable by (meson rtranclp.rtrancl_into_rtrancl)
qed

theorem wedged_circuit_never_recovers_witness:
  "\<exists>s. circuit_reachable shaky_breaker s \<and> (\<forall>now. \<not> fst (gate shaky_breaker now (cy_circuit s)))"
  using wedged_circuit_never_recovers[OF wedged_state_reachable _ _ rtranclp.rtrancl_refl] wedged_state_reachable
  by (auto simp: wedged_state_def)


theorem circuit_opens_exactly_witness: "cb_phase (failed_at shaky_breaker 0 fresh_circuit) = PhOpen"
proof -
  have "circuit_reachable shaky_breaker (quiet_system 0)" by blast
  from circuit_opens_exactly[OF this] show ?thesis by (simp add: quiet_system_def fresh_circuit_def shaky_breaker_def recent_def)
qed

theorem backoff_is_capped_witness: "backoff_s 3 1 8 (Some 100) 1 \<le> 8"
  using backoff_is_capped[of 8 1 3 1 "Some 100"] by simp

end
