(* ===== verification/Access_Policy.thy ===== *)
theory Access_Policy
  imports Goal_Compiler
begin

section \<open>Access policy\<close>

text \<open>
  Who may do what, and where commands run: \<open>src/recertia/ports/identity.py\<close>, \<open>src/recertia/app/authz.py\<close>, the choice of the backend
  in \<open>src/recertia/solver/executor.py\<close> and \<open>container.py\<close>, and \<open>contracts/policy.py\<close> as far as they read it. Actions, scopes
  and roles are strings, as in the code; of a denial the status is kept and the reason left out. The settings, the context
  override of \<open>--local-exec\<close> and the container runtime found on the host are an environment.\<close>

subsection \<open>Principals\<close>

definition tenant_char :: "char \<Rightarrow> bool" where
  "tenant_char c = (let n = (of_char c :: nat) in (48 \<le> n \<and> n \<le> 57) \<or> (65 \<le> n \<and> n \<le> 90) \<or> (97 \<le> n \<and> n \<le> 122))"

definition tenant_id_ok :: "string \<Rightarrow> bool" where
  "tenant_id_ok t \<longleftrightarrow> t \<noteq> [] \<and> tenant_char (hd t) \<and> (\<forall>c \<in> set (tl t). tenant_char c \<or> c = CHR ''_'' \<or> c = CHR ''-'') \<and> length t \<le> 64"

definition OPERATOR_SCOPES :: "string set" where
  "OPERATOR_SCOPES = {''admin'', ''runs'', ''blobs'', ''metrics'', ''exec'', ''promote'', ''jobs''}"

datatype principal_kind = ApiKey | ConsoleSession | LocalOperator | ExecutorPrincipal | SystemPrincipal

record principal =
  pr_subject :: string
  pr_kind :: principal_kind
  pr_tenant :: tenant
  pr_tenants :: "tenant list"
  pr_scopes :: "string set"
  pr_roles :: "string set"

definition has_scope :: "principal \<Rightarrow> string \<Rightarrow> bool" where
  "has_scope p s \<longleftrightarrow>
     s \<in> pr_scopes p \<or> ''platform_admin'' \<in> pr_scopes p \<or> (s \<noteq> ''platform_admin'' \<and> ''admin'' \<in> pr_scopes p)"

definition has_role :: "principal \<Rightarrow> string \<Rightarrow> bool" where
  "has_role p r \<longleftrightarrow>
     r \<in> pr_roles p \<or> ''platform_admin'' \<in> pr_roles p \<or> (r \<in> {''operator'', ''reviewer'', ''admin''} \<and> ''admin'' \<in> pr_roles p)"

definition local_operator :: "tenant option \<Rightarrow> string \<Rightarrow> principal" where
  "local_operator t actor =
     (let active = (case t of None \<Rightarrow> ''default'' | Some x \<Rightarrow> x)
      in \<lparr>pr_subject = actor, pr_kind = LocalOperator, pr_tenant = active, pr_tenants = [active], pr_scopes = OPERATOR_SCOPES,
          pr_roles = {''platform_admin''}\<rparr>)"

text \<open>None where the tenant id is invalid and the constructor raises.\<close>

definition from_api_key :: "string \<Rightarrow> tenant \<Rightarrow> string set \<Rightarrow> principal option" where
  "from_api_key key t scopes =
     (if \<not> tenant_id_ok t then None
      else Some \<lparr>pr_subject = key, pr_kind = ApiKey, pr_tenant = t, pr_tenants = [t], pr_scopes = scopes,
                 pr_roles = scopes \<inter> {''admin'', ''platform_admin''}\<rparr>)"

subsection \<open>Decisions\<close>

record resource =
  rs_tenant_id :: "tenant option"
  rs_kind :: "string option"

datatype decision = Allow | Deny int

definition platform_admin :: "principal \<Rightarrow> bool" where
  "platform_admin p \<longleftrightarrow> has_role p ''platform_admin'' \<or> ''platform_admin'' \<in> pr_scopes p"

definition tenant_matches :: "principal \<Rightarrow> resource \<Rightarrow> bool" where
  "tenant_matches p r = (case rs_tenant_id r of None \<Rightarrow> True | Some t \<Rightarrow> t = pr_tenant p \<or> platform_admin p)"

definition principal_may_exec :: "principal option \<Rightarrow> bool" where
  "principal_may_exec p = (case p of None \<Rightarrow> False | Some q \<Rightarrow> ''exec'' \<in> pr_scopes q \<or> ''admin'' \<in> pr_scopes q)"

definition may_admin_host :: "principal \<Rightarrow> string set option \<Rightarrow> bool" where
  "may_admin_host p console_roles =
     (case console_roles of
        Some rs \<Rightarrow> ''platform_admin'' \<in> rs
      | None \<Rightarrow> has_role p ''platform_admin'' \<or> ''platform_admin'' \<in> pr_scopes p)"

definition tenant_access :: "principal \<Rightarrow> string option \<Rightarrow> string" where
  "tenant_access p recorded =
     (if pr_kind p = LocalOperator \<or> has_role p ''platform_admin'' then ''platform_admin''
      else if recorded \<in> {Some ''tenant_admin'', Some ''admin''} then ''tenant_admin''
      else if recorded = Some ''operator'' then ''operator''
      else if ''admin'' \<in> pr_scopes p \<or> has_role p ''admin'' then ''tenant_admin''
      else ''operator'')"

definition may_admin_registry :: "principal \<Rightarrow> bool option \<Rightarrow> string option \<Rightarrow> bool" where
  "may_admin_registry p console_is_admin membership_role =
     (case console_is_admin of
        Some b \<Rightarrow> b
      | None \<Rightarrow> tenant_access p membership_role \<in> {''platform_admin'', ''tenant_admin''})"

text \<open>\<open>kind\<close> and \<open>tier\<close> are fields of the proposal.\<close>

definition may_decide_proposal :: "principal \<Rightarrow> string \<Rightarrow> string option \<Rightarrow> bool option \<Rightarrow> bool" where
  "may_decide_proposal p kind tier console_may_review =
     (if kind \<noteq> ''correction'' \<and> tier \<noteq> Some ''T2'' then True
      else case console_may_review of Some b \<Rightarrow> b | None \<Rightarrow> ''admin'' \<in> pr_scopes p)"

definition allow_if :: "bool \<Rightarrow> decision" where
  "allow_if b = (if b then Allow else Deny 403)"

definition READ_ACTIONS :: "string set" where
  "READ_ACTIONS = {''skills.read'', ''skills.search'', ''jobs.read'', ''proposals.read'', ''programs.read'', ''programs.write'', ''workspaces.read'',
     ''policy.read'', ''ledger.verify''}"

definition OPS_ACTIONS :: "string set" where
  "OPS_ACTIONS = {''ops.backup'', ''ops.restore'', ''ops.gc'', ''ops.soak'', ''ops.tabletop'', ''ops.systems''}"

definition decide :: "principal \<Rightarrow> string \<Rightarrow> resource \<Rightarrow> decision" where
  "decide p a res =
     (if a \<in> {''runs.create'', ''runs.read''} then allow_if (has_scope p ''runs'' \<and> tenant_matches p res)
      else if a = ''runs.script'' then allow_if (principal_may_exec (Some p))
      else if a = ''runs.cancel'' then
        (if \<not> has_scope p ''runs'' then Deny 403
         else if rs_tenant_id res \<noteq> None \<and> rs_tenant_id res \<noteq> Some (pr_tenant p) \<and> \<not> platform_admin p then Deny 404
         else Allow)
      else if a = ''runs.resume'' then allow_if (has_scope p ''runs'')
      else if a \<in> {''skill.promote'', ''skills.promote''} then allow_if (has_scope p ''promote'' \<or> has_role p ''reviewer'')
      else if a = ''skill.promote_seed'' then allow_if (platform_admin p)
      else if a \<in> {''job.run'', ''jobs.run''} then allow_if (has_scope p ''jobs'')
      else if a \<in> {''eval.run'', ''evals.run'', ''metrics.read''} then allow_if (has_scope p ''evals'' \<or> has_scope p ''metrics'')
      else if a = ''policy.propose'' then allow_if (has_scope p ''runs'')
      else if a = ''policy.apply'' then allow_if ((has_scope p ''admin'' \<or> has_role p ''admin'') \<and> tenant_matches p res)
      else if a = ''workspace.register'' then allow_if (may_admin_host p None)
      else if a = ''membership.grant'' then allow_if (platform_admin p)
      else if a = ''secret.write'' then
        (if rs_kind res = Some ''_platform'' \<or> rs_tenant_id res = Some ''_platform'' then allow_if (platform_admin p)
         else allow_if ((has_scope p ''admin'' \<or> has_role p ''admin'') \<and> tenant_matches p res))
      else if a \<in> {''blobs.read'', ''blobs.write''} then allow_if (has_scope p ''blobs'' \<and> tenant_matches p res)
      else if a \<in> READ_ACTIONS then allow_if (has_scope p ''runs'' \<and> tenant_matches p res)
      else if a = ''proposals.decide'' then allow_if (has_scope p ''runs'' \<and> tenant_matches p res)
      else if a = ''workspaces.write'' then allow_if (may_admin_registry p None None)
      else if a \<in> {''keys.issue'', ''keys.revoke'', ''keys.read''} then
        allow_if (has_scope p ''admin'' \<or> has_role p ''admin'' \<or> platform_admin p)
      else if a = ''tenants.switch'' then allow_if (platform_admin p \<or> pr_kind p = ConsoleSession)
      else if a \<in> OPS_ACTIONS then allow_if (platform_admin p)
      else Deny 403)"

datatype access_error = AccessForbidden | AccessNotFound | AccessUnavailable

definition require_access :: "principal \<Rightarrow> string \<Rightarrow> resource \<Rightarrow> (access_error, unit) result" where
  "require_access p a res =
     (case decide p a res of
        Allow \<Rightarrow> Inr ()
      | Deny n \<Rightarrow> Inl (if n = 404 then AccessNotFound else AccessForbidden))"

definition assert_run_executable :: "principal \<Rightarrow> bool \<Rightarrow> (access_error, unit) result" where
  "assert_run_executable p script = (if script \<and> \<not> has_scope p ''exec'' then Inl AccessForbidden else Inr ())"

subsection \<open>Backends\<close>

datatype backend = Container | Local

datatype exec_surface = CliSurface | ApiSurface | WorkerSurface | GoldenSurface | JobSurface

record isolation_settings =
  is_default_backend :: backend
  is_allow_external_computer :: bool
  is_long_lived_computer_backend :: bool
  is_external_computer_allowlist :: "string list"

record exec_settings =
  es_multi_node :: bool
  es_execution_backend :: backend
  es_backend_was_set :: bool
  es_api_allow_local_exec :: bool
  es_golden_backend :: "backend option"
  es_allow_custom_image :: bool
  es_container_image :: string
  es_override :: "backend option"
  es_runtime_found :: bool

definition ALLOWED_IMAGES :: "string list" where
  "ALLOWED_IMAGES = [''python:3.12-slim'', ''python:3.11-slim'', ''python:3.12'', ''python:3.11'']"

text \<open>A capability is its purpose.\<close>

definition surface_allows_local :: "exec_settings \<Rightarrow> exec_surface \<Rightarrow> string \<Rightarrow> bool" where
  "surface_allows_local es sf purpose =
     (case sf of
        CliSurface \<Rightarrow> True
      | GoldenSurface \<Rightarrow> purpose \<in> {''cli'', ''api-break-glass'', ''pytest''}
      | _ \<Rightarrow> es_api_allow_local_exec es)"

definition unless_multi_node :: "exec_settings \<Rightarrow> backend \<Rightarrow> (access_error, backend) result" where
  "unless_multi_node es b = (if b = Local \<and> es_multi_node es then Inl AccessUnavailable else Inr b)"

definition resolve_backend :: "exec_settings \<Rightarrow> isolation_settings option \<Rightarrow> exec_surface \<Rightarrow> string option \<Rightarrow> (access_error, backend) result" where
  "resolve_backend es isol sf capability =
     (if (case capability of None \<Rightarrow> False | Some purpose \<Rightarrow> surface_allows_local es sf purpose) then unless_multi_node es Local
      else case es_override es of
             Some b \<Rightarrow> unless_multi_node es b
           | None \<Rightarrow>
               if es_backend_was_set es then unless_multi_node es (es_execution_backend es)
               else case isol of
                      Some i \<Rightarrow> unless_multi_node es (is_default_backend i)
                    | None \<Rightarrow> Inr Container)"

text \<open>The executor that is built is the backend it runs on.\<close>

definition build_executor :: "exec_settings \<Rightarrow> isolation_settings option \<Rightarrow> exec_surface \<Rightarrow> string option \<Rightarrow> (access_error, backend) result" where
  "build_executor es isol sf capability =
     (if sf = GoldenSurface \<and> es_golden_backend es = Some Container then Inr Container
      else if sf = GoldenSurface \<and> es_golden_backend es = Some Local then
        (if capability = None then Inl AccessUnavailable
         else if es_multi_node es then Inl AccessUnavailable
         else Inr Local)
      else case resolve_backend es isol sf capability of
             Inl e \<Rightarrow> Inl e
           | Inr Local \<Rightarrow> if capability = None then Inl AccessUnavailable else Inr Local
           | Inr Container \<Rightarrow> Inr Container)"

definition configured_backend :: "exec_settings \<Rightarrow> backend" where
  "configured_backend es = (case es_override es of Some b \<Rightarrow> b | None \<Rightarrow> es_execution_backend es)"

definition ensure_execution_ready :: "exec_settings \<Rightarrow> (access_error, backend) result" where
  "ensure_execution_ready es =
     (if configured_backend es = Container \<and> \<not> es_runtime_found es then Inl AccessUnavailable else Inr (configured_backend es))"

definition ensure_api_execution_ready :: "exec_settings \<Rightarrow> (access_error, backend) result" where
  "ensure_api_execution_ready es =
     bind_result (ensure_execution_ready es) (\<lambda>b.
       if b = Local \<and> \<not> es_api_allow_local_exec es then Inl AccessUnavailable else Inr b)"

definition image_tag :: "string \<Rightarrow> string" where
  "image_tag img = takeWhile (\<lambda>c. c \<noteq> CHR ''@'') img"

record container_spec =
  co_image :: string
  co_network :: string
  co_read_only_root :: bool
  co_user :: string
  co_workdir_mount :: string

definition container_policy_ok :: "exec_settings \<Rightarrow> container_spec \<Rightarrow> bool" where
  "container_policy_ok es c \<longleftrightarrow>
     co_network c = ''none'' \<and> co_user c \<notin> {''0'', ''0:0'', ''root'', ''root:root''} \<and> co_read_only_root c \<and>
     py_startswith (co_workdir_mount c) ''/'' \<and> (image_tag (co_image c) \<in> set ALLOWED_IMAGES \<or> es_allow_custom_image es)"

subsection \<open>Tool grants\<close>

type_synonym tool_grants = "(string \<times> string option) set"

definition READ_TOOLS :: "string set" where
  "READ_TOOLS = {''read_file'', ''grep''}"

definition CONTAINER_WRITES :: "string set" where
  "CONTAINER_WRITES = {''shell'', ''edit_file'', ''agent_subtask'', ''fetch''}"

definition LOCAL_EXEC_WRITES :: "string set" where
  "LOCAL_EXEC_WRITES = {''shell'', ''edit_file'', ''agent_subtask''}"

definition grant_all :: "string set \<Rightarrow> tool_grants" where
  "grant_all ts = (\<lambda>t. (t, None)) ` ts"

definition tool_approved :: "tool_grants \<Rightarrow> string \<Rightarrow> string \<Rightarrow> bool" where
  "tool_approved g tool step \<longleftrightarrow> (tool, Some step) \<in> g \<or> (tool, None) \<in> g"

definition external_computer_allowed :: "isolation_settings \<Rightarrow> bool" where
  "external_computer_allowed i \<longleftrightarrow>
     is_allow_external_computer i \<and> is_long_lived_computer_backend i \<and> is_external_computer_allowlist i \<noteq> []"

text \<open>The flag is \<open>require_tool_approval_for_non_read\<close> of the policy; \<open>model_origin\<close> says that the origin is the model.\<close>

definition approve_tools :: "bool \<Rightarrow> isolation_settings \<Rightarrow> backend \<Rightarrow> bool \<Rightarrow> principal option \<Rightarrow> tool_grants" where
  "approve_tools require_approval isol b model_origin p =
     (if model_origin \<and> b = Local then grant_all READ_TOOLS
      else grant_all READ_TOOLS \<union>
           (if \<not> require_approval then grant_all CONTAINER_WRITES
            else if b = Container then grant_all CONTAINER_WRITES
            else if principal_may_exec p then grant_all LOCAL_EXEC_WRITES
            else {}) \<union>
           (if external_computer_allowed isol then grant_all {''external_computer''} else {}))"

definition decision_point_opens :: "bool \<Rightarrow> exec_settings \<Rightarrow> bool" where
  "decision_point_opens require_approval es \<longleftrightarrow> \<not> (es_multi_node es \<and> \<not> require_approval)"

definition open_decision_point :: "exec_settings \<Rightarrow> bool \<Rightarrow> isolation_settings \<Rightarrow> exec_surface \<Rightarrow> (access_error, backend) result" where
  "open_decision_point es require_approval isol sf =
     bind_result (resolve_backend es (Some isol) sf None) (\<lambda>b.
       if decision_point_opens require_approval es then Inr b else Inl AccessUnavailable)"

subsection \<open>Lemmas\<close>

lemma allow_if_simps [simp]: "allow_if b = Allow \<longleftrightarrow> b" "allow_if b = Deny n \<longleftrightarrow> \<not> b \<and> n = 403"
  by (auto simp: allow_if_def)

text \<open>Authority orders principals of one tenant by their scopes and roles.\<close>

definition at_least :: "principal \<Rightarrow> principal \<Rightarrow> bool" where
  "at_least p q \<longleftrightarrow> pr_tenant p = pr_tenant q \<and> pr_kind p = pr_kind q \<and> pr_scopes p \<subseteq> pr_scopes q \<and> pr_roles p \<subseteq> pr_roles q"

lemma at_least_has: "at_least p q \<Longrightarrow> has_scope p s \<Longrightarrow> has_scope q s" "at_least p q \<Longrightarrow> has_role p s \<Longrightarrow> has_role q s"
  by (auto simp: at_least_def has_scope_def has_role_def)

lemma at_least_platform: "at_least p q \<Longrightarrow> platform_admin p \<Longrightarrow> platform_admin q"
  using at_least_has(2) by (auto simp: platform_admin_def at_least_def)

lemma at_least_tenant: "at_least p q \<Longrightarrow> tenant_matches p r \<Longrightarrow> tenant_matches q r"
  using at_least_platform by (auto simp: tenant_matches_def at_least_def split: option.splits)

lemma at_least_exec: "at_least p q \<Longrightarrow> principal_may_exec (Some p) \<Longrightarrow> principal_may_exec (Some q)"
  by (auto simp: principal_may_exec_def at_least_def)

lemma at_least_host: "at_least p q \<Longrightarrow> may_admin_host p None \<Longrightarrow> may_admin_host q None"
  using at_least_has(2) by (auto simp: may_admin_host_def at_least_def)

lemma may_admin_registry_None: "may_admin_registry p None None \<longleftrightarrow>
    pr_kind p = LocalOperator \<or> has_role p ''platform_admin'' \<or> ''admin'' \<in> pr_scopes p \<or> has_role p ''admin''"
  by (auto simp: may_admin_registry_def tenant_access_def)

lemma at_least_registry: "at_least p q \<Longrightarrow> may_admin_registry p None None \<Longrightarrow> may_admin_registry q None None"
  using at_least_has(2) by (auto simp: may_admin_registry_None at_least_def)

lemma at_least_kind: "at_least p q \<Longrightarrow> pr_kind p = pr_kind q" "at_least p q \<Longrightarrow> pr_tenant p = pr_tenant q"
  by (simp_all add: at_least_def)

lemmas at_least_mono = at_least_has at_least_platform at_least_tenant at_least_exec at_least_host at_least_registry

lemma if_Allow_imp: "\<lbrakk>x = Allow \<longrightarrow> x' = Allow; y = Allow \<longrightarrow> y' = Allow\<rbrakk> \<Longrightarrow>
    (if b then x else y) = Allow \<longrightarrow> (if b then x' else y') = Allow"
  by simp

text \<open>The actions a tenant is checked for, and the actions on the platform.\<close>

definition TENANT_ACTIONS :: "string set" where
  "TENANT_ACTIONS = {''runs.create'', ''runs.read'', ''runs.cancel'', ''policy.apply'', ''secret.write'', ''blobs.read'', ''blobs.write'',
     ''proposals.decide''} \<union> READ_ACTIONS"

definition on_platform :: "string \<Rightarrow> resource \<Rightarrow> bool" where
  "on_platform a r \<longleftrightarrow> a \<in> {''skill.promote_seed'', ''workspace.register'', ''membership.grant''} \<union> OPS_ACTIONS \<or>
     (a = ''secret.write'' \<and> (rs_kind r = Some ''_platform'' \<or> rs_tenant_id r = Some ''_platform''))"

lemma tenant_matches_foreign: "tenant_matches p r \<Longrightarrow> rs_tenant_id r = Some t \<Longrightarrow> t \<noteq> pr_tenant p \<Longrightarrow> platform_admin p"
  by (simp add: tenant_matches_def)

lemma may_admin_host_None: "may_admin_host p None \<longleftrightarrow> platform_admin p"
  by (simp add: may_admin_host_def platform_admin_def)

lemma decide_tenant:
  assumes "decide p a r = Allow" "a \<in> TENANT_ACTIONS" "rs_tenant_id r = Some t" "t \<noteq> pr_tenant p"
  shows "platform_admin p"
  using assms tenant_matches_foreign[OF _ assms(3,4)]
  by (auto simp: TENANT_ACTIONS_def READ_ACTIONS_def decide_def split: if_splits)

lemma decide_platform: "decide p a r = Allow \<Longrightarrow> on_platform a r \<Longrightarrow> platform_admin p"
  by (auto simp: on_platform_def OPS_ACTIONS_def READ_ACTIONS_def decide_def may_admin_host_None split: if_splits)

lemma api_key_not_platform: "\<lbrakk>from_api_key key t scopes = Some p; ''platform_admin'' \<notin> scopes\<rbrakk> \<Longrightarrow> \<not> platform_admin p"
  by (auto simp: from_api_key_def platform_admin_def has_role_def split: if_splits)

lemma resolve_backend_multi: "es_multi_node es \<Longrightarrow> resolve_backend es isol sf cap \<noteq> Inr Local"
  by (auto simp: resolve_backend_def unless_multi_node_def split: option.split)

subsection \<open>Properties\<close>

text \<open>
  C37. Keys stay in their tenant. An API key without the scope platform_admin is never allowed an action on the platform, nor an action
  that is checked for the tenant on a resource of another tenant, whatever else it carries, the tenant's admin included.\<close>

theorem keys_stay_in_their_tenant:
  assumes "from_api_key key t scopes = Some p" "''platform_admin'' \<notin> scopes"
    "on_platform a r \<or> (a \<in> TENANT_ACTIONS \<and> rs_tenant_id r \<notin> {None, Some t})"
  shows "\<exists>e. require_access p a r = Inl e"
proof -
  have t: "pr_tenant p = t" using assms(1) by (auto simp: from_api_key_def split: if_splits)
  have "decide p a r \<noteq> Allow"
    using decide_platform[of p a r] decide_tenant[of p a r] api_key_not_platform[OF assms(1,2)] assms(3) t by auto
  then show ?thesis by (cases "decide p a r") (simp_all add: require_access_def)
qed

text \<open>
  Authority is monotone: a principal of the same tenant and kind that carries all scopes and roles of another is allowed everything
  that one is, on every resource.\<close>

theorem authority_is_monotone:
  assumes "at_least p q" "decide p a r = Allow"
  shows "decide q a r = Allow"
proof -
  have "decide p a r = Allow \<longrightarrow> decide q a r = Allow"
    unfolding decide_def by (intro if_Allow_imp) (auto dest: at_least_mono[OF assms(1)] simp: at_least_kind[OF assms(1)] split: if_splits)
  then show ?thesis using assms(2) by blast
qed

text \<open>
  Nothing runs on the host of a cluster: on several nodes no setting, policy, override or capability yields an executor on the local
  backend, and where a decision point opens, every non-read tool needs a grant; on the local backend these grants go only to
  principals that may execute, never to the model, and never include fetch.\<close>

theorem host_execution_is_confined:
  "(es_multi_node es \<longrightarrow> build_executor es isol sf cap \<noteq> Inr Local) \<and>
   (tool_approved (approve_tools True iso1 Local model_origin p) tool step \<longrightarrow>
      tool \<in> READ_TOOLS \<union> {''external_computer''} \<or> (principal_may_exec p \<and> \<not> model_origin \<and> tool \<in> LOCAL_EXEC_WRITES))"
proof
  show "es_multi_node es \<longrightarrow> build_executor es isol sf cap \<noteq> Inr Local"
    using resolve_backend_multi[of es isol sf cap]
    by (auto simp: build_executor_def split: sum.split backend.split option.splits)
  show "tool_approved (approve_tools True iso1 Local model_origin p) tool step \<longrightarrow>
       tool \<in> READ_TOOLS \<union> {''external_computer''} \<or> (principal_may_exec p \<and> \<not> model_origin \<and> tool \<in> LOCAL_EXEC_WRITES)"
    by (auto simp: approve_tools_def tool_approved_def grant_all_def split: if_splits)
qed

subsection \<open>Examples\<close>

definition example_principal :: principal where
  "example_principal = the (from_api_key ''k'' ''acme'' {''admin''})"

lemma example_principal: "from_api_key ''k'' ''acme'' {''admin''} = Some example_principal"
  by (simp add: example_principal_def from_api_key_def tenant_id_ok_def tenant_char_def)

theorem keys_stay_in_their_tenant_witness:
  "\<exists>e. require_access example_principal ''policy.apply'' \<lparr>rs_tenant_id = Some ''other'', rs_kind = None\<rparr> = Inl e"
  by (rule keys_stay_in_their_tenant[OF example_principal]) (simp_all add: TENANT_ACTIONS_def)

theorem authority_is_monotone_witness:
  "decide (example_principal\<lparr>pr_scopes := {''admin'', ''runs''}\<rparr>) ''blobs.read'' \<lparr>rs_tenant_id = None, rs_kind = None\<rparr> = Allow"
proof (rule authority_is_monotone)
  show "at_least example_principal (example_principal\<lparr>pr_scopes := {''admin'', ''runs''}\<rparr>)"
    by (simp add: at_least_def example_principal_def from_api_key_def tenant_id_ok_def tenant_char_def)
  show "decide example_principal ''blobs.read'' \<lparr>rs_tenant_id = None, rs_kind = None\<rparr> = Allow"
    by (simp add: decide_def tenant_matches_def has_scope_def example_principal_def from_api_key_def tenant_id_ok_def tenant_char_def)
qed

definition cluster_node :: exec_settings where
  "cluster_node = \<lparr>es_multi_node = True, es_execution_backend = Local, es_backend_was_set = True, es_api_allow_local_exec = True,
     es_golden_backend = None, es_allow_custom_image = False, es_container_image = [], es_override = Some Local, es_runtime_found = True\<rparr>"

theorem host_execution_is_confined_witness: "build_executor cluster_node None CliSurface (Some ''cli'') \<noteq> Inr Local"
proof -
  have "es_multi_node cluster_node" by (simp add: cluster_node_def)
  then show ?thesis using host_execution_is_confined[of cluster_node] by blast
qed

end
