(* ===== verification/Tool_Runtime.thy ===== *)
theory Tool_Runtime
  imports Command_Policy Skill_Document Step_Systems "HOL-Library.Char_ord" "HOL-Library.List_Lexorder" "HOL-Library.Product_Lexorder"
begin

section \<open>Tool invocations\<close>

text \<open>
  \<open>src/recertia/solver/claims.py\<close>, \<open>registry.py\<close>, \<open>runtime.py\<close>, \<open>result_cache.py\<close>, \<open>src/recertia/cache.py\<close> and the shell handlers of
  \<open>handlers.py\<close>: the claims concurrent invocations take in one global order, the approval gate, the cache of read results, and the
  way a proposed command takes to a backend. What a handler computes is a function of the environment, as are the key of the cache, the
  hash of the workspace and the clock; telemetry and durations are left out.\<close>

subsection \<open>Claims\<close>

type_synonym claim_key = "string \<times> string"

type_synonym claim_holders = "claim_key \<rightharpoonup> string"

definition claim_key :: "resource_claim \<Rightarrow> claim_key" where
  "claim_key c = (rc_kind c, rc_id c)"

definition sort_claims :: "resource_claim list \<Rightarrow> resource_claim list" where
  "sort_claims cs = sort_key claim_key cs"

definition conflicts_with :: "resource_claim \<Rightarrow> resource_claim \<Rightarrow> bool" where
  "conflicts_with a b \<longleftrightarrow> claim_key a = claim_key b \<and> (rc_mode a \<in> {RMWrite, RMExclusive} \<or> rc_mode b \<in> {RMWrite, RMExclusive})"

definition may_take :: "claim_holders \<Rightarrow> string \<Rightarrow> resource_claim \<Rightarrow> bool" where
  "may_take h step c \<longleftrightarrow> h (claim_key c) \<in> {None, Some step}"

definition release_claims :: "string \<Rightarrow> resource_claim list \<Rightarrow> claim_holders \<Rightarrow> claim_holders" where
  "release_claims step cs h = (\<lambda>k. if k \<in> claim_key ` set cs \<and> h k = Some step then None else h k)"

text \<open>An acquisition takes the sorted claims one by one; the lock is given up only to wait. A step is the identity the holders map knows, so two
  acquisitions of one step do not exclude each other; \<open>shared\<close> says whether steps may be used by several invocations at once.\<close>

record acquisition =
  aq_id :: nat
  aq_step :: string
  aq_claims :: "resource_claim list"
  aq_pending :: "resource_claim list"
  aq_taken :: "resource_claim list"

record claim_system =
  cl_holders :: claim_holders
  cl_active :: "acquisition list"

definition no_claims :: claim_system where
  "no_claims = \<lparr>cl_holders = Map.empty, cl_active = []\<rparr>"

definition took :: "acquisition \<Rightarrow> acquisition" where
  "took a = a\<lparr>aq_pending := tl (aq_pending a), aq_taken := aq_taken a @ [hd (aq_pending a)]\<rparr>"

definition replace_acquisition :: "acquisition \<Rightarrow> acquisition list \<Rightarrow> acquisition list" where
  "replace_acquisition a as = map (\<lambda>x. if aq_id x = aq_id a then a else x) as"

definition drop_acquisition :: "acquisition \<Rightarrow> acquisition list \<Rightarrow> acquisition list" where
  "drop_acquisition a as = filter (\<lambda>x. aq_id x \<noteq> aq_id a) as"

inductive claim_step :: "bool \<Rightarrow> claim_system \<Rightarrow> claim_system \<Rightarrow> bool" for shared where
  asking: "\<lbrakk>i \<notin> aq_id ` set (cl_active s); shared \<or> step \<notin> aq_step ` set (cl_active s)\<rbrakk> \<Longrightarrow>
    claim_step shared s (s\<lparr>cl_active := cl_active s @ [\<lparr>aq_id = i, aq_step = step, aq_claims = cs, aq_pending = sort_claims cs, aq_taken = []\<rparr>]\<rparr>)"
| taking: "\<lbrakk>a \<in> set (cl_active s); aq_pending a \<noteq> []; may_take (cl_holders s) (aq_step a) (hd (aq_pending a))\<rbrakk> \<Longrightarrow>
    claim_step shared s (s\<lparr>cl_holders := (cl_holders s)(claim_key (hd (aq_pending a)) \<mapsto> aq_step a),
      cl_active := replace_acquisition (took a) (cl_active s)\<rparr>)"
| timing_out: "\<lbrakk>a \<in> set (cl_active s); aq_pending a \<noteq> []; \<not> may_take (cl_holders s) (aq_step a) (hd (aq_pending a))\<rbrakk> \<Longrightarrow>
    claim_step shared s (s\<lparr>cl_holders := release_claims (aq_step a) (aq_taken a) (cl_holders s), cl_active := drop_acquisition a (cl_active s)\<rparr>)"
| releasing: "\<lbrakk>a \<in> set (cl_active s); aq_pending a = []\<rbrakk> \<Longrightarrow>
    claim_step shared s (s\<lparr>cl_holders := release_claims (aq_step a) (aq_claims a) (cl_holders s), cl_active := drop_acquisition a (cl_active s)\<rparr>)"

subsection \<open>The registry\<close>

datatype side_effect = SePure | SeRead | SeWrite | SeNetwork | SeExternal

record tool =
  tl_name :: string
  tl_side_effect :: side_effect
  tl_claims :: "resource_claim list"
  tl_flaky :: bool
  tl_error_signatures :: "string list"

type_synonym registry = "tool list"

definition registry_get :: "registry \<Rightarrow> string \<Rightarrow> tool option" where
  "registry_get reg n = List.find (\<lambda>t. tl_name t = n) reg"

definition register_tool :: "registry \<Rightarrow> tool \<Rightarrow> registry option" where
  "register_tool reg t = (if registry_get reg (tl_name t) \<noteq> None then None else Some (reg @ [t]))"

definition tool_is_flaky :: "registry \<Rightarrow> string \<Rightarrow> bool" where
  "tool_is_flaky reg n = (case registry_get reg n of None \<Rightarrow> False | Some t \<Rightarrow> tl_flaky t)"

definition match_error_signature :: "registry \<Rightarrow> string \<Rightarrow> string \<Rightarrow> string option" where
  "match_error_signature reg n output =
     (case registry_get reg n of None \<Rightarrow> None | Some t \<Rightarrow> List.find (\<lambda>sig. py_in sig output) (tl_error_signatures t))"

definition claim_of :: "string \<Rightarrow> string \<Rightarrow> resource_mode \<Rightarrow> resource_claim" where
  "claim_of k i m = \<lparr>rc_kind = k, rc_id = i, rc_mode = m\<rparr>"

definition first_domain_tools :: registry where
  "first_domain_tools =
     [\<lparr>tl_name = ''shell'', tl_side_effect = SeWrite, tl_claims = [], tl_flaky = False, tl_error_signatures = []\<rparr>,
      \<lparr>tl_name = ''edit_file'', tl_side_effect = SeWrite, tl_claims = [claim_of ''file'' ''*'' RMWrite], tl_flaky = False, tl_error_signatures = []\<rparr>,
      \<lparr>tl_name = ''read_file'', tl_side_effect = SeRead, tl_claims = [], tl_flaky = False, tl_error_signatures = []\<rparr>,
      \<lparr>tl_name = ''grep'', tl_side_effect = SeRead, tl_claims = [], tl_flaky = False, tl_error_signatures = []\<rparr>,
      \<lparr>tl_name = ''fetch'', tl_side_effect = SeNetwork, tl_claims = [claim_of ''rate_limit'' ''fetch'' RMWrite], tl_flaky = True,
       tl_error_signatures = [''HTTP 429'', ''host not allowlisted'']\<rparr>,
      \<lparr>tl_name = ''agent_subtask'', tl_side_effect = SeWrite, tl_claims = [], tl_flaky = False, tl_error_signatures = []\<rparr>,
      \<lparr>tl_name = ''external_computer'', tl_side_effect = SeExternal, tl_claims = [], tl_flaky = True,
       tl_error_signatures = [''allow_external_computer is false'', ''no live backend'']\<rparr>]"

definition host_allowed :: "string \<Rightarrow> string list \<Rightarrow> bool" where
  "host_allowed hostname allow =
     (let bare = (\<lambda>h. rev (dropWhile (\<lambda>c. c = CHR ''.'') (rev (py_lower h))))
      in \<exists>a \<in> set allow. bare a \<noteq> [] \<and> bare hostname = bare a)"

subsection \<open>The cache of read results\<close>

record tool_result =
  tx_tool :: string
  tx_ok :: bool
  tx_exit_code :: int
  tx_stdout :: string
  tx_stderr :: string
  tx_error_signature :: "string option"

record cache_item =
  ci_key :: string
  ci_stored_at :: real
  ci_result :: tool_result
  ci_snapshot :: string

record result_cache =
  ca_enabled :: bool
  ca_ttl_s :: real
  ca_items :: "cache_item list"

definition cacheable :: "side_effect \<Rightarrow> bool" where
  "cacheable e \<longleftrightarrow> e \<in> {SeRead, SePure}"

definition cache_get :: "real \<Rightarrow> string \<Rightarrow> result_cache \<Rightarrow> cache_item option \<times> result_cache" where
  "cache_get now key ca =
     (case List.find (\<lambda>i. ci_key i = key) (ca_items ca) of
        None \<Rightarrow> (None, ca)
      | Some i \<Rightarrow>
          if ca_ttl_s ca < now - ci_stored_at i then (None, ca\<lparr>ca_items := filter (\<lambda>x. ci_key x \<noteq> key) (ca_items ca)\<rparr>)
          else (Some i, ca))"

definition cache_lookup :: "real \<Rightarrow> tool \<Rightarrow> string \<Rightarrow> string \<Rightarrow> result_cache \<Rightarrow> tool_result option \<times> result_cache" where
  "cache_lookup now t key snapshot ca =
     (if \<not> ca_enabled ca \<or> \<not> cacheable (tl_side_effect t) then (None, ca)
      else case cache_get now key ca of
             (None, ca') \<Rightarrow> (None, ca')
           | (Some i, ca') \<Rightarrow> (if ci_snapshot i \<noteq> snapshot then None else Some (ci_result i), ca'))"

definition cache_store :: "real \<Rightarrow> tool \<Rightarrow> string \<Rightarrow> string \<Rightarrow> tool_result \<Rightarrow> result_cache \<Rightarrow> result_cache" where
  "cache_store now t key snapshot r ca =
     (if \<not> ca_enabled ca \<or> \<not> cacheable (tl_side_effect t) \<or> \<not> tx_ok r then ca
      else ca\<lparr>ca_items := filter (\<lambda>x. ci_key x \<noteq> key) (ca_items ca) @
                [\<lparr>ci_key = key, ci_stored_at = now, ci_result = r, ci_snapshot = snapshot\<rparr>]\<rparr>)"

definition invalidate_all :: "result_cache \<Rightarrow> result_cache" where
  "invalidate_all ca = ca\<lparr>ca_items := []\<rparr>"

subsection \<open>Invoking a tool\<close>

datatype command_origin = OrCriterion | OrScript | OrTool | OrJob | OrProbe | OrCaller | OrModel | OrSkill | OrFreeze

datatype invoke_error = UnknownTool | ApprovalRequired | ClaimTimeout | HandlerRaised

text \<open>\<open>te_handler\<close> is what the handler does to the world; \<open>te_granted\<close> says whether the claims were had before the timeout.\<close>

record 'w tool_env =
  te_registry :: registry
  te_require_approval :: bool
  te_grants :: "tool_grants option"
  te_key :: "string \<Rightarrow> string \<Rightarrow> string \<Rightarrow> string"
  te_snapshot :: "'w \<Rightarrow> string"
  te_handler :: "string \<Rightarrow> string \<Rightarrow> command_origin \<Rightarrow> 'w \<Rightarrow> tool_result option \<times> 'w"
  te_granted :: "string \<Rightarrow> resource_claim list \<Rightarrow> bool"
  te_now :: real

record 'w tool_world =
  tw_world :: 'w
  tw_cache :: "result_cache option"
  tw_invocations :: "tool_result list"

definition needs_approval :: "'w tool_env \<Rightarrow> tool \<Rightarrow> string \<Rightarrow> bool" where
  "needs_approval env t step \<longleftrightarrow>
     te_require_approval env \<and> tl_side_effect t \<notin> {SeRead, SePure} \<and>
     (case te_grants env of None \<Rightarrow> True | Some g \<Rightarrow> \<not> tool_approved g (tl_name t) step)"

definition looked_up :: "'w tool_env \<Rightarrow> tool \<Rightarrow> string \<Rightarrow> 'w tool_world \<Rightarrow> tool_result option \<times> result_cache option" where
  "looked_up env t inputs w =
     (case tw_cache w of
        None \<Rightarrow> (None, None)
      | Some ca \<Rightarrow>
          (case cache_lookup (te_now env) t (te_key env (tl_name t) inputs (te_snapshot env (tw_world w))) (te_snapshot env (tw_world w)) ca of
             (r, ca') \<Rightarrow> (r, Some ca')))"

definition cached_after :: "'w tool_env \<Rightarrow> tool \<Rightarrow> string \<Rightarrow> string \<Rightarrow> tool_result \<Rightarrow> result_cache \<Rightarrow> result_cache" where
  "cached_after env t inputs snapshot r ca =
     (let ca1 = cache_store (te_now env) t (te_key env (tl_name t) inputs snapshot) snapshot r ca
      in if cacheable (tl_side_effect t) then ca1 else invalidate_all ca1)"

definition signed :: "'w tool_env \<Rightarrow> tool \<Rightarrow> tool_result \<Rightarrow> tool_result" where
  "signed env t r =
     (if tx_ok r then r
      else r\<lparr>tx_error_signature := match_error_signature (te_registry env) (tl_name t) (tx_stdout r @ tx_stderr r)\<rparr>)"

definition invoke ::
    "'w tool_env \<Rightarrow> string \<Rightarrow> string \<Rightarrow> string \<Rightarrow> resource_claim list \<Rightarrow> command_origin \<Rightarrow> 'w tool_world \<Rightarrow>
     (invoke_error, tool_result) result \<times> 'w tool_world" where
  "invoke env name inputs step extra_claims origin w =
     (case registry_get (te_registry env) name of
        None \<Rightarrow> (Inl UnknownTool, w)
      | Some t \<Rightarrow>
          if needs_approval env t step then (Inl ApprovalRequired, w)
          else if \<not> te_granted env step (tl_claims t @ extra_claims) then (Inl ClaimTimeout, w)
          else
            (case looked_up env t inputs w of
               (Some r, ca) \<Rightarrow> (Inr r, w\<lparr>tw_cache := ca, tw_invocations := tw_invocations w @ [r]\<rparr>)
             | (None, ca) \<Rightarrow>
                 (case te_handler env name inputs origin (tw_world w) of
                    (None, w') \<Rightarrow> (Inl HandlerRaised, w\<lparr>tw_world := w', tw_cache := ca\<rparr>)
                  | (Some r0, w') \<Rightarrow>
                      (let r = signed env t r0; snapshot = te_snapshot env (tw_world w)
                       in (Inr r, w\<lparr>tw_world := w', tw_cache := map_option (cached_after env t inputs snapshot r) ca,
                                    tw_invocations := tw_invocations w @ [r]\<rparr>)))))"

subsection \<open>Where a command runs\<close>

text \<open>The executor of a handler context is None in every invocation; the caller's executor runs on its own backend.\<close>

datatype command_end = RefusedBy "command_error option" | RunsOn backend string | Crashed

definition executor_run :: "backend \<Rightarrow> command_origin \<Rightarrow> string \<Rightarrow> command_end" where
  "executor_run b origin command = (if b = Local \<and> origin \<in> {OrModel, OrSkill} then RefusedBy None else RunsOn b command)"

definition run_handler_command :: "exec_settings \<Rightarrow> backend option \<Rightarrow> command_origin \<Rightarrow> string \<Rightarrow> command_end" where
  "run_handler_command es executor origin command =
     (case executor of Some b \<Rightarrow> executor_run b origin command | None \<Rightarrow> RunsOn (configured_backend es) command)"

definition command_settings_of :: "exec_settings \<Rightarrow> bool \<Rightarrow> string \<Rightarrow> command_settings" where
  "command_settings_of es enabled allow = \<lparr>cm_enabled = enabled, cm_allowlist = allow, cm_backend = es_execution_backend es\<rparr>"

definition shell_handler :: "exec_settings \<Rightarrow> command_settings \<Rightarrow> backend option \<Rightarrow> command_origin \<Rightarrow> string \<Rightarrow> command_end" where
  "shell_handler es cm executor origin command =
     (if origin = OrModel then
        (case enforce_model_shell cm command of
           Inl e \<Rightarrow> RefusedBy (Some e)
         | Inr c \<Rightarrow> run_handler_command es executor origin c)
      else run_handler_command es executor origin command)"

definition proposed_command :: "string \<Rightarrow> string" where
  "proposed_command reply = strip_char (CHR 0x60) (py_strip (first_line (py_strip reply)))"

text \<open>The reply of the model is an argument; None where the model raised or there is none. The first line of a blank reply does not
  exist, and reading it raises.\<close>

definition agent_subtask_handler :: "exec_settings \<Rightarrow> command_settings \<Rightarrow> backend option \<Rightarrow> string option \<Rightarrow> command_end" where
  "agent_subtask_handler es cm executor reply =
     (case reply of
        None \<Rightarrow> RefusedBy None
      | Some text \<Rightarrow>
          if py_strip text = [] then Crashed
          else if proposed_command text = [] \<or> py_lower (proposed_command text) \<in> {''noop'', ''none'', ''n/a''} then RefusedBy None
          else case enforce_model_shell cm (proposed_command text) of
                 Inl e \<Rightarrow> RefusedBy (Some e)
               | Inr c \<Rightarrow> run_handler_command es executor OrModel c)"

subsection \<open>Lemmas on claims\<close>

definition acquisition_ok :: "acquisition \<Rightarrow> bool" where
  "acquisition_ok a \<longleftrightarrow> sorted (map claim_key (aq_pending a)) \<and>
     (\<forall>x \<in> set (aq_taken a). \<forall>y \<in> set (aq_pending a). claim_key x \<le> claim_key y) \<and>
     set (aq_claims a) = set (aq_taken a) \<union> set (aq_pending a)"

definition holders_backed :: "claim_system \<Rightarrow> bool" where
  "holders_backed s \<longleftrightarrow>
     (\<forall>k step. cl_holders s k = Some step \<longrightarrow> (\<exists>a \<in> set (cl_active s). aq_step a = step \<and> k \<in> claim_key ` set (aq_taken a)))"

definition exclusive_ok :: "claim_system \<Rightarrow> bool" where
  "exclusive_ok s \<longleftrightarrow> distinct (map aq_step (cl_active s)) \<and>
     (\<forall>a \<in> set (cl_active s). \<forall>c \<in> set (aq_taken a). cl_holders s (claim_key c) = Some (aq_step a))"

definition claims_ok :: "bool \<Rightarrow> claim_system \<Rightarrow> bool" where
  "claims_ok shared s \<longleftrightarrow> distinct (map aq_id (cl_active s)) \<and> (\<forall>a \<in> set (cl_active s). acquisition_ok a) \<and> holders_backed s \<and>
     (\<not> shared \<longrightarrow> exclusive_ok s)"

lemma same_id: "\<lbrakk>distinct (map aq_id as); a \<in> set as; b \<in> set as; aq_id a = aq_id b\<rbrakk> \<Longrightarrow> a = b"
  by (metis inj_on_eq_iff distinct_map)

lemma same_step: "\<lbrakk>distinct (map aq_step as); a \<in> set as; b \<in> set as; aq_step a = aq_step b\<rbrakk> \<Longrightarrow> a = b"
  by (metis inj_on_eq_iff distinct_map)

lemma took_sel [simp]: "aq_id (took a) = aq_id a" "aq_step (took a) = aq_step a" "aq_claims (took a) = aq_claims a"
  "aq_taken (took a) = aq_taken a @ [hd (aq_pending a)]" "aq_pending (took a) = tl (aq_pending a)"
  by (simp_all add: took_def)

lemma took_ok: "acquisition_ok a \<Longrightarrow> aq_pending a \<noteq> [] \<Longrightarrow> acquisition_ok (took a)"
  by (cases "aq_pending a") (auto simp: acquisition_ok_def)

lemma replaced_acquisition:
  assumes "distinct (map aq_id as)" "a \<in> set as" "aq_id a' = aq_id a"
  shows "set (replace_acquisition a' as) = insert a' (set as - {a})" "map aq_id (replace_acquisition a' as) = map aq_id as"
proof -
  have "x = a" if "x \<in> set as" "aq_id x = aq_id a'" for x using same_id[OF assms(1) that(1) assms(2)] that(2) assms(3) by simp
  then show "set (replace_acquisition a' as) = insert a' (set as - {a})" using assms(2,3) by (auto simp: replace_acquisition_def)
  show "map aq_id (replace_acquisition a' as) = map aq_id as" using assms(3) by (simp add: replace_acquisition_def)
qed

lemma dropped_acquisition:
  "distinct (map aq_id as) \<Longrightarrow> a \<in> set as \<Longrightarrow> set (drop_acquisition a as) = set as - {a}"
  by (auto simp: drop_acquisition_def dest: same_id)

lemma distinct_dropped: "distinct (map f as) \<Longrightarrow> distinct (map f (drop_acquisition a as))"
  by (simp add: drop_acquisition_def distinct_map_filter)

lemma finishing_claims_ok:
  assumes "claims_ok shared s" "a \<in> set (cl_active s)" "set (aq_taken a) \<subseteq> set cs"
  shows "claims_ok shared (s\<lparr>cl_holders := release_claims (aq_step a) cs (cl_holders s), cl_active := drop_acquisition a (cl_active s)\<rparr>)"
proof -
  let ?s = "s\<lparr>cl_holders := release_claims (aq_step a) cs (cl_holders s), cl_active := drop_acquisition a (cl_active s)\<rparr>"
  have d: "distinct (map aq_id (cl_active s))" using assms(1) by (simp add: claims_ok_def)
  note active = dropped_acquisition[OF d assms(2)]
  have "holders_backed ?s"
    unfolding holders_backed_def
  proof (intro allI impI)
    fix k step assume "cl_holders ?s k = Some step"
    then have h: "cl_holders s k = Some step" "\<not> (k \<in> claim_key ` set cs \<and> cl_holders s k = Some (aq_step a))"
      by (auto simp: release_claims_def split: if_splits)
    have "holders_backed s" using assms(1) by (simp add: claims_ok_def)
    then obtain b where b: "b \<in> set (cl_active s)" "aq_step b = step" "k \<in> claim_key ` set (aq_taken b)"
      using h(1) unfolding holders_backed_def by blast
    then have "b \<noteq> a" using h assms(3) by auto
    then show "\<exists>b \<in> set (cl_active ?s). aq_step b = step \<and> k \<in> claim_key ` set (aq_taken b)" using b active by auto
  qed
  moreover have "exclusive_ok ?s" if ex: "exclusive_ok s"
  proof -
    have "cl_holders ?s (claim_key c) = Some (aq_step b)" if b: "b \<in> set (cl_active s)" "b \<noteq> a" "c \<in> set (aq_taken b)" for b c
    proof -
      have "aq_step b \<noteq> aq_step a" using b same_step[of "cl_active s" b a] ex assms(2) by (auto simp: exclusive_ok_def)
      moreover have "cl_holders s (claim_key c) = Some (aq_step b)" using b ex by (simp add: exclusive_ok_def)
      ultimately show ?thesis by (simp add: release_claims_def)
    qed
    then show ?thesis using ex active distinct_dropped[of aq_step "cl_active s" a] unfolding exclusive_ok_def by simp
  qed
  ultimately show ?thesis using assms(1) d active distinct_dropped by (auto simp: claims_ok_def)
qed

lemma claim_step_ok:
  assumes "claims_ok shared s" "claim_step shared s s'"
  shows "claims_ok shared s'"
  using assms(2)
proof (cases rule: claim_step.cases)
  case (asking i step cs)
  then show ?thesis using assms(1)
    by (auto simp: claims_ok_def acquisition_ok_def sort_claims_def holders_backed_def exclusive_ok_def)
next
  case (taking a)
  have d: "distinct (map aq_id (cl_active s))" using assms(1) by (simp add: claims_ok_def)
  note active = replaced_acquisition[OF d taking(2), of "took a", simplified]
  have a: "acquisition_ok a" using assms(1) taking(2) by (simp add: claims_ok_def)
  have backed: "holders_backed s" using assms(1) by (simp add: claims_ok_def)
  have "holders_backed s'"
    unfolding holders_backed_def
  proof (intro allI impI)
    fix k step assume h: "cl_holders s' k = Some step"
    show "\<exists>b \<in> set (cl_active s'). aq_step b = step \<and> k \<in> claim_key ` set (aq_taken b)"
    proof (cases "k = claim_key (hd (aq_pending a))")
      case True
      then show ?thesis using h active unfolding taking(1) by simp
    next
      case False
      then have "cl_holders s k = Some step" using h unfolding taking(1) by simp
      then obtain b where b: "b \<in> set (cl_active s)" "aq_step b = step" "k \<in> claim_key ` set (aq_taken b)"
        using backed unfolding holders_backed_def by blast
      then show ?thesis using active unfolding taking(1) by (cases "b = a") auto
    qed
  qed
  moreover have "exclusive_ok s'" if ex: "exclusive_ok s"
  proof -
    have "map aq_step (replace_acquisition (took a) (cl_active s)) = map aq_step (cl_active s)"
      using same_id[OF d _ taking(2)] by (auto simp: replace_acquisition_def)
    moreover have "b = a" if "b \<in> set (cl_active s)" "c \<in> set (aq_taken b)" "claim_key c = claim_key (hd (aq_pending a))" for b c
    proof -
      have "cl_holders s (claim_key c) = Some (aq_step b)" using that(1,2) ex unfolding exclusive_ok_def by blast
      then have "aq_step b = aq_step a" using taking(4) that(3) unfolding may_take_def by simp
      then show ?thesis using same_step[of "cl_active s" b a] ex that(1) taking(2) by (simp add: exclusive_ok_def)
    qed
    ultimately show ?thesis using ex taking active unfolding exclusive_ok_def by (auto simp: exclusive_ok_def)
  qed
  ultimately show ?thesis using assms(1) active d took_ok[OF a taking(3)] unfolding taking(1) by (auto simp: claims_ok_def)
next
  case (timing_out a)
  then show ?thesis using finishing_claims_ok[OF assms(1) timing_out(2), of "aq_taken a"] by simp
next
  case (releasing a)
  moreover have "set (aq_taken a) \<subseteq> set (aq_claims a)" using assms(1) releasing(2) by (auto simp: claims_ok_def acquisition_ok_def)
  ultimately show ?thesis using finishing_claims_ok[OF assms(1) releasing(2)] by simp
qed

lemma no_claims_ok: "claims_ok shared no_claims"
  by (simp add: claims_ok_def no_claims_def holders_backed_def exclusive_ok_def)

interpretation claims: started_system "claim_step shared" "claims_ok shared" "\<lambda>s. s = no_claims" for shared
  by unfold_locales (auto intro: claim_step_ok no_claims_ok)

abbreviation claims_reachable :: "bool \<Rightarrow> claim_system \<Rightarrow> bool" where
  "claims_reachable shared s \<equiv> (claim_step shared)\<^sup>*\<^sup>* no_claims s"

lemma reachable_claims_ok: "claims_reachable shared s \<Longrightarrow> claims_ok shared s"
  using claims.reachable_inv by blast

text \<open>The acquisition that waits for the largest key finds it free, or taken by its own step.\<close>

lemma largest_wait_is_free:
  assumes "claims_ok shared s" "a \<in> set (cl_active s)" "\<forall>b \<in> set (cl_active s). aq_pending b \<noteq> []"
    "\<forall>b \<in> set (cl_active s). claim_key (hd (aq_pending b)) \<le> claim_key (hd (aq_pending a))"
  shows "\<exists>b \<in> set (cl_active s). may_take (cl_holders s) (aq_step b) (hd (aq_pending b))"
proof (cases "may_take (cl_holders s) (aq_step a) (hd (aq_pending a))")
  case False
  then obtain step where "cl_holders s (claim_key (hd (aq_pending a))) = Some step"
    unfolding may_take_def by (metis insertCI not_None_eq)
  moreover have "holders_backed s" using assms(1) by (simp add: claims_ok_def)
  ultimately obtain b where b: "b \<in> set (cl_active s)" "claim_key (hd (aq_pending a)) \<in> claim_key ` set (aq_taken b)"
    "cl_holders s (claim_key (hd (aq_pending a))) = Some (aq_step b)"
    unfolding holders_backed_def by blast
  have "acquisition_ok b" using assms(1) b(1) by (simp add: claims_ok_def)
  then have "claim_key (hd (aq_pending a)) \<le> claim_key (hd (aq_pending b))"
    using b(1,2) assms(3) unfolding acquisition_ok_def by (metis imageE hd_in_set)
  then have "claim_key (hd (aq_pending b)) = claim_key (hd (aq_pending a))" using assms(4) b(1) by (meson order.antisym)
  then have "may_take (cl_holders s) (aq_step b) (hd (aq_pending b))" using b(3) by (simp add: may_take_def)
  then show ?thesis using b(1) by blast
qed (use assms(2) in blast)

subsection \<open>Lemmas on the cache\<close>











subsection \<open>Properties\<close>

text \<open>
  C33. Claims never deadlock. However many invocations compete for whatever claims, and even when several of them share a step, some
  active one has all its claims or can take its next one.\<close>

theorem claims_never_deadlock:
  assumes "claims_reachable shared s" "cl_active s \<noteq> []"
  shows "\<exists>a \<in> set (cl_active s). aq_pending a = [] \<or> may_take (cl_holders s) (aq_step a) (hd (aq_pending a))"
proof (cases "\<exists>a \<in> set (cl_active s). aq_pending a = []")
  case False
  let ?f = "\<lambda>a. claim_key (hd (aq_pending a))"
  have "Max (?f ` set (cl_active s)) \<in> ?f ` set (cl_active s)" using assms(2) by (intro Max_in) auto
  then obtain a where a: "a \<in> set (cl_active s)" "?f a = Max (?f ` set (cl_active s))" by auto
  have "\<forall>b \<in> set (cl_active s). ?f b \<le> ?f a" unfolding a(2) by simp
  then show ?thesis using largest_wait_is_free[OF reachable_claims_ok[OF assms(1)] a(1)] False by blast
qed blast

text \<open>
  Claims exclude: when no step has two invocations at once, no two active invocations hold a claim on the same resource, and
  whoever has taken one is its holder.\<close>

theorem claims_exclude:
  assumes "claims_reachable False s" "a \<in> set (cl_active s)" "c \<in> set (aq_taken a)"
  shows "cl_holders s (claim_key c) = Some (aq_step a) \<and>
     (\<forall>b \<in> set (cl_active s). \<forall>d \<in> set (aq_taken b). claim_key d = claim_key c \<longrightarrow> b = a)"
proof -
  have "exclusive_ok s" using reachable_claims_ok[OF assms(1)] by (simp add: claims_ok_def)
  then show ?thesis using assms(2,3) same_step[of "cl_active s"] unfolding exclusive_ok_def by (metis option.inject)
qed


text \<open>
  On the host, only who may execute gets more than reading: with the grants the policy gives on the local backend, an invocation of the
  first-domain tools by a principal without exec or admin succeeds for read_file and grep alone, every other one changes nothing.\<close>

theorem only_reads_without_exec:
  assumes "te_registry env = first_domain_tools" "te_require_approval env" "te_grants env = Some (approve_tools True isol Local model_origin p)"
    "\<not> principal_may_exec p" "\<not> external_computer_allowed isol" "name \<notin> {''read_file'', ''grep''}"
  shows "fst (invoke env name inputs step extra origin w) \<in> {Inl UnknownTool, Inl ApprovalRequired} \<and>
     snd (invoke env name inputs step extra origin w) = w"
proof (cases "registry_get (te_registry env) name")
  case (Some t)
  have t: "t \<in> set first_domain_tools" "tl_name t = name" using Some assms(1) by (auto simp: registry_get_def dest: find_SomeD)
  have "tl_side_effect t \<notin> {SeRead, SePure}" using t assms(6) by (auto simp: first_domain_tools_def)
  moreover have "\<not> tool_approved (approve_tools True isol Local model_origin p) name step"
    using assms(4,5,6) by (auto simp: tool_approved_def approve_tools_def grant_all_def READ_TOOLS_def)
  ultimately have "needs_approval env t step" using assms(2,3) t(2) by (simp add: needs_approval_def)
  then show ?thesis using Some by (simp add: invoke_def)
qed (simp add: invoke_def)

text \<open>
  C35. Where a model's command runs. A handler passes no executor on, so the command of the model runs on the host exactly when it passes the
  allowlist while the settings name the container and the context override names the host, which is what the option --local-exec does;
  an executor would have refused it.\<close>

theorem model_command_on_host_iff:
  assumes "cm_backend cm = es_execution_backend es"
  shows "((\<exists>c. shell_handler es cm None OrModel command = RunsOn Local c) \<longleftrightarrow>
        is_ok (enforce_model_shell cm command) \<and> es_override es = Some Local) \<and>
     (\<forall>b c. shell_handler es cm (Some b) OrModel command \<noteq> RunsOn Local c)"
proof
  have "es_execution_backend es = Container" if "enforce_model_shell cm command = Inr c" for c
    using that assms by (auto simp: enforce_model_shell_def split: if_splits)
  then show "(\<exists>c. shell_handler es cm None OrModel command = RunsOn Local c) \<longleftrightarrow>
       is_ok (enforce_model_shell cm command) \<and> es_override es = Some Local"
    by (cases "enforce_model_shell cm command")
      (auto simp: shell_handler_def run_handler_command_def configured_backend_def split: option.splits)
  show "\<forall>b c. shell_handler es cm (Some b) OrModel command \<noteq> RunsOn Local c"
    by (auto simp: shell_handler_def run_handler_command_def executor_run_def split: sum.split)
qed

text \<open>The scheduler does not look at the mode of a claim: two reads of one resource exclude each other, although they do not conflict.\<close>

theorem claim_mode_is_ignored:
  assumes "rc_mode a = RMRead" "rc_mode b = RMRead" "claim_key a = claim_key b" "h (claim_key a) = Some s" "s \<noteq> step"
  shows "\<not> conflicts_with a b \<and> \<not> may_take h step b"
  using assms by (simp add: conflicts_with_def may_take_def)

theorem claim_mode_is_ignored_witness:
  "\<not> conflicts_with (claim_of ''file'' ''x'' RMRead) (claim_of ''file'' ''x'' RMRead) \<and>
   \<not> may_take [(''file'', ''x'') \<mapsto> ''s1''] ''s2'' (claim_of ''file'' ''x'' RMRead)"
  by (rule claim_mode_is_ignored[of _ _ _ "''s1''"]) (simp_all add: claim_of_def claim_key_def)

subsection \<open>Witnesses\<close>

definition two_files :: "resource_claim list" where
  "two_files = [claim_of ''file'' ''b'' RMWrite, claim_of ''file'' ''a'' RMWrite]"

definition asked :: "nat \<Rightarrow> string \<Rightarrow> acquisition" where
  "asked i step = \<lparr>aq_id = i, aq_step = step, aq_claims = two_files, aq_pending = sort_claims two_files, aq_taken = []\<rparr>"

definition contended :: claim_system where
  "contended = \<lparr>cl_holders = [(''file'', ''a'') \<mapsto> ''s1''], cl_active = [took (asked 1 ''s1''), asked 2 ''s2'']\<rparr>"

lemma sorted_two_files: "sort_claims two_files = [claim_of ''file'' ''a'' RMWrite, claim_of ''file'' ''b'' RMWrite]"
  by (simp add: sort_claims_def two_files_def claim_of_def claim_key_def less_char_def)

lemma contended_reachable: "claims_reachable False contended"
proof -
  let ?s1 = "no_claims\<lparr>cl_active := [asked 1 ''s1'']\<rparr>" and ?s2 = "no_claims\<lparr>cl_active := [asked 1 ''s1'', asked 2 ''s2'']\<rparr>"
  have 1: "claim_step False no_claims ?s1"
    using claim_step.asking[of 1 no_claims False "''s1''" two_files] by (simp add: no_claims_def asked_def)
  have 2: "claim_step False ?s1 ?s2"
    using claim_step.asking[of 2 ?s1 False "''s2''" two_files] by (simp add: no_claims_def asked_def)
  have "claim_step False ?s2 contended"
    using claim_step.taking[of "asked 1 ''s1''" ?s2 False]
    by (simp add: no_claims_def asked_def sorted_two_files contended_def may_take_def replace_acquisition_def took_def claim_of_def claim_key_def)
  then show ?thesis using 1 2 by (meson converse_rtranclp_into_rtranclp rtranclp.rtrancl_refl)
qed

theorem claims_never_deadlock_witness:
  "\<exists>a \<in> set (cl_active contended). aq_pending a = [] \<or> may_take (cl_holders contended) (aq_step a) (hd (aq_pending a))"
  by (rule claims_never_deadlock[OF contended_reachable]) (simp add: contended_def)

theorem claims_exclude_witness: "cl_holders contended (claim_key (claim_of ''file'' ''a'' RMWrite)) = Some ''s1''"
proof -
  have "took (asked 1 ''s1'') \<in> set (cl_active contended)" "claim_of ''file'' ''a'' RMWrite \<in> set (aq_taken (took (asked 1 ''s1'')))"
    by (simp_all add: contended_def asked_def sorted_two_files)
  from claims_exclude[OF contended_reachable this] show ?thesis by (simp add: asked_def)
qed

definition file_text :: tool_result where
  "file_text = \<lparr>tx_tool = ''read_file'', tx_ok = True, tx_exit_code = 0, tx_stdout = ''hello'', tx_stderr = [], tx_error_signature = None\<rparr>"

definition reading :: "unit tool_env" where
  "reading = \<lparr>te_registry = first_domain_tools, te_require_approval = True,
     te_grants = Some (approve_tools True \<lparr>is_default_backend = Local, is_allow_external_computer = False, is_long_lived_computer_backend = False,
       is_external_computer_allowlist = []\<rparr> Local False None),
     te_key = (\<lambda>n i s. n @ i @ s), te_snapshot = (\<lambda>_. ''h''), te_handler = (\<lambda>_ _ _ w. (Some file_text, w)), te_granted = (\<lambda>_ _. True),
     te_now = 0\<rparr>"

definition started :: "unit tool_world" where
  "started = \<lparr>tw_world = (), tw_cache = Some \<lparr>ca_enabled = True, ca_ttl_s = 120, ca_items = []\<rparr>, tw_invocations = []\<rparr>"





theorem only_reads_without_exec_witness:
  "snd (invoke reading ''shell'' ''ls'' ''s1'' [] OrTool started) = started"
proof -
  have "fst (invoke reading ''shell'' ''ls'' ''s1'' [] OrTool started) \<in> {Inl UnknownTool, Inl ApprovalRequired} \<and>
      snd (invoke reading ''shell'' ''ls'' ''s1'' [] OrTool started) = started"
    by (rule only_reads_without_exec) (auto simp: reading_def principal_may_exec_def external_computer_allowed_def)
  then show ?thesis by blast
qed

definition local_exec_cli :: exec_settings where
  "local_exec_cli = \<lparr>es_multi_node = False, es_execution_backend = Container, es_backend_was_set = False, es_api_allow_local_exec = False,
     es_golden_backend = None, es_allow_custom_image = False, es_container_image = [], es_override = Some Local, es_runtime_found = True\<rparr>"

theorem model_command_on_host_iff_witness:
  "\<exists>c. shell_handler local_exec_cli default_command_settings None OrModel ''ls -l'' = RunsOn Local c"
proof -
  have "enforce_model_shell default_command_settings ''ls -l'' = Inr ''ls -l''" by code_simp
  then show ?thesis
    using model_command_on_host_iff[of default_command_settings local_exec_cli "''ls -l''"]
    by (simp add: default_command_settings_def local_exec_cli_def)
qed

end
