(* ===== verification/Spec2Isabelle.thy ===== *)
theory Spec2Isabelle
  imports Run_History Op_Ledger Hash_Ledger Run_Queue Skill_Promotion Job_Quota Idempotency Program_Requests
    Model_Client Tool_Runtime
begin

text \<open>
  Verification of Recertia, a run engine for task-solving agents that learns reusable skills.

  \<^bold>\<open>The program.\<close>  A run takes a task with a goal, compiles the goal to criteria, and walks a fixed graph of
  nodes (intake, retrieve, plan, fan_out, solve, validate, join, the failure nodes, and the learning nodes distill, review
  and store) until finalize.  The orchestrator (src/recertia/graph/engine.py) executes one node per hop, checks the
  route against the table of contracts/graph.py, and commits state and route entry in one transaction that is fenced by the
  run's lease.  Workers take runs from a queue; effects of a node go through an operation ledger so that a resumed run does
  not repeat them; audit records go into a hash-chained file.  Beside the runs lives the skill library: versions that
  distillation writes, their lifecycle, the evidence that finished runs yield about them, the active set that
  retrieval sees, and the golden-gated promotion to approved.  Models are called through a client with retries and a circuit
  breaker; the commands they propose pass an allowlist, an approval gate and resource claims before a tool runs, and what a
  caller may do at all is decided by one table.  Improvement jobs spend a weekly quota, and migration programs
  chain goals into steps, each of which binds one run.

  \<^bold>\<open>Theories and sources.\<close>
  \<^item> \<open>Recertia_Prelude\<close>: the result type \<open>error + value\<close> and its bind, list and map lemmas used everywhere.
  \<^item> \<open>Skill_Status\<close>, \<open>Budgets\<close>, \<open>Run_Contracts\<close>, \<open>Run_State\<close>: the data contracts (contracts/status.py, budget.py,
    criteria.py, failure.py, branch.py, run.py); pydantic models are records, literals datatypes, validators
    boolean functions.  A sensitivity proof binds a criterion by its evidence hash; the digest is a parameter.
  \<^item> \<open>Goal_Compiler\<close>: contracts/goal.py, from goal to criteria, with path quoting and literal rendering.
  \<^item> \<open>Route_Table\<close>: contracts/graph.py, all routes with executable predicates.
  \<^item> \<open>Attempt_Meter\<close>, \<open>Criterion_Runner\<close>: nodes/attempt.py and validation/criteria.py, judge.py.
  \<^item> \<open>Node_Plan\<close>, \<open>Node_Solve\<close>, \<open>Node_Validate\<close>, \<open>Node_Join\<close>, \<open>Node_Failure\<close>, \<open>Node_Learn\<close>: one function per node of
    src/recertia/nodes, returning the new state, the chosen route and its effects, or the exception.  Models, commands
    and retrieval are functions of the node context.
  \<^item> \<open>Mea_Audit\<close>: src/recertia/mea and contracts/audited_task_state.py, the manager-executor-auditor loop.
  \<^item> \<open>Run_Lease\<close>, \<open>Checkpoint_Store\<close>: graph/lease.py, persistence/fence.py, graph/store.py and runtime/hop.py; tables
    are lists of rows, a transaction a function from database to error or database.
  \<^item> \<open>Graph_Engine\<close>, \<open>Engine_Run\<close>, \<open>Run_History\<close>: graph/engine.py; a hop, the loop with its step limit, start and resume,
    and the interleaved system of any number of workers on one run.
  \<^item> \<open>Op_Ledger\<close>: graph/ops.py, with the critical sections of run_once as the steps of several processes.
  \<^item> \<open>Hash_Ledger\<close>: contracts/ledger.py and src/recertia/ledger, over the bytes of the file.
  \<^item> \<open>Run_Queue\<close>: workers/queue.py with fair claiming and orphan reconciliation.
  \<^item> \<open>Skill_Stats\<close>: contracts/stats.py, eval.py, src/recertia/stats.py, autonomy.py and the contribution, retirement,
    live_mix and portfolio modules of memory/procedural; floats are reals.
  \<^item> \<open>Skill_Document\<close>, \<open>Skill_Lint\<close>: contracts/skill.py, profiles.py, lint.py and memory/procedural/lint.py, hygiene.py.
  \<^item> \<open>Skill_Store\<close>: memory/procedural/store.py, allocate.py, lineage.py, apply_diversity.py; the directory tree of a
    library is a record of maps and lists.
  \<^item> \<open>Eval_Store\<close>: evals/store.py and outbox.py, observations of finished runs and their delivery.
  \<^item> \<open>Skill_Applicability\<close>: memory/procedural/applicability.py and composition.py.
  \<^item> \<open>Skill_Lifecycle\<close>: review/lifecycle.py, field_failures.py, the revoke drain of lineage.py and the
    recertification jobs of jobs/workers.py.
  \<^item> \<open>Active_Set\<close>: memory/procedural/active_set.py and review/shadow.py.
  \<^item> \<open>Skill_Promotion\<close>: review/promotion.py, and the system in which all writers of the library interleave.
  \<^item> \<open>Job_Quota\<close>: contracts/policy.py, policy_load.py, jobs/quota_repo.py, jobs/__init__.py and enablement.py; the weekly quota, its
    ledger in the database and the runner that reserves before a job and settles after it.
  \<^item> \<open>Step_Systems\<close>: invariants and stable properties of interleaved steps, the locales of the shared stores.
  \<^item> \<open>Idempotency\<close>: persistence/idempotency.py, keys with leases, and the system of requests that share the table.
  \<^item> \<open>Migration_Program\<close>, \<open>Program_Requests\<close>: contracts/program.py, src/recertia/programs and app/programs.py; the program record,
    materialising and previewing a step, the versioned table, one function per handler, and the interleaved system of requests.
  \<^item> \<open>Model_Client\<close>: solver/resilience.py and the client of solver/model.py; the provider, its delays and the random rolls are functions
    of the attempt number, and the calls of several threads are steps on one circuit.
  \<^item> \<open>Access_Policy\<close>: ports/identity.py, app/authz.py, the choice of the backend in solver/executor.py and the checks of
    solver/container.py; settings, override and runtime are one record.
  \<^item> \<open>Command_Policy\<close>: solver/command_policy.py with the word splitting of shlex.
  \<^item> \<open>Tool_Runtime\<close>: solver/claims.py, registry.py, runtime.py, result_cache.py, src/recertia/cache.py and the command handlers of
    solver/handlers.py; acquisitions are interleaved steps, an invocation a function of the tool world, handlers a parameter.

  \<^bold>\<open>What is proved.\<close>
  \<^item> Runs: the committed checkpoints of a run form one path of the route table under any interleaving of workers, numbered
    without gaps; a solved run passed its required criteria; pausing and resuming changes nothing; a
    run ends within its attempt budget.  Tokens of checkpoints never decrease, and the fence admits only the last
    holder.  Effects recorded in the ledger are final and run once when undisturbed.
  \<^item> Queue and ledger: claims are fair and bounded, overtaken claims are powerless; the chain determines its
    history, incremental verification equals the full scan, repair drops only a torn line.
  \<^item> Nodes: routing, budgets, gating, learning firewall, compilation of goals, scoring, error paths.
  \<^item> Library: nothing is approved behind the gate; the library refines a small lifecycle automaton (\<open>spec_step\<close>);
    promotion never regresses on fixtures; refusals are audited; the active set respects its cap; revocation
    covers its targets; version numbers are consecutive under concurrency; each finished run is observed once.
  \<^item> Jobs and programs: the quota accounts equal the sums over the ledger; admission is reservation; an overtaken
    request cannot touch a key; saves of programs serialise, a bind passes every gate and its retry is answered with
    the same run, and what holds of consent and abandonment as long as no checkout has failed.
  \<^item> Models and tools: a call is bounded in attempts and time and charged once per answer; an open circuit refuses; claims
    never deadlock and exclude each other; cached results are genuine; keys stay in their tenant, the host is closed to models
    unless the override is set, proposed commands are single commands of allowed programs, and untrusted text cannot
    end its block.
  Several theorems state behaviour the documentation does not intend; they carry their own explanation.

  \<^bold>\<open>Interfaces.\<close>  \<open>run_store\<close> states what the orchestrator needs of a checkpoint store and is interpreted on
  \<open>Checkpoint_Store\<close>; \<open>node_contract\<close> states what a node promises and is interpreted on the table of nodes.
  \<open>step_system\<close> and \<open>started_system\<close> carry invariants and stable properties to reachable states; they are interpreted on the
  requests for idempotency keys (\<open>idem\<close>), the requests on programs (\<open>programs\<close>), the calls on a circuit (\<open>calls\<close>), the claims of
  invocations (\<open>claims\<close>) and the cached results (\<open>cached\<close>).

  \<^bold>\<open>Bounds and fuel.\<close>  The engine's loop carries the step limit of the code (MAX_GRAPH_STEPS, 500); a run needs at
  most \<open>8 + 5 * max_attempts\<close> hops, so up to 98 attempts the limit is not met.  The walk over uses stops at depth three and its
  recursion is on that depth.  The outbox gives up after eight attempts.  A pending key can be taken over after 30 seconds, and a reservation sweeps at most
  500 expired keys.  The attempts of a model call recurse on the number that is left, max_retries + 1 at first.  All other loops are structural or have a
  termination proof.

  \<^bold>\<open>Not modelled.\<close>  Process, container and network I/O (the runs of solver/executor.py and container.py, the file and fetch
  handlers, HTTP API, console, command line) and the skill applicator of solver/apply.py: their results are parameters.  Retrieval backends, settings, telemetry, schema migration and legacy import keep no
  state the modelled code reads back.  The golden and held-out runners replay tasks through the
  engine; the gate takes their report as a parameter.  The approval helper of review/promotion.py that tests use to
  seed a library bypasses the gate by design and is not a step of the system.  Of the programs, the decoding of a
  suggested pack, authorisation and the git commands are left out; the tip of a repository is a parameter.\<close>

end
